(* ===== verification/Session_Queue.thy ===== *)
theory Session_Queue
  imports Maturana_Prelude
begin

text \<open>
  \<open>crates/maturana-core/src/session_db.rs\<close>: the per-session work queue. The two SQLite
  files of a session are one record of tables (rows in insertion order, primary-key tables
  as maps) and the progress side-lane a map from file name to events. Each SQL statement
  is one definition; statements of one function run in the order of the code. SQLite's
  \<open>datetime\<close> drops fractions of a second (\<open>secs\<close>); a statement that reads
  \<open>datetime('now')\<close> takes that clock as an argument of its own. New ids (UUIDs) are
  arguments too: an id already in the table is refused, as the primary key does.
\<close>

section \<open>Tables\<close>

datatype in_status = Pending | Processing | Completed | Failed

record in_row =
  i_id :: str
  i_seq :: int
  i_kind :: str
  i_channel :: str
  i_platform_id :: str
  i_thread_id :: "str option"
  i_content :: str
  i_status :: in_status
  i_tries :: int
  i_process_after :: "int option" \<comment> \<open>whole seconds, as \<open>datetime\<close> writes it\<close>
  i_created_at :: timestamp
  i_status_changed :: timestamp

record out_row =
  o_id :: str
  o_seq :: int
  o_in_reply_to :: "str option"
  o_kind :: str
  o_channel :: str
  o_platform_id :: str
  o_thread_id :: "str option"
  o_content :: str
  o_created_at :: timestamp

record progress_event =
  pe_seq :: nat
  pe_kind :: str
  pe_text :: str

record session =
  messages_in :: "in_row list"
  delivered :: "str \<rightharpoonup> str option \<times> timestamp"
  cancels :: "str \<rightharpoonup> timestamp"
  messages_out :: "out_row list"
  progress :: "str \<rightharpoonup> progress_event list"

definition empty_session :: session where
  "empty_session = \<lparr> messages_in = [], delivered = Map.empty, cancels = Map.empty,
     messages_out = [], progress = Map.empty \<rparr>"

datatype db_error = UniqueViolation

definition secs :: "timestamp \<Rightarrow> int" where
  "secs t = t div 1000000000"

definition next_seq :: "int list \<Rightarrow> int" where
  "next_seq seqs = (case seqs of [] \<Rightarrow> 0 | s # ss \<Rightarrow> fold max ss s) + 1"

section \<open>Inbound queue\<close>

definition insert_inbound ::
  "str \<Rightarrow> timestamp \<Rightarrow> str \<Rightarrow> str \<Rightarrow> str \<Rightarrow> str option \<Rightarrow> str \<Rightarrow> session \<Rightarrow> db_error + str \<times> session" where
  "insert_inbound uuid now kind channel platform thread content s =
     (let i = ''msg-'' @ uuid in
      if i \<in> i_id ` set (messages_in s) then Inl UniqueViolation
      else Inr (i, s\<lparr>messages_in := messages_in s @
        [\<lparr> i_id = i, i_seq = next_seq (map i_seq (messages_in s)), i_kind = kind,
           i_channel = channel, i_platform_id = platform, i_thread_id = thread,
           i_content = content, i_status = Pending, i_tries = 0, i_process_after = None,
           i_created_at = now, i_status_changed = now \<rparr>]\<rparr>))"

text \<open>\<open>UPDATE messages_in SET \<dots> WHERE p\<close>, with the number of rows changed.\<close>

definition update_where :: "(in_row \<Rightarrow> bool) \<Rightarrow> (in_row \<Rightarrow> in_row) \<Rightarrow> session \<Rightarrow> nat \<times> session" where
  "update_where p f s =
     (length (filter p (messages_in s)),
      s\<lparr>messages_in := map (\<lambda>r. if p r then f r else r) (messages_in s)\<rparr>)"

definition cancel_pending_inbound :: "timestamp \<Rightarrow> session \<Rightarrow> nat \<times> session" where
  "cancel_pending_inbound now =
     update_where (\<lambda>r. i_status r = Pending) (\<lambda>r. r\<lparr>i_status := Failed, i_status_changed := now\<rparr>)"

text \<open>\<open>INSERT OR IGNORE INTO cancels SELECT id \<dots> WHERE status = 'processing'\<close>.\<close>

fun insert_or_ignore :: "timestamp \<Rightarrow> str list \<Rightarrow> (str \<rightharpoonup> timestamp) \<Rightarrow> nat \<times> (str \<rightharpoonup> timestamp)" where
  "insert_or_ignore now [] m = (0, m)"
| "insert_or_ignore now (i # is) m =
     (case m i of
        Some _ \<Rightarrow> insert_or_ignore now is m
      | None \<Rightarrow> (case insert_or_ignore now is (m(i \<mapsto> now)) of (n, m') \<Rightarrow> (Suc n, m')))"

definition request_cancel_in_progress :: "timestamp \<Rightarrow> session \<Rightarrow> nat \<times> session" where
  "request_cancel_in_progress now s =
     (case insert_or_ignore now
             (map i_id (filter (\<lambda>r. i_status r = Processing) (messages_in s))) (cancels s) of
        (n, m) \<Rightarrow> (n, s\<lparr>cancels := m\<rparr>))"

definition is_cancel_requested :: "session \<Rightarrow> str \<Rightarrow> bool" where
  "is_cancel_requested s i = (cancels s i \<noteq> None)"

section \<open>Leases\<close>

record claim_policy =
  lease_seconds :: int
  max_tries :: int
  backoff_seconds :: int

definition default_policy :: claim_policy where
  "default_policy = \<lparr> lease_seconds = 420, max_tries = 5, backoff_seconds = 15 \<rparr>"

definition expired :: "claim_policy \<Rightarrow> timestamp \<Rightarrow> in_row \<Rightarrow> bool" where
  "expired pol t r \<longleftrightarrow> i_status r = Processing \<and>
     secs (i_status_changed r) + max (lease_seconds pol) 0 \<le> secs t"

definition requeue_expired :: "claim_policy \<Rightarrow> timestamp \<Rightarrow> timestamp \<Rightarrow> session \<Rightarrow> session" where
  "requeue_expired pol now t s =
     snd (update_where (\<lambda>r. expired pol t r \<and> i_tries r < max (max_tries pol) 1)
       (\<lambda>r. r\<lparr>i_status := Pending, i_status_changed := now,
              i_process_after := Some (secs t + max (backoff_seconds pol) 0)\<rparr>) s)"

definition exhausted :: "claim_policy \<Rightarrow> timestamp \<Rightarrow> in_row \<Rightarrow> bool" where
  "exhausted pol t r \<longleftrightarrow> expired pol t r \<and> max (max_tries pol) 1 \<le> i_tries r"

definition fail_exhausted :: "claim_policy \<Rightarrow> timestamp \<Rightarrow> timestamp \<Rightarrow> session \<Rightarrow> session" where
  "fail_exhausted pol now t s =
     snd (update_where (exhausted pol t) (\<lambda>r. r\<lparr>i_status := Failed, i_status_changed := now\<rparr>) s)"

text \<open>
  The three statements of \<open>recover_stuck_inbound\<close>: requeue (clock \<open>t1\<close>), capture the rows
  about to be dead-lettered (clock \<open>t2\<close>), fail them (clock \<open>t3\<close>).
\<close>

definition recover_stuck_inbound ::
  "claim_policy \<Rightarrow> timestamp \<Rightarrow> timestamp \<Rightarrow> timestamp \<Rightarrow> timestamp \<Rightarrow> session \<Rightarrow> in_row list \<times> session" where
  "recover_stuck_inbound pol now t1 t2 t3 s =
     (let s1 = requeue_expired pol now t1 s;
          dead = filter (exhausted pol t2) (messages_in s1)
      in (dead, fail_exhausted pol now t3 s1))"

section \<open>Outbound\<close>

definition write_outbound ::
  "str \<Rightarrow> timestamp \<Rightarrow> str option \<Rightarrow> str \<Rightarrow> str \<Rightarrow> str \<Rightarrow> str option \<Rightarrow> str \<Rightarrow> session \<Rightarrow> db_error + str \<times> session" where
  "write_outbound uuid now reply kind channel platform thread content s =
     (let i = ''out-'' @ uuid in
      if i \<in> o_id ` set (messages_out s) then Inl UniqueViolation
      else Inr (i, s\<lparr>messages_out := messages_out s @
        [\<lparr> o_id = i, o_seq = next_seq (map o_seq (messages_out s)), o_in_reply_to = reply,
           o_kind = kind, o_channel = channel, o_platform_id = platform, o_thread_id = thread,
           o_content = content, o_created_at = now \<rparr>]\<rparr>))"

text \<open>The synthetic reply to every dead-lettered request, best effort (\<open>let _ = \<dots>\<close>).\<close>

fun notify_dead :: "str \<Rightarrow> timestamp \<Rightarrow> (in_row \<times> str) list \<Rightarrow> session \<Rightarrow> session" where
  "notify_dead body now [] s = s"
| "notify_dead body now ((r, uuid) # rs) s =
     notify_dead body now rs
       (case write_outbound uuid now (Some (i_id r)) ''chat'' (i_channel r) (i_platform_id r)
               (i_thread_id r) body s of Inl _ \<Rightarrow> s | Inr (_, s') \<Rightarrow> s')"

definition claimable :: "timestamp \<Rightarrow> in_row \<Rightarrow> bool" where
  "claimable t r \<longleftrightarrow> i_status r = Pending \<and>
     (case i_process_after r of None \<Rightarrow> True | Some a \<Rightarrow> a \<le> secs t)"

text \<open>\<open>SELECT \<dots> ORDER BY seq ASC LIMIT n\<close>, then one \<open>UPDATE \<dots> WHERE id\<close> per row.\<close>

definition select_claimable :: "nat \<Rightarrow> timestamp \<Rightarrow> session \<Rightarrow> in_row list" where
  "select_claimable limit t s = take limit (sort_key i_seq (filter (claimable t) (messages_in s)))"

definition mark_claimed :: "timestamp \<Rightarrow> in_row list \<Rightarrow> session \<Rightarrow> session" where
  "mark_claimed now rs s = fold (\<lambda>m s. snd (update_where (\<lambda>r. i_id r = i_id m)
     (\<lambda>r. r\<lparr>i_status := Processing, i_tries := i_tries r + 1, i_status_changed := now\<rparr>) s)) rs s"

record clocks =
  ck_now :: timestamp  \<comment> \<open>\<open>Utc::now\<close> of the recovery\<close>
  ck_requeue :: timestamp
  ck_dead :: timestamp
  ck_fail :: timestamp
  ck_reply :: timestamp \<comment> \<open>\<open>Utc::now\<close> of the synthetic replies\<close>
  ck_select :: timestamp
  ck_mark :: timestamp \<comment> \<open>\<open>Utc::now\<close> of the claim\<close>

definition claim_pending_inbound_with_policy ::
  "claim_policy \<Rightarrow> clocks \<Rightarrow> str \<Rightarrow> str list \<Rightarrow> nat \<Rightarrow> session \<Rightarrow> in_row list \<times> session" where
  "claim_pending_inbound_with_policy pol ck body uuids limit s =
     (case recover_stuck_inbound pol (ck_now ck) (ck_requeue ck) (ck_dead ck) (ck_fail ck) s of
        (dead, s1) \<Rightarrow>
          let s2 = notify_dead body (ck_reply ck) (zip dead uuids) s1;
              ms = select_claimable limit (ck_select ck) s2
          in (ms, mark_claimed (ck_mark ck) ms s2))"

definition claim_pending_inbound ::
  "clocks \<Rightarrow> str \<Rightarrow> str list \<Rightarrow> nat \<Rightarrow> session \<Rightarrow> in_row list \<times> session" where
  "claim_pending_inbound = claim_pending_inbound_with_policy default_policy"

definition requeue_inbound :: "timestamp \<Rightarrow> str \<Rightarrow> session \<Rightarrow> bool \<times> session" where
  "requeue_inbound now i s =
     (case update_where (\<lambda>r. i_id r = i)
        (\<lambda>r. r\<lparr>i_status := Pending, i_tries := 0, i_process_after := None, i_status_changed := now\<rparr>) s of
        (n, s') \<Rightarrow> (0 < n, s'))"

definition mark_inbound_completed :: "timestamp \<Rightarrow> str list \<Rightarrow> session \<Rightarrow> session" where
  "mark_inbound_completed now is s = fold (\<lambda>i s.
     let s' = snd (update_where (\<lambda>r. i_id r = i)
                (\<lambda>r. r\<lparr>i_status := Completed, i_status_changed := now\<rparr>) s)
     in s'\<lparr>cancels := (cancels s')(i := None)\<rparr>) is s"

record queue_stats =
  qs_pending :: nat
  qs_processing :: nat
  qs_completed :: nat
  qs_failed :: nat

definition queue_stats :: "session \<Rightarrow> queue_stats" where
  "queue_stats s = (let n = \<lambda>st. length (filter (\<lambda>r. i_status r = st) (messages_in s)) in
     \<lparr> qs_pending = n Pending, qs_processing = n Processing, qs_completed = n Completed, qs_failed = n Failed \<rparr>)"

definition list_dead_letters :: "session \<Rightarrow> in_row list" where
  "list_dead_letters s = sort_key i_seq (filter (\<lambda>r. i_status r = Failed) (messages_in s))"

definition list_recent_inbound :: "nat \<Rightarrow> session \<Rightarrow> in_row list" where
  "list_recent_inbound limit s = take limit (sort_key (\<lambda>r. - i_seq r) (messages_in s))"

definition list_recent_outbound :: "nat \<Rightarrow> session \<Rightarrow> out_row list" where
  "list_recent_outbound limit s = take limit (sort_key (\<lambda>r. - o_seq r) (messages_out s))"

section \<open>Delivery\<close>

definition list_undelivered :: "session \<Rightarrow> out_row list" where
  "list_undelivered s = filter (\<lambda>r. delivered s (o_id r) = None) (sort_key o_seq (messages_out s))"

definition find_reply_outbound :: "session \<Rightarrow> str \<Rightarrow> out_row option" where
  "find_reply_outbound s i =
     (case sort_key o_seq (filter (\<lambda>r. o_in_reply_to r = Some i) (messages_out s)) of
        [] \<Rightarrow> None | r # _ \<Rightarrow> Some r)"

definition mark_delivered :: "timestamp \<Rightarrow> str \<Rightarrow> str option \<Rightarrow> session \<Rightarrow> session" where
  "mark_delivered now i platform s = s\<lparr>delivered := (delivered s)(i \<mapsto> (platform, now))\<rparr>"

definition claim_delivery :: "timestamp \<Rightarrow> str \<Rightarrow> session \<Rightarrow> bool \<times> session" where
  "claim_delivery now i s =
     (case delivered s i of
        Some _ \<Rightarrow> (False, s)
      | None \<Rightarrow> (True, s\<lparr>delivered := (delivered s)(i \<mapsto> (None, now))\<rparr>))"

definition unclaim_delivery :: "str \<Rightarrow> session \<Rightarrow> session" where
  "unclaim_delivery i s =
     (case delivered s i of
        Some (None, _) \<Rightarrow> s\<lparr>delivered := (delivered s)(i := None)\<rparr>
      | _ \<Rightarrow> s)"

section \<open>Progress side-lane\<close>

definition progress_file :: "str \<Rightarrow> str" where
  "progress_file i =
     map (\<lambda>c. if is_ascii_alnum c \<or> c = CHR ''-'' \<or> c = CHR ''_'' then c else CHR ''_'') i @ ''.jsonl''"

definition read_progress :: "session \<Rightarrow> str \<Rightarrow> progress_event list" where
  "read_progress s i = (case progress s (progress_file i) of None \<Rightarrow> [] | Some es \<Rightarrow> es)"

definition append_progress :: "str \<Rightarrow> progress_event \<Rightarrow> session \<Rightarrow> session" where
  "append_progress i e s =
     s\<lparr>progress := (progress s)(progress_file i \<mapsto> read_progress s i @ [e])\<rparr>"

definition clear_progress :: "str \<Rightarrow> session \<Rightarrow> session" where
  "clear_progress i s = s\<lparr>progress := (progress s)(progress_file i := None)\<rparr>"

section \<open>Rows under the updates\<close>

lemma update_where_rows [simp]:
  "messages_in (snd (update_where p f s)) = map (\<lambda>r. if p r then f r else r) (messages_in s)"
  by (simp add: update_where_def)

lemma update_where_frame [simp]:
  "messages_out (snd (update_where p f s)) = messages_out s"
  "delivered (snd (update_where p f s)) = delivered s"
  "cancels (snd (update_where p f s)) = cancels s"
  "progress (snd (update_where p f s)) = progress s"
  by (simp_all add: update_where_def)

text \<open>What identifies the rows, in order: no statement but an insert changes it.\<close>

definition keys_in :: "session \<Rightarrow> (str \<times> int) list" where
  "keys_in s = map (\<lambda>r. (i_id r, i_seq r)) (messages_in s)"

lemma keys_update_where:
  "(\<And>r. i_id (f r) = i_id r \<and> i_seq (f r) = i_seq r) \<Longrightarrow> keys_in (snd (update_where p f s)) = keys_in s"
  by (simp add: keys_in_def)

definition bump :: "timestamp \<Rightarrow> in_row \<Rightarrow> in_row" where
  "bump now r = r\<lparr>i_status := Processing, i_tries := i_tries r + 1, i_status_changed := now\<rparr>"

lemma bump_simps [simp]:
  "i_id (bump now r) = i_id r" "i_seq (bump now r) = i_seq r" "i_status (bump now r) = Processing"
  "i_tries (bump now r) = i_tries r + 1" "i_status_changed (bump now r) = now"
  by (simp_all add: bump_def)

lemma mark_claimed_rows:
  "distinct (map i_id ms) \<Longrightarrow> messages_in (mark_claimed now ms s) =
     map (\<lambda>r. if i_id r \<in> i_id ` set ms then bump now r else r) (messages_in s)"
proof (induction ms arbitrary: s)
  case Nil
  then show ?case by (simp add: mark_claimed_def)
next
  case (Cons m ms)
  let ?s = "snd (update_where (\<lambda>r. i_id r = i_id m) (bump now) s)"
  have "mark_claimed now (m # ms) s = mark_claimed now ms ?s"
    by (simp add: mark_claimed_def bump_def [abs_def])
  with Cons show ?case by (auto simp: image_iff)
qed

lemma mark_claimed_frame [simp]:
  "messages_out (mark_claimed now ms s) = messages_out s"
  "delivered (mark_claimed now ms s) = delivered s"
  "cancels (mark_claimed now ms s) = cancels s"
  unfolding mark_claimed_def by (induction ms arbitrary: s) simp_all

lemma notify_dead_frame [simp]:
  "messages_in (notify_dead body now ps s) = messages_in s"
  "delivered (notify_dead body now ps s) = delivered s"
  "cancels (notify_dead body now ps s) = cancels s"
  by (induction body now ps s rule: notify_dead.induct)
     (auto simp: write_outbound_def Let_def split: sum.splits)

text \<open>The rows a claim leaves, in one expression.\<close>

definition after_requeue :: "claim_policy \<Rightarrow> timestamp \<Rightarrow> timestamp \<Rightarrow> in_row \<Rightarrow> in_row" where
  "after_requeue pol now t r =
     (if expired pol t r \<and> i_tries r < max (max_tries pol) 1
      then r\<lparr>i_status := Pending, i_status_changed := now,
             i_process_after := Some (secs t + max (backoff_seconds pol) 0)\<rparr> else r)"

definition after_fail :: "claim_policy \<Rightarrow> timestamp \<Rightarrow> timestamp \<Rightarrow> in_row \<Rightarrow> in_row" where
  "after_fail pol now t r =
     (if exhausted pol t r then r\<lparr>i_status := Failed, i_status_changed := now\<rparr> else r)"

definition recovered :: "claim_policy \<Rightarrow> clocks \<Rightarrow> in_row \<Rightarrow> in_row" where
  "recovered pol ck = after_fail pol (ck_now ck) (ck_fail ck) \<circ> after_requeue pol (ck_now ck) (ck_requeue ck)"

lemma recover_rows:
  "recover_stuck_inbound pol (ck_now ck) (ck_requeue ck) (ck_dead ck) (ck_fail ck) s = (dead, s1) \<Longrightarrow>
     dead = filter (exhausted pol (ck_dead ck)) (map (after_requeue pol (ck_now ck) (ck_requeue ck)) (messages_in s)) \<and>
     messages_in s1 = map (recovered pol ck) (messages_in s) \<and>
     messages_out s1 = messages_out s \<and> delivered s1 = delivered s \<and> cancels s1 = cancels s"
  by (auto simp: recover_stuck_inbound_def Let_def requeue_expired_def fail_exhausted_def recovered_def
    after_requeue_def [abs_def] after_fail_def [abs_def] comp_def)

lemma recovered_key [simp]:
  "i_id (recovered pol ck r) = i_id r" "i_seq (recovered pol ck r) = i_seq r"
  "i_tries (recovered pol ck r) = i_tries r" "i_content (recovered pol ck r) = i_content r"
  by (simp_all add: recovered_def after_fail_def after_requeue_def)

lemma select_claimable_set:
  "m \<in> set (select_claimable limit t s) \<Longrightarrow> m \<in> set (messages_in s) \<and> claimable t m"
  by (auto simp: select_claimable_def dest: in_set_takeD)

lemma distinct_select:
  "distinct (map i_id (messages_in s)) \<Longrightarrow> distinct (map i_id (select_claimable limit t s))"
proof -
  assume d: "distinct (map i_id (messages_in s))"
  let ?f = "filter (claimable t) (messages_in s)"
  have "distinct (map i_id ?f)" using d by (rule distinct_map_filter)
  then have "distinct (map i_id (sort_key i_seq ?f))"
    by (metis distinct_map distinct_sort set_sort)
  then show ?thesis by (simp add: select_claimable_def flip: take_map)
qed

lemma claim_rows:
  assumes "claim_pending_inbound_with_policy pol ck body uuids limit s = (ms, s')"
    and "distinct (map i_id (messages_in s))"
  shows "\<exists>s2. messages_in s2 = map (recovered pol ck) (messages_in s) \<and>
    ms = select_claimable limit (ck_select ck) s2 \<and>
    messages_in s' = map (\<lambda>r. if i_id r \<in> i_id ` set ms then bump (ck_mark ck) r else r)
      (map (recovered pol ck) (messages_in s)) \<and>
    delivered s' = delivered s \<and> cancels s' = cancels s"
proof -
  obtain dead s1 where r: "recover_stuck_inbound pol (ck_now ck) (ck_requeue ck) (ck_dead ck) (ck_fail ck) s = (dead, s1)"
    by fastforce
  let ?s2 = "notify_dead body (ck_reply ck) (zip dead uuids) s1"
  have ms: "ms = select_claimable limit (ck_select ck) ?s2" and s': "s' = mark_claimed (ck_mark ck) ms ?s2"
    using assms(1) by (auto simp: claim_pending_inbound_with_policy_def r Let_def)
  have rows: "messages_in ?s2 = map (recovered pol ck) (messages_in s)"
    using recover_rows [OF r] by simp
  then have "distinct (map i_id (messages_in ?s2))" using assms(2) by (simp add: comp_def)
  then have "distinct (map i_id ms)" unfolding ms by (rule distinct_select)
  then show ?thesis
    using mark_claimed_rows [of ms "ck_mark ck" ?s2] rows recover_rows [OF r] ms s' by fastforce
qed

section \<open>The queue invariant\<close>

lemma next_seq_greater: "x \<in> set ss \<Longrightarrow> x < next_seq ss"
proof (cases ss)
  case (Cons a as)
  assume "x \<in> set ss"
  with Cons have "x \<in> set as \<or> x \<le> a" by auto
  then have "x \<le> fold max as a" by (rule fold_max_ge)
  then show ?thesis by (simp add: next_seq_def Cons)
qed simp

definition tries_ok :: "claim_policy \<Rightarrow> in_row \<Rightarrow> bool" where
  "tries_ok pol r \<longleftrightarrow> 0 \<le> i_tries r \<and> i_tries r \<le> max (max_tries pol) 1 \<and>
     (i_status r = Pending \<longrightarrow> i_tries r < max (max_tries pol) 1) \<and>
     (i_status r = Processing \<longrightarrow> 0 < i_tries r)"

definition keys_ok :: "(str \<times> int) list \<Rightarrow> bool" where
  "keys_ok ks \<longleftrightarrow> distinct (map fst ks) \<and> sorted_wrt (<) (map snd ks)"

definition keys_out :: "session \<Rightarrow> (str \<times> int) list" where
  "keys_out s = map (\<lambda>r. (o_id r, o_seq r)) (messages_out s)"

definition session_ok :: "claim_policy \<Rightarrow> session \<Rightarrow> bool" where
  "session_ok pol s \<longleftrightarrow> keys_ok (keys_in s) \<and> keys_ok (keys_out s) \<and>
     (\<forall>r\<in>set (messages_in s). tries_ok pol r)"

lemma keys_ok_snoc:
  "keys_ok ks \<Longrightarrow> i \<notin> fst ` set ks \<Longrightarrow> keys_ok (ks @ [(i, next_seq (map snd ks))])"
  using next_seq_greater [of _ "map snd ks"] by (auto simp: keys_ok_def sorted_wrt_append)

lemma keys_ok_ids: "keys_ok (keys_in s) \<Longrightarrow> distinct (map i_id (messages_in s))"
  by (simp add: keys_ok_def keys_in_def comp_def)

lemma insert_inbound_ok:
  assumes "insert_inbound uuid now k c p th x s = Inr (i, s')" and "session_ok pol s"
  shows "session_ok pol s'"
proof -
  have "keys_in s' = keys_in s @ [(i, next_seq (map snd (keys_in s)))]" and "i \<notin> fst ` set (keys_in s)"
    and "keys_out s' = keys_out s"
    using assms(1) by (auto simp: insert_inbound_def Let_def keys_in_def keys_out_def comp_def split: if_splits)
  moreover have "\<forall>r\<in>set (messages_in s'). tries_ok pol r"
    using assms by (auto simp: insert_inbound_def Let_def session_ok_def tries_ok_def split: if_splits)
  ultimately show ?thesis using assms(2) keys_ok_snoc by (simp add: session_ok_def)
qed

lemma write_outbound_keys:
  "write_outbound uuid now re k c p th x s = Inr (i, s') \<Longrightarrow>
     keys_out s' = keys_out s @ [(i, next_seq (map snd (keys_out s)))] \<and> i \<notin> fst ` set (keys_out s) \<and>
     messages_in s' = messages_in s"
  by (auto simp: write_outbound_def Let_def keys_out_def comp_def split: if_splits)

lemma write_outbound_ok:
  "write_outbound uuid now re k c p th x s = Inr (i, s') \<Longrightarrow> session_ok pol s \<Longrightarrow> session_ok pol s'"
  using write_outbound_keys [of uuid now re k c p th x s i s'] keys_ok_snoc
  by (auto simp: session_ok_def keys_in_def)

lemma notify_dead_ok: "session_ok pol s \<Longrightarrow> session_ok pol (notify_dead body now ps s)"
proof (induction body now ps s rule: notify_dead.induct)
  case (2 body now r uuid rs s)
  then show ?case using write_outbound_ok [of _ _ _ _ _ _ _ _ s _ _ pol] by (auto split: sum.splits)
qed simp

lemma update_where_ok:
  assumes "session_ok pol s" and "\<And>r. i_id (f r) = i_id r \<and> i_seq (f r) = i_seq r"
    and "\<And>r. r \<in> set (messages_in s) \<Longrightarrow> p r \<Longrightarrow> tries_ok pol r \<Longrightarrow> tries_ok pol (f r)"
  shows "session_ok pol (snd (update_where p f s))"
  using assms keys_update_where [of f p s] by (auto simp: session_ok_def keys_out_def)

lemma cancel_pending_ok: "session_ok pol s \<Longrightarrow> session_ok pol (snd (cancel_pending_inbound now s))"
  unfolding cancel_pending_inbound_def by (rule update_where_ok) (auto simp: tries_ok_def)

lemma requeue_inbound_ok: "session_ok pol s \<Longrightarrow> session_ok pol (snd (requeue_inbound now i s))"
proof -
  assume "session_ok pol s"
  then have "session_ok pol (snd (update_where (\<lambda>r. i_id r = i)
      (\<lambda>r. r\<lparr>i_status := Pending, i_tries := 0, i_process_after := None, i_status_changed := now\<rparr>) s))"
    by (rule update_where_ok) (auto simp: tries_ok_def)
  then show ?thesis by (simp add: requeue_inbound_def case_prod_unfold)
qed

lemma session_ok_cong:
  "messages_in s' = messages_in s \<Longrightarrow> messages_out s' = messages_out s \<Longrightarrow>
   session_ok pol s' \<longleftrightarrow> session_ok pol s"
  by (simp add: session_ok_def keys_in_def keys_out_def)

lemma mark_completed_ok: "session_ok pol s \<Longrightarrow> session_ok pol (mark_inbound_completed now is s)"
proof (induction "is" arbitrary: s)
  case Nil
  then show ?case by (simp add: mark_inbound_completed_def)
next
  case (Cons i "is")
  let ?s = "snd (update_where (\<lambda>r. i_id r = i) (\<lambda>r. r\<lparr>i_status := Completed, i_status_changed := now\<rparr>) s)"
  have "session_ok pol ?s"
    using Cons.prems by (rule update_where_ok) (auto simp: tries_ok_def)
  then have "session_ok pol (?s\<lparr>cancels := (cancels ?s)(i := None)\<rparr>)"
    by (subst session_ok_cong) simp_all
  from Cons.IH [OF this] show ?case by (simp add: mark_inbound_completed_def Let_def)
qed

lemma recovered_ok: "tries_ok pol r \<Longrightarrow> tries_ok pol (recovered pol ck r)"
  by (auto simp: recovered_def after_fail_def after_requeue_def tries_ok_def exhausted_def expired_def)

lemma claim_ok:
  assumes c: "claim_pending_inbound_with_policy pol ck body uuids limit s = (ms, s')"
    and ok: "session_ok pol s"
  shows "session_ok pol s'"
proof -
  have d: "distinct (map i_id (messages_in s))" using ok keys_ok_ids by (simp add: session_ok_def)
  obtain s2 where s2: "messages_in s2 = map (recovered pol ck) (messages_in s)"
      "ms = select_claimable limit (ck_select ck) s2"
      "messages_in s' = map (\<lambda>r. if i_id r \<in> i_id ` set ms then bump (ck_mark ck) r else r) (messages_in s2)"
    using claim_rows [OF c d] by auto
  have ok2: "\<forall>r\<in>set (messages_in s2). tries_ok pol r"
    using ok recovered_ok by (auto simp: session_ok_def s2(1))
  have d2: "distinct (map i_id (messages_in s2))" using d by (simp add: s2(1) comp_def)
  have "tries_ok pol (bump t r)" if r: "r \<in> set (messages_in s2)" "i_id r \<in> i_id ` set ms" for r t
  proof -
    obtain m where m: "m \<in> set ms" "i_id m = i_id r" using r by auto
    then have "m \<in> set (messages_in s2)" "claimable (ck_select ck) m"
      using select_claimable_set unfolding s2(2) by blast+
    moreover from this m(2) r(1) d2 have "m = r" by (auto simp: distinct_map dest: inj_onD)
    ultimately show ?thesis using ok2 by (auto simp: tries_ok_def claimable_def)
  qed
  then have "\<forall>r\<in>set (messages_in s'). tries_ok pol r" using ok2 by (auto simp: s2(3))
  moreover have "keys_in s' = keys_in s" by (simp add: keys_in_def s2(1,3) comp_def if_distrib cong: if_cong)
  moreover have "keys_ok (keys_out s')"
  proof -
    obtain dead s1 where r: "recover_stuck_inbound pol (ck_now ck) (ck_requeue ck) (ck_dead ck) (ck_fail ck) s = (dead, s1)"
      by fastforce
    have "session_ok pol s1"
      using ok recover_rows [OF r] recovered_ok by (auto simp: session_ok_def keys_in_def keys_out_def comp_def)
    then have "session_ok pol (notify_dead body (ck_reply ck) (zip dead uuids) s1)" by (rule notify_dead_ok)
    then show ?thesis
      using c by (auto simp: claim_pending_inbound_with_policy_def r Let_def session_ok_def keys_out_def)
  qed
  ultimately show ?thesis using ok by (simp add: session_ok_def)
qed

text \<open>Every call another process can make on a session.\<close>

inductive session_step :: "claim_policy \<Rightarrow> session \<Rightarrow> session \<Rightarrow> bool" for pol where
  insert: "insert_inbound uuid now k c p th x s = Inr (i, s') \<Longrightarrow> session_step pol s s'"
| cancel: "session_step pol s (snd (cancel_pending_inbound now s))"
| request_cancel: "session_step pol s (snd (request_cancel_in_progress now s))"
| claim: "claim_pending_inbound_with_policy pol ck body uuids limit s = (ms, s') \<Longrightarrow> session_step pol s s'"
| requeue: "session_step pol s (snd (requeue_inbound now i s))"
| complete: "session_step pol s (mark_inbound_completed now is s)"
| reply: "write_outbound uuid now re k c p th x s = Inr (i, s') \<Longrightarrow> session_step pol s s'"
| deliver: "session_step pol s (mark_delivered now i platform s)"
| claim_send: "session_step pol s (snd (claim_delivery now i s))"
| unclaim_send: "session_step pol s (unclaim_delivery i s)"
| show_progress: "session_step pol s (append_progress i e s)"
| hide_progress: "session_step pol s (clear_progress i s)"

inductive session_reachable :: "claim_policy \<Rightarrow> session \<Rightarrow> bool" for pol where
  start: "session_reachable pol empty_session"
| step: "session_reachable pol s \<Longrightarrow> session_step pol s s' \<Longrightarrow> session_reachable pol s'"

lemma session_step_ok: "session_step pol s s' \<Longrightarrow> session_ok pol s \<Longrightarrow> session_ok pol s'"
proof (induction rule: session_step.induct)
  case (request_cancel s now)
  then show ?case
    by (subst session_ok_cong) (auto simp: request_cancel_in_progress_def split: prod.splits)
next
  case (deliver s now i platform)
  then show ?case by (subst session_ok_cong) (auto simp: mark_delivered_def)
next
  case (claim_send s now i)
  then show ?case by (subst session_ok_cong) (auto simp: claim_delivery_def split: option.splits)
next
  case (unclaim_send s i)
  then show ?case by (subst session_ok_cong) (auto simp: unclaim_delivery_def split: option.splits prod.splits)
next
  case (show_progress s i e)
  then show ?case by (subst session_ok_cong) (auto simp: append_progress_def)
next
  case (hide_progress s i)
  then show ?case by (subst session_ok_cong) (auto simp: clear_progress_def)
qed (blast intro: insert_inbound_ok cancel_pending_ok claim_ok requeue_inbound_ok mark_completed_ok write_outbound_ok)+

lemma session_reachable_ok: "session_reachable pol s \<Longrightarrow> session_ok pol s"
proof (induction rule: session_reachable.induct)
  case start
  show ?case by (simp add: session_ok_def empty_session_def keys_ok_def keys_in_def keys_out_def)
next
  case (step s s')
  then show ?case by (blast intro: session_step_ok)
qed

section \<open>Claims, row by row\<close>

lemma claim_row:
  assumes c: "claim_pending_inbound_with_policy pol ck body uuids limit s = (ms, s')"
    and d: "distinct (map i_id (messages_in s))"
    and r: "r \<in> set (messages_in s)" and r': "r' \<in> set (messages_in s')" "i_id r' = i_id r"
  shows "r' = (if i_id r \<in> i_id ` set ms then bump (ck_mark ck) (recovered pol ck r) else recovered pol ck r)"
proof -
  have "messages_in s' = map (\<lambda>r. if i_id r \<in> i_id ` set ms then bump (ck_mark ck) r else r)
      (map (recovered pol ck) (messages_in s))"
    using claim_rows [OF c d] by blast
  then obtain q where q: "q \<in> set (messages_in s)"
    "r' = (if i_id q \<in> i_id ` set ms then bump (ck_mark ck) (recovered pol ck q) else recovered pol ck q)"
    using r'(1) by auto
  then have "i_id q = i_id r" using r'(2) by (simp split: if_splits)
  with d q(1) r have "q = r" by (auto simp: distinct_map dest: inj_onD)
  with q show ?thesis by simp
qed

lemma claimed_id:
  assumes c: "claim_pending_inbound_with_policy pol ck body uuids limit s = (ms, s')"
    and d: "distinct (map i_id (messages_in s))"
    and r: "r \<in> set (messages_in s)" and m: "i_id r \<in> i_id ` set ms"
  shows "claimable (ck_select ck) (recovered pol ck r) \<and> recovered pol ck r \<in> set ms"
proof -
  obtain s2 where s2: "messages_in s2 = map (recovered pol ck) (messages_in s)"
      "ms = select_claimable limit (ck_select ck) s2"
    using claim_rows [OF c d] by blast
  obtain q where q: "q \<in> set ms" "i_id q = i_id r" using m by auto
  then have "q \<in> set (messages_in s2)" and cl: "claimable (ck_select ck) q"
    using select_claimable_set unfolding s2(2) by blast+
  then obtain p where p: "p \<in> set (messages_in s)" "q = recovered pol ck p" by (auto simp: s2(1))
  with q(2) d r have "p = r" by (auto simp: distinct_map dest: inj_onD)
  with p cl q(1) show ?thesis by simp
qed

lemma not_expired_recovered:
  "\<not> expired pol (ck_requeue ck) r \<Longrightarrow> \<not> expired pol (ck_fail ck) r \<Longrightarrow> recovered pol ck r = r"
  by (simp add: recovered_def after_requeue_def after_fail_def exhausted_def)

lemma recovered_failed_iff:
  "i_status r \<noteq> Failed \<Longrightarrow> i_status (recovered pol ck r) = Failed \<longleftrightarrow>
     exhausted pol (ck_fail ck) (after_requeue pol (ck_now ck) (ck_requeue ck) r)"
  by (auto simp: recovered_def after_fail_def after_requeue_def)

lemma notify_dead_rows:
  assumes "length ps \<le> length us" and "distinct us"
    and "\<forall>u\<in>set us. ''out-'' @ u \<notin> o_id ` set (messages_out s)"
  shows "\<exists>news. messages_out (notify_dead body now (zip ps us) s) = messages_out s @ news \<and>
    map (\<lambda>o'. (o_in_reply_to o', o_channel o', o_platform_id o', o_thread_id o', o_content o')) news =
    map (\<lambda>r. (Some (i_id r), i_channel r, i_platform_id r, i_thread_id r, body)) ps"
  using assms
proof (induction ps arbitrary: us s)
  case Nil
  then show ?case by simp
next
  case (Cons r ps)
  then obtain u us' where us: "us = u # us'" by (cases us) auto
  obtain s1 row where w: "write_outbound u now (Some (i_id r)) ''chat'' (i_channel r) (i_platform_id r)
      (i_thread_id r) body s = Inr (''out-'' @ u, s1)" and s1: "messages_out s1 = messages_out s @ [row]"
    and row: "o_id row = ''out-'' @ u" "(o_in_reply_to row, o_channel row, o_platform_id row, o_thread_id row, o_content row) =
      (Some (i_id r), i_channel r, i_platform_id r, i_thread_id r, body)"
    using Cons.prems(3) by (auto simp: us write_outbound_def Let_def)
  have "\<forall>v\<in>set us'. ''out-'' @ v \<notin> o_id ` set (messages_out s1)"
    using Cons.prems(2,3) by (auto simp: us s1 row)
  then obtain news where "messages_out (notify_dead body now (zip ps us') s1) = messages_out s1 @ news"
    and "map (\<lambda>o'. (o_in_reply_to o', o_channel o', o_platform_id o', o_thread_id o', o_content o')) news =
      map (\<lambda>r. (Some (i_id r), i_channel r, i_platform_id r, i_thread_id r, body)) ps"
    using Cons.IH [of us' s1] Cons.prems by (auto simp: us)
  then show ?case
    using row by (intro exI [of _ "row # news"]) (simp add: us w s1)
qed

lemma after_requeue_frame [simp]:
  "i_id (after_requeue pol now t r) = i_id r" "i_channel (after_requeue pol now t r) = i_channel r"
  "i_platform_id (after_requeue pol now t r) = i_platform_id r"
  "i_thread_id (after_requeue pol now t r) = i_thread_id r"
  by (simp_all add: after_requeue_def)

section \<open>A gate that opens once\<close>

text \<open>
  Several delivery paths race for the same reply. The gate they go through: whoever
  takes a free key wins, a taken key refuses, releasing gives it back, and recording
  the outcome keeps it taken.
\<close>

datatype ('t, 'p) gate_op = Take 't str | Untake str | Record 't str 'p

fun gate_wins :: "('t \<Rightarrow> str \<Rightarrow> 's \<Rightarrow> bool \<times> 's) \<Rightarrow> (str \<Rightarrow> 's \<Rightarrow> 's) \<Rightarrow> ('t \<Rightarrow> str \<Rightarrow> 'p \<Rightarrow> 's \<Rightarrow> 's) \<Rightarrow>
    str \<Rightarrow> ('t, 'p) gate_op list \<Rightarrow> 's \<Rightarrow> nat" where
  "gate_wins tk un rec i [] s = 0"
| "gate_wins tk un rec i (Take t j # ops) s =
     (case tk t j s of (won, s') \<Rightarrow> (if won \<and> j = i then 1 else 0) + gate_wins tk un rec i ops s')"
| "gate_wins tk un rec i (Untake j # ops) s = gate_wins tk un rec i ops (un j s)"
| "gate_wins tk un rec i (Record t j p # ops) s = gate_wins tk un rec i ops (rec t j p s)"

locale once_gate =
  fixes taken :: "'s \<Rightarrow> str \<Rightarrow> bool"
    and tk :: "'t \<Rightarrow> str \<Rightarrow> 's \<Rightarrow> bool \<times> 's"
    and un :: "str \<Rightarrow> 's \<Rightarrow> 's"
    and rec :: "'t \<Rightarrow> str \<Rightarrow> 'p \<Rightarrow> 's \<Rightarrow> 's"
  assumes take_wins: "fst (tk t i s) \<longleftrightarrow> \<not> taken s i"
    and take_taken: "taken (snd (tk t i s)) j \<longleftrightarrow> j = i \<or> taken s j"
    and untake_other: "j \<noteq> i \<Longrightarrow> taken (un i s) j \<longleftrightarrow> taken s j"
    and record_taken: "taken (rec t i p s) j \<longleftrightarrow> j = i \<or> taken s j"
begin

lemma wins_bound:
  "gate_wins tk un rec i ops s + (if taken s i then 1 else 0) \<le> 1 + count_list ops (Untake i)"
proof (induction ops arbitrary: s)
  case (Cons op ops)
  show ?case
  proof (cases op)
    case (Take t j)
    have "taken (snd (tk t j s)) i \<longleftrightarrow> i = j \<or> taken s i" by (rule take_taken)
    then show ?thesis
      using Cons.IH [of "snd (tk t j s)"] take_wins [of t j s] Take
      by (auto simp: case_prod_unfold split: if_splits)
  next
    case (Untake j)
    show ?thesis
    proof (cases "j = i")
      case True
      with Cons.IH [of "un j s"] Untake show ?thesis by (auto split: if_splits)
    next
      case False
      with Cons.IH [of "un j s"] untake_other [of i j s] Untake show ?thesis by (auto split: if_splits)
    qed
  next
    case (Record t j p)
    with Cons.IH [of "rec t j p s"] record_taken [of t j p s i] show ?thesis by (auto split: if_splits)
  qed
qed simp

lemma never_twice: "fst (tk t i s) \<Longrightarrow> Untake i \<notin> set ops \<Longrightarrow> gate_wins tk un rec i ops (snd (tk t i s)) = 0"
  using wins_bound [of i ops "snd (tk t i s)"] take_taken [of t i s i] by simp

end

interpretation delivery: once_gate "\<lambda>s i. delivered s i \<noteq> None" claim_delivery unclaim_delivery mark_delivered
  by unfold_locales
     (auto simp: claim_delivery_def unclaim_delivery_def mark_delivered_def split: option.splits prod.splits)

lemma delivered_stays:
  "delivered s i = Some (Some p, t) \<Longrightarrow> (\<forall>t. Record t i None \<notin> set ops) \<Longrightarrow>
     gate_wins claim_delivery unclaim_delivery mark_delivered i ops s = 0"
proof (induction ops arbitrary: s p t)
  case (Cons op ops)
  show ?case
  proof (cases op)
    case (Take u j)
    have "delivered (snd (claim_delivery u j s)) i = Some (Some p, t)" and "fst (claim_delivery u j s) \<Longrightarrow> j \<noteq> i"
      using Cons.prems(1) by (auto simp: claim_delivery_def split: option.splits)
    with Cons Take show ?thesis by (auto simp: case_prod_unfold)
  next
    case (Untake j)
    have "delivered (unclaim_delivery j s) i = Some (Some p, t)"
      using Cons.prems(1) by (auto simp: unclaim_delivery_def split: option.splits prod.splits)
    with Cons Untake show ?thesis by simp
  next
    case (Record u j q)
    show ?thesis
    proof (cases "j = i")
      case True
      with Cons.prems(2) Record obtain q' where "q = Some q'" by (cases q) auto
      then have "delivered (mark_delivered u j q s) i = Some (Some q', u)" by (simp add: mark_delivered_def True)
      with Cons Record show ?thesis by simp
    next
      case False
      then have "delivered (mark_delivered u j q s) i = Some (Some p, t)"
        using Cons.prems(1) by (simp add: mark_delivered_def)
      with Cons Record show ?thesis by simp
    qed
  qed
qed simp

section \<open>Calls that do not reset a message\<close>

datatype queue_call =
    Claim clocks str "str list" nat
  | Cancel_Pending timestamp
  | Complete timestamp "str list"
  | Insert str timestamp str str str "str option" str

fun run_call :: "claim_policy \<Rightarrow> queue_call \<Rightarrow> session \<Rightarrow> in_row list \<times> session" where
  "run_call pol (Claim ck body uuids limit) s = claim_pending_inbound_with_policy pol ck body uuids limit s"
| "run_call pol (Cancel_Pending t) s = ([], snd (cancel_pending_inbound t s))"
| "run_call pol (Complete t is) s = ([], mark_inbound_completed t is s)"
| "run_call pol (Insert u t k c p th x) s =
     ([], case insert_inbound u t k c p th x s of Inl _ \<Rightarrow> s | Inr (_, s') \<Rightarrow> s')"

text \<open>How often a message is handed out over a list of calls, and the attempts it carries.\<close>

fun handed_out :: "claim_policy \<Rightarrow> str \<Rightarrow> queue_call list \<Rightarrow> session \<Rightarrow> int" where
  "handed_out pol i [] s = 0"
| "handed_out pol i (c # cs) s =
     (case run_call pol c s of
        (ms, s') \<Rightarrow> (if i \<in> i_id ` set ms then 1 else 0) + handed_out pol i cs s')"

definition tries_of :: "str \<Rightarrow> session \<Rightarrow> int" where
  "tries_of i s = (case find (\<lambda>r. i_id r = i) (messages_in s) of None \<Rightarrow> 0 | Some r \<Rightarrow> i_tries r)"

lemma tries_of_bound: "session_ok pol s \<Longrightarrow> tries_of i s \<le> max (max_tries pol) 1"
proof (cases "find (\<lambda>r. i_id r = i) (messages_in s)")
  case (Some r)
  assume "session_ok pol s"
  moreover have "r \<in> set (messages_in s)" using find_Some_prop [OF Some] by simp
  ultimately show ?thesis using Some by (simp add: tries_of_def session_ok_def tries_ok_def)
qed (simp add: tries_of_def)

lemma find_map_id:
  "(\<And>r. i_id (f r) = i_id r) \<Longrightarrow>
     find (\<lambda>r. i_id r = i) (map f rs) = map_option f (find (\<lambda>r. i_id r = i) rs)"
  by (induction rs) auto

lemma tries_of_map:
  "messages_in s' = map f (messages_in s) \<Longrightarrow> (\<And>r. i_id (f r) = i_id r \<and> i_tries (f r) = i_tries r) \<Longrightarrow>
     tries_of i s' = tries_of i s"
  by (simp add: tries_of_def find_map_id split: option.split)

lemma completed_rows:
  "messages_in (mark_inbound_completed now is s) =
     map (\<lambda>r. if i_id r \<in> set is then r\<lparr>i_status := Completed, i_status_changed := now\<rparr> else r) (messages_in s)"
proof (induction "is" arbitrary: s)
  case Nil
  then show ?case by (simp add: mark_inbound_completed_def)
next
  case (Cons i "is")
  let ?s = "snd (update_where (\<lambda>r. i_id r = i) (\<lambda>r. r\<lparr>i_status := Completed, i_status_changed := now\<rparr>) s)"
  have "mark_inbound_completed now (i # is) s = mark_inbound_completed now is (?s\<lparr>cancels := (cancels ?s)(i := None)\<rparr>)"
    by (simp add: mark_inbound_completed_def Let_def)
  with Cons show ?case by auto
qed

lemma tries_of_claim:
  assumes c: "claim_pending_inbound_with_policy pol ck body uuids limit s = (ms, s')" and ok: "session_ok pol s"
  shows "tries_of i s' = (if i \<in> i_id ` set ms then 1 else 0) + tries_of i s"
proof -
  have d: "distinct (map i_id (messages_in s))" using ok keys_ok_ids by (simp add: session_ok_def)
  let ?f = "\<lambda>r. if i_id r \<in> i_id ` set ms then bump (ck_mark ck) (recovered pol ck r) else recovered pol ck r"
  obtain s2 where rows: "messages_in s2 = map (recovered pol ck) (messages_in s)"
      "ms = select_claimable limit (ck_select ck) s2" "messages_in s' = map ?f (messages_in s)"
    using claim_rows [OF c d] unfolding map_map comp_def recovered_key by blast
  have f: "find (\<lambda>r. i_id r = i) (messages_in s') = map_option ?f (find (\<lambda>r. i_id r = i) (messages_in s))"
    unfolding rows(3) by (rule find_map_id) simp
  show ?thesis
  proof (cases "find (\<lambda>r. i_id r = i) (messages_in s)")
    case None
    then have "i \<notin> i_id ` set (messages_in s2)" by (auto simp: rows(1) find_None_iff)
    then have "i \<notin> i_id ` set ms" using select_claimable_set unfolding rows(2) by blast
    with None f show ?thesis by (simp add: tries_of_def)
  next
    case (Some r)
    have "i_id r = i" using find_Some_prop [OF Some] by simp
    with Some f show ?thesis by (simp add: tries_of_def)
  qed
qed

lemma run_call_ok: "run_call pol c s = (ms, s') \<Longrightarrow> session_ok pol s \<Longrightarrow> session_ok pol s'"
proof (cases c)
  case (Claim ck body uuids limit)
  assume "run_call pol c s = (ms, s')" "session_ok pol s"
  then show ?thesis unfolding Claim run_call.simps by (rule claim_ok)
next
  case (Insert u t k ch p th x)
  assume "run_call pol c s = (ms, s')" "session_ok pol s"
  then show ?thesis
    using insert_inbound_ok [of u t k ch p th x s] by (cases "insert_inbound u t k ch p th x s") (auto simp: Insert)
qed (auto simp: cancel_pending_ok mark_completed_ok)

lemma run_call_tries:
  "run_call pol c s = (ms, s') \<Longrightarrow> session_ok pol s \<Longrightarrow>
     tries_of i s' = (if i \<in> i_id ` set ms then 1 else 0) + tries_of i s"
proof (cases c)
  case (Claim ck body uuids limit)
  assume "run_call pol c s = (ms, s')" and "session_ok pol s"
  with Claim show ?thesis using tries_of_claim by simp
next
  case (Cancel_Pending t)
  assume q: "run_call pol c s = (ms, s')"
  have "tries_of i (snd (cancel_pending_inbound t s)) = tries_of i s"
    unfolding cancel_pending_inbound_def by (rule tries_of_map [OF update_where_rows]) simp
  with q Cancel_Pending show ?thesis by auto
next
  case (Complete t ids)
  assume q: "run_call pol c s = (ms, s')"
  have "tries_of i (mark_inbound_completed t ids s) = tries_of i s"
    by (rule tries_of_map [OF completed_rows]) simp
  with q Complete show ?thesis by auto
next
  case (Insert u t k ch p th x)
  assume q: "run_call pol c s = (ms, s')"
  have *: "find P (xs @ ys) = (case find P xs of None \<Rightarrow> find P ys | Some x \<Rightarrow> Some x)" for P and xs ys :: "in_row list"
    by (induction xs) auto
  show ?thesis using q Insert
    by (auto simp: insert_inbound_def Let_def tries_of_def * split: if_splits option.splits)
qed

lemma handed_out_bound:
  "session_ok pol s \<Longrightarrow> handed_out pol i cs s + tries_of i s \<le> max (max_tries pol) 1"
proof (induction cs arbitrary: s)
  case Nil
  then show ?case by (simp add: tries_of_bound)
next
  case (Cons c cs)
  obtain ms s' where q: "run_call pol c s = (ms, s')" by fastforce
  from Cons.IH [OF run_call_ok [OF q Cons.prems]] run_call_tries [OF q Cons.prems, of i]
  show ?case by (simp add: q)
qed

section \<open>Cancel flags\<close>

lemma insert_or_ignore_at:
  "snd (insert_or_ignore now is m) j = (case m j of Some t \<Rightarrow> Some t | None \<Rightarrow> if j \<in> set is then Some now else None)"
proof (induction "is" arbitrary: m)
  case (Cons i "is")
  show ?case
    by (cases "m i") (simp_all add: case_prod_unfold Cons.IH split: option.split)
qed (simp split: option.split)

lemma completed_cancels: "cancels (mark_inbound_completed now is s) = cancels s |` (- set is)"
proof (induction "is" arbitrary: s)
  case Nil
  then show ?case by (simp add: mark_inbound_completed_def)
next
  case (Cons i "is")
  let ?s = "snd (update_where (\<lambda>r. i_id r = i) (\<lambda>r. r\<lparr>i_status := Completed, i_status_changed := now\<rparr>) s)"
  have "mark_inbound_completed now (i # is) s = mark_inbound_completed now is (?s\<lparr>cancels := (cancels ?s)(i := None)\<rparr>)"
    by (simp add: mark_inbound_completed_def Let_def)
  with Cons show ?case by (auto simp: restrict_map_def)
qed

section \<open>Properties\<close>

text \<open>Concrete rows for the witnesses.\<close>

definition demo_row :: "str \<Rightarrow> int \<Rightarrow> in_status \<Rightarrow> int \<Rightarrow> in_row" where
  "demo_row i q st n = \<lparr> i_id = i, i_seq = q, i_kind = ''chat'', i_channel = ''cli'', i_platform_id = ''u'',
     i_thread_id = None, i_content = ''hi'', i_status = st, i_tries = n, i_process_after = None,
     i_created_at = 0, i_status_changed = 0 \<rparr>"

definition demo_session :: "in_row list \<Rightarrow> session" where
  "demo_session rs = empty_session\<lparr>messages_in := rs\<rparr>"

definition clocks_at :: "timestamp \<Rightarrow> clocks" where
  "clocks_at t = \<lparr> ck_now = t, ck_requeue = t, ck_dead = t, ck_fail = t, ck_reply = t, ck_select = t, ck_mark = t \<rparr>"

text \<open>
  Whatever calls the processes sharing a session make, in whatever order, the queue
  keeps its shape: ids are unique, sequence numbers strictly increase in insertion order
  (inbound and outbound), and no request carries more attempts than the policy allows; a
  pending one always has an attempt left and a processing one has used at least one.
\<close>

theorem session_queue_sound:
  assumes "session_reachable pol s"
  shows "distinct (map i_id (messages_in s)) \<and> sorted_wrt (<) (map i_seq (messages_in s)) \<and>
    distinct (map o_id (messages_out s)) \<and> sorted_wrt (<) (map o_seq (messages_out s)) \<and>
    (\<forall>r\<in>set (messages_in s). 0 \<le> i_tries r \<and> i_tries r \<le> max (max_tries pol) 1 \<and>
       (i_status r = Pending \<longrightarrow> i_tries r < max (max_tries pol) 1) \<and>
       (i_status r = Processing \<longrightarrow> 0 < i_tries r))"
  using session_reachable_ok [OF assms]
  by (auto simp: session_ok_def keys_ok_def keys_in_def keys_out_def tries_ok_def comp_def)

lemma demo_inserted:
  "insert_inbound ''1'' 0 ''chat'' ''cli'' ''u'' None ''hi'' empty_session =
     Inr (''msg-1'', demo_session [demo_row ''msg-1'' 1 Pending 0])"
  by (simp add: insert_inbound_def Let_def empty_session_def demo_session_def demo_row_def next_seq_def)

theorem session_queue_sound_witness:
  "\<exists>s. session_reachable default_policy s \<and> messages_in s \<noteq> [] \<and> sorted_wrt (<) (map i_seq (messages_in s))"
proof -
  have "session_reachable default_policy (demo_session [demo_row ''msg-1'' 1 Pending 0])" (is "session_reachable _ ?s")
    by (rule session_reachable.step [OF session_reachable.start]) (rule session_step.insert, rule demo_inserted)
  moreover have "messages_in ?s \<noteq> []" by (simp add: demo_session_def)
  ultimately show ?thesis using session_queue_sound [of default_policy ?s] by blast
qed

text \<open>
  C10. A claim, exactly: it hands out the first \<open>limit\<close> claimable requests in sequence
  order, after expired leases have been requeued with their backoff or failed; each one
  handed out is marked processing with one attempt more, and every other row is left as
  the recovery left it. Delivery records and cancel flags are untouched.
\<close>

theorem claim_exact:
  assumes "claim_pending_inbound_with_policy pol ck body uuids limit s = (ms, s')"
    and "distinct (map i_id (messages_in s))"
  shows "ms = take limit (sort_key i_seq (filter (claimable (ck_select ck)) (map (recovered pol ck) (messages_in s)))) \<and>
    messages_in s' = map (\<lambda>r. if i_id r \<in> i_id ` set ms then bump (ck_mark ck) (recovered pol ck r)
      else recovered pol ck r) (messages_in s) \<and>
    delivered s' = delivered s \<and> cancels s' = cancels s"
  using claim_rows [OF assms] by (auto simp: select_claimable_def comp_def)

theorem claim_exact_witness:
  "let s = demo_session [demo_row ''a'' 1 Completed 1, demo_row ''b'' 2 Pending 0, demo_row ''c'' 3 Pending 0];
       (ms, s') = claim_pending_inbound_with_policy default_policy (clocks_at 5) ''x'' [] 1 s
   in map i_id ms = [''b''] \<and> map i_status (messages_in s') = [Completed, Processing, Pending]"
proof -
  let ?s = "demo_session [demo_row ''a'' 1 Completed 1, demo_row ''b'' 2 Pending 0, demo_row ''c'' 3 Pending 0]"
  obtain ms s' where c: "claim_pending_inbound_with_policy default_policy (clocks_at 5) ''x'' [] 1 ?s = (ms, s')"
    by fastforce
  have "distinct (map i_id (messages_in ?s))" by (simp add: demo_session_def demo_row_def)
  note e = claim_exact [OF c this]
  have rec: "recovered default_policy (clocks_at 5) (demo_row i q st 0) = demo_row i q st 0"
      "recovered default_policy (clocks_at 5) (demo_row i q Completed n) = demo_row i q Completed n" for i q st n
    by (simp_all add: demo_row_def recovered_def after_requeue_def after_fail_def exhausted_def expired_def
      clocks_at_def default_policy_def secs_def)
  have ms: "ms = [demo_row ''b'' 2 Pending 0]"
    using conjunct1 [OF e] by (simp add: demo_session_def rec) (simp add: demo_row_def claimable_def)
  have "map i_status (messages_in s') = [Completed, Processing, Pending]"
    using conjunct1 [OF conjunct2 [OF e]] unfolding ms
    by (simp add: demo_session_def rec) (simp add: demo_row_def bump_def)
  moreover have "map i_id ms = [''b'']" by (simp add: ms) (simp add: demo_row_def)
  ultimately show ?thesis unfolding Let_def c by simp
qed

text \<open>
  A lease that has not run out is safe from every other claimer: a request that is
  processing and within its lease at the clocks of the recovery is neither handed out
  again nor changed in any field.
\<close>

theorem live_lease_untouched:
  assumes c: "claim_pending_inbound_with_policy pol ck body uuids limit s = (ms, s')"
    and d: "distinct (map i_id (messages_in s))"
    and r: "r \<in> set (messages_in s)" "i_status r = Processing"
    and live: "secs (ck_requeue ck) < secs (i_status_changed r) + max (lease_seconds pol) 0"
      "secs (ck_fail ck) < secs (i_status_changed r) + max (lease_seconds pol) 0"
  shows "i_id r \<notin> i_id ` set ms \<and> r \<in> set (messages_in s')"
proof -
  have rec: "recovered pol ck r = r" using live by (intro not_expired_recovered) (auto simp: expired_def)
  then have n: "i_id r \<notin> i_id ` set ms"
    using claimed_id [OF c d r(1)] r(2) by (auto simp: claimable_def)
  have "messages_in s' = map (\<lambda>r. if i_id r \<in> i_id ` set ms then bump (ck_mark ck) (recovered pol ck r)
      else recovered pol ck r) (messages_in s)"
    using claim_rows [OF c d] unfolding map_map comp_def recovered_key by blast
  with n rec r(1) show ?thesis by force
qed

theorem live_lease_untouched_witness:
  "\<exists>s'. snd (claim_pending_inbound_with_policy default_policy (clocks_at 5) ''x'' [] 9
     (demo_session [demo_row ''a'' 1 Processing 1])) = s' \<and> demo_row ''a'' 1 Processing 1 \<in> set (messages_in s')"
proof -
  let ?s = "demo_session [demo_row ''a'' 1 Processing 1]"
  obtain ms s' where c: "claim_pending_inbound_with_policy default_policy (clocks_at 5) ''x'' [] 9 ?s = (ms, s')"
    by fastforce
  have "i_id (demo_row ''a'' 1 Processing 1) \<notin> i_id ` set ms \<and> demo_row ''a'' 1 Processing 1 \<in> set (messages_in s')"
    by (rule live_lease_untouched [OF c])
       (simp_all add: demo_session_def demo_row_def clocks_at_def default_policy_def secs_def)
  then show ?thesis using c by simp
qed

text \<open>
  C6. No message is handed to an agent more often than \<open>max_tries\<close> (at least once is
  always allowed), over any sequence of claims, inserts, cancellations and completions, at
  any clocks: only the operator's explicit requeue resets the count.
\<close>

theorem bounded_attempts:
  assumes "session_reachable pol s"
  shows "handed_out pol i cs s \<le> max (max_tries pol) 1"
proof -
  have ok: "session_ok pol s" using assms by (rule session_reachable_ok)
  have "0 \<le> tries_of i s"
  proof (cases "find (\<lambda>r. i_id r = i) (messages_in s)")
    case (Some r)
    then show ?thesis using ok find_Some_prop [OF Some] by (simp add: tries_of_def session_ok_def tries_ok_def)
  qed (simp add: tries_of_def)
  with handed_out_bound [OF ok, of i cs] show ?thesis by linarith
qed

theorem bounded_attempts_witness:
  "handed_out default_policy ''msg-1'' [Insert ''1'' 0 ''chat'' ''cli'' ''u'' None ''hi'',
     Claim (clocks_at 5) ''x'' [] 3] empty_session \<le> 5"
proof -
  have "max (max_tries default_policy) 1 = 5" by (simp add: default_policy_def)
  then show ?thesis using bounded_attempts [OF session_reachable.start, of default_policy] by metis
qed

section \<open>Dead letters, delivery and stopping\<close>

text \<open>
  Nobody is left without an answer: when the statements of the recovery read the same
  second, the requests a claim newly fails are exactly those it answers. The outbound table
  grows by one chat reply per failed request, in order, correlated to it and addressed to
  its channel, platform and thread.
\<close>

theorem dead_letters_answered:
  assumes c: "claim_pending_inbound_with_policy pol ck body uuids limit s = (ms, s')"
    and clk: "ck_dead ck = ck_fail ck"
    and u: "length (messages_in s) \<le> length uuids" "distinct uuids"
      "\<forall>u\<in>set uuids. ''out-'' @ u \<notin> o_id ` set (messages_out s)"
  shows "\<exists>news. messages_out s' = messages_out s @ news \<and>
    map (\<lambda>o'. (o_in_reply_to o', o_channel o', o_platform_id o', o_thread_id o', o_content o')) news =
    map (\<lambda>r. (Some (i_id r), i_channel r, i_platform_id r, i_thread_id r, body))
      (filter (\<lambda>r. i_status r \<noteq> Failed \<and> i_status (recovered pol ck r) = Failed) (messages_in s))"
proof -
  obtain dead s1 where r: "recover_stuck_inbound pol (ck_now ck) (ck_requeue ck) (ck_dead ck) (ck_fail ck) s = (dead, s1)"
    by fastforce
  let ?a = "after_requeue pol (ck_now ck) (ck_requeue ck)"
  let ?P = "\<lambda>r. i_status r \<noteq> Failed \<and> i_status (recovered pol ck r) = Failed"
  note rr = recover_rows [OF r]
  have ex: "exhausted pol (ck_fail ck) (?a r) \<longleftrightarrow> ?P r" for r
    using recovered_failed_iff [of r pol ck]
    by (cases "i_status r = Failed") (auto simp: after_requeue_def exhausted_def expired_def)
  have dead: "dead = map ?a (filter ?P (messages_in s))"
    using rr by (simp add: clk filter_map comp_def ex)
  have len: "length dead \<le> length uuids"
    using u(1) by (simp add: dead) (meson le_trans length_filter_le)
  have out: "messages_out s1 = messages_out s" using rr by blast
  obtain news where n: "messages_out (notify_dead body (ck_reply ck) (zip dead uuids) s1) = messages_out s1 @ news"
    "map (\<lambda>o'. (o_in_reply_to o', o_channel o', o_platform_id o', o_thread_id o', o_content o')) news =
     map (\<lambda>r. (Some (i_id r), i_channel r, i_platform_id r, i_thread_id r, body)) dead"
    using notify_dead_rows [OF len u(2), of s1 body "ck_reply ck"] u(3) by (auto simp: out)
  have "messages_out s' = messages_out (notify_dead body (ck_reply ck) (zip dead uuids) s1)"
    using c by (auto simp: claim_pending_inbound_with_policy_def r Let_def)
  with n show ?thesis by (intro exI [of _ news]) (simp add: out dead comp_def)
qed

theorem dead_letters_answered_witness:
  "map (\<lambda>r. (o_in_reply_to r, o_channel r, o_content r))
     (messages_out (snd (claim_pending_inbound_with_policy default_policy (clocks_at (500 * 1000000000)) ''gave up'' [''u1'']
       9 (demo_session [demo_row ''a'' 1 Processing 5])))) = [(Some ''a'', ''cli'', ''gave up'')]"
proof -
  let ?s = "demo_session [demo_row ''a'' 1 Processing 5]" and ?ck = "clocks_at (500 * 1000000000)"
  obtain ms s' where c: "claim_pending_inbound_with_policy default_policy ?ck ''gave up'' [''u1''] 9 ?s = (ms, s')"
    by fastforce
  have f: "filter (\<lambda>r. i_status r \<noteq> Failed \<and> i_status (recovered default_policy ?ck r) = Failed) (messages_in ?s) =
      [demo_row ''a'' 1 Processing 5]"
    by (simp add: demo_session_def demo_row_def recovered_def after_requeue_def after_fail_def exhausted_def expired_def
      clocks_at_def default_policy_def secs_def)
  have "\<exists>news. messages_out s' = messages_out ?s @ news \<and>
      map (\<lambda>o'. (o_in_reply_to o', o_channel o', o_platform_id o', o_thread_id o', o_content o')) news =
      map (\<lambda>r. (Some (i_id r), i_channel r, i_platform_id r, i_thread_id r, ''gave up'')) [demo_row ''a'' 1 Processing 5]"
    using dead_letters_answered [OF c, unfolded f]
    by (simp add: demo_session_def empty_session_def clocks_at_def)
  then show ?thesis
    unfolding c by (auto simp: demo_row_def demo_session_def empty_session_def)
qed

text \<open>
  The recovery reads the clock once per statement, and that is a hole: when a lease runs
  out between the statement that lists the requests to be answered and the one that fails
  them, the request is failed and nobody is told.
\<close>

theorem dead_letter_unanswered:
  "let ck = (clocks_at (419 * 1000000000 + 999999999))\<lparr>ck_fail := 420 * 1000000000, ck_select := 420 * 1000000000\<rparr>;
       s' = snd (claim_pending_inbound ck ''gave up'' [''u1''] 9 (demo_session [demo_row ''a'' 1 Processing 5]))
   in map i_status (messages_in s') = [Failed] \<and> messages_out s' = []"
  by code_simp

text \<open>
  C14. One reply, one delivery: of all the delivery paths that race for a reply (watch loop,
  flush loop, board daemon), over any interleaving of their claims, releases and
  recordings, at most one wins it, plus one more for each release of it. So two paths both
  send it only if one of them gave it back in between.
\<close>

theorem delivery_won_once:
  "gate_wins claim_delivery unclaim_delivery mark_delivered i ops s \<le> 1 + count_list ops (Untake i)"
  using delivery.wins_bound [of i ops s] by linarith

text \<open>
  A reply with a recorded platform id is final: no later claim of it succeeds, whatever
  the other paths do, a release included (the release only removes a record without
  platform id).
\<close>

theorem delivered_final:
  assumes "\<forall>t. Record t i None \<notin> set ops"
  shows "gate_wins claim_delivery unclaim_delivery mark_delivered i ops (mark_delivered t i (Some p) s) = 0"
  by (rule delivered_stays [OF _ assms]) (simp add: mark_delivered_def)

theorem delivered_final_witness:
  "gate_wins claim_delivery unclaim_delivery mark_delivered ''o''
     [Untake ''o'', Take 3 ''o''] (mark_delivered 2 ''o'' (Some ''m1'') empty_session) = 0"
  by (rule delivered_final) simp

text \<open>
  A reply is offered for delivery until its delivery is claimed, in sequence order; a
  claim takes exactly that one off the list and a release puts an undelivered one back.
\<close>

theorem undelivered_exact:
  "set (list_undelivered s) = {r \<in> set (messages_out s). delivered s (o_id r) = None} \<and>
   sorted (map o_seq (list_undelivered s)) \<and>
   list_undelivered (snd (claim_delivery t i s)) = filter (\<lambda>r. o_id r \<noteq> i) (list_undelivered s) \<and>
   (delivered s i = None \<longrightarrow> list_undelivered (unclaim_delivery i (snd (claim_delivery t i s))) = list_undelivered s)"
proof -
  have "sorted (map o_seq (list_undelivered s))"
    unfolding list_undelivered_def by (rule sorted_filter) simp
  moreover have "list_undelivered (snd (claim_delivery t i s)) = filter (\<lambda>r. o_id r \<noteq> i) (list_undelivered s)"
    by (auto simp: list_undelivered_def claim_delivery_def intro!: filter_cong split: option.splits)
  moreover have "unclaim_delivery i (snd (claim_delivery t i s)) = s" if "delivered s i = None"
    using that by (simp add: claim_delivery_def unclaim_delivery_def fun_upd_idem)
  ultimately show ?thesis by (auto simp: list_undelivered_def)
qed

theorem undelivered_exact_witness:
  "delivered empty_session ''o'' = None \<and>
   list_undelivered (unclaim_delivery ''o'' (snd (claim_delivery 1 ''o'' empty_session))) = list_undelivered empty_session"
  using undelivered_exact [of empty_session 1 "''o''"] by (simp add: empty_session_def)

text \<open>
  Stopping: the request flags exactly the requests being processed (flags already set
  stay, with their time), the worker sees the flag of its message, and completing messages
  clears theirs and nobody else's.
\<close>

theorem stop_flags_exact:
  "(is_cancel_requested (snd (request_cancel_in_progress now s)) i \<longleftrightarrow>
     is_cancel_requested s i \<or> (\<exists>r\<in>set (messages_in s). i_id r = i \<and> i_status r = Processing)) \<and>
   (is_cancel_requested (mark_inbound_completed now is s) i \<longleftrightarrow> is_cancel_requested s i \<and> i \<notin> set is) \<and>
   messages_in (snd (request_cancel_in_progress now s)) = messages_in s"
proof -
  have c: "cancels (snd (request_cancel_in_progress now s)) =
      snd (insert_or_ignore now (map i_id (filter (\<lambda>r. i_status r = Processing) (messages_in s))) (cancels s))"
    by (simp add: request_cancel_in_progress_def case_prod_unfold)
  have "messages_in (snd (request_cancel_in_progress now s)) = messages_in s"
    by (simp add: request_cancel_in_progress_def case_prod_unfold)
  then show ?thesis
    by (auto simp: is_cancel_requested_def c insert_or_ignore_at completed_cancels restrict_map_def
      split: option.splits if_splits)
qed

text \<open>
  A stop between the two statements of a claim is lost: the claim selects its rows,
  another process cancels the pending ones, and the update by id marks the cancelled
  requests processing again. Every selected message is processed although it was stopped.
\<close>

theorem stop_lost_in_claim:
  assumes m: "m \<in> set (select_claimable limit t s)" and d: "distinct (map i_id (messages_in s))"
  shows "let s1 = snd (cancel_pending_inbound t' s); s2 = mark_claimed now (select_claimable limit t s) s1
     in (\<exists>r\<in>set (messages_in s1). i_id r = i_id m \<and> i_status r = Failed) \<and>
        (\<exists>r\<in>set (messages_in s2). i_id r = i_id m \<and> i_status r = Processing)"
proof -
  let ?s1 = "snd (cancel_pending_inbound t' s)" and ?q = "m\<lparr>i_status := Failed, i_status_changed := t'\<rparr>"
  let ?s2 = "mark_claimed now (select_claimable limit t s) ?s1"
  have m': "m \<in> set (messages_in s)" "i_status m = Pending"
    using select_claimable_set [OF m] by (auto simp: claimable_def)
  then have f: "?q \<in> set (messages_in ?s1)"
    by (force simp: cancel_pending_inbound_def)
  let ?f = "\<lambda>r. if i_id r \<in> i_id ` set (select_claimable limit t s) then bump now r else r"
  have "messages_in ?s2 = map ?f (messages_in ?s1)"
    by (rule mark_claimed_rows) (rule distinct_select [OF d])
  then have "?f ?q \<in> set (messages_in ?s2)" using f by (simp only: set_map) (rule imageI)
  moreover have "?f ?q = bump now ?q" using m by simp
  ultimately have "bump now ?q \<in> set (messages_in ?s2)" by (simp only:)
  then have "\<exists>r\<in>set (messages_in ?s2). i_id r = i_id m \<and> i_status r = Processing"
    by (rule rev_bexI) simp
  moreover have "\<exists>r\<in>set (messages_in ?s1). i_id r = i_id m \<and> i_status r = Failed"
    using f by (rule rev_bexI) simp
  ultimately show ?thesis by (simp add: Let_def)
qed

theorem stop_lost_in_claim_witness:
  "let s = demo_session [demo_row ''a'' 1 Pending 0]; s1 = snd (cancel_pending_inbound 7 s);
       s2 = mark_claimed 8 (select_claimable 5 6 s) s1
   in \<exists>r\<in>set (messages_in s2). i_id r = ''a'' \<and> i_status r = Processing"
proof -
  let ?s = "demo_session [demo_row ''a'' 1 Pending 0]"
  have "demo_row ''a'' 1 Pending 0 \<in> set (select_claimable 5 6 ?s)" and "distinct (map i_id (messages_in ?s))"
    by (simp_all add: select_claimable_def demo_session_def) (simp add: demo_row_def claimable_def)
  from stop_lost_in_claim [OF this, of 7 8] show ?thesis by (simp add: Let_def) (simp add: demo_row_def)
qed

end
