(* ===== verification/Dep_Graph.thy ===== *)
theory Dep_Graph
  imports Maturana_Prelude
begin

text \<open>
  The dependency graphs of boards and plans: marks of a depth-first search, the
  invariant both cycle checkers keep, and the interface \<open>validated_graph\<close> a dispatcher
  relies on (a graph that passed validation always has a next item to run).
\<close>

datatype mark = InProgress | Finished

type_synonym marks = "str \<rightharpoonup> mark"

definition dep_rel :: "(str \<Rightarrow> str list) \<Rightarrow> (str \<times> str) set" where
  "dep_rel deps = {(x, d). d \<in> set (deps x)}"

definition finished :: "marks \<Rightarrow> str set" where
  "finished m = {x. m x = Some Finished}"

definition in_progress :: "marks \<Rightarrow> str set" where
  "in_progress m = {x. m x = Some InProgress}"

lemma map_le_iff: "m \<subseteq>\<^sub>m m' \<longleftrightarrow> (\<forall>x v. m x = Some v \<longrightarrow> m' x = Some v)"
  by (force simp: map_le_def)

text \<open>Finished nodes have finished dependencies and lie on no cycle.\<close>

definition marks_ok :: "(str \<Rightarrow> str list) \<Rightarrow> marks \<Rightarrow> bool" where
  "marks_ok deps m \<longleftrightarrow> dep_rel deps `` finished m \<subseteq> finished m \<and>
     acyclic (dep_rel deps \<inter> finished m \<times> finished m)"

lemma marks_ok_empty [simp]: "marks_ok deps Map.empty"
  by (simp add: marks_ok_def finished_def acyclic_def)

lemma acyclic_add_source:
  assumes cl: "E `` B \<subseteq> B" and ac: "acyclic (E \<inter> B \<times> B)" and x: "x \<notin> B" and sub: "E `` {x} \<subseteq> B"
  shows "acyclic (E \<inter> insert x B \<times> insert x B)"
proof (rule acyclicI, rule allI, rule notI)
  fix a
  let ?R = "E \<inter> insert x B \<times> insert x B"
  have rng: "b \<in> B" if "(a, b) \<in> ?R" for a b
    using that cl sub x by blast
  have inB: "b \<in> B" if "(a, b) \<in> ?R\<^sup>+" for a b
    using that by (induction rule: trancl.induct) (erule rng)+
  have path: "(a, b) \<in> (E \<inter> B \<times> B)\<^sup>+" if "(a, b) \<in> ?R\<^sup>+" "a \<in> B" for a b
    using that
  proof (induction rule: trancl.induct)
    case (r_into_trancl a b)
    then have "(a, b) \<in> E \<inter> B \<times> B" using rng by blast
    then show ?case ..
  next
    case (trancl_into_trancl a b c)
    then have "(b, c) \<in> E \<inter> B \<times> B" using rng inB [of a b] by blast
    with trancl_into_trancl show ?case by (meson trancl.trancl_into_trancl)
  qed
  assume aa: "(a, a) \<in> ?R\<^sup>+"
  then have "a \<in> B" by (rule inB)
  with aa have "(a, a) \<in> (E \<inter> B \<times> B)\<^sup>+" by (intro path)
  with ac show False by (simp add: acyclic_def)
qed

lemma finished_upd [simp]:
  "finished (m(x \<mapsto> Finished)) = insert x (finished m)"
  "finished (m(x \<mapsto> InProgress)) = finished m - {x}"
  by (auto simp: finished_def)

lemma in_progress_upd [simp]:
  "in_progress (m(x \<mapsto> InProgress)) = insert x (in_progress m)"
  "in_progress (m(x \<mapsto> Finished)) = in_progress m - {x}"
  by (auto simp: in_progress_def)

lemma marks_ok_start: "marks_ok deps m \<Longrightarrow> m x = None \<Longrightarrow> marks_ok deps (m(x \<mapsto> InProgress))"
proof -
  assume "marks_ok deps m" and "m x = None"
  moreover from this have "finished m - {x} = finished m" by (auto simp: finished_def)
  ultimately show ?thesis by (simp add: marks_ok_def)
qed

lemma marks_ok_finish:
  assumes "marks_ok deps m" and "m x \<noteq> Some Finished" and "set (deps x) \<subseteq> finished m"
  shows "marks_ok deps (m(x \<mapsto> Finished))"
proof -
  have "dep_rel deps `` {x} \<subseteq> finished m" using assms(3) by (auto simp: dep_rel_def)
  moreover have "x \<notin> finished m" using assms(2) by (simp add: finished_def)
  ultimately have "acyclic (dep_rel deps \<inter> insert x (finished m) \<times> insert x (finished m))"
    and "dep_rel deps `` insert x (finished m) \<subseteq> insert x (finished m)"
    using assms(1) acyclic_add_source [of "dep_rel deps" "finished m" x]
    unfolding marks_ok_def by blast+
  then show ?thesis by (simp only: marks_ok_def finished_upd)
qed

text \<open>If every node is finished, the dependency graph over them has no cycle.\<close>

lemma marks_ok_acyclic:
  assumes "marks_ok deps m" and "\<And>x. deps x \<noteq> [] \<Longrightarrow> x \<in> finished m"
  shows "acyclic (dep_rel deps)"
proof -
  have "dep_rel deps \<subseteq> finished m \<times> finished m"
  proof (rule subsetI)
    fix p assume p: "p \<in> dep_rel deps"
    then obtain x d where xd: "p = (x, d)" "d \<in> set (deps x)" by (auto simp: dep_rel_def)
    then have "x \<in> finished m" using assms(2) [of x] by (cases "deps x") auto
    moreover from this p xd(1) have "d \<in> finished m" using assms(1) by (auto simp: marks_ok_def)
    ultimately show "p \<in> finished m \<times> finished m" using xd(1) by simp
  qed
  then have "dep_rel deps \<inter> finished m \<times> finished m = dep_rel deps" by blast
  with assms(1) show ?thesis by (simp add: marks_ok_def)
qed

section \<open>The contract of a validated graph\<close>

locale validated_graph =
  fixes nodes :: "'g \<Rightarrow> str list"
    and deps :: "'g \<Rightarrow> str \<Rightarrow> str list"
    and valid :: "'g \<Rightarrow> bool"
  assumes closed: "valid g \<Longrightarrow> x \<in> set (nodes g) \<Longrightarrow> set (deps g x) \<subseteq> set (nodes g)"
    and acyclic: "valid g \<Longrightarrow> acyclic (dep_rel (deps g))"
begin

text \<open>Whatever is already done, something not done has all its dependencies done.\<close>

lemma progress:
  assumes v: "valid g" and x: "x \<in> set (nodes g)" "x \<notin> D"
  shows "\<exists>y\<in>set (nodes g). y \<notin> D \<and> set (deps g y) \<subseteq> D"
proof -
  let ?N = "set (nodes g)" and ?E = "dep_rel (deps g)"
  let ?R = "(?E \<inter> ?N \<times> ?N)\<inverse>"
  have "acyclic (?E \<inter> ?N \<times> ?N)"
    using acyclic [OF v] by (rule acyclic_subset) auto
  moreover have "finite (?E \<inter> ?N \<times> ?N)" by simp
  ultimately have "wf ?R" by (simp add: finite_acyclic_wf_converse)
  moreover have "x \<in> ?N - D" using x by simp
  ultimately obtain y where y: "y \<in> ?N - D" and min: "\<And>z. (z, y) \<in> ?R \<Longrightarrow> z \<notin> ?N - D"
    by (rule wfE_min) blast
  have "set (deps g y) \<subseteq> D"
  proof
    fix d assume d: "d \<in> set (deps g y)"
    then have "d \<in> ?N" using closed [OF v] y by blast
    with d y have "(d, y) \<in> ?R" by (simp add: dep_rel_def)
    with min [of d] \<open>d \<in> ?N\<close> show "d \<in> D" by simp
  qed
  with y show ?thesis by blast
qed

lemma no_self_dependency: "valid g \<Longrightarrow> x \<notin> set (deps g x)"
  using acyclic by (fastforce simp: dep_rel_def acyclic_def)

end

end
