(* ===== verification/Task_Board.thy ===== *)
theory Task_Board
  imports Dep_Graph "HOL-Library.Multiset" "HOL-Library.Product_Lexorder" "HOL-Library.List_Lexorder" "HOL-Library.Char_ord"
begin

text \<open>
  \<open>crates/maturana-core/src/board.rs\<close>: the durable orchestration board. A board is a name
  and a vector of cards; every \<open>pub fn\<close> of \<open>Board\<close> that reads or changes it is a
  definition here, with the clock as an argument. The directory \<open>home/board\<close> is the
  record \<open>board_home\<close>: the parsed board files by name and the event logs.
\<close>

section \<open>Data\<close>

datatype card_status = Triage | Todo | Doing | Done | Blocked | Archived

definition parse_card_status :: "str \<Rightarrow> card_status option" where
  "parse_card_status value = (let v = to_ascii_lowercase (trim value) in
     if v = ''triage'' then Some Triage
     else if v = ''todo'' then Some Todo
     else if v \<in> {''doing'', ''in_progress'', ''in-progress'', ''running''} then Some Doing
     else if v = ''done'' then Some Done
     else if v = ''blocked'' then Some Blocked
     else if v = ''archived'' \<or> v = ''archive'' then Some Archived
     else None)"

fun status_label :: "card_status \<Rightarrow> str" where
  "status_label Triage = ''triage''"
| "status_label Todo = ''todo''"
| "status_label Doing = ''doing''"
| "status_label Done = ''done''"
| "status_label Blocked = ''blocked''"
| "status_label Archived = ''archived''"

record card_comment =
  cm_at :: timestamp
  cm_author :: str
  cm_body :: str

record run_record =
  rr_attempt :: nat
  rr_agent :: "str option"
  rr_outcome :: str
  rr_summary :: str
  rr_started_at :: timestamp
  rr_ended_at :: timestamp

record card =
  c_id :: str
  c_title :: str
  c_detail :: str
  c_assignee :: "str option"
  c_status :: card_status
  c_priority :: int
  c_deps :: "str list"
  c_result :: "str option"
  c_attempts :: nat
  c_tenant :: "str option"
  c_block_kind :: "str option"
  c_scheduled_at :: "timestamp option"
  c_max_retries :: nat
  c_goal :: bool
  c_goal_max_turns :: nat
  c_deliver :: "str option"
  c_attachments :: "str list"
  c_comments :: "card_comment list"
  c_runs :: "run_record list"
  c_created_at :: "timestamp option"
  c_updated_at :: "timestamp option"

record board =
  b_name :: str
  b_cards :: "card list"

definition new_board :: "str \<Rightarrow> board" where
  "new_board name = \<lparr> b_name = name, b_cards = [] \<rparr>"

section \<open>Operations\<close>

definition card_of :: "board \<Rightarrow> str \<Rightarrow> card option" where
  "card_of b i = List.find (\<lambda>c. c_id c = i) (b_cards b)"

text \<open>\<open>if let Some(c) = board.card_mut(id) { f(c) }\<close>.\<close>

definition card_mut :: "str \<Rightarrow> (card \<Rightarrow> card) \<Rightarrow> board \<Rightarrow> board" where
  "card_mut i f b = b\<lparr>b_cards := update_first (\<lambda>c. c_id c = i) f (b_cards b)\<rparr>"

definition id_number :: "str \<Rightarrow> nat option" where
  "id_number i = Option.bind (strip_prefix ''c'' i) (parse_nat_below (2 ^ 32))"

definition next_id :: "board \<Rightarrow> str" where
  "next_id b = (let ns = List.map_filter (\<lambda>c. id_number (c_id c)) (b_cards b);
                    m = fold max ns 0
                in ''c'' @ show_nat ((m + 1) mod 2 ^ 32))"

definition fresh_card :: "str \<Rightarrow> str \<Rightarrow> str \<Rightarrow> str option \<Rightarrow> str list \<Rightarrow> timestamp \<Rightarrow> card" where
  "fresh_card i title detail assignee deps now = \<lparr> c_id = i, c_title = title, c_detail = detail,
     c_assignee = assignee, c_status = Todo, c_priority = 0, c_deps = deps, c_result = None,
     c_attempts = 0, c_tenant = None, c_block_kind = None, c_scheduled_at = None,
     c_max_retries = 0, c_goal = False, c_goal_max_turns = 0, c_deliver = None,
     c_attachments = [], c_comments = [], c_runs = [],
     c_created_at = Some now, c_updated_at = Some now \<rparr>"

definition add_card :: "str \<Rightarrow> str \<Rightarrow> str option \<Rightarrow> str list \<Rightarrow> timestamp \<Rightarrow> board \<Rightarrow> str \<times> board" where
  "add_card title detail assignee deps now b =
     (let i = next_id b
      in (i, b\<lparr>b_cards := b_cards b @ [fresh_card i title detail assignee deps now]\<rparr>))"

definition record_run ::
  "str \<Rightarrow> str option \<Rightarrow> str \<Rightarrow> str \<Rightarrow> timestamp \<Rightarrow> timestamp \<Rightarrow> board \<Rightarrow> board" where
  "record_run i agent outcome summary started now = card_mut i (\<lambda>c. c\<lparr>
     c_runs := c_runs c @ [\<lparr> rr_attempt = c_attempts c, rr_agent = agent, rr_outcome = outcome,
       rr_summary = take 400 summary, rr_started_at = started, rr_ended_at = now \<rparr>],
     c_updated_at := Some now \<rparr>)"

definition add_comment :: "str \<Rightarrow> str \<Rightarrow> str \<Rightarrow> timestamp \<Rightarrow> board \<Rightarrow> bool \<times> board" where
  "add_comment i author body now b =
     (case card_of b i of None \<Rightarrow> (False, b)
      | Some _ \<Rightarrow> (True, card_mut i (\<lambda>c. c\<lparr>
          c_comments := c_comments c @ [\<lparr> cm_at = now, cm_author = author, cm_body = body \<rparr>],
          c_updated_at := Some now \<rparr>) b))"

definition remove_card :: "str \<Rightarrow> board \<Rightarrow> bool \<times> board" where
  "remove_card i b =
     (let kept = filter (\<lambda>c. c_id c \<noteq> i) (b_cards b);
          cs = map (\<lambda>c. c\<lparr>c_deps := filter (\<lambda>d. d \<noteq> i) (c_deps c)\<rparr>) kept
      in (length cs \<noteq> length (b_cards b), b\<lparr>b_cards := cs\<rparr>))"

text \<open>Validation: self and unknown dependencies first, then a depth-first search.\<close>

datatype board_error =
    DependsOnItself str
  | DependsOnUnknown str str
  | CycleThrough str
  | OutOfFuel \<comment> \<open>model only: excluded by \<open>visit_enough_fuel\<close>\<close>

fun board_error_text :: "board_error \<Rightarrow> str" where
  "board_error_text (DependsOnItself i) = ''card '' @ i @ '' depends on itself''"
| "board_error_text (DependsOnUnknown i d) = ''card '' @ i @ '' depends on unknown card '' @ d"
| "board_error_text (CycleThrough i) = ''dependency cycle through card '' @ i"
| "board_error_text OutOfFuel = []"

fun check_deps :: "str list \<Rightarrow> str \<Rightarrow> str list \<Rightarrow> board_error + unit" where
  "check_deps ids i [] = Inr ()"
| "check_deps ids i (d # ds) =
     (if d = i then Inl (DependsOnItself i)
      else if d \<notin> set ids then Inl (DependsOnUnknown i d)
      else check_deps ids i ds)"

fun check_cards :: "str list \<Rightarrow> card list \<Rightarrow> board_error + unit" where
  "check_cards ids [] = Inr ()"
| "check_cards ids (c # cs) =
     bind_result (check_deps ids (c_id c) (c_deps c)) (\<lambda>_. check_cards ids cs)"

text \<open>\<open>if let Some(card) = board.card(id) { for dep in &card.deps \<dots> }\<close> loops over these.\<close>

definition card_deps :: "board \<Rightarrow> str \<Rightarrow> str list" where
  "card_deps b i = (case card_of b i of None \<Rightarrow> [] | Some c \<Rightarrow> c_deps c)"

fun visit :: "nat \<Rightarrow> board \<Rightarrow> str \<Rightarrow> marks \<Rightarrow> board_error + marks"
  and visit_deps :: "nat \<Rightarrow> board \<Rightarrow> str list \<Rightarrow> marks \<Rightarrow> board_error + marks" where
  "visit 0 b i m = Inl OutOfFuel"
| "visit (Suc n) b i m =
     (case m i of
        Some Finished \<Rightarrow> Inr m
      | Some InProgress \<Rightarrow> Inl (CycleThrough i)
      | None \<Rightarrow>
          bind_result (visit_deps n b (card_deps b i) (m(i \<mapsto> InProgress)))
            (\<lambda>m'. Inr (m'(i \<mapsto> Finished))))"
| "visit_deps n b [] m = Inr m"
| "visit_deps n b (d # ds) m = bind_result (visit n b d m) (visit_deps n b ds)"

definition visit_fuel :: "board \<Rightarrow> nat" where
  "visit_fuel b = Suc (length (b_cards b))"

definition validate_board :: "board \<Rightarrow> board_error + unit" where
  "validate_board b =
     (let ids = map c_id (b_cards b)
      in bind_result (check_cards ids (b_cards b)) (\<lambda>_.
         bind_result (visit_deps (visit_fuel b) b ids Map.empty) (\<lambda>_. Inr ())))"

text \<open>The dispatcher's reads.\<close>

definition card_done :: "board \<Rightarrow> str \<Rightarrow> bool" where
  "card_done b d = (case card_of b d of None \<Rightarrow> False | Some dc \<Rightarrow> c_status dc = Done)"

definition is_ready :: "timestamp \<Rightarrow> board \<Rightarrow> card \<Rightarrow> bool" where
  "is_ready now b c \<longleftrightarrow> c_status c = Todo \<and>
     (case c_scheduled_at c of None \<Rightarrow> True | Some t \<Rightarrow> t \<le> now) \<and>
     list_all (card_done b) (c_deps c)"

definition ready :: "timestamp \<Rightarrow> board \<Rightarrow> card list" where
  "ready now b = sort_key (\<lambda>c. (- c_priority c, c_id c)) (filter (is_ready now b) (b_cards b))"

definition is_complete :: "board \<Rightarrow> bool" where
  "is_complete b = (let active = filter (\<lambda>c. c_status c \<noteq> Archived) (b_cards b)
     in active \<noteq> [] \<and> list_all (\<lambda>c. c_status c = Done) active)"

definition has_runnable :: "board \<Rightarrow> bool" where
  "has_runnable b = list_ex (\<lambda>c. c_status c = Todo \<or> c_status c = Doing) (b_cards b)"

definition reclaim_in_flight :: "board \<Rightarrow> nat \<times> board" where
  "reclaim_in_flight b =
     (length (filter (\<lambda>c. c_status c = Doing) (b_cards b)),
      b\<lparr>b_cards := map (\<lambda>c. if c_status c = Doing then c\<lparr>c_status := Todo\<rparr> else c) (b_cards b)\<rparr>)"

definition rerunnable :: "card_status \<Rightarrow> bool" where
  "rerunnable s \<longleftrightarrow> s = Done \<or> s = Doing \<or> s = Blocked"

definition reset_for_rerun :: "board \<Rightarrow> nat \<times> board" where
  "reset_for_rerun b =
     (length (filter (rerunnable \<circ> c_status) (b_cards b)),
      b\<lparr>b_cards := map (\<lambda>c. if rerunnable (c_status c)
                              then c\<lparr>c_status := Todo, c_result := None\<rparr> else c) (b_cards b)\<rparr>)"

definition count_status :: "card_status \<Rightarrow> board \<Rightarrow> nat" where
  "count_status s b = length (filter (\<lambda>c. c_status c = s) (b_cards b))"

definition counts :: "board \<Rightarrow> nat \<times> nat \<times> nat \<times> nat" where
  "counts b = (count_status Todo b, count_status Doing b, count_status Done b, count_status Blocked b)"

definition nl :: str where
  "nl = [CHR 0x0A]"

definition dependency_context :: "board \<Rightarrow> card \<Rightarrow> str" where
  "dependency_context b c = concat (map (\<lambda>d.
     case card_of b d of None \<Rightarrow> []
     | Some dc \<Rightarrow> (case c_result dc of None \<Rightarrow> []
        | Some r \<Rightarrow> nl @ ''## from '' @ c_id dc @ '' ('' @ c_title dc @ '')'' @ nl @ r @ nl)) (c_deps c))"

section \<open>The board directory\<close>

record board_event =
  ev_at :: timestamp
  ev_kind :: str
  ev_card :: "str option"
  ev_text :: str

record board_home =
  h_boards :: "str \<rightharpoonup> board"
  h_events :: "str \<rightharpoonup> board_event list"

definition load_board :: "board_home \<Rightarrow> str \<Rightarrow> board" where
  "load_board h name = (case h_boards h name of None \<Rightarrow> new_board name | Some b \<Rightarrow> b)"

definition save_board :: "board \<Rightarrow> board_home \<Rightarrow> board_home" where
  "save_board b h = h\<lparr>h_boards := (h_boards h)(b_name b \<mapsto> b)\<rparr>"

definition read_events :: "board_home \<Rightarrow> str \<Rightarrow> board_event list" where
  "read_events h name = (case h_events h name of None \<Rightarrow> [] | Some es \<Rightarrow> es)"

definition log_event ::
  "str \<Rightarrow> str \<Rightarrow> str option \<Rightarrow> str \<Rightarrow> timestamp \<Rightarrow> board_home \<Rightarrow> board_home" where
  "log_event name kind cid text now h = h\<lparr>h_events := (h_events h)(name \<mapsto> read_events h name @
     [\<lparr> ev_at = now, ev_kind = kind, ev_card = cid, ev_text = text \<rparr>])\<rparr>"

definition clear_events :: "str \<Rightarrow> board_home \<Rightarrow> board_home" where
  "clear_events name h = h\<lparr>h_events := (h_events h)(name := None)\<rparr>"

section \<open>Validation is exact\<close>

definition card_ids :: "board \<Rightarrow> str list" where
  "card_ids b = map c_id (b_cards b)"

lemma card_of_Some: "card_of b i = Some c \<Longrightarrow> c \<in> set (b_cards b) \<and> c_id c = i"
  by (auto simp: card_of_def dest: find_Some_prop)

lemma card_of_None_iff: "card_of b i = None \<longleftrightarrow> i \<notin> set (card_ids b)"
  by (auto simp: card_of_def card_ids_def find_None_iff_all)

lemma card_deps_unknown: "i \<notin> set (card_ids b) \<Longrightarrow> card_deps b i = []"
  by (simp add: card_deps_def card_of_None_iff [symmetric])

lemma upd_eq: "(\<lambda>a. if a = i then v else m a) = m(i := v)"
  by (simp add: fun_upd_def)

text \<open>A successful search keeps every mark, and leaves nothing new in progress.\<close>

lemma visit_frame:
  "visit n b i m = Inr m' \<Longrightarrow> m \<subseteq>\<^sub>m m' \<and> in_progress m' = in_progress m \<and> m' i = Some Finished"
  "visit_deps n b ds m = Inr m' \<Longrightarrow> m \<subseteq>\<^sub>m m' \<and> in_progress m' = in_progress m \<and>
     (\<forall>d\<in>set ds. m' d = Some Finished)"
proof (induction n b i m and n b ds m arbitrary: m' and m' rule: visit_visit_deps.induct)
  case (2 n b i m)
  show ?case
  proof (cases "m i")
    case None
    with "2.prems" obtain m2 where m2: "visit_deps n b (card_deps b i) (m(i \<mapsto> InProgress)) = Inr m2"
      and m': "m' = m2(i \<mapsto> Finished)"
      by (auto simp: bind_result_Inr)
    have le: "m \<subseteq>\<^sub>m m'" and ip: "in_progress m2 = insert i (in_progress m)"
      using "2.IH" [OF None, unfolded upd_eq, OF m2] None m'
      by (auto simp: map_le_iff in_progress_def split: if_splits)
    have "i \<notin> in_progress m" using None by (simp add: in_progress_def)
    with ip have "in_progress m' = in_progress m" unfolding m' in_progress_upd by blast
    moreover have "m' i = Some Finished" by (simp add: m')
    ultimately show ?thesis using le by blast
  next
    case (Some k)
    with "2.prems" show ?thesis by (cases k) (auto simp: map_le_iff)
  qed
next
  case (4 n b d ds m)
  then obtain m1 where m1: "visit n b d m = Inr m1" "visit_deps n b ds m1 = Inr m'"
    by (auto simp: bind_result_Inr)
  from "4.IH"(1) [OF m1(1)] "4.IH"(2) [OF m1(2)] show ?case
    by (auto simp: map_le_iff)
qed simp_all

lemma visit_sound:
  "visit n b i m = Inr m' \<Longrightarrow> marks_ok (card_deps b) m \<Longrightarrow> marks_ok (card_deps b) m'"
  "visit_deps n b ds m = Inr m' \<Longrightarrow> marks_ok (card_deps b) m \<Longrightarrow> marks_ok (card_deps b) m'"
proof (induction n b i m and n b ds m arbitrary: m' and m' rule: visit_visit_deps.induct)
  case (2 n b i m)
  show ?case
  proof (cases "m i")
    case None
    with "2.prems" obtain m2 where m2: "visit_deps n b (card_deps b i) (m(i \<mapsto> InProgress)) = Inr m2"
      and m': "m' = m2(i \<mapsto> Finished)"
      by (auto simp: bind_result_Inr)
    have i2: "i \<in> in_progress m2" using visit_frame(2) [OF m2] by simp
    have "marks_ok (card_deps b) m2"
      using "2.IH" [OF None, unfolded upd_eq, OF m2] marks_ok_start "2.prems" None by blast
    moreover have "m2 i \<noteq> Some Finished" and "set (card_deps b i) \<subseteq> finished m2"
      using i2 visit_frame(2) [OF m2] by (simp add: in_progress_def) (auto simp: finished_def visit_frame(2) [OF m2])
    ultimately show ?thesis unfolding m' by (rule marks_ok_finish)
  next
    case (Some k)
    with "2.prems" show ?thesis by (cases k) auto
  qed
next
  case (4 n b d ds m)
  then show ?case by (auto simp: bind_result_Inr)
qed simp_all

text \<open>A reported cycle is a cycle: everything in progress leads to the node visited.\<close>

lemma visit_cycle:
  "visit n b i m = Inl (CycleThrough x) \<Longrightarrow>
     (\<And>g. g \<in> in_progress m \<Longrightarrow> (g, i) \<in> (dep_rel (card_deps b))\<^sup>+) \<Longrightarrow> \<not> acyclic (dep_rel (card_deps b))"
  "visit_deps n b ds m = Inl (CycleThrough x) \<Longrightarrow>
     (\<And>g d. g \<in> in_progress m \<Longrightarrow> d \<in> set ds \<Longrightarrow> (g, d) \<in> (dep_rel (card_deps b))\<^sup>+) \<Longrightarrow>
     \<not> acyclic (dep_rel (card_deps b))"
proof (induction n b i m and n b ds m rule: visit_visit_deps.induct)
  case (2 n b i m)
  let ?E = "dep_rel (card_deps b)"
  show ?case
  proof (cases "m i")
    case None
    with "2.prems"(1) have "visit_deps n b (card_deps b i) (m(i \<mapsto> InProgress)) = Inl (CycleThrough x)"
      by (auto simp: bind_result_def split: sum.splits)
    moreover have "(g, d) \<in> ?E\<^sup>+"
      if "g \<in> in_progress (m(i \<mapsto> InProgress))" and d: "d \<in> set (card_deps b i)" for g d
    proof -
      have e: "(i, d) \<in> ?E" using d by (simp add: dep_rel_def)
      from that(1) have "g = i \<or> g \<in> in_progress m" by simp
      with e "2.prems"(2) show ?thesis by (auto intro: trancl_into_trancl)
    qed
    ultimately show ?thesis by (rule "2.IH" [OF None, unfolded upd_eq])
  next
    case (Some k)
    with "2.prems" show ?thesis
      by (cases k) (auto simp: in_progress_def acyclic_def)
  qed
next
  case (4 n b d ds m)
  show ?case
  proof (cases "visit n b d m")
    case (Inl e)
    with 4 show ?thesis by simp
  next
    case (Inr m1)
    then have ip: "in_progress m1 = in_progress m" using visit_frame(1) by blast
    from "4.prems"(1) Inr have "visit_deps n b ds m1 = Inl (CycleThrough x)" by simp
    moreover have "(g, e) \<in> (dep_rel (card_deps b))\<^sup>+" if "g \<in> in_progress m1" "e \<in> set ds" for g e
      using that "4.prems"(2) ip by simp
    ultimately show ?thesis by (rule "4.IH"(2))
  qed
qed simp_all

text \<open>Fuel: every nested call marks one more card, so the number of cards is enough.\<close>

definition unmarked :: "board \<Rightarrow> marks \<Rightarrow> nat" where
  "unmarked b m = card {i \<in> set (card_ids b). m i = None}"

lemma unmarked_mono: "m \<subseteq>\<^sub>m m' \<Longrightarrow> unmarked b m' \<le> unmarked b m"
proof -
  assume le: "m \<subseteq>\<^sub>m m'"
  have "m i = None" if "m' i = None" for i
    using le that by (cases "m i") (auto simp: map_le_iff)
  then show ?thesis unfolding unmarked_def by (intro card_mono) auto
qed

lemma unmarked_start:
  "m i = None \<Longrightarrow> i \<in> set (card_ids b) \<Longrightarrow> unmarked b m = Suc (unmarked b (m(i \<mapsto> k)))"
proof -
  assume "m i = None" "i \<in> set (card_ids b)"
  then have "{j \<in> set (card_ids b). m j = None} = insert i {j \<in> set (card_ids b). (m(i \<mapsto> k)) j = None}"
    by auto
  then show ?thesis by (simp add: unmarked_def)
qed

lemma visit_enough_fuel:
  "unmarked b m < n \<Longrightarrow> visit n b i m \<noteq> Inl OutOfFuel"
  "unmarked b m < n \<or> ds = [] \<Longrightarrow> visit_deps n b ds m \<noteq> Inl OutOfFuel"
proof (induction n b i m and n b ds m rule: visit_visit_deps.induct)
  case (2 n b i m)
  show ?case
  proof (cases "m i")
    case None
    have "unmarked b (m(i \<mapsto> InProgress)) < n \<or> card_deps b i = []"
      using unmarked_start [where m = m and i = i and b = b and k = InProgress] None "2.prems"
        card_deps_unknown [of i b] by (cases "i \<in> set (card_ids b)") auto
    from "2.IH" [OF None, unfolded upd_eq, OF this] None show ?thesis
      by (auto simp: bind_result_def fun_upd_def split: sum.splits)
  next
    case (Some k)
    then show ?thesis by (cases k) auto
  qed
next
  case (4 n b d ds m)
  show ?case
  proof (cases "visit n b d m")
    case (Inr m1)
    then have "m \<subseteq>\<^sub>m m1" using visit_frame(1) by blast
    then have "unmarked b m1 \<le> unmarked b m" by (rule unmarked_mono)
    then have "unmarked b m1 < n" using "4.prems" by simp
    with 4 Inr show ?thesis by simp
  qed (use 4 in auto)
qed simp_all


lemma check_deps_iff: "check_deps ids i ds = Inr () \<longleftrightarrow> i \<notin> set ds \<and> set ds \<subseteq> set ids"
  by (induction ds) auto

lemma check_cards_iff:
  "check_cards ids cs = Inr () \<longleftrightarrow> (\<forall>c\<in>set cs. c_id c \<notin> set (c_deps c) \<and> set (c_deps c) \<subseteq> set ids)"
  by (induction cs) (auto simp: bind_result_Inr check_deps_iff)

lemma visit_no_check_error:
  "visit n b i m \<noteq> Inl (DependsOnItself x) \<and> visit n b i m \<noteq> Inl (DependsOnUnknown x y)"
  "visit_deps n b ds m \<noteq> Inl (DependsOnItself x) \<and> visit_deps n b ds m \<noteq> Inl (DependsOnUnknown x y)"
  by (induction n b i m and n b ds m rule: visit_visit_deps.induct)
     (auto simp: bind_result_def upd_eq split: option.splits mark.splits sum.splits)

text \<open>The dependencies mentioned on the board, one set per card.\<close>

definition deps_listed :: "board \<Rightarrow> bool" where
  "deps_listed b \<longleftrightarrow> (\<forall>c\<in>set (b_cards b). c_id c \<notin> set (c_deps c) \<and> set (c_deps c) \<subseteq> set (card_ids b))"

lemma validate_board_iff:
  "validate_board b = Inr () \<longleftrightarrow> deps_listed b \<and> acyclic (dep_rel (card_deps b))"
proof -
  let ?run = "visit_deps (visit_fuel b) b (card_ids b) Map.empty"
  have "unmarked b Map.empty \<le> length (card_ids b)"
    by (simp add: unmarked_def card_length)
  then have fuel: "?run \<noteq> Inl OutOfFuel"
    by (intro visit_enough_fuel(2)) (simp add: visit_fuel_def card_ids_def)
  have "(\<exists>m. ?run = Inr m) \<longleftrightarrow> acyclic (dep_rel (card_deps b))"
  proof
    assume "\<exists>m. ?run = Inr m"
    then obtain m where m: "?run = Inr m" by blast
    have "marks_ok (card_deps b) m" using visit_sound(2) [OF m] by simp
    moreover have "x \<in> finished m" if "card_deps b x \<noteq> []" for x
      using visit_frame(2) [OF m] card_deps_unknown [of x b] that by (auto simp: finished_def)
    ultimately show "acyclic (dep_rel (card_deps b))" by (rule marks_ok_acyclic)
  next
    assume ac: "acyclic (dep_rel (card_deps b))"
    show "\<exists>m. ?run = Inr m"
    proof (cases ?run)
      case (Inl e)
      with fuel visit_no_check_error(2) obtain x where "?run = Inl (CycleThrough x)"
        by (cases e) auto
      from visit_cycle(2) [OF this] ac show ?thesis by (simp add: in_progress_def)
    qed simp
  qed
  moreover have "validate_board b = Inr () \<longleftrightarrow> deps_listed b \<and> (\<exists>m. ?run = Inr m)"
    by (auto simp: validate_board_def Let_def bind_result_Inr check_cards_iff deps_listed_def
      card_ids_def [symmetric])
  ultimately show ?thesis by simp
qed

text \<open>Validation reads ids and dependencies only.\<close>

definition skeleton :: "board \<Rightarrow> (str \<times> str list) list" where
  "skeleton b = map (\<lambda>c. (c_id c, c_deps c)) (b_cards b)"

lemma card_deps_skeleton: "card_deps b i = (case map_of (skeleton b) i of None \<Rightarrow> [] | Some ds \<Rightarrow> ds)"
proof -
  have "map_of (map (\<lambda>c. (c_id c, c_deps c)) cs) i = map_option c_deps (List.find (\<lambda>c. c_id c = i) cs)" for cs
    by (induction cs) auto
  from this [of "b_cards b"] show ?thesis
    by (simp add: card_deps_def card_of_def skeleton_def split: option.splits)
qed

lemma card_ids_skeleton: "card_ids b = map fst (skeleton b)"
  by (simp add: card_ids_def skeleton_def)

lemma deps_listed_skeleton:
  "deps_listed b \<longleftrightarrow> (\<forall>(i, ds)\<in>set (skeleton b). i \<notin> set ds \<and> set ds \<subseteq> set (map fst (skeleton b)))"
  by (auto simp: deps_listed_def card_ids_skeleton skeleton_def)

lemma validate_skeleton:
  "skeleton b = skeleton b' \<Longrightarrow> validate_board b = Inr () \<longleftrightarrow> validate_board b' = Inr ()"
proof -
  assume sk: "skeleton b = skeleton b'"
  have "card_deps b = card_deps b'" by (rule ext) (simp add: card_deps_skeleton sk)
  then show ?thesis by (simp add: validate_board_iff deps_listed_skeleton sk)
qed

lemma skeleton_card_mut [frame_simps]:
  "(\<And>c. c_id (f c) = c_id c \<and> c_deps (f c) = c_deps c) \<Longrightarrow> skeleton (card_mut i f b) = skeleton b"
  by (simp add: skeleton_def card_mut_def map_update_first)

lemma card_of_card_mut:
  assumes "\<And>c. c_id (f c) = c_id c"
  shows "card_of (card_mut i f b) j = (if i = j then map_option f (card_of b j) else card_of b j)"
proof (cases "i = j")
  case True
  then show ?thesis
    using assms by (simp add: card_of_def card_mut_def find_update_first_same)
next
  case False
  then show ?thesis
    using assms by (simp add: card_of_def card_mut_def find_update_first_other)
qed

lemma skeleton_record_run [frame_simps]: "skeleton (record_run i ag out sm st now b) = skeleton b"
  by (simp add: record_run_def skeleton_card_mut)

lemma skeleton_add_comment [frame_simps]: "skeleton (snd (add_comment i a t now b)) = skeleton b"
  by (simp add: add_comment_def skeleton_card_mut split: option.splits)

lemma skeleton_reclaim [frame_simps]: "skeleton (snd (reclaim_in_flight b)) = skeleton b"
  by (auto simp: reclaim_in_flight_def skeleton_def)

lemma skeleton_reset [frame_simps]: "skeleton (snd (reset_for_rerun b)) = skeleton b"
  by (auto simp: reset_for_rerun_def skeleton_def)

interpretation board_graph: validated_graph card_ids card_deps "\<lambda>b. validate_board b = Inr ()"
proof
  fix b x
  assume v: "validate_board b = Inr ()" and x: "x \<in> set (card_ids b)"
  then show "set (card_deps b x) \<subseteq> set (card_ids b)"
    using card_of_Some by (auto simp: validate_board_iff deps_listed_def card_deps_def split: option.splits)
qed (simp add: validate_board_iff)

section \<open>Fresh ids\<close>

lemma id_number_show: "n < 2 ^ 32 \<Longrightarrow> id_number (''c'' @ show_nat n) = Some n"
  unfolding id_number_def strip_prefix_def by (simp only: prefix_def) (simp add: parse_show_nat)

lemma set_map_filter_id: "x \<in> set (List.map_filter f xs) \<longleftrightarrow> (\<exists>y\<in>set xs. f y = Some x)"
  by (induction xs) (auto simp: List.map_filter_simps split: option.splits)

lemma next_id_new:
  assumes "\<forall>c\<in>set (b_cards b). id_number (c_id c) \<noteq> Some (2 ^ 32 - 1)"
  shows "next_id b \<notin> set (card_ids b)"
proof
  let ?ns = "List.map_filter (\<lambda>c. id_number (c_id c)) (b_cards b)"
  let ?m = "fold max ?ns 0"
  have "x < 2 ^ 32 - 1" if x: "x \<in> set ?ns" for x
  proof -
    obtain c where c: "c \<in> set (b_cards b)" "id_number (c_id c) = Some x"
      using x unfolding set_map_filter_id by blast
    then have "x < 2 ^ 32"
      by (auto simp: id_number_def parse_nat_below_def Let_def split: if_splits bind_splits)
    moreover have "x \<noteq> 2 ^ 32 - 1" using c assms by auto
    ultimately show ?thesis by simp
  qed
  then have m: "?m < 2 ^ 32 - 1" by (intro fold_max_less) auto
  then have n: "next_id b = ''c'' @ show_nat (?m + 1)" by (simp add: next_id_def Let_def)
  assume "next_id b \<in> set (card_ids b)"
  then obtain c where c: "c \<in> set (b_cards b)" "c_id c = next_id b" by (auto simp: card_ids_def)
  have "id_number (c_id c) = Some (?m + 1)" unfolding c n using m by (intro id_number_show) simp
  with c(1) have "?m + 1 \<in> set ?ns" by (auto simp: set_map_filter_id)
  then have "?m + 1 \<le> ?m" by (intro fold_max_ge) simp
  then show False by simp
qed

section \<open>Adding and removing cards\<close>

lemma add_card_valid:
  assumes v: "validate_board b = Inr ()" and d: "set deps \<subseteq> set (card_ids b)"
    and new: "next_id b \<notin> set (card_ids b)"
  shows "validate_board (snd (add_card t dt a deps now b)) = Inr ()"
proof -
  let ?b = "snd (add_card t dt a deps now b)" and ?i = "next_id b"
  have sk: "skeleton ?b = skeleton b @ [(?i, deps)]"
    by (simp add: add_card_def Let_def skeleton_def fresh_card_def)
  have ids: "set (card_ids ?b) = insert ?i (set (card_ids b))" by (simp add: card_ids_skeleton sk)
  have cd: "card_deps ?b x = (if x = ?i then deps else card_deps b x)" for x
  proof -
    have "map_of (skeleton b) ?i = None"
      using new by (simp add: card_ids_skeleton map_of_eq_None_iff)
    then show ?thesis by (auto simp: card_deps_skeleton sk map_add_def split: option.splits)
  qed
  have listed: "deps_listed b" and ac: "acyclic (dep_rel (card_deps b))"
    using v by (simp_all add: validate_board_iff)
  have "deps_listed ?b"
    using listed d new by (auto simp: deps_listed_skeleton sk card_ids_skeleton)
  moreover have "acyclic (dep_rel (card_deps ?b))"
  proof -
    let ?B = "set (card_ids b)" and ?E = "dep_rel (card_deps ?b)"
    have E: "?E `` ?B \<subseteq> ?B"
    proof
      fix y assume "y \<in> ?E `` ?B"
      then obtain x where "x \<in> ?B" "y \<in> set (card_deps ?b x)" by (auto simp: dep_rel_def)
      moreover from this have "x \<noteq> ?i" using new by blast
      ultimately show "y \<in> ?B" using board_graph.closed [OF v, of x] by (auto simp: cd)
    qed
    have "?E \<inter> ?B \<times> ?B \<subseteq> dep_rel (card_deps b)" using new by (auto simp: dep_rel_def cd split: if_splits)
    then have "acyclic (?E \<inter> ?B \<times> ?B)" using ac by (rule acyclic_subset [rotated])
    then have "acyclic (?E \<inter> insert ?i ?B \<times> insert ?i ?B)"
      using E new d by (intro acyclic_add_source) (auto simp: dep_rel_def cd)
    moreover have "?E \<inter> insert ?i ?B \<times> insert ?i ?B = ?E"
    proof -
      have "p \<in> insert ?i ?B \<times> insert ?i ?B" if p: "p \<in> ?E" for p
      proof -
        obtain x y where xy: "p = (x, y)" "y \<in> set (card_deps ?b x)" using p by (auto simp: dep_rel_def)
        then have "x \<in> insert ?i ?B"
          using card_deps_unknown [of x b] by (cases "x \<in> ?B") (auto simp: cd split: if_splits)
        then show ?thesis using xy p E d by (auto simp: dep_rel_def cd split: if_splits)
      qed
      then show ?thesis by blast
    qed
    ultimately show ?thesis by simp
  qed
  ultimately show ?thesis by (simp add: validate_board_iff)
qed

lemma remove_card_deps:
  "card_deps (snd (remove_card i b)) j = (if j = i then [] else filter (\<lambda>d. d \<noteq> i) (card_deps b j))"
proof -
  have "List.find (\<lambda>c. c_id c = j)
      (map (\<lambda>c. c\<lparr>c_deps := filter (\<lambda>d. d \<noteq> i) (c_deps c)\<rparr>) (filter (\<lambda>c. c_id c \<noteq> i) cs)) =
    (if j = i then None
     else map_option (\<lambda>c. c\<lparr>c_deps := filter (\<lambda>d. d \<noteq> i) (c_deps c)\<rparr>) (List.find (\<lambda>c. c_id c = j) cs))" for cs
    by (induction cs) auto
  from this [of "b_cards b"] show ?thesis
    by (simp add: card_deps_def card_of_def remove_card_def Let_def split: option.splits)
qed

lemma remove_card_ids: "set (card_ids (snd (remove_card i b))) = set (card_ids b) - {i}"
  by (auto simp: remove_card_def Let_def card_ids_def)

lemma remove_card_valid:
  assumes "validate_board b = Inr ()"
  shows "validate_board (snd (remove_card i b)) = Inr ()"
proof -
  have "deps_listed (snd (remove_card i b))"
    using assms unfolding deps_listed_def remove_card_ids
    by (auto simp: validate_board_iff deps_listed_def remove_card_def Let_def)
  moreover have "dep_rel (card_deps (snd (remove_card i b))) \<subseteq> dep_rel (card_deps b)"
    by (auto simp: dep_rel_def remove_card_deps split: if_splits)
  ultimately show ?thesis
    using assms acyclic_subset by (auto simp: validate_board_iff)
qed

section \<open>Ready cards\<close>

lemma set_ready: "set (ready now b) = {c \<in> set (b_cards b). is_ready now b c}"
  by (simp add: ready_def)

lemma card_of_distinct:
  "distinct (card_ids b) \<Longrightarrow> c \<in> set (b_cards b) \<Longrightarrow> card_of b (c_id c) = Some c"
proof -
  have "distinct (map c_id cs) \<Longrightarrow> c \<in> set cs \<Longrightarrow> List.find (\<lambda>d. c_id d = c_id c) cs = Some c" for cs
    by (induction cs) auto
  then show "distinct (card_ids b) \<Longrightarrow> c \<in> set (b_cards b) \<Longrightarrow> card_of b (c_id c) = Some c"
    by (simp add: card_ids_def card_of_def)
qed

lemma card_done_iff: "card_done b i \<longleftrightarrow> (\<exists>c. card_of b i = Some c \<and> c_status c = Done)"
  by (simp add: card_done_def split: option.splits)

lemma ready_progress:
  assumes v: "validate_board b = Inr ()" and d: "distinct (card_ids b)"
    and st: "\<forall>c\<in>set (b_cards b). c_status c = Todo \<or> c_status c = Done"
    and sched: "\<forall>c\<in>set (b_cards b). \<forall>t. c_scheduled_at c = Some t \<longrightarrow> t \<le> now"
    and todo: "c \<in> set (b_cards b)" "c_status c = Todo"
  shows "ready now b \<noteq> []"
proof -
  let ?D = "{i. card_done b i}"
  have "c_id c \<in> set (card_ids b)" using todo by (simp add: card_ids_def)
  moreover have "c_id c \<notin> ?D" using card_of_distinct [OF d todo(1)] todo(2) by (simp add: card_done_iff)
  ultimately obtain y where y: "y \<in> set (card_ids b)" "y \<notin> ?D" "set (card_deps b y) \<subseteq> ?D"
    using board_graph.progress [OF v, of "c_id c" ?D] by blast
  then obtain e where e: "e \<in> set (b_cards b)" "c_id e = y" by (auto simp: card_ids_def)
  then have ce: "card_of b y = Some e" using card_of_distinct [OF d] by auto
  with y(2) st e(1) have "c_status e = Todo" by (auto simp: card_done_iff)
  moreover have "c_deps e = card_deps b y" by (simp add: card_deps_def ce)
  ultimately have "is_ready now b e"
    using y(3) sched e(1) by (auto simp: is_ready_def list_all_iff split: option.splits)
  with e(1) have "e \<in> set (ready now b)" by (simp add: set_ready)
  then show ?thesis by auto
qed

lemma is_complete_iff:
  "is_complete b \<longleftrightarrow> (\<exists>c\<in>set (b_cards b). c_status c \<noteq> Archived) \<and>
     (\<forall>c\<in>set (b_cards b). c_status c = Done \<or> c_status c = Archived)"
  by (auto simp: is_complete_def Let_def list_all_iff filter_empty_conv)

section \<open>Properties\<close>

definition demo_board :: board where
  "demo_board = snd (add_card ''build'' [] None [''c1''] 20
     (snd (add_card ''research'' [] None [] 10 (new_board ''demo''))))"

lemma demo_board_cards:
  "b_cards demo_board = [fresh_card ''c1'' ''research'' [] None [] 10,
     fresh_card ''c2'' ''build'' [] None [''c1''] 20]"
  by (simp add: demo_board_def add_card_def new_board_def next_id_def Let_def map_filter_simps id_number_def
    strip_prefix_def parse_nat_below_def digits_val_def digit_val_def is_digit_def fresh_card_def show_nat.simps char_of_def bit_Suc_0_iff)

lemma demo_board_valid: "validate_board demo_board = Inr ()"
  by (simp add: validate_board_def demo_board_cards fresh_card_def visit_fuel_def card_deps_def card_of_def
    Let_def numeral_2_eq_2)

text \<open>C8. \<open>Board::validate\<close> accepts exactly the boards whose dependencies all name an
  existing card other than the card itself and form no cycle: it rejects every
  cyclic, self-referring or dangling board and no other.\<close>

theorem board_validate_exact:
  "validate_board b = Inr () \<longleftrightarrow>
     (\<forall>c\<in>set (b_cards b). c_id c \<notin> set (c_deps c) \<and> set (c_deps c) \<subseteq> set (card_ids b)) \<and>
     acyclic (dep_rel (card_deps b))"
  by (simp add: validate_board_iff deps_listed_def)

theorem board_validate_exact_witness: "acyclic (dep_rel (card_deps demo_board))"
  using board_validate_exact [of demo_board] demo_board_valid by simp

text \<open>C15. The depth-first search behind \<open>validate\<close> always ends with an answer: the number of
  cards is enough depth for it, so validation never runs out of fuel.\<close>

theorem board_validate_terminates: "validate_board b \<noteq> Inl OutOfFuel"
proof -
  have "check_deps ids i ds \<noteq> Inl OutOfFuel" for ids i ds
    by (induction ds) auto
  then have "check_cards ids cs \<noteq> Inl OutOfFuel" for ids cs
    by (induction cs) (auto simp: bind_result_def split: sum.splits)
  moreover have "unmarked b Map.empty \<le> length (card_ids b)"
    by (simp add: unmarked_def card_length)
  then have "visit_deps (visit_fuel b) b (card_ids b) Map.empty \<noteq> Inl OutOfFuel"
    by (intro visit_enough_fuel(2)) (simp add: visit_fuel_def card_ids_def)
  ultimately show ?thesis
    by (auto simp: validate_board_def Let_def bind_result_def card_ids_def split: sum.splits)
qed



text \<open>C17. \<open>ready\<close> returns exactly the cards that are \<open>Todo\<close>, due, and whose every
  dependency is a \<open>Done\<close> card of the board, each as often as it occurs, in order of
  decreasing priority and, for equal priority, increasing id.\<close>

theorem board_ready_exact:
  "mset (ready now b) = filter_mset (is_ready now b) (mset (b_cards b)) \<and>
   sorted_wrt (\<lambda>c d. c_priority d < c_priority c \<or> (c_priority d = c_priority c \<and> c_id c \<le> c_id d))
     (ready now b)"
proof
  show "mset (ready now b) = filter_mset (is_ready now b) (mset (b_cards b))"
    by (simp add: ready_def)
  have "sorted (map (\<lambda>c. (- c_priority c, c_id c)) (ready now b))"
    by (simp add: ready_def)
  then show "sorted_wrt (\<lambda>c d. c_priority d < c_priority c \<or> (c_priority d = c_priority c \<and> c_id c \<le> c_id d))
     (ready now b)"
    by (auto simp: sorted_map less_eq_prod_def elim!: sorted_wrt_mono_rel [rotated])
qed

text \<open>C20. \<open>Board::add\<close> gives an id no card of the board has, unless some id already uses
  the largest \<open>u32\<close>, and adding a card whose dependencies exist keeps the board valid.\<close>

theorem board_add_fresh_and_valid:
  assumes "\<forall>c\<in>set (b_cards b). id_number (c_id c) \<noteq> Some (2 ^ 32 - 1)"
    and "validate_board b = Inr ()" and "set deps \<subseteq> set (card_ids b)"
    and "add_card t dt a deps now b = (i, b')"
  shows "i \<notin> set (card_ids b) \<and> validate_board b' = Inr ()"
proof -
  have "i = next_id b" and "b' = snd (add_card t dt a deps now b)"
    using assms(4) by (auto simp: add_card_def Let_def)
  with assms show ?thesis using next_id_new add_card_valid by blast
qed

theorem board_add_fresh_and_valid_witness:
  "case add_card ''ship'' [] None [''c2''] 30 demo_board of (i, b') \<Rightarrow>
     i \<notin> set (card_ids demo_board) \<and> validate_board b' = Inr ()"
proof -
  have "\<forall>c\<in>set (b_cards demo_board). id_number (c_id c) \<noteq> Some (2 ^ 32 - 1)"
    by (simp add: demo_board_cards fresh_card_def id_number_def strip_prefix_def parse_nat_below_def
      digits_val_def digit_val_def is_digit_def)
  from board_add_fresh_and_valid [OF this demo_board_valid, of "[''c2'']"] show ?thesis
    by (auto simp: card_ids_def demo_board_cards fresh_card_def split: prod.splits)
qed

text \<open>C19. \<open>remove_card\<close> removes every card of that id and every mention of it, reports
  whether it removed any, and leaves a valid board valid.\<close>

theorem board_remove_keeps_valid:
  assumes "validate_board b = Inr ()" and "remove_card i b = (removed, b')"
  shows "validate_board b' = Inr () \<and> set (card_ids b') = set (card_ids b) - {i} \<and>
    (\<forall>c\<in>set (b_cards b'). i \<notin> set (c_deps c)) \<and> (removed \<longleftrightarrow> i \<in> set (card_ids b))"
proof -
  have b': "b' = snd (remove_card i b)" and r: "removed = fst (remove_card i b)" using assms(2) by simp_all
  have "\<forall>c\<in>set (b_cards b'). i \<notin> set (c_deps c)"
    by (auto simp: b' remove_card_def Let_def)
  moreover have "removed \<longleftrightarrow> i \<in> set (card_ids b)"
  proof -
    have "length (filter (\<lambda>c. c_id c \<noteq> i) cs) \<noteq> length cs \<longleftrightarrow> i \<in> c_id ` set cs" for cs
      using length_filter_less [of _ cs "\<lambda>c. c_id c \<noteq> i"] filter_True [of cs "\<lambda>c. c_id c \<noteq> i"] by fastforce
    then show ?thesis by (simp add: r remove_card_def Let_def card_ids_def)
  qed
  ultimately show ?thesis
    using remove_card_valid [OF assms(1)] remove_card_ids by (simp add: b')
qed

theorem board_remove_keeps_valid_witness:
  "validate_board (snd (remove_card ''c1'' demo_board)) = Inr ()"
  using board_remove_keeps_valid [OF demo_board_valid, of "''c1''"] by (metis prod.collapse)

text \<open>A crashed run is reclaimed: afterwards no card is in flight, the number reported is
  the number that was, every card keeps its id, dependencies and attempt count, and a
  valid board stays valid.\<close>

theorem board_reclaim:
  assumes "reclaim_in_flight b = (n, b')"
  shows "count_status Doing b' = 0 \<and> n = count_status Doing b \<and>
    count_status Todo b' = count_status Todo b + n \<and>
    map (\<lambda>c. (c_id c, c_deps c, c_attempts c)) (b_cards b') =
      map (\<lambda>c. (c_id c, c_deps c, c_attempts c)) (b_cards b) \<and>
    (validate_board b' = Inr () \<longleftrightarrow> validate_board b = Inr ())"
proof -
  have b': "b' = snd (reclaim_in_flight b)" using assms by simp
  let ?f = "\<lambda>c. if c_status c = Doing then c\<lparr>c_status := Todo\<rparr> else c"
  have "length (filter (\<lambda>c. c_status c = Todo) (map ?f cs)) =
      length (filter (\<lambda>c. c_status c = Todo) cs) + length (filter (\<lambda>c. c_status c = Doing) cs)" for cs
    by (induction cs) auto
  then show ?thesis
    using assms validate_skeleton [OF skeleton_reclaim, of b]
    by (auto simp: reclaim_in_flight_def count_status_def filter_empty_conv)
qed

theorem board_reclaim_witness:
  "count_status Doing (snd (reclaim_in_flight (card_mut ''c1'' (\<lambda>c. c\<lparr>c_status := Doing\<rparr>) demo_board))) = 0"
  using board_reclaim [of "card_mut ''c1'' (\<lambda>c. c\<lparr>c_status := Doing\<rparr>) demo_board"] by (metis prod.collapse)

text \<open>A status survives printing and parsing, whatever the case and surrounding blanks
  it is typed with.\<close>

theorem card_status_roundtrip:
  "parse_card_status (status_label s) = Some s \<and>
   parse_card_status ('' '' @ to_ascii_uppercase (status_label s) @ '' '') = Some s"
  by (induct s; code_simp)

end
