(* ===== verification/Ordered_Map.thy ===== *)
theory Ordered_Map
  imports Maturana_Prelude "HOL-Library.Char_ord" "HOL-Library.List_Lexorder"
begin

text \<open>
  \<open>BTreeMap<String, V>\<close>: a list of entries in strictly increasing key order, and what the
  sources use of it (insert, get, remove, keys in order). \<open>map_of\<close> reads it as a map.
\<close>

type_synonym 'v omap = "(str \<times> 'v) list"

fun om_insert :: "str \<Rightarrow> 'v \<Rightarrow> 'v omap \<Rightarrow> 'v omap" where
  "om_insert k v [] = [(k, v)]"
| "om_insert k v ((j, w) # m) =
     (if k < j then (k, v) # (j, w) # m
      else if k = j then (k, v) # m
      else (j, w) # om_insert k v m)"

definition om_remove :: "str \<Rightarrow> 'v omap \<Rightarrow> 'v omap" where
  "om_remove k m = filter (\<lambda>(j, _). j \<noteq> k) m"

definition om_ok :: "'v omap \<Rightarrow> bool" where
  "om_ok m \<longleftrightarrow> sorted_wrt (<) (map fst m)"

lemma om_ok_Nil [simp]: "om_ok []"
  by (simp add: om_ok_def)

lemma om_insert_keys: "fst ` set (om_insert k v m) = insert k (fst ` set m)"
  by (induction k v m rule: om_insert.induct) auto

lemma om_insert_ok [simp]: "om_ok m \<Longrightarrow> om_ok (om_insert k v m)"
proof (induction k v m rule: om_insert.induct)
  case (2 k v j w m)
  then have j: "om_ok m" "\<forall>x\<in>fst ` set m. j < x" by (auto simp: om_ok_def)
  consider "k < j" | "k = j" | "j < k" using linorder_less_linear by blast
  then show ?case
  proof cases
    case 3
    then have "\<forall>x\<in>fst ` set (om_insert k v m). j < x" using j(2) by (simp add: om_insert_keys)
    moreover have "om_ok (om_insert k v m)" using 2 3 j(1) by simp
    moreover have "\<not> k < j" "k \<noteq> j" using 3 by auto
    ultimately show ?thesis by (simp add: om_ok_def)
  qed (use j in \<open>auto simp: om_ok_def intro: less_trans\<close>)
qed (simp add: om_ok_def)

lemma map_of_om_insert [simp]: "om_ok m \<Longrightarrow> map_of (om_insert k v m) = (map_of m)(k \<mapsto> v)"
proof (induction k v m rule: om_insert.induct)
  case (2 k v j w m)
  then have "om_ok m" and "\<forall>x\<in>fst ` set m. j < x" by (auto simp: om_ok_def)
  with 2 show ?case by (auto simp: fun_eq_iff map_of_eq_None_iff)
qed simp

lemma om_remove_ok [simp]: "om_ok m \<Longrightarrow> om_ok (om_remove k m)"
  by (auto simp: om_ok_def om_remove_def sorted_wrt_map intro: sorted_wrt_filter)

lemma map_of_om_remove [simp]: "map_of (om_remove k m) = (map_of m)(k := None)"
  by (induction m) (auto simp: om_remove_def fun_eq_iff)

lemma om_ok_distinct: "om_ok m \<Longrightarrow> distinct (map fst m)"
  by (simp add: om_ok_def strict_sorted_iff)

lemma om_get_in: "om_ok m \<Longrightarrow> (k, v) \<in> set m \<longleftrightarrow> map_of m k = Some v"
  using om_ok_distinct by (auto dest: map_of_SomeD)

end
