(* ===== verification/Roles.thy ===== *)
theory Roles
  imports Ordered_Map
begin

text \<open>
  \<open>crates/maturana-core/src/roles.rs\<close>: worker roles, the registry keyed by role name and its
  field-by-field merge with \<open>roles.toml\<close>, and the control markers of the orchestration loop.
  Parsing the file is the TOML library's; the parsed patches are an argument.
\<close>

section \<open>Markers\<close>

definition marker_done :: str where "marker_done = ''[[ORCH_DONE]]''"
definition marker_blocked :: str where "marker_blocked = ''[[ORCH_BLOCKED]]''"
definition marker_approve :: str where "marker_approve = ''[[REVIEW: APPROVE]]''"
definition marker_revise :: str where "marker_revise = ''[[REVIEW: REVISE]]''"
definition marker_pass :: str where "marker_pass = ''[[VERIFY: PASS]]''"
definition marker_fail :: str where "marker_fail = ''[[VERIFY: FAIL]]''"

section \<open>The registry\<close>

datatype role_placement = SpawnFrom str | ReuseAgent str

record role =
  r_name :: str
  r_description :: str
  r_system_prompt :: str
  r_model :: "str option"
  r_placement :: role_placement

type_synonym registry = "role omap"

record role_patch =
  p_name :: "str option"
  p_description :: "str option"
  p_system_prompt :: "str option"
  p_model :: "str option"
  p_placement :: "role_placement option"

definition core_role_defs :: "(str \<times> str \<times> str) list" where
  "core_role_defs =
    [(''coordinator'',
      ''Breaks the goal into steps with dependencies and decides when it is done.'',
      ''You are the COORDINATOR. Break the goal into the smallest sufficient list of '' @
      ''concrete steps, note which steps depend on which, and assign each to a role. '' @
      ''Keep the plan as small as will satisfy the goal. When the work is complete, '' @
      ''reply with the final answer and end with the marker on its own line.''),
     (''researcher'',
      ''Gathers facts and source material.'',
      ''You are the RESEARCHER. Gather only the information the task asks for, cite '' @
      ''sources, and return a tight, factual result. Do not write the final answer.''),
     (''developer'',
      ''Writes and edits code or concrete artifacts.'',
      ''You are the DEVELOPER. Produce the specific artifact the task asks for '' @
      ''(code, file, command). Be concrete and minimal; return exactly what was asked.''),
     (''reviewer'',
      ''Checks a result against acceptance criteria and approves or returns it.'',
      ''You are the REVIEWER. Check the result against the stated acceptance criteria. '' @
      ''If it passes, end your reply with [[REVIEW: APPROVE]] on its own line. If it '' @
      ''needs another pass, end with [[REVIEW: REVISE]] followed by specific, '' @
      ''actionable feedback.''),
     (''synthesizer'',
      ''Combines step results into the final answer for the user.'',
      ''You are the SYNTHESIZER. Combine the completed step results into one clear '' @
      ''final answer for the user. When the answer is complete, end with [[ORCH_DONE]] '' @
      ''on its own line. If you cannot complete it, end with [[ORCH_BLOCKED]] and the '' @
      ''reason.'')]"

definition from_core :: "(str \<Rightarrow> role_placement) \<Rightarrow> registry" where
  "from_core placement_for = fold (\<lambda>(n, d, p). om_insert n
     \<lparr> r_name = n, r_description = d, r_system_prompt = p, r_model = None,
       r_placement = placement_for n \<rparr>) core_role_defs []"

definition default_roles :: "str \<Rightarrow> registry" where
  "default_roles spec = from_core (\<lambda>_. SpawnFrom spec)"

text \<open>\<open>reuse_across\<close> asserts that there is an agent: \<open>None\<close> is its panic.\<close>

definition pick_agent :: "str list \<Rightarrow> nat \<Rightarrow> str" where
  "pick_agent agents i = agents ! min i (length agents - 1)"

definition reuse_across :: "str list \<Rightarrow> registry option" where
  "reuse_across agents =
     (if agents = [] then None
      else Some (from_core (\<lambda>n. ReuseAgent
        (if n = ''developer'' \<or> n = ''coordinator'' then pick_agent agents 0
         else if n = ''reviewer'' \<or> n = ''synthesizer'' then pick_agent agents 1
         else if n = ''researcher'' then pick_agent agents 2
         else pick_agent agents 0))))"

definition get_role :: "registry \<Rightarrow> str \<Rightarrow> role option" where
  "get_role reg n = map_of reg n"

definition role_names :: "registry \<Rightarrow> str list" where
  "role_names reg = map fst reg"

definition or_keep :: "'a option \<Rightarrow> 'a \<Rightarrow> 'a" where
  "or_keep o' x = (case o' of None \<Rightarrow> x | Some v \<Rightarrow> v)"

definition merge_role :: "str \<Rightarrow> role_patch \<Rightarrow> role option \<Rightarrow> str + role" where
  "merge_role n f base =
     (case base of
        Some b \<Rightarrow> Inr (b\<lparr> r_name := or_keep (p_name f) (r_name b),
          r_description := or_keep (p_description f) (r_description b),
          r_system_prompt := or_keep (p_system_prompt f) (r_system_prompt b),
          r_model := (if p_model f = None then r_model b else p_model f),
          r_placement := or_keep (p_placement f) (r_placement b) \<rparr>)
      | None \<Rightarrow>
          (case p_placement f of
             None \<Rightarrow> Inl (''new role '' @ [CHR 39] @ n @ [CHR 39] @ '' in roles.toml needs a placement'')
           | Some pl \<Rightarrow> Inr \<lparr> r_name = or_keep (p_name f) n, r_description = or_keep (p_description f) [],
               r_system_prompt = or_keep (p_system_prompt f) [], r_model = p_model f, r_placement = pl \<rparr>))"

fun apply_patches :: "(str \<times> role_patch) list \<Rightarrow> registry \<Rightarrow> str + registry" where
  "apply_patches [] reg = Inr reg"
| "apply_patches ((n, f) # ps) reg =
     bind_result (merge_role n f (get_role reg n)) (\<lambda>r. apply_patches ps (om_insert n r reg))"

text \<open>\<open>None\<close>: the file does not exist.\<close>

definition load_or_default :: "(str \<times> role_patch) list option \<Rightarrow> str \<Rightarrow> str + registry" where
  "load_or_default file spec =
     (case file of None \<Rightarrow> Inr (default_roles spec) | Some ps \<Rightarrow> apply_patches ps (default_roles spec))"

definition newline :: str where "newline = [CHR 10]"

definition frame_task :: "registry \<Rightarrow> str \<Rightarrow> str \<Rightarrow> str option" where
  "frame_task reg n task =
     (case get_role reg n of
        None \<Rightarrow> None
      | Some r \<Rightarrow> Some (trim (r_system_prompt r) @ newline @ newline @ ''--- TASK ---'' @ newline @ trim task))"

section \<open>Lemmas\<close>

lemma fold_insert_ok: "om_ok m \<Longrightarrow> om_ok (fold (\<lambda>(n, d, p). om_insert n (f n d p)) xs m)"
  by (induction xs arbitrary: m) (simp_all add: case_prod_unfold)

lemma from_core_ok: "om_ok (from_core pf)"
  unfolding from_core_def by (rule fold_insert_ok) simp

lemma get_from_core:
  "get_role (from_core pf) n = (case map_of core_role_defs n of None \<Rightarrow> None
     | Some (d, p) \<Rightarrow> Some \<lparr> r_name = n, r_description = d, r_system_prompt = p, r_model = None, r_placement = pf n \<rparr>)"
  by (simp add: get_role_def from_core_def core_role_defs_def)

lemma apply_patches_get:
  assumes "apply_patches ps reg = Inr reg'" and "om_ok reg" and "distinct (map fst ps)"
  shows "om_ok reg' \<and> (\<forall>n. case map_of ps n of None \<Rightarrow> get_role reg' n = get_role reg n
    | Some f \<Rightarrow> \<exists>r. merge_role n f (get_role reg n) = Inr r \<and> get_role reg' n = Some r)"
  using assms
proof (induction ps arbitrary: reg)
  case (Cons p ps)
  obtain n f where p: "p = (n, f)" by fastforce
  with Cons.prems(1) obtain r where r: "merge_role n f (get_role reg n) = Inr r"
    "apply_patches ps (om_insert n r reg) = Inr reg'"
    by (auto simp: bind_result_Inr)
  have nn: "map_of ps n = None" using Cons.prems(3) by (simp add: p map_of_eq_None_iff)
  have g: "get_role (om_insert n r reg) m = (if m = n then Some r else get_role reg m)" for m
    using Cons.prems(2) by (simp add: get_role_def)
  have "om_ok (om_insert n r reg)" using Cons.prems(2) by simp
  from Cons.IH [OF r(2) this] Cons.prems(3) have
    ok: "om_ok reg'" and ih: "\<And>m. case map_of ps m of None \<Rightarrow> get_role reg' m = get_role (om_insert n r reg) m
      | Some f \<Rightarrow> \<exists>q. merge_role m f (get_role (om_insert n r reg) m) = Inr q \<and> get_role reg' m = Some q"
    by (auto simp: p)
  have "case map_of (p # ps) m of None \<Rightarrow> get_role reg' m = get_role reg m
    | Some f \<Rightarrow> \<exists>q. merge_role m f (get_role reg m) = Inr q \<and> get_role reg' m = Some q" for m
    using ih [of m] nn r(1) by (cases "m = n") (auto simp: p g split: option.splits)
  with ok show ?case by blast
qed (simp add: get_role_def)

section \<open>Properties\<close>

text \<open>
  C34. \<open>roles.toml\<close> is merged field by field: a role the file does not mention keeps its
  built-in definition, a built-in role keeps every field the file leaves out (so an
  operator can move a role to another VM without losing its prompt), and a new role is
  the file's. Names come out sorted and without duplicates.
\<close>

theorem roles_merge_exact:
  assumes "load_or_default (Some ps) spec = Inr reg" and "distinct (map fst ps)"
  shows "sorted_wrt (<) (role_names reg) \<and>
    (\<forall>n. map_of ps n = None \<longrightarrow> get_role reg n = get_role (default_roles spec) n) \<and>
    (\<forall>n f b. map_of ps n = Some f \<longrightarrow> get_role (default_roles spec) n = Some b \<longrightarrow>
       (\<exists>r. get_role reg n = Some r \<and>
          (p_system_prompt f = None \<longrightarrow> r_system_prompt r = r_system_prompt b) \<and>
          (p_model f = None \<longrightarrow> r_model r = r_model b) \<and>
          r_placement r = or_keep (p_placement f) (r_placement b))) \<and>
    (\<forall>n f. map_of ps n = Some f \<longrightarrow> get_role (default_roles spec) n = None \<longrightarrow>
       (\<exists>r. get_role reg n = Some r \<and> p_placement f = Some (r_placement r)))"
proof -
  have a: "apply_patches ps (default_roles spec) = Inr reg"
    using assms(1) by (simp add: load_or_default_def)
  have ok: "om_ok (default_roles spec)" by (simp add: default_roles_def from_core_ok)
  note g = apply_patches_get [OF a ok assms(2)]
  have kept: "get_role reg n = get_role (default_roles spec) n" if "map_of ps n = None" for n
    using conjunct2 [OF g, rule_format, of n] that by simp
  have merged: "\<exists>r. merge_role n f (get_role (default_roles spec) n) = Inr r \<and> get_role reg n = Some r"
    if "map_of ps n = Some f" for n f
    using conjunct2 [OF g, rule_format, of n] that by simp
  have old: "\<exists>r. get_role reg n = Some r \<and>
          (p_system_prompt f = None \<longrightarrow> r_system_prompt r = r_system_prompt b) \<and>
          (p_model f = None \<longrightarrow> r_model r = r_model b) \<and>
          r_placement r = or_keep (p_placement f) (r_placement b)"
    if "map_of ps n = Some f" "get_role (default_roles spec) n = Some b" for n f b
    using merged [OF that(1)] that(2) by (auto simp: merge_role_def or_keep_def)
  have new: "\<exists>r. get_role reg n = Some r \<and> p_placement f = Some (r_placement r)"
    if "map_of ps n = Some f" "get_role (default_roles spec) n = None" for n f
    using merged [OF that(1)] that(2) by (auto simp: merge_role_def split: option.splits)
  have "sorted_wrt (<) (role_names reg)" using g by (simp add: role_names_def om_ok_def)
  with kept old new show ?thesis by blast
qed

theorem roles_merge_exact_witness:
  "\<exists>reg r. load_or_default (Some [(''researcher'', \<lparr> p_name = None, p_description = None, p_system_prompt = None,
       p_model = None, p_placement = Some (ReuseAgent ''vm'') \<rparr>)]) ''base'' = Inr reg \<and>
     get_role reg ''researcher'' = Some r \<and> r_placement r = ReuseAgent ''vm''"
proof -
  let ?f = "\<lparr> p_name = None, p_description = None, p_system_prompt = None, p_model = None, p_placement = Some (ReuseAgent ''vm'') \<rparr>"
  have b: "\<exists>b. get_role (default_roles ''base'') ''researcher'' = Some b"
    unfolding default_roles_def get_from_core by (simp add: core_role_defs_def)
  then obtain b where b: "get_role (default_roles ''base'') ''researcher'' = Some b" ..
  then obtain reg where l: "load_or_default (Some [(''researcher'', ?f)]) ''base'' = Inr reg"
    by (auto simp: load_or_default_def merge_role_def)
  have d: "distinct (map fst [(''researcher'', ?f)])" and m: "map_of [(''researcher'', ?f)] ''researcher'' = Some ?f"
    by simp_all
  obtain r where "get_role reg ''researcher'' = Some r" "r_placement r = or_keep (p_placement ?f) (r_placement b)"
    using roles_merge_exact [OF l d] m b by blast
  moreover have "or_keep (p_placement ?f) (r_placement b) = ReuseAgent ''vm''" by (simp add: or_keep_def)
  ultimately have "get_role reg ''researcher'' = Some r" "r_placement r = ReuseAgent ''vm''" by simp_all
  with l show ?thesis by blast
qed

end
