(* ===== verification/Run_Budget.thy ===== *)
theory Run_Budget
  imports Maturana_Prelude
begin

text \<open>
  \<open>crates/maturana-core/src/orchestrator_budget.rs\<close>: the caps of an orchestration run,
  clamped to compiled ceilings, the count-down turn and tick budget, the plan admission
  check and the bounded slot counter. Integers keep their width (\<open>u32\<close>, \<open>u64\<close>); plain
  \<open>+\<close> wraps as in a release build.
\<close>

section \<open>Caps\<close>

record caps =
  max_total_turns :: u32
  max_steps :: u32
  max_wall_seconds :: u64
  max_ticks :: u64
  max_depth :: u32
  max_parallel :: u32
  max_concurrent_vms :: u32
  max_review_cycles :: u32
  max_replans :: u32

text \<open>The constants of \<open>mod ceiling\<close>, gathered in one value.\<close>

definition ceiling_caps :: caps where
  "ceiling_caps = \<lparr> max_total_turns = 200, max_steps = 64, max_wall_seconds = 6 * 3600,
     max_ticks = 100000, max_depth = 4, max_parallel = 32, max_concurrent_vms = 32,
     max_review_cycles = 5, max_replans = 3 \<rparr>"

definition default_caps :: caps where
  "default_caps = \<lparr> max_total_turns = 40, max_steps = 6, max_wall_seconds = 1800,
     max_ticks = 1200, max_depth = 2, max_parallel = 4, max_concurrent_vms = 4,
     max_review_cycles = 2, max_replans = 1 \<rparr>"

definition clamp_to_ceiling :: "caps \<Rightarrow> caps" where
  "clamp_to_ceiling c = c\<lparr>
     max_total_turns := min (max_total_turns c) (max_total_turns ceiling_caps),
     max_steps := min (max_steps c) (max_steps ceiling_caps),
     max_wall_seconds := min (max_wall_seconds c) (max_wall_seconds ceiling_caps),
     max_ticks := min (max_ticks c) (max_ticks ceiling_caps),
     max_depth := min (max_depth c) (max_depth ceiling_caps),
     max_parallel := min (max_parallel c) (max_parallel ceiling_caps),
     max_concurrent_vms := min (max_concurrent_vms c) (max_concurrent_vms ceiling_caps),
     max_review_cycles := min (max_review_cycles c) (max_review_cycles ceiling_caps),
     max_replans := min (max_replans c) (max_replans ceiling_caps) \<rparr>"

record caps_override =
  ov_max_total_turns :: "u32 option"
  ov_max_wall_seconds :: "u64 option"
  ov_max_parallel :: "u32 option"
  ov_max_concurrent_vms :: "u32 option"
  ov_max_steps :: "u32 option"

definition lower_to :: "'a::linorder option \<Rightarrow> 'a \<Rightarrow> 'a" where
  "lower_to r x = (case r of None \<Rightarrow> x | Some v \<Rightarrow> min x v)"

definition tighten_with :: "caps \<Rightarrow> caps_override \<Rightarrow> caps" where
  "tighten_with c ov = clamp_to_ceiling (c\<lparr>
     max_total_turns := lower_to (ov_max_total_turns ov) (max_total_turns c),
     max_wall_seconds := lower_to (ov_max_wall_seconds ov) (max_wall_seconds c),
     max_parallel := lower_to (ov_max_parallel ov) (max_parallel c),
     max_concurrent_vms := lower_to (ov_max_concurrent_vms ov) (max_concurrent_vms c),
     max_steps := lower_to (ov_max_steps ov) (max_steps c) \<rparr>)"

definition worst_case_turns :: "caps \<Rightarrow> u32 \<Rightarrow> u32" where
  "worst_case_turns c steps =
     sat_add (sat_mul steps (sat_mul (1 + max_review_cycles c) (1 + max_replans c))) 2"

text \<open>Every field of one caps value is at most that of another.\<close>

definition caps_le :: "caps \<Rightarrow> caps \<Rightarrow> bool" where
  "caps_le a b \<longleftrightarrow> max_total_turns a \<le> max_total_turns b \<and> max_steps a \<le> max_steps b \<and>
     max_wall_seconds a \<le> max_wall_seconds b \<and> max_ticks a \<le> max_ticks b \<and>
     max_depth a \<le> max_depth b \<and> max_parallel a \<le> max_parallel b \<and>
     max_concurrent_vms a \<le> max_concurrent_vms b \<and>
     max_review_cycles a \<le> max_review_cycles b \<and> max_replans a \<le> max_replans b"

lemma caps_le_refl [simp]: "caps_le a a"
  by (simp add: caps_le_def)

lemma caps_le_trans: "caps_le a b \<Longrightarrow> caps_le b c \<Longrightarrow> caps_le a c"
  unfolding caps_le_def by (meson order_trans)

lemma caps_le_clamp_iff: "caps_le d (clamp_to_ceiling c) \<longleftrightarrow> caps_le d c \<and> caps_le d ceiling_caps"
  by (auto simp: caps_le_def clamp_to_ceiling_def)

lemma lower_to_le: "lower_to r x \<le> x"
  by (simp add: lower_to_def split: option.splits)

lemma lower_to_le_request: "r = Some v \<Longrightarrow> lower_to r x \<le> v"
  by (simp add: lower_to_def)

lemma clamp_le: "caps_le (clamp_to_ceiling c) c" "caps_le (clamp_to_ceiling c) ceiling_caps"
  using caps_le_clamp_iff [of "clamp_to_ceiling c" c] by simp_all

lemma tighten_le: "caps_le (tighten_with c ov) c" "caps_le (tighten_with c ov) ceiling_caps"
proof -
  let ?c = "c\<lparr> max_total_turns := lower_to (ov_max_total_turns ov) (max_total_turns c),
     max_wall_seconds := lower_to (ov_max_wall_seconds ov) (max_wall_seconds c),
     max_parallel := lower_to (ov_max_parallel ov) (max_parallel c),
     max_concurrent_vms := lower_to (ov_max_concurrent_vms ov) (max_concurrent_vms c),
     max_steps := lower_to (ov_max_steps ov) (max_steps c) \<rparr>"
  have "caps_le ?c c" by (simp add: caps_le_def lower_to_le)
  then show "caps_le (tighten_with c ov) c" "caps_le (tighten_with c ov) ceiling_caps"
    unfolding tighten_with_def using clamp_le [of ?c] caps_le_trans by blast+
qed

lemma tighten_fields [frame_simps]:
  "max_review_cycles (tighten_with c ov) = min (max_review_cycles c) 5"
  "max_replans (tighten_with c ov) = min (max_replans c) 3"
  "max_ticks (tighten_with c ov) = min (max_ticks c) 100000"
  "max_depth (tighten_with c ov) = min (max_depth c) 4"
  by (simp_all add: tighten_with_def clamp_to_ceiling_def ceiling_caps_def)

lemma unat_worst_case_turns:
  assumes "caps_le c ceiling_caps" and "unat steps \<le> 64"
  shows "unat (worst_case_turns c steps) =
    unat steps * ((1 + unat (max_review_cycles c)) * (1 + unat (max_replans c))) + 2"
proof -
  have r: "unat (max_review_cycles c) \<le> 5" and p: "unat (max_replans c) \<le> 3"
    using assms(1) by (auto simp: caps_le_def ceiling_caps_def word_le_nat_alt)
  then have "unat (1 + max_review_cycles c) = 1 + unat (max_review_cycles c)"
    and "unat (1 + max_replans c) = 1 + unat (max_replans c)"
    by (simp_all add: unat_word_ariths)
  moreover have m: "(1 + unat (max_review_cycles c)) * (1 + unat (max_replans c)) \<le> 6 * 4"
    using mult_le_mono [of "1 + unat (max_review_cycles c)" 6 "1 + unat (max_replans c)" 4] r p by simp
  moreover have "unat steps * ((1 + unat (max_review_cycles c)) * (1 + unat (max_replans c))) \<le> 64 * (6 * 4)"
    by (rule mult_le_mono [OF assms(2) m])
  ultimately show ?thesis
    by (simp add: worst_case_turns_def unat_sat_add unat_sat_mul)
qed

section \<open>The run budget\<close>

datatype budget_exhausted = Turns | Ticks

record run_budget =
  turns_left :: u32
  ticks_left :: u64
  budget_caps :: caps

definition new_budget :: "caps \<Rightarrow> run_budget" where
  "new_budget c = (let c = clamp_to_ceiling c in
     \<lparr> turns_left = max_total_turns c, ticks_left = max_ticks c, budget_caps = c \<rparr>)"

definition spend_turn :: "run_budget \<Rightarrow> budget_exhausted + u32 \<times> run_budget" where
  "spend_turn b =
     (if turns_left b = 0 then Inl Turns
      else let n = turns_left b - 1 in Inr (n, b\<lparr>turns_left := n\<rparr>))"

definition tick :: "run_budget \<Rightarrow> budget_exhausted + u64 \<times> run_budget" where
  "tick b =
     (if ticks_left b = 0 then Inl Ticks
      else let n = ticks_left b - 1 in Inr (n, b\<lparr>ticks_left := n\<rparr>))"

definition admits_plan :: "run_budget \<Rightarrow> u32 \<Rightarrow> bool" where
  "admits_plan b steps \<longleftrightarrow> 0 < steps \<and> steps \<le> max_steps (budget_caps b) \<and>
     worst_case_turns (budget_caps b) steps \<le> turns_left b"

text \<open>
  A counter that can only be spent down: the contract the loops rely on. \<open>try_spends\<close>
  asks \<open>n\<close> times, keeping the state where a request is refused, and counts the grants.
\<close>

fun try_spends :: "('s \<Rightarrow> 'e + 'r \<times> 's) \<Rightarrow> nat \<Rightarrow> 's \<Rightarrow> nat \<times> 's" where
  "try_spends spend 0 s = (0, s)"
| "try_spends spend (Suc n) s =
     (case spend s of Inl _ \<Rightarrow> try_spends spend n s
      | Inr (_, s') \<Rightarrow> (case try_spends spend n s' of (k, t) \<Rightarrow> (Suc k, t)))"

locale countdown =
  fixes remaining :: "'s \<Rightarrow> nat"
    and spend :: "'s \<Rightarrow> 'e + 'r \<times> 's"
  assumes grants: "0 < remaining s \<Longrightarrow> \<exists>r s'. spend s = Inr (r, s') \<and> Suc (remaining s') = remaining s"
    and refuses: "remaining s = 0 \<Longrightarrow> \<exists>e. spend s = Inl e"
begin

lemma granted_iff: "(\<exists>r s'. spend s = Inr (r, s')) \<longleftrightarrow> 0 < remaining s"
proof (cases "remaining s = 0")
  case True
  then show ?thesis using refuses [of s] by auto
next
  case False
  then show ?thesis using grants [of s] by auto
qed

lemma spend_decreases: "spend s = Inr (r, s') \<Longrightarrow> remaining s = Suc (remaining s')"
  using grants [of s] refuses [of s] by (cases "remaining s = 0") auto

lemma try_spends_exact:
  "try_spends spend n s = (k, t) \<Longrightarrow> k = min n (remaining s) \<and> remaining t = remaining s - n"
proof (induction n arbitrary: s k t)
  case 0
  then show ?case by simp
next
  case (Suc n)
  show ?case
  proof (cases "remaining s = 0")
    case True
    then obtain e where "spend s = Inl e" using refuses by blast
    with Suc.prems have "try_spends spend n s = (k, t)" by simp
    from Suc.IH [OF this] True show ?thesis by simp
  next
    case False
    then obtain r s' where s': "spend s = Inr (r, s')" "Suc (remaining s') = remaining s"
      using grants by blast
    with Suc.prems obtain k' where k': "try_spends spend n s' = (k', t)" "k = Suc k'"
      by (auto split: prod.splits)
    from Suc.IH [OF k'(1)] s'(2) k'(2) show ?thesis by auto
  qed
qed

end

interpretation turns: countdown "\<lambda>b. unat (turns_left b)" spend_turn
  by unfold_locales (auto simp: spend_turn_def Let_def unat_minus_1 unat_gt_0 unat_eq_zero)

interpretation ticks: countdown "\<lambda>b. unat (ticks_left b)" tick
  by unfold_locales (auto simp: tick_def Let_def unat_minus_1 unat_gt_0 unat_eq_zero)

lemma spend_turn_frame [frame_simps]:
  "spend_turn b = Inr (n, b') \<Longrightarrow> ticks_left b' = ticks_left b \<and> budget_caps b' = budget_caps b"
  by (auto simp: spend_turn_def Let_def split: if_splits)

lemma tick_frame [frame_simps]:
  "tick b = Inr (n, b') \<Longrightarrow> turns_left b' = turns_left b \<and> budget_caps b' = budget_caps b"
  by (auto simp: tick_def Let_def split: if_splits)

lemma new_budget_fields [simp]:
  "turns_left (new_budget c) = max_total_turns (clamp_to_ceiling c)"
  "ticks_left (new_budget c) = max_ticks (clamp_to_ceiling c)"
  "budget_caps (new_budget c) = clamp_to_ceiling c"
  by (simp_all add: new_budget_def Let_def)

text \<open>A program holding a budget can call its two mutators in any order.\<close>

datatype budget_op = Spend | Tick

fun budget_run :: "run_budget \<Rightarrow> budget_op list \<Rightarrow> nat \<times> nat \<times> run_budget" where
  "budget_run b [] = (0, 0, b)"
| "budget_run b (Spend # ops) =
     (case spend_turn b of Inl _ \<Rightarrow> budget_run b ops
      | Inr (_, b') \<Rightarrow> (case budget_run b' ops of (t, k, c) \<Rightarrow> (Suc t, k, c)))"
| "budget_run b (Tick # ops) =
     (case tick b of Inl _ \<Rightarrow> budget_run b ops
      | Inr (_, b') \<Rightarrow> (case budget_run b' ops of (t, k, c) \<Rightarrow> (t, Suc k, c)))"

lemma budget_run_exact:
  "budget_run b ops = (t, k, b') \<Longrightarrow>
     t = min (count_list ops Spend) (unat (turns_left b)) \<and>
     k = min (count_list ops Tick) (unat (ticks_left b)) \<and>
     unat (turns_left b') = unat (turns_left b) - t \<and>
     unat (ticks_left b') = unat (ticks_left b) - k \<and> budget_caps b' = budget_caps b"
proof (induction b ops arbitrary: t k b' rule: budget_run.induct)
  case (1 b)
  then show ?case by simp
next
  case (2 b ops)
  show ?case
  proof (cases "spend_turn b")
    case (Inl e)
    then have "unat (turns_left b) = 0" using turns.granted_iff [of b] by auto
    with 2 Inl show ?thesis by auto
  next
    case (Inr p)
    then obtain n c where p: "spend_turn b = Inr (n, c)" by (cases p) auto
    obtain t' k' where r: "budget_run c ops = (t', k', b')" and t: "t = Suc t'" "k = k'"
      using "2.prems" p by (auto split: prod.splits)
    from "2.IH"(2) [OF p refl r] show ?thesis
      using turns.spend_decreases [OF p] spend_turn_frame [OF p] t by auto
  qed
next
  case (3 b ops)
  show ?case
  proof (cases "tick b")
    case (Inl e)
    then have "unat (ticks_left b) = 0" using ticks.granted_iff [of b] by auto
    with 3 Inl show ?thesis by auto
  next
    case (Inr p)
    then obtain n c where p: "tick b = Inr (n, c)" by (cases p) auto
    obtain t' k' where r: "budget_run c ops = (t', k', b')" and t: "t = t'" "k = Suc k'"
      using "3.prems" p by (auto split: prod.splits)
    from "3.IH"(2) [OF p refl r] show ?thesis
      using ticks.spend_decreases [OF p] tick_frame [OF p] t by auto
  qed
qed

section \<open>Slots\<close>

record slot_counter =
  held :: u32
  slot_limit :: u32

definition new_slots :: "u32 \<Rightarrow> slot_counter" where
  "new_slots l = \<lparr> held = 0, slot_limit = l \<rparr>"

definition try_acquire :: "slot_counter \<Rightarrow> bool \<times> slot_counter" where
  "try_acquire s =
     (if slot_limit s \<le> held s then (False, s) else (True, s\<lparr>held := held s + 1\<rparr>))"

definition release :: "slot_counter \<Rightarrow> slot_counter" where
  "release s = s\<lparr>held := sat_sub (held s) 1\<rparr>"

definition available :: "slot_counter \<Rightarrow> u32" where
  "available s = sat_sub (slot_limit s) (held s)"

datatype slot_op = Acquire | Release

fun slot_step :: "slot_op \<Rightarrow> slot_counter \<Rightarrow> slot_counter" where
  "slot_step Acquire s = snd (try_acquire s)"
| "slot_step Release s = release s"

definition slots_ok :: "slot_counter \<Rightarrow> bool" where
  "slots_ok s \<longleftrightarrow> held s \<le> slot_limit s"

lemma try_acquire_held:
  "fst (try_acquire s) \<Longrightarrow> unat (held (snd (try_acquire s))) = unat (held s) + 1"
  using unat_plus_1 [of "held s" "slot_limit s"]
  by (auto simp: try_acquire_def not_le split: if_splits)

lemma slots_ok_try_acquire: "slots_ok s \<Longrightarrow> slots_ok (snd (try_acquire s))"
proof (cases "slot_limit s \<le> held s")
  case False
  then have "unat (held s + 1) = unat (held s) + 1" by (intro unat_plus_1) (simp add: not_le)
  with False show ?thesis
    by (simp add: slots_ok_def try_acquire_def word_le_nat_alt)
qed (simp add: try_acquire_def)

lemma slots_ok_release: "slots_ok s \<Longrightarrow> slots_ok (release s)"
  by (simp add: slots_ok_def release_def word_le_nat_alt unat_sat_sub)

lemma slot_step_ok: "slots_ok s \<Longrightarrow> slots_ok (slot_step op s)"
  by (cases op) (simp_all add: slots_ok_try_acquire slots_ok_release)

lemma slot_step_limit [frame_simps]: "slot_limit (slot_step op s) = slot_limit s"
  by (cases op) (auto simp: try_acquire_def release_def)

section \<open>Properties\<close>

text \<open>What a caller asks of a tightened caps value, field by field.\<close>

definition honours :: "caps_override \<Rightarrow> caps \<Rightarrow> bool" where
  "honours ov d \<longleftrightarrow>
     (\<forall>v. ov_max_total_turns ov = Some v \<longrightarrow> max_total_turns d \<le> v) \<and>
     (\<forall>v. ov_max_wall_seconds ov = Some v \<longrightarrow> max_wall_seconds d \<le> v) \<and>
     (\<forall>v. ov_max_parallel ov = Some v \<longrightarrow> max_parallel d \<le> v) \<and>
     (\<forall>v. ov_max_concurrent_vms ov = Some v \<longrightarrow> max_concurrent_vms d \<le> v) \<and>
     (\<forall>v. ov_max_steps ov = Some v \<longrightarrow> max_steps d \<le> v)"

lemma le_lower_to_iff: "x \<le> lower_to r y \<longleftrightarrow> x \<le> y \<and> (\<forall>v. r = Some v \<longrightarrow> x \<le> v)"
  by (auto simp: lower_to_def split: option.splits)

text \<open>
  C12. Overrides only tighten: the result of \<open>tighten_with\<close> is the greatest caps value that
  is below the current caps, below the compiled ceilings and within every request. So no
  request can raise any limit, every lower request is honoured, and no field is lowered
  further than asked.
\<close>

theorem tighten_greatest:
  "caps_le d (tighten_with c ov) \<longleftrightarrow> caps_le d c \<and> caps_le d ceiling_caps \<and> honours ov d"
  unfolding tighten_with_def caps_le_clamp_iff
  by (auto simp: caps_le_def honours_def le_lower_to_iff)

text \<open>
  C9. The turn and tick budget is exact and final: however a holder interleaves its calls,
  the turns granted in total are the number asked for, up to the clamped
  \<open>max_total_turns\<close>, and never more than the compiled 200 (ticks: 100000); the
  remaining counts are what is left and the caps never change.
\<close>

theorem budget_spent_exactly:
  assumes "budget_run (new_budget c) ops = (t, k, b')"
  shows "t = min (count_list ops Spend) (min (unat (max_total_turns c)) 200) \<and>
    k = min (count_list ops Tick) (min (unat (max_ticks c)) 100000) \<and>
    unat (turns_left b') = min (unat (max_total_turns c)) 200 - t \<and>
    unat (ticks_left b') = min (unat (max_ticks c)) 100000 - k \<and>
    budget_caps b' = clamp_to_ceiling c"
proof -
  have "unat (max_total_turns (clamp_to_ceiling c)) = min (unat (max_total_turns c)) 200"
    and "unat (max_ticks (clamp_to_ceiling c)) = min (unat (max_ticks c)) 100000"
    by (simp_all add: clamp_to_ceiling_def ceiling_caps_def unat_min)
  with budget_run_exact [OF assms] show ?thesis by simp
qed

theorem budget_spent_exactly_witness:
  "fst (budget_run (new_budget (default_caps\<lparr>max_total_turns := 1\<rparr>)) [Spend, Tick, Spend]) = 1"
proof -
  obtain t k b' where r: "budget_run (new_budget (default_caps\<lparr>max_total_turns := 1\<rparr>)) [Spend, Tick, Spend] = (t, k, b')"
    by (metis prod_cases3)
  from budget_spent_exactly [OF r] have "t = 1" by simp
  then show ?thesis unfolding r by simp
qed

text \<open>
  C14. Admission computes in unbounded arithmetic: for a budget made by \<open>new_budget\<close>, a plan
  is admitted exactly when its size is between one and the step cap and
  \<open>steps * (1 + max_review_cycles) * (1 + max_replans) + 2\<close> fits the turns; no 32-bit
  operation of the check wraps or saturates there.
\<close>

theorem admission_exact:
  "admits_plan (new_budget c) n \<longleftrightarrow>
     0 < unat n \<and> unat n \<le> min (unat (max_steps c)) 64 \<and>
     unat n * ((1 + min (unat (max_review_cycles c)) 5) * (1 + min (unat (max_replans c)) 3)) + 2
       \<le> min (unat (max_total_turns c)) 200"
proof (cases "unat n \<le> 64")
  case True
  have f: "unat (max_steps (clamp_to_ceiling c)) = min (unat (max_steps c)) 64"
    "unat (max_review_cycles (clamp_to_ceiling c)) = min (unat (max_review_cycles c)) 5"
    "unat (max_replans (clamp_to_ceiling c)) = min (unat (max_replans c)) 3"
    "unat (max_total_turns (clamp_to_ceiling c)) = min (unat (max_total_turns c)) 200"
    by (simp_all add: clamp_to_ceiling_def ceiling_caps_def unat_min)
  have "0 < n \<longleftrightarrow> 0 < unat n" by (simp add: word_less_nat_alt)
  with True show ?thesis
    unfolding admits_plan_def new_budget_fields word_le_nat_alt unat_worst_case_turns [OF clamp_le(2) True] f
    by (simp only: min.bounded_iff simp_thms)
next
  case False
  then have "\<not> n \<le> max_steps (clamp_to_ceiling c)"
    by (simp add: word_le_nat_alt clamp_to_ceiling_def ceiling_caps_def unat_min)
  with False show ?thesis by (simp add: admits_plan_def)
qed

text \<open>
  The defaults fit together: they are within the ceilings, and the default turn budget
  admits a plan of every legal size, so the step cap and the turn cap never contradict.
\<close>

theorem default_admits_full_plan:
  "clamp_to_ceiling default_caps = default_caps \<and>
   (admits_plan (new_budget default_caps) n \<longleftrightarrow> 1 \<le> n \<and> n \<le> max_steps default_caps)"
proof -
  have "admits_plan (new_budget default_caps) n \<longleftrightarrow> 0 < unat n \<and> unat n \<le> 6"
  proof (cases "unat n \<le> 64")
    case True
    have c: "clamp_to_ceiling default_caps = default_caps" and l: "caps_le default_caps ceiling_caps"
      by (simp_all add: clamp_to_ceiling_def ceiling_caps_def default_caps_def caps_le_def)
    show ?thesis
      unfolding admits_plan_def new_budget_fields c word_le_nat_alt unat_worst_case_turns [OF l True]
      by (auto simp: default_caps_def word_less_nat_alt)
  next
    case False
    then show ?thesis
      by (auto simp: admits_plan_def word_le_nat_alt clamp_to_ceiling_def ceiling_caps_def default_caps_def)
  qed
  then show ?thesis
    by (auto simp: clamp_to_ceiling_def ceiling_caps_def default_caps_def word_le_nat_alt)
qed

text \<open>The counter in unbounded arithmetic.\<close>

fun slots_held :: "nat \<Rightarrow> slot_op list \<Rightarrow> nat \<Rightarrow> nat" where
  "slots_held l [] n = n"
| "slots_held l (Acquire # ops) n = slots_held l ops (if n < l then Suc n else n)"
| "slots_held l (Release # ops) n = slots_held l ops (n - 1)"

lemma slot_step_unat:
  "unat (held (slot_step op s)) =
     (case op of Acquire \<Rightarrow> if unat (held s) < unat (slot_limit s) then Suc (unat (held s)) else unat (held s)
      | Release \<Rightarrow> unat (held s) - 1)"
  using unat_plus_1 [of "held s" "slot_limit s"]
  by (cases op) (auto simp: try_acquire_def release_def unat_sat_sub word_le_nat_alt word_less_nat_alt)

text \<open>
  C18. The slot counter is the bounded counter it promises, for any sequence of acquires and
  releases (unmatched ones included): it never exceeds its limit, an extra release stays at
  zero, and \<open>available\<close> is exactly what is left.
\<close>

theorem slots_exact:
  "let s = fold slot_step ops (new_slots l)
   in unat (held s) = slots_held (unat l) ops 0 \<and> unat (held s) \<le> unat l \<and>
      unat (available s) = unat l - unat (held s)"
proof -
  have "unat (held (fold slot_step ops s)) = slots_held (unat (slot_limit s)) ops (unat (held s)) \<and>
      slot_limit (fold slot_step ops s) = slot_limit s \<and> slots_ok (fold slot_step ops s)" if "slots_ok s" for s
    using that
  proof (induction ops arbitrary: s)
    case (Cons op ops)
    from Cons.IH [OF slot_step_ok [OF Cons.prems], of op] show ?case
      by (cases op) (simp_all add: slot_step_limit slot_step_unat del: slot_step.simps)
  qed simp
  from this [of "new_slots l"] show ?thesis
    by (simp add: new_slots_def slots_ok_def Let_def available_def unat_sat_sub word_le_nat_alt) auto
qed

end
