(* ===== verification/Placement.thy ===== *)
theory Placement
  imports Roles Run_Budget "HOL-Library.Product_Lexorder"
begin

text \<open>
  \<open>crates/maturana-ops/src/placement.rs\<close> and
  \<open>crates/maturana-core/src/orchestrator_spawn.rs\<close>: where a role's work runs, the pool of
  workers of one run, and the network address of a spawned VM. Launching and stopping a
  Firecracker VM is host I/O: its outcome is an argument. The agents on disk are a list of
  entries; reading a spec from its Markdown is the parser's, its result a field.
\<close>

section \<open>Network addresses\<close>

record firecracker_net =
  tap_name :: str
  host_ip :: str
  guest_ip :: str
  guest_mac :: str
  cidr :: str

definition hex_digit :: "nat \<Rightarrow> char" where
  "hex_digit n = (if n < 10 then char_of (48 + n) else char_of (55 + n))"

definition hex2 :: "nat \<Rightarrow> str" where
  "hex2 n = [hex_digit (n div 16), hex_digit (n mod 16)]"

definition default_subnet :: str where
  "default_subnet = ''172.30.10''"

definition net_of_host :: "str \<Rightarrow> nat \<Rightarrow> firecracker_net" where
  "net_of_host subnet host = \<lparr> tap_name = ''tap-mat-orch-'' @ show_nat host,
     host_ip = subnet @ ''.'' @ show_nat host, guest_ip = subnet @ ''.'' @ show_nat (host + 1),
     guest_mac = ''06:00:AC:1E:0A:'' @ hex2 (host + 1), cidr = subnet @ ''.'' @ show_nat (host - 1) @ ''/30'' \<rparr>"

definition host_octets :: "nat list" where
  "host_octets = map (\<lambda>k. 1 + k * 4) [0..<62]"

definition allocate_net :: "str \<Rightarrow> nat set \<Rightarrow> firecracker_net option" where
  "allocate_net subnet used =
     map_option (net_of_host subnet) (List.find (\<lambda>h. h + 1 < 255 \<and> h \<notin> used) host_octets)"

definition host_octet_in_subnet :: "str \<Rightarrow> str \<Rightarrow> nat option" where
  "host_octet_in_subnet ip subnet =
     Option.bind (strip_prefix subnet ip) (\<lambda>rest.
     Option.bind (strip_prefix ''.'' rest) (parse_nat_below 256))"

text \<open>A directory under \<open>agents/\<close>: its spec, when it is there and readable.\<close>

datatype harness = Codex | ClaudeCode | Opencode

record agent_spec =
  sp_harness :: harness
  sp_host_ip :: "str option" \<comment> \<open>of a Firecracker VM\<close>

record agent_dir =
  a_id :: str
  a_is_dir :: bool
  a_has_spec :: bool
  a_spec :: "agent_spec option" \<comment> \<open>\<open>None\<close>: the spec does not parse\<close>

definition used_host_octets :: "agent_dir list \<Rightarrow> str \<Rightarrow> nat set" where
  "used_host_octets dirs subnet = set (List.map_filter (\<lambda>d.
     if a_has_spec d then
       Option.bind (a_spec d) (\<lambda>s. Option.bind (sp_host_ip s) (\<lambda>ip. host_octet_in_subnet ip subnet))
     else None) dirs)"

section \<open>The worker pool\<close>

record worker =
  w_agent :: str
  w_model :: "str option"

record spawned_vm =
  v_agent :: str
  v_tap :: str

record worker_pool =
  wp_registry :: registry
  wp_run_id :: str
  wp_base_spec :: str
  wp_cache :: "str \<rightharpoonup> worker"
  wp_spawned :: "spawned_vm list"
  wp_slots :: slot_counter
  wp_spawn_elapsed :: int

definition new_pool :: "registry \<Rightarrow> str \<Rightarrow> str \<Rightarrow> u32 \<Rightarrow> worker_pool" where
  "new_pool reg run base max_vms = \<lparr> wp_registry = reg, wp_run_id = run, wp_base_spec = base,
     wp_cache = Map.empty, wp_spawned = [], wp_slots = new_slots max_vms, wp_spawn_elapsed = 0 \<rparr>"

datatype resolve_error = UnknownRoleName str | VmCap | NoAddress | SpawnFailed str

text \<open>\<open>launch\<close>: what the VM launch answered (an error, or how long it took).\<close>

definition resolve :: "agent_dir list \<Rightarrow> str + int \<Rightarrow> str \<Rightarrow> worker_pool \<Rightarrow> (resolve_error + worker) \<times> worker_pool" where
  "resolve dirs launch name wp =
     (case wp_cache wp name of
        Some w \<Rightarrow> (Inr w, wp)
      | None \<Rightarrow>
          (case get_role (wp_registry wp) name of
             None \<Rightarrow> (Inl (UnknownRoleName name), wp)
           | Some r \<Rightarrow>
               (case r_placement r of
                  ReuseAgent a \<Rightarrow>
                    (let w = \<lparr> w_agent = a, w_model = r_model r \<rparr>
                     in (Inr w, wp\<lparr>wp_cache := (wp_cache wp)(name \<mapsto> w)\<rparr>))
                | SpawnFrom _ \<Rightarrow>
                    (case try_acquire (wp_slots wp) of
                       (False, _) \<Rightarrow> (Inl VmCap, wp)
                     | (True, slots) \<Rightarrow>
                         (let wp1 = wp\<lparr>wp_slots := slots\<rparr>
                          in case allocate_net default_subnet (used_host_octets dirs default_subnet) of
                               None \<Rightarrow> (Inl NoAddress, wp1)
                             | Some net \<Rightarrow>
                                 (let new_id = ''orch-'' @ wp_run_id wp @ ''-'' @ name
                                  in case launch of
                                       Inl e \<Rightarrow> (Inl (SpawnFailed e), wp1)
                                     | Inr t \<Rightarrow>
                                         (let w = \<lparr> w_agent = new_id, w_model = r_model r \<rparr>
                                          in (Inr w, wp1\<lparr> wp_spawn_elapsed := wp_spawn_elapsed wp1 + t,
                                                wp_spawned := wp_spawned wp1 @ [\<lparr> v_agent = new_id, v_tap = tap_name net \<rparr>],
                                                wp_cache := (wp_cache wp1)(name \<mapsto> w) \<rparr>))))))))"

definition resolve_assignee ::
  "agent_dir list \<Rightarrow> str + int \<Rightarrow> str option \<Rightarrow> worker_pool \<Rightarrow> (resolve_error + worker) \<times> worker_pool" where
  "resolve_assignee dirs launch a wp =
     (case a of
        Some n \<Rightarrow> if get_role (wp_registry wp) n \<noteq> None then resolve dirs launch n wp
                  else (Inr \<lparr> w_agent = n, w_model = None \<rparr>, wp)
      | None \<Rightarrow> resolve dirs launch ''developer'' wp)"

text \<open>The VMs to stop (best effort) and the pool afterwards.\<close>

definition teardown :: "worker_pool \<Rightarrow> spawned_vm list \<times> worker_pool" where
  "teardown wp = (wp_spawned wp, wp\<lparr>wp_spawned := []\<rparr>)"

section \<open>Choosing a placement\<close>

definition harness_rank :: "harness option \<Rightarrow> nat" where
  "harness_rank h = (case h of Some Codex \<Rightarrow> 0 | Some ClaudeCode \<Rightarrow> 1 | Some Opencode \<Rightarrow> 2 | None \<Rightarrow> 3)"

definition discover_reusable_agents :: "agent_dir list \<Rightarrow> str list" where
  "discover_reusable_agents dirs = map snd (sort_key id
     (map (\<lambda>d. (harness_rank (map_option sp_harness (a_spec d)), a_id d))
       (filter (\<lambda>d. a_is_dir d \<and> \<not> prefix ''orch-'' (a_id d) \<and> a_has_spec d) dirs)))"

record placement_choice =
  pc_roles_file :: "(str \<times> role_patch) list option option" \<comment> \<open>the named file, when it exists\<close>
  pc_agents :: "str option"
  pc_base_spec :: "str option"

record placement_resolution =
  pr_registry :: registry
  pr_base_spec :: str
  pr_status_line :: "str option"

datatype placement_error = RolesFile str | NoAgents

definition resolve_role_registry ::
  "agent_dir list \<Rightarrow> placement_choice \<Rightarrow> placement_error + placement_resolution" where
  "resolve_role_registry dirs ch =
     (case pc_roles_file ch of
        Some file \<Rightarrow>
          (let base = or_keep (pc_base_spec ch) ''worker-base''
           in case load_or_default file base of
                Inl e \<Rightarrow> Inl (RolesFile e)
              | Inr reg \<Rightarrow> Inr \<lparr> pr_registry = reg, pr_base_spec = base, pr_status_line = None \<rparr>)
      | None \<Rightarrow>
          (case pc_base_spec ch of
             Some spec \<Rightarrow> Inr \<lparr> pr_registry = default_roles spec, pr_base_spec = spec,
               pr_status_line = Some (''placement: spawning dedicated VMs (cloning '' @ spec @ '')'') \<rparr>
           | None \<Rightarrow>
               (let agents = (case pc_agents ch of
                      Some csv \<Rightarrow> filter (\<lambda>s. s \<noteq> []) (map trim (split_on CHR '','' csv))
                    | None \<Rightarrow> discover_reusable_agents dirs)
                in case reuse_across agents of
                     None \<Rightarrow> Inl NoAgents
                   | Some reg \<Rightarrow> Inr \<lparr> pr_registry = reg, pr_base_spec = [],
                       pr_status_line = Some (''placement: reusing agents '' @ join '', '' agents) \<rparr>)))"

section \<open>Lemmas\<close>

lemma host_octets_iff: "h \<in> set host_octets \<longleftrightarrow> h mod 4 = 1 \<and> h \<le> 245"
proof
  assume r: "h mod 4 = 1 \<and> h \<le> 245"
  then have "h = 1 + (h div 4) * 4" "h div 4 < 62" by presburger+
  then show "h \<in> set host_octets" unfolding host_octets_def set_map by (intro image_eqI) auto
next
  have "(1 + k * 4) mod 4 = 1" for k :: nat by presburger
  then show "h \<in> set host_octets \<Longrightarrow> h mod 4 = 1 \<and> h \<le> 245" by (auto simp: host_octets_def)
qed

lemma hex_digit_inj: "m < 16 \<Longrightarrow> n < 16 \<Longrightarrow> hex_digit m = hex_digit n \<Longrightarrow> m = n"
proof -
  assume "m < 16" "n < 16" and e: "hex_digit m = hex_digit n"
  have v: "of_char (hex_digit k) = (if k < 10 then 48 + k else 55 + k)" if "k < 16" for k :: nat
    using that by (simp add: hex_digit_def)
  have "(of_char (hex_digit m) :: nat) = of_char (hex_digit n)" using e by simp
  then show ?thesis using v [of m] v [of n] \<open>m < 16\<close> \<open>n < 16\<close> by (auto split: if_splits)
qed

lemma hex2_inj: "m < 256 \<Longrightarrow> n < 256 \<Longrightarrow> hex2 m = hex2 n \<Longrightarrow> m = n"
proof -
  assume b: "m < 256" "n < 256" and "hex2 m = hex2 n"
  then have "hex_digit (m div 16) = hex_digit (n div 16)" "hex_digit (m mod 16) = hex_digit (n mod 16)"
    by (simp_all add: hex2_def)
  then have "m div 16 = n div 16" "m mod 16 = n mod 16" using b by (auto intro!: hex_digit_inj)
  then show "m = n" by (metis div_mult_mod_eq)
qed

text \<open>What a pool keeps: no more VMs than slots held, no more slots than the cap.\<close>

definition pool_ok :: "worker_pool \<Rightarrow> bool" where
  "pool_ok wp \<longleftrightarrow> slots_ok (wp_slots wp) \<and> length (wp_spawned wp) \<le> unat (held (wp_slots wp))"

lemma new_pool_ok: "pool_ok (new_pool reg run base n)"
  by (simp add: pool_ok_def new_pool_def new_slots_def slots_ok_def)

lemma resolve_pool:
  "resolve dirs launch n wp = (res, wp') \<Longrightarrow> pool_ok wp \<Longrightarrow>
     pool_ok wp' \<and> slot_limit (wp_slots wp') = slot_limit (wp_slots wp) \<and> wp_registry wp' = wp_registry wp \<and>
     (\<forall>m w. wp_cache wp m = Some w \<longrightarrow> wp_cache wp' m = Some w) \<and>
     (case res of Inl _ \<Rightarrow> wp_cache wp' = wp_cache wp \<and> wp_spawned wp' = wp_spawned wp | Inr w \<Rightarrow> wp_cache wp' n = Some w)"
proof -
  assume r: "resolve dirs launch n wp = (res, wp')" and ok: "pool_ok wp"
  have lim: "slot_limit (snd (try_acquire s)) = slot_limit s" for s
    by (simp add: try_acquire_def)
  have keep: "pool_ok (wp\<lparr>wp_slots := slots\<rparr>) \<and> Suc (length (wp_spawned wp)) \<le> unat (held slots) \<and>
      slots_ok slots \<and> slot_limit slots = slot_limit (wp_slots wp)"
    if "try_acquire (wp_slots wp) = (True, slots)" for slots
    using that ok try_acquire_held [of "wp_slots wp"] slots_ok_try_acquire [of "wp_slots wp"] lim [of "wp_slots wp"]
    by (simp add: pool_ok_def)
  show ?thesis
  proof (cases "wp_cache wp n")
    case (Some w)
    with r ok show ?thesis by (auto simp: resolve_def)
  next
    case None
    show ?thesis
    proof (cases "get_role (wp_registry wp) n")
      case None
      with r ok \<open>wp_cache wp n = None\<close> show ?thesis by (auto simp: resolve_def)
    next
      case (Some ro)
      note n = \<open>wp_cache wp n = None\<close> Some
      show ?thesis
      proof (cases "r_placement ro")
        case (ReuseAgent a)
        with r ok n show ?thesis by (auto simp: resolve_def Let_def pool_ok_def)
      next
        case (SpawnFrom b)
        obtain free slots where t: "try_acquire (wp_slots wp) = (free, slots)" by fastforce
        show ?thesis
        proof (cases free)
          case False
          with r ok n SpawnFrom t show ?thesis by (auto simp: resolve_def)
        next
          case True
          have "try_acquire (wp_slots wp) = (True, slots)" using t True by simp
          note k = keep [OF this]
          show ?thesis
          proof (cases "allocate_net default_subnet (used_host_octets dirs default_subnet)")
            case None
            with r n SpawnFrom t True k show ?thesis by (auto simp: resolve_def Let_def)
          next
            case (Some net)
            with r n SpawnFrom t True k show ?thesis
              by (cases launch) (auto simp: resolve_def Let_def pool_ok_def)
          qed
        qed
      qed
    qed
  qed
qed

fun resolve_all :: "(agent_dir list \<times> (str + int) \<times> str) list \<Rightarrow> worker_pool \<Rightarrow> worker_pool" where
  "resolve_all [] wp = wp"
| "resolve_all ((dirs, launch, n) # rs) wp = resolve_all rs (snd (resolve dirs launch n wp))"

lemma resolve_all_ok:
  "pool_ok wp \<Longrightarrow> pool_ok (resolve_all rs wp) \<and> slot_limit (wp_slots (resolve_all rs wp)) = slot_limit (wp_slots wp) \<and>
     (\<forall>m w. wp_cache wp m = Some w \<longrightarrow> wp_cache (resolve_all rs wp) m = Some w)"
proof (induction rs arbitrary: wp)
  case (Cons r rs)
  obtain dirs launch n where r: "r = (dirs, launch, n)" by (cases r)
  let ?w = "snd (resolve dirs launch n wp)"
  have "pool_ok ?w \<and> slot_limit (wp_slots ?w) = slot_limit (wp_slots wp) \<and>
      (\<forall>m w. wp_cache wp m = Some w \<longrightarrow> wp_cache ?w m = Some w)"
    using resolve_pool [OF _ Cons.prems, of dirs launch n "fst (resolve dirs launch n wp)" ?w] by simp
  with Cons.IH [of ?w] show ?case by (auto simp: r)
qed simp

section \<open>Properties\<close>

text \<open>
  A spawned worker never collides with a VM that is there: the address chosen is the
  lowest free host octet of the /30 layout (1, 5, \<dots>, 245), it is not used by any spec on
  disk, two different host octets give different tap, host and guest addresses, MACs and
  subnets, and an address is found whenever one of the 62 is free.
\<close>

theorem allocate_net_exact:
  "(case allocate_net subnet used of
      None \<Rightarrow> set host_octets \<subseteq> used
    | Some net \<Rightarrow> (\<exists>h. net = net_of_host subnet h \<and> h \<in> set host_octets \<and> h \<notin> used \<and> h + 1 < 255 \<and>
        \<not> (\<exists>j\<in>set host_octets. j < h \<and> j \<notin> used))) \<and>
   \<not> (\<exists>g\<in>set host_octets. \<exists>h\<in>set host_octets. g \<noteq> h \<and>
        (tap_name (net_of_host subnet g) = tap_name (net_of_host subnet h) \<or>
         host_ip (net_of_host subnet g) = host_ip (net_of_host subnet h) \<or>
         guest_ip (net_of_host subnet g) = guest_ip (net_of_host subnet h) \<or>
         guest_mac (net_of_host subnet g) = guest_mac (net_of_host subnet h) \<or>
         cidr (net_of_host subnet g) = cidr (net_of_host subnet h)))"
proof
  let ?P = "\<lambda>h. h + 1 < 255 \<and> h \<notin> used"
  have small: "h + 1 < 255" if "h \<in> set host_octets" for h using that by (simp add: host_octets_iff)
  have sorted: "sorted_wrt (<) host_octets"
    by (simp add: host_octets_def sorted_wrt_map sorted_wrt_upt)
  have first: "\<not> (\<exists>j\<in>set xs. j < h \<and> P j)" if "List.find P xs = Some h" "sorted_wrt (<) xs"
    for P and xs :: "nat list" and h
    using that by (induction xs) (auto split: if_splits)
  show "case allocate_net subnet used of
      None \<Rightarrow> set host_octets \<subseteq> used
    | Some net \<Rightarrow> (\<exists>h. net = net_of_host subnet h \<and> h \<in> set host_octets \<and> h \<notin> used \<and> h + 1 < 255 \<and>
        \<not> (\<exists>j\<in>set host_octets. j < h \<and> j \<notin> used))"
  proof (cases "List.find ?P host_octets")
    case None
    then have "set host_octets \<subseteq> used" using small by (auto simp: find_None_iff_all)
    moreover have "allocate_net subnet used = None" unfolding allocate_net_def None by simp
    ultimately show ?thesis by simp
  next
    case (Some h)
    have "allocate_net subnet used = Some (net_of_host subnet h)" unfolding allocate_net_def Some by simp
    with find_Some_prop [OF Some] first [OF Some sorted] small show ?thesis by auto
  qed
  have inj: "show_nat g \<noteq> show_nat h" if "g \<noteq> h" for g h using show_nat_inj that by blast
  have hx: "hex2 (g + 1) \<noteq> hex2 (h + 1)" if "g \<noteq> h" "g \<in> set host_octets" "h \<in> set host_octets" for g h
    using hex2_inj [of "g + 1" "h + 1"] small that by fastforce
  have pr: "g - 1 \<noteq> h - 1" if "g \<noteq> h" "g \<in> set host_octets" "h \<in> set host_octets" for g h
    using that by (auto simp: host_octets_iff)
  show "\<not> (\<exists>g\<in>set host_octets. \<exists>h\<in>set host_octets. g \<noteq> h \<and>
        (tap_name (net_of_host subnet g) = tap_name (net_of_host subnet h) \<or>
         host_ip (net_of_host subnet g) = host_ip (net_of_host subnet h) \<or>
         guest_ip (net_of_host subnet g) = guest_ip (net_of_host subnet h) \<or>
         guest_mac (net_of_host subnet g) = guest_mac (net_of_host subnet h) \<or>
         cidr (net_of_host subnet g) = cidr (net_of_host subnet h)))"
    using inj hx pr by (auto simp: net_of_host_def)
qed

text \<open>
  C31. The VM cap holds: whatever roles a run resolves, in whatever order and with whatever
  launch failures, at most \<open>max_vms\<close> VMs are spawned; and a role keeps its worker: once
  resolved, every later resolution gives the same worker, changes nothing and spawns
  nothing.
\<close>

theorem pool_bounded_and_stable:
  "length (wp_spawned (resolve_all rs (new_pool reg run base max_vms))) \<le> unat max_vms \<and>
   (resolve dirs launch n (resolve_all rs (new_pool reg run base max_vms)) = (Inr w, wp) \<longrightarrow>
     resolve dirs' launch' n (resolve_all rs' wp) = (Inr w, resolve_all rs' wp))"
proof -
  let ?wp = "resolve_all rs (new_pool reg run base max_vms)"
  have ok: "pool_ok ?wp" and lim: "slot_limit (wp_slots ?wp) = max_vms"
    using resolve_all_ok [OF new_pool_ok, of rs reg run base max_vms] by (simp_all add: new_pool_def new_slots_def)
  then have "length (wp_spawned ?wp) \<le> unat max_vms"
    by (auto simp: pool_ok_def slots_ok_def word_le_nat_alt)
  moreover have "resolve dirs' launch' n (resolve_all rs' wp) = (Inr w, resolve_all rs' wp)"
    if r: "resolve dirs launch n ?wp = (Inr w, wp)"
  proof -
    have "pool_ok wp" "wp_cache wp n = Some w" using resolve_pool [OF r ok] by simp_all
    then have "wp_cache (resolve_all rs' wp) n = Some w" using resolve_all_ok by blast
    then show ?thesis by (simp add: resolve_def)
  qed
  ultimately show ?thesis by blast
qed

theorem pool_bounded_and_stable_witness:
  "length (wp_spawned (resolve_all [([], Inr 5, ''developer'')] (new_pool (default_roles ''b'') ''r'' ''b'' 1))) \<le> 1"
  using pool_bounded_and_stable [of "[([], Inr 5, ''developer'')]" "default_roles ''b''" "''r''" "''b''" 1] by simp

text \<open>
  C32. A failed launch costs its slot for good: after \<open>max_vms\<close> launches that fail, no VM
  runs and yet every further role is refused with the cap error, because nothing releases
  the slot the failed attempt took.
\<close>

theorem failed_launch_leaks_slot:
  "let wp = resolve_all [([], Inl ''boot'', ''developer'')] (new_pool (default_roles ''b'') ''r'' ''b'' 1)
   in wp_spawned wp = [] \<and> fst (resolve [] (Inr 5) ''researcher'' wp) = Inl VmCap"
proof -
  have g: "\<exists>r. get_role (default_roles ''b'') n = Some r \<and> r_placement r = SpawnFrom ''b''"
    if "n \<in> {''developer'', ''researcher''}" for n
    using that unfolding default_roles_def get_from_core by (auto simp: core_role_defs_def)
  obtain a where a: "get_role (default_roles ''b'') ''developer'' = Some a" "r_placement a = SpawnFrom ''b''"
    using g by blast
  obtain c where c: "get_role (default_roles ''b'') ''researcher'' = Some c" "r_placement c = SpawnFrom ''b''"
    using g by blast
  have u: "used_host_octets [] default_subnet = {}" by (simp add: used_host_octets_def map_filter_simps)
  have f: "List.find (\<lambda>h. h + 1 < 255 \<and> h \<notin> {}) host_octets = Some 1"
    by (simp add: host_octets_def upt_rec)
  have "resolve [] (Inl ''boot'') ''developer'' (new_pool (default_roles ''b'') ''r'' ''b'' 1) =
     (Inl (SpawnFailed ''boot''), (new_pool (default_roles ''b'') ''r'' ''b'' 1)\<lparr>wp_slots := \<lparr> held = 1, slot_limit = 1 \<rparr>\<rparr>)"
    by (simp add: resolve_def new_pool_def a try_acquire_def new_slots_def u allocate_net_def f [simplified] Let_def)
  then show ?thesis
    by (simp add: resolve_def [of "[]" "Inr 5"] new_pool_def c try_acquire_def Let_def)
qed

end
