(* ===== verification/Planner.thy ===== *)
theory Planner
  imports Roles Dep_Graph Run_Budget
begin

text \<open>
  \<open>crates/maturana-ops/src/planner.rs\<close>: plans, their validation with the iterative
  depth-first search, reading a plan out of a model reply, the prompts and the review
  verdict. JSON decoding is serde's: \<open>parse_plan\<close> takes the decoder as an argument.
\<close>

section \<open>Plans\<close>

datatype step_status = Waiting | Running | StepDone | StepFailed

record step =
  s_id :: str
  s_role :: str
  s_task :: str
  s_deps :: "str list"
  s_review :: bool
  s_status :: step_status
  s_result :: "str option"
  s_attempts :: u32
  s_review_cycles :: u32

record plan =
  goal :: str
  steps :: "step list"

record step_spec =
  sp_id :: str
  sp_role :: str
  sp_task :: str
  sp_deps :: "str list"
  sp_review :: bool

definition plan_from_spec :: "str \<Rightarrow> step_spec list \<Rightarrow> plan" where
  "plan_from_spec g spec = \<lparr> goal = g, steps = map (\<lambda>s.
     \<lparr> s_id = sp_id s, s_role = sp_role s, s_task = sp_task s, s_deps = sp_deps s, s_review = sp_review s,
       s_status = Waiting, s_result = None, s_attempts = 0, s_review_cycles = 0 \<rparr>) spec \<rparr>"

definition step_of :: "plan \<Rightarrow> str \<Rightarrow> step option" where
  "step_of p i = List.find (\<lambda>s. s_id s = i) (steps p)"

definition status_of :: "plan \<Rightarrow> str \<Rightarrow> step_status option" where
  "status_of p i = map_option s_status (step_of p i)"

definition ready_steps :: "plan \<Rightarrow> step list" where
  "ready_steps p = filter (\<lambda>s. s_status s = Waiting \<and>
     list_all (\<lambda>d. status_of p d = Some StepDone) (s_deps s)) (steps p)"

definition plan_complete :: "plan \<Rightarrow> bool" where
  "plan_complete p = list_all (\<lambda>s. s_status s = StepDone) (steps p)"

definition has_failure :: "plan \<Rightarrow> bool" where
  "has_failure p = list_ex (\<lambda>s. s_status s = StepFailed) (steps p)"

definition step_mut :: "str \<Rightarrow> (step \<Rightarrow> step) \<Rightarrow> plan \<Rightarrow> plan" where
  "step_mut i f p = p\<lparr>steps := update_first (\<lambda>s. s_id s = i) f (steps p)\<rparr>"

definition step_context :: "plan \<Rightarrow> step \<Rightarrow> str" where
  "step_context p s = concat (map (\<lambda>d.
     case step_of p d of
       None \<Rightarrow> []
     | Some dep \<Rightarrow> (case s_result dep of
         None \<Rightarrow> []
       | Some r \<Rightarrow> newline @ ''### Result of '' @ s_id dep @ '' ('' @ s_role dep @ '')'' @ newline @ r @ newline))
     (s_deps s))"

section \<open>Validation\<close>

datatype plan_error =
    NoSteps
  | DuplicateIds
  | UnknownRole str str
  | StepOnItself str
  | UnknownStep str str
  | CycleAt str
  | Panicked  \<comment> \<open>an \<open>unwrap\<close> on \<open>None\<close>\<close>

fun check_step_deps :: "str list \<Rightarrow> str \<Rightarrow> str list \<Rightarrow> plan_error + unit" where
  "check_step_deps ids i [] = Inr ()"
| "check_step_deps ids i (d # ds) =
     (if d = i then Inl (StepOnItself i)
      else if d \<notin> set ids then Inl (UnknownStep i d)
      else check_step_deps ids i ds)"

fun check_steps :: "registry \<Rightarrow> str list \<Rightarrow> step list \<Rightarrow> plan_error + unit" where
  "check_steps reg ids [] = Inr ()"
| "check_steps reg ids (s # ss) =
     (if get_role reg (s_role s) = None then Inl (UnknownRole (s_id s) (s_role s))
      else bind_result (check_step_deps ids (s_id s) (s_deps s)) (\<lambda>_. check_steps reg ids ss))"

text \<open>
  The search of \<open>check_acyclic\<close>: marks, and a stack of (step, next dependency) with the top
  first. One iteration of the \<open>while\<close> loop is \<open>dfs_iter\<close>.
\<close>

type_synonym dfs = "marks \<times> (str \<times> nat) list"

definition dfs_iter :: "plan \<Rightarrow> str \<Rightarrow> nat \<Rightarrow> marks \<Rightarrow> (str \<times> nat) list \<Rightarrow> plan_error + dfs" where
  "dfs_iter p i k m rest =
     (case step_of p i of
        None \<Rightarrow> Inl Panicked
      | Some s \<Rightarrow>
          if k < length (s_deps s) then
            (let stack = (i, k + 1) # rest; d = s_deps s ! k
             in case m d of
                  Some InProgress \<Rightarrow> Inl (CycleAt d)
                | Some Finished \<Rightarrow> Inr (m, stack)
                | None \<Rightarrow> Inr (m(d \<mapsto> InProgress), (d, 0) # stack))
          else Inr (m(i \<mapsto> Finished), rest))"

text \<open>Termination: what the stack still has to look at, and what unmarked steps would add.\<close>

definition step_deps :: "plan \<Rightarrow> str \<Rightarrow> str list" where
  "step_deps p i = (case step_of p i of None \<Rightarrow> [] | Some s \<Rightarrow> s_deps s)"

definition mentioned :: "plan \<Rightarrow> str set" where
  "mentioned p = (\<Union>s\<in>set (steps p). set (s_deps s))"

definition dfs_measure :: "plan \<Rightarrow> dfs \<Rightarrow> nat" where
  "dfs_measure p st =
     (\<Sum>d\<in>{d \<in> mentioned p. fst st d = None}. length (step_deps p d) + 2) +
     (\<Sum>(i, k)\<leftarrow>snd st. length (step_deps p i) - k + 1)"

lemma step_of_Some: "step_of p i = Some s \<Longrightarrow> s \<in> set (steps p) \<and> s_id s = i"
  by (auto simp: step_of_def dest: find_Some_prop)

lemma finite_mentioned [simp]: "finite (mentioned p)"
  by (simp add: mentioned_def)

lemma dfs_iter_decreases:
  assumes "dfs_iter p i k m rest = Inr st"
  shows "dfs_measure p st < dfs_measure p (m, (i, k) # rest)"
proof -
  obtain s where s: "step_of p i = Some s"
    using assms by (auto simp: dfs_iter_def split: option.splits)
  have len: "length (step_deps p i) = length (s_deps s)" by (simp add: step_deps_def s)
  let ?U = "\<lambda>m. {d \<in> mentioned p. m d = None}" and ?w = "\<lambda>d. length (step_deps p d) + 2"
  show ?thesis
  proof (cases "k < length (s_deps s)")
    case True
    let ?d = "s_deps s ! k"
    have d: "?d \<in> mentioned p" using nth_mem [OF True] step_of_Some [OF s] unfolding mentioned_def by blast
    show ?thesis
    proof (cases "m ?d")
      case None
      with True assms s have st: "st = (m(?d \<mapsto> InProgress), (?d, 0) # (i, k + 1) # rest)"
        by (simp add: dfs_iter_def Let_def)
      have "?U m = insert ?d (?U (m(?d \<mapsto> InProgress)))" using d None by auto
      moreover have "?d \<notin> ?U (m(?d \<mapsto> InProgress))" by simp
      ultimately have "(\<Sum>d\<in>?U m. ?w d) = ?w ?d + (\<Sum>d\<in>?U (m(?d \<mapsto> InProgress)). ?w d)"
        by simp
      then show ?thesis using True len by (simp add: dfs_measure_def st del: fun_upd_apply)
    next
      case (Some mk)
      with True assms s have "st = (m, (i, k + 1) # rest)"
        by (cases mk) (simp_all add: dfs_iter_def Let_def)
      then show ?thesis using True len by (simp add: dfs_measure_def)
    qed
  next
    case False
    with assms s have st: "st = (m(i \<mapsto> Finished), rest)" by (simp add: dfs_iter_def)
    have "(\<Sum>d\<in>?U (m(i \<mapsto> Finished)). ?w d) \<le> (\<Sum>d\<in>?U m. ?w d)"
      by (rule sum_mono2) auto
    then show ?thesis by (simp add: dfs_measure_def st del: fun_upd_apply)
  qed
qed

function dfs_loop :: "plan \<Rightarrow> dfs \<Rightarrow> plan_error + marks" where
  "dfs_loop p (m, []) = Inr m"
| "dfs_loop p (m, (i, k) # rest) =
     (case dfs_iter p i k m rest of Inl e \<Rightarrow> Inl e | Inr st \<Rightarrow> dfs_loop p st)"
  by pat_completeness auto
termination
  by (relation "measure (\<lambda>(p, st). dfs_measure p st)") (auto dest: dfs_iter_decreases)

fun dfs_starts :: "plan \<Rightarrow> step list \<Rightarrow> marks \<Rightarrow> plan_error + unit" where
  "dfs_starts p [] m = Inr ()"
| "dfs_starts p (s # ss) m =
     (if m (s_id s) \<noteq> None then dfs_starts p ss m
      else bind_result (dfs_loop p (m(s_id s \<mapsto> InProgress), [(s_id s, 0)])) (dfs_starts p ss))"

definition check_acyclic :: "plan \<Rightarrow> plan_error + unit" where
  "check_acyclic p = dfs_starts p (steps p) Map.empty"

definition validate_plan :: "registry \<Rightarrow> plan \<Rightarrow> plan_error + unit" where
  "validate_plan reg p =
     (let ids = map s_id (steps p)
      in if steps p = [] then Inl NoSteps
         else if card (set ids) \<noteq> length (steps p) then Inl DuplicateIds
         else bind_result (check_steps reg ids (steps p)) (\<lambda>_. check_acyclic p))"

section \<open>The iterative search is exact\<close>

text \<open>
  The invariant of the loop. For every stack entry \<open>(x, k)\<close> the first \<open>k\<close> dependencies of
  \<open>x\<close> are finished, except the one the entry above is visiting (the set \<open>C\<close>).
\<close>

fun frames_ok :: "(str \<Rightarrow> str list) \<Rightarrow> str set \<Rightarrow> str set \<Rightarrow> (str \<times> nat) list \<Rightarrow> bool" where
  "frames_ok D F C [] = True"
| "frames_ok D F C ((x, k) # rest) =
     (set (take k (D x)) \<subseteq> F \<union> C \<and> C \<subseteq> set (D x) \<and> frames_ok D F {x} rest)"

definition dfs_ok :: "plan \<Rightarrow> dfs \<Rightarrow> bool" where
  "dfs_ok p st \<longleftrightarrow> marks_ok (step_deps p) (fst st) \<and> in_progress (fst st) = fst ` set (snd st) \<and>
     distinct (map fst (snd st)) \<and> frames_ok (step_deps p) (finished (fst st)) {} (snd st)"

lemma frames_mono: "frames_ok D F C stk \<Longrightarrow> F \<subseteq> G \<Longrightarrow> frames_ok D G C stk"
  by (induction D F C stk rule: frames_ok.induct) auto

lemma frames_pop: "frames_ok D F {x} stk \<Longrightarrow> frames_ok D (insert x F) {} stk"
  by (cases stk) (auto intro: frames_mono)

lemma frames_reach: "frames_ok D F {c} stk \<Longrightarrow> g \<in> fst ` set stk \<Longrightarrow> (g, c) \<in> (dep_rel D)\<^sup>+"
proof (induction stk arbitrary: c)
  case (Cons e stk)
  obtain x k where e: "e = (x, k)" by fastforce
  with Cons.prems have xc: "(x, c) \<in> dep_rel D" and fr: "frames_ok D F {x} stk"
    by (auto simp: dep_rel_def)
  show ?case
  proof (cases "g = x")
    case True
    with xc show ?thesis by blast
  next
    case False
    with Cons.prems e have "g \<in> fst ` set stk" by auto
    from Cons.IH [OF fr this] xc show ?thesis by (rule trancl_into_trancl)
  qed
qed simp

lemma dfs_iter_ok:
  assumes "dfs_iter p i k m rest = Inr st" and ok: "dfs_ok p (m, (i, k) # rest)"
  shows "dfs_ok p st \<and> m \<subseteq>\<^sub>m fst st \<or> dfs_ok p st \<and> (\<forall>x. x \<noteq> i \<longrightarrow> m x = fst st x) \<and> fst st i = Some Finished"
proof -
  obtain s where s: "step_of p i = Some s"
    using assms by (auto simp: dfs_iter_def split: option.splits)
  have D: "step_deps p i = s_deps s" by (simp add: step_deps_def s)
  have i: "m i = Some InProgress" using ok by (auto simp: dfs_ok_def in_progress_def)
  show ?thesis
  proof (cases "k < length (s_deps s)")
    case True
    let ?d = "s_deps s ! k"
    have tk: "set (take (Suc k) (s_deps s)) = insert ?d (set (take k (s_deps s)))"
      using True by (simp add: take_Suc_conv_app_nth)
    show ?thesis
    proof (cases "m ?d")
      case None
      with True assms s have st: "st = (m(?d \<mapsto> InProgress), (?d, 0) # (i, k + 1) # rest)"
        by (simp add: dfs_iter_def Let_def)
      have f: "finished (m(?d \<mapsto> InProgress)) = finished m" using None by (auto simp: finished_def)
      have "?d \<notin> in_progress m" using None by (simp add: in_progress_def)
      then have nd: "?d \<notin> fst ` set ((i, k) # rest)" using ok by (simp add: dfs_ok_def)
      have "?d \<in> set (s_deps s)" using True by simp
      then have "dfs_ok p st" using ok nd None tk D f marks_ok_start [of "step_deps p" m ?d]
        by (auto simp: dfs_ok_def st simp del: fun_upd_apply)
      moreover have "m \<subseteq>\<^sub>m fst st" using None by (auto simp: st map_le_iff)
      ultimately show ?thesis by blast
    next
      case (Some mk)
      with True assms s have st: "st = (m, (i, k + 1) # rest)" and "mk = Finished"
        by (cases mk; simp add: dfs_iter_def Let_def)+
      with Some have "?d \<in> finished m" by (simp add: finished_def)
      with ok tk D st show ?thesis by (auto simp: dfs_ok_def map_le_iff)
    qed
  next
    case False
    with assms s have st: "st = (m(i \<mapsto> Finished), rest)" by (simp add: dfs_iter_def)
    have sub: "set (step_deps p i) \<subseteq> finished m" using ok False by (simp add: dfs_ok_def D)
    have "marks_ok (step_deps p) (m(i \<mapsto> Finished))"
      using ok i sub by (intro marks_ok_finish) (auto simp: dfs_ok_def)
    then have "dfs_ok p st" using ok frames_pop by (auto simp: dfs_ok_def st simp del: fun_upd_apply)
    then show ?thesis by (simp add: st)
  qed
qed


lemma dfs_iter_marks: "dfs_iter p i k m rest = Inr st \<Longrightarrow> dom m \<subseteq> dom (fst st)"
  by (auto simp: dfs_iter_def Let_def split: option.splits mark.splits if_splits)

lemma dfs_loop_ok:
  "dfs_loop p st = Inr m' \<Longrightarrow> dfs_ok p st \<Longrightarrow>
     marks_ok (step_deps p) m' \<and> in_progress m' = {} \<and> dom (fst st) \<subseteq> dom m'"
proof (induction p st rule: dfs_loop.induct)
  case (1 p m)
  then show ?case by (simp add: dfs_ok_def)
next
  case (2 p m i k rest)
  then obtain st where st: "dfs_iter p i k m rest = Inr st" "dfs_loop p st = Inr m'"
    by (auto split: sum.splits)
  then have "dfs_ok p st" using dfs_iter_ok [OF st(1) "2.prems"(2)] by blast
  from "2.IH" [OF st this] dfs_iter_marks [OF st(1)] show ?case by (simp only: fst_conv) blast
qed

lemma dfs_iter_cycle:
  assumes "dfs_iter p i k m rest = Inl (CycleAt d)" and ok: "dfs_ok p (m, (i, k) # rest)"
  shows "\<not> acyclic (dep_rel (step_deps p))"
proof -
  obtain s where s: "step_of p i = Some s" "k < length (s_deps s)" "d = s_deps s ! k" "m d = Some InProgress"
    using assms(1) by (auto simp: dfs_iter_def Let_def split: option.splits mark.splits if_splits)
  then have e: "(i, d) \<in> dep_rel (step_deps p)" by (simp add: dep_rel_def step_deps_def)
  have "d \<in> fst ` set ((i, k) # rest)" using ok s(4) by (auto simp: dfs_ok_def in_progress_def)
  then have "d = i \<or> (d, i) \<in> (dep_rel (step_deps p))\<^sup>+"
    using frames_reach [of "step_deps p" "finished m" i rest d] ok by (auto simp: dfs_ok_def)
  with e have "(i, i) \<in> (dep_rel (step_deps p))\<^sup>+" by (auto intro: trancl_trans)
  then show ?thesis by (auto simp: acyclic_def)
qed

definition plan_ids :: "plan \<Rightarrow> str list" where
  "plan_ids p = map s_id (steps p)"

definition plan_closed :: "plan \<Rightarrow> bool" where
  "plan_closed p \<longleftrightarrow> (\<forall>s\<in>set (steps p). s_id s \<notin> set (s_deps s) \<and> set (s_deps s) \<subseteq> set (plan_ids p))"

lemma step_of_None_iff: "step_of p i = None \<longleftrightarrow> i \<notin> set (plan_ids p)"
  by (auto simp: step_of_def plan_ids_def find_None_iff_all)

lemma dfs_iter_known:
  "dfs_iter p i k m rest = Inr st \<Longrightarrow> plan_closed p \<Longrightarrow> fst ` set ((i, k) # rest) \<subseteq> set (plan_ids p) \<Longrightarrow>
     fst ` set (snd st) \<subseteq> set (plan_ids p)"
proof -
  assume it: "dfs_iter p i k m rest = Inr st" and cl: "plan_closed p"
    and sub: "fst ` set ((i, k) # rest) \<subseteq> set (plan_ids p)"
  obtain s where s: "step_of p i = Some s" using it by (auto simp: dfs_iter_def split: option.splits)
  then have ds: "set (s_deps s) \<subseteq> set (plan_ids p)" using cl step_of_Some by (auto simp: plan_closed_def)
  show ?thesis
  proof (cases "k < length (s_deps s)")
    case True
    then have "s_deps s ! k \<in> set (plan_ids p)" using ds nth_mem by blast
    moreover have "snd st = (s_deps s ! k, 0) # (i, Suc k) # rest \<or> snd st = (i, Suc k) # rest"
      using it s True by (auto simp: dfs_iter_def Let_def split: option.splits mark.splits)
    ultimately show ?thesis using sub by (elim disjE) simp_all
  next
    case False
    then have "snd st = rest" using it s by (auto simp: dfs_iter_def)
    then show ?thesis using sub by simp
  qed
qed

lemma dfs_loop_errors:
  "dfs_loop p st = Inl e \<Longrightarrow> dfs_ok p st \<Longrightarrow> plan_closed p \<Longrightarrow> fst ` set (snd st) \<subseteq> set (plan_ids p) \<Longrightarrow>
     (\<exists>d. e = CycleAt d) \<and> \<not> acyclic (dep_rel (step_deps p))"
proof (induction p st rule: dfs_loop.induct)
  case (2 p m i k rest)
  show ?case
  proof (cases "dfs_iter p i k m rest")
    case (Inl e')
    with "2.prems"(1) have e: "e' = e" by simp
    have "step_of p i \<noteq> None" using "2.prems"(4) by (simp add: step_of_None_iff)
    then obtain d where "e = CycleAt d"
      using Inl e by (auto simp: dfs_iter_def Let_def split: option.splits mark.splits if_splits)
    with Inl e dfs_iter_cycle "2.prems"(2) show ?thesis by blast
  next
    case (Inr st)
    then have "dfs_loop p st = Inl e" and "dfs_ok p st"
      using "2.prems" dfs_iter_ok [OF Inr "2.prems"(2)] by auto
    from "2.IH" [OF Inr this "2.prems"(3)] dfs_iter_known [OF Inr "2.prems"(3)] "2.prems"(4)
    show ?thesis by simp
  qed
qed simp

lemma dfs_start_ok:
  "marks_ok (step_deps p) m \<Longrightarrow> in_progress m = {} \<Longrightarrow> m i = None \<Longrightarrow> dfs_ok p (m(i \<mapsto> InProgress), [(i, 0)])"
  by (simp add: dfs_ok_def marks_ok_start del: fun_upd_apply)

lemma dfs_starts_exact:
  "marks_ok (step_deps p) m \<Longrightarrow> in_progress m = {} \<Longrightarrow> plan_closed p \<Longrightarrow> set ss \<subseteq> set (steps p) \<Longrightarrow>
     (case dfs_starts p ss m of
        Inl e \<Rightarrow> (\<exists>d. e = CycleAt d) \<and> \<not> acyclic (dep_rel (step_deps p))
      | Inr _ \<Rightarrow> \<exists>m'. marks_ok (step_deps p) m' \<and> in_progress m' = {} \<and> dom m \<union> s_id ` set ss \<subseteq> dom m')"
proof (induction ss arbitrary: m)
  case (Cons s ss)
  show ?case
  proof (cases "m (s_id s)")
    case None
    let ?st = "(m(s_id s \<mapsto> InProgress), [(s_id s, 0::nat)])"
    have ok: "dfs_ok p ?st" using Cons.prems None by (intro dfs_start_ok)
    show ?thesis
    proof (cases "dfs_loop p ?st")
      case (Inl e)
      have "fst ` set (snd ?st) \<subseteq> set (plan_ids p)" using Cons.prems(4) by (auto simp: plan_ids_def)
      from dfs_loop_errors [OF Inl ok Cons.prems(3) this] Inl None show ?thesis by simp
    next
      case (Inr m1)
      from dfs_loop_ok [OF Inr ok] have m1: "marks_ok (step_deps p) m1" "in_progress m1 = {}"
        "insert (s_id s) (dom m) \<subseteq> dom m1" by auto
      then have dom: "dom m \<union> s_id ` set (s # ss) \<subseteq> dom m'" if "dom m1 \<union> s_id ` set ss \<subseteq> dom m'" for m'
        using that m1(3) by (simp only: list.set image_insert) blast
      have eq: "dfs_starts p (s # ss) m = dfs_starts p ss m1" using None Inr by simp
      have "set ss \<subseteq> set (steps p)" using Cons.prems(4) by simp
      note ih = Cons.IH [OF m1(1,2) Cons.prems(3) this]
      show ?thesis
      proof (cases "dfs_starts p ss m1")
        case (Inl e)
        with ih show ?thesis unfolding eq by simp
      next
        case (Inr u)
        with ih obtain m' where "marks_ok (step_deps p) m'" "in_progress m' = {}" "dom m1 \<union> s_id ` set ss \<subseteq> dom m'"
          by auto
        with dom show ?thesis unfolding eq Inr sum.case by blast
      qed
    qed
  next
    case (Some mk)
    then have "dom m \<union> s_id ` set (s # ss) = dom m \<union> s_id ` set ss" by auto
    moreover have "dfs_starts p (s # ss) m = dfs_starts p ss m" using Some by simp
    moreover have "set ss \<subseteq> set (steps p)" using Cons.prems(4) by simp
    ultimately show ?thesis using Cons.IH [OF Cons.prems(1-3)] by (simp only:)
  qed
qed auto

lemma check_acyclic_exact:
  assumes "plan_closed p"
  shows "check_acyclic p = Inr () \<longleftrightarrow> acyclic (dep_rel (step_deps p))"
    and "check_acyclic p = Inl e \<Longrightarrow> \<exists>d. e = CycleAt d"
proof -
  have ex: "case check_acyclic p of Inl e \<Rightarrow> (\<exists>d. e = CycleAt d) \<and> \<not> acyclic (dep_rel (step_deps p))
      | Inr _ \<Rightarrow> \<exists>m'. marks_ok (step_deps p) m' \<and> in_progress m' = {} \<and> s_id ` set (steps p) \<subseteq> dom m'"
    using dfs_starts_exact [of p Map.empty "steps p"] assms by (simp add: check_acyclic_def in_progress_def split: sum.splits)
  show "check_acyclic p = Inl e \<Longrightarrow> \<exists>d. e = CycleAt d" using ex by auto
  show "check_acyclic p = Inr () \<longleftrightarrow> acyclic (dep_rel (step_deps p))"
  proof (cases "check_acyclic p")
    case (Inr u)
    with ex obtain m' where m': "marks_ok (step_deps p) m'" "in_progress m' = {}" "s_id ` set (steps p) \<subseteq> dom m'"
      by auto
    have "x \<in> finished m'" if "step_deps p x \<noteq> []" for x
    proof -
      have "x \<in> set (plan_ids p)"
        using that step_of_None_iff [of p x] by (auto simp: step_deps_def split: option.splits)
      with m'(3) obtain mk where mk: "m' x = Some mk" by (auto simp: plan_ids_def)
      with m'(2) show ?thesis by (cases mk) (auto simp: finished_def in_progress_def)
    qed
    with m'(1) have "acyclic (dep_rel (step_deps p))" by (rule marks_ok_acyclic)
    with Inr show ?thesis by simp
  qed (use ex in auto)
qed

lemma check_step_deps_iff: "check_step_deps ids i ds = Inr () \<longleftrightarrow> i \<notin> set ds \<and> set ds \<subseteq> set ids"
  by (induction ids i ds rule: check_step_deps.induct) auto

lemma check_steps_iff:
  "check_steps reg ids ss = Inr () \<longleftrightarrow> (\<forall>s\<in>set ss. get_role reg (s_role s) \<noteq> None \<and>
     s_id s \<notin> set (s_deps s) \<and> set (s_deps s) \<subseteq> set ids)"
  by (induction reg ids ss rule: check_steps.induct) (auto simp: bind_result_Inr check_step_deps_iff)

lemma validate_plan_iff:
  "validate_plan reg p = Inr () \<longleftrightarrow> steps p \<noteq> [] \<and> distinct (plan_ids p) \<and>
     (\<forall>s\<in>set (steps p). get_role reg (s_role s) \<noteq> None) \<and> plan_closed p \<and> acyclic (dep_rel (step_deps p))"
proof -
  have c: "check_steps reg (plan_ids p) (steps p) = Inr () \<longleftrightarrow>
      (\<forall>s\<in>set (steps p). get_role reg (s_role s) \<noteq> None) \<and> plan_closed p"
    by (auto simp: check_steps_iff plan_closed_def)
  have d: "card (set (plan_ids p)) = length (steps p) \<longleftrightarrow> distinct (plan_ids p)"
    using card_distinct [of "plan_ids p"] distinct_card [of "plan_ids p"] by (auto simp: plan_ids_def)
  show ?thesis
    using c d check_acyclic_exact(1) [of p]
    by (auto simp: validate_plan_def Let_def bind_result_Inr simp flip: plan_ids_def)
qed

lemma validate_plan_no_panic: "validate_plan reg p \<noteq> Inl Panicked"
proof -
  have d: "check_step_deps ids i ds \<noteq> Inl Panicked" for ids i ds
    by (induction ids i ds rule: check_step_deps.induct) auto
  have c: "check_steps reg ids ss \<noteq> Inl Panicked" for ids ss
    by (induction reg ids ss rule: check_steps.induct) (use d in \<open>auto simp: bind_result_def split: sum.splits\<close>)
  have "check_acyclic p \<noteq> Inl Panicked" if "check_steps reg (plan_ids p) (steps p) = Inr ()"
    using check_acyclic_exact(2) [of p Panicked] that by (auto simp: check_steps_iff plan_closed_def)
  with c show ?thesis
    by (auto simp: validate_plan_def Let_def bind_result_def plan_ids_def split: sum.splits)
qed

text \<open>A validated plan is a validated graph, as the dispatcher needs it.\<close>

interpretation plan_graph: validated_graph plan_ids step_deps
  "\<lambda>p. plan_closed p \<and> acyclic (dep_rel (step_deps p))"
proof
  fix p x
  assume v: "plan_closed p \<and> acyclic (dep_rel (step_deps p))" and "x \<in> set (plan_ids p)"
  then obtain s where s: "step_of p x = Some s" using step_of_None_iff [of p x] by auto
  with v show "set (step_deps p x) \<subseteq> set (plan_ids p)"
    using step_of_Some [OF s] by (simp add: step_deps_def plan_closed_def)
qed simp

lemma step_of_distinct: "distinct (plan_ids p) \<Longrightarrow> s \<in> set (steps p) \<Longrightarrow> step_of p (s_id s) = Some s"
proof -
  assume d: "distinct (plan_ids p)" and s: "s \<in> set (steps p)"
  then have "s_id s \<in> set (plan_ids p)" by (simp add: plan_ids_def)
  then obtain t where t: "step_of p (s_id s) = Some t" using step_of_None_iff [of p "s_id s"] by auto
  with d s show ?thesis using step_of_Some [OF t] by (auto simp: plan_ids_def distinct_map dest: inj_onD)
qed

lemma ready_steps_progress:
  assumes v: "validate_plan reg p = Inr ()"
    and st: "\<forall>s\<in>set (steps p). s_status s = Waiting \<or> s_status s = StepDone"
    and nc: "\<not> plan_complete p"
  shows "ready_steps p \<noteq> []"
proof -
  from v have g: "plan_closed p \<and> acyclic (dep_rel (step_deps p))" and di: "distinct (plan_ids p)"
    by (simp_all add: validate_plan_iff)
  let ?D = "{i. status_of p i = Some StepDone}"
  obtain s where s: "s \<in> set (steps p)" "s_status s \<noteq> StepDone" using nc by (auto simp: plan_complete_def list_all_iff)
  then have "s_id s \<in> set (plan_ids p)" "s_id s \<notin> ?D"
    using step_of_distinct [OF di s(1)] by (simp_all add: plan_ids_def status_of_def)
  from plan_graph.progress [OF g this] obtain y where
    y: "y \<in> set (plan_ids p)" "y \<notin> ?D" "set (step_deps p y) \<subseteq> ?D" by blast
  then obtain t where t: "t \<in> set (steps p)" "s_id t = y" by (auto simp: plan_ids_def)
  have "step_of p y = Some t" using step_of_distinct [OF di t(1)] t(2) by simp
  with y t st have "s_status t = Waiting" "list_all (\<lambda>d. status_of p d = Some StepDone) (s_deps t)"
    by (auto simp: status_of_def step_deps_def list_all_iff)
  with t(1) have "t \<in> set (ready_steps p)" by (simp add: ready_steps_def)
  then show ?thesis by auto
qed

section \<open>Reading a model's reply\<close>

definition quote_char :: char where "quote_char = CHR 0x22"
definition backslash :: char where "backslash = CHR 0x5C"

text \<open>
  The scan of \<open>extract_json_object\<close>: brace depth, inside a string, after a backslash. The
  result is the length of the text up to the brace that closes the first one. The depth
  starts at zero in front of a brace, so it is positive at every closing brace reached.
\<close>

fun scan_json :: "nat \<Rightarrow> bool \<Rightarrow> bool \<Rightarrow> str \<Rightarrow> nat option" where
  "scan_json d in_string escaped [] = None"
| "scan_json d in_string escaped (c # cs) =
     (if c = quote_char \<and> \<not> escaped then map_option Suc (scan_json d (\<not> in_string) False cs)
      else if c = backslash \<and> in_string then map_option Suc (scan_json d in_string (\<not> escaped) cs)
      else if c = CHR ''{'' \<and> \<not> in_string then map_option Suc (scan_json (d + 1) in_string False cs)
      else if c = CHR ''}'' \<and> \<not> in_string then
        (if d - 1 = 0 then Some 1 else map_option Suc (scan_json (d - 1) in_string False cs))
      else map_option Suc (scan_json d in_string False cs))"

definition extract_json_object :: "str \<Rightarrow> str option" where
  "extract_json_object text =
     (case find_sub ''{'' text of
        None \<Rightarrow> None
      | Some start \<Rightarrow> map_option (\<lambda>n. take n (drop start text)) (scan_json 0 False False (drop start text)))"

text \<open>\<open>decode\<close>: serde's reading of the object as a plan, with its error text.\<close>

datatype parse_error = NoJson | InvalidJson str | InvalidPlan plan_error

definition parse_plan ::
  "(str \<Rightarrow> str + step_spec list) \<Rightarrow> str \<Rightarrow> str \<Rightarrow> registry \<Rightarrow> parse_error + plan" where
  "parse_plan decode g reply reg =
     (case extract_json_object reply of
        None \<Rightarrow> Inl NoJson
      | Some json \<Rightarrow> (case decode json of
          Inl e \<Rightarrow> Inl (InvalidJson e)
        | Inr spec \<Rightarrow>
            (let p = plan_from_spec g spec
             in case validate_plan reg p of Inl e \<Rightarrow> Inl (InvalidPlan e) | Inr _ \<Rightarrow> Inr p)))"

datatype review_verdict = Approve | Revise str | Unclear

definition parse_review :: "str \<Rightarrow> review_verdict" where
  "parse_review reply =
     (if contains marker_approve reply then Approve
      else case find_sub marker_revise reply of
          Some i \<Rightarrow> Revise (trim (drop (i + length marker_revise) reply))
        | None \<Rightarrow> Unclear)"

text \<open>\<open>replace('\n', " ")\<close>.\<close>

definition flatten_lines :: "str \<Rightarrow> str" where
  "flatten_lines s = map (\<lambda>c. if c = CHR 10 then CHR '' '' else c) s"

text \<open>\<open>note\<close> is the constant text for an empty reply (it holds an em dash).\<close>

definition reply_preview :: "str \<Rightarrow> str \<Rightarrow> str" where
  "reply_preview note text =
     (let t = trim text in if t = [] then note else flatten_lines (take 240 t))"

section \<open>Prompts\<close>

definition quoted :: "str \<Rightarrow> str" where
  "quoted s = quote_char # s @ [quote_char]"

definition coordinator_task :: "str \<Rightarrow> registry \<Rightarrow> caps \<Rightarrow> str" where
  "coordinator_task g reg c =
     ''Goal:'' @ newline @ g @ newline @ newline @
     ''Break this into at most '' @ show_nat (unat (max_steps c)) @ '' steps. Available worker roles: '' @
     join '', '' (filter (\<lambda>n. n \<noteq> ''coordinator'' \<and> n \<noteq> ''synthesizer'') (role_names reg)) @ ''.'' @ newline @
     ''Reply with ONLY a JSON object of this exact shape (no prose):'' @ newline @
     ''{'' @ quoted ''steps'' @ '':[{'' @ quoted ''id'' @ '':'' @ quoted ''s1'' @ '','' @
     quoted ''role'' @ '':'' @ quoted ''researcher'' @ '','' @ quoted ''task'' @ '':'' @ quoted ''...'' @ '','' @
     quoted ''deps'' @ '':[],'' @ quoted ''review'' @ '':false}]}'' @ newline @
     ''- `id` is a short unique string. `deps` lists ids whose results this step needs first.'' @ newline @
     ''- Set `review` true for steps whose output should be checked before it counts as done.'' @ newline @
     ''- Keep the plan as small as will satisfy the goal.''"

definition build_step_task :: "registry \<Rightarrow> plan \<Rightarrow> step \<Rightarrow> str" where
  "build_step_task reg p s =
     (let base = (case frame_task reg (s_role s) (s_task s) of None \<Rightarrow> s_task s | Some t \<Rightarrow> t);
          ctx = step_context p s
      in if trim ctx = [] then base
         else base @ newline @ newline @ ''--- INPUTS FROM EARLIER STEPS ---'' @ ctx)"

definition plan_chat_summary :: "plan \<Rightarrow> str" where
  "plan_chat_summary p = join newline (map (\<lambda>(i, s).
     show_nat (i + 1) @ ''. ['' @ s_role s @ ''] '' @ trim (take 80 (s_task s)))
     (List.enumerate 0 (steps p)))"

section \<open>Extraction finds the object\<close>

text \<open>The texts a JSON encoder produces, as far as braces and quotes matter.\<close>

datatype str_part = RawChar char | EscChar char
datatype json_part = PlainChar char | StrLit "str_part list" | ObjLit "json_part list"

fun render_str :: "str_part list \<Rightarrow> str" where
  "render_str [] = []"
| "render_str (RawChar c # ps) = c # render_str ps"
| "render_str (EscChar c # ps) = backslash # c # render_str ps"

primrec render :: "json_part \<Rightarrow> str" where
  "render (PlainChar c) = [c]"
| "render (StrLit ps) = quote_char # render_str ps @ [quote_char]"
| "render (ObjLit ts) = CHR ''{'' # concat (map render ts) @ ''}''"

fun str_ok :: "str_part \<Rightarrow> bool" where
  "str_ok (RawChar c) = (c \<noteq> quote_char \<and> c \<noteq> backslash)"
| "str_ok (EscChar c) = True"

primrec json_ok :: "json_part \<Rightarrow> bool" where
  "json_ok (PlainChar c) = (c \<noteq> quote_char \<and> c \<noteq> CHR ''{'' \<and> c \<noteq> CHR ''}'')"
| "json_ok (StrLit ps) = list_all str_ok ps"
| "json_ok (ObjLit ts) = list_all id (map json_ok ts)"

lemma char_diff [simp]: "quote_char \<noteq> backslash" "backslash \<noteq> quote_char"
  "quote_char \<noteq> CHR ''{''" "quote_char \<noteq> CHR ''}''" "CHR ''{'' \<noteq> quote_char" "CHR ''}'' \<noteq> quote_char"
  "backslash \<noteq> CHR ''{''" "CHR ''{'' \<noteq> backslash" "CHR ''}'' \<noteq> backslash"
  by (simp_all add: quote_char_def backslash_def)

lemma map_option_add_0 [simp]: "map_option ((+) (0::nat)) x = x"
  by (cases x) simp_all

lemma scan_string:
  "list_all str_ok ps \<Longrightarrow>
     scan_json d True False (render_str ps @ rest) = map_option ((+) (length (render_str ps))) (scan_json d True False rest)"
proof (induction ps rule: render_str.induct)
  case 1
  show ?case by (cases "scan_json d True False rest") simp_all
next
  case (2 c ps)
  then show ?case by (simp add: option.map_comp comp_def)
next
  case (3 c ps)
  then show ?case by (cases "c = quote_char"; cases "c = backslash") (simp_all add: option.map_comp comp_def)
qed

lemma scan_token:
  "json_ok t \<Longrightarrow> 0 < d \<Longrightarrow>
     scan_json d False False (render t @ rest) = map_option ((+) (length (render t))) (scan_json d False False rest)"
proof (induction t arbitrary: d rest)
  case (PlainChar c)
  then show ?case by simp
next
  case (StrLit ps)
  then show ?case by (simp add: scan_string option.map_comp comp_def)
next
  case (ObjLit ts)
  have "scan_json e False False (concat (map render us) @ rest') =
      map_option ((+) (length (concat (map render us)))) (scan_json e False False rest')"
    if "set us \<subseteq> set ts" "0 < e" for us e rest'
    using that
  proof (induction us)
    case (Cons u us)
    then have "json_ok u" using ObjLit.prems(1) by (auto simp: list_all_iff)
    with Cons ObjLit.IH [of u e] show ?case by (simp add: option.map_comp comp_def add.assoc)
  qed simp
  from this [of ts "Suc d"] ObjLit.prems(2) show ?case
    by (simp add: option.map_comp comp_def)
qed

lemma scan_object:
  assumes "json_ok (ObjLit ts)"
  shows "scan_json 0 False False (render (ObjLit ts) @ rest) = Some (length (render (ObjLit ts)))"
proof -
  have "scan_json 1 False False (concat (map render us) @ rest') =
      map_option ((+) (length (concat (map render us)))) (scan_json 1 False False rest')"
    if "set us \<subseteq> set ts" for us rest'
    using that
  proof (induction us)
    case (Cons u us)
    then have "json_ok u" using assms by (auto simp: list_all_iff)
    with Cons scan_token [of u 1] show ?case by (simp add: option.map_comp comp_def add.assoc)
  qed simp
  from this [of ts "CHR ''}'' # rest"] show ?thesis by simp
qed

lemma find_open: "CHR ''{'' \<notin> set pre \<Longrightarrow> find_sub ''{'' (pre @ CHR ''{'' # rest) = Some (length pre)"
  by (induction pre) auto

section \<open>Properties\<close>

text \<open>
  C3. A plan is accepted exactly when it is runnable: it has steps, their ids are unique,
  every role is known, every dependency is another step of the plan, and the
  dependencies have no cycle. The iterative search with its explicit stack decides the
  last point exactly, always ends, and its \<open>unwrap\<close> never fails.
\<close>

theorem plan_validate_exact:
  "(validate_plan reg p = Inr () \<longleftrightarrow>
     steps p \<noteq> [] \<and> distinct (map s_id (steps p)) \<and>
     \<not> (\<exists>s\<in>set (steps p). get_role reg (s_role s) = None \<or> s_id s \<in> set (s_deps s) \<or>
          (\<exists>d\<in>set (s_deps s). d \<notin> set (map s_id (steps p)))) \<and>
     acyclic (dep_rel (step_deps p))) \<and>
   validate_plan reg p \<noteq> Inl Panicked"
  using validate_plan_no_panic [of reg p] by (auto simp: validate_plan_iff plan_closed_def plan_ids_def)

text \<open>
  The JSON object is found in the middle of any prose: when the text before it has no
  brace, exactly the object is extracted, whatever its strings contain (braces, escaped
  quotes, backslashes) and however deeply objects nest.
\<close>

theorem extract_finds_object:
  assumes "json_ok (ObjLit ts)" and "CHR ''{'' \<notin> set pre"
  shows "extract_json_object (pre @ render (ObjLit ts) @ post) = Some (render (ObjLit ts))"
proof -
  have f: "find_sub ''{'' (pre @ render (ObjLit ts) @ post) = Some (length pre)"
    using find_open [OF assms(2)] by simp
  have d: "drop (length pre) (pre @ render (ObjLit ts) @ post) = render (ObjLit ts) @ post" by simp
  show ?thesis
    unfolding extract_json_object_def f option.case d scan_object [OF assms(1)] option.map by simp
qed

theorem extract_finds_object_witness:
  "extract_json_object (''Here: {'' @ quoted ''a}'' @ ''{}} ok }'') = Some (''{'' @ quoted ''a}'' @ ''{}}'')"
proof -
  let ?t = "[StrLit [RawChar CHR ''a'', RawChar CHR ''}''], ObjLit []]"
  have "json_ok (ObjLit ?t)" by (simp add: quote_char_def backslash_def)
  moreover have "CHR ''{'' \<notin> set ''Here: ''" by simp
  ultimately have "extract_json_object (''Here: '' @ render (ObjLit ?t) @ '' ok }'') = Some (render (ObjLit ?t))"
    by (rule extract_finds_object)
  then show ?thesis by (simp add: quoted_def)
qed

text \<open>
  A plan read from a reply can run to the end: it has passed validation, every step is
  waiting with no attempts, some step is ready at once, and whenever the steps are all
  waiting or done, some step is ready until all are done.
\<close>

theorem parsed_plan_runs:
  assumes "parse_plan decode g reply reg = Inr p"
  shows "validate_plan reg p = Inr () \<and> ready_steps p \<noteq> [] \<and> goal p = g \<and>
    (\<exists>json spec. extract_json_object reply = Some json \<and> decode json = Inr spec \<and> p = plan_from_spec g spec)"
proof -
  obtain json spec where e: "extract_json_object reply = Some json" "decode json = Inr spec"
      "p = plan_from_spec g spec" "validate_plan reg p = Inr ()"
    using assms by (auto simp: parse_plan_def Let_def split: option.splits sum.splits)
  have w: "\<forall>s\<in>set (steps p). s_status s = Waiting" by (auto simp: e(3) plan_from_spec_def)
  moreover have "steps p \<noteq> []" using e(4) by (simp add: validate_plan_iff)
  ultimately have "\<not> plan_complete p" by (cases "steps p") (auto simp: plan_complete_def)
  with ready_steps_progress [OF e(4)] w have "ready_steps p \<noteq> []" by simp
  with e show ?thesis by (simp add: plan_from_spec_def)
qed

text \<open>
  A plan never deadlocks: on a validated plan whose steps are all waiting or done, some
  step is ready until all are done.
\<close>

theorem plan_never_deadlocks:
  assumes "validate_plan reg p = Inr ()"
    and "\<forall>s\<in>set (steps p). s_status s = Waiting \<or> s_status s = StepDone"
    and "\<not> plan_complete p"
  shows "ready_steps p \<noteq> []"
  using assms by (rule ready_steps_progress)

definition demo_spec :: "step_spec list" where
  "demo_spec = [\<lparr> sp_id = ''s1'', sp_role = ''researcher'', sp_task = ''find'', sp_deps = [], sp_review = False \<rparr>,
     \<lparr> sp_id = ''s2'', sp_role = ''developer'', sp_task = ''build'', sp_deps = [''s1''], sp_review = True \<rparr>]"

lemma demo_plan_valid: "validate_plan (default_roles ''b'') (plan_from_spec ''g'' demo_spec) = Inr ()"
proof -
  have "get_role (default_roles ''b'') ''researcher'' \<noteq> None" "get_role (default_roles ''b'') ''developer'' \<noteq> None"
    unfolding default_roles_def get_from_core by (simp_all add: core_role_defs_def)
  then show ?thesis
    by (simp add: validate_plan_def Let_def demo_spec_def plan_from_spec_def check_acyclic_def dfs_iter_def step_of_def)
qed

theorem plan_never_deadlocks_witness: "ready_steps (plan_from_spec ''g'' demo_spec) \<noteq> []"
  by (rule plan_never_deadlocks [OF demo_plan_valid])
     (simp_all add: plan_from_spec_def demo_spec_def plan_complete_def)

theorem parsed_plan_runs_witness:
  "\<exists>p. parse_plan (\<lambda>_. Inr demo_spec) ''g'' ''{}'' (default_roles ''b'') = Inr p \<and> ready_steps p \<noteq> []"
proof -
  have "extract_json_object ''{}'' = Some ''{}''" by (simp add: extract_json_object_def quote_char_def backslash_def)
  then have p: "parse_plan (\<lambda>_. Inr demo_spec) ''g'' ''{}'' (default_roles ''b'') = Inr (plan_from_spec ''g'' demo_spec)"
    by (simp add: parse_plan_def demo_plan_valid)
  from parsed_plan_runs [OF this] p show ?thesis by blast
qed

end
