(* ===== verification/Verify.thy ===== *)
theory Verify
  imports Planner
begin

text \<open>
  \<open>crates/maturana-ops/src/verification.rs\<close>: the verdict of running the produced files, how
  it is read out of a reply, and the run summary. The texts hold an em dash and an
  ellipsis, characters outside the model's range: both are arguments.
\<close>

section \<open>Replacing and splitting by a pattern\<close>

text \<open>\<open>str::replace\<close> and \<open>str::split\<close> with a non-empty pattern, left to right.\<close>

function split_pat :: "str \<Rightarrow> str \<Rightarrow> str list" where
  "split_pat pat s =
     (if pat = [] then [s] else case find_sub pat s of
        None \<Rightarrow> [s]
      | Some i \<Rightarrow> take i s # split_pat pat (drop (i + length pat) s))"
  by auto
termination
proof (relation "measure (\<lambda>(pat, s). length s)")
  fix pat s :: str and i
  assume "pat \<noteq> []" and "find_sub pat s = Some i"
  then have "0 < length pat" "i + length pat \<le> length s" using find_sub_Some by auto
  then have "length s - (i + length pat) < length s" by linarith
  then show "((pat, drop (i + length pat) s), pat, s) \<in> measure (\<lambda>(pat, s). length s)" by auto
qed simp

declare split_pat.simps [simp del]

definition replace_all :: "str \<Rightarrow> str \<Rightarrow> str \<Rightarrow> str" where
  "replace_all pat rep s = join rep (split_pat pat s)"

section \<open>Verdicts\<close>

datatype verify_outcome = Passed | VFailed str | Inconclusive str | Skipped

fun outcome_label :: "verify_outcome \<Rightarrow> str" where
  "outcome_label Passed = ''verified: runs''"
| "outcome_label (VFailed _) = ''NOT verified''"
| "outcome_label (Inconclusive _) = ''unverified''"
| "outcome_label Skipped = ''verification skipped''"

fun outcome_detail :: "str \<Rightarrow> verify_outcome \<Rightarrow> str" where
  "outcome_detail dash Passed = ''verification: an agent ran the deliverable and confirmed it works.''"
| "outcome_detail dash (VFailed why) = ''verification: FAILED after repair attempts '' @ dash @ '' '' @ trim why"
| "outcome_detail dash (Inconclusive why) = ''verification: inconclusive '' @ dash @ '' '' @ trim why"
| "outcome_detail dash Skipped = ''verification: skipped.''"

definition build_run_summary :: "str \<Rightarrow> str \<Rightarrow> plan \<Rightarrow> str list \<Rightarrow> verify_outcome \<Rightarrow> str" where
  "build_run_summary dash g p files verdict =
     ''# '' @ g @ newline @ newline @ ''## Verification'' @ newline @ trim (outcome_detail dash verdict) @ newline @
     newline @ ''## Files produced'' @ newline @
     (if files = [] then ''- (none)'' @ newline else []) @
     concat (map (\<lambda>f. ''- '' @ f @ newline) files) @
     newline @ ''## How it was built'' @ newline @
     concat (map (\<lambda>s. case s_result s of
         None \<Rightarrow> []
       | Some r \<Rightarrow> newline @ ''### '' @ s_id s @ '' ('' @ s_role s @ '')'' @ newline @ trim r @ newline) (steps p))"

definition parse_verify :: "str \<Rightarrow> bool option" where
  "parse_verify reply =
     (if contains marker_pass reply then Some True
      else if contains marker_fail reply then Some False else None)"

definition verify_detail :: "str \<Rightarrow> str \<Rightarrow> str" where
  "verify_detail ellipsis reply =
     (let tail = trim (case split_pat marker_fail reply of _ # t # _ \<Rightarrow> t | _ \<Rightarrow> []);
          one_line = flatten_lines tail
      in if one_line = [] then ''no detail given''
         else if 200 < length one_line then take 200 one_line @ ellipsis
         else one_line)"

definition verify_task :: "str \<Rightarrow> str \<Rightarrow> str \<Rightarrow> str" where
  "verify_task dash g out_remote =
     ''You are the VERIFIER. The files produced for this goal are in '' @ out_remote @ '' in your '' @
     ''workspace.'' @ newline @ newline @ ''Goal: '' @ g @ newline @ newline @
     ''ACTUALLY EXERCISE the deliverable the way a user would: run the program, execute the '' @
     ''script, open the page in a headless browser, call the endpoint '' @ dash @ '' whatever fits what was '' @
     ''built. Decide whether it genuinely works and meets the goal.'' @ newline @
     ''- If it works, reply with '' @ marker_pass @ '' on its own line plus ONE line on what you checked.'' @ newline @
     ''- If it does NOT work, FIX the files in place inside '' @ out_remote @ '', then reply with '' @ marker_fail @
     '' on its own line followed by what was broken and what you changed.'' @ newline @
     ''Keep your reply brief; do not paste full file contents.''"

lemma verify_detail_bound: "length (verify_detail ellipsis reply) \<le> 200 + length ellipsis"
  by (simp add: verify_detail_def Let_def)

lemma parse_verify_pass_wins: "contains marker_pass reply \<Longrightarrow> parse_verify reply = Some True"
  by (simp add: parse_verify_def)

end
