(* ===== verification/Orch_Loop.thy ===== *)
theory Orch_Loop
  imports Placement Verify
begin

text \<open>
  \<open>crates/maturana-cli/src/orchestrate.rs\<close>, the \<open>orchestrator loop\<close>: planning, the step
  loop with its stop ladder, the bounded review of a step, and the verification of the
  deliverable. Everything outside the process (agents reached over A2A, the abort marker,
  VM launches, the clock, files) is a world \<open>'w\<close> the run passes through; an \<open>env\<close> holds the
  operations on it. \<open>o_sent\<close> records the dispatches that reached an agent, in order.
  Progress messages (\<open>println\<close>, \<open>post_chat\<close>) are left out.
\<close>

section \<open>The run and its world\<close>

record 'w env =
  e_send :: "worker \<Rightarrow> str \<Rightarrow> 'w \<Rightarrow> (str + str) \<times> 'w"  \<comment> \<open>\<open>a2a_send\<close>\<close>
  e_aborted :: "'w \<Rightarrow> (str + bool) \<times> 'w"  \<comment> \<open>\<open>is_aborted\<close>\<close>
  e_agents :: "'w \<Rightarrow> agent_dir list"
  e_launch :: "str \<Rightarrow> 'w \<Rightarrow> (str + int) \<times> 'w"  \<comment> \<open>for a role, nanoseconds it took\<close>
  e_elapsed :: "'w \<Rightarrow> int \<times> 'w"  \<comment> \<open>nanoseconds since the start\<close>
  e_save :: "plan \<Rightarrow> 'w \<Rightarrow> (str + unit) \<times> 'w"  \<comment> \<open>\<open>save_plan\<close>\<close>
  e_collect :: "str \<Rightarrow> 'w \<Rightarrow> nat \<times> 'w"  \<comment> \<open>\<open>collect_step_artifacts\<close>\<close>
  e_staged :: "'w \<Rightarrow> nat"  \<comment> \<open>\<open>count_files\<close> of the staging directory\<close>
  e_decode :: "str \<Rightarrow> str + step_spec list"
  e_out_remote :: str
  e_dash :: str
  e_ellipsis :: str

record 'w orch =
  o_plan :: plan
  o_budget :: run_budget
  o_pool :: worker_pool
  o_world :: 'w
  o_sent :: "(str \<times> str) list"
  o_collected :: nat
  o_builder :: "str option"
  o_builder_files :: nat

definition dispatch_and_wait :: "'w env \<Rightarrow> worker \<Rightarrow> str \<Rightarrow> 'w orch \<Rightarrow> (str + str) \<times> 'w orch" where
  "dispatch_and_wait E w task st =
     (case spend_turn (o_budget st) of
        Inl _ \<Rightarrow> (Inl ''turn budget exhausted'', st)
      | Inr (_, b) \<Rightarrow>
          (case e_aborted E (o_world st) of
             (Inl e, v) \<Rightarrow> (Inl e, st\<lparr>o_budget := b, o_world := v\<rparr>)
           | (Inr True, v) \<Rightarrow> (Inl ''run aborted'', st\<lparr>o_budget := b, o_world := v\<rparr>)
           | (Inr False, v) \<Rightarrow>
               (case e_send E w task v of
                  (r, v') \<Rightarrow> (r, st\<lparr>o_budget := b, o_world := v', o_sent := o_sent st @ [(w_agent w, task)]\<rparr>))))"

text \<open>\<open>pool.resolve\<close>: a VM is launched only for a new spawn role with a slot and an address.\<close>

definition needs_launch :: "agent_dir list \<Rightarrow> str \<Rightarrow> worker_pool \<Rightarrow> bool" where
  "needs_launch dirs n wp \<longleftrightarrow> wp_cache wp n = None \<and>
     (case get_role (wp_registry wp) n of
        None \<Rightarrow> False
      | Some r \<Rightarrow> (case r_placement r of ReuseAgent _ \<Rightarrow> False | SpawnFrom _ \<Rightarrow> True)) \<and>
     fst (try_acquire (wp_slots wp)) \<and>
     allocate_net default_subnet (used_host_octets dirs default_subnet) \<noteq> None"

definition resolve_worker :: "'w env \<Rightarrow> str \<Rightarrow> 'w orch \<Rightarrow> (resolve_error + worker) \<times> 'w orch" where
  "resolve_worker E name st =
     (let dirs = e_agents E (o_world st);
          (launch, v) = (if needs_launch dirs name (o_pool st) then e_launch E name (o_world st)
                         else (Inr 0, o_world st))
      in case resolve dirs launch name (o_pool st) of
           (r, wp) \<Rightarrow> (r, st\<lparr>o_pool := wp, o_world := v\<rparr>))"

definition on_step :: "str \<Rightarrow> (step \<Rightarrow> step) \<Rightarrow> 'w orch \<Rightarrow> 'w orch" where
  "on_step sid f st = st\<lparr>o_plan := step_mut sid f (o_plan st)\<rparr>"

section \<open>Review of one step\<close>

definition review_text :: "registry \<Rightarrow> step \<Rightarrow> str \<Rightarrow> str" where
  "review_text reg s current = or_keep (frame_task reg ''reviewer''
     (''Acceptance criteria (the step'' @ [CHR 39] @ ''s task):'' @ newline @ s_task s @ newline @ newline @
      ''Result to check:'' @ newline @ current)) []"

definition revise_text :: "registry \<Rightarrow> step \<Rightarrow> str \<Rightarrow> str \<Rightarrow> str" where
  "revise_text reg s feedback current = or_keep (frame_task reg (s_role s)
     (''Revise your result for this task.'' @ newline @ ''Task:'' @ newline @ s_task s @ newline @
      ''Reviewer feedback:'' @ newline @ feedback @ newline @ ''Your previous result:'' @ newline @ current)) []"

function review_loop ::
  "'w env \<Rightarrow> registry \<Rightarrow> step \<Rightarrow> worker \<Rightarrow> u32 \<Rightarrow> u32 \<Rightarrow> str \<Rightarrow> 'w orch \<Rightarrow> (str + str) \<times> 'w orch" where
  "review_loop E reg s w max_cycles cycles current st =
     (if cycles < max_cycles then
        (case resolve_worker E ''reviewer'' st of
           (Inl _, st1) \<Rightarrow> (Inr current, st1)
         | (Inr reviewer, st1) \<Rightarrow>
             (case dispatch_and_wait E reviewer (review_text reg s current) st1 of
                (Inl _, st2) \<Rightarrow> (Inr current, st2)
              | (Inr verdict, st2) \<Rightarrow>
                  (case parse_review verdict of
                     Approve \<Rightarrow> (Inr current, st2)
                   | Revise feedback \<Rightarrow>
                       (let st3 = on_step (s_id s) (\<lambda>x. x\<lparr>s_review_cycles := cycles + 1\<rparr>) st2
                        in case dispatch_and_wait E w (revise_text reg s feedback current) st3 of
                             (Inl e, st4) \<Rightarrow> (Inl e, st4)
                           | (Inr better, st4) \<Rightarrow> review_loop E reg s w max_cycles (cycles + 1) better st4)
                   | Unclear \<Rightarrow>
                       review_loop E reg s w max_cycles (cycles + 1) current
                         (on_step (s_id s) (\<lambda>x. x\<lparr>s_review_cycles := cycles + 1\<rparr>) st2))))
      else (Inr current, st))"
  by auto
termination
  by (relation "measure (\<lambda>(E, reg, s, w, max_cycles, cycles, current, st). unat max_cycles - unat cycles)")
     (auto simp: unat_plus_1 word_less_nat_alt)

declare review_loop.simps [simp del]

definition finish_step :: "'w env \<Rightarrow> registry \<Rightarrow> str \<Rightarrow> worker \<Rightarrow> str \<Rightarrow> 'w orch \<Rightarrow> (str + str) \<times> 'w orch" where
  "finish_step E reg sid w reply st =
     (case step_of (o_plan st) sid of
        None \<Rightarrow> (Inl ''panicked'', st)
      | Some s \<Rightarrow>
          if \<not> s_review s then (Inr reply, st)
          else review_loop E reg s w (max_review_cycles (budget_caps (o_budget st))) 0 reply st)"


section \<open>The step loop\<close>

definition framed_task :: "'w env \<Rightarrow> registry \<Rightarrow> plan \<Rightarrow> step \<Rightarrow> str" where
  "framed_task E reg p s = build_step_task reg p s @ newline @ newline @
     ''--- PRODUCING FILES ---'' @ newline @
     ''If this step creates any files (code, a webpage, a script, data, an '' @
     ''image), WRITE them as real files into the directory '' @ e_out_remote E @ ''/ '' @
     ''(create it). Keep your text reply a brief summary of what you produced '' @ e_dash E @ '' '' @
     ''do NOT paste full file contents into your reply; the files are collected '' @
     ''from that directory automatically.''"

definition save_step :: "'w env \<Rightarrow> 'w orch \<Rightarrow> (str + unit) \<times> 'w orch" where
  "save_step E st = (case e_save E (o_plan st) (o_world st) of (r, v) \<Rightarrow> (r, st\<lparr>o_world := v\<rparr>))"

definition collect_step :: "'w env \<Rightarrow> worker \<Rightarrow> 'w orch \<Rightarrow> 'w orch" where
  "collect_step E w st =
     (case e_collect E (w_agent w) (o_world st) of
        (got, v) \<Rightarrow>
          (let st1 = st\<lparr>o_world := v\<rparr>
           in if 0 < got then
                (let st2 = st1\<lparr>o_collected := o_collected st1 + got\<rparr>
                 in if o_builder_files st2 \<le> got
                    then st2\<lparr>o_builder_files := got, o_builder := Some (w_agent w)\<rparr> else st2)
              else st1))"

text \<open>The body of \<open>for sid in ready_ids\<close>; an \<open>Inl\<close> leaves \<open>run_inner\<close>.\<close>

definition run_step :: "'w env \<Rightarrow> registry \<Rightarrow> str \<Rightarrow> 'w orch \<Rightarrow> (str + unit) \<times> 'w orch" where
  "run_step E reg sid st =
     (case step_of (o_plan st) sid of
        None \<Rightarrow> (Inl ''panicked'', st)
      | Some s \<Rightarrow>
          (case resolve_worker E (s_role s) st of
             (Inl _, st1) \<Rightarrow> (Inr (), on_step sid (\<lambda>x. x\<lparr>s_status := StepFailed\<rparr>) st1)
           | (Inr w, st1) \<Rightarrow>
               (let st2 = on_step sid (\<lambda>x. x\<lparr>s_status := Running, s_attempts := s_attempts x + 1\<rparr>) st1
                in case dispatch_and_wait E w (framed_task E reg (o_plan st2) s) st2 of
                     (Inl _, st3) \<Rightarrow> save_step E (on_step sid (\<lambda>x. x\<lparr>s_status := StepFailed\<rparr>) st3)
                   | (Inr reply, st3) \<Rightarrow>
                       (case finish_step E reg sid w reply st3 of
                          (Inl e, st4) \<Rightarrow> (Inl e, st4)
                        | (Inr result, st4) \<Rightarrow>
                            save_step E (collect_step E w
                              (on_step sid (\<lambda>x. x\<lparr>s_result := Some result, s_status := StepDone\<rparr>) st4))))))"

fun run_steps :: "'w env \<Rightarrow> registry \<Rightarrow> str list \<Rightarrow> 'w orch \<Rightarrow> (str + unit) \<times> 'w orch" where
  "run_steps E reg [] st = (Inr (), st)"
| "run_steps E reg (sid # sids) st =
     (case run_step E reg sid st of
        (Inl e, st1) \<Rightarrow> (Inl e, st1)
      | (Inr _, st1) \<Rightarrow> run_steps E reg sids st1)"

datatype stop_reason = Completed | TickCeiling | WallClock | TurnBudget | Aborted | StepFailure | NoRunnable

text \<open>The stop ladder, in the order of the code. \<open>Inl\<close> is an error that leaves the run.\<close>

definition ladder :: "'w env \<Rightarrow> int \<Rightarrow> 'w orch \<Rightarrow> (str + stop_reason option) \<times> 'w orch" where
  "ladder E wall st =
     (case tick (o_budget st) of
        Inl _ \<Rightarrow> (Inr (Some TickCeiling), st)
      | Inr (_, b) \<Rightarrow>
          (case e_elapsed E (o_world st) of
             (t, v) \<Rightarrow>
               (let st1 = st\<lparr>o_budget := b, o_world := v\<rparr>
                in if wall \<le> max 0 (t - wp_spawn_elapsed (o_pool st1)) then (Inr (Some WallClock), st1)
                   else if turns_left (o_budget st1) = 0 then (Inr (Some TurnBudget), st1)
                   else (case e_aborted E (o_world st1) of
                           (Inl e, v') \<Rightarrow> (Inl e, st1\<lparr>o_world := v'\<rparr>)
                         | (Inr True, v') \<Rightarrow> (Inr (Some Aborted), st1\<lparr>o_world := v'\<rparr>)
                         | (Inr False, v') \<Rightarrow>
                             (let st2 = st1\<lparr>o_world := v'\<rparr>
                              in if plan_complete (o_plan st2) then (Inr (Some Completed), st2)
                                 else if has_failure (o_plan st2) then (Inr (Some StepFailure), st2)
                                 else if ready_steps (o_plan st2) = [] then (Inr (Some NoRunnable), st2)
                                 else (Inr None, st2))))))"

section \<open>What a step may cost\<close>

text \<open>
  From one run state to a later one: at most \<open>n\<close> turns spent, every dispatch that reached
  an agent paid for, ticks and caps untouched.
\<close>

definition costs :: "nat \<Rightarrow> 'w orch \<Rightarrow> 'w orch \<Rightarrow> bool" where
  "costs n a b \<longleftrightarrow>
     unat (turns_left (o_budget b)) \<le> unat (turns_left (o_budget a)) \<and>
     unat (turns_left (o_budget a)) \<le> unat (turns_left (o_budget b)) + n \<and>
     length (o_sent b) + unat (turns_left (o_budget b)) \<le> length (o_sent a) + unat (turns_left (o_budget a)) \<and>
     ticks_left (o_budget b) = ticks_left (o_budget a) \<and> budget_caps (o_budget b) = budget_caps (o_budget a)"

lemma costs_refl [simp]: "costs n a a"
  by (simp add: costs_def)

lemma costs_trans: "costs m a b \<Longrightarrow> costs n b c \<Longrightarrow> costs (m + n) a c"
  by (auto simp: costs_def)

lemma costs_le: "costs m a b \<Longrightarrow> m \<le> n \<Longrightarrow> costs n a b"
  by (auto simp: costs_def)

lemma costs_frame:
  "o_budget b' = o_budget b \<Longrightarrow> o_sent b' = o_sent b \<Longrightarrow> costs n a b' \<longleftrightarrow> costs n a b"
  by (simp add: costs_def)

lemma costs_on_step [simp]: "costs n a (on_step sid f b) \<longleftrightarrow> costs n a b"
  by (rule costs_frame) (simp_all add: on_step_def)

text \<open>What stays of the plan: everything but statuses, results and counters.\<close>

definition outline :: "plan \<Rightarrow> (str \<times> str \<times> str \<times> str list \<times> bool) list" where
  "outline p = map (\<lambda>s. (s_id s, s_role s, s_task s, s_deps s, s_review s)) (steps p)"

definition statuses :: "plan \<Rightarrow> step_status list" where
  "statuses p = map s_status (steps p)"

lemma dispatch_frame:
  "dispatch_and_wait E w task st = (r, st') \<Longrightarrow> costs 1 st st' \<and> o_plan st' = o_plan st \<and> o_pool st' = o_pool st"
proof -
  assume d: "dispatch_and_wait E w task st = (r, st')"
  show ?thesis
  proof (cases "spend_turn (o_budget st)")
    case (Inl e)
    with d show ?thesis by (simp add: dispatch_and_wait_def)
  next
    case (Inr p)
    then obtain n b where p: "spend_turn (o_budget st) = Inr (n, b)" by (cases p) auto
    have "unat (turns_left (o_budget st)) = Suc (unat (turns_left b))" by (rule turns.spend_decreases [OF p])
    with d p spend_turn_frame [OF p] show ?thesis
      by (auto simp: dispatch_and_wait_def costs_def split: prod.splits sum.splits bool.splits)
  qed
qed

lemma dispatch_broke: "dispatch_and_wait E w task st = (Inr x, st') \<Longrightarrow> turns_left (o_budget st) \<noteq> 0"
  by (auto simp: dispatch_and_wait_def spend_turn_def split: if_splits)

lemma resolve_worker_frame:
  "resolve_worker E n st = (r, st') \<Longrightarrow> costs 0 st st' \<and> o_plan st' = o_plan st \<and> o_sent st' = o_sent st \<and> o_budget st' = o_budget st"
  by (auto simp: resolve_worker_def costs_def Let_def split: prod.splits)

lemma outline_step_mut:
  "(\<And>s. (s_id (f s), s_role (f s), s_task (f s), s_deps (f s), s_review (f s)) =
      (s_id s, s_role s, s_task s, s_deps s, s_review s)) \<Longrightarrow> outline (step_mut i f p) = outline p"
  by (simp add: outline_def step_mut_def map_update_first)

lemma statuses_step_mut: "(\<And>s. s_status (f s) = s_status s) \<Longrightarrow> statuses (step_mut i f p) = statuses p"
  by (simp add: statuses_def step_mut_def map_update_first)

lemma review_loop_frame:
  "review_loop E reg s w mx cycles current st = (r, st') \<Longrightarrow>
     costs (2 * (unat mx - unat cycles)) st st' \<and> outline (o_plan st') = outline (o_plan st) \<and>
     statuses (o_plan st') = statuses (o_plan st)"
proof (induction E reg s w mx cycles current st arbitrary: r st' rule: review_loop.induct)
  case (1 E reg s w mx cycles current st)
  let ?upd = "on_step (s_id s) (\<lambda>x. x\<lparr>s_review_cycles := cycles + 1\<rparr>)"
  have upd: "outline (o_plan (?upd a)) = outline (o_plan a)" "statuses (o_plan (?upd a)) = statuses (o_plan a)" for a :: "'a orch"
    by (simp_all add: on_step_def outline_step_mut statuses_step_mut)
  show ?case
  proof (cases "cycles < mx")
    case False
    with "1.prems" show ?thesis by (simp add: review_loop.simps)
  next
    case True
    then have m: "2 * (unat mx - unat (cycles + 1)) + 2 = 2 * (unat mx - unat cycles)"
      using unat_plus_1 [of cycles mx] by (simp add: word_less_nat_alt)
    obtain ra st1 where ra: "resolve_worker E ''reviewer'' st = (ra, st1)" by fastforce
    note f1 = resolve_worker_frame [OF ra]
    show ?thesis
    proof (cases ra)
      case (Inl e)
      with "1.prems" True ra f1 show ?thesis by (auto simp: review_loop.simps [of E] intro: costs_le)
    next
      case (Inr reviewer)
      obtain rb st2 where rb: "dispatch_and_wait E reviewer (review_text reg s current) st1 = (rb, st2)" by fastforce
      note f2 = dispatch_frame [OF rb]
      have c2: "costs 1 st st2" using f1 f2 costs_trans [of 0 st st1 1 st2] by simp
      show ?thesis
      proof (cases rb)
        case (Inl e)
        with "1.prems" True ra rb \<open>ra = Inr reviewer\<close> f1 f2 c2 m show ?thesis
          by (auto simp: review_loop.simps [of E] intro: costs_le)
      next
        case rb': (Inr verdict)
        show ?thesis
        proof (cases "parse_review verdict")
          case Approve
          with "1.prems" True ra rb Inr rb' f1 f2 c2 m show ?thesis
            by (auto simp: review_loop.simps [of E] intro: costs_le)
        next
          case Unclear
          with "1.prems" True ra rb Inr rb' have "review_loop E reg s w mx (cycles + 1) current (?upd st2) = (r, st')"
            by (simp add: review_loop.simps [of E reg s w mx cycles])
          from "1.IH"(2) [OF True ra [symmetric] Inr rb [symmetric] rb' Unclear this]
          have ih: "costs (2 * (unat mx - unat (cycles + 1))) (?upd st2) st'"
            "outline (o_plan st') = outline (o_plan st)" "statuses (o_plan st') = statuses (o_plan st)"
            using f1 f2 upd by simp_all
          have "costs 1 st (?upd st2)" using c2 by simp
          from costs_trans [OF this ih(1)] ih m show ?thesis by (auto intro: costs_le)
        next
          case (Revise feedback)
          obtain rd st4 where rd: "dispatch_and_wait E w (revise_text reg s feedback current) (?upd st2) = (rd, st4)" by fastforce
          note f4 = dispatch_frame [OF rd]
          have "costs 1 st (?upd st2)" using c2 by simp
          then have c4: "costs 2 st st4" using f4 costs_trans [of 1 st "?upd st2" 1 st4] by (simp add: numeral_2_eq_2)
          have p4: "outline (o_plan st4) = outline (o_plan st)" "statuses (o_plan st4) = statuses (o_plan st)"
            using f1 f2 f4 upd by simp_all
          show ?thesis
          proof (cases rd)
            case (Inl e)
            with "1.prems" True ra rb Inr rb' Revise rd have "st' = st4"
              by (simp add: review_loop.simps [of E reg s w mx cycles] Let_def)
            with c4 p4 m show ?thesis by (auto intro: costs_le)
          next
            case rd': (Inr better)
            with "1.prems" True ra rb Inr rb' Revise rd have "review_loop E reg s w mx (cycles + 1) better st4 = (r, st')"
              by (simp add: review_loop.simps [of E reg s w mx cycles] Let_def)
            from "1.IH"(1) [OF True ra [symmetric] Inr rb [symmetric] rb' Revise refl rd [symmetric] rd' this]
            have ih: "costs (2 * (unat mx - unat (cycles + 1))) st4 st'"
              "outline (o_plan st') = outline (o_plan st)" "statuses (o_plan st') = statuses (o_plan st)"
              using p4 by simp_all
            from costs_trans [OF c4 ih(1)] ih m show ?thesis by (simp add: add.commute)
          qed
        qed
      qed
    qed
  qed
qed

section \<open>What a step does to the plan\<close>

lemma status_of_zip: "status_of p j = map_of (zip (plan_ids p) (statuses p)) j"
proof -
  have "map_option s_status (List.find (\<lambda>s. s_id s = j) ss) = map_of (zip (map s_id ss) (map s_status ss)) j" for ss
    by (induction ss) auto
  then show ?thesis by (simp add: status_of_def step_of_def plan_ids_def statuses_def)
qed

lemma outline_ids: "outline p = outline q \<Longrightarrow> plan_ids p = plan_ids q"
proof -
  assume o': "outline p = outline q"
  have "plan_ids r = map fst (outline r)" for r by (simp add: outline_def plan_ids_def comp_def)
  with o' show ?thesis by simp
qed

lemma outline_find:
  "map (\<lambda>s. (s_id s, s_role s, s_task s, s_deps s, s_review s)) xs = map (\<lambda>s. (s_id s, s_role s, s_task s, s_deps s, s_review s)) ys \<Longrightarrow>
     map_option s_deps (List.find (\<lambda>s. s_id s = i) xs) = map_option s_deps (List.find (\<lambda>s. s_id s = i) ys)"
proof (induction xs arbitrary: ys)
  case (Cons x xs)
  then obtain y ys' where "ys = y # ys'" by (cases ys) auto
  with Cons show ?case by auto
qed simp

lemma outline_deps: "outline p = outline q \<Longrightarrow> step_deps p = step_deps q"
proof
  fix i assume "outline p = outline q"
  then have "map_option s_deps (step_of p i) = map_option s_deps (step_of q i)"
    unfolding step_of_def outline_def by (rule outline_find)
  then show "step_deps p i = step_deps q i"
    by (cases "step_of p i"; cases "step_of q i") (auto simp: step_deps_def)
qed

lemma status_of_cong: "outline p = outline q \<Longrightarrow> statuses p = statuses q \<Longrightarrow> status_of p = status_of q"
  using outline_ids [of p q] by (simp add: status_of_zip fun_eq_iff)

lemma status_of_step_mut:
  "(\<And>s. s_id (f s) = s_id s) \<Longrightarrow>
     status_of (step_mut i f p) j = (if j = i then map_option (\<lambda>s. s_status (f s)) (step_of p i) else status_of p j)"
proof (cases "j = i")
  case True
  assume "\<And>s. s_id (f s) = s_id s"
  then show ?thesis using True
    by (simp add: status_of_def step_mut_def step_of_def find_update_first_same option.map_comp comp_def)
next
  case False
  assume "\<And>s. s_id (f s) = s_id s"
  then have "List.find (\<lambda>s. s_id s = j) (update_first (\<lambda>s. s_id s = i) f (steps p)) = List.find (\<lambda>s. s_id s = j) (steps p)"
    using False by (intro find_update_first_other) auto
  with False show ?thesis by (simp add: status_of_def step_mut_def step_of_def)
qed

lemma save_step_frame:
  "save_step E st = (r, st') \<Longrightarrow> o_plan st' = o_plan st \<and> o_budget st' = o_budget st \<and> o_sent st' = o_sent st"
  by (auto simp: save_step_def split: prod.splits)

lemma collect_step_frame:
  "o_plan (collect_step E w st) = o_plan st \<and> o_budget (collect_step E w st) = o_budget st \<and> o_sent (collect_step E w st) = o_sent st"
  by (auto simp: collect_step_def Let_def split: prod.splits)

lemma finish_step_frame:
  assumes "finish_step E reg sid w reply st = (r, st')"
  shows "costs (2 * unat (max_review_cycles (budget_caps (o_budget st)))) st st' \<and>
    outline (o_plan st') = outline (o_plan st) \<and> statuses (o_plan st') = statuses (o_plan st)"
proof (cases "step_of (o_plan st) sid")
  case None
  with assms show ?thesis by (simp add: finish_step_def)
next
  case (Some s)
  show ?thesis
  proof (cases "s_review s")
    case True
    with assms Some have "review_loop E reg s w (max_review_cycles (budget_caps (o_budget st))) 0 reply st = (r, st')"
      by (simp add: finish_step_def)
    from review_loop_frame [OF this] show ?thesis by simp
  next
    case False
    with assms Some show ?thesis by (simp add: finish_step_def)
  qed
qed

definition step_cost :: "'w orch \<Rightarrow> nat" where
  "step_cost st = 1 + 2 * unat (max_review_cycles (budget_caps (o_budget st)))"

text \<open>One step: its own status ends as failed or done (running if the run is left), no other changes.\<close>

lemma run_step_frame:
  assumes r: "run_step E reg sid st = (r, st')" and k: "status_of (o_plan st) sid \<noteq> None"
  shows "costs (step_cost st) st st' \<and> outline (o_plan st') = outline (o_plan st) \<and>
    (\<forall>j. j \<noteq> sid \<longrightarrow> status_of (o_plan st') j = status_of (o_plan st) j) \<and>
    status_of (o_plan st') sid \<in> Some ` (case r of Inl _ \<Rightarrow> {Running, StepDone, StepFailed} | Inr _ \<Rightarrow> {StepDone, StepFailed})"
proof -
  obtain s where s: "step_of (o_plan st) sid = Some s" using k by (auto simp: status_of_def)
  let ?set = "\<lambda>st X. on_step sid (\<lambda>x. x\<lparr>s_status := X\<rparr>) st"
  have set: "outline (o_plan (?set a X)) = outline (o_plan a)"
    "status_of (o_plan (?set a X)) j = (if j = sid then map_option (\<lambda>_. X) (step_of (o_plan a) sid) else status_of (o_plan a) j)"
    for a :: "'a orch" and X j
    by (simp_all add: on_step_def outline_step_mut status_of_step_mut)
  have known: "step_of (o_plan a) sid \<noteq> None" if "outline (o_plan a) = outline (o_plan st)" for a :: "'a orch"
    using s outline_ids [OF that] step_of_None_iff by (metis option.distinct(1))
  obtain ra st1 where ra: "resolve_worker E (s_role s) st = (ra, st1)" by fastforce
  note f1 = resolve_worker_frame [OF ra]
  show ?thesis
  proof (cases ra)
    case (Inl e)
    then have "r = Inr ()" "st' = ?set st1 StepFailed" using r s ra by (simp_all add: run_step_def)
    with f1 set s show ?thesis by (auto intro: costs_le)
  next
    case (Inr w)
    let ?go = "\<lambda>x. x\<lparr>s_status := Running, s_attempts := s_attempts x + 1\<rparr>"
    define st2 where "st2 = on_step sid ?go st1"
    have st2: "costs 0 st st2" "outline (o_plan st2) = outline (o_plan st)"
      "status_of (o_plan st2) j = (if j = sid then Some Running else status_of (o_plan st) j)" for j
      using f1 s by (simp_all add: st2_def) (simp_all add: on_step_def outline_step_mut status_of_step_mut)
    obtain rb st3 where rb: "dispatch_and_wait E w (framed_task E reg (o_plan st2) s) st2 = (rb, st3)" by fastforce
    note f3 = dispatch_frame [OF rb]
    have c3: "costs 1 st st3" using f3 st2(1) costs_trans [of 0 st st2 1 st3] by simp
    show ?thesis
    proof (cases rb)
      case (Inl e)
      then have "save_step E (?set st3 StepFailed) = (r, st')"
        using r s ra \<open>ra = Inr w\<close> rb by (simp add: run_step_def st2_def Let_def)
      from save_step_frame [OF this] have b: "o_plan st' = o_plan (?set st3 StepFailed)" and
        "o_budget st' = o_budget st3" "o_sent st' = o_sent st3" by (simp_all add: on_step_def)
      then have "costs 1 st st'" using c3 by (simp add: costs_def)
      moreover have "status_of (o_plan st') j = (if j = sid then Some StepFailed else status_of (o_plan st) j)" for j
        using known [of st3] f3 st2 by (auto simp: b set)
      moreover have "outline (o_plan st') = outline (o_plan st)" using f3 st2(2) by (simp add: b set)
      ultimately show ?thesis by (auto simp: step_cost_def intro: costs_le split: sum.split)
    next
      case rb': (Inr reply)
      obtain rc st4 where rc: "finish_step E reg sid w reply st3 = (rc, st4)" by fastforce
      note f4 = finish_step_frame [OF rc]
      have caps: "budget_caps (o_budget st3) = budget_caps (o_budget st)" using c3 by (simp add: costs_def)
      have c4: "costs (step_cost st) st st4"
        using costs_trans [OF c3 conjunct1 [OF f4]] by (simp add: step_cost_def caps)
      have s4: "status_of (o_plan st4) j = (if j = sid then Some Running else status_of (o_plan st) j)" for j
        using status_of_cong [of "o_plan st4" "o_plan st3"] f4 f3 st2(3) by simp
      have o4: "outline (o_plan st4) = outline (o_plan st)" using f4 f3 st2(2) by simp
      show ?thesis
      proof (cases rc)
        case (Inl e)
        then have "r = Inl e" "st' = st4" using r s ra Inr rb rb' rc by (simp_all add: run_step_def st2_def Let_def)
        with c4 s4 o4 show ?thesis by auto
      next
        case rc': (Inr result)
        let ?done = "on_step sid (\<lambda>x. x\<lparr>s_result := Some result, s_status := StepDone\<rparr>) st4"
        have "save_step E (collect_step E w ?done) = (r, st')"
          using r s ra Inr rb rb' rc rc' by (simp add: run_step_def st2_def Let_def)
        from save_step_frame [OF this] collect_step_frame [of E w ?done] have
          b: "o_plan st' = o_plan ?done" "o_budget st' = o_budget st4" "o_sent st' = o_sent st4"
          by (simp_all add: on_step_def)
        have "costs (step_cost st) st st'" using c4 b(2,3) by (simp add: costs_def)
        moreover have "outline (o_plan st') = outline (o_plan st)"
          using o4 by (simp add: b(1)) (simp add: on_step_def outline_step_mut)
        moreover have "status_of (o_plan st') j = (if j = sid then Some StepDone else status_of (o_plan st) j)" for j
          using known [OF o4] s4 by (auto simp: b(1)) (auto simp: on_step_def status_of_step_mut)
        ultimately show ?thesis by (auto split: sum.split)
      qed
    qed
  qed
qed

section \<open>The loop, to its end\<close>

lemma ladder_frame:
  "ladder E wall st = (r, st') \<Longrightarrow> o_plan st' = o_plan st \<and> o_pool st' = o_pool st \<and> o_sent st' = o_sent st \<and>
     turns_left (o_budget st') = turns_left (o_budget st) \<and> budget_caps (o_budget st') = budget_caps (o_budget st) \<and>
     (r = Inr None \<longrightarrow> unat (ticks_left (o_budget st)) = Suc (unat (ticks_left (o_budget st'))) \<and>
        \<not> plan_complete (o_plan st) \<and> \<not> has_failure (o_plan st)) \<and>
     (r = Inr (Some Completed) \<longrightarrow> plan_complete (o_plan st)) \<and>
     (r = Inr (Some TurnBudget) \<longrightarrow> turns_left (o_budget st) = 0)"
proof -
  assume l: "ladder E wall st = (r, st')"
  show ?thesis
  proof (cases "tick (o_budget st)")
    case (Inl e)
    with l show ?thesis by (auto simp: ladder_def)
  next
    case (Inr p)
    then obtain n b where p: "tick (o_budget st) = Inr (n, b)" by (cases p) auto
    have "unat (ticks_left (o_budget st)) = Suc (unat (ticks_left b))" by (rule ticks.spend_decreases [OF p])
    with l p tick_frame [OF p] show ?thesis
      by (auto simp: ladder_def Let_def split: prod.splits if_splits sum.splits bool.splits)
  qed
qed

lemma run_steps_costs:
  "run_steps E reg sids st = (r, st') \<Longrightarrow> (\<forall>i\<in>set sids. status_of (o_plan st) i \<noteq> None) \<Longrightarrow>
     costs (length sids * step_cost st) st st' \<and> outline (o_plan st') = outline (o_plan st)"
proof (induction E reg sids st rule: run_steps.induct)
  case (2 E reg sid sids st)
  obtain ra st1 where ra: "run_step E reg sid st = (ra, st1)" by fastforce
  note f = run_step_frame [OF ra] 
  have f: "costs (step_cost st) st st1" "outline (o_plan st1) = outline (o_plan st)"
    using run_step_frame [OF ra] "2.prems"(2) by simp_all
  show ?case
  proof (cases ra)
    case (Inl e)
    with "2.prems"(1) ra f show ?thesis by (auto intro: costs_le)
  next
    case (Inr u)
    have "status_of (o_plan st1) i \<noteq> None \<longleftrightarrow> status_of (o_plan st) i \<noteq> None" for i
      using outline_ids [OF f(2)] step_of_None_iff by (simp add: status_of_def)
    moreover have "run_steps E reg sids st1 = (r, st')" using "2.prems"(1) ra Inr by simp
    moreover have "step_cost st1 = step_cost st" using f(1) by (simp add: costs_def step_cost_def)
    ultimately have ih: "costs (length sids * step_cost st) st1 st'" "outline (o_plan st') = outline (o_plan st1)"
      using "2.IH" [OF ra [symmetric] Inr] "2.prems"(2) by simp_all
    from costs_trans [OF f(1) ih(1)] ih(2) f(2) show ?thesis by (simp add: add.commute)
  qed
qed simp

lemma ready_known: "i \<in> set (map s_id (ready_steps p)) \<Longrightarrow> status_of p i \<noteq> None"
  using step_of_None_iff [of p i] by (auto simp: status_of_def ready_steps_def plan_ids_def)

function step_loop :: "'w env \<Rightarrow> registry \<Rightarrow> int \<Rightarrow> 'w orch \<Rightarrow> (str + stop_reason) \<times> 'w orch" where
  "step_loop E reg wall st =
     (case ladder E wall st of
        (Inl e, st1) \<Rightarrow> (Inl e, st1)
      | (Inr (Some stop), st1) \<Rightarrow> (Inr stop, st1)
      | (Inr None, st1) \<Rightarrow>
          (case run_steps E reg (map s_id (ready_steps (o_plan st1))) st1 of
             (Inl e, st2) \<Rightarrow> (Inl e, st2)
           | (Inr _, st2) \<Rightarrow> step_loop E reg wall st2))"
  by auto
termination
proof (relation "measure (\<lambda>(E, reg, wall, st). unat (ticks_left (o_budget st)))")
  fix E :: "'w env" and reg wall st ra st1 sa oa rb st2 u
  assume a: "(ra, st1) = ladder E wall st" "ra = Inr oa" "oa = None"
    and b: "(rb, st2) = run_steps E reg (map s_id (ready_steps (o_plan st1))) st1"
  have "unat (ticks_left (o_budget st)) = Suc (unat (ticks_left (o_budget st1)))"
    using ladder_frame [OF a(1) [symmetric]] a(2,3) by simp
  moreover have "ticks_left (o_budget st2) = ticks_left (o_budget st1)"
    using run_steps_costs [OF b [symmetric]] ready_known by (auto simp: costs_def)
  ultimately show "((E, reg, wall, st2), E, reg, wall, st) \<in> measure (\<lambda>(E, reg, wall, st). unat (ticks_left (o_budget st)))"
    by simp
qed simp

declare step_loop.simps [simp del]

section \<open>The whole run\<close>

definition coordinator_retry_task :: "str \<Rightarrow> str \<Rightarrow> registry \<Rightarrow> caps \<Rightarrow> str" where
  "coordinator_retry_task dash g reg c = coordinator_task g reg c @ newline @ newline @
     ''IMPORTANT: your previous reply could not be parsed. Reply with ONLY '' @
     ''the JSON object and nothing else '' @ dash @ '' no prose, no markdown fences, no code '' @
     ''block. Your reply must start with { and end with }.''"

datatype run_error =
    Failed_With str
  | Unresolved resolve_error
  | PlanningFailed parse_error str str
  | PlanTooLarge nat u32
  | Incomplete stop_reason

datatype deliverable = Files verify_outcome | Answer str

definition make_plan :: "'w env \<Rightarrow> registry \<Rightarrow> str \<Rightarrow> caps \<Rightarrow> 'w orch \<Rightarrow> (run_error + plan) \<times> 'w orch" where
  "make_plan E reg g c st =
     (case resolve_worker E ''coordinator'' st of
        (Inl e, st1) \<Rightarrow> (Inl (Unresolved e), st1)
      | (Inr coordinator, st1) \<Rightarrow>
          (case dispatch_and_wait E coordinator (coordinator_task g reg c) st1 of
             (Inl e, st2) \<Rightarrow> (Inl (Failed_With e), st2)
           | (Inr reply, st2) \<Rightarrow>
               (case parse_plan (e_decode E) g reply reg of
                  Inr p \<Rightarrow> (Inr p, st2)
                | Inl _ \<Rightarrow>
                    (let give_up = (\<lambda>reply st. case parse_plan (e_decode E) g reply reg of
                           Inr p \<Rightarrow> (Inr p, st)
                         | Inl e \<Rightarrow> (Inl (PlanningFailed e (w_agent coordinator) reply), st))
                     in if turns_left (o_budget st2) = 0 then give_up reply st2
                        else case e_aborted E (o_world st2) of
                          (Inl e, v) \<Rightarrow> (Inl (Failed_With e), st2\<lparr>o_world := v\<rparr>)
                        | (Inr True, v) \<Rightarrow> give_up reply (st2\<lparr>o_world := v\<rparr>)
                        | (Inr False, v) \<Rightarrow>
                            (case dispatch_and_wait E coordinator
                                    (coordinator_retry_task (e_dash E) g reg c) (st2\<lparr>o_world := v\<rparr>) of
                               (Inl e, st3) \<Rightarrow> (Inl (Failed_With e), st3)
                             | (Inr reply', st3) \<Rightarrow> give_up reply' st3)))))"

fun verify_rounds :: "'w env \<Rightarrow> str \<Rightarrow> worker \<Rightarrow> nat \<Rightarrow> str \<Rightarrow> 'w orch \<Rightarrow> verify_outcome \<times> 'w orch" where
  "verify_rounds E g w 0 last_fail st = (VFailed last_fail, st)"
| "verify_rounds E g w (Suc n) last_fail st =
     (if turns_left (o_budget st) = 0 then
        (Inconclusive ''turn budget ran out before verification finished'', st)
      else case dispatch_and_wait E w (verify_task (e_dash E) g (e_out_remote E)) st of
          (Inl e, st1) \<Rightarrow> (Inconclusive (''verifier dispatch failed: '' @ e), st1)
        | (Inr reply, st1) \<Rightarrow>
            (let st2 = st1\<lparr>o_world := snd (e_collect E (w_agent w) (o_world st1))\<rparr>
             in case parse_verify reply of
                  Some True \<Rightarrow> (Passed, st2)
                | Some False \<Rightarrow> verify_rounds E g w n (verify_detail (e_ellipsis E) reply) st2
                | None \<Rightarrow> (Inconclusive ''verifier did not report PASS or FAIL'', st2)))"

text \<open>\<open>for _ in 0..=caps.max_review_cycles\<close>.\<close>

definition run_verification :: "'w env \<Rightarrow> str \<Rightarrow> caps \<Rightarrow> 'w orch \<Rightarrow> verify_outcome \<times> 'w orch" where
  "run_verification E g c st =
     (case o_builder st of
        None \<Rightarrow> (Inconclusive ''no agent produced runnable files'', st)
      | Some a \<Rightarrow> verify_rounds E g \<lparr> w_agent = a, w_model = None \<rparr>
          (Suc (unat (max_review_cycles c))) ''still failing'' st)"

text \<open>The prompt for a prose answer; \<open>fmt\<close> is the constant \<open>DELIVERABLE_FORMAT\<close>.\<close>

definition synth_text :: "registry \<Rightarrow> str \<Rightarrow> str \<Rightarrow> plan \<Rightarrow> str" where
  "synth_text reg fmt g p =
     (let summary = ''Goal:'' @ newline @ g @ newline @ newline @ ''Completed step results:'' @ newline @
        concat (map (\<lambda>s. case s_result s of None \<Rightarrow> []
          | Some r \<Rightarrow> newline @ ''## '' @ s_id s @ '' ('' @ s_role s @ '')'' @ newline @ r @ newline) (steps p)) @ fmt
      in or_keep (frame_task reg ''synthesizer'' summary) summary)"

definition clean_answer :: "str \<Rightarrow> str" where
  "clean_answer reply = trim (replace_all marker_blocked [] (replace_all marker_done [] reply))"

definition deliver :: "'w env \<Rightarrow> registry \<Rightarrow> str \<Rightarrow> str \<Rightarrow> caps \<Rightarrow> bool \<Rightarrow> 'w orch \<Rightarrow> (run_error + deliverable) \<times> 'w orch" where
  "deliver E reg fmt g c verify st =
     (if 0 < o_collected st \<and> 0 < e_staged E (o_world st) then
        (case (if verify then run_verification E g c st else (Skipped, st)) of
           (verdict, st1) \<Rightarrow> (Inr (Files verdict), st1))
      else case resolve_worker E ''synthesizer'' st of
          (Inl e, st1) \<Rightarrow> (Inl (Unresolved e), st1)
        | (Inr w, st1) \<Rightarrow>
            (case dispatch_and_wait E w (synth_text reg fmt g (o_plan st1)) st1 of
               (Inl e, st2) \<Rightarrow> (Inl (Failed_With e), st2)
             | (Inr reply, st2) \<Rightarrow> (Inr (Answer (clean_answer reply)), st2)))"

definition run_inner ::
  "'w env \<Rightarrow> registry \<Rightarrow> str \<Rightarrow> str \<Rightarrow> caps \<Rightarrow> bool \<Rightarrow> 'w orch \<Rightarrow> (run_error + deliverable) \<times> 'w orch" where
  "run_inner E reg fmt g c verify st0 =
     (let st = st0\<lparr>o_budget := new_budget c, o_collected := 0, o_builder := None, o_builder_files := 0\<rparr>
      in case make_plan E reg g c st of
           (Inl e, st1) \<Rightarrow> (Inl e, st1)
         | (Inr p, st1) \<Rightarrow>
             if \<not> admits_plan (o_budget st1) (word_of_nat (length (steps p))) then
               (Inl (PlanTooLarge (length (steps p)) (turns_left (o_budget st1))), st1)
             else case save_step E (st1\<lparr>o_plan := p\<rparr>) of
                 (Inl e, st2) \<Rightarrow> (Inl (Failed_With e), st2)
               | (Inr _, st2) \<Rightarrow>
                   (case step_loop E reg (uint (max_wall_seconds c) * 1000000000) st2 of
                      (Inl e, st3) \<Rightarrow> (Inl (Failed_With e), st3)
                    | (Inr stop, st3) \<Rightarrow>
                        (case save_step E st3 of
                           (Inl e, st4) \<Rightarrow> (Inl (Failed_With e), st4)
                         | (Inr _, st4) \<Rightarrow>
                             if \<not> plan_complete (o_plan st4) then (Inl (Incomplete stop), st4)
                             else deliver E reg fmt g c verify st4)))"

section \<open>Every dispatch is paid for\<close>

definition paid :: "'w orch \<Rightarrow> 'w orch \<Rightarrow> bool" where
  "paid a b \<longleftrightarrow> length (o_sent b) + unat (turns_left (o_budget b)) \<le> length (o_sent a) + unat (turns_left (o_budget a)) \<and>
     unat (turns_left (o_budget b)) \<le> unat (turns_left (o_budget a)) \<and>
     budget_caps (o_budget b) = budget_caps (o_budget a)"

lemma paid_refl [simp]: "paid a a"
  by (simp add: paid_def)

lemma paid_trans: "paid a b \<Longrightarrow> paid b c \<Longrightarrow> paid a c"
  by (auto simp: paid_def)

lemma paid_frame: "o_budget b' = o_budget b \<Longrightarrow> o_sent b' = o_sent b \<Longrightarrow> paid a b' \<longleftrightarrow> paid a b"
  by (simp add: paid_def)

lemma paid_frame_left: "o_budget a' = o_budget a \<Longrightarrow> o_sent a' = o_sent a \<Longrightarrow> paid a' b \<longleftrightarrow> paid a b"
  by (simp add: paid_def)

lemma costs_paid: "costs n a b \<Longrightarrow> paid a b"
  by (simp add: costs_def paid_def)

lemma dispatch_paid: "dispatch_and_wait E w task st = (r, st') \<Longrightarrow> paid st st'"
  using dispatch_frame costs_paid by blast

lemma resolve_worker_paid: "resolve_worker E n st = (r, st') \<Longrightarrow> paid st st'"
  using resolve_worker_frame costs_paid by blast

lemma step_loop_paid: "step_loop E reg wall st = (r, st') \<Longrightarrow> paid st st' \<and> outline (o_plan st') = outline (o_plan st)"
proof (induction E reg wall st arbitrary: r st' rule: step_loop.induct)
  case (1 E reg wall st)
  obtain ra st1 where l: "ladder E wall st = (ra, st1)" by fastforce
  note f = ladder_frame [OF l]
  have p1: "paid st st1" using f by (simp add: paid_def)
  show ?case
  proof (cases "ra = Inr None")
    case False
    then have "st' = st1" using "1.prems" l by (auto simp: step_loop.simps [of E] split: sum.splits option.splits)
    with p1 f show ?thesis by simp
  next
    case True
    obtain rb st2 where b: "run_steps E reg (map s_id (ready_steps (o_plan st1))) st1 = (rb, st2)" by fastforce
    have s: "paid st1 st2" "outline (o_plan st2) = outline (o_plan st1)"
      using run_steps_costs [OF b] ready_known costs_paid by blast+
    show ?thesis
    proof (cases rb)
      case (Inl e)
      then have "st' = st2" using "1.prems" l b True by (simp add: step_loop.simps [of E])
      with p1 s f show ?thesis by (auto intro: paid_trans)
    next
      case (Inr u)
      then have "step_loop E reg wall st2 = (r, st')" using "1.prems" l b True by (simp add: step_loop.simps [of E reg wall st])
      from "1.IH" [OF l [symmetric] True refl b [symmetric] Inr this] p1 s f show ?thesis
        by (auto intro: paid_trans)
    qed
  qed
qed

lemma make_plan_paid: "make_plan E reg g c st = (r, st') \<Longrightarrow> paid st st'"
proof -
  assume m: "make_plan E reg g c st = (r, st')"
  obtain ra st1 where ra: "resolve_worker E ''coordinator'' st = (ra, st1)" by fastforce
  show ?thesis
  proof (cases ra)
    case (Inl e)
    with m ra resolve_worker_paid [OF ra] show ?thesis by (simp add: make_plan_def)
  next
    case (Inr co)
    obtain rb st2 where rb: "dispatch_and_wait E co (coordinator_task g reg c) st1 = (rb, st2)" by fastforce
    have p2: "paid st st2" using paid_trans resolve_worker_paid [OF ra] dispatch_paid [OF rb] by blast
    have p2': "paid st (st2\<lparr>o_world := v\<rparr>)" for v using p2 by (simp add: paid_def)
    have p3: "paid st st3" if "dispatch_and_wait E co t (st2\<lparr>o_world := v\<rparr>) = (rc, st3)" for t v rc st3
      using paid_trans [OF p2' dispatch_paid [OF that]] .
    show ?thesis using m ra Inr rb p2 p2' p3
      by (auto simp: make_plan_def Let_def split: sum.splits if_splits bool.splits prod.splits)
  qed
qed

lemma verify_rounds_paid: "verify_rounds E g w n f st = (r, st') \<Longrightarrow> paid st st'"
proof (induction E g w n f st arbitrary: r st' rule: verify_rounds.induct)
  case (2 E g w n f st)
  obtain rb st1 where rb: "dispatch_and_wait E w (verify_task (e_dash E) g (e_out_remote E)) st = (rb, st1)" by fastforce
  note p = dispatch_paid [OF rb]
  let ?st2 = "st1\<lparr>o_world := snd (e_collect E (w_agent w) (o_world st1))\<rparr>"
  have p2: "paid st ?st2" using p by (simp add: paid_def)
  show ?case
  proof (cases "turns_left (o_budget st) = 0")
    case True
    with "2.prems" show ?thesis by simp
  next
    case False
    show ?thesis
    proof (cases rb)
      case (Inl e)
      with "2.prems" rb p False show ?thesis by simp
    next
      case (Inr reply)
      show ?thesis
      proof (cases "parse_verify reply = Some False")
        case True
        then have "verify_rounds E g w n (verify_detail (e_ellipsis E) reply) ?st2 = (r, st')"
          using "2.prems" rb False Inr by (simp add: Let_def)
        from "2.IH" [OF False rb [symmetric] Inr refl True _ this] p2 show ?thesis by (auto intro: paid_trans)
      next
        case f: False
        then have "st' = ?st2" using "2.prems" rb False Inr by (auto simp: Let_def split: option.splits bool.splits)
        with p2 show ?thesis by simp
      qed
    qed
  qed
qed simp

lemma deliver_paid: "deliver E reg fmt g c verify st = (r, st') \<Longrightarrow> paid st st'"
proof -
  assume d: "deliver E reg fmt g c verify st = (r, st')"
  have v: "paid st st1" if "run_verification E g c st = (x, st1)" for x st1
    using that by (cases "o_builder st") (auto simp only: run_verification_def option.case prod.inject paid_refl intro: verify_rounds_paid)
  have w: "paid st st2" if "resolve_worker E ''synthesizer'' st = (x, st1)" "dispatch_and_wait E w t st1 = (y, st2)" for x st1 w t y st2
    using paid_trans [OF resolve_worker_paid [OF that(1)] dispatch_paid [OF that(2)]] .
  show ?thesis using d v w resolve_worker_paid
    by (auto simp: deliver_def split: if_splits prod.splits sum.splits)
qed

lemma run_inner_paid:
  assumes "run_inner E reg fmt g c verify st0 = (r, st')"
  shows "paid (st0\<lparr>o_budget := new_budget c\<rparr>) st'"
proof -
  let ?st = "st0\<lparr>o_budget := new_budget c, o_collected := 0, o_builder := None, o_builder_files := 0\<rparr>"
  obtain ra st1 where a: "make_plan E reg g c ?st = (ra, st1)" by fastforce
  have p1: "paid ?st st1" by (rule make_plan_paid [OF a])
  have sv: "paid a b" if "save_step E a = (x, b)" for a b :: "'a orch" and x
    using save_step_frame [OF that] by (simp add: paid_def)
  have "paid ?st st'"
  proof (cases ra)
    case (Inl e)
    with assms a p1 show ?thesis by (simp add: run_inner_def)
  next
    case (Inr p)
    show ?thesis
    proof (cases "admits_plan (o_budget st1) (word_of_nat (length (steps p)))")
      case False
      with assms a Inr p1 show ?thesis by (simp add: run_inner_def)
    next
      case True
      obtain rb st2 where b: "save_step E (st1\<lparr>o_plan := p\<rparr>) = (rb, st2)" by fastforce
      have "paid ?st (st1\<lparr>o_plan := p\<rparr>)" using p1 by (simp add: paid_def)
      then have p2: "paid ?st st2" using sv [OF b] paid_trans by blast
      obtain rc st3 where c: "step_loop E reg (uint (max_wall_seconds c) * 1000000000) st2 = (rc, st3)" by fastforce
      have p3: "paid ?st st3" using paid_trans [OF p2] step_loop_paid [OF c] by blast
      obtain rd st4 where d: "save_step E st3 = (rd, st4)" by fastforce
      have p4: "paid ?st st4" using paid_trans [OF p3 sv [OF d]] .
      have "paid ?st st5" if "deliver E reg fmt g c verify st4 = (x, st5)" for x st5
        using paid_trans [OF p4 deliver_paid [OF that]] .
      with assms a Inr True b c d p2 p3 p4 show ?thesis
        by (auto simp: run_inner_def Let_def split: sum.splits if_splits)
    qed
  qed
  then show ?thesis by (simp add: paid_def)
qed

section \<open>Order and reserve\<close>

definition deps_first :: "plan \<Rightarrow> bool" where
  "deps_first p \<longleftrightarrow> (\<forall>i. status_of p i = Some StepDone \<longrightarrow>
     (\<forall>d\<in>set (step_deps p i). status_of p d = Some StepDone))"

definition waiting :: "plan \<Rightarrow> str set" where
  "waiting p = {i \<in> set (plan_ids p). status_of p i = Some Waiting}"

text \<open>Turns in reserve for every step that still waits.\<close>

definition reserve :: "'w orch \<Rightarrow> bool" where
  "reserve st \<longleftrightarrow> step_cost st * card (waiting (o_plan st)) < unat (turns_left (o_budget st))"

definition runnable :: "plan \<Rightarrow> str \<Rightarrow> bool" where
  "runnable p i \<longleftrightarrow> status_of p i = Some Waiting \<and> (\<forall>d\<in>set (step_deps p i). status_of p d = Some StepDone)"

lemma run_step_keeps:
  assumes r: "run_step E reg sid st = (r, st')" and rn: "runnable (o_plan st) sid"
  shows "reserve st \<Longrightarrow> reserve st'"
    and "deps_first (o_plan st) \<Longrightarrow> deps_first (o_plan st')"
    and "runnable (o_plan st) i \<Longrightarrow> i \<noteq> sid \<Longrightarrow> runnable (o_plan st') i"
proof -
  have w: "status_of (o_plan st) sid = Some Waiting" using rn by (simp add: runnable_def)
  then have k: "status_of (o_plan st) sid \<noteq> None" by simp
  note f = run_step_frame [OF r k]
  have c: "costs (step_cost st) st st'" and o': "outline (o_plan st') = outline (o_plan st)"
    and oth: "\<And>j. j \<noteq> sid \<Longrightarrow> status_of (o_plan st') j = status_of (o_plan st) j"
    and nw: "status_of (o_plan st') sid \<noteq> Some Waiting"
    using f by (auto split: sum.splits)
  have ids: "plan_ids (o_plan st') = plan_ids (o_plan st)" using o' by (rule outline_ids)
  have deps: "step_deps (o_plan st') = step_deps (o_plan st)" using o' by (rule outline_deps)
  have "sid \<in> set (plan_ids (o_plan st))" using k step_of_None_iff by (auto simp: status_of_def)
  then have "waiting (o_plan st) = insert sid (waiting (o_plan st'))" and "sid \<notin> waiting (o_plan st')"
    using w nw oth by (auto simp: waiting_def ids) (metis oth)+
  moreover have "finite (waiting (o_plan st'))" by (simp add: waiting_def)
  ultimately have "card (waiting (o_plan st)) = Suc (card (waiting (o_plan st')))" by simp
  then show "reserve st \<Longrightarrow> reserve st'"
    using c by (auto simp: reserve_def costs_def step_cost_def)
  have stays: "status_of (o_plan st') d = Some StepDone" if "status_of (o_plan st) d = Some StepDone" for d
    using oth [of d] w that by (cases "d = sid") auto
  show "deps_first (o_plan st) \<Longrightarrow> deps_first (o_plan st')"
    unfolding deps_first_def deps using rn stays oth by (metis runnable_def)
  show "runnable (o_plan st) i \<Longrightarrow> i \<noteq> sid \<Longrightarrow> runnable (o_plan st') i"
    using oth stays by (auto simp: runnable_def deps)
qed

lemma run_steps_keeps:
  assumes "run_steps E reg sids st = (r, st')" and "distinct sids" and "\<forall>i\<in>set sids. runnable (o_plan st) i"
  shows "(reserve st \<longrightarrow> reserve st') \<and> (deps_first (o_plan st) \<longrightarrow> deps_first (o_plan st'))"
  using assms
proof (induction E reg sids st rule: run_steps.induct)
  case (2 E reg sid sids st)
  obtain ra st1 where ra: "run_step E reg sid st = (ra, st1)" by fastforce
  have rn: "runnable (o_plan st) sid" using "2.prems"(3) by simp
  note k = run_step_keeps [OF ra rn]
  show ?case
  proof (cases ra)
    case (Inl e)
    with "2.prems"(1) ra have "st' = st1" by simp
    with k(1,2) show ?thesis by blast
  next
    case (Inr u)
    have "\<forall>i\<in>set sids. runnable (o_plan st1) i" using k(3) "2.prems"(2,3) by auto
    moreover have "run_steps E reg sids st1 = (r, st')" using "2.prems"(1) ra Inr by simp
    ultimately show ?thesis using "2.IH" [OF ra [symmetric] Inr] "2.prems"(2) k(1,2) by simp
  qed
qed simp

lemma ready_runnable:
  assumes d: "distinct (plan_ids p)"
  shows "distinct (map s_id (ready_steps p)) \<and> (\<forall>i\<in>set (map s_id (ready_steps p)). runnable p i)"
proof -
  have "distinct (map s_id (ready_steps p))"
    using d by (simp add: ready_steps_def plan_ids_def distinct_map_filter)
  moreover have "runnable p (s_id s)" if "s \<in> set (ready_steps p)" for s
  proof -
    have s: "s \<in> set (steps p)" using that by (simp add: ready_steps_def)
    with that step_of_distinct [OF d s] show ?thesis
      by (auto simp: runnable_def ready_steps_def status_of_def step_deps_def list_all_iff)
  qed
  ultimately show ?thesis by auto
qed

lemma step_loop_keeps:
  assumes "step_loop E reg wall st = (r, st')" and "distinct (plan_ids (o_plan st))"
  shows "(reserve st \<longrightarrow> reserve st' \<and> r \<noteq> Inr TurnBudget) \<and> (deps_first (o_plan st) \<longrightarrow> deps_first (o_plan st')) \<and>
    (r = Inr Completed \<longrightarrow> plan_complete (o_plan st'))"
  using assms
proof (induction E reg wall st arbitrary: r st' rule: step_loop.induct)
  case (1 E reg wall st)
  obtain ra st1 where l: "ladder E wall st = (ra, st1)" by fastforce
  note f = ladder_frame [OF l]
  have k1: "reserve st \<longrightarrow> reserve st1" "reserve st \<longrightarrow> ra \<noteq> Inr (Some TurnBudget)"
    using f by (auto simp: reserve_def step_cost_def)
  show ?case
  proof (cases "ra = Inr None")
    case False
    then have "st' = st1" "ra = map_sum id Some r"
      using "1.prems" l by (auto simp: step_loop.simps [of E] split: sum.splits option.splits)
    with k1 f show ?thesis by (cases r) auto
  next
    case True
    let ?ids = "map s_id (ready_steps (o_plan st1))"
    obtain rb st2 where b: "run_steps E reg ?ids st1 = (rb, st2)" by fastforce
    have d1: "distinct (plan_ids (o_plan st1))" using f "1.prems"(2) by simp
    have k2: "(reserve st1 \<longrightarrow> reserve st2) \<and> (deps_first (o_plan st1) \<longrightarrow> deps_first (o_plan st2))"
      using run_steps_keeps [OF b] ready_runnable [OF d1] by blast
    show ?thesis
    proof (cases rb)
      case (Inl e)
      then have "st' = st2" "r = Inl e" using "1.prems" l b True by (simp_all add: step_loop.simps [of E])
      with k1 k2 f show ?thesis by auto
    next
      case (Inr u)
      have "outline (o_plan st2) = outline (o_plan st1)"
        using run_steps_costs [OF b] ready_known by blast
      then have d2: "distinct (plan_ids (o_plan st2))" using d1 outline_ids by metis
      have "step_loop E reg wall st2 = (r, st')" using "1.prems" l b True Inr by (simp add: step_loop.simps [of E reg wall st])
      from "1.IH" [OF l [symmetric] True refl b [symmetric] Inr this d2] k1 k2 f show ?thesis by auto
    qed
  qed
qed

section \<open>Properties\<close>

text \<open>The state \<open>run_loop\<close> starts \<open>run_inner\<close> in: an empty plan, nothing sent.\<close>

definition fresh_run :: "worker_pool \<Rightarrow> 'w \<Rightarrow> 'w orch" where
  "fresh_run pool v = \<lparr> o_plan = \<lparr> goal = [], steps = [] \<rparr>, o_budget = new_budget default_caps, o_pool = pool,
     o_world = v, o_sent = [], o_collected = 0, o_builder = None, o_builder_files = 0 \<rparr>"

text \<open>
  C1. The cost ceiling of a whole run: whatever the agents answer, whatever fails and
  however often steps are reviewed, the tasks sent to agents in one run never exceed the
  clamped \<open>max_total_turns\<close>, and so never 200; each one was charged before it was sent.
\<close>

theorem run_turns_bounded:
  "let st' = snd (run_inner E reg fmt g c verify (fresh_run pool v))
   in length (o_sent st') + unat (turns_left (o_budget st')) \<le> min (unat (max_total_turns c)) 200"
proof -
  obtain r st' where r: "run_inner E reg fmt g c verify (fresh_run pool v) = (r, st')" by fastforce
  have "unat (max_total_turns (clamp_to_ceiling c)) = min (unat (max_total_turns c)) 200"
    by (simp add: clamp_to_ceiling_def ceiling_caps_def unat_min)
  with run_inner_paid [OF r] have "length (o_sent st') + unat (turns_left (o_budget st')) \<le> min (unat (max_total_turns c)) 200"
    by (simp add: paid_def fresh_run_def)
  then show ?thesis unfolding r Let_def snd_conv .
qed

lemma make_plan_facts:
  "make_plan E reg g c st = (r, st') \<Longrightarrow> o_plan st' = o_plan st \<and>
     (\<forall>p. r = Inr p \<longrightarrow> (\<exists>reply. parse_plan (e_decode E) g reply reg = Inr p))"
proof -
  assume m: "make_plan E reg g c st = (r, st')"
  obtain ra st1 where ra: "resolve_worker E ''coordinator'' st = (ra, st1)" by fastforce
  note f1 = resolve_worker_frame [OF ra]
  show ?thesis
  proof (cases ra)
    case (Inl e)
    with m ra f1 show ?thesis by (auto simp: make_plan_def)
  next
    case (Inr co)
    obtain rb st2 where rb: "dispatch_and_wait E co (coordinator_task g reg c) st1 = (rb, st2)" by fastforce
    have p3: "o_plan st3 = o_plan st" if "dispatch_and_wait E co t (st2\<lparr>o_world := v\<rparr>) = (rc, st3)" for t v rc st3
      using dispatch_frame [OF that] dispatch_frame [OF rb] f1 by simp
    show ?thesis using m ra Inr rb p3 f1 dispatch_frame [OF rb]
      by (auto simp: make_plan_def Let_def split: sum.splits if_splits bool.splits prod.splits)
  qed
qed

lemma parsed_plan_waits:
  assumes "parse_plan decode g reply reg = Inr p"
  shows "validate_plan reg p = Inr () \<and> (\<forall>i. status_of p i = Some Waiting \<or> status_of p i = None) \<and>
    (\<exists>json spec. decode json = Inr spec \<and> length (steps p) = length spec)"
proof -
  obtain json spec where e: "decode json = Inr spec" "p = plan_from_spec g spec" "validate_plan reg p = Inr ()"
    using assms by (auto simp: parse_plan_def Let_def split: option.splits sum.splits)
  have "s_status s = Waiting" if "step_of p i = Some s" for i s
    using step_of_Some [OF that] by (auto simp: e(2) plan_from_spec_def)
  then have "status_of p i = Some Waiting \<or> status_of p i = None" for i
    by (cases "step_of p i") (auto simp: status_of_def)
  with e show ?thesis by (auto simp: plan_from_spec_def)
qed

lemma deliver_plan: "deliver E reg fmt g c verify st = (r, st') \<Longrightarrow> o_plan st' = o_plan st"
proof -
  assume d: "deliver E reg fmt g c verify st = (r, st')"
  have v: "verify_rounds E g w n f st = (x, st1) \<Longrightarrow> o_plan st1 = o_plan st" for w n f st x st1
  proof (induction E g w n f st arbitrary: x st1 rule: verify_rounds.induct)
    case (2 E g w n f st)
    obtain rb st2 where rb: "dispatch_and_wait E w (verify_task (e_dash E) g (e_out_remote E)) st = (rb, st2)" by fastforce
    note p = dispatch_frame [OF rb]
    show ?case
    proof (cases "turns_left (o_budget st) = 0")
      case False
      show ?thesis
      proof (cases rb)
        case (Inr reply)
        with "2.prems" rb False p "2.IH" [OF False rb [symmetric] Inr refl] show ?thesis
          by (auto simp: Let_def split: option.splits bool.splits)
      qed (use "2.prems" rb False p in auto)
    qed (use "2.prems" in auto)
  qed simp
  have rv: "run_verification E g c st = (x, st1) \<Longrightarrow> o_plan st1 = o_plan st" for x st1
    by (cases "o_builder st") (auto simp only: run_verification_def option.case prod.inject intro: v)
  obtain ra st1 where ra: "resolve_worker E ''synthesizer'' st = (ra, st1)" by fastforce
  note f1 = resolve_worker_frame [OF ra]
  have "o_plan st2 = o_plan st" if "dispatch_and_wait E w t st1 = (y, st2)" for w t y st2
    using dispatch_frame [OF that] f1 by simp
  with d rv ra f1 show ?thesis by (auto simp: deliver_def split: if_splits prod.splits sum.splits)
qed

text \<open>The run up to its loop, with what the loop relies on.\<close>

lemma run_inner_cases:
  assumes r: "run_inner E reg fmt g c verify (fresh_run pool v) = (r, st')"
  obtains (early) "steps (o_plan st') = []" "\<nexists>d. r = Inr d" "r \<noteq> Inl (Incomplete TurnBudget)"
  | (saved) p where "validate_plan reg p = Inr ()" "o_plan st' = p" "\<nexists>d. r = Inr d" "r \<noteq> Inl (Incomplete TurnBudget)"
      "\<forall>i. status_of p i = Some Waiting \<or> status_of p i = None"
  | (looped) p st2 rc st3 where "validate_plan reg p = Inr ()" "o_plan st2 = p"
      "\<forall>i. status_of p i = Some Waiting \<or> status_of p i = None"
      "\<exists>json spec. e_decode E json = Inr spec \<and> length (steps p) = length spec"
      "budget_caps (o_budget st2) = clamp_to_ceiling c"
      "admits_plan (o_budget st2) (word_of_nat (length (steps p)))"
      "step_loop E reg (uint (max_wall_seconds c) * 1000000000) st2 = (rc, st3)"
      "o_plan st' = o_plan st3" "\<And>d. r = Inr d \<Longrightarrow> plan_complete (o_plan st')"
      "r = Inl (Incomplete TurnBudget) \<Longrightarrow> rc = Inr TurnBudget"
proof -
  let ?st = "(fresh_run pool v)\<lparr>o_budget := new_budget c, o_collected := 0, o_builder := None, o_builder_files := 0\<rparr>"
  obtain ra st1 where a: "make_plan E reg g c ?st = (ra, st1)" by fastforce
  note mp = make_plan_facts [OF a]
  have pl1: "steps (o_plan st1) = []" using mp by (simp add: fresh_run_def)
  have caps1: "budget_caps (o_budget st1) = clamp_to_ceiling c"
    using make_plan_paid [OF a] by (simp add: paid_def)
  show thesis
  proof (cases ra)
    case (Inl e)
    have "e \<noteq> Incomplete TurnBudget"
      using a Inl by (auto simp: make_plan_def Let_def split: sum.splits prod.splits if_splits bool.splits)
    with r a Inl pl1 show thesis by (intro early) (auto simp: run_inner_def)
  next
    case (Inr p)
    with mp obtain reply where "parse_plan (e_decode E) g reply reg = Inr p" by blast
    note w = parsed_plan_waits [OF this]
    show thesis
    proof (cases "admits_plan (o_budget st1) (word_of_nat (length (steps p)))")
      case False
      with r a Inr pl1 show thesis by (intro early) (auto simp: run_inner_def)
    next
      case True
      obtain rb st2 where b: "save_step E (st1\<lparr>o_plan := p\<rparr>) = (rb, st2)" by fastforce
      have f2: "o_plan st2 = p" "o_budget st2 = o_budget st1" using save_step_frame [OF b] by simp_all
      show thesis
      proof (cases rb)
        case (Inl e)
        with r a Inr True b have "st' = st2" "r = Inl (Failed_With e)" by (simp_all add: run_inner_def)
        with w f2 show thesis by (intro saved) auto
      next
        case rb': (Inr u)
        obtain rc st3 where c: "step_loop E reg (uint (max_wall_seconds c) * 1000000000) st2 = (rc, st3)" by fastforce
        obtain rd st4 where d: "save_step E st3 = (rd, st4)" by fastforce
        have p4: "o_plan st4 = o_plan st3" using save_step_frame [OF d] by simp
        have dl: "o_plan st5 = o_plan st3" if "deliver E reg fmt g c verify st4 = (x, st5)" for x st5
          using deliver_plan [OF that] p4 by simp
        have de: "x \<noteq> Inl (Incomplete q)" if "deliver E reg fmt g c verify st4 = (x, st5)" for x st5 q
          using that by (auto simp: deliver_def split: if_splits prod.splits sum.splits)
        have eq: "(r, st') = (case rc of Inl e \<Rightarrow> (Inl (Failed_With e), st3)
          | Inr stop \<Rightarrow> (case rd of Inl e \<Rightarrow> (Inl (Failed_With e), st4)
            | Inr _ \<Rightarrow> if \<not> plan_complete (o_plan st4) then (Inl (Incomplete stop), st4)
                else deliver E reg fmt g c verify st4))"
          using r a Inr True b rb' c d by (cases rc; cases rd) (simp_all add: run_inner_def)
        have "o_plan st' = o_plan st3 \<and> (\<forall>d. r = Inr d \<longrightarrow> plan_complete (o_plan st')) \<and>
          (r = Inl (Incomplete TurnBudget) \<longrightarrow> rc = Inr TurnBudget)"
        proof (cases "\<exists>stop. rc = Inr stop \<and> rd = Inr () \<and> plan_complete (o_plan st4)")
          case True
          then have "deliver E reg fmt g c verify st4 = (r, st')" using eq by auto
          from dl [OF this] de [OF this] True p4 show ?thesis by auto
        next
          case False
          with eq p4 show ?thesis by (cases rc; cases rd) (auto split: if_splits)
        qed
        with w f2 True caps1 c show thesis by (intro looped [of p st2 rc st3]) auto
      qed
    qed
  qed
qed


text \<open>
  C10. Dependencies first, whatever happens: at the end of a run, finished or stopped by any
  rung of the ladder or any error, a step is done only if everything it depends on is
  done; and a run that returns a deliverable has all its steps done.
\<close>

theorem run_respects_dependencies:
  "case run_inner E reg fmt g c verify (fresh_run pool v) of
     (r, st') \<Rightarrow> deps_first (o_plan st') \<and> (case r of Inr _ \<Rightarrow> plan_complete (o_plan st') | Inl _ \<Rightarrow> True)"
proof -
  obtain r st' where r: "run_inner E reg fmt g c verify (fresh_run pool v) = (r, st')" by fastforce
  have w: "deps_first p" if "\<forall>i. status_of p i = Some Waiting \<or> status_of p i = None" for p
    using that by (metis deps_first_def option.distinct(1) option.inject step_status.distinct(3))
  from r have "deps_first (o_plan st') \<and> (\<forall>d. r = Inr d \<longrightarrow> plan_complete (o_plan st'))"
  proof (cases rule: run_inner_cases)
    case early
    then show ?thesis by (auto simp: deps_first_def status_of_def step_of_def)
  next
    case (saved p)
    with w show ?thesis by auto
  next
    case (looped p st2 rc st3)
    have "distinct (plan_ids (o_plan st2))" using looped(1,2) by (simp add: validate_plan_iff)
    from step_loop_keeps [OF looped(7) this] looped(2,8,9) w [OF looped(3)] show ?thesis by auto
  qed
  then show ?thesis by (auto simp: r split: sum.split)
qed

text \<open>
  C2. Admission is sound for every run the command line can start: with the default caps
  tightened by any request, a plan that is admitted never stops for lack of turns, even if
  every reviewed step goes through every review round and fails at the end. (The decoder
  returns plans of fewer than \<open>2 ^ 32\<close> steps: the check converts the count to \<open>u32\<close>.)
\<close>

theorem admitted_run_never_exhausts:
  assumes small: "\<And>json spec. e_decode E json = Inr spec \<Longrightarrow> length spec < 2 ^ 32"
  shows "fst (run_inner E reg fmt g (tighten_with default_caps ov) verify (fresh_run pool v)) \<noteq> Inl (Incomplete TurnBudget)"
proof -
  let ?c = "tighten_with default_caps ov"
  obtain r st' where r: "run_inner E reg fmt g ?c verify (fresh_run pool v) = (r, st')" by fastforce
  then have "r \<noteq> Inl (Incomplete TurnBudget)"
  proof (cases rule: run_inner_cases)
    case (looped p st2 rc st3)
    let ?n = "length (steps p)" and ?k = "clamp_to_ceiling ?c"
    have le: "caps_le ?k ceiling_caps" by (rule clamp_le)
    have "?k = ?c"
      using tighten_le(2) [of default_caps ov]
      by (simp add: caps_le_def clamp_to_ceiling_def min_absorb1)
    then have cy: "unat (max_review_cycles ?k) = 2" "unat (max_replans ?k) = 1"
      by (simp_all add: tighten_fields default_caps_def min_def)
    have "?n < 2 ^ 32" using looped(4) small by auto
    then have n: "unat (word_of_nat ?n :: u32) = ?n" by (simp add: unsigned_of_nat take_bit_nat_eq_self)
    have adm: "0 < ?n" "?n \<le> unat (max_steps ?k)" "worst_case_turns ?k (word_of_nat ?n) \<le> turns_left (o_budget st2)"
      using looped(6) n unfolding admits_plan_def looped(5) by (auto simp: word_less_nat_alt word_le_nat_alt)
    have "unat (max_steps ?k) \<le> 64" using le by (auto simp: caps_le_def ceiling_caps_def word_le_nat_alt)
    then have "unat (word_of_nat ?n :: u32) \<le> 64" using adm(2) n by simp
    from unat_worst_case_turns [OF le this] adm(3) n cy have t: "?n * 6 + 2 \<le> unat (turns_left (o_budget st2))"
      by (simp add: word_le_nat_alt)
    have "card (waiting p) \<le> ?n"
      using card_mono [of "set (plan_ids p)" "waiting p"] card_length [of "plan_ids p"] by (auto simp: waiting_def plan_ids_def)
    moreover have "step_cost st2 = 5" by (simp add: step_cost_def looped(5) cy)
    ultimately have "reserve st2" using t by (simp add: reserve_def looped(2))
    moreover have "distinct (plan_ids (o_plan st2))" using looped(1,2) by (simp add: validate_plan_iff)
    ultimately have "rc \<noteq> Inr TurnBudget" using step_loop_keeps [OF looped(7)] by blast
    with looped(10) show ?thesis by blast
  qed auto
  then show ?thesis by (simp add: r)
qed

text \<open>
  Reviewing cannot run away: completing one step spends at most two turns per allowed
  review cycle, the plan's structure and every status stay as they are, and a step without
  review costs nothing and returns the worker's own reply.
\<close>

theorem review_bounded:
  "case finish_step E reg sid w reply st of
     (r, st') \<Rightarrow> unat (turns_left (o_budget st)) \<le>
         unat (turns_left (o_budget st')) + 2 * unat (max_review_cycles (budget_caps (o_budget st))) \<and>
       outline (o_plan st') = outline (o_plan st) \<and> statuses (o_plan st') = statuses (o_plan st) \<and>
       (case step_of (o_plan st) sid of
          None \<Rightarrow> True | Some s \<Rightarrow> s_review s \<or> (r = Inr reply \<and> st' = st))"
proof -
  obtain r st' where f: "finish_step E reg sid w reply st = (r, st')" by fastforce
  have "s_review s \<or> (r = Inr reply \<and> st' = st)" if "step_of (o_plan st) sid = Some s" for s
    using f that by (auto simp: finish_step_def)
  with finish_step_frame [OF f] show ?thesis by (simp add: f costs_def split: option.split)
qed

section \<open>A concrete run\<close>

text \<open>A world in which every agent gives the same answer, and nothing else happens.\<close>

definition demo_env :: "str \<Rightarrow> step_spec list \<Rightarrow> unit env" where
  "demo_env answer spec = \<lparr> e_send = (\<lambda>w t v. (Inr answer, v)), e_aborted = (\<lambda>v. (Inr False, v)),
     e_agents = (\<lambda>v. []), e_launch = (\<lambda>n v. (Inr 0, v)), e_elapsed = (\<lambda>v. (0, v)), e_save = (\<lambda>p v. (Inr (), v)),
     e_collect = (\<lambda>a v. (0, v)), e_staged = (\<lambda>v. 0), e_decode = (\<lambda>j. Inr spec),
     e_out_remote = ''out'', e_dash = ''-'', e_ellipsis = ''...'' \<rparr>"

definition demo_registry :: registry where
  "demo_registry = map (\<lambda>n. (n, \<lparr> r_name = n, r_description = [], r_system_prompt = [], r_model = None,
     r_placement = ReuseAgent ''vm'' \<rparr>)) [''coordinator'', ''developer'', ''reviewer'']"

definition one_step :: "step_spec list" where
  "one_step = [\<lparr> sp_id = ''s1'', sp_role = ''developer'', sp_task = ''build'', sp_deps = [], sp_review = True \<rparr>]"

theorem admitted_run_never_exhausts_witness:
  "fst (run_inner (demo_env ''{}'' one_step) demo_registry [] ''g'' (tighten_with default_caps
     \<lparr> ov_max_total_turns = None, ov_max_wall_seconds = None, ov_max_parallel = None, ov_max_concurrent_vms = None,
       ov_max_steps = None \<rparr>) True (fresh_run (new_pool demo_registry [] [] 4) ())) \<noteq> Inl (Incomplete TurnBudget)"
  by (rule admitted_run_never_exhausts) (simp add: demo_env_def one_step_def)

end
