(* ===== verification/Board_Ops.thy ===== *)
theory Board_Ops
  imports Task_Board Planner
begin

text \<open>
  \<open>crates/maturana-ops/src/boards.rs\<close>: what the board's users share. The text a card's worker
  gets, the acceptance judge, decomposition of a card by a model into further cards, and
  whether a board counts as running. Starting the detached process is host I/O and left
  out; what is checked before it is modelled.
\<close>

section \<open>Prompts\<close>

text \<open>A file a card attaches: its name, and what reading it gave.\<close>

datatype attachment = TextFile str | BinaryFile | Unread

definition attachment_text :: "(str \<Rightarrow> str \<times> attachment) \<Rightarrow> str \<Rightarrow> str" where
  "attachment_text files path =
     (case files path of
        (n, TextFile t) \<Rightarrow> nl @ ''## '' @ n @ nl @ t @ nl
      | (n, BinaryFile) \<Rightarrow> ''- '' @ n @ '' (binary, at '' @ path @ '')'' @ nl
      | (n, Unread) \<Rightarrow> ''- '' @ n @ '' (at '' @ path @ '')'' @ nl)"

definition build_card_task ::
  "registry \<Rightarrow> (str \<Rightarrow> str \<times> attachment) \<Rightarrow> board \<Rightarrow> card \<Rightarrow> str \<Rightarrow> str" where
  "build_card_task reg files b c out_remote =
     (let ctx = dependency_context b c;
          body = ''Task: '' @ c_title c @ nl @
            (if c_detail c = [] then [] else nl @ c_detail c @ nl) @
            (case c_deliver c of None \<Rightarrow> [] | Some _ \<Rightarrow> nl @
              ''[Delivery is handled for you: produce the finished result as your reply and the host '' @
              ''will deliver it to the requested channel. Do NOT attempt to send it yourself.]'' @ nl) @
            (if trim ctx = [] then [] else nl @ ''--- INPUTS FROM EARLIER CARDS ---'' @ ctx @ nl) @
            (if c_comments c = [] then [] else nl @ ''--- NOTES ON THIS CARD ---'' @ nl @
              concat (map (\<lambda>cm. ''['' @ (if cm_author cm = [] then ''note'' else cm_author cm) @ ''] '' @ cm_body cm @ nl)
                (c_comments c))) @
            (if c_attachments c = [] then [] else nl @ ''--- ATTACHMENTS ---'' @ nl @
              concat (map (attachment_text files) (c_attachments c))) @
            nl @ ''--- PRODUCING FILES ---'' @ nl @
            ''If this task creates any files (code, a page, a script, data), '' @
            ''WRITE them into the directory '' @ out_remote @ ''/ (create it). Keep your reply a brief summary; '' @
            ''do NOT paste full file contents.'' @ nl
      in case c_assignee c of
           Some a \<Rightarrow> if get_role reg a \<noteq> None then or_keep (frame_task reg a body) body else body
         | None \<Rightarrow> or_keep (frame_task reg ''developer'' body) body)"

definition build_goal_judge_task :: "str \<Rightarrow> str \<Rightarrow> str \<Rightarrow> str" where
  "build_goal_judge_task title detail result =
     ''Acceptance check. The goal was:'' @ nl @ nl @ title @ nl @ detail @ nl @ nl @
     ''The worker produced this result:'' @ nl @ nl @ result @ nl @ nl @
     ''Reply with EXACTLY `PASS` on the first line if the result fully meets the goal. '' @
     ''Otherwise reply `REVISE` on the first line, then say specifically what to fix.''"

text \<open>\<open>char::is_alphabetic\<close> on the model's range.\<close>

definition is_alphabetic :: "char \<Rightarrow> bool" where
  "is_alphabetic c = (let n = (of_char c :: nat) in
     is_ascii_upper c \<or> is_ascii_lower c \<or> n = 170 \<or> n = 181 \<or> n = 186 \<or>
     (192 \<le> n \<and> n \<noteq> 215 \<and> n \<noteq> 247))"

definition parse_goal_judge_reply :: "str \<Rightarrow> bool \<times> str" where
  "parse_goal_judge_reply reply =
     (let trimmed = trim reply
      in if prefix ''PASS'' (to_ascii_uppercase trimmed) then (True, [])
         else (let feedback = trim (dropWhile (\<lambda>c. c = CHR '':'' \<or> c = CHR ''-'' \<or> c = CHR '' '' \<or> c = CHR 10)
                     (dropWhile is_alphabetic trimmed))
               in (False, if feedback = [] then ''revise'' else feedback)))"

section \<open>Decomposition and specification\<close>

datatype board_op_error =
    NoCard str
  | DecomposeFailed parse_error
  | NoSubtasks
  | InvalidBoard board_error
  | NoSpecJson
  | BadSpecJson str

text \<open>The loop over the plan's steps: cards so far, step to card, new ids.\<close>

fun add_steps :: "step list \<Rightarrow> timestamp list \<Rightarrow> (str \<rightharpoonup> str) \<Rightarrow> board \<Rightarrow> str list \<times> board" where
  "add_steps [] ts m b = ([], b)"
| "add_steps (s # ss) ts m b =
     (let deps = List.map_filter m (s_deps s);
          (i, b') = add_card (s_task s) [] (Some (s_role s)) deps (case ts of t # _ \<Rightarrow> t | [] \<Rightarrow> 0) b;
          (is, b'') = add_steps ss (tl ts) (m(s_id s \<mapsto> i)) b'
      in (i # is, b''))"

definition apply_decomposition ::
  "(str \<Rightarrow> str + step_spec list) \<Rightarrow> timestamp list \<Rightarrow> str \<Rightarrow> str \<Rightarrow> registry \<Rightarrow> board \<Rightarrow> (board_op_error + str list) \<times> board" where
  "apply_decomposition decode ts cid reply reg b =
     (case card_of b cid of
        None \<Rightarrow> (Inl (NoCard cid), b)
      | Some c \<Rightarrow>
          (case parse_plan decode (c_title c) reply reg of
             Inl e \<Rightarrow> (Inl (DecomposeFailed e), b)
           | Inr p \<Rightarrow>
               if steps p = [] then (Inl NoSubtasks, b)
               else (case add_steps (steps p) ts Map.empty b of
                  (new_ids, b1) \<Rightarrow>
                    (let b2 = card_mut cid (\<lambda>c. c\<lparr>c_status := Done,
                           c_result := Some (''decomposed into '' @ join '', '' new_ids)\<rparr>) b1
                     in case validate_board b2 of
                          Inl e \<Rightarrow> (Inl (InvalidBoard e), b2)
                        | Inr _ \<Rightarrow> (Inr new_ids, b2)))))"

record card_spec =
  cs_title :: str
  cs_detail :: str

definition parse_card_specification :: "(str \<Rightarrow> str + card_spec) \<Rightarrow> str \<Rightarrow> board_op_error + card_spec" where
  "parse_card_specification decode reply =
     (case extract_json_object reply of
        None \<Rightarrow> Inl NoSpecJson
      | Some json \<Rightarrow> (case decode json of Inl e \<Rightarrow> Inl (BadSpecJson e) | Inr s \<Rightarrow> Inr s))"

definition apply_card_specification :: "str \<Rightarrow> card_spec \<Rightarrow> board \<Rightarrow> board_op_error + board" where
  "apply_card_specification cid spec b =
     (case card_of b cid of
        None \<Rightarrow> Inl (NoCard cid)
      | Some _ \<Rightarrow> Inr (card_mut cid (\<lambda>c. c\<lparr>
          c_title := (if trim (cs_title spec) = [] then c_title c else trim (cs_title spec)),
          c_detail := (if trim (cs_detail spec) = [] then c_detail c else trim (cs_detail spec)),
          c_status := (if c_status c = Triage then Todo else c_status c)\<rparr>) b))"

section \<open>Running boards\<close>

definition is_board_running :: "board_home \<Rightarrow> board \<Rightarrow> bool" where
  "is_board_running h b \<longleftrightarrow> list_ex (\<lambda>c. c_status c = Doing) (b_cards b) \<or>
     (case rev (read_events h (b_name b)) of [] \<Rightarrow> False | e # _ \<Rightarrow> ev_kind e \<noteq> ''run_end'')"

definition safe_id :: "str \<Rightarrow> bool" where
  "safe_id v \<longleftrightarrow> v \<noteq> [] \<and> length v \<le> 128 \<and>
     list_all (\<lambda>c. is_ascii_alnum c \<or> c = CHR ''-'' \<or> c = CHR ''_'' \<or> c = CHR ''.'') v"

datatype launch_error = InvalidId str | EmptyBoard | AlreadyRunning | NoSuchCard

text \<open>The arguments the detached process is started with, when it is.\<close>

definition launch_board_run :: "board_home \<Rightarrow> str \<Rightarrow> launch_error + str list" where
  "launch_board_run h name =
     (if \<not> safe_id name then Inl (InvalidId ''board name'')
      else let b = load_board h name
           in if b_cards b = [] then Inl EmptyBoard
              else if is_board_running h b then Inl AlreadyRunning
              else Inr [''board'', ''run'', ''--board'', name])"

datatype card_job = Decompose | Specify

fun job_command :: "card_job \<Rightarrow> str" where
  "job_command Decompose = ''decompose''"
| "job_command Specify = ''specify''"

definition launch_board_card_job :: "board_home \<Rightarrow> str \<Rightarrow> str \<Rightarrow> card_job \<Rightarrow> launch_error + str list" where
  "launch_board_card_job h name cid job =
     (if \<not> safe_id name then Inl (InvalidId ''board name'')
      else if \<not> safe_id cid then Inl (InvalidId ''card id'')
      else if card_of (load_board h name) cid = None then Inl NoSuchCard
      else Inr [''board'', job_command job, cid, ''--board'', name])"

section \<open>Decomposition keeps the board valid\<close>

definition max_id :: "board \<Rightarrow> nat" where
  "max_id b = fold max (List.map_filter (\<lambda>c. id_number (c_id c)) (b_cards b)) 0"

lemma next_id_max: "max_id b + 1 < 2 ^ 32 \<Longrightarrow> next_id b = ''c'' @ show_nat (max_id b + 1)"
  by (simp add: next_id_def max_id_def Let_def)

lemma next_id_fresh: "max_id b + 1 < 2 ^ 32 \<Longrightarrow> next_id b \<notin> set (card_ids b)"
proof (rule next_id_new, rule ballI, rule notI)
  fix c assume m: "max_id b + 1 < 2 ^ 32" and c: "c \<in> set (b_cards b)" "id_number (c_id c) = Some (2 ^ 32 - 1)"
  then have "2 ^ 32 - 1 \<in> set (List.map_filter (\<lambda>c. id_number (c_id c)) (b_cards b))"
    unfolding set_map_filter_id by blast
  then have "2 ^ 32 - 1 \<le> max_id b" unfolding max_id_def by (intro fold_max_ge) simp
  with m show False by simp
qed

lemma max_id_add:
  assumes "max_id b + 1 < 2 ^ 32"
  shows "max_id (snd (add_card t d a deps now b)) = max_id b + 1"
proof -
  have mf: "List.map_filter f (xs @ ys) = List.map_filter f xs @ List.map_filter f ys" for f :: "card \<Rightarrow> nat option" and xs ys
    by (simp add: List.map_filter_def)
  have "id_number (next_id b) = Some (max_id b + 1)"
    unfolding next_id_max [OF assms] using assms by (rule id_number_show)
  then have "List.map_filter (\<lambda>c. id_number (c_id c)) [fresh_card (next_id b) t d a deps now] = [max_id b + 1]"
    by (simp add: List.map_filter_def fresh_card_def)
  then show ?thesis
    by (simp add: max_id_def add_card_def Let_def mf)
qed

text \<open>The card made for the step at position \<open>k\<close>.\<close>

definition step_card :: "step list \<Rightarrow> str list \<Rightarrow> (str \<rightharpoonup> str) \<Rightarrow> timestamp list \<Rightarrow> nat \<Rightarrow> card" where
  "step_card ss is m ts k = fresh_card (is ! k) (s_task (ss ! k)) [] (Some (s_role (ss ! k)))
     (List.map_filter (m ++ map_of (rev (zip (map s_id (take k ss)) (take k is)))) (s_deps (ss ! k)))
     (if k < length ts then ts ! k else 0)"

lemma add_steps_exact:
  assumes "add_steps ss ts m b = (is, b')" and "validate_board b = Inr ()"
    and "max_id b + length ss < 2 ^ 32" and "ran m \<subseteq> set (card_ids b)"
  shows "validate_board b' = Inr () \<and> length is = length ss \<and> distinct is \<and>
    set is \<inter> set (card_ids b) = {} \<and>
    b_cards b' = b_cards b @ map (step_card ss is m ts) [0..<length ss]"
  using assms
proof (induction ss arbitrary: ts m b "is" b')
  case Nil
  then show ?case by simp
next
  case (Cons s ss)
  let ?t = "case ts of t # _ \<Rightarrow> t | [] \<Rightarrow> 0" and ?deps = "List.map_filter m (s_deps s)"
  let ?i = "next_id b" and ?b1 = "snd (add_card (s_task s) [] (Some (s_role s)) (List.map_filter m (s_deps s)) (case ts of t # _ \<Rightarrow> t | [] \<Rightarrow> 0) b)"
  obtain js where js: "add_steps ss (tl ts) (m(s_id s \<mapsto> ?i)) ?b1 = (js, b')" "is = ?i # js"
    using Cons.prems(1) by (auto simp: Let_def add_card_def split: prod.splits)
  have mx: "max_id b + 1 < 2 ^ 32" using Cons.prems(3) by simp
  have fr: "?i \<notin> set (card_ids b)" by (rule next_id_fresh [OF mx])
  have c1: "b_cards ?b1 = b_cards b @ [fresh_card ?i (s_task s) [] (Some (s_role s)) ?deps ?t]"
    by (simp add: add_card_def Let_def)
  then have ids1: "set (card_ids ?b1) = insert ?i (set (card_ids b))" by (auto simp: card_ids_def fresh_card_def)
  have "set ?deps \<subseteq> ran m" by (auto simp: set_map_filter_id ran_def)
  then have v1: "validate_board ?b1 = Inr ()"
    using Cons.prems(2,4) fr by (intro add_card_valid) auto
  have "ran (m(s_id s \<mapsto> ?i)) \<subseteq> set (card_ids ?b1)" using Cons.prems(4) ids1 by (auto simp: ran_def)
  moreover have "max_id ?b1 + length ss < 2 ^ 32" using max_id_add [OF mx] Cons.prems(3) by simp
  ultimately have ih: "validate_board b' = Inr ()" "length js = length ss" "distinct js"
    "set js \<inter> set (card_ids ?b1) = {}"
    "b_cards b' = b_cards ?b1 @ map (step_card ss js (m(s_id s \<mapsto> ?i)) (tl ts)) [0..<length ss]"
    using Cons.IH [OF js(1) v1] by blast+
  have "step_card (s # ss) is m ts (Suc k) = step_card ss js (m(s_id s \<mapsto> ?i)) (tl ts) k" for k
    by (cases ts; simp add: step_card_def js(2))
  moreover have "step_card (s # ss) is m ts 0 = fresh_card ?i (s_task s) [] (Some (s_role s)) ?deps ?t"
    by (cases ts) (simp_all add: step_card_def js(2))
  ultimately have "map (step_card (s # ss) is m ts) [0..<length (s # ss)] =
      fresh_card ?i (s_task s) [] (Some (s_role s)) ?deps ?t # map (step_card ss js (m(s_id s \<mapsto> ?i)) (tl ts)) [0..<length ss]"
    by (simp add: map_upt_Suc del: upt_Suc)
  with ih ids1 fr c1 js(2) show ?case by auto
qed


lemma update_first_append:
  "List.find P xs \<noteq> None \<Longrightarrow> update_first P f (xs @ ys) = update_first P f xs @ ys"
  by (induction xs) auto

lemma apply_decomposition_exact:
  assumes c: "card_of b cid = Some c" and v: "validate_board b = Inr ()"
    and p: "parse_plan decode (c_title c) reply reg = Inr p"
    and small: "max_id b + length (steps p) < 2 ^ 32"
  shows "\<exists>is b'. apply_decomposition decode ts cid reply reg b = (Inr is, b') \<and> validate_board b' = Inr () \<and>
    length is = length (steps p) \<and> distinct is \<and> set is \<inter> set (card_ids b) = {} \<and>
    b_cards b' = update_first (\<lambda>c. c_id c = cid)
        (\<lambda>c. c\<lparr>c_status := Done, c_result := Some (''decomposed into '' @ join '', '' is)\<rparr>) (b_cards b) @
      map (step_card (steps p) is Map.empty ts) [0..<length (steps p)]"
proof -
  have ne: "steps p \<noteq> []" using parsed_plan_runs [OF p] by (simp add: validate_plan_iff)
  obtain "is" b1 where a: "add_steps (steps p) ts Map.empty b = (is, b1)" by fastforce
  have ex: "validate_board b1 = Inr ()" "length is = length (steps p)" "distinct is" "set is \<inter> set (card_ids b) = {}"
    "b_cards b1 = b_cards b @ map (step_card (steps p) is Map.empty ts) [0..<length (steps p)]"
    using add_steps_exact [OF a v small] by auto
  let ?f = "\<lambda>c. c\<lparr>c_status := Done, c_result := Some (''decomposed into '' @ join '', '' is)\<rparr>"
  have "skeleton (card_mut cid ?f b1) = skeleton b1" by (rule skeleton_card_mut) simp
  then have v2: "validate_board (card_mut cid ?f b1) = Inr ()" using validate_skeleton ex(1) by blast
  have "List.find (\<lambda>c. c_id c = cid) (b_cards b) \<noteq> None" using c by (simp add: card_of_def)
  then have "b_cards (card_mut cid ?f b1) = update_first (\<lambda>c. c_id c = cid) ?f (b_cards b) @
      map (step_card (steps p) is Map.empty ts) [0..<length (steps p)]"
    by (simp add: card_mut_def ex(5) update_first_append)
  moreover have "apply_decomposition decode ts cid reply reg b = (Inr is, card_mut cid ?f b1)"
    using c p ne a v2 by (simp add: apply_decomposition_def Let_def)
  ultimately show ?thesis using ex v2 by blast
qed

section \<open>Properties\<close>

text \<open>
  Decomposing a card always works on a valid board and adds exactly one card per step
  of the plan, in order: a fresh id, the step's task and role, and as dependencies the
  cards of those of its dependencies that stand earlier in the plan. The card itself
  becomes done, no other card changes and the board stays valid.
\<close>

theorem decomposition_exact:
  assumes c: "card_of b cid = Some c" and v: "validate_board b = Inr ()"
    and p: "parse_plan decode (c_title c) reply reg = Inr p"
    and small: "max_id b + length (steps p) < 2 ^ 32"
  shows "\<exists>is b'. apply_decomposition decode ts cid reply reg b = (Inr is, b') \<and> validate_board b' = Inr () \<and>
    length is = length (steps p) \<and> distinct is \<and> set is \<inter> set (card_ids b) = {} \<and>
    b_cards b' = update_first (\<lambda>c. c_id c = cid)
        (\<lambda>c. c\<lparr>c_status := Done, c_result := Some (''decomposed into '' @ join '', '' is)\<rparr>) (b_cards b) @
      map (step_card (steps p) is Map.empty ts) [0..<length (steps p)]"
  using assms by (rule apply_decomposition_exact)

definition developer_only :: registry where
  "developer_only = [(''developer'', \<lparr> r_name = ''developer'', r_description = [], r_system_prompt = [],
     r_model = None, r_placement = ReuseAgent ''vm'' \<rparr>)]"

text \<open>Two steps, the first of which needs the second.\<close>

definition backward_spec :: "step_spec list" where
  "backward_spec =
     [\<lparr> sp_id = ''s1'', sp_role = ''developer'', sp_task = ''code it'', sp_deps = [''s2''], sp_review = False \<rparr>,
      \<lparr> sp_id = ''s2'', sp_role = ''developer'', sp_task = ''design it'', sp_deps = [], sp_review = False \<rparr>]"

lemma demo_card: "card_of demo_board ''c1'' = Some (fresh_card ''c1'' ''research'' [] None [] 10)"
  by (simp add: card_of_def demo_board_cards) (simp add: fresh_card_def)

lemma demo_decomposition:
  "parse_plan (\<lambda>_. Inr backward_spec) (c_title (fresh_card ''c1'' ''research'' [] None [] 10)) ''{}'' developer_only =
     Inr (plan_from_spec ''research'' backward_spec)"
proof -
  have "validate_plan developer_only (plan_from_spec ''research'' backward_spec) = Inr ()"
    by (simp add: validate_plan_def Let_def plan_from_spec_def backward_spec_def check_acyclic_def dfs_iter_def step_of_def
      developer_only_def get_role_def)
  moreover have "extract_json_object ''{}'' = Some ''{}''" by (simp add: extract_json_object_def quote_char_def backslash_def)
  ultimately show ?thesis by (simp add: parse_plan_def fresh_card_def)
qed

lemma demo_small: "max_id demo_board + length (steps (plan_from_spec ''research'' backward_spec)) < 2 ^ 32"
proof -
  have "id_number ''c1'' = Some 1" "id_number ''c2'' = Some 2"
    using id_number_show [of 1] id_number_show [of 2] by (simp_all add: show_nat.simps char_of_def bit_Suc_0_iff)
  then show ?thesis by (simp add: max_id_def demo_board_cards fresh_card_def map_filter_simps plan_from_spec_def backward_spec_def)
qed

text \<open>
  Two orders are lost on the way. A plan is only required to have no cycle, so a step
  may come before one it depends on, and then its card loses that dependency; and the
  decomposed card counts as done at once, so cards waiting for it are released before any
  subtask has run.
\<close>

theorem decomposition_loses_order:
  "\<exists>is b'. apply_decomposition (\<lambda>_. Inr backward_spec) [30, 31] ''c1'' ''{}'' developer_only demo_board = (Inr is, b') \<and>
     map c_title (b_cards b') = [''research'', ''build'', ''code it'', ''design it''] \<and>
     map c_deps (b_cards b') = [[], [''c1''], [], []] \<and>
     length (ready 40 b') = 3"
proof -
  let ?p = "plan_from_spec ''research'' backward_spec" and ?c = "fresh_card ''c1'' ''research'' [] None [] 10"
  obtain "is" b' where r: "apply_decomposition (\<lambda>_. Inr backward_spec) [30, 31] ''c1'' ''{}'' developer_only demo_board = (Inr is, b')"
    and b': "length is = 2" "distinct is" "set is \<inter> set (card_ids demo_board) = {}"
      "b_cards b' = update_first (\<lambda>c. c_id c = ''c1'')
        (\<lambda>c. c\<lparr>c_status := Done, c_result := Some (''decomposed into '' @ join '', '' is)\<rparr>) (b_cards demo_board) @
      map (step_card (steps ?p) is Map.empty [30, 31]) [0..<2]"
    using apply_decomposition_exact [OF demo_card demo_board_valid demo_decomposition demo_small, of "[30, 31]"]
    by (auto simp: plan_from_spec_def backward_spec_def numeral_2_eq_2)
  obtain i j where ij: "is = [i, j]" using b'(1) by (auto simp: numeral_2_eq_2 length_Suc_conv)
  have n: "i \<noteq> ''c1''" "j \<noteq> ''c1''" using b'(3) by (auto simp: ij card_ids_def demo_board_cards fresh_card_def)
  have cards: "b_cards b' = [?c\<lparr>c_status := Done, c_result := Some (''decomposed into '' @ join '', '' is)\<rparr>,
      fresh_card ''c2'' ''build'' [] None [''c1''] 20,
      fresh_card i ''code it'' [] (Some ''developer'') [] 30, fresh_card j ''design it'' [] (Some ''developer'') [] 31]"
    unfolding b'(4) by (simp add: demo_board_cards step_card_def plan_from_spec_def backward_spec_def ij
      numeral_2_eq_2 map_filter_simps) (simp add: fresh_card_def)
  have "map c_deps (b_cards b') = [[], [''c1''], [], []]" unfolding cards by (simp add: fresh_card_def)
  moreover have "map c_title (b_cards b') = [''research'', ''build'', ''code it'', ''design it'']"
    unfolding cards by (simp add: fresh_card_def)
  moreover have "card_done b' ''c1''"
    by (simp add: card_done_def card_of_def cards) (simp add: fresh_card_def)
  then have "filter (is_ready 40 b') (b_cards b') = tl (b_cards b')"
    unfolding cards by (simp add: is_ready_def fresh_card_def)
  then have "length (ready 40 b') = 3" by (simp add: ready_def cards)
  ultimately show ?thesis using r by (intro exI [of _ "is"] exI [of _ b'] conjI)
qed

theorem decomposition_exact_witness:
  "\<exists>is b'. apply_decomposition (\<lambda>_. Inr backward_spec) [30, 31] ''c1'' ''{}'' developer_only demo_board = (Inr is, b') \<and>
     validate_board b' = Inr () \<and> length is = 2"
proof -
  let ?p = "plan_from_spec ''research'' backward_spec" and ?c = "fresh_card ''c1'' ''research'' [] None [] 10"
  have n: "length (steps ?p) = 2" by (simp add: plan_from_spec_def backward_spec_def)
  note d = decomposition_exact [OF demo_card demo_board_valid demo_decomposition demo_small, of "[30, 31]", unfolded n]
  then show ?thesis by blast
qed

text \<open>
  The judge's verdict is read by its first letters only: a reply that starts with
  \<open>PASS\<close> in any word passes, the word need not be \<open>PASS\<close>.
\<close>

theorem judge_prefix_passes:
  "parse_goal_judge_reply ''Passable, but the tests fail'' = (True, []) \<and>
   parse_goal_judge_reply ''REVISE: fix the tests'' = (False, ''fix the tests'')"
  by code_simp

end
