(* ===== verification/Dispatcher.thy ===== *)
theory Dispatcher
  imports Board_Ops Orch_Loop
begin

text \<open>
  The board dispatcher of \<open>crates/maturana-cli/src/orchestrate.rs\<close> (\<open>run_board_inner\<close>): claim
  ready cards up to the parallel cap, run the batch over A2A at the same time, settle each
  result (done, sent back by the judge, retried, blocked), until the stop ladder ends it.
  The outside is a world \<open>'w\<close> as in \<open>Orch_Loop\<close>. The threads of one batch end in any order,
  but their results are joined in batch order, so one answer per position is all the
  host sees.
\<close>

section \<open>State\<close>

record 'w benv =
  d_batch :: "(str \<times> worker \<times> str) list \<Rightarrow> 'w \<Rightarrow> (nat \<Rightarrow> str + str) \<times> 'w"
  d_send :: "worker \<Rightarrow> str \<Rightarrow> 'w \<Rightarrow> (str + str) \<times> 'w"
  d_agents :: "'w \<Rightarrow> agent_dir list"
  d_launch :: "str \<Rightarrow> 'w \<Rightarrow> (str + int) \<times> 'w"
  d_elapsed :: "'w \<Rightarrow> int \<times> 'w"
  d_now :: "'w \<Rightarrow> timestamp \<times> 'w"
  d_collect :: "str \<Rightarrow> str \<Rightarrow> 'w \<Rightarrow> nat \<times> 'w"
  d_files :: "'w \<Rightarrow> str \<Rightarrow> str \<times> attachment"
  d_save :: "board \<Rightarrow> 'w \<Rightarrow> (str + unit) \<times> 'w"
  d_log :: "str \<Rightarrow> str option \<Rightarrow> str \<Rightarrow> 'w \<Rightarrow> 'w"  \<comment> \<open>\<open>log_event\<close>, best effort\<close>
  d_deliver :: "str \<Rightarrow> str \<Rightarrow> str \<Rightarrow> 'w \<Rightarrow> 'w"  \<comment> \<open>\<open>deliver_card_result\<close>, best effort\<close>
  d_out_dir :: "str \<Rightarrow> str"  \<comment> \<open>\<open>card_out_dir\<close> of this run\<close>
  d_stop :: "spawned_vm list \<Rightarrow> 'w \<Rightarrow> 'w"  \<comment> \<open>the VMs of \<open>teardown\<close>\<close>
  d_publish :: "'w \<Rightarrow> (str + unit) \<times> 'w"  \<comment> \<open>copy of the staging directory\<close>

record 'w disp =
  x_board :: board
  x_budget :: run_budget
  x_pool :: worker_pool
  x_world :: 'w
  x_goal_turns :: "str \<rightharpoonup> u32"
  x_agent_of :: "str \<rightharpoonup> str"
  x_claimed_at :: "str \<rightharpoonup> timestamp"
  x_sent :: "(str \<times> str) list"  \<comment> \<open>dispatches so far: card and agent\<close>

definition clock :: "'w benv \<Rightarrow> 'w disp \<Rightarrow> timestamp \<times> 'w disp" where
  "clock E st = (case d_now E (x_world st) of (t, v) \<Rightarrow> (t, st\<lparr>x_world := v\<rparr>))"

definition on_card :: "str \<Rightarrow> (card \<Rightarrow> card) \<Rightarrow> 'w disp \<Rightarrow> 'w disp" where
  "on_card i f st = st\<lparr>x_board := card_mut i f (x_board st)\<rparr>"

definition log :: "'w benv \<Rightarrow> str \<Rightarrow> str \<Rightarrow> str \<Rightarrow> 'w disp \<Rightarrow> 'w disp" where
  "log E kind i text st = st\<lparr>x_world := d_log E kind (Some i) text (x_world st)\<rparr>"

definition record_run_now ::
  "'w benv \<Rightarrow> str \<Rightarrow> str option \<Rightarrow> str \<Rightarrow> str \<Rightarrow> timestamp \<Rightarrow> 'w disp \<Rightarrow> 'w disp" where
  "record_run_now E i agent outcome summary started st =
     (case clock E st of (t, st1) \<Rightarrow> st1\<lparr>x_board := record_run i agent outcome summary started t (x_board st1)\<rparr>)"

definition needs_launch_assignee :: "agent_dir list \<Rightarrow> str option \<Rightarrow> worker_pool \<Rightarrow> bool" where
  "needs_launch_assignee dirs a wp =
     (case a of
        Some n \<Rightarrow> get_role (wp_registry wp) n \<noteq> None \<and> needs_launch dirs n wp
      | None \<Rightarrow> needs_launch dirs ''developer'' wp)"

definition resolve_card_worker :: "'w benv \<Rightarrow> str option \<Rightarrow> 'w disp \<Rightarrow> (resolve_error + worker) \<times> 'w disp" where
  "resolve_card_worker E a st =
     (let dirs = d_agents E (x_world st);
          (launch, v) = (if needs_launch_assignee dirs a (x_pool st)
                         then d_launch E (or_keep a ''developer'') (x_world st) else (Inr 0, x_world st))
      in case resolve_assignee dirs launch a (x_pool st) of
           (r, wp) \<Rightarrow> (r, st\<lparr>x_pool := wp, x_world := v\<rparr>))"

section \<open>Claiming a batch\<close>

fun claim_cards ::
  "'w benv \<Rightarrow> registry \<Rightarrow> card list \<Rightarrow> (str \<times> worker \<times> str) list \<Rightarrow> 'w disp \<Rightarrow>
     (resolve_error + (str \<times> worker \<times> str) list) \<times> 'w disp" where
  "claim_cards E reg [] batch st = (Inr batch, st)"
| "claim_cards E reg (c # cs) batch st =
     (case spend_turn (x_budget st) of
        Inl _ \<Rightarrow> (Inr batch, st)
      | Inr (_, b) \<Rightarrow>
          (case resolve_card_worker E (c_assignee c) (st\<lparr>x_budget := b\<rparr>) of
             (Inl e, st1) \<Rightarrow> (Inl e, st1)
           | (Inr w, st1) \<Rightarrow>
               (let task = build_card_task reg (d_files E (x_world st1)) (x_board st1) c (d_out_dir E (c_id c));
                    (t, st2) = clock E st1;
                    st3 = st2\<lparr>x_agent_of := (x_agent_of st2)(c_id c \<mapsto> w_agent w),
                              x_claimed_at := (x_claimed_at st2)(c_id c \<mapsto> t)\<rparr>;
                    st4 = on_card (c_id c) (\<lambda>x. x\<lparr>c_status := Doing, c_attempts := c_attempts x + 1\<rparr>) st3;
                    st5 = log E ''claim'' (c_id c) (c_title c @ '' -> '' @ w_agent w) st4
                in claim_cards E reg cs (batch @ [(c_id c, w, task)]) st5)))"

definition parallel_dispatch ::
  "'w benv \<Rightarrow> (str \<times> worker \<times> str) list \<Rightarrow> 'w disp \<Rightarrow> (str \<times> (str + str)) list \<times> 'w disp" where
  "parallel_dispatch E batch st =
     (case d_batch E batch (x_world st) of
        (answers, v) \<Rightarrow>
          (map (\<lambda>(k, i, w, task). (i, answers k)) (List.enumerate 0 batch),
           st\<lparr>x_world := v, x_sent := x_sent st @ map (\<lambda>(i, w, task). (i, w_agent w)) batch\<rparr>))"

section \<open>Settling a result\<close>

text \<open>\<open>judge_card\<close>: a judge that cannot be reached accepts.\<close>

definition judge_card :: "'w benv \<Rightarrow> str \<Rightarrow> worker \<Rightarrow> str \<Rightarrow> str \<Rightarrow> str \<Rightarrow> 'w disp \<Rightarrow> (bool \<times> str) \<times> 'w disp" where
  "judge_card E i w title detail result st =
     (case d_send E w (build_goal_judge_task title detail result) (x_world st) of
        (r, v) \<Rightarrow>
          (let st1 = st\<lparr>x_world := v, x_sent := x_sent st @ [(i, w_agent w)]\<rparr>
           in case r of Inl _ \<Rightarrow> ((True, []), st1) | Inr reply \<Rightarrow> (parse_goal_judge_reply reply, st1)))"

definition goal_limit :: "card \<Rightarrow> u32" where
  "goal_limit c = (if c_goal_max_turns c = 0 then 5 else word_of_nat (c_goal_max_turns c))"

definition show_u32 :: "u32 \<Rightarrow> str" where
  "show_u32 n = show_nat (unat n)"

text \<open>The judging of a goal card: \<open>Some feedback\<close> sends it back.\<close>

definition judge_goal :: "'w benv \<Rightarrow> bool \<Rightarrow> str \<Rightarrow> str option \<Rightarrow> str \<Rightarrow> 'w disp \<Rightarrow> str option \<times> 'w disp" where
  "judge_goal E has_reviewer i agent note st =
     (case card_of (x_board st) i of
        None \<Rightarrow> (None, st)
      | Some c \<Rightarrow>
          (let used = or_keep (x_goal_turns st i) 0
           in if \<not> (c_goal c \<and> used < goal_limit c) then (None, st)
              else case spend_turn (x_budget st) of
                  Inl _ \<Rightarrow> (None, st)
                | Inr (_, b) \<Rightarrow>
                    (case resolve_card_worker E (if has_reviewer then Some ''reviewer'' else agent) (st\<lparr>x_budget := b\<rparr>) of
                       (Inl _, st1) \<Rightarrow> (None, st1)
                     | (Inr jw, st1) \<Rightarrow>
                         (case judge_card E i jw (c_title c) (c_detail c) note st1 of
                            ((pass, feedback), st2) \<Rightarrow> if pass then (None, st2) else (Some feedback, st2)))))"

definition revise_card :: "'w benv \<Rightarrow> str \<Rightarrow> str option \<Rightarrow> timestamp \<Rightarrow> str \<Rightarrow> str \<Rightarrow> 'w disp \<Rightarrow> 'w disp" where
  "revise_card E i agent started note feedback st =
     (let used = or_keep (x_goal_turns st i) 0;
          limit = (case card_of (x_board st) i of None \<Rightarrow> 5 | Some c \<Rightarrow> goal_limit c);
          st1 = st\<lparr>x_goal_turns := (x_goal_turns st)(i \<mapsto> used + 1)\<rparr>;
          (t, st2) = clock E st1;
          st3 = st2\<lparr>x_board := snd (add_comment i ''goal-judge''
             (''Not yet ('' @ show_u32 (used + 1) @ ''/'' @ show_u32 limit @ ''). '' @ feedback) t (x_board st2))\<rparr>;
          st4 = on_card i (\<lambda>c. c\<lparr>c_status := Todo, c_result := Some note\<rparr>) st3;
          st5 = record_run_now E i agent ''revise'' feedback started st4
      in log E ''goal_revise'' i feedback st5)"

definition complete_card :: "'w benv \<Rightarrow> str \<Rightarrow> str option \<Rightarrow> timestamp \<Rightarrow> str \<Rightarrow> 'w disp \<Rightarrow> 'w disp" where
  "complete_card E i agent started note st =
     (let st1 = on_card i (\<lambda>c. c\<lparr>c_result := Some note, c_status := Done, c_block_kind := None\<rparr>) st;
          st2 = log E ''done'' i [] (record_run_now E i agent ''completed'' note started st1)
      in case (Option.bind (card_of (x_board st2) i) c_deliver, agent) of
           (Some channel, Some a) \<Rightarrow> st2\<lparr>x_world := d_deliver E a channel note (x_world st2)\<rparr>
         | _ \<Rightarrow> st2)"

definition fail_card :: "'w benv \<Rightarrow> str \<Rightarrow> str option \<Rightarrow> timestamp \<Rightarrow> str \<Rightarrow> 'w disp \<Rightarrow> 'w disp" where
  "fail_card E i agent started err st =
     (let c = card_of (x_board st) i;
          attempts = (case c of None \<Rightarrow> 0 | Some c \<Rightarrow> c_attempts c);
          max_retries = (case c of None \<Rightarrow> 0 | Some c \<Rightarrow> c_max_retries c)
      in if attempts \<le> max_retries then
           log E ''retry'' i err (record_run_now E i agent ''crashed'' err started
             (on_card i (\<lambda>c. c\<lparr>c_status := Todo, c_block_kind := Some ''transient'',
                c_result := Some (''attempt '' @ show_nat attempts @ '' failed: '' @ err)\<rparr>) st))
         else
           log E ''blocked'' i err (record_run_now E i agent ''gave_up'' err started
             (on_card i (\<lambda>c. c\<lparr>c_status := Blocked, c_block_kind := Some ''transient'',
                c_result := Some (''failed: '' @ err)\<rparr>) st)))"

definition collect_note :: "'w benv \<Rightarrow> str \<Rightarrow> str option \<Rightarrow> str \<Rightarrow> 'w disp \<Rightarrow> str \<times> 'w disp" where
  "collect_note E i agent reply st =
     (let note = trim (replace_all marker_done [] reply)
      in case agent of
           None \<Rightarrow> (note, st)
         | Some a \<Rightarrow>
             (case d_collect E a (d_out_dir E i) (x_world st) of
                (got, v) \<Rightarrow>
                  (if 0 < got then note @ newline @ ''[+'' @ show_nat got @ '' file(s) collected]'' else note,
                   st\<lparr>x_world := v\<rparr>)))"

definition settle :: "'w benv \<Rightarrow> bool \<Rightarrow> str \<times> (str + str) \<Rightarrow> 'w disp \<Rightarrow> 'w disp" where
  "settle E has_reviewer p st0 =
     (case p of (i, res) \<Rightarrow>
        (let agent = x_agent_of st0 i;
             (started, st) = (case x_claimed_at st0 i of Some t \<Rightarrow> (t, st0) | None \<Rightarrow> clock E st0)
         in case res of
              Inl err \<Rightarrow> fail_card E i agent started err st
            | Inr reply \<Rightarrow>
                (case collect_note E i agent reply st of
                   (note, st1) \<Rightarrow>
                     (case judge_goal E has_reviewer i agent note st1 of
                        (Some feedback, st2) \<Rightarrow> revise_card E i agent started note feedback st2
                      | (None, st2) \<Rightarrow> complete_card E i agent started note st2))))"

end
