(* ===== verification/Board_Run.thy ===== *)
theory Board_Run
  imports Dispatcher
begin

text \<open>
  The loop of \<open>run_board_inner\<close> and \<open>run_board\<close> around it
  (\<open>crates/maturana-cli/src/orchestrate.rs\<close>), with what holds of a whole board run: its turns
  are bounded by the caps, it drains what it claims, it respects the dependencies, it
  bounds the retries of every card, and the one way it can strand a card.
\<close>

section \<open>The loop\<close>

datatype dispatch_error = Unresolved resolve_error | NotSaved str

definition save :: "'w benv \<Rightarrow> 'w disp \<Rightarrow> (dispatch_error + unit) \<times> 'w disp" where
  "save E st = (case d_save E (x_board st) (x_world st) of
     (Inl e, v) \<Rightarrow> (Inl (NotSaved e), st\<lparr>x_world := v\<rparr>) | (Inr _, v) \<Rightarrow> (Inr (), st\<lparr>x_world := v\<rparr>))"

text \<open>The stop ladder: a reason to stop, or the ready cards.\<close>

definition board_ladder :: "'w benv \<Rightarrow> int \<Rightarrow> 'w disp \<Rightarrow> (stop_reason + card list) \<times> 'w disp" where
  "board_ladder E wall st =
     (case tick (x_budget st) of
        Inl _ \<Rightarrow> (Inl TickCeiling, st)
      | Inr (_, b) \<Rightarrow>
          (case d_elapsed E (x_world st) of
             (t, v) \<Rightarrow>
               (let st1 = st\<lparr>x_budget := b, x_world := v\<rparr>
                in if wall \<le> t then (Inl WallClock, st1)
                   else if turns_left b = 0 then (Inl TurnBudget, st1)
                   else if is_complete (x_board st1) then (Inl Completed, st1)
                   else (case clock E st1 of
                           (now, st2) \<Rightarrow>
                             (case ready now (x_board st2) of
                                [] \<Rightarrow> (Inl NoRunnable, st2) | c # cs \<Rightarrow> (Inr (c # cs), st2))))))"

text \<open>One batch: \<open>Some\<close> reason ends the loop, \<open>None\<close> goes round again.\<close>

definition board_pass ::
  "'w benv \<Rightarrow> registry \<Rightarrow> u32 \<Rightarrow> card list \<Rightarrow> 'w disp \<Rightarrow> (dispatch_error + stop_reason option) \<times> 'w disp" where
  "board_pass E reg par rs st =
     (case claim_cards E reg (take (unat (max 1 par)) rs) []
             (st\<lparr>x_agent_of := Map.empty, x_claimed_at := Map.empty\<rparr>) of
        (Inl e, st1) \<Rightarrow> (Inl (Unresolved e), st1)
      | (Inr [], st1) \<Rightarrow> (Inr (Some TurnBudget), st1)
      | (Inr (x # xs), st1) \<Rightarrow>
          (case save E st1 of
             (Inl e, st2) \<Rightarrow> (Inl e, st2)
           | (Inr _, st2) \<Rightarrow>
               (case parallel_dispatch E (x # xs) st2 of
                  (results, st3) \<Rightarrow>
                    (case save E (fold (settle E (get_role reg ''reviewer'' \<noteq> None)) results st3) of
                       (Inl e, st4) \<Rightarrow> (Inl e, st4)
                     | (Inr _, st4) \<Rightarrow> (Inr None, st4)))))"

section \<open>What the small operations leave alone\<close>

lemma clock_frame [frame_simps]:
  "clock E st = (t, st') \<Longrightarrow> x_board st' = x_board st \<and> x_budget st' = x_budget st \<and> x_sent st' = x_sent st \<and>
     x_goal_turns st' = x_goal_turns st \<and> x_agent_of st' = x_agent_of st \<and> x_claimed_at st' = x_claimed_at st"
  by (auto simp: clock_def split: prod.splits)

lemma log_frame [simp]:
  "x_board (log E k i t st) = x_board st" "x_budget (log E k i t st) = x_budget st" "x_sent (log E k i t st) = x_sent st"
  "x_goal_turns (log E k i t st) = x_goal_turns st" "x_agent_of (log E k i t st) = x_agent_of st"
  "x_claimed_at (log E k i t st) = x_claimed_at st"
  by (simp_all add: log_def)

lemma on_card_frame [simp]:
  "x_board (on_card i f st) = card_mut i f (x_board st)" "x_budget (on_card i f st) = x_budget st"
  "x_sent (on_card i f st) = x_sent st" "x_goal_turns (on_card i f st) = x_goal_turns st"
  "x_agent_of (on_card i f st) = x_agent_of st" "x_claimed_at (on_card i f st) = x_claimed_at st"
  by (simp_all add: on_card_def)

lemma record_run_now_frame [simp]:
  "x_budget (record_run_now E i a out s t st) = x_budget st" "x_sent (record_run_now E i a out s t st) = x_sent st"
  "x_goal_turns (record_run_now E i a out s t st) = x_goal_turns st"
  "x_agent_of (record_run_now E i a out s t st) = x_agent_of st"
  "x_claimed_at (record_run_now E i a out s t st) = x_claimed_at st"
  by (simp_all add: record_run_now_def clock_def split: prod.split)

lemma resolve_card_worker_frame:
  "resolve_card_worker E a st = (r, st') \<Longrightarrow> x_board st' = x_board st \<and> x_budget st' = x_budget st \<and>
     x_sent st' = x_sent st \<and> x_goal_turns st' = x_goal_turns st \<and> x_agent_of st' = x_agent_of st \<and>
     x_claimed_at st' = x_claimed_at st"
  by (auto simp: resolve_card_worker_def Let_def split: prod.splits)

lemma save_frame:
  "save E st = (r, st') \<Longrightarrow> x_board st' = x_board st \<and> x_budget st' = x_budget st \<and> x_sent st' = x_sent st \<and>
     x_goal_turns st' = x_goal_turns st"
  by (auto simp: save_def split: prod.splits sum.splits)

section \<open>What a settled result does to the board\<close>

text \<open>A change of a card that leaves its identity, needs and limits alone.\<close>

definition keeps :: "(card \<Rightarrow> card) \<Rightarrow> bool" where
  "keeps f \<longleftrightarrow> (\<forall>c. c_id (f c) = c_id c \<and> c_deps (f c) = c_deps c \<and> c_max_retries (f c) = c_max_retries c \<and>
     c_goal (f c) = c_goal c \<and> c_goal_max_turns (f c) = c_goal_max_turns c)"

lemma keeps_id: "keeps f \<Longrightarrow> c_id (f c) = c_id c"
  by (simp add: keeps_def)

lemma keeps_comp: "keeps f \<Longrightarrow> keeps g \<Longrightarrow> keeps (f \<circ> g)"
  by (simp add: keeps_def)

lemma card_mut_comp: "(\<And>c. c_id (g c) = c_id c) \<Longrightarrow> card_mut i f (card_mut i g b) = card_mut i (f \<circ> g) b"
proof -
  assume g: "\<And>c. c_id (g c) = c_id c"
  have "update_first (\<lambda>c. c_id c = i) f (update_first (\<lambda>c. c_id c = i) g cs) = update_first (\<lambda>c. c_id c = i) (f \<circ> g) cs" for cs
    by (induction cs) (auto simp: g)
  then show ?thesis by (simp add: card_mut_def)
qed

lemma card_mut_none: "card_of b i = None \<Longrightarrow> card_mut i f b = b"
  by (simp add: card_of_def card_mut_def update_first_id)

text \<open>One card changed: its new status is \<open>s\<close>, its attempts stay.\<close>

definition settled :: "str \<Rightarrow> card_status \<Rightarrow> board \<Rightarrow> board \<Rightarrow> bool" where
  "settled i s b b' \<longleftrightarrow> (\<exists>f. keeps f \<and> (\<forall>c. c_status (f c) = s \<and> c_attempts (f c) = c_attempts c) \<and> b' = card_mut i f b)"

lemma settledI:
  "(\<And>c. c_status (f c) = s \<and> c_attempts (f c) = c_attempts c) \<Longrightarrow> keeps f \<Longrightarrow> settled i s b (card_mut i f b)"
  by (auto simp: settled_def)

lemma settled_then:
  assumes "settled i s b b'" and "\<And>c. c_status (f c) = c_status c \<and> c_attempts (f c) = c_attempts c" and "keeps f"
  shows "settled i s b (card_mut i f b')"
proof -
  obtain g where g: "keeps g" "\<forall>c. c_status (g c) = s \<and> c_attempts (g c) = c_attempts c" "b' = card_mut i g b"
    using assms(1) by (auto simp: settled_def)
  have "card_mut i f b' = card_mut i (f \<circ> g) b" unfolding g(3) by (rule card_mut_comp) (simp add: g(1) keeps_id)
  moreover have "keeps (f \<circ> g)" using assms(3) g(1) by (rule keeps_comp)
  ultimately show ?thesis using assms(2) g(2) by (auto simp: settled_def)
qed

lemma add_comment_mut: "\<exists>f. keeps f \<and> (\<forall>c. c_status (f c) = c_status c \<and> c_attempts (f c) = c_attempts c) \<and>
    snd (add_comment i a t now b) = card_mut i f b"
proof (cases "card_of b i")
  case None
  then show ?thesis by (auto simp: add_comment_def card_mut_none keeps_def intro!: exI [of _ id])
next
  case (Some c)
  then show ?thesis
    by (intro exI [of _ "\<lambda>c. c\<lparr>c_comments := c_comments c @ [\<lparr> cm_at = now, cm_author = a, cm_body = t \<rparr>],
      c_updated_at := Some now\<rparr>"]) (simp add: add_comment_def keeps_def)
qed

lemma record_run_now_settled:
  "settled i s b (x_board st) \<Longrightarrow> settled i s b (x_board (record_run_now E i a out t sm st))"
  by (auto simp: record_run_now_def clock_def record_run_def keeps_def split: prod.split intro!: settled_then)

text \<open>How a result counts against the two limits of its card.\<close>

definition sent_back :: "str \<Rightarrow> 'w disp \<Rightarrow> 'w disp \<Rightarrow> card_status \<Rightarrow> bool" where
  "sent_back i a b s \<longleftrightarrow>
     (case s of
        Todo \<Rightarrow>
          (case card_of (x_board a) i of
             None \<Rightarrow> x_goal_turns b = x_goal_turns a
           | Some c \<Rightarrow> (c_attempts c \<le> c_max_retries c \<and> x_goal_turns b = x_goal_turns a) \<or>
               (c_goal c \<and> or_keep (x_goal_turns a i) 0 < goal_limit c \<and>
                x_goal_turns b = (x_goal_turns a)(i \<mapsto> or_keep (x_goal_turns a i) 0 + 1)))
      | _ \<Rightarrow> x_goal_turns b = x_goal_turns a)"

text \<open>At most \<open>n\<close> dispatches were paid for and no more were sent than paid.\<close>

definition books :: "'w disp \<Rightarrow> 'w disp \<Rightarrow> bool" where
  "books a b \<longleftrightarrow> unat (turns_left (x_budget b)) \<le> unat (turns_left (x_budget a)) \<and>
     length (x_sent b) + unat (turns_left (x_budget b)) \<le> length (x_sent a) + unat (turns_left (x_budget a)) \<and>
     ticks_left (x_budget b) = ticks_left (x_budget a) \<and> budget_caps (x_budget b) = budget_caps (x_budget a)"

lemma books_refl [simp]: "books a a"
  by (simp add: books_def)

lemma books_trans: "books a b \<Longrightarrow> books b c \<Longrightarrow> books a c"
  by (auto simp: books_def)

lemma books_same: "x_budget b = x_budget a \<Longrightarrow> x_sent b = x_sent a \<Longrightarrow> books a b"
  by (simp add: books_def)

lemma fail_card_effect:
  "\<exists>s. settled i s (x_board st) (x_board (fail_card E i agent t e st)) \<and> s \<noteq> Doing \<and>
     sent_back i st (fail_card E i agent t e st) s \<and> books st (fail_card E i agent t e st)"
proof (cases "(case card_of (x_board st) i of None \<Rightarrow> 0 | Some c \<Rightarrow> c_attempts c) \<le>
    (case card_of (x_board st) i of None \<Rightarrow> 0 | Some c \<Rightarrow> c_max_retries c)")
  case True
  then show ?thesis
    by (intro exI [of _ Todo])
       (auto simp: fail_card_def Let_def sent_back_def keeps_def intro!: record_run_now_settled settledI books_same split: option.split)
next
  case False
  then show ?thesis
    by (intro exI [of _ Blocked])
       (auto simp: fail_card_def Let_def sent_back_def keeps_def intro!: record_run_now_settled settledI books_same split: option.split)
qed

lemma complete_card_effect:
  "settled i Done (x_board st) (x_board (complete_card E i agent t note st)) \<and>
   sent_back i st (complete_card E i agent t note st) Done \<and> books st (complete_card E i agent t note st)"
  by (auto simp: complete_card_def Let_def sent_back_def keeps_def intro!: record_run_now_settled settledI books_same split: option.split)

lemma revise_card_effect:
  assumes c: "card_of (x_board st) i = Some c" "c_goal c" "or_keep (x_goal_turns st i) 0 < goal_limit c"
  shows "settled i Todo (x_board st) (x_board (revise_card E i agent t note fb st)) \<and>
    sent_back i st (revise_card E i agent t note fb st) Todo \<and> books st (revise_card E i agent t note fb st)"
proof -
  let ?g = "\<lambda>c. c\<lparr>c_status := Todo, c_result := Some note\<rparr>"
  have m: "settled i Todo b (card_mut i ?g (snd (add_comment i a x now b)))" for a x now b
  proof -
    obtain f where f: "keeps f" "\<forall>c. c_attempts (f c) = c_attempts c" "snd (add_comment i a x now b) = card_mut i f b"
      using add_comment_mut by blast
    have "card_mut i ?g (card_mut i f b) = card_mut i (?g \<circ> f) b" by (rule card_mut_comp) (simp add: f(1) keeps_id)
    then show ?thesis using f by (auto simp: settled_def keeps_def intro!: exI [of _ "?g \<circ> f"])
  qed
  then show ?thesis
    using c by (auto simp: revise_card_def Let_def sent_back_def clock_def intro!: record_run_now_settled books_same split: prod.split)
qed

lemma spend_books:
  "spend_turn (x_budget st) = Inr (n, b) \<Longrightarrow> length (x_sent st') = Suc (length (x_sent st)) \<or> x_sent st' = x_sent st \<Longrightarrow>
     x_budget st' = b \<Longrightarrow> books st st'"
  using turns.spend_decreases [of "x_budget st" n b] spend_turn_frame [of "x_budget st" n b] by (auto simp: books_def)

lemma judge_card_frame:
  "judge_card E i w t d n st = (r, st') \<Longrightarrow> x_board st' = x_board st \<and> x_budget st' = x_budget st \<and>
     x_goal_turns st' = x_goal_turns st \<and> length (x_sent st') = Suc (length (x_sent st))"
  by (auto simp: judge_card_def Let_def split: prod.splits sum.splits)

lemma judge_goal_effect:
  assumes j: "judge_goal E hr i agent note st = (fb, st')"
  shows "x_board st' = x_board st \<and> x_goal_turns st' = x_goal_turns st \<and> books st st' \<and>
    (fb \<noteq> None \<longrightarrow> (\<exists>c. card_of (x_board st) i = Some c \<and> c_goal c \<and> or_keep (x_goal_turns st i) 0 < goal_limit c))"
proof (cases "card_of (x_board st) i")
  case None
  with j show ?thesis by (simp add: judge_goal_def)
next
  case (Some c)
  show ?thesis
  proof (cases "c_goal c \<and> or_keep (x_goal_turns st i) 0 < goal_limit c")
    case False
    with j Some show ?thesis by (simp add: judge_goal_def)
  next
    case go: True
    show ?thesis
    proof (cases "spend_turn (x_budget st)")
      case (Inl e)
      with j Some go show ?thesis by (simp add: judge_goal_def)
    next
      case (Inr p)
      then obtain n b where p: "spend_turn (x_budget st) = Inr (n, b)" by (cases p) auto
      let ?who = "if hr then Some ''reviewer'' else agent"
      obtain rw st1 where rw: "resolve_card_worker E ?who (st\<lparr>x_budget := b\<rparr>) = (rw, st1)" by fastforce
      note f = resolve_card_worker_frame [OF rw]
      show ?thesis
      proof (cases rw)
        case (Inl e)
        with j Some go p rw have "st' = st1" "fb = None" by (simp_all add: judge_goal_def del: if_split)
        with f spend_books [OF p, of st1] show ?thesis by simp
      next
        case (Inr jw)
        obtain v st2 where v: "judge_card E i jw (c_title c) (c_detail c) note st1 = (v, st2)" by fastforce
        from j Some go p rw Inr v have "st' = st2" by (auto simp: judge_goal_def simp del: if_split split: prod.splits if_split_asm)
        with f judge_card_frame [OF v] spend_books [OF p, of st2] Some go show ?thesis by simp
      qed
    qed
  qed
qed

lemma collect_note_frame:
  "collect_note E i agent reply st = (n, st') \<Longrightarrow> x_board st' = x_board st \<and> x_budget st' = x_budget st \<and>
     x_sent st' = x_sent st \<and> x_goal_turns st' = x_goal_turns st"
  by (auto simp: collect_note_def Let_def split: prod.splits option.splits)

lemma sent_back_cong:
  "x_board a' = x_board a \<Longrightarrow> x_goal_turns a' = x_goal_turns a \<Longrightarrow> sent_back i a' b s = sent_back i a b s"
  by (cases s; cases "card_of (x_board a) i"; simp add: sent_back_def)

lemma settle_effect:
  "\<exists>s. settled i s (x_board st) (x_board (settle E hr (i, res) st)) \<and> s \<noteq> Doing \<and>
     sent_back i st (settle E hr (i, res) st) s \<and> books st (settle E hr (i, res) st)"
proof -
  obtain t st1 where t: "(case x_claimed_at st i of Some t \<Rightarrow> (t, st) | None \<Rightarrow> clock E st) = (t, st1)" by fastforce
  then have f1: "x_board st1 = x_board st" "x_goal_turns st1 = x_goal_turns st" "books st st1"
    by (auto simp: clock_def intro: books_same split: option.splits prod.splits)
  let ?agent = "x_agent_of st i"
  show ?thesis
  proof (cases res)
    case (Inl err)
    then have "settle E hr (i, res) st = fail_card E i ?agent t err st1" by (simp add: settle_def t)
    with fail_card_effect [of i st1 E ?agent t err] f1 show ?thesis
      using sent_back_cong [OF f1(1,2)] books_trans [OF f1(3)] by auto
  next
    case (Inr reply)
    obtain nt st2 where n: "collect_note E i ?agent reply st1 = (nt, st2)" by fastforce
    obtain fb st3 where j: "judge_goal E hr i ?agent nt st2 = (fb, st3)" by fastforce
    note f2 = collect_note_frame [OF n] and f3 = judge_goal_effect [OF j]
    have same: "x_board st3 = x_board st" "x_goal_turns st3 = x_goal_turns st" using f1 f2 f3 by simp_all
    have b3: "books st st3" using f1(3) f2 f3 books_same [of st2 st1] by (metis books_trans)
    show ?thesis
    proof (cases fb)
      case None
      then have "settle E hr (i, res) st = complete_card E i ?agent t nt st3" by (simp add: settle_def t Inr n j)
      with complete_card_effect [of i st3 E ?agent t nt] same b3 show ?thesis
        using sent_back_cong [OF same] books_trans [OF b3] by auto
    next
      case (Some feedback)
      then have s: "settle E hr (i, res) st = revise_card E i ?agent t nt feedback st3" by (simp add: settle_def t Inr n j)
      obtain c where "card_of (x_board st3) i = Some c" "c_goal c" "or_keep (x_goal_turns st3 i) 0 < goal_limit c"
        using f3 Some same f2 f1 by auto
      from revise_card_effect [OF this, of E ?agent t nt feedback] s same b3 show ?thesis
        using sent_back_cong [OF same] books_trans [OF b3] by auto
    qed
  qed
qed

section \<open>What claiming does\<close>

definition claim_mark :: "card \<Rightarrow> card" where
  "claim_mark c = c\<lparr>c_status := Doing, c_attempts := c_attempts c + 1\<rparr>"

lemma keeps_claim_mark: "keeps claim_mark"
  by (simp add: keeps_def claim_mark_def)

lemma claim_cards_effect:
  "claim_cards E reg cs batch st = (r, st') \<Longrightarrow>
   \<exists>k \<le> length cs. let ids = take k (map c_id cs) in
     x_board st' = fold (\<lambda>i. card_mut i claim_mark) ids (x_board st) \<and>
     dom (x_agent_of st') = dom (x_agent_of st) \<union> set ids \<and>
     x_sent st' = x_sent st \<and> x_goal_turns st' = x_goal_turns st \<and>
     ticks_left (x_budget st') = ticks_left (x_budget st) \<and> budget_caps (x_budget st') = budget_caps (x_budget st) \<and>
     unat (turns_left (x_budget st')) + k \<le> unat (turns_left (x_budget st)) \<and>
     (\<forall>out. r = Inr out \<longrightarrow> map fst out = map fst batch @ ids)"
proof (induction E reg cs batch st arbitrary: r st' rule: claim_cards.induct)
  case (1 E reg batch st)
  then show ?case by auto
next
  case (2 E reg c cs batch st)
  show ?case
  proof (cases "spend_turn (x_budget st)")
    case (Inl e)
    with "2.prems" show ?thesis by (intro exI [of _ 0]) auto
  next
    case (Inr p)
    then obtain n b where p: "spend_turn (x_budget st) = Inr (n, b)" by (cases p) auto
    note sp = turns.spend_decreases [OF p] spend_turn_frame [OF p]
    obtain rw st1 where rw: "resolve_card_worker E (c_assignee c) (st\<lparr>x_budget := b\<rparr>) = (rw, st1)" by fastforce
    note f = resolve_card_worker_frame [OF rw]
    show ?thesis
    proof (cases rw)
      case (Inl e)
      with "2.prems" p rw f sp show ?thesis by (intro exI [of _ 0]) auto
    next
      case (Inr w)
      obtain t st2 where t: "clock E st1 = (t, st2)" by fastforce
      let ?task = "build_card_task reg (d_files E (x_world st1)) (x_board st1) c (d_out_dir E (c_id c))"
      let ?st3 = "st2\<lparr>x_agent_of := (x_agent_of st2)(c_id c \<mapsto> w_agent w), x_claimed_at := (x_claimed_at st2)(c_id c \<mapsto> t)\<rparr>"
      let ?st4 = "on_card (c_id c) (\<lambda>x. x\<lparr>c_status := Doing, c_attempts := c_attempts x + 1\<rparr>) ?st3"
      let ?st5 = "log E ''claim'' (c_id c) (c_title c @ '' -> '' @ w_agent w) ?st4"
      have rec: "claim_cards E reg cs (batch @ [(c_id c, w, ?task)]) ?st5 = (r, st')"
        using "2.prems" p rw Inr t by (simp add: Let_def)
      note g = clock_frame [OF t]
      note ih = "2.IH" [OF p refl rw [symmetric] Inr refl refl t [symmetric] refl refl refl rec]
      obtain k where k: "k \<le> length cs" and k2: "let ids = take k (map c_id cs) in
          x_board st' = fold (\<lambda>i. card_mut i claim_mark) ids (x_board ?st5) \<and>
          dom (x_agent_of st') = dom (x_agent_of ?st5) \<union> set ids \<and>
          x_sent st' = x_sent ?st5 \<and> x_goal_turns st' = x_goal_turns ?st5 \<and>
          ticks_left (x_budget st') = ticks_left (x_budget ?st5) \<and> budget_caps (x_budget st') = budget_caps (x_budget ?st5) \<and>
          unat (turns_left (x_budget st')) + k \<le> unat (turns_left (x_budget ?st5)) \<and>
          (\<forall>out. r = Inr out \<longrightarrow> map fst out = map fst (batch @ [(c_id c, w, ?task)]) @ ids)"
        using ih by blast
      have m: "claim_mark = (\<lambda>x. x\<lparr>c_status := Doing, c_attempts := c_attempts x + 1\<rparr>)" by (simp add: fun_eq_iff claim_mark_def)
      have d: "dom (x_agent_of ?st5) = insert (c_id c) (dom (x_agent_of st))" using f g by auto
      show ?thesis using k k2 f g sp unfolding Let_def d by (intro exI [of _ "Suc k"]) (auto simp: m)
    qed
  qed
qed

lemma parallel_dispatch_effect:
  "parallel_dispatch E batch st = (results, st') \<Longrightarrow> x_board st' = x_board st \<and> x_budget st' = x_budget st \<and>
     x_goal_turns st' = x_goal_turns st \<and> length (x_sent st') = length (x_sent st) + length batch \<and>
     map fst results = map fst batch"
proof -
  have "map fst (map (\<lambda>(k, i, w, task). (i, f k)) (List.enumerate n batch)) = map fst batch" for f :: "nat \<Rightarrow> str + str" and n
    by (induction batch arbitrary: n) auto
  then show "parallel_dispatch E batch st = (results, st') \<Longrightarrow> ?thesis"
    by (auto simp: parallel_dispatch_def split: prod.splits)
qed

section \<open>The life of a card\<close>

text \<open>
  The state machine behind the dispatcher: a board, the goal rounds used and the cards in
  flight. \<open>claim_cards\<close> and \<open>settle\<close> are its only moves.
\<close>

type_synonym flight = "board \<times> (str \<rightharpoonup> u32) \<times> str set"

definition within_limits :: "card \<Rightarrow> (str \<rightharpoonup> u32) \<Rightarrow> (str \<rightharpoonup> u32) \<Rightarrow> card_status \<Rightarrow> bool" where
  "within_limits c g g' s \<longleftrightarrow>
     (if s = Todo then (c_attempts c \<le> c_max_retries c \<and> g' = g) \<or>
        (c_goal c \<and> or_keep (g (c_id c)) 0 < goal_limit c \<and> g' = g(c_id c \<mapsto> or_keep (g (c_id c)) 0 + 1))
      else g' = g)"

inductive card_step :: "flight \<Rightarrow> flight \<Rightarrow> bool" where
  claim: "card_of b i = Some c \<Longrightarrow> c_status c = Todo \<Longrightarrow> \<forall>d\<in>set (c_deps c). card_done b d \<Longrightarrow>
    card_step (b, g, R) (card_mut i claim_mark b, g, insert i R)"
| settle: "card_of b i = Some c \<Longrightarrow> i \<in> R \<Longrightarrow> s \<noteq> Doing \<Longrightarrow> settled i s b b' \<Longrightarrow> within_limits c g g' s \<Longrightarrow>
    card_step (b, g, R) (b', g', R - {i})"

abbreviation card_steps :: "flight \<Rightarrow> flight \<Rightarrow> bool" where
  "card_steps \<equiv> card_step\<^sup>*\<^sup>*"

inductive_cases card_stepE: "card_step (b, g, R) s'"

lemma card_of_keeps: "keeps f \<Longrightarrow> card_of (card_mut i f b) j = (if i = j then map_option f (card_of b j) else card_of b j)"
  by (rule card_of_card_mut) (simp add: keeps_id)

lemma skeleton_keeps: "keeps f \<Longrightarrow> skeleton (card_mut i f b) = skeleton b"
  by (rule skeleton_card_mut) (simp add: keeps_def)

lemma settled_skeleton: "settled i s b b' \<Longrightarrow> skeleton b' = skeleton b"
  by (auto simp: settled_def skeleton_keeps)

lemma settled_at:
  "settled i s b b' \<Longrightarrow> card_of b i = Some c \<Longrightarrow> \<exists>f. card_of b' i = Some (f c) \<and> keeps f \<and>
     c_status (f c) = s \<and> c_attempts (f c) = c_attempts c"
  by (auto simp: settled_def card_of_keeps)

lemma settled_other: "settled i s b b' \<Longrightarrow> j \<noteq> i \<Longrightarrow> card_of b' j = card_of b j"
  by (auto simp: settled_def card_of_keeps)

lemma card_of_claim:
  "card_of (card_mut i claim_mark b) j = (if i = j then map_option claim_mark (card_of b j) else card_of b j)"
  by (rule card_of_keeps [OF keeps_claim_mark])

lemma card_of_known: "card_of b i \<noteq> None \<longleftrightarrow> i \<in> set (card_ids b)"
  by (simp add: card_of_None_iff)

lemma card_steps_skeleton: "card_steps x y \<Longrightarrow> skeleton (fst y) = skeleton (fst x)"
proof (induction rule: rtranclp_induct)
  case base
  then show ?case by simp
next
  case (step y z)
  from step(2) have "skeleton (fst z) = skeleton (fst y)"
    by (cases rule: card_step.cases) (auto simp: skeleton_keeps keeps_claim_mark settled_skeleton)
  with step(3) show ?case by simp
qed

lemma claims_refine:
  assumes "distinct ids" and "\<forall>i\<in>set ids. \<exists>c. card_of b i = Some c \<and> c_status c = Todo \<and> (\<forall>d\<in>set (c_deps c). card_done b d)"
  shows "card_steps (b, g, R) (fold (\<lambda>i. card_mut i claim_mark) ids b, g, R \<union> set ids)"
  using assms
proof (induction ids arbitrary: b R)
  case Nil
  then show ?case by simp
next
  case (Cons i ids)
  then obtain c where c: "card_of b i = Some c" "c_status c = Todo" "\<forall>d\<in>set (c_deps c). card_done b d" by auto
  let ?b = "card_mut i claim_mark b"
  have dn: "card_done b d \<Longrightarrow> card_done ?b d" for d using c by (auto simp: card_done_iff card_of_claim)
  have "\<forall>j\<in>set ids. \<exists>c. card_of ?b j = Some c \<and> c_status c = Todo \<and> (\<forall>d\<in>set (c_deps c). card_done ?b d)"
    using Cons.prems dn by (auto simp: card_of_claim)
  from Cons.IH [OF _ this, of "insert i R"] Cons.prems(1)
  have "card_steps (?b, g, insert i R) (fold (\<lambda>i. card_mut i claim_mark) (i # ids) b, g, R \<union> set (i # ids))" by simp
  with card_step.claim [OF c, of g R] show ?case by (rule converse_rtranclp_into_rtranclp)
qed

lemma settles_refine:
  assumes "distinct (map fst results)" and "set (map fst results) \<subseteq> R" and "set (map fst results) \<subseteq> set (card_ids (x_board st))"
    and "st' = fold (settle E hr) results st"
  shows "card_steps (x_board st, x_goal_turns st, R) (x_board st', x_goal_turns st', R - set (map fst results)) \<and> books st st'"
  using assms
proof (induction results arbitrary: st R)
  case Nil
  then show ?case by simp
next
  case (Cons p results)
  obtain i res where p: "p = (i, res)" by fastforce
  let ?st1 = "settle E hr (i, res) st"
  obtain s where s: "settled i s (x_board st) (x_board ?st1)" "s \<noteq> Doing" "sent_back i st ?st1 s" "books st ?st1"
    using settle_effect [of i st E hr res] by blast
  have "i \<in> set (card_ids (x_board st))" using Cons.prems(3) p by simp
  then obtain c where c: "card_of (x_board st) i = Some c" using card_of_known [of "x_board st" i] by blast
  then have "c_id c = i" using card_of_Some by blast
  with s(3) c have "within_limits c (x_goal_turns st) (x_goal_turns ?st1) s"
    by (cases s; simp add: sent_back_def within_limits_def)
  with c s Cons.prems(2) p have st: "card_step (x_board st, x_goal_turns st, R) (x_board ?st1, x_goal_turns ?st1, R - {i})"
    by (intro card_step.settle) auto
  have "card_ids (x_board ?st1) = card_ids (x_board st)"
    using settled_skeleton [OF s(1)] by (simp add: card_ids_skeleton)
  then have "card_steps (x_board ?st1, x_goal_turns ?st1, R - {i})
      (x_board st', x_goal_turns st', R - {i} - set (map fst results)) \<and> books ?st1 st'"
    using Cons.IH [of "R - {i}" ?st1] Cons.prems p by auto
  moreover have "R - {i} - set (map fst results) = R - set (map fst (p # results))" using p by auto
  ultimately have "card_steps (x_board ?st1, x_goal_turns ?st1, R - {i})
      (x_board st', x_goal_turns st', R - set (map fst (p # results)))" and b: "books ?st1 st'" by simp_all
  from converse_rtranclp_into_rtranclp [of card_step, OF st this(1)] books_trans [OF s(4) b] show ?case by blast
qed

section \<open>One batch\<close>

lemma settles_books: "books st (fold (settle E hr) results st)"
proof (induction results arbitrary: st)
  case Nil
  then show ?case by simp
next
  case (Cons p results)
  obtain i res where p: "p = (i, res)" by fastforce
  from settle_effect [of i st E hr res] have "books st (settle E hr (i, res) st)" by blast
  from books_trans [OF this Cons.IH] show ?case by (simp add: p)
qed

text \<open>The ways one batch can go.\<close>

lemma board_pass_cases [consumes 1, case_names unresolved spent unsaved ran]:
  assumes p: "board_pass E reg par rs st = (r, st')"
  obtains e where "r = Inl (Unresolved e)"
      "claim_cards E reg (take (unat (max 1 par)) rs) [] (st\<lparr>x_agent_of := Map.empty, x_claimed_at := Map.empty\<rparr>) = (Inl e, st')"
  | "r = Inr (Some TurnBudget)"
      "claim_cards E reg (take (unat (max 1 par)) rs) [] (st\<lparr>x_agent_of := Map.empty, x_claimed_at := Map.empty\<rparr>) = (Inr [], st')"
  | e batch st1 where "r = Inl (NotSaved e)" "batch \<noteq> []"
      "claim_cards E reg (take (unat (max 1 par)) rs) [] (st\<lparr>x_agent_of := Map.empty, x_claimed_at := Map.empty\<rparr>) = (Inr batch, st1)"
      "save E st1 = (Inl (NotSaved e), st')"
  | batch st1 st2 results st3 q where "batch \<noteq> []"
      "claim_cards E reg (take (unat (max 1 par)) rs) [] (st\<lparr>x_agent_of := Map.empty, x_claimed_at := Map.empty\<rparr>) = (Inr batch, st1)"
      "save E st1 = (Inr (), st2)" "parallel_dispatch E batch st2 = (results, st3)"
      "save E (fold (settle E (get_role reg ''reviewer'' \<noteq> None)) results st3) = (q, st')"
      "r = (case q of Inl e \<Rightarrow> Inl e | Inr _ \<Rightarrow> Inr None)" "\<forall>e. q = Inl e \<longrightarrow> (\<exists>m. e = NotSaved m)"
proof -
  let ?st = "st\<lparr>x_agent_of := Map.empty, x_claimed_at := Map.empty\<rparr>"
  have sv: "\<exists>m. e = NotSaved m" if "save E a = (Inl e, b)" for a b e
    using that by (auto simp: save_def split: prod.splits sum.splits)
  obtain rc st1 where c: "claim_cards E reg (take (unat (max 1 par)) rs) [] ?st = (rc, st1)" by fastforce
  show thesis
  proof (cases rc)
    case (Inl e)
    with p c have "r = Inl (Unresolved e)" "st' = st1" by (simp_all add: board_pass_def)
    with c Inl that(1) show thesis by blast
  next
    case (Inr batch)
    show thesis
    proof (cases batch)
      case Nil
      with p c Inr that(2) show thesis by (simp add: board_pass_def)
    next
      case (Cons x xs)
      obtain rs1 st2 where s1: "save E st1 = (rs1, st2)" by fastforce
      show thesis
      proof (cases rs1)
        case e: (Inl e)
        with sv s1 obtain m where "e = NotSaved m" by blast
        with p c Inr Cons s1 e have "r = Inl (NotSaved m)" "st' = st2" by (simp_all add: board_pass_def)
        moreover have "batch \<noteq> []" using Cons by simp
        ultimately show thesis using that(3) c s1 unfolding Inr e \<open>e = NotSaved m\<close> by blast
      next
        case ok: (Inr u)
        obtain results st3 where d: "parallel_dispatch E batch st2 = (results, st3)" by fastforce
        obtain q st4 where s2: "save E (fold (settle E (get_role reg ''reviewer'' \<noteq> None)) results st3) = (q, st4)" by fastforce
        have "st' = st4" "r = (case q of Inl e \<Rightarrow> Inl e | Inr _ \<Rightarrow> Inr None)"
          using p c Inr Cons s1 ok d s2 by (simp_all add: board_pass_def split: sum.splits)
        with that(4) [of batch st1 st2 results st3 q] c Inr Cons s1 ok d s2 sv show thesis by auto
      qed
    qed
  qed
qed

lemma books_less:
  "unat (turns_left (x_budget b)) + k \<le> unat (turns_left (x_budget a)) \<Longrightarrow> length (x_sent b) \<le> length (x_sent a) + k \<Longrightarrow>
    ticks_left (x_budget b) = ticks_left (x_budget a) \<Longrightarrow> budget_caps (x_budget b) = budget_caps (x_budget a) \<Longrightarrow> books a b"
  by (simp add: books_def)

lemma board_pass_books: "board_pass E reg par rs st = (r, st') \<Longrightarrow> books st st'"
proof (induction rule: board_pass_cases)
  case (unresolved e)
  show ?case using claim_cards_effect [OF unresolved(2)] by (auto simp: books_def Let_def)
next
  case spent
  show ?case using claim_cards_effect [OF spent(2)] by (auto simp: books_def Let_def)
next
  case (unsaved e batch st1)
  show ?case using claim_cards_effect [OF unsaved(3)] save_frame [OF unsaved(4)] by (auto simp: books_def Let_def)
next
  case (ran batch st1 st2 results st3 q)
  from claim_cards_effect [OF ran(2)] obtain k where
    k: "x_sent st1 = x_sent st" "ticks_left (x_budget st1) = ticks_left (x_budget st)" "budget_caps (x_budget st1) = budget_caps (x_budget st)"
      "unat (turns_left (x_budget st1)) + k \<le> unat (turns_left (x_budget st))" "map fst batch = take k (map c_id (take (unat (max 1 par)) rs))"
    by (auto simp: Let_def)
  have "length batch \<le> k" using arg_cong [OF k(5), of length] by simp
  then have "books st st3"
    using k save_frame [OF ran(3)] parallel_dispatch_effect [OF ran(4)] by (intro books_less [of _ k]) auto
  moreover have "books (fold (settle E (get_role reg ''reviewer'' \<noteq> None)) results st3) st'"
    using save_frame [OF ran(5)] by (auto intro: books_same)
  ultimately show ?case using settles_books books_trans by blast
qed

text \<open>A batch of ready cards is a sequence of moves of the machine.\<close>

definition startable :: "board \<Rightarrow> card list \<Rightarrow> bool" where
  "startable b rs \<longleftrightarrow> distinct (map c_id rs) \<and>
     (\<forall>c\<in>set rs. card_of b (c_id c) = Some c \<and> c_status c = Todo \<and> (\<forall>d\<in>set (c_deps c). card_done b d))"

lemma ready_startable: "distinct (card_ids b) \<Longrightarrow> startable b (ready now b)"
proof -
  assume d: "distinct (card_ids b)"
  then have "distinct (b_cards b)" "inj_on c_id (set (b_cards b))" by (simp_all add: card_ids_def distinct_map)
  then have "distinct (map c_id (ready now b))"
    by (auto simp: ready_def distinct_map intro: inj_on_subset)
  then show ?thesis
    using card_of_distinct [OF d] by (auto simp: startable_def set_ready is_ready_def list_all_iff)
qed

lemma claim_refines:
  assumes s: "startable (x_board st) rs" and c: "claim_cards E reg (take n rs) [] st = (r, st')"
  shows "\<exists>ids. distinct ids \<and> set ids \<subseteq> set (card_ids (x_board st)) \<and> x_goal_turns st' = x_goal_turns st \<and>
    dom (x_agent_of st') = dom (x_agent_of st) \<union> set ids \<and> (\<forall>out. r = Inr out \<longrightarrow> map fst out = ids) \<and>
    skeleton (x_board st') = skeleton (x_board st) \<and>
    card_steps (x_board st, x_goal_turns st, {}) (x_board st', x_goal_turns st', set ids)"
proof -
  obtain k where k: "x_board st' = fold (\<lambda>i. card_mut i claim_mark) (take k (map c_id (take n rs))) (x_board st)"
    "dom (x_agent_of st') = dom (x_agent_of st) \<union> set (take k (map c_id (take n rs)))" "x_goal_turns st' = x_goal_turns st"
    "\<forall>out. r = Inr out \<longrightarrow> map fst out = take k (map c_id (take n rs))"
    using claim_cards_effect [OF c] by (auto simp: Let_def)
  let ?ids = "take k (map c_id (take n rs))"
  have ids: "?ids = map c_id (take (min k n) rs)" by (simp add: take_map)
  have "distinct (map c_id rs)" using s by (simp add: startable_def)
  then have d: "distinct ?ids" by (simp add: distinct_take flip: take_map)
  have todo: "\<forall>i\<in>set ?ids. \<exists>c. card_of (x_board st) i = Some c \<and> c_status c = Todo \<and> (\<forall>d\<in>set (c_deps c). card_done (x_board st) d)"
    using s set_take_subset [of "min k n" rs] unfolding ids startable_def by auto
  then have "set ?ids \<subseteq> set (card_ids (x_board st))" using card_of_known by (metis option.distinct(1) subsetI)
  moreover have st: "card_steps (x_board st, x_goal_turns st, {}) (x_board st', x_goal_turns st', set ?ids)"
    using claims_refine [OF d todo, of "x_goal_turns st" "{}"] k by simp
  ultimately show ?thesis using d k card_steps_skeleton [OF st] by (intro exI [of _ ?ids]) simp
qed

lemma board_pass_refines:
  assumes s: "startable (x_board st) rs" and p: "board_pass E reg par rs st = (r, st')"
  shows "\<exists>R. card_steps (x_board st, x_goal_turns st, {}) (x_board st', x_goal_turns st', R) \<and>
    (\<forall>w. r = Inr w \<longrightarrow> R = {}) \<and> (\<forall>e. r = Inl (Unresolved e) \<longrightarrow> R = dom (x_agent_of st'))"
  using p
proof (cases rule: board_pass_cases)
  case (unresolved e)
  from claim_refines [OF _ unresolved(2)] s obtain ids where
    "dom (x_agent_of st') = set ids" "card_steps (x_board st, x_goal_turns st, {}) (x_board st', x_goal_turns st', set ids)" by auto
  with unresolved(1) show ?thesis by auto
next
  case spent
  from claim_refines [OF _ spent(2)] s spent(1) show ?thesis by auto
next
  case (unsaved e batch st1)
  from claim_refines [OF _ unsaved(3)] s obtain R where
    "card_steps (x_board st, x_goal_turns st, {}) (x_board st1, x_goal_turns st1, R)" by auto
  with unsaved(1) save_frame [OF unsaved(4)] show ?thesis by auto
next
  case (ran batch st1 st2 results st3 q)
  from claim_refines [OF _ ran(2)] s obtain ids where
    ids: "distinct ids" "set ids \<subseteq> set (card_ids (x_board st))" "map fst batch = ids" "skeleton (x_board st1) = skeleton (x_board st)"
      "card_steps (x_board st, x_goal_turns st, {}) (x_board st1, x_goal_turns st1, set ids)" by auto
  note f2 = save_frame [OF ran(3)] and f3 = parallel_dispatch_effect [OF ran(4)] and f5 = save_frame [OF ran(5)]
  have "set ids \<subseteq> set (card_ids (x_board st3))" using ids(2,4) f2 f3 by (simp add: card_ids_skeleton)
  then have "card_steps (x_board st3, x_goal_turns st3, set ids) (x_board st', x_goal_turns st', {})"
    using settles_refine [of results "set ids" st3 _ E] ids f3 f5 by (simp add: Diff_eq_empty_iff [THEN iffD2])
  with ids(5) f2 f3 have "card_steps (x_board st, x_goal_turns st, {}) (x_board st', x_goal_turns st', {})" by simp
  with ran(6,7) show ?thesis by (auto split: sum.splits)
qed

section \<open>The whole run\<close>

lemma board_ladder_frame:
  assumes l: "board_ladder E wall st = (r, st')"
  shows "x_board st' = x_board st \<and> x_goal_turns st' = x_goal_turns st \<and> x_sent st' = x_sent st \<and>
    turns_left (x_budget st') = turns_left (x_budget st) \<and> budget_caps (x_budget st') = budget_caps (x_budget st) \<and>
    (\<forall>rs. r = Inr rs \<longrightarrow> Suc (unat (ticks_left (x_budget st'))) = unat (ticks_left (x_budget st)) \<and>
       (\<exists>now. rs = ready now (x_board st)))"
proof (cases "tick (x_budget st)")
  case (Inl e)
  with l show ?thesis by (auto simp: board_ladder_def)
next
  case (Inr p)
  then obtain n b where p: "tick (x_budget st) = Inr (n, b)" by (cases p) auto
  note tk = ticks.spend_decreases [OF p] tick_frame [OF p]
  obtain t v where e: "d_elapsed E (x_world st) = (t, v)" by fastforce
  obtain now st2 where c: "clock E (st\<lparr>x_budget := b, x_world := v\<rparr>) = (now, st2)" by fastforce
  note f = clock_frame [OF c]
  show ?thesis
  proof (cases "ready now (x_board st2)")
    case Nil
    with l p e c f tk show ?thesis by (auto simp: board_ladder_def Let_def simp del: if_split split: if_split_asm)
  next
    case (Cons x xs)
    with l p e c f tk show ?thesis by (auto simp: board_ladder_def Let_def simp del: if_split split: if_split_asm intro: exI [of _ now])
  qed
qed

function board_loop :: "'w benv \<Rightarrow> registry \<Rightarrow> caps \<Rightarrow> 'w disp \<Rightarrow> (dispatch_error + stop_reason) \<times> 'w disp" where
  "board_loop E reg c st =
     (case board_ladder E (uint (max_wall_seconds c) * 1000000000) st of
        (Inl why, st1) \<Rightarrow> (Inr why, st1)
      | (Inr rs, st1) \<Rightarrow>
          (case board_pass E reg (max_parallel c) rs st1 of
             (Inl e, st2) \<Rightarrow> (Inl e, st2)
           | (Inr (Some why), st2) \<Rightarrow> (Inr why, st2)
           | (Inr None, st2) \<Rightarrow> board_loop E reg c st2))"
  by auto
termination
  by (relation "measure (\<lambda>(E, reg, c, st). unat (ticks_left (x_budget st)))")
     (auto dest!: board_ladder_frame [OF sym] board_pass_books [OF sym] simp: books_def)

declare board_loop.simps [simp del]

definition run_board_inner :: "'w benv \<Rightarrow> registry \<Rightarrow> caps \<Rightarrow> 'w disp \<Rightarrow> (dispatch_error + stop_reason) \<times> 'w disp" where
  "run_board_inner E reg c st = board_loop E reg c (st\<lparr>x_budget := new_budget c, x_goal_turns := Map.empty\<rparr>)"

datatype board_run_error =
    EmptyBoardFile
  | InvalidBoardFile board_error
  | NoPlacement str
  | NoWire str
  | Dispatch dispatch_error
  | NotPublished str

definition log_run :: "'w benv \<Rightarrow> str \<Rightarrow> str \<Rightarrow> 'w disp \<Rightarrow> 'w disp" where
  "log_run E kind text st = st\<lparr>x_world := d_log E kind None text (x_world st)\<rparr>"

definition reclaim :: "'w benv \<Rightarrow> 'w disp \<Rightarrow> (dispatch_error + unit) \<times> 'w disp" where
  "reclaim E st =
     (case reclaim_in_flight (x_board st) of
        (n, b) \<Rightarrow> if 0 < n then save E (log_run E ''reclaim'' (show_nat n @ '' card(s) reset doing->todo'') (st\<lparr>x_board := b\<rparr>))
                  else (Inr (), st\<lparr>x_board := b\<rparr>))"

text \<open>After the loop: stop the VMs, save (its failure ignored), publish the files, log the end.\<close>

definition close_run :: "'w benv \<Rightarrow> (dispatch_error + stop_reason) \<times> 'w disp \<Rightarrow> (board_run_error + stop_reason) \<times> 'w disp" where
  "close_run E res =
     (case res of (r, st) \<Rightarrow>
        (case teardown (x_pool st) of (vms, wp) \<Rightarrow>
           (let st1 = snd (save E (st\<lparr>x_pool := wp, x_world := d_stop E vms (x_world st)\<rparr>))
            in case d_publish E (x_world st1) of
                 (Inl e, v) \<Rightarrow> (Inl (NotPublished e), st1\<lparr>x_world := v\<rparr>)
               | (Inr _, v) \<Rightarrow>
                   (case counts (x_board st1) of
                      (_, _, n_done, n_blocked) \<Rightarrow>
                        (case r of Inl e \<Rightarrow> Inl (Dispatch e) | Inr why \<Rightarrow> Inr why,
                         log_run E ''run_end'' (show_nat n_done @ '' done, '' @ show_nat n_blocked @ '' blocked'')
                           (st1\<lparr>x_world := v\<rparr>))))))"

text \<open>
  \<open>run_board\<close> on a loaded board. \<open>placed\<close>: the resolved registry and base spec; \<open>wired\<close>:
  whether the token, the A2A server and the run directory could be set up.
\<close>

definition run_board ::
  "'w benv \<Rightarrow> str + registry \<times> str \<Rightarrow> str + unit \<Rightarrow> str \<Rightarrow> caps_override \<Rightarrow> board \<Rightarrow> 'w \<Rightarrow>
     (board_run_error + stop_reason) \<times> 'w disp" where
  "run_board E placed wired run_id ov b v =
     (let caps = tighten_with default_caps ov;
          st = \<lparr> x_board = b, x_budget = new_budget caps, x_pool = new_pool [] run_id [] (max_concurrent_vms caps),
            x_world = v, x_goal_turns = Map.empty, x_agent_of = Map.empty, x_claimed_at = Map.empty, x_sent = [] \<rparr>
      in if b_cards b = [] then (Inl EmptyBoardFile, st)
         else case validate_board b of
           Inl e \<Rightarrow> (Inl (InvalidBoardFile e), st)
         | Inr _ \<Rightarrow>
             (case reclaim E st of
                (Inl e, st1) \<Rightarrow> (Inl (Dispatch e), st1)
              | (Inr _, st1) \<Rightarrow>
                  (case placed of
                     Inl e \<Rightarrow> (Inl (NoPlacement e), st1)
                   | Inr (reg, base) \<Rightarrow>
                       (case wired of
                          Inl e \<Rightarrow> (Inl (NoWire e), st1)
                        | Inr _ \<Rightarrow>
                            close_run E (run_board_inner E reg caps (log_run E ''run_start''
                              (''run '' @ run_id @ '' ('' @ show_nat (length (b_cards b)) @ '' cards)'')
                              (st1\<lparr>x_pool := new_pool reg run_id base (max_concurrent_vms caps)\<rparr>)))))))"

lemma board_loop_refines:
  "board_loop E reg c st = (r, st') \<Longrightarrow> distinct (card_ids (x_board st)) \<Longrightarrow>
   \<exists>R. card_steps (x_board st, x_goal_turns st, {}) (x_board st', x_goal_turns st', R) \<and>
     (\<forall>w. r = Inr w \<longrightarrow> R = {}) \<and> (\<forall>e. r = Inl (Unresolved e) \<longrightarrow> R = dom (x_agent_of st'))"
proof (induction E reg c st arbitrary: r st' rule: board_loop.induct)
  case (1 E reg c st)
  obtain lad st1 where l: "board_ladder E (uint (max_wall_seconds c) * 1000000000) st = (lad, st1)" by fastforce
  note f = board_ladder_frame [OF l]
  show ?case
  proof (cases lad)
    case (Inl why)
    with 1 l f show ?thesis by (auto simp: board_loop.simps [of E reg c st])
  next
    case (Inr rs)
    with f ready_startable "1.prems"(2) have s: "startable (x_board st1) rs" by auto
    obtain q st2 where p: "board_pass E reg (max_parallel c) rs st1 = (q, st2)" by fastforce
    obtain R where R: "card_steps (x_board st, x_goal_turns st, {}) (x_board st2, x_goal_turns st2, R)"
      "\<forall>w. q = Inr w \<longrightarrow> R = {}" "\<forall>e. q = Inl (Unresolved e) \<longrightarrow> R = dom (x_agent_of st2)"
      using board_pass_refines [OF s p] f by auto
    show ?thesis
    proof (cases "q = Inr None")
      case False
      then have "st' = st2 \<and> r = (case q of Inl e \<Rightarrow> Inl e | Inr w \<Rightarrow> Inr (the w))"
        using "1.prems"(1) l Inr p by (auto simp: board_loop.simps [of E reg c st] split: sum.splits option.splits)
      with R show ?thesis by (auto split: sum.splits)
    next
      case True
      then have rec: "board_loop E reg c st2 = (r, st')"
        using "1.prems"(1) l Inr p by (simp add: board_loop.simps [of E reg c st])
      have "distinct (card_ids (x_board st2))"
        using card_steps_skeleton [OF R(1)] "1.prems"(2) by (simp add: card_ids_skeleton)
      from "1.IH" [OF l [symmetric] Inr p [symmetric] True refl rec this] obtain R' where
        R': "card_steps (x_board st2, x_goal_turns st2, {}) (x_board st', x_goal_turns st', R')"
          "\<forall>w. r = Inr w \<longrightarrow> R' = {}" "\<forall>e. r = Inl (Unresolved e) \<longrightarrow> R' = dom (x_agent_of st')" by blast
      with R True show ?thesis by (intro exI [of _ R']) (auto intro: rtranclp_trans)
    qed
  qed
qed

lemma board_loop_paid:
  "board_loop E reg c st = (r, st') \<Longrightarrow>
   length (x_sent st') + unat (turns_left (x_budget st')) \<le> length (x_sent st) + unat (turns_left (x_budget st))"
proof (induction E reg c st arbitrary: r st' rule: board_loop.induct)
  case (1 E reg c st)
  obtain lad st1 where l: "board_ladder E (uint (max_wall_seconds c) * 1000000000) st = (lad, st1)" by fastforce
  note f = board_ladder_frame [OF l]
  show ?case
  proof (cases lad)
    case (Inl why)
    with "1.prems" l f show ?thesis by (auto simp: board_loop.simps [of E reg c st])
  next
    case (Inr rs)
    obtain q st2 where p: "board_pass E reg (max_parallel c) rs st1 = (q, st2)" by fastforce
    note b = board_pass_books [OF p]
    show ?thesis
    proof (cases "q = Inr None")
      case False
      then have "st' = st2"
        using "1.prems" l Inr p by (auto simp: board_loop.simps [of E reg c st] split: sum.splits option.splits)
      with b f show ?thesis by (simp add: books_def)
    next
      case True
      then have "board_loop E reg c st2 = (r, st')"
        using "1.prems" l Inr p by (simp add: board_loop.simps [of E reg c st])
      from "1.IH" [OF l [symmetric] Inr p [symmetric] True refl this] b f show ?thesis by (simp add: books_def)
    qed
  qed
qed

section \<open>Invariants of the machine\<close>

definition flying :: "board \<Rightarrow> str set" where
  "flying b = {i. \<exists>c. card_of b i = Some c \<and> c_status c = Doing}"

text \<open>From one board to a later one: done stays done, and what became done had its needs done.\<close>

definition released :: "board \<Rightarrow> board \<Rightarrow> bool" where
  "released b b' \<longleftrightarrow> (\<forall>i. card_done b i \<longrightarrow> card_done b' i) \<and>
     (\<forall>i. card_done b' i \<longrightarrow> card_done b i \<or> (\<forall>d\<in>set (card_deps b i). card_done b' d))"

definition ordered :: "board \<Rightarrow> flight \<Rightarrow> bool" where
  "ordered b0 s = (case s of (b, g, R) \<Rightarrow> R = flying b \<and> skeleton b = skeleton b0 \<and>
     (\<forall>i\<in>R. \<forall>d\<in>set (card_deps b0 i). card_done b d) \<and> released b0 b)"

lemma card_deps_same: "skeleton b = skeleton b' \<Longrightarrow> card_deps b = card_deps b'"
  by (rule ext) (simp add: card_deps_skeleton)

lemma card_of_deps: "card_of b i = Some c \<Longrightarrow> card_deps b i = c_deps c"
  by (simp add: card_deps_def)

lemma ordered_step:
  assumes "card_step s s'" and "ordered b0 s"
  shows "ordered b0 s'"
  using assms(1)
proof (cases rule: card_step.cases)
  case (claim b i c g R)
  let ?b = "card_mut i claim_mark b"
  have o: "R = flying b" "skeleton b = skeleton b0" "\<forall>i\<in>R. \<forall>d\<in>set (card_deps b0 i). card_done b d" "released b0 b"
    using assms(2) claim(1) by (simp_all add: ordered_def)
  have dn: "card_done ?b d = card_done b d" for d
    using claim(3,4) by (auto simp: card_done_iff card_of_claim claim_mark_def)
  have "flying ?b = insert i R" unfolding o(1) using claim(3) by (auto simp: flying_def card_of_claim claim_mark_def)
  moreover have "card_deps b0 i = c_deps c" using card_deps_same [OF o(2)] card_of_deps [OF claim(3)] by simp
  ultimately show ?thesis
    using o claim(5) by (auto simp: claim(2) ordered_def skeleton_keeps keeps_claim_mark dn released_def)
next
  case (settle b i c R s b' g g')
  have o: "R = flying b" "skeleton b = skeleton b0" "\<forall>i\<in>R. \<forall>d\<in>set (card_deps b0 i). card_done b d" "released b0 b"
    using assms(2) settle(1) by (simp_all add: ordered_def)
  obtain f where f: "card_of b' i = Some (f c)" "c_status (f c) = s" using settled_at [OF settle(6,3)] by blast
  note other = settled_other [OF settle(6)]
  have "c_status c = Doing" using settle(3,4) o(1) by (auto simp: flying_def)
  then have dn: "card_done b' d \<longleftrightarrow> (if d = i then s = Done else card_done b d)" "card_done b i = False" for d
    using f other [of d] settle(3) by (auto simp: card_done_iff)
  have fl: "flying b' = R - {i}"
  proof (rule set_eqI)
    fix j show "j \<in> flying b' \<longleftrightarrow> j \<in> R - {i}"
      using f other [of j] settle(5) by (cases "j = i") (auto simp: o(1) flying_def)
  qed
  have keep: "card_done b d \<Longrightarrow> card_done b' d" for d using dn by (cases "d = i") auto
  have "released b0 b'"
    unfolding released_def
  proof (intro conjI allI impI)
    fix j show "card_done b0 j \<Longrightarrow> card_done b' j" using o(4) keep by (auto simp: released_def)
  next
    fix j assume "card_done b' j"
    then show "card_done b0 j \<or> (\<forall>d\<in>set (card_deps b0 j). card_done b' d)"
      using o(3,4) settle(4) keep dn by (cases "j = i") (auto simp: released_def)
  qed
  with fl o(2,3) keep show ?thesis by (auto simp: settle(2) ordered_def settled_skeleton [OF settle(6)])
qed

lemma ordered_steps: "card_steps s s' \<Longrightarrow> ordered b0 s \<Longrightarrow> ordered b0 s'"
  by (induction rule: rtranclp_induct) (auto intro: ordered_step)

lemma ordered_start: "flying b = {} \<Longrightarrow> ordered b (b, g, {})"
  by (simp add: ordered_def released_def)

text \<open>Attempts are paid for by retries and goal rounds.\<close>

definition rounds :: "(str \<rightharpoonup> u32) \<Rightarrow> str \<Rightarrow> nat" where
  "rounds g i = unat (or_keep (g i) 0)"

definition paid_attempts :: "card \<Rightarrow> card \<Rightarrow> nat \<Rightarrow> bool" where
  "paid_attempts c0 c u \<longleftrightarrow> c_max_retries c = c_max_retries c0 \<and> c_goal c = c_goal c0 \<and> c_goal_max_turns c = c_goal_max_turns c0 \<and>
     u \<le> unat (goal_limit c0) \<and> (c_goal c0 \<or> u = 0) \<and>
     c_attempts c \<le> max (c_attempts c0) (c_max_retries c0) + u + (if c_status c = Todo then 0 else 1)"

definition metered :: "board \<Rightarrow> flight \<Rightarrow> bool" where
  "metered b0 s = (case s of (b, g, R) \<Rightarrow> skeleton b = skeleton b0 \<and>
     (\<forall>i c c0. card_of b i = Some c \<longrightarrow> card_of b0 i = Some c0 \<longrightarrow> paid_attempts c0 c (rounds g i)))"

lemma card_of_skeleton: "skeleton b = skeleton b' \<Longrightarrow> card_of b i = Some c \<Longrightarrow> \<exists>c'. card_of b' i = Some c'"
  using card_of_known [of b i] card_of_known [of b' i] by (auto simp: card_ids_skeleton)

lemma metered_step:
  assumes "card_step s s'" and "metered b0 s"
  shows "metered b0 s'"
  using assms(1)
proof (cases rule: card_step.cases)
  case (claim b i c g R)
  have m: "skeleton b = skeleton b0" "\<And>i c c0. card_of b i = Some c \<Longrightarrow> card_of b0 i = Some c0 \<Longrightarrow> paid_attempts c0 c (rounds g i)"
    using assms(2) claim(1) by (auto simp: metered_def)
  have "paid_attempts c0 x (rounds g j)" if "card_of (card_mut i claim_mark b) j = Some x" "card_of b0 j = Some c0" for j x c0
  proof (cases "i = j")
    case False
    with that m(2) show ?thesis by (simp add: card_of_claim)
  next
    case True
    with that(2) m(2) claim(3) have "paid_attempts c0 c (rounds g j)" by blast
    with that True claim(3,4) show ?thesis by (auto simp: card_of_claim claim_mark_def paid_attempts_def)
  qed
  with m(1) show ?thesis by (auto simp: claim(2) metered_def skeleton_keeps keeps_claim_mark)
next
  case (settle b i c R s b' g g')
  have m: "skeleton b = skeleton b0" "\<And>i c c0. card_of b i = Some c \<Longrightarrow> card_of b0 i = Some c0 \<Longrightarrow> paid_attempts c0 c (rounds g i)"
    using assms(2) settle(1) by (auto simp: metered_def)
  obtain f where f: "card_of b' i = Some (f c)" "keeps f" "c_status (f c) = s" "c_attempts (f c) = c_attempts c"
    using settled_at [OF settle(6,3)] by blast
  have ci: "c_id c = i" using settle(3) card_of_Some by blast
  have "paid_attempts c0 x (rounds g' j)" if x: "card_of b' j = Some x" "card_of b0 j = Some c0" for j x c0
  proof (cases "j = i")
    case False
    then have "rounds g' j = rounds g j"
      using settle(7) ci by (auto simp: within_limits_def rounds_def split: if_splits)
    with False m(2) x settled_other [OF settle(6)] show ?thesis by simp
  next
    case True
    with x f(1) have x': "x = f c" by simp
    have p: "paid_attempts c0 c (rounds g i)" using m(2) settle(3) x(2) True by blast
    have lim: "goal_limit c = goal_limit c0" using p by (simp add: goal_limit_def paid_attempts_def)
    show ?thesis
    proof (cases "s = Todo \<and> c_goal c \<and> or_keep (g i) 0 < goal_limit c \<and> g' = g(i \<mapsto> or_keep (g i) 0 + 1)")
      case False
      then have g_same: "g' = g" and a: "s = Todo \<Longrightarrow> c_attempts c \<le> c_max_retries c"
        using settle(7) unfolding within_limits_def ci by (auto split: if_split_asm)
      have "c_attempts c \<le> max (c_attempts c0) (c_max_retries c0) + rounds g i + (if s = Todo then 0 else 1)"
        using p a by (cases "s = Todo") (simp_all add: paid_attempts_def split: if_split_asm)
      with p f(2-4) show ?thesis unfolding x' True g_same paid_attempts_def keeps_def by simp
    next
      case again: True
      then have w: "c_goal c" "or_keep (g i) 0 < goal_limit c" "g' = g(i \<mapsto> or_keep (g i) 0 + 1)" by auto
      then have u: "rounds g' i = rounds g i + 1" "rounds g' i \<le> unat (goal_limit c0)"
        using unat_plus_1 [OF w(2)] lim by (simp_all add: rounds_def or_keep_def word_less_nat_alt)
      have st: "s = Todo" using again by simp
      have p': "c_max_retries c = c_max_retries c0" "c_goal c = c_goal c0" "c_goal_max_turns c = c_goal_max_turns c0"
        "c_attempts c \<le> max (c_attempts c0) (c_max_retries c0) + (rounds g i + 1)"
        using p by (simp_all add: paid_attempts_def split: if_split_asm)
      show ?thesis
        using f(2-4) p' u w(1) unfolding x' True paid_attempts_def st keeps_def u(1) by simp
    qed
  qed
  with m(1) show ?thesis by (auto simp: settle(2) metered_def settled_skeleton [OF settle(6)])
qed

lemma metered_steps: "card_steps s s' \<Longrightarrow> metered b0 s \<Longrightarrow> metered b0 s'"
  by (induction rule: rtranclp_induct) (auto intro: metered_step)

lemma metered_start: "metered b (b, Map.empty, {})"
  by (auto simp: metered_def paid_attempts_def rounds_def or_keep_def)

section \<open>From the loop to the run\<close>

lemma find_map_ids:
  "(\<And>c. c_id (f c) = c_id c) \<Longrightarrow> List.find (\<lambda>c. c_id c = i) (map f cs) = map_option f (List.find (\<lambda>c. c_id c = i) cs)"
  by (induction cs) auto

lemma card_of_reclaim:
  "card_of (snd (reclaim_in_flight b)) i = map_option (\<lambda>c. if c_status c = Doing then c\<lparr>c_status := Todo\<rparr> else c) (card_of b i)"
  by (simp add: card_of_def reclaim_in_flight_def find_map_ids)

lemma reclaimed:
  "flying (snd (reclaim_in_flight b)) = {}"
  "card_done (snd (reclaim_in_flight b)) i = card_done b i"
  "card_deps (snd (reclaim_in_flight b)) = card_deps b"
proof -
  show "flying (snd (reclaim_in_flight b)) = {}" by (auto simp: flying_def card_of_reclaim)
  show "card_done (snd (reclaim_in_flight b)) i = card_done b i"
    by (cases "card_of b i") (simp_all add: card_done_def card_of_reclaim)
  show "card_deps (snd (reclaim_in_flight b)) = card_deps b" by (rule card_deps_same [OF skeleton_reclaim])
qed

lemma reclaim_frame:
  "reclaim E st = (r, st') \<Longrightarrow> x_board st' = snd (reclaim_in_flight (x_board st)) \<and> x_sent st' = x_sent st \<and>
     x_budget st' = x_budget st \<and> x_goal_turns st' = x_goal_turns st"
  using save_frame [of E "log_run E ''reclaim'' (show_nat (fst (reclaim_in_flight (x_board st))) @ '' card(s) reset doing->todo'')
      (st\<lparr>x_board := snd (reclaim_in_flight (x_board st))\<rparr>)" r st']
  by (auto simp: reclaim_def log_run_def split: prod.splits if_split_asm)

lemma save_agents: "save E st = (r, st') \<Longrightarrow> x_agent_of st' = x_agent_of st"
  by (auto simp: save_def split: prod.splits sum.splits)

lemma close_run_frame:
  assumes c: "close_run E (r0, st0) = (r, st')"
  shows "x_board st' = x_board st0 \<and> x_sent st' = x_sent st0 \<and> x_budget st' = x_budget st0 \<and>
    x_goal_turns st' = x_goal_turns st0 \<and> x_agent_of st' = x_agent_of st0 \<and>
    (\<forall>w. r = Inr w \<longrightarrow> r0 = Inr w) \<and> (\<forall>e. r = Inl (Dispatch e) \<longrightarrow> r0 = Inl e)"
proof -
  obtain vms wp where t: "teardown (x_pool st0) = (vms, wp)" by fastforce
  obtain q st1 where s: "save E (st0\<lparr>x_pool := wp, x_world := d_stop E vms (x_world st0)\<rparr>) = (q, st1)" by fastforce
  from c t s show ?thesis
    using save_frame [OF s] save_agents [OF s] by (auto simp: close_run_def log_run_def split: prod.splits sum.splits)
qed

text \<open>A run either ends before the loop, having sent nothing, or it is one loop from the reclaimed board.\<close>

lemma run_board_cases [consumes 1, case_names early looped]:
  assumes run: "run_board E placed wired run_id ov b v = (r, st')"
  obtains "x_board st' = b \<or> x_board st' = snd (reclaim_in_flight b)" "x_sent st' = []" "x_goal_turns st' = Map.empty"
      "x_budget st' = new_budget (tighten_with default_caps ov)" "\<And>w. r \<noteq> Inr w" "\<And>e. r \<noteq> Inl (Dispatch (Unresolved e))"
  | reg st0 r0 st1 where "board_loop E reg (tighten_with default_caps ov) st0 = (r0, st1)"
      "x_board st0 = snd (reclaim_in_flight b)" "x_sent st0 = []" "x_goal_turns st0 = Map.empty"
      "x_budget st0 = new_budget (tighten_with default_caps ov)"
      "x_board st' = x_board st1" "x_sent st' = x_sent st1" "x_budget st' = x_budget st1" "x_goal_turns st' = x_goal_turns st1"
      "x_agent_of st' = x_agent_of st1" "\<And>w. r = Inr w \<Longrightarrow> r0 = Inr w" "\<And>e. r = Inl (Dispatch e) \<Longrightarrow> r0 = Inl e"
proof -
  let ?caps = "tighten_with default_caps ov"
  let ?st = "\<lparr> x_board = b, x_budget = new_budget ?caps, x_pool = new_pool [] run_id [] (max_concurrent_vms ?caps),
    x_world = v, x_goal_turns = Map.empty, x_agent_of = Map.empty, x_claimed_at = Map.empty, x_sent = [] \<rparr>"
  obtain q st1 where q: "reclaim E ?st = (q, st1)" by fastforce
  have uns: "\<exists>m. e = NotSaved m" if "q = Inl e" for e
    using q that by (auto simp: reclaim_def save_def split: prod.splits sum.splits if_split_asm)
  note f = reclaim_frame [OF q]
  show thesis
  proof (cases "b_cards b = [] \<or> validate_board b \<noteq> Inr () \<or> (\<exists>e. q = Inl e) \<or> (\<exists>e. placed = Inl e) \<or> (\<exists>e. wired = Inl e)")
    case True
    with run that(1) q f uns show thesis
      by (auto simp: run_board_def Let_def split: sum.splits if_split_asm)
  next
    case False
    then obtain reg base where ok: "b_cards b \<noteq> []" "validate_board b = Inr ()" "q = Inr ()" "placed = Inr (reg, base)" "wired = Inr ()"
      by (cases q; cases placed; cases wired; auto)
    let ?st2 = "log_run E ''run_start'' (''run '' @ run_id @ '' ('' @ show_nat (length (b_cards b)) @ '' cards)'')
      (st1\<lparr>x_pool := new_pool reg run_id base (max_concurrent_vms ?caps)\<rparr>)"
    let ?st0 = "?st2\<lparr>x_budget := new_budget ?caps, x_goal_turns := Map.empty\<rparr>"
    obtain r0 st3 where l: "board_loop E reg ?caps ?st0 = (r0, st3)" by fastforce
    have "close_run E (r0, st3) = (r, st')"
      using run ok q l by (simp add: run_board_def Let_def run_board_inner_def)
    from close_run_frame [OF this] that(2) [OF l] f show thesis by (simp add: log_run_def)
  qed
qed

lemma run_board_moves:
  assumes run: "run_board E placed wired run_id ov b v = (r, st')" and d: "distinct (card_ids b)"
    and r: "(\<exists>w. r = Inr w) \<or> (\<exists>e. r = Inl (Dispatch (Unresolved e)))"
  shows "\<exists>R. card_steps (snd (reclaim_in_flight b), Map.empty, {}) (x_board st', x_goal_turns st', R) \<and>
    (\<forall>w. r = Inr w \<longrightarrow> R = {}) \<and> (\<forall>e. r = Inl (Dispatch (Unresolved e)) \<longrightarrow> R = dom (x_agent_of st'))"
  using run
proof (cases rule: run_board_cases)
  case early
  with r show ?thesis by blast
next
  case (looped reg st0 r0 st1)
  have "distinct (card_ids (x_board st0))" using d looped(2) skeleton_reclaim by (metis card_ids_skeleton)
  from board_loop_refines [OF looped(1) this] obtain R where
    "card_steps (x_board st0, x_goal_turns st0, {}) (x_board st1, x_goal_turns st1, R)"
    "\<forall>w. r0 = Inr w \<longrightarrow> R = {}" "\<forall>e. r0 = Inl (Unresolved e) \<longrightarrow> R = dom (x_agent_of st1)" by blast
  with looped show ?thesis by auto
qed

text \<open>Whatever the outcome, the board moved from the reclaimed (or given) board by the machine.\<close>

lemma run_board_reaches:
  assumes run: "run_board E placed wired run_id ov b v = (r, st')" and d: "distinct (card_ids b)"
  shows "\<exists>R b1. (b1 = snd (reclaim_in_flight b) \<or> (b1 = b \<and> x_board st' = b)) \<and>
    card_steps (b1, Map.empty, {}) (x_board st', x_goal_turns st', R)"
  using run
proof (cases rule: run_board_cases)
  case early
  then show ?thesis by auto
next
  case (looped reg st0 r0 st1)
  have "distinct (card_ids (x_board st0))" using d looped(2) skeleton_reclaim by (metis card_ids_skeleton)
  from board_loop_refines [OF looped(1) this] looped show ?thesis by auto
qed

lemma flying_empty: "flying b = {} \<Longrightarrow> distinct (card_ids b) \<Longrightarrow> c \<in> set (b_cards b) \<Longrightarrow> c_status c \<noteq> Doing"
  using card_of_distinct by (auto simp: flying_def)

section \<open>Properties\<close>

text \<open>
  A board run never sends more than it may: the tasks that went out to agents (cards,
  retries and goal judgements) plus the turns still left are at most the requested turns,
  so never above the default of 40, whatever the agents answer and however the run ends.
\<close>

theorem board_run_bounded:
  "case run_board E placed wired run_id ov b v of
     (r, st') \<Rightarrow> length (x_sent st') + unat (turns_left (x_budget st')) \<le> unat (lower_to (ov_max_total_turns ov) 40)"
proof -
  obtain r st' where run: "run_board E placed wired run_id ov b v = (r, st')" by fastforce
  let ?c = "tighten_with default_caps ov"
  have n: "unat (turns_left (new_budget ?c)) \<le> unat (lower_to (ov_max_total_turns ov) 40)"
    by (simp add: tighten_with_def default_caps_def clamp_to_ceiling_def unat_min)
  from run have "length (x_sent st') + unat (turns_left (x_budget st')) \<le> unat (turns_left (new_budget ?c))"
  proof (cases rule: run_board_cases)
    case early
    then show ?thesis by simp
  next
    case (looped reg st0 r0 st1)
    from board_loop_paid [OF looped(1)] looped show ?thesis by simp
  qed
  with n run show ?thesis by simp
qed

text \<open>
  C6. A run of a board with distinct card ids that stops for one of its own reasons (all done, nothing ready, out of turns,
  ticks or time) leaves no card in flight: every card it claimed was settled.
\<close>

theorem board_run_drains:
  assumes d: "distinct (card_ids b)" and run: "run_board E placed wired run_id ov b v = (Inr why, st')"
    and c: "c \<in> set (b_cards (x_board st'))"
  shows "c_status c \<noteq> Doing"
proof -
  from run_board_moves [OF run d] have st: "card_steps (snd (reclaim_in_flight b), Map.empty, {}) (x_board st', x_goal_turns st', {})"
    by auto
  from ordered_steps [OF this ordered_start [OF reclaimed(1)]] have "flying (x_board st') = {}" by (simp add: ordered_def)
  moreover have "distinct (card_ids (x_board st'))"
    using card_steps_skeleton [OF st] d skeleton_reclaim [of b] by (simp add: card_ids_skeleton)
  ultimately show ?thesis using c flying_empty by blast
qed

text \<open>
  C11. A run of a board whose card ids are distinct respects the dependencies: a card that is done
  at the end was done before, or all the cards it depends on are done too. No card is run ahead
  of its inputs, also when the run is cut short by an error. The board operations number the cards
  apart; a board file edited by hand need not, see \<open>twin_cards_pass_validation\<close>.
\<close>

theorem board_run_respects_dependencies:
  assumes d: "distinct (card_ids b)" and run: "run_board E placed wired run_id ov b v = (r, st')"
    and i: "card_done (x_board st') i"
  shows "card_done b i \<or> list_all (card_done (x_board st')) (card_deps b i)"
proof -
  let ?R = "snd (reclaim_in_flight b)"
  from run_board_reaches [OF run d] obtain R b1 where b1: "b1 = ?R \<or> (b1 = b \<and> x_board st' = b)"
    and st: "card_steps (b1, Map.empty, {}) (x_board st', x_goal_turns st', R)" by blast
  show ?thesis
  proof (cases "b1 = ?R")
    case False
    with b1 i show ?thesis by simp
  next
    case True
    with ordered_steps [OF st ordered_start] have "released ?R (x_board st')" by (simp add: ordered_def reclaimed)
    with i show ?thesis by (auto simp: released_def reclaimed list_all_iff)
  qed
qed

text \<open>
  C1. Retries end: in one run a card is claimed at most once more than its \<open>max_retries\<close>
  (once, if its attempts were used up before), plus once per goal round its judge may send
  it back. A card that is not in goal mode has no such rounds.
\<close>

theorem board_run_retries_bounded:
  assumes d: "distinct (card_ids b)" and run: "run_board E placed wired run_id ov b v = (r, st')"
    and c0: "card_of b i = Some c0" and c: "card_of (x_board st') i = Some c"
  shows "c_attempts c \<le> max (c_attempts c0) (c_max_retries c0) + 1 + (if c_goal c0 then unat (goal_limit c0) else 0)"
proof -
  let ?R = "snd (reclaim_in_flight b)"
  from run_board_reaches [OF run d] obtain R b1 where b1: "b1 = ?R \<or> (b1 = b \<and> x_board st' = b)"
    and st: "card_steps (b1, Map.empty, {}) (x_board st', x_goal_turns st', R)" by blast
  obtain c1 where c1: "card_of b1 i = Some c1" "c_attempts c1 = c_attempts c0" "c_max_retries c1 = c_max_retries c0"
    "c_goal c1 = c_goal c0" "goal_limit c1 = goal_limit c0"
    using b1 c0 by (auto simp: card_of_reclaim goal_limit_def)
  from metered_steps [OF st metered_start] c c1(1) have "paid_attempts c1 c (rounds (x_goal_turns st') i)"
    by (simp add: metered_def)
  with c1 show ?thesis by (auto simp: paid_attempts_def split: if_splits)
qed

text \<open>
  The one way a run strands cards: when a worker cannot be resolved in the middle of a
  batch, the run ends with the cards claimed before it still in flight, exactly those. The
  saved board then counts as running for ever, and \<open>launch_board_run\<close> refuses to start
  the run that would reclaim them.
\<close>

theorem unresolved_worker_strands_cards:
  assumes d: "distinct (card_ids b)" and run: "run_board E placed wired run_id ov b v = (Inl (Dispatch (Unresolved e)), st')"
    and some: "x_agent_of st' i = Some agent"
    and saved: "h_boards h name = Some (x_board st')" and safe: "safe_id name"
  shows "flying (x_board st') = dom (x_agent_of st') \<and> launch_board_run h name = Inl AlreadyRunning"
proof -
  from run_board_moves [OF run d] have
    st: "card_steps (snd (reclaim_in_flight b), Map.empty, {}) (x_board st', x_goal_turns st', dom (x_agent_of st'))" by auto
  from ordered_steps [OF this ordered_start [OF reclaimed(1)]] have f: "flying (x_board st') = dom (x_agent_of st')"
    by (simp add: ordered_def)
  then have "i \<in> flying (x_board st')" using some by auto
  then obtain c where "card_of (x_board st') i = Some c" "c_status c = Doing" by (auto simp: flying_def)
  then have "list_ex (\<lambda>c. c_status c = Doing) (b_cards (x_board st'))" "b_cards (x_board st') \<noteq> []"
    using card_of_Some [of "x_board st'" i c] by (auto simp: list_ex_iff)
  with f saved safe show ?thesis
    by (simp add: launch_board_run_def is_board_running_def load_board_def Let_def)
qed

section \<open>A concrete run\<close>

text \<open>Every agent answers the same; launching a VM always fails.\<close>

definition demo_benv :: "str \<Rightarrow> unit benv" where
  "demo_benv answer = \<lparr> d_batch = (\<lambda>batch v. ((\<lambda>_. Inr answer), v)), d_send = (\<lambda>w t v. (Inr answer, v)),
     d_agents = (\<lambda>v. []), d_launch = (\<lambda>n v. (Inl ''no KVM'', v)), d_elapsed = (\<lambda>v. (0, v)), d_now = (\<lambda>v. (100, v)),
     d_collect = (\<lambda>a o' v. (0, v)), d_files = (\<lambda>v f. (f, Unread)), d_save = (\<lambda>b v. (Inr (), v)),
     d_log = (\<lambda>k i t v. v), d_deliver = (\<lambda>a c t v. v), d_out_dir = (\<lambda>i. i), d_stop = (\<lambda>vms v. v), d_publish = (\<lambda>v. (Inr (), v)) \<rparr>"

definition no_override :: caps_override where
  "no_override = \<lparr> ov_max_total_turns = None, ov_max_wall_seconds = None, ov_max_parallel = None,
     ov_max_concurrent_vms = None, ov_max_steps = None \<rparr>"

definition spawn_developer :: registry where
  "spawn_developer = [(''developer'', \<lparr> r_name = ''developer'', r_description = [], r_system_prompt = [],
     r_model = None, r_placement = SpawnFrom ''base'' \<rparr>)]"

definition one_card :: board where
  "one_card = \<lparr> b_name = ''b'', b_cards = [fresh_card ''c1'' ''write'' [] (Some ''vm'') [] 1] \<rparr>"

definition two_cards :: board where
  "two_cards = \<lparr> b_name = ''b'', b_cards = [fresh_card ''c1'' ''write'' [] (Some ''vm'') [] 1,
     fresh_card ''c2'' ''test'' [] (Some ''developer'') [] 2] \<rparr>"

text \<open>
  \<open>Board::validate\<close> gathers the ids in a set, so it does not see that two cards share one; the
  dependencies are those of the first, but the second is ready without them.
\<close>

definition twin_cards :: board where
  "twin_cards = \<lparr> b_name = ''b'', b_cards = [fresh_card ''c1'' ''ship'' [] None [''c2''] 0, fresh_card ''c2'' ''build'' [] None [] 0,
     fresh_card ''c1'' ''ship'' [] None [] 0] \<rparr>"

theorem twin_cards_pass_validation:
  "validate_board twin_cards = Inr () \<and> ''c1'' \<in> set (map c_id (ready 0 twin_cards)) \<and>
    card_deps twin_cards ''c1'' = [''c2''] \<and> \<not> card_done twin_cards ''c2''"
  by code_simp

definition good_run :: "(board_run_error + stop_reason) \<times> unit disp" where
  "good_run = run_board (demo_benv ''ok'') (Inr (spawn_developer, ''base'')) (Inr ()) ''r'' no_override one_card ()"

definition stranding_run :: "(board_run_error + stop_reason) \<times> unit disp" where
  "stranding_run = run_board (demo_benv ''ok'') (Inr (spawn_developer, ''base'')) (Inr ()) ''r'' no_override two_cards ()"

lemma good_run_ends: "fst good_run = Inr Completed"
  by code_simp

lemma good_run_board: "map (\<lambda>c. (c_id c, c_status c, c_attempts c)) (b_cards (x_board (snd good_run))) = [(''c1'', Done, 1)]"
  by code_simp

lemma good_run_done: "card_done (x_board (snd good_run)) ''c1''"
  by code_simp

lemma stranding_run_ends: "fst stranding_run = Inl (Dispatch (Unresolved (SpawnFailed ''no KVM'')))"
  by code_simp

lemma stranding_run_claimed: "x_agent_of (snd stranding_run) ''c1'' = Some ''vm''"
  by code_simp

lemma good_run_eq: "run_board (demo_benv ''ok'') (Inr (spawn_developer, ''base'')) (Inr ()) ''r'' no_override one_card () =
    (Inr Completed, snd good_run)"
  using good_run_ends by (metis good_run_def prod.collapse)

lemma stranding_run_eq: "run_board (demo_benv ''ok'') (Inr (spawn_developer, ''base'')) (Inr ()) ''r'' no_override two_cards () =
    (Inl (Dispatch (Unresolved (SpawnFailed ''no KVM''))), snd stranding_run)"
  using stranding_run_ends by (metis stranding_run_def prod.collapse)

lemma demo_ids: "distinct (card_ids one_card)" "distinct (card_ids two_cards)"
  by (simp_all add: card_ids_def one_card_def two_cards_def fresh_card_def)

theorem board_run_drains_witness: "\<exists>c. b_cards (x_board (snd good_run)) = [c] \<and> c_status c \<noteq> Doing"
proof -
  obtain c where c: "b_cards (x_board (snd good_run)) = [c]" using good_run_board by auto
  with board_run_drains [OF demo_ids(1) good_run_eq, of c] show ?thesis by simp
qed

theorem board_run_respects_dependencies_witness:
  "card_done one_card ''c1'' \<or> list_all (card_done (x_board (snd good_run))) (card_deps one_card ''c1'')"
  by (rule board_run_respects_dependencies [OF demo_ids(1) good_run_eq good_run_done])

theorem board_run_retries_bounded_witness: "\<exists>c. card_of (x_board (snd good_run)) ''c1'' = Some c \<and> c_attempts c \<le> 1"
proof -
  obtain c where c: "card_of (x_board (snd good_run)) ''c1'' = Some c"
    using good_run_done by (auto simp: card_done_iff)
  have "card_of one_card ''c1'' = Some (fresh_card ''c1'' ''write'' [] (Some ''vm'') [] 1)"
    by (simp add: card_of_def one_card_def) (simp add: fresh_card_def)
  from board_run_retries_bounded [OF demo_ids(1) good_run_eq this c] c show ?thesis by (simp add: fresh_card_def)
qed

theorem unresolved_worker_strands_cards_witness:
  "launch_board_run \<lparr> h_boards = [''b'' \<mapsto> x_board (snd stranding_run)], h_events = Map.empty \<rparr> ''b'' = Inl AlreadyRunning"
  using unresolved_worker_strands_cards [OF demo_ids(2) stranding_run_eq stranding_run_claimed,
    of "\<lparr> h_boards = [''b'' \<mapsto> x_board (snd stranding_run)], h_events = Map.empty \<rparr>" "''b''"]
  by (simp add: safe_id_def is_ascii_alnum_def is_ascii_lower_def)

end
