(* ===== verification/Board_Guard.thy ===== *)
theory Board_Guard
  imports Board_Run
begin

text \<open>
  What a board run does to the world around it: if no operation of the environment breaks a property of the
  world, and saving a board of the same shape (name, cards and needs) does not, then no board run does
  (\<open>run_board\<close> of \<open>crates/maturana-cli/src/orchestrate.rs\<close>).
\<close>

definition same_shape :: "board \<Rightarrow> board \<Rightarrow> bool" where
  "same_shape b b' \<longleftrightarrow> b_name b = b_name b' \<and> skeleton b = skeleton b'"

definition guarded :: "('w \<Rightarrow> bool) \<Rightarrow> board \<Rightarrow> 'w disp \<Rightarrow> bool" where
  "guarded P b0 st \<longleftrightarrow> same_shape (x_board st) b0 \<and> P (x_world st)"

lemma same_shape_refl [simp]: "same_shape b b"
  by (simp add: same_shape_def)

lemma shape_steps [simp]:
  "(\<And>c. c_id (f c) = c_id c \<and> c_deps (f c) = c_deps c) \<Longrightarrow> same_shape (card_mut i f b) b0 \<longleftrightarrow> same_shape b b0"
  "same_shape (record_run i ag out sm st now b) b0 \<longleftrightarrow> same_shape b b0"
  "same_shape (snd (add_comment i a t now b)) b0 \<longleftrightarrow> same_shape b b0"
  "same_shape (snd (reclaim_in_flight b)) b0 \<longleftrightarrow> same_shape b b0"
  by (simp_all add: same_shape_def frame_simps)
    (simp_all add: card_mut_def record_run_def add_comment_def reclaim_in_flight_def Let_def split: option.split)

locale guarded_world =
  fixes E :: "'w benv" and P :: "'w \<Rightarrow> bool" and b0 :: board
  assumes batch: "P w \<Longrightarrow> P (snd (d_batch E bs w))"
    and send: "P w \<Longrightarrow> P (snd (d_send E wk t w))"
    and launch: "P w \<Longrightarrow> P (snd (d_launch E n w))"
    and elapsed: "P w \<Longrightarrow> P (snd (d_elapsed E w))"
    and now: "P w \<Longrightarrow> P (snd (d_now E w))"
    and collect: "P w \<Longrightarrow> P (snd (d_collect E a o' w))"
    and logged: "P w \<Longrightarrow> P (d_log E k c t w)"
    and deliver: "P w \<Longrightarrow> P (d_deliver E a ch t w)"
    and stop: "P w \<Longrightarrow> P (d_stop E vms w)"
    and publish: "P w \<Longrightarrow> P (snd (d_publish E w))"
    and saving: "P w \<Longrightarrow> same_shape b b0 \<Longrightarrow> P (snd (d_save E b w))"
begin

lemma clock: "clock E st = (t, st') \<Longrightarrow> guarded P b0 st \<Longrightarrow> guarded P b0 st'"
  using now [of "x_world st"] by (auto simp: clock_def guarded_def split: prod.splits)

lemma log: "guarded P b0 st \<Longrightarrow> guarded P b0 (log E k i t st)"
  by (simp add: log_def guarded_def logged)

lemma log_run: "guarded P b0 st \<Longrightarrow> guarded P b0 (log_run E k t st)"
  by (simp add: log_run_def guarded_def logged)

lemma on_card: "(\<And>c. c_id (f c) = c_id c \<and> c_deps (f c) = c_deps c) \<Longrightarrow> guarded P b0 st \<Longrightarrow> guarded P b0 (on_card i f st)"
  by (simp add: on_card_def guarded_def)

lemma record_run_now: "guarded P b0 st \<Longrightarrow> guarded P b0 (record_run_now E i a out s t st)"
  using clock [of st] by (auto simp: record_run_now_def guarded_def split: prod.split)

lemma worker: "resolve_card_worker E a st = (r, st') \<Longrightarrow> guarded P b0 st \<Longrightarrow> guarded P b0 st'"
  using launch [of "x_world st" "or_keep a ''developer''"]
  by (auto simp: resolve_card_worker_def guarded_def Let_def split: prod.splits if_splits)

lemma save: "save E st = (r, st') \<Longrightarrow> guarded P b0 st \<Longrightarrow> guarded P b0 st'"
  using saving [of "x_world st" "x_board st"] by (auto simp: save_def guarded_def split: prod.splits sum.splits)

lemma fail_card: "guarded P b0 st \<Longrightarrow> guarded P b0 (fail_card E i a t e st)"
  unfolding fail_card_def Let_def by (auto intro!: log record_run_now on_card)

lemma delivered: "guarded P b0 st \<Longrightarrow> guarded P b0 (st\<lparr>x_world := d_deliver E a ch t (x_world st)\<rparr>)"
  by (simp add: guarded_def deliver)

lemma complete_card: "guarded P b0 st \<Longrightarrow> guarded P b0 (complete_card E i a t n st)"
  unfolding complete_card_def Let_def by (auto intro!: log record_run_now on_card delivered split: option.split)

lemma revise_card: "guarded P b0 st \<Longrightarrow> guarded P b0 (revise_card E i a t n fb st)"
proof -
  assume g: "guarded P b0 st"
  let ?st1 = "st\<lparr>x_goal_turns := (x_goal_turns st)(i \<mapsto> or_keep (x_goal_turns st i) 0 + 1)\<rparr>"
  obtain u st2 where c: "Dispatcher.clock E ?st1 = (u, st2)" by fastforce
  have "guarded P b0 st2" using clock [OF c] g by (simp add: guarded_def)
  then show ?thesis unfolding revise_card_def Let_def c prod.case
    by (intro log record_run_now on_card) (simp_all add: guarded_def)
qed

lemma judge_card: "judge_card E i w ti de n st = (r, st') \<Longrightarrow> guarded P b0 st \<Longrightarrow> guarded P b0 st'"
proof -
  assume j: "judge_card E i w ti de n st = (r, st')" and g: "guarded P b0 st"
  obtain q v where "d_send E w (build_goal_judge_task ti de n) (x_world st) = (q, v)" by fastforce
  then show ?thesis using j g send [of "x_world st" w "build_goal_judge_task ti de n"]
    by (auto simp: judge_card_def guarded_def Let_def split: sum.splits)
qed

lemma judge_goal: "judge_goal E hr i a n st = (r, st') \<Longrightarrow> guarded P b0 st \<Longrightarrow> guarded P b0 st'"
proof -
  assume j: "judge_goal E hr i a n st = (r, st')" and g: "guarded P b0 st"
  show ?thesis
  proof (cases "card_of (x_board st) i")
    case None
    with j g show ?thesis by (simp add: judge_goal_def)
  next
    case (Some c)
    show ?thesis
    proof (cases "c_goal c \<and> or_keep (x_goal_turns st i) 0 < goal_limit c \<and> (\<exists>q. spend_turn (x_budget st) = Inr q)")
      case False
      with j g Some show ?thesis by (cases "spend_turn (x_budget st)") (auto simp: judge_goal_def Let_def split: if_splits)
    next
      case True
      then obtain u bu where q: "spend_turn (x_budget st) = Inr (u, bu)" by (metis surj_pair)
      obtain w st1 where w: "resolve_card_worker E (if hr then Some ''reviewer'' else a) (st\<lparr>x_budget := bu\<rparr>) = (w, st1)" by fastforce
      have g1: "guarded P b0 st1" using worker [OF w] g by (simp add: guarded_def)
      show ?thesis
      proof (cases w)
        case (Inl e)
        with j Some True q w g1 show ?thesis by (simp add: judge_goal_def)
      next
        case (Inr jw)
        obtain p fb st2 where k: "Dispatcher.judge_card E i jw (c_title c) (c_detail c) n st1 = ((p, fb), st2)"
          by (metis surj_pair)
        with j Some True q w Inr have "st' = st2" by (simp add: judge_goal_def split: if_splits)
        with judge_card [OF k g1] show ?thesis by simp
      qed
    qed
  qed
qed

lemma noted: "collect_note E i a reply st = (n, st') \<Longrightarrow> guarded P b0 st \<Longrightarrow> guarded P b0 st'"
  using collect [of "x_world st"] by (auto simp: collect_note_def guarded_def Let_def split: option.splits prod.splits) (metis snd_conv)+

lemma settle: "guarded P b0 st \<Longrightarrow> guarded P b0 (settle E hr p st)"
proof -
  assume g: "guarded P b0 st"
  obtain i res where p: "p = (i, res)" by fastforce
  obtain u st1 where c: "(case x_claimed_at st i of Some t \<Rightarrow> (t, st) | None \<Rightarrow> Dispatcher.clock E st) = (u, st1)" by fastforce
  then have g1: "guarded P b0 st1" using g clock [of st] by (auto split: option.splits)
  show ?thesis
  proof (cases res)
    case (Inl e)
    with g1 c show ?thesis by (simp add: settle_def p fail_card)
  next
    case (Inr reply)
    obtain n st2 where n: "collect_note E i (x_agent_of st i) reply st1 = (n, st2)" by fastforce
    obtain f st3 where j: "Dispatcher.judge_goal E hr i (x_agent_of st i) n st2 = (f, st3)" by fastforce
    have "guarded P b0 st3" using judge_goal [OF j noted [OF n g1]] .
    with Inr c n j show ?thesis by (cases f) (simp_all add: settle_def p complete_card revise_card)
  qed
qed

lemma settles: "guarded P b0 st \<Longrightarrow> guarded P b0 (fold (Dispatcher.settle E hr) ps st)"
  by (induction ps arbitrary: st) (simp_all add: settle)

lemma claims: "claim_cards E reg cs batch st = (r, st') \<Longrightarrow> guarded P b0 st \<Longrightarrow> guarded P b0 st'"
proof (induction cs arbitrary: batch st)
  case (Cons c cs)
  show ?case
  proof (cases "spend_turn (x_budget st)")
    case (Inl e)
    with Cons.prems show ?thesis by simp
  next
    case (Inr q)
    obtain u bu where q: "q = (u, bu)" by fastforce
    obtain w st1 where w: "resolve_card_worker E (c_assignee c) (st\<lparr>x_budget := bu\<rparr>) = (w, st1)" by fastforce
    have g1: "guarded P b0 st1" using worker [OF w] Cons.prems(2) by (simp add: guarded_def)
    show ?thesis
    proof (cases w)
      case (Inl e)
      with Cons.prems Inr q w g1 show ?thesis by simp
    next
      case (Inr wk)
      obtain t st2 where t: "Dispatcher.clock E st1 = (t, st2)" by fastforce
      let ?st4 = "Dispatcher.on_card (c_id c) (\<lambda>x. x\<lparr>c_status := Doing, c_attempts := c_attempts x + 1\<rparr>)
        (st2\<lparr>x_agent_of := (x_agent_of st2)(c_id c \<mapsto> w_agent wk), x_claimed_at := (x_claimed_at st2)(c_id c \<mapsto> t)\<rparr>)"
      have "guarded P b0 st2" by (rule clock [OF t g1])
      then have "guarded P b0 (Dispatcher.log E ''claim'' (c_id c) (c_title c @ '' -> '' @ w_agent wk) ?st4)"
        by (intro log on_card) (simp_all add: guarded_def)
      with Cons.IH Cons.prems(1) \<open>spend_turn _ = Inr q\<close> q w Inr t show ?thesis by (simp add: Let_def)
    qed
  qed
qed simp

lemma pass: "board_pass E reg par rs st = (r, st') \<Longrightarrow> guarded P b0 st \<Longrightarrow> guarded P b0 st'"
proof -
  assume p: "board_pass E reg par rs st = (r, st')" and g: "guarded P b0 st"
  obtain c st1 where c: "claim_cards E reg (take (unat (max 1 par)) rs) []
      (st\<lparr>x_agent_of := Map.empty, x_claimed_at := Map.empty\<rparr>) = (c, st1)" by fastforce
  have g1: "guarded P b0 st1" using claims [OF c] g by (simp add: guarded_def)
  show ?thesis
  proof (cases "\<exists>x xs. c = Inr (x # xs)")
    case False
    with p c g1 show ?thesis by (cases c) (auto simp: board_pass_def split: list.splits)
  next
    case True
    then obtain x xs where xs: "c = Inr (x # xs)" by blast
    obtain s st2 where s: "Board_Run.save E st1 = (s, st2)" by fastforce
    have g2: "guarded P b0 st2" by (rule save [OF s g1])
    obtain ps st3 where d: "parallel_dispatch E (x # xs) st2 = (ps, st3)" by fastforce
    have g3: "guarded P b0 st3" using d g2 batch [of "x_world st2" "x # xs"]
      by (auto simp: parallel_dispatch_def guarded_def split: prod.splits)
    obtain s' st4 where s': "Board_Run.save E (fold (Dispatcher.settle E (get_role reg ''reviewer'' \<noteq> None)) ps st3) = (s', st4)" by fastforce
    have g4: "guarded P b0 st4" by (rule save [OF s' settles [OF g3]])
    with p c xs s d s' g2 show ?thesis by (cases s; cases s') (simp_all add: board_pass_def)
  qed
qed

lemma ladder: "board_ladder E wall st = (r, st') \<Longrightarrow> guarded P b0 st \<Longrightarrow> guarded P b0 st'"
proof -
  assume l: "board_ladder E wall st = (r, st')" and g: "guarded P b0 st"
  show ?thesis
  proof (cases "Run_Budget.tick (x_budget st)")
    case (Inl e)
    with l g show ?thesis by (simp add: board_ladder_def)
  next
    case (Inr q)
    obtain u bu where q: "q = (u, bu)" by fastforce
    obtain t v where e: "d_elapsed E (x_world st) = (t, v)" by fastforce
    let ?st1 = "st\<lparr>x_budget := bu, x_world := v\<rparr>"
    have g1: "guarded P b0 ?st1" using g elapsed [of "x_world st"] e by (simp add: guarded_def)
    obtain n st2 where n: "Dispatcher.clock E ?st1 = (n, st2)" by fastforce
    have "guarded P b0 st2" by (rule clock [OF n g1])
    with l Inr q e n g1 show ?thesis by (auto simp: board_ladder_def Let_def split: if_splits list.splits)
  qed
qed

lemma loop: "F = E \<Longrightarrow> board_loop F reg c st = (r, st') \<Longrightarrow> guarded P b0 st \<Longrightarrow> guarded P b0 st'"
proof (induction F reg c st rule: board_loop.induct)
  case (1 F reg c st)
  obtain l st1 where l: "board_ladder F (uint (max_wall_seconds c) * 1000000000) st = (l, st1)" by fastforce
  have g1: "guarded P b0 st1" by (rule ladder [OF l [unfolded "1.prems"(1)] "1.prems"(3)])
  show ?case
  proof (cases l)
    case (Inl why)
    with l "1.prems"(2) g1 show ?thesis by (simp add: board_loop.simps [of F reg c st])
  next
    case (Inr rs)
    obtain p st2 where p: "board_pass F reg (max_parallel c) rs st1 = (p, st2)" by fastforce
    have g2: "guarded P b0 st2" by (rule pass [OF p [unfolded "1.prems"(1)] g1])
    note IH = "1.IH" [OF l [symmetric] Inr p [symmetric]]
    show ?thesis
    proof (cases "p = Inr None")
      case True
      with "1.prems"(2) l Inr p have "board_loop F reg c st2 = (r, st')" by (simp add: board_loop.simps [of F reg c st])
      with IH True "1.prems"(1) g2 show ?thesis by simp
    next
      case False
      with "1.prems"(2) l Inr p g2 show ?thesis
        by (cases p) (auto simp: board_loop.simps [of F reg c st] split: option.splits)
    qed
  qed
qed

lemma reclaims: "reclaim E st = (r, st') \<Longrightarrow> guarded P b0 st \<Longrightarrow> guarded P b0 st'"
proof -
  assume r: "reclaim E st = (r, st')" and g: "guarded P b0 st"
  obtain n b where b: "reclaim_in_flight (x_board st) = (n, b)" by fastforce
  have g1: "guarded P b0 (st\<lparr>x_board := b\<rparr>)"
    using g b shape_steps(4) [of "x_board st" b0] by (simp add: guarded_def)
  show ?thesis
    using r b g1 save [OF _ log_run [OF g1]] by (auto simp: reclaim_def split: if_splits)
qed

lemma closes: "close_run E (q, st) = (r, st') \<Longrightarrow> guarded P b0 st \<Longrightarrow> guarded P b0 st'"
proof -
  assume c: "close_run E (q, st) = (r, st')" and g: "guarded P b0 st"
  obtain vms wp where t: "teardown (x_pool st) = (vms, wp)" by fastforce
  obtain s st1 where s: "Board_Run.save E (st\<lparr>x_pool := wp, x_world := d_stop E vms (x_world st)\<rparr>) = (s, st1)" by fastforce
  have "guarded P b0 (st\<lparr>x_pool := wp, x_world := d_stop E vms (x_world st)\<rparr>)" using g by (simp add: guarded_def stop)
  from save [OF s this] have g1: "guarded P b0 st1" .
  obtain p v where p: "d_publish E (x_world st1) = (p, v)" by fastforce
  have g2: "guarded P b0 (st1\<lparr>x_world := v\<rparr>)" using g1 publish [of "x_world st1"] p by (simp add: guarded_def)
  obtain k l m n where n: "counts (x_board st1) = (k, l, m, n)" by (metis prod_cases4)
  show ?thesis using c t s p n g2 log_run [OF g2] by (cases p) (auto simp: close_run_def Let_def)
qed

lemma run:
  assumes "run_board E placed wired run_id ov b v = (r, st')" and "same_shape b b0" and "P v"
  shows "guarded P b0 st'"
proof -
  let ?caps = "tighten_with default_caps ov"
  let ?st = "\<lparr> x_board = b, x_budget = new_budget ?caps, x_pool = new_pool [] run_id [] (max_concurrent_vms ?caps),
            x_world = v, x_goal_turns = Map.empty, x_agent_of = Map.empty, x_claimed_at = Map.empty, x_sent = [] \<rparr>"
  have g: "guarded P b0 ?st" using assms(2,3) by (simp add: guarded_def)
  obtain q st1 where q: "reclaim E ?st = (q, st1)" by fastforce
  have g1: "guarded P b0 st1" by (rule reclaims [OF q g])
  show ?thesis
  proof (cases "st' = ?st \<or> st' = st1")
    case True
    with g g1 show ?thesis by blast
  next
    case False
    then obtain reg base where ok: "placed = Inr (reg, base)" "wired = Inr ()" "q = Inr ()" "b_cards b \<noteq> []" "validate_board b = Inr ()"
      using assms(1) q by (auto simp: run_board_def Let_def split: sum.splits if_split_asm)
    let ?st2 = "Board_Run.log_run E ''run_start'' (''run '' @ run_id @ '' ('' @ show_nat (length (b_cards b)) @ '' cards)'')
        (st1\<lparr>x_pool := new_pool reg run_id base (max_concurrent_vms ?caps)\<rparr>)"
    have g2: "guarded P b0 (?st2\<lparr>x_budget := new_budget ?caps, x_goal_turns := Map.empty\<rparr>)"
      using log_run [of "st1\<lparr>x_pool := new_pool reg run_id base (max_concurrent_vms ?caps)\<rparr>"] g1 by (simp add: guarded_def)
    obtain s st3 where l: "board_loop E reg ?caps (?st2\<lparr>x_budget := new_budget ?caps, x_goal_turns := Map.empty\<rparr>) = (s, st3)" by fastforce
    have "guarded P b0 st3" by (rule loop [OF refl l g2])
    moreover have "close_run E (s, st3) = (r, st')"
      using assms(1) ok q l by (simp add: run_board_def Let_def run_board_inner_def)
    ultimately show ?thesis by (rule closes [rotated])
  qed
qed

end

end
