(* ===== verification/Board_Commands.thy ===== *)
theory Board_Commands
  imports Board_Guard
begin

text \<open>
  The \<open>board\<close> subcommands of \<open>crates/maturana-cli/src/orchestrate.rs\<close> (\<open>handle_board\<close>,
  \<open>decompose_card\<close>, \<open>specify_card\<close>, \<open>run_board\<close>), as operations on \<open>board_home\<close>, and where
  the result of a finished card is delivered (\<open>resolve_channel_delivery\<close>,
  \<open>deliver_card_result\<close>). What the subcommands print is left out, and nobody else changes the
  board directory while a command runs.
\<close>

section \<open>Subcommands\<close>

record add_args =
  aa_title :: str
  aa_detail :: "str option"
  aa_assignee :: "str option"
  aa_needs :: "str list"
  aa_priority :: "int option"
  aa_tenant :: "str option"
  aa_scheduled_at :: "str option"
  aa_max_retries :: "nat option"
  aa_goal :: bool
  aa_goal_max_turns :: "nat option"
  aa_triage :: bool

datatype board_subcommand =
    AddCard add_args
  | MoveCard str str
  | CommentCard str str str
  | ArchiveCard str
  | DecomposeCard str
  | SpecifyCard str
  | ResetBoard
  | ClearBoard
  | RunBoard caps_override
  | ListCards
  | ShowCard str
  | ShowStatus

datatype command_error =
    UnknownNeed str
  | BadScheduledAt str
  | InvalidAfter board_error
  | UnknownStatus str
  | NoSuchCardHere str
  | AgentFailed str
  | OpFailed board_op_error
  | NotLoaded str
  | NotStored str
  | RunFailed board_run_error

text \<open>
  What the commands take from outside: the clock, the parser of dates, what the agent
  answered (its set-up, resolution and dispatch included), the decoders of its JSON, whether a
  board file can be read and written, and for a run its environment \<open>'w\<close> besides the directory.
\<close>

record 'w command_env =
  ce_now :: timestamp
  ce_times :: "timestamp list"
  ce_parse_time :: "str \<Rightarrow> str + timestamp"
  ce_registry :: registry
  ce_reply :: "str + str"
  ce_decode_plan :: "str \<Rightarrow> str + step_spec list"
  ce_decode_spec :: "str \<Rightarrow> str + card_spec"
  ce_load :: "str \<Rightarrow> str + unit"
  ce_save :: "board \<Rightarrow> str + unit"
  ce_run :: "'w benv"
  ce_placed :: "str + registry \<times> str"
  ce_wired :: "str + unit"
  ce_run_id :: str
  ce_world :: 'w

definition open_board :: "'w command_env \<Rightarrow> str \<Rightarrow> board_home \<Rightarrow> command_error + board" where
  "open_board E name h = (case ce_load E name of Inl e \<Rightarrow> Inl (NotLoaded e) | Inr _ \<Rightarrow> Inr (load_board h name))"

text \<open>The temporary file is renamed over the board: a save that fails leaves the old one.\<close>

definition store :: "'w command_env \<Rightarrow> board \<Rightarrow> board_home \<Rightarrow> (command_error + unit) \<times> board_home" where
  "store E b h = (case ce_save E b of Inl e \<Rightarrow> (Inl (NotStored e), h) | Inr _ \<Rightarrow> (Inr (), save_board b h))"

definition with_args :: "add_args \<Rightarrow> timestamp option \<Rightarrow> card \<Rightarrow> card" where
  "with_args a scheduled c = c\<lparr>
     c_priority := or_keep (aa_priority a) (c_priority c), c_tenant := aa_tenant a, c_scheduled_at := scheduled,
     c_max_retries := or_keep (aa_max_retries a) 0, c_goal := aa_goal a,
     c_goal_max_turns := or_keep (aa_goal_max_turns a) 0,
     c_status := (if aa_triage a then Triage else c_status c)\<rparr>"

definition parse_schedule :: "'w command_env \<Rightarrow> str option \<Rightarrow> str + timestamp option" where
  "parse_schedule E s = (case s of None \<Rightarrow> Inr None
     | Some t \<Rightarrow> (case ce_parse_time E t of Inl e \<Rightarrow> Inl e | Inr u \<Rightarrow> Inr (Some u)))"

definition add_command :: "'w command_env \<Rightarrow> add_args \<Rightarrow> str \<Rightarrow> board_home \<Rightarrow> (command_error + unit) \<times> board_home" where
  "add_command E a name h =
     (case open_board E name h of
        Inl e \<Rightarrow> (Inl e, h)
      | Inr b \<Rightarrow>
          (let deps = filter (\<lambda>s. s \<noteq> []) (map trim (aa_needs a))
           in case List.find (\<lambda>d. card_of b d = None) deps of
                Some d \<Rightarrow> (Inl (UnknownNeed d), h)
              | None \<Rightarrow>
                  (case parse_schedule E (aa_scheduled_at a) of
                     Inl e \<Rightarrow> (Inl (BadScheduledAt e), h)
                   | Inr scheduled \<Rightarrow>
                       (case add_card (aa_title a) (or_keep (aa_detail a) []) (aa_assignee a) deps (ce_now E) b of
                          (i, b1) \<Rightarrow>
                            (let b2 = card_mut i (with_args a scheduled) b1
                             in case validate_board b2 of
                                  Inl e \<Rightarrow> (Inl (InvalidAfter e), h)
                                | Inr _ \<Rightarrow> store E b2 h)))))"

definition move_command :: "'w command_env \<Rightarrow> str \<Rightarrow> str \<Rightarrow> str \<Rightarrow> board_home \<Rightarrow> (command_error + unit) \<times> board_home" where
  "move_command E i status name h =
     (case parse_card_status status of
        None \<Rightarrow> (Inl (UnknownStatus status), h)
      | Some st \<Rightarrow>
          (case open_board E name h of
             Inl e \<Rightarrow> (Inl e, h)
           | Inr b \<Rightarrow>
               (case card_of b i of
                  None \<Rightarrow> (Inl (NoSuchCardHere i), h)
                | Some _ \<Rightarrow> store E (card_mut i (\<lambda>c. c\<lparr>c_status := st\<rparr>) b) h)))"

definition comment_command :: "'w command_env \<Rightarrow> str \<Rightarrow> str \<Rightarrow> str \<Rightarrow> str \<Rightarrow> board_home \<Rightarrow> (command_error + unit) \<times> board_home" where
  "comment_command E i body author name h =
     (case open_board E name h of
        Inl e \<Rightarrow> (Inl e, h)
      | Inr b0 \<Rightarrow>
          (case add_comment i author body (ce_now E) b0 of
             (False, _) \<Rightarrow> (Inl (NoSuchCardHere i), h)
           | (True, b) \<Rightarrow> store E b h))"

definition archive_command :: "'w command_env \<Rightarrow> str \<Rightarrow> str \<Rightarrow> board_home \<Rightarrow> (command_error + unit) \<times> board_home" where
  "archive_command E i name h =
     (case open_board E name h of
        Inl e \<Rightarrow> (Inl e, h)
      | Inr b \<Rightarrow>
          (case card_of b i of
             None \<Rightarrow> (Inl (NoSuchCardHere i), h)
           | Some _ \<Rightarrow> store E (card_mut i (\<lambda>c. c\<lparr>c_status := Archived\<rparr>) b) h))"

definition store_and_log ::
    "'w command_env \<Rightarrow> board \<Rightarrow> str \<Rightarrow> str \<Rightarrow> str option \<Rightarrow> str \<Rightarrow> board_home \<Rightarrow> (command_error + unit) \<times> board_home" where
  "store_and_log E b name kind c t h =
     (case store E b h of (Inl e, h1) \<Rightarrow> (Inl e, h1) | (Inr _, h1) \<Rightarrow> (Inr (), log_event name kind c t (ce_now E) h1))"

definition decompose_card :: "'w command_env \<Rightarrow> str \<Rightarrow> str \<Rightarrow> board_home \<Rightarrow> (command_error + unit) \<times> board_home" where
  "decompose_card E i name h =
     (case open_board E name h of
        Inl e \<Rightarrow> (Inl e, h)
      | Inr b \<Rightarrow>
          (case card_of b i of
             None \<Rightarrow> (Inl (NoSuchCardHere i), h)
           | Some _ \<Rightarrow>
               (case ce_reply E of
                  Inl e \<Rightarrow> (Inl (AgentFailed e), h)
                | Inr reply \<Rightarrow>
                    (case apply_decomposition (ce_decode_plan E) (ce_times E) i reply (ce_registry E) b of
                       (Inl e, _) \<Rightarrow> (Inl (OpFailed e), h)
                     | (Inr new_ids, b1) \<Rightarrow>
                         store_and_log E b1 name ''decompose'' (Some i) (''-> '' @ join '', '' new_ids) h))))"

definition specify_card :: "'w command_env \<Rightarrow> str \<Rightarrow> str \<Rightarrow> board_home \<Rightarrow> (command_error + unit) \<times> board_home" where
  "specify_card E i name h =
     (case open_board E name h of
        Inl e \<Rightarrow> (Inl e, h)
      | Inr b \<Rightarrow>
          (case card_of b i of
             None \<Rightarrow> (Inl (NoSuchCardHere i), h)
           | Some _ \<Rightarrow>
               (case ce_reply E of
                  Inl e \<Rightarrow> (Inl (AgentFailed e), h)
                | Inr reply \<Rightarrow>
                    (case parse_card_specification (ce_decode_spec E) reply of
                       Inl e \<Rightarrow> (Inl (OpFailed e), h)
                     | Inr spec \<Rightarrow>
                         (case apply_card_specification i spec b of
                            Inl e \<Rightarrow> (Inl (OpFailed e), h)
                          | Inr b1 \<Rightarrow> store E b1 h)))))"

definition store_and_clear :: "'w command_env \<Rightarrow> board \<Rightarrow> board_home \<Rightarrow> (command_error + unit) \<times> board_home" where
  "store_and_clear E b h =
     (case store E b h of (Inl e, h1) \<Rightarrow> (Inl e, h1) | (Inr _, h1) \<Rightarrow> (Inr (), clear_events (b_name b) h1))"

definition reset_command :: "'w command_env \<Rightarrow> str \<Rightarrow> board_home \<Rightarrow> (command_error + unit) \<times> board_home" where
  "reset_command E name h =
     (case open_board E name h of Inl e \<Rightarrow> (Inl e, h) | Inr b \<Rightarrow> store_and_clear E (snd (reset_for_rerun b)) h)"

definition clear_command :: "'w command_env \<Rightarrow> str \<Rightarrow> board_home \<Rightarrow> (command_error + unit) \<times> board_home" where
  "clear_command E name h =
     (case open_board E name h of Inl e \<Rightarrow> (Inl e, h) | Inr b \<Rightarrow> store_and_clear E (b\<lparr>b_cards := []\<rparr>) h)"

text \<open>A run on the board directory: it is part of the world, saves and the log go there.\<close>

definition on_home :: "str \<Rightarrow> 'w benv \<Rightarrow> (board_home \<times> 'w) benv" where
  "on_home name E = \<lparr>
     d_batch = (\<lambda>bs (h, w). case d_batch E bs w of (r, w') \<Rightarrow> (r, h, w')),
     d_send = (\<lambda>wk t (h, w). case d_send E wk t w of (r, w') \<Rightarrow> (r, h, w')),
     d_agents = (\<lambda>(h, w). d_agents E w),
     d_launch = (\<lambda>n (h, w). case d_launch E n w of (r, w') \<Rightarrow> (r, h, w')),
     d_elapsed = (\<lambda>(h, w). case d_elapsed E w of (t, w') \<Rightarrow> (t, h, w')),
     d_now = (\<lambda>(h, w). case d_now E w of (t, w') \<Rightarrow> (t, h, w')),
     d_collect = (\<lambda>a d (h, w). case d_collect E a d w of (n, w') \<Rightarrow> (n, h, w')),
     d_files = (\<lambda>(h, w). d_files E w),
     d_save = (\<lambda>b (h, w). case d_save E b w of (Inl e, w') \<Rightarrow> (Inl e, h, w') | (Inr _, w') \<Rightarrow> (Inr (), save_board b h, w')),
     d_log = (\<lambda>k c t (h, w). case d_now E w of (now, w') \<Rightarrow> (log_event name k c t now h, d_log E k c t w')),
     d_deliver = (\<lambda>a ch t (h, w). (h, d_deliver E a ch t w)),
     d_out_dir = d_out_dir E,
     d_stop = (\<lambda>vms (h, w). (h, d_stop E vms w)),
     d_publish = (\<lambda>(h, w). case d_publish E w of (r, w') \<Rightarrow> (r, h, w')) \<rparr>"

definition run_command :: "'w command_env \<Rightarrow> caps_override \<Rightarrow> str \<Rightarrow> board_home \<Rightarrow> (command_error + unit) \<times> board_home" where
  "run_command E ov name h =
     (case open_board E name h of
        Inl e \<Rightarrow> (Inl e, h)
      | Inr b \<Rightarrow>
          (case run_board (on_home name (ce_run E)) (ce_placed E) (ce_wired E) (ce_run_id E) ov b (h, ce_world E) of
             (r, st) \<Rightarrow> (case r of Inl e \<Rightarrow> Inl (RunFailed e) | Inr _ \<Rightarrow> Inr (), fst (x_world st))))"

definition show_command :: "'w command_env \<Rightarrow> str \<Rightarrow> str \<Rightarrow> board_home \<Rightarrow> (command_error + unit) \<times> board_home" where
  "show_command E i name h =
     (case open_board E name h of
        Inl e \<Rightarrow> (Inl e, h)
      | Inr b \<Rightarrow> (case card_of b i of None \<Rightarrow> (Inl (NoSuchCardHere i), h) | Some _ \<Rightarrow> (Inr (), h)))"

definition look_command :: "'w command_env \<Rightarrow> str \<Rightarrow> board_home \<Rightarrow> (command_error + unit) \<times> board_home" where
  "look_command E name h = (case open_board E name h of Inl e \<Rightarrow> (Inl e, h) | Inr _ \<Rightarrow> (Inr (), h))"

fun handle_board :: "'w command_env \<Rightarrow> board_subcommand \<Rightarrow> str \<Rightarrow> board_home \<Rightarrow> (command_error + unit) \<times> board_home" where
  "handle_board E (AddCard a) name h = add_command E a name h"
| "handle_board E (MoveCard i st) name h = move_command E i st name h"
| "handle_board E (CommentCard i body author) name h = comment_command E i body author name h"
| "handle_board E (ArchiveCard i) name h = archive_command E i name h"
| "handle_board E (DecomposeCard i) name h = decompose_card E i name h"
| "handle_board E (SpecifyCard i) name h = specify_card E i name h"
| "handle_board E ResetBoard name h = reset_command E name h"
| "handle_board E ClearBoard name h = clear_command E name h"
| "handle_board E (RunBoard ov) name h = run_command E ov name h"
| "handle_board E ListCards name h = look_command E name h"
| "handle_board E (ShowCard i) name h = show_command E i name h"
| "handle_board E ShowStatus name h = look_command E name h"

section \<open>Delivering a result\<close>

record delivery_target =
  dt_channel :: str
  dt_platform_id :: str
  dt_agent_id :: str
  dt_session_id :: str

text \<open>What the channels know: live bridges, paired chats, learned channels, main sessions.\<close>

record channel_env =
  ch_agents :: "str list"
  ch_telegram_live :: "str \<Rightarrow> bool"
  ch_telegram_chat :: "str \<Rightarrow> int option"
  ch_discord_channel :: "str \<Rightarrow> str option"
  ch_session :: "str \<Rightarrow> str option"

definition show_int :: "int \<Rightarrow> str" where
  "show_int n = (if n < 0 then ''-'' @ show_nat (nat (- n)) else show_nat (nat n))"

datatype delivery_error = NoTelegram | NoDiscord | NoPush str

definition delivery_spec :: "str \<Rightarrow> str \<times> str option" where
  "delivery_spec target =
     (case split_once CHR '':'' target of
        Some (c, a) \<Rightarrow> (to_ascii_lowercase (trim c), if trim a = [] then None else Some (trim a))
      | None \<Rightarrow> (to_ascii_lowercase (trim target), None))"

definition delivery_candidates :: "channel_env \<Rightarrow> str option \<Rightarrow> str option \<Rightarrow> str list" where
  "delivery_candidates C pinned prefer =
     (case pinned of
        Some a \<Rightarrow> [a]
      | None \<Rightarrow>
          (let ids = sort (ch_agents C)
           in case prefer of
                None \<Rightarrow> ids
              | Some p \<Rightarrow> if p \<in> set ids then p # remove1 p ids else ids))"

definition session_of :: "channel_env \<Rightarrow> str \<Rightarrow> str" where
  "session_of C a = or_keep (ch_session C a) (a @ ''-main'')"

definition telegram_target :: "channel_env \<Rightarrow> bool \<Rightarrow> str \<Rightarrow> delivery_target option" where
  "telegram_target C require_live a =
     (if require_live \<and> \<not> ch_telegram_live C a then None
      else map_option (\<lambda>chat. \<lparr> dt_channel = ''telegram'', dt_platform_id = show_int chat, dt_agent_id = a,
             dt_session_id = session_of C a \<rparr>) (ch_telegram_chat C a))"

definition discord_target :: "channel_env \<Rightarrow> str \<Rightarrow> delivery_target option" where
  "discord_target C a = map_option (\<lambda>ch. \<lparr> dt_channel = ''discord'', dt_platform_id = ch, dt_agent_id = a,
     dt_session_id = session_of C a \<rparr>) (ch_discord_channel C a)"

fun first_some :: "('a \<Rightarrow> 'b option) \<Rightarrow> 'a list \<Rightarrow> 'b option" where
  "first_some f [] = None"
| "first_some f (x # xs) = (case f x of Some y \<Rightarrow> Some y | None \<Rightarrow> first_some f xs)"

definition resolve_channel_delivery :: "channel_env \<Rightarrow> str \<Rightarrow> str option \<Rightarrow> delivery_error + delivery_target" where
  "resolve_channel_delivery C target prefer =
     (case delivery_spec target of
        (channel, pinned) \<Rightarrow>
          (let candidates = delivery_candidates C pinned prefer
           in if channel = ''telegram'' then
                (case first_some (telegram_target C (pinned = None)) candidates of
                   Some t \<Rightarrow> Inr t | None \<Rightarrow> Inl NoTelegram)
              else if channel = ''discord'' then
                (case first_some (discord_target C) candidates of Some t \<Rightarrow> Inr t | None \<Rightarrow> Inl NoDiscord)
              else Inl (NoPush channel)))"

text \<open>The outbox post that is attempted, if any. \<open>silence\<close> is \<open>SILENCE_SENTINEL\<close>.\<close>

definition deliver_card_result :: "channel_env \<Rightarrow> str \<Rightarrow> str \<Rightarrow> str \<Rightarrow> str \<Rightarrow> (delivery_target \<times> str) option" where
  "deliver_card_result C silence worker_agent target text =
     (if trim text = [] \<or> trim text = silence then None
      else case resolve_channel_delivery C target (Some worker_agent) of
             Inl _ \<Rightarrow> None | Inr t \<Rightarrow> Some (t, text))"

section \<open>Lemmas\<close>

definition boards_valid :: "board_home \<Rightarrow> bool" where
  "boards_valid h \<longleftrightarrow> (\<forall>name. case h_boards h name of None \<Rightarrow> True | Some b \<Rightarrow> validate_board b = Inr ())"

lemma validate_no_cards: "b_cards b = [] \<Longrightarrow> validate_board b = Inr ()"
  by (simp add: validate_board_iff deps_listed_def card_deps_def card_of_def dep_rel_def acyclic_def)

lemma valid_keeps: "(\<And>c. c_id (f c) = c_id c \<and> c_deps (f c) = c_deps c) \<Longrightarrow> validate_board b = Inr () \<Longrightarrow>
    validate_board (card_mut i f b) = Inr ()"
  using validate_skeleton [OF skeleton_card_mut, of f] by blast

lemma valid_load: "boards_valid h \<Longrightarrow> validate_board (load_board h name) = Inr ()"
  by (auto simp: boards_valid_def load_board_def new_board_def validate_no_cards split: option.split dest: spec [of _ name])

lemma valid_save: "boards_valid h \<Longrightarrow> validate_board b = Inr () \<Longrightarrow> boards_valid (save_board b h)"
  by (simp add: boards_valid_def save_board_def)

lemma valid_events [simp]: "boards_valid (clear_events n h) = boards_valid h" "boards_valid (log_event n k i t now h) = boards_valid h"
  by (simp_all add: boards_valid_def clear_events_def log_event_def)

lemma apply_decomposition_valid:
  "apply_decomposition decode ts cid reply reg b = (Inr is, b') \<Longrightarrow> validate_board b' = Inr ()"
  by (auto simp: apply_decomposition_def Let_def split: option.splits sum.splits prod.splits if_splits)

lemma apply_specification_valid:
  "apply_card_specification cid spec b = Inr b' \<Longrightarrow> validate_board b = Inr () \<Longrightarrow> validate_board b' = Inr ()"
  by (auto simp: apply_card_specification_def intro: valid_keeps split: option.splits)

lemma add_steps_name: "add_steps ss ts m b = (is, b') \<Longrightarrow> b_name b' = b_name b"
proof (induction ss arbitrary: ts m b "is" b')
  case Nil
  then show ?case by simp
next
  case (Cons s ss)
  then show ?case by (auto simp: Let_def add_card_def split: prod.splits)
qed

text \<open>What a command may do: replace the board it works on by a valid one, and touch the log.\<close>

definition only_board :: "str \<Rightarrow> board_home \<Rightarrow> board_home \<Rightarrow> bool" where
  "only_board n h h' \<longleftrightarrow> (\<forall>k. k \<noteq> n \<longrightarrow> h_boards h' k = h_boards h k)"

definition sound_step :: "board \<Rightarrow> board_home \<Rightarrow> (command_error + unit) \<times> board_home \<Rightarrow> bool" where
  "sound_step b h res \<longleftrightarrow> (case res of (r, h') \<Rightarrow>
     boards_valid h' \<and> only_board (b_name b) h h' \<and> (case r of Inl _ \<Rightarrow> h' = h | Inr _ \<Rightarrow> True))"

lemma sound_fail [simp]: "boards_valid h \<Longrightarrow> sound_step b h (r, h)"
  by (simp add: sound_step_def only_board_def split: sum.split)

lemma sound_store: "boards_valid h \<Longrightarrow> validate_board b' = Inr () \<Longrightarrow> b_name b' = b_name b \<Longrightarrow> sound_step b h (store E b' h)"
  using valid_save [of h b'] by (auto simp: sound_step_def store_def only_board_def split: sum.split) (simp add: save_board_def)

lemma sound_clear: "boards_valid h \<Longrightarrow> validate_board b' = Inr () \<Longrightarrow> b_name b' = b_name b \<Longrightarrow> sound_step b h (store_and_clear E b' h)"
  using sound_store [of h b' b E] by (auto simp: sound_step_def store_and_clear_def only_board_def split: sum.split prod.split)
    (simp add: clear_events_def)

lemma sound_logged: "boards_valid h \<Longrightarrow> validate_board b' = Inr () \<Longrightarrow> b_name b' = b_name b \<Longrightarrow>
    sound_step b h (store_and_log E b' n k c t h)"
  using sound_store [of h b' b E] by (auto simp: sound_step_def store_and_log_def only_board_def split: sum.split prod.split)
    (simp add: log_event_def)

lemma opens: "open_board E name h = Inr b \<Longrightarrow> b = load_board h name"
  by (simp add: open_board_def split: sum.splits)

lemma names [simp]: "b_name (card_mut i f b) = b_name b" "b_name (snd (add_comment i a t now b)) = b_name b"
  "b_name (snd (reset_for_rerun b)) = b_name b" "b_name (snd (add_card ti de asg ds now b)) = b_name b"
  by (simp_all add: card_mut_def add_comment_def reset_for_rerun_def add_card_def Let_def split: option.split)

lemma decomposition_name: "apply_decomposition decode ts cid reply reg b = (Inr is, b') \<Longrightarrow> b_name b' = b_name b"
  by (auto simp: apply_decomposition_def Let_def dest!: add_steps_name split: option.splits sum.splits prod.splits if_splits)

lemma specification_name: "apply_card_specification cid spec b = Inr b' \<Longrightarrow> b_name b' = b_name b"
  by (auto simp: apply_card_specification_def split: option.splits)

text \<open>A run keeps the other boards, and its own in shape.\<close>

definition run_kept :: "board \<Rightarrow> board_home \<Rightarrow> board_home \<times> 'w \<Rightarrow> bool" where
  "run_kept b0 h0 hw \<longleftrightarrow> only_board (b_name b0) h0 (fst hw) \<and>
     (h_boards (fst hw) (b_name b0) = h_boards h0 (b_name b0) \<or>
      (\<exists>b. h_boards (fst hw) (b_name b0) = Some b \<and> same_shape b b0))"

interpretation home_runs: guarded_world "on_home name E" "run_kept b0 h0" b0 for name E b0 h0
  by unfold_locales
    (auto simp: on_home_def run_kept_def only_board_def save_board_def log_event_def same_shape_def split: prod.splits sum.splits)

lemma run_kept_valid: "boards_valid h \<Longrightarrow> validate_board b = Inr () \<Longrightarrow> run_kept b h hw \<Longrightarrow> boards_valid (fst hw)"
proof -
  assume v: "boards_valid h" "validate_board b = Inr ()" and k: "run_kept b h hw"
  have "validate_board c = Inr ()" if "h_boards (fst hw) n = Some c" for n c
  proof (cases "n = b_name b \<and> same_shape c b")
    case True
    then show ?thesis using v(2) validate_skeleton [of c b] by (simp add: same_shape_def)
  next
    case False
    then have "h_boards h n = Some c" using k that by (cases "n = b_name b") (auto simp: run_kept_def only_board_def)
    then show ?thesis using v(1) by (auto simp: boards_valid_def dest: spec [of _ n])
  qed
  then show ?thesis by (simp add: boards_valid_def split: option.split)
qed

lemma run_sound:
  assumes "boards_valid h" and "run_command E ov name h = (r, h')"
  shows "boards_valid h' \<and> only_board (b_name (load_board h name)) h h'"
proof (cases "open_board E name h")
  case (Inl e)
  with assms show ?thesis by (simp add: run_command_def only_board_def)
next
  case (Inr b)
  then have b: "b = load_board h name" by (rule opens)
  obtain q st where run: "run_board (on_home name (ce_run E)) (ce_placed E) (ce_wired E) (ce_run_id E) ov b (h, ce_world E) = (q, st)"
    by fastforce
  have "guarded (run_kept b h) b st"
    by (rule home_runs.run [OF run]) (simp_all add: run_kept_def only_board_def)
  then have k: "run_kept b h (x_world st)" by (simp add: guarded_def)
  moreover have "h' = fst (x_world st)" using assms(2) Inr run by (simp add: run_command_def)
  moreover have "boards_valid (fst (x_world st))" using run_kept_valid [OF assms(1) _ k] valid_load [OF assms(1)] b by simp
  ultimately show ?thesis by (simp add: run_kept_def b)
qed

lemma handle_board_sound:
  assumes v: "boards_valid h" and "\<And>ov. cmd \<noteq> RunBoard ov"
  shows "sound_step (load_board h name) h (handle_board E cmd name h)"
proof -
  note L = valid_load [OF v, of name]
  show ?thesis
  proof (cases cmd)
    case (AddCard a)
    then show ?thesis using v
      by (auto simp: add_command_def Let_def dest!: opens intro!: sound_store split: option.split sum.split prod.split) (metis names(4) snd_conv)
  next
    case (CommentCard i body author)
    have "validate_board (snd (add_comment i author body (ce_now E) (load_board h name))) = Inr ()"
      using validate_skeleton [OF skeleton_add_comment] L by blast
    with CommentCard v show ?thesis
      by (auto simp: comment_command_def dest!: opens intro!: sound_store split: sum.split prod.splits bool.splits) (metis names(2) snd_conv)+
  next
    case ResetBoard
    have "validate_board (snd (reset_for_rerun (load_board h name))) = Inr ()"
      using validate_skeleton [OF skeleton_reset] L by blast
    with ResetBoard v show ?thesis by (auto simp: reset_command_def dest!: opens intro!: sound_clear split: sum.split)
  next
    case (DecomposeCard i)
    with v show ?thesis
      by (auto simp: decompose_card_def dest!: opens intro!: sound_logged intro: apply_decomposition_valid decomposition_name split: option.split sum.split prod.split)
  next
    case (MoveCard i st)
    with v L show ?thesis
      by (auto simp: move_command_def dest!: opens intro!: sound_store valid_keeps split: option.split sum.split)
  next
    case (ArchiveCard i)
    with v L show ?thesis
      by (auto simp: archive_command_def dest!: opens intro!: sound_store valid_keeps split: option.split sum.split)
  next
    case (SpecifyCard i)
    with v L show ?thesis
      by (auto simp: specify_card_def dest!: opens intro!: sound_store intro: apply_specification_valid specification_name
          split: option.split sum.split)
  next
    case ClearBoard
    with v show ?thesis by (auto simp: clear_command_def dest!: opens intro!: sound_clear validate_no_cards split: sum.split)
  qed (use v assms(2) in \<open>auto simp: show_command_def look_command_def split: option.split sum.split\<close>)
qed

lemma first_some_Some: "first_some f xs = Some y \<Longrightarrow> \<exists>x\<in>set xs. f x = Some y"
  by (induction xs) (auto split: option.splits)

lemma first_some_None: "first_some f xs = None \<longleftrightarrow> (\<forall>x\<in>set xs. f x = None)"
  by (induction xs) (auto split: option.splits)

lemma add_steps_cards: "add_steps ss ts m b = (is, b') \<Longrightarrow> set (b_cards b) \<subseteq> set (b_cards b')"
proof (induction ss arbitrary: ts m b "is" b')
  case Nil
  then show ?case by simp
next
  case (Cons s ss)
  then show ?case by (auto simp: Let_def add_card_def split: prod.splits) fastforce
qed

lemma apply_decomposition_kept:
  assumes "apply_decomposition decode ts cid reply reg b = (Inr is, b')"
  shows "b_name b' = b_name b \<and> b_cards b' \<noteq> []"
proof -
  obtain c where c: "card_of b cid = Some c"
    using assms by (cases "card_of b cid") (simp_all add: apply_decomposition_def)
  obtain p where p: "parse_plan decode (c_title c) reply reg = Inr p"
    using assms c by (cases "parse_plan decode (c_title c) reply reg") (simp_all add: apply_decomposition_def)
  obtain js b1 where a: "add_steps (steps p) ts Map.empty b = (js, b1)" by fastforce
  let ?f = "\<lambda>c. c\<lparr>c_status := Done, c_result := Some (''decomposed into '' @ join '', '' js)\<rparr>"
  have b': "b' = card_mut cid ?f b1"
    using assms c p a by (auto simp: apply_decomposition_def Let_def split: sum.splits if_split_asm)
  have "c \<in> set (b_cards b1)" using card_of_Some [OF c] add_steps_cards [OF a] by blast
  then have "b_cards b1 \<noteq> []" by auto
  then have "b_cards b' \<noteq> []" unfolding b' card_mut_def by (cases "b_cards b1") simp_all
  with add_steps_name [OF a] show ?thesis by (simp add: b' card_mut_def)
qed

section \<open>Properties\<close>

text \<open>
  C19. No board command breaks a board: if every saved board is valid, it still is after any
  command (a card added with its needs, a decomposition, a move, a reset, a whole run, ...), and no
  board but the one the command works on is changed. A command that fails, also because the board
  could not be saved, leaves the board directory exactly as it was, unless it is a run: a
  failed run keeps what it had saved before.
\<close>

theorem board_commands_sound:
  assumes "boards_valid h"
  shows "case handle_board E cmd name h of
    (r, h') \<Rightarrow> boards_valid h' \<and> (\<forall>n. n = b_name (load_board h name) \<or> h_boards h' n = h_boards h n) \<and>
      (case r of Inl e \<Rightarrow> h' = h \<or> (\<exists>ov e'. cmd = RunBoard ov \<and> e = RunFailed e') | Inr _ \<Rightarrow> True)"
proof -
  obtain r h' where r: "handle_board E cmd name h = (r, h')" by fastforce
  show ?thesis
  proof (cases "\<exists>ov. cmd = RunBoard ov")
    case True
    then obtain ov where c: "run_command E ov name h = (r, h')" "cmd = RunBoard ov" using r by auto
    have "case r of Inl e \<Rightarrow> h' = h \<or> (\<exists>e'. e = RunFailed e') | Inr _ \<Rightarrow> True"
      using c(1) by (auto simp: run_command_def split: sum.splits prod.splits)
    with run_sound [OF assms c(1)] c(2) r show ?thesis by (auto simp: only_board_def split: sum.splits)
  next
    case False
    with handle_board_sound [OF assms, of cmd name E] r show ?thesis
      by (auto simp: sound_step_def only_board_def split: sum.splits)
  qed
qed

text \<open>
  Decomposing a card makes the board look busy: the command logs a \<open>decompose\<close> event,
  and a board whose last event is not \<open>run_end\<close> counts as running, so
  \<open>launch_board_run\<close> refuses to run the cards that were just created.
\<close>

theorem decompose_blocks_launch:
  assumes "handle_board E (DecomposeCard i) name h = (Inr (), h')"
    and "b_name (load_board h name) = name" and "safe_id name"
  shows "launch_board_run h' name = Inl AlreadyRunning"
proof -
  obtain b where o: "open_board E name h = Inr b"
    using assms(1) by (cases "open_board E name h") (auto simp: decompose_card_def)
  then have b: "b = load_board h name" by (rule opens)
  obtain reply where r: "ce_reply E = Inr reply"
    using assms(1) o by (cases "ce_reply E") (auto simp: decompose_card_def split: option.splits)
  obtain rd b1 where d: "apply_decomposition (ce_decode_plan E) (ce_times E) i reply (ce_registry E) b = (rd, b1)" by fastforce
  obtain new_ids where n: "rd = Inr new_ids"
    using assms(1) o r d by (cases rd) (auto simp: decompose_card_def split: option.splits)
  have h': "h' = log_event name ''decompose'' (Some i) (''-> '' @ join '', '' new_ids) (ce_now E) (save_board b1 h)"
    using assms(1) o r d n by (auto simp: decompose_card_def store_and_log_def store_def split: option.splits sum.splits)
  show ?thesis
    using apply_decomposition_kept [OF d [unfolded n]] assms(2,3) unfolding h' b
    by (simp add: launch_board_run_def load_board_def save_board_def log_event_def is_board_running_def read_events_def Let_def)
qed

text \<open>
  A result is routed to an agent that serves the channel: the address is that agent's own
  paired chat or learned channel, without a pin its Telegram bridge is live, and a worker
  that serves the channel itself is preferred to every other agent.
\<close>

theorem delivery_serves_channel:
  "case resolve_channel_delivery C target (Some worker) of
     Inl _ \<Rightarrow> True
   | Inr t \<Rightarrow>
       (case delivery_spec target of
          (channel, pinned) \<Rightarrow>
            dt_channel t = channel \<and> dt_session_id t = session_of C (dt_agent_id t) \<and>
            (case pinned of Some a \<Rightarrow> dt_agent_id t = a | None \<Rightarrow> dt_agent_id t \<in> set (ch_agents C)) \<and>
            ((channel = ''telegram'' \<and> Some (dt_platform_id t) = map_option show_int (ch_telegram_chat C (dt_agent_id t)) \<and>
              (pinned \<noteq> None \<or> ch_telegram_live C (dt_agent_id t)) \<and>
              (pinned \<noteq> None \<or> dt_agent_id t = worker \<or> worker \<notin> set (ch_agents C) \<or>
               telegram_target C True worker = None)) \<or>
             (channel = ''discord'' \<and> Some (dt_platform_id t) = ch_discord_channel C (dt_agent_id t) \<and>
              (pinned \<noteq> None \<or> dt_agent_id t = worker \<or> worker \<notin> set (ch_agents C) \<or> ch_discord_channel C worker = None))))"
proof (cases "resolve_channel_delivery C target (Some worker)")
  case (Inl e)
  then show ?thesis by simp
next
  case (Inr t)
  obtain channel pinned where sp: "delivery_spec target = (channel, pinned)" by fastforce
  let ?cs = "delivery_candidates C pinned (Some worker)"
  have cs: "set ?cs = (case pinned of Some a \<Rightarrow> {a} | None \<Rightarrow> set (ch_agents C))"
    by (auto simp: delivery_candidates_def Let_def split: option.split) (metis in_set_remove1 set_sort)+
  have hd: "\<exists>y. first_some f ?cs = Some y \<and> f worker = Some y" if "pinned = None" "worker \<in> set (ch_agents C)" "f worker \<noteq> None"
    for f :: "str \<Rightarrow> delivery_target option"
    using that by (auto simp: delivery_candidates_def Let_def)
  show ?thesis
  proof (cases "channel = ''telegram''")
    case True
    then have f: "first_some (telegram_target C (pinned = None)) ?cs = Some t"
      using Inr sp by (auto simp: resolve_channel_delivery_def Let_def split: option.splits)
    then obtain a where a: "a \<in> set ?cs" "telegram_target C (pinned = None) a = Some t" using first_some_Some by metis
    then have t: "dt_channel t = ''telegram''" "dt_agent_id t = a" "dt_session_id t = session_of C a"
      "Some (dt_platform_id t) = map_option show_int (ch_telegram_chat C a)" "pinned \<noteq> None \<or> ch_telegram_live C a"
      by (auto simp: telegram_target_def split: if_splits)
    have "pinned \<noteq> None \<or> a = worker \<or> worker \<notin> set (ch_agents C) \<or> telegram_target C True worker = None"
      using hd [of "telegram_target C True"] f t(2) by (auto simp: telegram_target_def split: if_splits)
    with t a(1) cs True show ?thesis by (simp add: Inr sp split: option.splits)
  next
    case False
    then have d: "channel = ''discord''" and f: "first_some (discord_target C) ?cs = Some t"
      using Inr sp by (auto simp: resolve_channel_delivery_def Let_def split: option.splits if_splits)
    then obtain a where a: "a \<in> set ?cs" "discord_target C a = Some t" using first_some_Some by metis
    then have t: "dt_channel t = ''discord''" "dt_agent_id t = a" "dt_session_id t = session_of C a"
      "Some (dt_platform_id t) = ch_discord_channel C a"
      by (auto simp: discord_target_def)
    have "pinned \<noteq> None \<or> a = worker \<or> worker \<notin> set (ch_agents C) \<or> ch_discord_channel C worker = None"
      using hd [of "discord_target C"] f t(2) by (auto simp: discord_target_def)
    with t a(1) cs d show ?thesis by (simp add: Inr sp split: option.splits)
  qed
qed

section \<open>Concrete commands\<close>

definition demo_home :: board_home where
  "demo_home = \<lparr> h_boards = [''b'' \<mapsto> demo_board\<lparr>b_name := ''b''\<rparr>], h_events = Map.empty \<rparr>"

definition demo_commands :: "unit command_env" where
  "demo_commands = \<lparr> ce_now = 40, ce_times = [30, 31], ce_parse_time = (\<lambda>s. Inl s), ce_registry = developer_only,
     ce_reply = Inr ''{}'', ce_decode_plan = (\<lambda>_. Inr backward_spec), ce_decode_spec = (\<lambda>j. Inl j),
     ce_load = (\<lambda>_. Inr ()), ce_save = (\<lambda>_. Inr ()), ce_run = demo_benv [], ce_placed = Inl ''no roles'', ce_wired = Inr (),
     ce_run_id = ''r'', ce_world = () \<rparr>"

lemma demo_home_valid: "boards_valid demo_home"
proof -
  have "validate_board (demo_board\<lparr>b_name := ''b''\<rparr>) = Inr ()"
    using demo_board_valid validate_skeleton [of "demo_board\<lparr>b_name := ''b''\<rparr>" demo_board] by (simp add: skeleton_def)
  then show ?thesis by (simp add: boards_valid_def demo_home_def)
qed

theorem board_commands_sound_witness:
  "boards_valid (snd (handle_board demo_commands (RunBoard no_override) ''b'' demo_home))"
  using board_commands_sound [OF demo_home_valid, where E = demo_commands and cmd = "RunBoard no_override" and name = "''b''"] by (simp split: prod.splits)

lemma demo_decomposes: "\<exists>h'. handle_board demo_commands (DecomposeCard ''c1'') ''b'' demo_home = (Inr (), h')"
proof -
  let ?b = "demo_board\<lparr>b_name := ''b''\<rparr>"
  have v: "validate_board ?b = Inr ()"
    using demo_board_valid validate_skeleton [of ?b demo_board] by (simp add: skeleton_def)
  have c: "card_of ?b ''c1'' = Some (fresh_card ''c1'' ''research'' [] None [] 10)" using demo_card by (simp add: card_of_def)
  have m: "max_id ?b + length (steps (plan_from_spec ''research'' backward_spec)) < 2 ^ 32"
    using demo_small by (simp add: max_id_def)
  obtain "is" b' where "apply_decomposition (\<lambda>_. Inr backward_spec) [30, 31] ''c1'' ''{}'' developer_only ?b = (Inr is, b')"
    using apply_decomposition_exact [OF c v demo_decomposition m, of "[30, 31]"] by blast
  with c show ?thesis
    by (simp add: decompose_card_def open_board_def store_and_log_def store_def demo_commands_def demo_home_def load_board_def)
qed

theorem decompose_blocks_launch_witness:
  "\<exists>h'. handle_board demo_commands (DecomposeCard ''c1'') ''b'' demo_home = (Inr (), h') \<and> launch_board_run h' ''b'' = Inl AlreadyRunning"
proof -
  obtain h' where h': "handle_board demo_commands (DecomposeCard ''c1'') ''b'' demo_home = (Inr (), h')"
    using demo_decomposes by blast
  have "b_name (load_board demo_home ''b'') = ''b''" by (simp add: load_board_def demo_home_def)
  moreover have "safe_id ''b''" by (simp add: safe_id_def is_ascii_alnum_def is_ascii_lower_def)
  ultimately have "launch_board_run h' ''b'' = Inl AlreadyRunning" by (rule decompose_blocks_launch [OF h'])
  with h' show ?thesis by blast
qed

end
