(* ===== verification/Graph_Store.thy ===== *)
theory Graph_Store
  imports Maturana_Prelude "HOL-Library.AList" "HOL-Library.List_Lexorder" "HOL-Library.Char_ord"
    "HOL-Library.Product_Lexorder"
begin

text \<open>
  \<open>crates/maturana-graph/src/model.rs\<close> and \<open>store.rs\<close>: the property graph in memory with its
  adjacency lists and label index, its mutations, reads and the breadth-first expansion.
  A \<open>HashMap\<close> is an association list with distinct keys; its order stands for the
  unspecified iteration order, and the results are stated for the maps. A 32-bit float is
  its bit pattern: no arithmetic is done on it here.
\<close>

section \<open>Data\<close>

type_synonym f32 = "32 word"

datatype json = JNull | JBool bool | JNum str | JString str | JArray "json list" | JObject "(str \<times> json) list"

record node =
  n_id :: str
  n_labels :: "str list"
  n_props :: "(str \<times> json) list"
  n_embedding :: "f32 list option"

record edge =
  e_id :: str
  e_from :: str
  e_to :: str
  e_type :: str
  e_props :: "(str \<times> json) list"
  e_weight :: f32

definition new_node :: "str \<Rightarrow> node" where
  "new_node i = \<lparr> n_id = i, n_labels = [], n_props = [], n_embedding = None \<rparr>"

definition new_edge :: "str \<Rightarrow> str \<Rightarrow> str \<Rightarrow> edge" where
  "new_edge from ty to = \<lparr> e_id = [], e_from = from, e_to = to, e_type = ty, e_props = [], e_weight = 0x3F800000 \<rparr>"

definition string_prop :: "node \<Rightarrow> str \<Rightarrow> str option" where
  "string_prop n key = (case map_of (n_props n) key of Some (JString s) \<Rightarrow> Some s | _ \<Rightarrow> None)"

definition display_name :: "node \<Rightarrow> str" where
  "display_name n =
     (case List.find (\<lambda>s. s \<noteq> []) (List.map_filter (string_prop n) [''name'', ''title'', ''label'']) of
        Some s \<Rightarrow> s | None \<Rightarrow> n_id n)"

definition derived_id :: "edge \<Rightarrow> str" where
  "derived_id e = e_from e @ [CHR 0x01] @ e_type e @ [CHR 0x01] @ e_to e"

definition effective_id :: "edge \<Rightarrow> str" where
  "effective_id e = (if trim (e_id e) = [] then derived_id e else e_id e)"

record store =
  s_nodes :: "(str \<times> node) list"
  s_edges :: "(str \<times> edge) list"
  s_out :: "(str \<times> str list) list"
  s_in :: "(str \<times> str list) list"
  s_labels :: "(str \<times> str list) list"
  s_since :: nat  \<comment> \<open>\<open>mutations_since_snapshot\<close>\<close>

definition empty_store :: store where
  "empty_store = \<lparr> s_nodes = [], s_edges = [], s_out = [], s_in = [], s_labels = [], s_since = 0 \<rparr>"

definition entry_of :: "(str \<times> 'a list) list \<Rightarrow> str \<Rightarrow> 'a list" where
  "entry_of m k = (case map_of m k of None \<Rightarrow> [] | Some xs \<Rightarrow> xs)"

section \<open>Mutations\<close>

datatype mutation = UpsertNode node | UpsertEdge edge | DeleteNode str | DeleteEdge str

text \<open>\<open>if let Some(set) = m.get_mut(k) { f(set) }\<close>.\<close>

definition on_entry :: "str \<Rightarrow> ('a list \<Rightarrow> 'a list) \<Rightarrow> (str \<times> 'a list) list \<Rightarrow> (str \<times> 'a list) list" where
  "on_entry k f m = (case map_of m k of None \<Rightarrow> m | Some xs \<Rightarrow> AList.update k (f xs) m)"

text \<open>\<open>f(m.entry(k).or_default())\<close>.\<close>

definition on_default :: "str \<Rightarrow> ('a list \<Rightarrow> 'a list) \<Rightarrow> (str \<times> 'a list) list \<Rightarrow> (str \<times> 'a list) list" where
  "on_default k f m = AList.update k (f (entry_of m k)) m"

definition unindex :: "str \<Rightarrow> str list \<Rightarrow> (str \<times> str list) list \<Rightarrow> (str \<times> str list) list" where
  "unindex i labels m = fold (\<lambda>l. on_entry l (removeAll i)) labels m"

definition index_labels :: "str \<Rightarrow> str list \<Rightarrow> (str \<times> str list) list \<Rightarrow> (str \<times> str list) list" where
  "index_labels i labels m = fold (\<lambda>l. on_default l (List.insert i)) labels m"

definition put_node :: "node \<Rightarrow> store \<Rightarrow> store" where
  "put_node n st =
     (let ls = (case map_of (s_nodes st) (n_id n) of None \<Rightarrow> s_labels st | Some old \<Rightarrow> unindex (n_id n) (n_labels old) (s_labels st))
      in st\<lparr>s_labels := index_labels (n_id n) (n_labels n) ls, s_nodes := AList.update (n_id n) n (s_nodes st)\<rparr>)"

definition detach :: "str \<Rightarrow> str \<Rightarrow> (str \<times> str list) list \<Rightarrow> (str \<times> str list) list" where
  "detach node eid adj = on_entry node (filter (\<lambda>e. e \<noteq> eid)) adj"

definition put_edge :: "edge \<Rightarrow> store \<Rightarrow> store" where
  "put_edge e st =
     (let (out', in') = (case map_of (s_edges st) (e_id e) of
            None \<Rightarrow> (s_out st, s_in st)
          | Some old \<Rightarrow> (detach (e_from old) (e_id old) (s_out st), detach (e_to old) (e_id old) (s_in st)))
      in st\<lparr>s_out := on_default (e_from e) (\<lambda>xs. xs @ [e_id e]) out',
            s_in := on_default (e_to e) (\<lambda>xs. xs @ [e_id e]) in',
            s_edges := AList.update (e_id e) e (s_edges st)\<rparr>)"

definition remove_edge :: "str \<Rightarrow> store \<Rightarrow> store" where
  "remove_edge i st =
     (case map_of (s_edges st) i of
        None \<Rightarrow> st
      | Some e \<Rightarrow> st\<lparr>s_edges := AList.delete i (s_edges st),
          s_out := detach (e_from e) i (s_out st), s_in := detach (e_to e) i (s_in st)\<rparr>)"

definition incident_edges :: "store \<Rightarrow> str \<Rightarrow> str list" where
  "incident_edges st i = entry_of (s_out st) i @ entry_of (s_in st) i"

definition remove_node :: "str \<Rightarrow> store \<Rightarrow> store" where
  "remove_node i st =
     (let st1 = (case map_of (s_nodes st) i of
            None \<Rightarrow> st
          | Some n \<Rightarrow> st\<lparr>s_nodes := AList.delete i (s_nodes st), s_labels := unindex i (n_labels n) (s_labels st)\<rparr>);
          st2 = fold remove_edge (incident_edges st1 i) st1
      in st2\<lparr>s_out := AList.delete i (s_out st2), s_in := AList.delete i (s_in st2)\<rparr>)"

fun apply_in_memory :: "mutation \<Rightarrow> store \<Rightarrow> store" where
  "apply_in_memory (UpsertNode n) st = put_node n st"
| "apply_in_memory (UpsertEdge e) st = put_edge e st"
| "apply_in_memory (DeleteNode i) st = remove_node i st"
| "apply_in_memory (DeleteEdge i) st = remove_edge i st"

section \<open>Reads\<close>

definition get_node :: "store \<Rightarrow> str \<Rightarrow> node option" where
  "get_node st i = map_of (s_nodes st) i"

definition get_edge :: "store \<Rightarrow> str \<Rightarrow> edge option" where
  "get_edge st i = map_of (s_edges st) i"

definition by_label :: "store \<Rightarrow> str \<Rightarrow> node list" where
  "by_label st l = List.map_filter (map_of (s_nodes st)) (entry_of (s_labels st) l)"

record stats =
  st_nodes :: nat
  st_edges :: nat
  st_embedded :: nat
  st_labels :: nat

definition store_stats :: "store \<Rightarrow> stats" where
  "store_stats st = \<lparr> st_nodes = length (s_nodes st), st_edges = length (s_edges st),
     st_embedded = length (filter (\<lambda>(_, n). n_embedding n \<noteq> None) (s_nodes st)), st_labels = length (s_labels st) \<rparr>"

text \<open>\<open>to_lowercase\<close> is a parameter: it is Unicode's.\<close>

definition node_haystack :: "(str \<Rightarrow> str) \<Rightarrow> node \<Rightarrow> str" where
  "node_haystack lower n = lower (n_id n) @ '' '' @ lower (join '' '' (n_labels n)) @
     concat (map (\<lambda>(_, v). case v of JString s \<Rightarrow> '' '' @ lower s | _ \<Rightarrow> []) (n_props n))"

definition text_search :: "(str \<Rightarrow> str) \<Rightarrow> store \<Rightarrow> str list \<Rightarrow> nat \<Rightarrow> str list" where
  "text_search lower st terms limit =
     (let lowered = map lower terms
      in if lowered = [] then []
         else let scored = List.map_filter (\<lambda>(_, n).
                let hits = length (filter (\<lambda>t. contains t (node_haystack lower n)) lowered)
                in if 0 < hits then Some (n_id n, hits) else None) (s_nodes st)
              in map fst (take limit (sort_key (\<lambda>(i, hits). (- int hits, i)) scored)))"

section \<open>Expansion\<close>

definition usable :: "store \<Rightarrow> str list option \<Rightarrow> str \<Rightarrow> edge option" where
  "usable st types i =
     (case map_of (s_edges st) i of
        None \<Rightarrow> None
      | Some e \<Rightarrow> (case types of None \<Rightarrow> Some e | Some ts \<Rightarrow> if e_type e \<in> set ts then Some e else None))"

definition other_end :: "edge \<Rightarrow> str \<Rightarrow> str" where
  "other_end e i = (if e_from e = i then e_to e else e_from e)"

record search =
  q_distance :: "(str \<times> nat) list"
  q_queue :: "str list"
  q_edges :: "str list"

text \<open>The inner loop over the incident edges of one node.\<close>

fun expand_edges :: "store \<Rightarrow> str list option \<Rightarrow> nat \<Rightarrow> str \<Rightarrow> nat \<Rightarrow> str list \<Rightarrow> search \<Rightarrow> search" where
  "expand_edges st types max_nodes current hops [] q = q"
| "expand_edges st types max_nodes current hops (i # is) q =
     (case usable st types i of
        None \<Rightarrow> expand_edges st types max_nodes current hops is q
      | Some e \<Rightarrow>
          (let y = other_end e current;
               q1 = q\<lparr>q_edges := List.insert i (q_edges q)\<rparr>
           in expand_edges st types max_nodes current hops is
                (if map_of (q_distance q) y = None \<and> length (q_distance q) < max_nodes
                 then q1\<lparr>q_distance := q_distance q @ [(y, hops + 1)], q_queue := q_queue q @ [y]\<rparr>
                 else q1)))"

definition seed_search :: "store \<Rightarrow> str list \<Rightarrow> search" where
  "seed_search st seeds = fold (\<lambda>s q.
     if map_of (s_nodes st) s \<noteq> None \<and> map_of (q_distance q) s = None
     then q\<lparr>q_distance := q_distance q @ [(s, 0)], q_queue := q_queue q @ [s]\<rparr> else q)
     seeds \<lparr> q_distance = [], q_queue = [], q_edges = [] \<rparr>"

text \<open>Everything a search can ever put into its queue.\<close>

definition universe :: "store \<Rightarrow> str set" where
  "universe st = fst ` set (s_nodes st) \<union> e_from ` snd ` set (s_edges st) \<union> e_to ` snd ` set (s_edges st)"

definition unseen :: "store \<Rightarrow> search \<Rightarrow> nat" where
  "unseen st q = card (universe st - fst ` set (q_distance q))"

lemma finite_universe [simp]: "finite (universe st)"
  by (simp add: universe_def)

lemma usable_universe: "usable st types i = Some e \<Longrightarrow> other_end e x \<in> universe st"
proof -
  assume "usable st types i = Some e"
  then have "map_of (s_edges st) i = Some e" by (auto simp: usable_def split: option.splits if_splits)
  then have "(i, e) \<in> set (s_edges st)" by (rule map_of_SomeD)
  then show ?thesis by (force simp: universe_def other_end_def)
qed

lemma expand_edges_measure:
  "q' = expand_edges st types mx cur hops is q \<Longrightarrow>
     unseen st q' < unseen st q \<or> (unseen st q' = unseen st q \<and> q_queue q' = q_queue q \<and> q_distance q' = q_distance q)"
proof (induction st types mx cur hops "is" q rule: expand_edges.induct)
  case (1 st types mx cur hops q)
  then show ?case by simp
next
  case (2 st types mx cur hops i "is" q)
  show ?case
  proof (cases "usable st types i")
    case None
    with 2 show ?thesis by simp
  next
    case (Some e)
    let ?y = "other_end e cur"
    let ?q1 = "q\<lparr>q_edges := List.insert i (q_edges q)\<rparr>"
    let ?q2 = "if map_of (q_distance q) ?y = None \<and> length (q_distance q) < mx
      then ?q1\<lparr>q_distance := q_distance q @ [(?y, hops + 1)], q_queue := q_queue q @ [?y]\<rparr> else ?q1"
    have r: "q' = expand_edges st types mx cur hops is ?q2" using "2.prems" Some by (simp add: Let_def)
    have q2: "unseen st ?q2 < unseen st q \<or> (unseen st ?q2 = unseen st q \<and> q_queue ?q2 = q_queue q \<and> q_distance ?q2 = q_distance q)"
    proof (cases "map_of (q_distance q) ?y = None \<and> length (q_distance q) < mx")
      case True
      then have "?y \<in> universe st - fst ` set (q_distance q)"
        using usable_universe [OF Some] by (simp add: map_of_eq_None_iff)
      then have "card (universe st - insert ?y (fst ` set (q_distance q))) < card (universe st - fst ` set (q_distance q))"
        by (intro psubset_card_mono) auto
      with True show ?thesis by (simp add: unseen_def)
    next
      case False
      then have "?q2 = ?q1" by argo
      then show ?thesis by (simp add: unseen_def)
    qed
    from "2.IH"(2) [OF Some refl refl r] q2 show ?thesis by auto
  qed
qed

function bfs :: "store \<Rightarrow> nat \<Rightarrow> str list option \<Rightarrow> nat \<Rightarrow> search \<Rightarrow> search" where
  "bfs st depth types max_nodes q =
     (case q_queue q of
        [] \<Rightarrow> q
      | cur # rest \<Rightarrow>
          (let q1 = q\<lparr>q_queue := rest\<rparr>;
               hops = (case map_of (q_distance q) cur of None \<Rightarrow> 0 | Some d \<Rightarrow> d)
           in if depth \<le> hops \<or> max_nodes \<le> length (q_distance q) then bfs st depth types max_nodes q1
              else bfs st depth types max_nodes (expand_edges st types max_nodes cur hops (incident_edges st cur) q1)))"
  by auto
termination
proof (relation "measures [\<lambda>(st, d, t, m, q). unseen st q, \<lambda>(st, d, t, m, q). length (q_queue q)]", goal_cases)
  case 1
  then show ?case by simp
next
  case (2 st depth types mx q cur rest q1 hops)
  then show ?case by (simp add: unseen_def)
next
  case (3 st depth types mx q cur rest q1 hops)
  let ?q' = "expand_edges st types mx cur hops (incident_edges st cur) q1"
  have "unseen st q1 = unseen st q" using 3 by (simp add: unseen_def)
  with expand_edges_measure [of ?q' st types mx cur hops "incident_edges st cur" q1] 3
  show ?case by auto
qed

declare bfs.simps [simp del]

record expansion =
  x_nodes :: "node list"
  x_edges :: "edge list"
  x_distance :: "(str \<times> nat) list"

definition expand :: "store \<Rightarrow> str list \<Rightarrow> nat \<Rightarrow> str list option \<Rightarrow> nat \<Rightarrow> expansion" where
  "expand st seeds depth types max_nodes =
     (let q = bfs st depth types max_nodes (seed_search st seeds);
          has = (\<lambda>i. map_of (q_distance q) i \<noteq> None)
      in \<lparr> x_nodes = List.map_filter (\<lambda>(i, _). map_of (s_nodes st) i) (q_distance q),
           x_edges = filter (\<lambda>e. has (e_from e) \<and> has (e_to e)) (List.map_filter (map_of (s_edges st)) (q_edges q)),
           x_distance = q_distance q \<rparr>)"

section \<open>The graph a store stands for\<close>

type_synonym graph = "(str \<rightharpoonup> node) \<times> (str \<rightharpoonup> edge)"

definition view :: "store \<Rightarrow> graph" where
  "view st = (map_of (s_nodes st), map_of (s_edges st))"

text \<open>What a mutation does to one node and to one edge: the abstract graph is only this.\<close>

fun node_at :: "str \<Rightarrow> mutation \<Rightarrow> node option \<Rightarrow> node option" where
  "node_at i (UpsertNode n) x = (if n_id n = i then Some n else x)"
| "node_at i (DeleteNode j) x = (if j = i then None else x)"
| "node_at i _ x = x"

fun edge_at :: "str \<Rightarrow> mutation \<Rightarrow> edge option \<Rightarrow> edge option" where
  "edge_at i (UpsertEdge e) x = (if e_id e = i then Some e else x)"
| "edge_at i (DeleteEdge j) x = (if j = i then None else x)"
| "edge_at i (DeleteNode j) x = (case x of None \<Rightarrow> None | Some e \<Rightarrow> if e_from e = j \<or> e_to e = j then None else x)"
| "edge_at i _ x = x"

definition apply_graph :: "mutation \<Rightarrow> graph \<Rightarrow> graph" where
  "apply_graph m g = (case g of (N, E) \<Rightarrow> (\<lambda>i. node_at i m (N i), \<lambda>i. edge_at i m (E i)))"

text \<open>The keys are the values' own ids; an index lists for each key the values that select it.\<close>

definition keyed :: "('v \<Rightarrow> str) \<Rightarrow> (str \<times> 'v) list \<Rightarrow> bool" where
  "keyed key m \<longleftrightarrow> distinct (map fst m) \<and> (\<forall>k v. map_of m k = Some v \<longrightarrow> key v = k)"

definition indexed :: "('v \<Rightarrow> str set) \<Rightarrow> (str \<rightharpoonup> 'v) \<Rightarrow> (str \<times> str list) list \<Rightarrow> bool" where
  "indexed sel m idx \<longleftrightarrow> (\<forall>x. distinct (entry_of idx x) \<and> set (entry_of idx x) = {i. \<exists>v. m i = Some v \<and> x \<in> sel v})"

definition store_ok :: "store \<Rightarrow> bool" where
  "store_ok st \<longleftrightarrow> keyed n_id (s_nodes st) \<and> keyed e_id (s_edges st) \<and>
     indexed (\<lambda>e. {e_from e}) (map_of (s_edges st)) (s_out st) \<and>
     indexed (\<lambda>e. {e_to e}) (map_of (s_edges st)) (s_in st) \<and>
     indexed (\<lambda>n. set (n_labels n)) (map_of (s_nodes st)) (s_labels st)"

lemma keyed_update: "keyed key m \<Longrightarrow> keyed key (AList.update (key v) v m)"
  by (auto simp: keyed_def update_conv' distinct_update)

lemma keyed_delete: "keyed key m \<Longrightarrow> keyed key (AList.delete k m)"
  by (auto simp: keyed_def delete_conv' distinct_delete)

lemma keyed_lookup: "keyed key m \<Longrightarrow> map_of m k = Some v \<Longrightarrow> key v = k"
  by (simp add: keyed_def)

lemma indexed_add:
  assumes "indexed sel m idx" and "m i = None"
    and "\<And>x. distinct (entry_of idx x) \<Longrightarrow> i \<notin> set (entry_of idx x) \<Longrightarrow> distinct (entry_of idx' x)"
    and "\<And>x. set (entry_of idx' x) = (if x \<in> sel v then insert i (set (entry_of idx x)) else set (entry_of idx x))"
  shows "indexed sel (m(i \<mapsto> v)) idx'"
  using assms by (auto simp: indexed_def)

lemma indexed_remove:
  assumes "indexed sel m idx" and "m i = Some v"
    and "\<And>x. distinct (entry_of idx x) \<Longrightarrow> distinct (entry_of idx' x)"
    and "\<And>x. set (entry_of idx' x) = (if x \<in> sel v then set (entry_of idx x) - {i} else set (entry_of idx x))"
  shows "indexed sel (m(i := None)) idx'"
  unfolding indexed_def
proof (intro allI conjI)
  fix x
  show "distinct (entry_of idx' x)" using assms(1,3) by (simp add: indexed_def)
  have "set (entry_of idx x) = {j. \<exists>v. m j = Some v \<and> x \<in> sel v}" using assms(1) by (simp add: indexed_def)
  then show "set (entry_of idx' x) = {j. \<exists>v. (m(i := None)) j = Some v \<and> x \<in> sel v}"
    unfolding assms(4) using assms(2) by auto
qed

lemma entry_of_on_entry: "f [] = [] \<Longrightarrow> entry_of (on_entry k f m) j = (if j = k then f (entry_of m k) else entry_of m j)"
  by (cases "map_of m k") (auto simp: entry_of_def on_entry_def update_conv')

lemma entry_of_on_default: "entry_of (on_default k f m) j = (if j = k then f (entry_of m k) else entry_of m j)"
  by (simp add: entry_of_def on_default_def update_conv')

lemma entry_of_detach: "entry_of (detach x i m) y = (if y = x then filter (\<lambda>e. e \<noteq> i) (entry_of m x) else entry_of m y)"
  unfolding detach_def by (rule entry_of_on_entry) simp

lemma entry_of_delete: "entry_of (AList.delete k m) j = (if j = k then [] else entry_of m j)"
  by (simp add: entry_of_def delete_conv')

lemma unindex_entry:
  "set (entry_of (unindex i ls m) l) = (if l \<in> set ls then set (entry_of m l) - {i} else set (entry_of m l))"
  "distinct (entry_of m l) \<Longrightarrow> distinct (entry_of (unindex i ls m) l)"
proof -
  show "set (entry_of (unindex i ls m) l) = (if l \<in> set ls then set (entry_of m l) - {i} else set (entry_of m l))"
    unfolding unindex_def by (induction ls arbitrary: m) (auto simp: entry_of_on_entry)
  show "distinct (entry_of m l) \<Longrightarrow> distinct (entry_of (unindex i ls m) l)"
    unfolding unindex_def
  proof (induction ls arbitrary: m)
    case (Cons a ls)
    have "distinct (entry_of (on_entry a (removeAll i) m) l)"
      using Cons.prems by (cases "l = a") (simp_all add: entry_of_on_entry distinct_removeAll)
    with Cons.IH show ?case by simp
  qed simp
qed

lemma index_entry:
  "set (entry_of (index_labels i ls m) l) = (if l \<in> set ls then insert i (set (entry_of m l)) else set (entry_of m l))"
  "distinct (entry_of m l) \<Longrightarrow> distinct (entry_of (index_labels i ls m) l)"
proof -
  show "set (entry_of (index_labels i ls m) l) = (if l \<in> set ls then insert i (set (entry_of m l)) else set (entry_of m l))"
    unfolding index_labels_def by (induction ls arbitrary: m) (auto simp: entry_of_on_default)
  show "distinct (entry_of m l) \<Longrightarrow> distinct (entry_of (index_labels i ls m) l)"
    unfolding index_labels_def
  proof (induction ls arbitrary: m)
    case (Cons a ls)
    have "distinct (entry_of (on_default a (List.insert i) m) l)"
      using Cons.prems by (cases "l = a") (simp_all add: entry_of_on_default)
    with Cons.IH show ?case by simp
  qed simp
qed

lemma store_ok_empty: "store_ok empty_store"
  by (simp add: store_ok_def empty_store_def entry_of_def keyed_def indexed_def)

lemma forget_node_ok:
  "store_ok st \<Longrightarrow> map_of (s_nodes st) i = Some n \<Longrightarrow>
     store_ok (st\<lparr>s_nodes := AList.delete i (s_nodes st), s_labels := unindex i (n_labels n) (s_labels st)\<rparr>)"
  using indexed_remove [of "\<lambda>n. set (n_labels n)" "map_of (s_nodes st)" "s_labels st" i n "unindex i (n_labels n) (s_labels st)"]
  by (simp add: store_ok_def keyed_delete delete_conv' unindex_entry)

lemma put_node_ok:
  assumes "store_ok st"
  shows "store_ok (put_node n st)"
proof -
  let ?i = "n_id n" and ?sel = "\<lambda>n. set (n_labels n)"
  let ?ls = "case map_of (s_nodes st) ?i of None \<Rightarrow> s_labels st | Some old \<Rightarrow> unindex ?i (n_labels old) (s_labels st)"
  have "indexed ?sel ((map_of (s_nodes st))(?i := None)) ?ls"
  proof (cases "map_of (s_nodes st) ?i")
    case None
    with assms show ?thesis by (simp add: store_ok_def fun_upd_idem)
  next
    case (Some old)
    have "indexed ?sel ((map_of (s_nodes st))(?i := None)) (unindex ?i (n_labels old) (s_labels st))"
      using assms by (intro indexed_remove [where m = "map_of (s_nodes st)" and v = old, OF _ Some]) (simp_all add: store_ok_def unindex_entry)
    with Some show ?thesis by simp
  qed
  then have "indexed ?sel ((map_of (s_nodes st))(?i := None, ?i \<mapsto> n)) (index_labels ?i (n_labels n) ?ls)"
    by (rule indexed_add) (simp_all add: index_entry)
  then show ?thesis
    using assms keyed_update [of n_id "s_nodes st" n]
    by (simp add: store_ok_def put_node_def Let_def update_conv')
qed

lemma put_node_view: "view (put_node n st) = apply_graph (UpsertNode n) (view st)"
  by (auto simp: view_def put_node_def Let_def apply_graph_def update_conv' fun_eq_iff)

text \<open>Both adjacency lists are the same index, once by \<open>from\<close> and once by \<open>to\<close>.\<close>

lemma detach_indexed:
  "indexed (\<lambda>e. {tip e}) m adj \<Longrightarrow> m i = Some e \<Longrightarrow> indexed (\<lambda>e. {tip e}) (m(i := None)) (detach (tip e) i adj)"
  by (rule indexed_remove) (auto simp: entry_of_detach)

lemma attach_indexed:
  "indexed (\<lambda>e. {tip e}) (m(i := None)) adj \<Longrightarrow>
     indexed (\<lambda>e. {tip e}) (m(i \<mapsto> e)) (on_default (tip e) (\<lambda>xs. xs @ [i]) adj)"
proof -
  assume "indexed (\<lambda>e. {tip e}) (m(i := None)) adj"
  then have "indexed (\<lambda>e. {tip e}) ((m(i := None))(i \<mapsto> e)) (on_default (tip e) (\<lambda>xs. xs @ [i]) adj)"
    by (rule indexed_add) (auto simp: entry_of_on_default split: if_splits)
  then show ?thesis by simp
qed

lemma put_edge_ok:
  assumes "store_ok st"
  shows "store_ok (put_edge e st)"
proof (cases "map_of (s_edges st) (e_id e)")
  case None
  with assms keyed_update [of e_id "s_edges st" e] show ?thesis
    by (simp add: store_ok_def put_edge_def Let_def update_conv' attach_indexed fun_upd_idem)
next
  case (Some old)
  then have i: "e_id old = e_id e" using assms keyed_lookup by (auto simp: store_ok_def)
  have "indexed (\<lambda>e. {e_from e}) ((map_of (s_edges st))(e_id e := None)) (detach (e_from old) (e_id old) (s_out st))"
    "indexed (\<lambda>e. {e_to e}) ((map_of (s_edges st))(e_id e := None)) (detach (e_to old) (e_id old) (s_in st))"
    unfolding i using assms Some by (auto simp: store_ok_def intro!: detach_indexed)
  then show ?thesis
    using assms keyed_update [of e_id "s_edges st" e] Some
    by (simp add: store_ok_def put_edge_def Let_def update_conv' attach_indexed)
qed

lemma put_edge_view: "view (put_edge e st) = apply_graph (UpsertEdge e) (view st)"
  by (auto simp: view_def put_edge_def Let_def apply_graph_def update_conv' fun_eq_iff split: prod.splits)

lemma remove_edge_ok:
  assumes "store_ok st"
  shows "store_ok (remove_edge i st)"
proof (cases "map_of (s_edges st) i")
  case None
  with assms show ?thesis by (simp add: remove_edge_def)
next
  case (Some e)
  with assms show ?thesis
    by (simp add: store_ok_def remove_edge_def keyed_delete delete_conv' detach_indexed)
qed

lemma remove_edge_view: "view (remove_edge i st) = apply_graph (DeleteEdge i) (view st)"
  by (auto simp: view_def remove_edge_def apply_graph_def delete_conv' fun_eq_iff split: option.splits)

lemma remove_edges:
  "store_ok st \<Longrightarrow> store_ok (fold remove_edge is st) \<and> s_nodes (fold remove_edge is st) = s_nodes st \<and>
     map_of (s_edges (fold remove_edge is st)) = (\<lambda>j. if j \<in> set is then None else map_of (s_edges st) j)"
proof (induction "is" arbitrary: st)
  case Nil
  then show ?case by simp
next
  case (Cons i "is")
  have "s_nodes (remove_edge i st) = s_nodes st" by (auto simp: remove_edge_def split: option.splits)
  moreover have "map_of (s_edges (remove_edge i st)) j = (if j = i then None else map_of (s_edges st) j)" for j
    by (auto simp: remove_edge_def delete_conv' split: option.splits)
  ultimately show ?case using Cons.IH [OF remove_edge_ok [OF Cons.prems, of i]] by (auto simp: fun_eq_iff)
qed

lemma remove_node_ok_view:
  assumes ok: "store_ok st"
  shows "store_ok (remove_node i st) \<and> view (remove_node i st) = apply_graph (DeleteNode i) (view st)"
proof -
  obtain st1 where st1: "st1 = (case map_of (s_nodes st) i of None \<Rightarrow> st
    | Some n \<Rightarrow> st\<lparr>s_nodes := AList.delete i (s_nodes st), s_labels := unindex i (n_labels n) (s_labels st)\<rparr>)" by simp
  obtain st2 where st2: "st2 = fold remove_edge (incident_edges st1 i) st1" by simp
  have ok1: "store_ok st1" unfolding st1 using ok forget_node_ok [OF ok] by (cases "map_of (s_nodes st) i") auto
  have n1: "map_of (s_nodes st1) = (map_of (s_nodes st))(i := None)" and e1: "s_edges st1 = s_edges st"
    unfolding st1 by (cases "map_of (s_nodes st) i"; auto simp: delete_conv' fun_eq_iff)+
  have inc: "set (incident_edges st1 i) = {j. \<exists>e. map_of (s_edges st) j = Some e \<and> (e_from e = i \<or> e_to e = i)}"
    using ok1 unfolding incident_edges_def store_ok_def indexed_def e1 by auto
  have r: "store_ok st2" "s_nodes st2 = s_nodes st1"
    "map_of (s_edges st2) = (\<lambda>j. if j \<in> set (incident_edges st1 i) then None else map_of (s_edges st) j)"
    using remove_edges [OF ok1, of "incident_edges st1 i"] unfolding st2 e1 by auto
  have gone: "entry_of (s_out st2) i = []" "entry_of (s_in st2) i = []"
  proof -
    have none: "\<not> (\<exists>e. map_of (s_edges st2) j = Some e \<and> (e_from e = i \<or> e_to e = i))" for j
      unfolding r(3) using inc by (auto split: if_splits)
    have "set (entry_of (s_out st2) i) = {j. \<exists>e. map_of (s_edges st2) j = Some e \<and> e_from e = i}"
      "set (entry_of (s_in st2) i) = {j. \<exists>e. map_of (s_edges st2) j = Some e \<and> e_to e = i}"
      using r(1) by (simp_all add: store_ok_def indexed_def eq_commute)
    then show "entry_of (s_out st2) i = []" "entry_of (s_in st2) i = []" using none by (simp_all flip: set_empty)
  qed
  have rm: "remove_node i st = st2\<lparr>s_out := AList.delete i (s_out st2), s_in := AList.delete i (s_in st2)\<rparr>"
    by (simp add: remove_node_def Let_def st1 st2)
  have "entry_of (AList.delete i (s_out st2)) = entry_of (s_out st2)" "entry_of (AList.delete i (s_in st2)) = entry_of (s_in st2)"
    using gone by (auto simp: entry_of_delete fun_eq_iff)
  then have "store_ok (remove_node i st)" using r(1) by (simp add: rm store_ok_def indexed_def)
  moreover have "view (remove_node i st) = apply_graph (DeleteNode i) (view st)"
    unfolding rm view_def apply_graph_def using r(2,3) n1 inc by (auto simp: fun_eq_iff split: option.split)
  ultimately show ?thesis by blast
qed

lemma apply_in_memory_ok_view:
  "store_ok st \<Longrightarrow> store_ok (apply_in_memory m st) \<and> view (apply_in_memory m st) = apply_graph m (view st)"
  by (cases m) (simp_all add: put_node_ok put_node_view put_edge_ok put_edge_view remove_node_ok_view remove_edge_ok remove_edge_view)

lemma replay_ok_view:
  "store_ok st \<Longrightarrow> store_ok (fold apply_in_memory ms st) \<and> view (fold apply_in_memory ms st) = fold apply_graph ms (view st)"
  by (induction ms arbitrary: st) (simp_all add: apply_in_memory_ok_view)

section \<open>Replaying a log twice\<close>

text \<open>
  A slot (one node or one edge id) under a list of mutations: each either fixes its value or
  leaves it or empties it. Then running the whole list a second time changes nothing.
\<close>

locale settling =
  fixes act :: "'m \<Rightarrow> 'v option \<Rightarrow> 'v option"
  assumes act_cases: "(\<exists>c. \<forall>x. act m x = c) \<or> (\<forall>x. act m x = x \<or> act m x = None)"
begin

lemma fold_cases: "(\<exists>c. \<forall>x. fold act ms x = c) \<or> (\<forall>x. fold act ms x = x \<or> fold act ms x = None)"
proof (induction ms rule: rev_induct)
  case Nil
  then show ?case by simp
next
  case (snoc m ms)
  have f: "fold act (ms @ [m]) x = act m (fold act ms x)" for x by simp
  show ?case
  proof (cases "\<exists>c. \<forall>x. act m x = c")
    case True
    then show ?thesis unfolding f by blast
  next
    case False
    then have m: "act m x = x \<or> act m x = None" for x using act_cases [of m] by metis
    show ?thesis
    proof (cases "\<exists>c. \<forall>x. fold act ms x = c")
      case True
      then obtain c where c: "fold act ms x = c" for x by blast
      show ?thesis unfolding f c by blast
    next
      case False
      then have r: "fold act ms x = x \<or> fold act ms x = None" for x using snoc.IH by metis
      have "act m (fold act ms x) = x \<or> act m (fold act ms x) = None" for x
        using r [of x] m [of "fold act ms x"] by auto
      then show ?thesis unfolding f by blast
    qed
  qed
qed

lemma fold_twice: "fold act ms (fold act ms x) = fold act ms x"
  using fold_cases [of ms] by metis

end

interpretation node_slot: settling "node_at i" for i
proof
  fix m
  show "(\<exists>c. \<forall>x. node_at i m x = c) \<or> (\<forall>x. node_at i m x = x \<or> node_at i m x = None)"
    by (cases m) auto
qed

interpretation edge_slot: settling "edge_at i" for i
proof
  fix m
  show "(\<exists>c. \<forall>x. edge_at i m x = c) \<or> (\<forall>x. edge_at i m x = x \<or> edge_at i m x = None)"
    by (cases m) (auto split: option.split)
qed

lemma fold_apply_graph:
  "fold apply_graph ms (N, E) = (\<lambda>i. fold (node_at i) ms (N i), \<lambda>i. fold (edge_at i) ms (E i))"
  by (induction ms arbitrary: N E) (simp_all add: apply_graph_def)

lemma replay_twice: "fold apply_graph ms (fold apply_graph ms g) = fold apply_graph ms g"
  by (cases g) (simp add: fold_apply_graph node_slot.fold_twice edge_slot.fold_twice)

section \<open>The expansion is a breadth-first search\<close>

definition linked :: "store \<Rightarrow> str list option \<Rightarrow> str \<Rightarrow> str \<Rightarrow> bool" where
  "linked st types x y \<longleftrightarrow> (\<exists>i e. usable st types i = Some e \<and> ((e_from e = x \<and> e_to e = y) \<or> (e_to e = x \<and> e_from e = y)))"

text \<open>What \<open>n\<close> links lead to.\<close>

fun layer :: "store \<Rightarrow> str list option \<Rightarrow> str set \<Rightarrow> nat \<Rightarrow> str set" where
  "layer st types S 0 = S"
| "layer st types S (Suc n) = {y. \<exists>x\<in>layer st types S n. linked st types x y}"

lemma usable_edge: "usable st types i = Some e \<Longrightarrow> map_of (s_edges st) i = Some e"
  by (auto simp: usable_def split: option.splits if_splits)

lemma linked_incident:
  assumes "store_ok st"
  shows "linked st types x y \<longleftrightarrow> (\<exists>i\<in>set (incident_edges st x). \<exists>e. usable st types i = Some e \<and> other_end e x = y)"
proof -
  have inc: "set (incident_edges st x) = {i. \<exists>e. map_of (s_edges st) i = Some e \<and> (e_from e = x \<or> e_to e = x)}"
    using assms by (auto simp: store_ok_def indexed_def incident_edges_def)
  show ?thesis
  proof
    assume "linked st types x y"
    then obtain i e where e: "usable st types i = Some e" "(e_from e = x \<and> e_to e = y) \<or> (e_to e = x \<and> e_from e = y)"
      by (auto simp: linked_def)
    then have "i \<in> set (incident_edges st x)" using usable_edge [OF e(1)] inc by blast
    moreover have "other_end e x = y" using e(2) by (auto simp: other_end_def)
    ultimately show "\<exists>i\<in>set (incident_edges st x). \<exists>e. usable st types i = Some e \<and> other_end e x = y" using e(1) by blast
  next
    assume "\<exists>i\<in>set (incident_edges st x). \<exists>e. usable st types i = Some e \<and> other_end e x = y"
    then obtain i e where e: "i \<in> set (incident_edges st x)" "usable st types i = Some e" "other_end e x = y" by blast
    then have "e_from e = x \<or> e_to e = x" using usable_edge [OF e(2)] inc by auto
    with e show "linked st types x y" by (auto simp: linked_def other_end_def split: if_splits)
  qed
qed

abbreviation dist_of :: "search \<Rightarrow> str \<Rightarrow> nat option" where
  "dist_of q \<equiv> map_of (q_distance q)"

lemma map_of_append_new: "map_of m k = Some v \<Longrightarrow> map_of (m @ m') k = Some v"
  by (simp add: map_add_def)

lemma expand_edges_effect:
  "\<exists>new. q_distance (expand_edges st types mx cur hops is q) = q_distance q @ map (\<lambda>y. (y, hops + 1)) new \<and>
     q_queue (expand_edges st types mx cur hops is q) = q_queue q @ new \<and> distinct new \<and>
     set new \<inter> fst ` set (q_distance q) = {} \<and> length (q_distance q) + length new \<le> max mx (length (q_distance q)) \<and>
     (\<forall>y\<in>set new. \<exists>i\<in>set is. \<exists>e. usable st types i = Some e \<and> other_end e cur = y) \<and>
     (length (q_distance q) + length new < mx \<longrightarrow>
        (\<forall>i\<in>set is. \<forall>e. usable st types i = Some e \<longrightarrow> other_end e cur \<in> fst ` set (q_distance q) \<union> set new))"
proof (induction st types mx cur hops "is" q rule: expand_edges.induct)
  case (1 st types mx cur hops q)
  then show ?case by simp
next
  case (2 st types mx cur hops i "is" q)
  show ?case
  proof (cases "usable st types i")
    case None
    with "2.IH"(1) [OF None] show ?thesis by auto
  next
    case (Some e)
    let ?y = "other_end e cur"
    let ?q1 = "q\<lparr>q_edges := List.insert i (q_edges q)\<rparr>"
    let ?q2 = "if dist_of q ?y = None \<and> length (q_distance q) < mx
      then ?q1\<lparr>q_distance := q_distance q @ [(?y, hops + 1)], q_queue := q_queue q @ [?y]\<rparr> else ?q1"
    have r: "expand_edges st types mx cur hops (i # is) q = expand_edges st types mx cur hops is ?q2"
      using Some by (simp add: Let_def)
    note ih = "2.IH"(2) [OF Some refl refl]
    show ?thesis
    proof (cases "dist_of q ?y = None \<and> length (q_distance q) < mx")
      case True
      then have q2: "?q2 = ?q1\<lparr>q_distance := q_distance q @ [(?y, hops + 1)], q_queue := q_queue q @ [?y]\<rparr>" by argo
      from ih obtain new where n: "q_distance (expand_edges st types mx cur hops is ?q2) = q_distance q @ [(?y, hops + 1)] @ map (\<lambda>y. (y, hops + 1)) new"
        "q_queue (expand_edges st types mx cur hops is ?q2) = q_queue q @ ?y # new" "distinct new"
        "set new \<inter> insert ?y (fst ` set (q_distance q)) = {}"
        "length (q_distance q) + 1 + length new \<le> max mx (length (q_distance q) + 1)"
        "\<forall>y\<in>set new. \<exists>i\<in>set is. \<exists>e. usable st types i = Some e \<and> other_end e cur = y"
        "length (q_distance q) + 1 + length new < mx \<longrightarrow>
          (\<forall>i\<in>set is. \<forall>e. usable st types i = Some e \<longrightarrow> other_end e cur \<in> insert ?y (fst ` set (q_distance q)) \<union> set new)"
        unfolding q2 by auto
      have "?y \<notin> fst ` set (q_distance q)" using True by (simp add: map_of_eq_None_iff)
      with n True Some show ?thesis unfolding r by (intro exI [of _ "?y # new"]) auto
    next
      case False
      then have q2: "?q2 = ?q1" by argo
      have seen: "length (q_distance q) < mx \<Longrightarrow> ?y \<in> fst ` set (q_distance q)" using False by (auto simp: map_of_eq_None_iff)
      from ih obtain new where n: "q_distance (expand_edges st types mx cur hops is ?q1) = q_distance q @ map (\<lambda>y. (y, hops + 1)) new"
        "q_queue (expand_edges st types mx cur hops is ?q1) = q_queue q @ new" "distinct new"
        "set new \<inter> fst ` set (q_distance q) = {}"
        "length (q_distance q) + length new \<le> max mx (length (q_distance q))"
        "\<forall>y\<in>set new. \<exists>i\<in>set is. \<exists>e. usable st types i = Some e \<and> other_end e cur = y"
        "length (q_distance q) + length new < mx \<longrightarrow>
          (\<forall>i\<in>set is. \<forall>e. usable st types i = Some e \<longrightarrow> other_end e cur \<in> fst ` set (q_distance q) \<union> set new)"
        unfolding q2 by auto
      with Some seen show ?thesis unfolding r q2 by (intro exI [of _ new]) auto
    qed
  qed
qed

declare map_of_eq_Some_iff [simp del]

text \<open>
  The invariant of the search: distances are walks of that length, the queue is in order of
  distance and nothing is more than one hop beyond its head, and whatever has left the
  queue with hops to spare has all its neighbours in, one hop further at most.
\<close>

definition near :: "(str \<rightharpoonup> nat) \<Rightarrow> str list \<Rightarrow> bool" where
  "near D xs \<longleftrightarrow> (\<forall>h t. xs = h # t \<longrightarrow> (\<forall>x d. D x = Some d \<longrightarrow> d \<le> the (D h) + 1))"

lemma near_simps [simp]: "near D []" "near D (h # t) \<longleftrightarrow> (\<forall>x d. D x = Some d \<longrightarrow> d \<le> the (D h) + 1)"
  by (simp_all add: near_def)

definition search_ok :: "store \<Rightarrow> str list option \<Rightarrow> str set \<Rightarrow> nat \<Rightarrow> nat \<Rightarrow> search \<Rightarrow> bool" where
  "search_ok st types S depth mx q \<longleftrightarrow>
     distinct (map fst (q_distance q)) \<and>
     (\<forall>x d. dist_of q x = Some d \<longrightarrow> x \<in> layer st types S d \<and> d \<le> depth) \<and>
     (\<forall>x\<in>S. dist_of q x = Some 0) \<and>
     (\<forall>x\<in>set (q_queue q). dist_of q x \<noteq> None) \<and>
     sorted (map (\<lambda>x. the (dist_of q x)) (q_queue q)) \<and>
     near (dist_of q) (q_queue q) \<and>
     (length (q_distance q) < mx \<longrightarrow> (\<forall>x d y. dist_of q x = Some d \<longrightarrow> x \<notin> set (q_queue q) \<longrightarrow> d < depth \<longrightarrow>
        linked st types x y \<longrightarrow> (\<exists>d'\<le>d + 1. dist_of q y = Some d')))"

lemma search_ok_skip:
  assumes ok: "search_ok st types S depth mx q" and q: "q_queue q = cur # rest"
    and stop: "depth \<le> the (dist_of q cur) \<or> mx \<le> length (q_distance q)"
  shows "search_ok st types S depth mx (q\<lparr>q_queue := rest\<rparr>)"
proof -
  have srt: "sorted (map (\<lambda>x. the (dist_of q x)) (cur # rest))" and near_cur: "\<forall>x d. dist_of q x = Some d \<longrightarrow> d \<le> the (dist_of q cur) + 1"
    using ok q by (simp_all add: search_ok_def)
  have "near (dist_of q) rest"
  proof (cases rest)
    case (Cons h t)
    have "d \<le> the (dist_of q h) + 1" if "dist_of q x = Some d" for x d
    proof -
      have "the (dist_of q cur) \<le> the (dist_of q h)" using srt Cons by simp
      moreover have "d \<le> the (dist_of q cur) + 1" using near_cur that by blast
      ultimately show ?thesis by linarith
    qed
    with Cons show ?thesis by simp
  qed simp
  moreover have "\<exists>d'\<le>d + 1. dist_of q y = Some d'"
    if "length (q_distance q) < mx" "dist_of q x = Some d" "x \<notin> set rest" "d < depth" "linked st types x y" for x d y
  proof (cases "x = cur")
    case True
    with that stop show ?thesis by auto
  next
    case False
    with that ok q show ?thesis by (auto simp: search_ok_def)
  qed
  ultimately show ?thesis using ok q srt unfolding search_ok_def by (simp del: near_simps)
qed

lemma search_ok_expand:
  assumes ok: "search_ok st types S depth mx q" and q: "q_queue q = cur # rest" and st: "store_ok st"
    and d: "dist_of q cur = Some hops" and go: "hops < depth"
  shows "search_ok st types S depth mx (expand_edges st types mx cur hops (incident_edges st cur) (q\<lparr>q_queue := rest\<rparr>))"
proof -
  let ?q' = "expand_edges st types mx cur hops (incident_edges st cur) (q\<lparr>q_queue := rest\<rparr>)"
  obtain new where n: "q_distance ?q' = q_distance q @ map (\<lambda>y. (y, hops + 1)) new" "q_queue ?q' = rest @ new" "distinct new"
    "set new \<inter> fst ` set (q_distance q) = {}"
    and nb: "\<forall>y\<in>set new. \<exists>i\<in>set (incident_edges st cur). \<exists>e. usable st types i = Some e \<and> other_end e cur = y"
    and full: "length (q_distance q) + length new < mx \<longrightarrow> (\<forall>i\<in>set (incident_edges st cur). \<forall>e. usable st types i = Some e \<longrightarrow>
        other_end e cur \<in> fst ` set (q_distance q) \<union> set new)"
    using expand_edges_effect [of st types mx cur hops "incident_edges st cur" "q\<lparr>q_queue := rest\<rparr>"] by auto
  have new_links: "\<forall>y\<in>set new. linked st types cur y" using nb linked_incident [OF st] by blast
  have D: "dist_of ?q' x = (case dist_of q x of Some d \<Rightarrow> Some d | None \<Rightarrow> if x \<in> set new then Some (hops + 1) else None)" for x
  proof -
    have "map_of (map (\<lambda>y. (y, hops + 1)) new) x = (if x \<in> set new then Some (hops + 1) else None)"
      by (induction new) auto
    then show ?thesis unfolding n(1) by (simp add: map_add_def split: option.split)
  qed
  have keepD: "dist_of q x = Some e \<Longrightarrow> dist_of ?q' x = Some e" for x e by (simp add: D)
  have newD: "x \<in> set new \<Longrightarrow> dist_of q x = None" for x using n(4) by (auto simp: map_of_eq_None_iff)
  have parts: "distinct (map fst (q_distance q))" "\<forall>x d. dist_of q x = Some d \<longrightarrow> x \<in> layer st types S d \<and> d \<le> depth"
    "\<forall>x\<in>S. dist_of q x = Some 0" "\<forall>x\<in>set (cur # rest). dist_of q x \<noteq> None"
    "sorted (map (\<lambda>x. the (dist_of q x)) (cur # rest))" "\<forall>x d. dist_of q x = Some d \<longrightarrow> d \<le> hops + 1"
    "length (q_distance q) < mx \<longrightarrow> (\<forall>x d y. dist_of q x = Some d \<longrightarrow> x \<notin> set (cur # rest) \<longrightarrow> d < depth \<longrightarrow>
        linked st types x y \<longrightarrow> (\<exists>d'\<le>d + 1. dist_of q y = Some d'))"
    using ok d q by (simp_all add: search_ok_def)
  have all_near: "dist_of ?q' x = Some e \<Longrightarrow> e \<le> hops + 1" for x e
    using parts(6) by (auto simp: D split: option.splits if_splits)
  have "distinct (map fst (q_distance ?q'))" using parts(1) n(3,4) by (auto simp: n(1) comp_def)
  moreover have "x \<in> layer st types S e \<and> e \<le> depth" if "dist_of ?q' x = Some e" for x e
  proof (cases "dist_of q x")
    case (Some e')
    with that parts(2) show ?thesis by (simp add: D)
  next
    case None
    with that have "x \<in> set new" "e = hops + 1" by (simp_all add: D split: if_splits)
    moreover have "cur \<in> layer st types S hops" using parts(2) d by blast
    ultimately show ?thesis using new_links go by auto
  qed
  moreover have "\<forall>x\<in>S. dist_of ?q' x = Some 0" using parts(3) keepD by blast
  moreover have "\<forall>x\<in>set (rest @ new). dist_of ?q' x \<noteq> None"
    using parts(4) newD by (auto simp: D split: option.split)
  moreover have "sorted (map (\<lambda>x. the (dist_of ?q' x)) (rest @ new))"
  proof -
    have "map (\<lambda>x. the (dist_of ?q' x)) rest = map (\<lambda>x. the (dist_of q x)) rest"
      using parts(4) by (auto simp: D)
    moreover have "map (\<lambda>x. the (dist_of ?q' x)) new = replicate (length new) (hops + 1)"
      using newD by (auto simp: D list_eq_iff_nth_eq)
    moreover have "\<forall>x\<in>set rest. the (dist_of q x) \<le> hops + 1" using parts(4,6) by auto
    moreover have "sorted (map (\<lambda>x. the (dist_of q x)) rest)" using parts(5) by simp
    ultimately show ?thesis unfolding map_append by (simp only: sorted_append) auto
  qed
  moreover have "near (dist_of ?q') (rest @ new)"
  proof (cases "rest @ new")
    case Nil
    then show ?thesis by simp
  next
    case (Cons h t)
    then have "h \<in> set rest \<or> h \<in> set new" by (metis Un_iff list.set_intros(1) set_append)
    then have "hops \<le> the (dist_of ?q' h)"
    proof
      assume "h \<in> set rest"
      then have "dist_of q h \<noteq> None" "hops \<le> the (dist_of q h)" using parts(4,5) d by simp_all
      then show ?thesis by (auto simp: D)
    next
      assume "h \<in> set new"
      then show ?thesis using newD by (simp add: D)
    qed
    then have "\<forall>x e. dist_of ?q' x = Some e \<longrightarrow> e \<le> the (dist_of ?q' h) + 1" using all_near by fastforce
    with Cons show ?thesis by simp
  qed
  moreover have "\<exists>d'\<le>e + 1. dist_of ?q' y = Some d'"
    if len: "length (q_distance ?q') < mx" and x: "dist_of ?q' x = Some e" "x \<notin> set (rest @ new)" "e < depth" "linked st types x y" for x e y
  proof (cases "x = cur")
    case True
    obtain i ed where "i \<in> set (incident_edges st cur)" "usable st types i = Some ed" "other_end ed cur = y"
      using x(4) True linked_incident [OF st] by blast
    then have "y \<in> fst ` set (q_distance q) \<union> set new" using full len n(1) by auto
    then have "dist_of ?q' y \<noteq> None" by (auto simp: D map_of_eq_None_iff split: option.split)
    moreover have "e = hops" using x(1) True d by (simp add: D)
    ultimately show ?thesis using all_near by auto
  next
    case False
    have "dist_of q x = Some e" using x(1,2) by (auto simp: D split: option.splits if_splits)
    moreover have "length (q_distance q) < mx" using len n(1) by simp
    ultimately have "\<exists>d'\<le>e + 1. dist_of q y = Some d'" using parts(7) x False by auto
    then show ?thesis using keepD by blast
  qed
  ultimately show ?thesis unfolding search_ok_def n(2) by blast
qed

lemma bfs_ok:
  "search_ok st types S depth mx q \<Longrightarrow> store_ok st \<Longrightarrow>
     search_ok st types S depth mx (bfs st depth types mx q) \<and> q_queue (bfs st depth types mx q) = []"
proof (induction st depth types mx q rule: bfs.induct)
  case (1 st depth types mx q)
  show ?case
  proof (cases "q_queue q")
    case Nil
    with 1 show ?thesis by (simp add: bfs.simps [of st depth types mx q])
  next
    case (Cons cur rest)
    obtain hops where d: "dist_of q cur = Some hops" using "1.prems"(1) Cons by (auto simp: search_ok_def)
    show ?thesis
    proof (cases "depth \<le> hops \<or> mx \<le> length (q_distance q)")
      case True
      have "search_ok st types S depth mx (q\<lparr>q_queue := rest\<rparr>)"
        by (rule search_ok_skip [OF "1.prems"(1) Cons]) (use True d in simp)
      with "1.IH"(1) [OF Cons refl refl] True d "1.prems"(2) show ?thesis
        by (simp add: bfs.simps [of st depth types mx q] Cons)
    next
      case False
      have "search_ok st types S depth mx (expand_edges st types mx cur hops (incident_edges st cur) (q\<lparr>q_queue := rest\<rparr>))"
        by (rule search_ok_expand [OF "1.prems"(1) Cons "1.prems"(2) d]) (use False in simp)
      with "1.IH"(2) [OF Cons refl refl] False d "1.prems"(2) show ?thesis
        by (simp add: bfs.simps [of st depth types mx q] Cons)
    qed
  qed
qed

text \<open>Every node within the depth is found at its least distance, unless the cap cut in.\<close>

lemma search_complete:
  assumes ok: "search_ok st types S depth mx q" and e: "q_queue q = []" and len: "length (q_distance q) < mx"
  shows "n \<le> depth \<Longrightarrow> y \<in> layer st types S n \<Longrightarrow> \<exists>d\<le>n. dist_of q y = Some d"
proof (induction n arbitrary: y)
  case 0
  with ok show ?case by (auto simp: search_ok_def)
next
  case (Suc n)
  then obtain x where x: "x \<in> layer st types S n" "linked st types x y" by auto
  have "n \<le> depth" using Suc.prems(1) by simp
  from Suc.IH [OF this x(1)] obtain d where d: "d \<le> n" "dist_of q x = Some d" by blast
  have "d < depth" using d(1) Suc.prems(1) by simp
  have all: "\<forall>x d y. dist_of q x = Some d \<longrightarrow> x \<notin> set (q_queue q) \<longrightarrow> d < depth \<longrightarrow>
      linked st types x y \<longrightarrow> (\<exists>d'\<le>d + 1. dist_of q y = Some d')"
    using ok len unfolding search_ok_def by argo
  have "x \<notin> set (q_queue q)" using e by simp
  from all [rule_format, OF d(2) this \<open>d < depth\<close> x(2)] obtain d' where "d' \<le> d + 1" "dist_of q y = Some d'" by blast
  with d(1) show ?case by (intro exI [of _ d']) simp
qed

definition seed_set :: "store \<Rightarrow> str list \<Rightarrow> str set" where
  "seed_set st seeds = {s \<in> set seeds. map_of (s_nodes st) s \<noteq> None}"

lemma seed_search_shape:
  "q_queue (seed_search st seeds) = map fst (q_distance (seed_search st seeds)) \<and>
   distinct (map fst (q_distance (seed_search st seeds))) \<and>
   set (q_distance (seed_search st seeds)) = {(s, 0) |s. s \<in> seed_set st seeds}"
proof (induction seeds rule: rev_induct)
  case Nil
  then show ?case by (simp add: seed_search_def seed_set_def)
next
  case (snoc s seeds)
  let ?q = "seed_search st seeds"
  have st: "seed_search st (seeds @ [s]) = (if map_of (s_nodes st) s \<noteq> None \<and> dist_of ?q s = None
     then ?q\<lparr>q_distance := q_distance ?q @ [(s, 0)], q_queue := q_queue ?q @ [s]\<rparr> else ?q)"
    by (simp add: seed_search_def)
  have "fst ` set (q_distance ?q) = seed_set st seeds" using snoc by force
  then have "dist_of ?q s = None \<longleftrightarrow> s \<notin> seed_set st seeds" by (simp add: map_of_eq_None_iff)
  moreover have ss: "seed_set st (seeds @ [s]) = (if map_of (s_nodes st) s \<noteq> None then insert s (seed_set st seeds) else seed_set st seeds)"
    by (auto simp: seed_set_def)
  ultimately show ?case
  proof (cases "map_of (s_nodes st) s \<noteq> None \<and> dist_of ?q s = None")
    case True
    then have "seed_search st (seeds @ [s]) = ?q\<lparr>q_distance := q_distance ?q @ [(s, 0)], q_queue := q_queue ?q @ [s]\<rparr>"
      unfolding st by argo
    moreover have "seed_set st (seeds @ [s]) = insert s (seed_set st seeds)" using True ss by argo
    moreover have "s \<notin> fst ` set (q_distance ?q)" using True by (simp add: map_of_eq_None_iff)
    ultimately show ?thesis using snoc by auto
  next
    case False
    then have "seed_search st (seeds @ [s]) = ?q" unfolding st by argo
    moreover have "seed_set st (seeds @ [s]) = seed_set st seeds"
      using False ss \<open>dist_of ?q s = None \<longleftrightarrow> s \<notin> seed_set st seeds\<close> by (auto split: if_splits)
    ultimately show ?thesis using snoc by simp
  qed
qed

lemma seed_search_ok: "search_ok st types (seed_set st seeds) depth mx (seed_search st seeds)"
proof -
  let ?q = "seed_search st seeds"
  have sh: "distinct (map fst (q_distance ?q))" "set (q_distance ?q) = {(s, 0) |s. s \<in> seed_set st seeds}"
    using seed_search_shape by blast+
  have D: "dist_of ?q x = Some d \<longleftrightarrow> x \<in> seed_set st seeds \<and> d = 0" for x d
    unfolding map_of_eq_Some_iff [OF sh(1)] sh(2) by auto
  have qs: "set (q_queue ?q) = seed_set st seeds" using seed_search_shape [of st seeds] by force
  have z: "map (\<lambda>x. the (dist_of ?q x)) (q_queue ?q) = replicate (length (q_queue ?q)) 0"
    using D qs by (metis (mono_tags, lifting) map_eq_conv map_replicate_const option.sel)
  show ?thesis
    unfolding search_ok_def
  proof (intro conjI)
    show "distinct (map fst (q_distance ?q))" using seed_search_shape by blast
    show "\<forall>x d. dist_of ?q x = Some d \<longrightarrow> x \<in> layer st types (seed_set st seeds) d \<and> d \<le> depth" by (simp add: D)
    show "\<forall>x\<in>seed_set st seeds. dist_of ?q x = Some 0" by (simp add: D)
    show "\<forall>x\<in>set (q_queue ?q). dist_of ?q x \<noteq> None" using D qs by (metis option.distinct(1))
    show "sorted (map (\<lambda>x. the (dist_of ?q x)) (q_queue ?q))" unfolding z by simp
    show "near (dist_of ?q) (q_queue ?q)" by (simp add: near_def D)
    show "length (q_distance ?q) < mx \<longrightarrow> (\<forall>x d y. dist_of ?q x = Some d \<longrightarrow> x \<notin> set (q_queue ?q) \<longrightarrow> d < depth \<longrightarrow>
        linked st types x y \<longrightarrow> (\<exists>d'\<le>d + 1. dist_of ?q y = Some d'))"
      using D qs by auto
  qed
qed

lemma bfs_length: "length (q_distance q) \<le> b \<Longrightarrow> mx \<le> b \<Longrightarrow> length (q_distance (bfs st depth types mx q)) \<le> b"
proof (induction st depth types mx q rule: bfs.induct)
  case (1 st depth types mx q)
  show ?case
  proof (cases "q_queue q")
    case Nil
    with 1 show ?thesis by (simp add: bfs.simps [of st depth types mx q])
  next
    case (Cons cur rest)
    let ?hops = "case dist_of q cur of None \<Rightarrow> 0 | Some d \<Rightarrow> d"
    let ?q' = "expand_edges st types mx cur ?hops (incident_edges st cur) (q\<lparr>q_queue := rest\<rparr>)"
    have "length (q_distance ?q') \<le> b"
      using expand_edges_effect [of st types mx cur ?hops "incident_edges st cur" "q\<lparr>q_queue := rest\<rparr>"] "1.prems" by auto
    with "1.IH" [OF Cons refl refl] "1.prems" show ?thesis
      by (cases "depth \<le> ?hops \<or> mx \<le> length (q_distance q)") (auto simp: bfs.simps [of st depth types mx q] Cons)
  qed
qed

lemma seed_search_length: "length (q_distance (seed_search st seeds)) \<le> length seeds"
proof -
  let ?q = "seed_search st seeds"
  have "fst ` set (q_distance ?q) = seed_set st seeds" using seed_search_shape [of st seeds] by force
  then have "length (q_distance ?q) = card (seed_set st seeds)"
    using seed_search_shape [of st seeds] distinct_card [of "map fst (q_distance ?q)"] by simp
  also have "\<dots> \<le> card (set seeds)" by (rule card_mono) (auto simp: seed_set_def)
  also have "\<dots> \<le> length seeds" by (rule card_length)
  finally show ?thesis .
qed

lemma by_label_exact:
  assumes ok: "store_ok st"
  shows "set (by_label st l) = {n. \<exists>i. get_node st i = Some n \<and> l \<in> set (n_labels n)}"
proof -
  have s: "set (List.map_filter f xs) = {y. \<exists>x\<in>set xs. f x = Some y}" for f :: "str \<Rightarrow> node option" and xs
    by (induction xs) (auto simp: map_filter_simps split: option.split)
  have "set (entry_of (s_labels st) l) = {i. \<exists>n. map_of (s_nodes st) i = Some n \<and> l \<in> set (n_labels n)}"
    using ok by (simp add: store_ok_def indexed_def)
  then show ?thesis unfolding by_label_def s get_node_def by auto
qed

definition empty_graph :: graph where
  "empty_graph = (Map.empty, Map.empty)"

lemma view_empty: "view empty_store = empty_graph"
  by (simp add: view_def empty_store_def empty_graph_def)

section \<open>Properties\<close>

text \<open>
  C8. The store refines the plain graph: after any sequence of mutations its nodes and edges
  are those of the graph with two maps and no index (deleting a node deletes its edges,
  re-inserting replaces), and the adjacency lists and the label index are exact.
\<close>

theorem store_refines_graph:
  "let st = fold apply_in_memory ms empty_store
   in view st = fold apply_graph ms empty_graph \<and>
      (\<forall>x. set (incident_edges st x) = {i. \<exists>e. get_edge st i = Some e \<and> (e_from e = x \<or> e_to e = x)}) \<and>
      (\<forall>l. set (by_label st l) = {n. \<exists>i. get_node st i = Some n \<and> l \<in> set (n_labels n)})"
proof -
  let ?st = "fold apply_in_memory ms empty_store"
  have r: "store_ok ?st" "view ?st = fold apply_graph ms empty_graph"
    using replay_ok_view [OF store_ok_empty, of ms] view_empty by auto
  have "set (incident_edges ?st x) = {i. \<exists>e. get_edge ?st i = Some e \<and> (e_from e = x \<or> e_to e = x)}" for x
    using r(1) by (auto simp: store_ok_def indexed_def incident_edges_def get_edge_def)
  with r by_label_exact [OF r(1)] show ?thesis by (simp add: Let_def)
qed

text \<open>
  C16. The expansion is breadth-first: every node it returns lies on a walk of exactly its
  distance from a seed, within the depth and the edge types asked for, and unless the node
  cap is reached the result is exactly the nodes within the depth, each at its least
  distance. There are never more nodes than the cap or the seeds, whichever is more.
\<close>

theorem expand_exact:
  "let st = fold apply_in_memory ms empty_store;
       r = expand st seeds depth types max_nodes;
       found = {(y, d). map_of (x_distance r) y = Some d};
       near = (\<lambda>y d. d \<le> depth \<and> y \<in> layer st types (seed_set st seeds) d)
   in length (x_distance r) \<le> max max_nodes (length seeds) \<and> found \<subseteq> {(y, d). near y d} \<and>
      (max_nodes \<le> length (x_distance r) \<or> found = {(y, d). near y d \<and> \<not> (\<exists>n<d. near y n)})"
proof -
  let ?st = "fold apply_in_memory ms empty_store"
  let ?S = "seed_set ?st seeds"
  let ?q = "bfs ?st depth types max_nodes (seed_search ?st seeds)"
  let ?near = "\<lambda>y d. d \<le> depth \<and> y \<in> layer ?st types ?S d"
  have st: "store_ok ?st" using replay_ok_view [OF store_ok_empty, of ms] by blast
  from bfs_ok [OF seed_search_ok st, of types seeds depth max_nodes]
  have ok: "search_ok ?st types ?S depth max_nodes ?q" "q_queue ?q = []" by blast+
  have x: "x_distance (expand ?st seeds depth types max_nodes) = q_distance ?q" by (simp add: expand_def Let_def)
  have b: "length (q_distance ?q) \<le> max max_nodes (length seeds)"
    using seed_search_length [of ?st seeds] by (intro bfs_length) auto
  have snd: "dist_of ?q y = Some d \<Longrightarrow> ?near y d" for y d using ok(1) unfolding search_ok_def by blast
  have "{(y, d). dist_of ?q y = Some d} = {(y, d). ?near y d \<and> \<not> (\<exists>n<d. ?near y n)}" if len: "length (q_distance ?q) < max_nodes"
  proof -
    have least: "\<exists>d\<le>n. dist_of ?q y = Some d" if "?near y n" for y n
      using search_complete [OF ok len] that by blast
    have "dist_of ?q y = Some d \<longleftrightarrow> ?near y d \<and> \<not> (\<exists>n<d. ?near y n)" for y d
    proof
      assume d: "dist_of ?q y = Some d"
      have "\<not> (\<exists>n<d. ?near y n)"
      proof
        assume "\<exists>n<d. ?near y n"
        then obtain n where n: "n < d" "?near y n" by blast
        from least [OF n(2)] d n(1) show False by auto
      qed
      with snd [OF d] show "?near y d \<and> \<not> (\<exists>n<d. ?near y n)" by blast
    next
      assume d: "?near y d \<and> \<not> (\<exists>n<d. ?near y n)"
      then have "?near y d" by blast
      from least [OF this] obtain n where n: "n \<le> d" "dist_of ?q y = Some n" by blast
      with snd [OF n(2)] d have "n = d" by (metis le_neq_implies_less)
      with n(2) show "dist_of ?q y = Some d" by simp
    qed
    then show ?thesis by auto
  qed
  then have "max_nodes \<le> length (q_distance ?q) \<or> {(y, d). dist_of ?q y = Some d} = {(y, d). ?near y d \<and> \<not> (\<exists>n<d. ?near y n)}"
    by fastforce
  moreover have "{(y, d). dist_of ?q y = Some d} \<subseteq> {(y, d). ?near y d}" using snd by blast
  ultimately show ?thesis unfolding Let_def x using b by blast
qed

text \<open>
  The label count of \<open>stats\<close> only grows: the entry of a label stays in the index when its
  last node is gone.
\<close>

theorem label_count_stale:
  "st_labels (store_stats (fold apply_in_memory [UpsertNode (new_node ''a''\<lparr>n_labels := [''Person'']\<rparr>), DeleteNode ''a''] empty_store)) = 1 \<and>
   st_nodes (store_stats (fold apply_in_memory [UpsertNode (new_node ''a''\<lparr>n_labels := [''Person'']\<rparr>), DeleteNode ''a''] empty_store)) = 0"
  by code_simp

end
