(* ===== verification/Text_Bytes.thy ===== *)
theory Text_Bytes
  imports Maturana_Prelude
begin

text \<open>
  Text as the bytes a socket or a file delivers: UTF-8, its characters, and the routines of
  \<open>str\<close> that depend on whole characters (white space, control characters, trimming, words,
  lines). ASCII routines are those of the prelude, byte by byte.
\<close>

section \<open>UTF-8\<close>

definition byte_in :: "nat \<Rightarrow> nat \<Rightarrow> char \<Rightarrow> bool" where
  "byte_in lo hi c \<longleftrightarrow> lo \<le> of_char c \<and> of_char c \<le> (hi::nat)"

abbreviation newline_byte :: char where
  "newline_byte \<equiv> CHR 0x0A"

abbreviation return_byte :: char where
  "return_byte \<equiv> CHR 0x0D"

text \<open>
  What may follow a lead byte (RFC 3629): the range of the second byte, and how many bytes
  in all; how many of them do; and whether the character is complete.
\<close>

definition utf8_lead :: "char \<Rightarrow> (nat \<times> nat \<times> nat) option" where
  "utf8_lead a =
     (if byte_in 194 223 a then Some (128, 191, 1)
      else if byte_in 224 224 a then Some (160, 191, 2)
      else if byte_in 237 237 a then Some (128, 159, 2)
      else if byte_in 225 239 a then Some (128, 191, 2)
      else if byte_in 240 240 a then Some (144, 191, 3)
      else if byte_in 241 243 a then Some (128, 191, 3)
      else if byte_in 244 244 a then Some (128, 143, 3)
      else None)"

definition utf8_matched :: "nat \<times> nat \<times> nat \<Rightarrow> str \<Rightarrow> nat" where
  "utf8_matched l s = (case l of (lo, hi, k) \<Rightarrow>
     (case s of [] \<Rightarrow> 0 | b # r \<Rightarrow> if byte_in lo hi b then Suc (length (takeWhile (byte_in 128 191) (take (k - 1) r))) else 0))"

definition utf8_tail :: "char \<Rightarrow> str \<Rightarrow> nat option" where
  "utf8_tail a s = (case utf8_lead a of None \<Rightarrow> None | Some l \<Rightarrow> if utf8_matched l s = snd (snd l) then Some (snd (snd l)) else None)"

function utf8 :: "str \<Rightarrow> bool" where
  "utf8 [] = True"
| "utf8 (a # s) =
     (if byte_in 0 127 a then utf8 s
      else case utf8_tail a s of None \<Rightarrow> False | Some k \<Rightarrow> utf8 (drop k s))"
  by pat_completeness auto
termination
  by (relation "measure length") auto

lemma ascii_utf8: "\<forall>c\<in>set s. byte_in 0 127 c \<Longrightarrow> utf8 s"
  by (induction s) simp_all

section \<open>Replacing what is not UTF-8\<close>

text \<open>
  \<open>String::from_utf8_lossy\<close>: every longest beginning of a character that breaks off, and
  every byte that starts none, becomes U+FFFD.
\<close>

definition replacement :: str where
  "replacement = [CHR 0xEF, CHR 0xBF, CHR 0xBD]"

function from_utf8_lossy :: "str \<Rightarrow> str" where
  "from_utf8_lossy [] = []"
| "from_utf8_lossy (a # s) =
     (if byte_in 0 127 a then a # from_utf8_lossy s
      else case utf8_lead a of
        None \<Rightarrow> replacement @ from_utf8_lossy s
      | Some l \<Rightarrow>
          (if utf8_matched l s = snd (snd l) then a # take (snd (snd l)) s @ from_utf8_lossy (drop (snd (snd l)) s)
           else replacement @ from_utf8_lossy (drop (utf8_matched l s) s)))"
  by pat_completeness auto
termination
  by (relation "measure length") auto

text \<open>What is UTF-8 is left alone.\<close>

lemma lossy_utf8: "utf8 s \<Longrightarrow> from_utf8_lossy s = s"
proof (induction s rule: utf8.induct)
  case (2 a s)
  show ?case
  proof (cases "byte_in 0 127 a")
    case False
    then obtain k where k: "utf8_tail a s = Some k" "utf8 (drop k s)" using "2.prems" by (auto split: option.splits)
    then obtain l where "utf8_lead a = Some l" "utf8_matched l s = k" "snd (snd l) = k"
      by (auto simp: utf8_tail_def split: option.splits if_splits)
    with False k "2.IH"(2) [OF False k] show ?thesis by simp
  qed (use 2 in simp)
qed simp

section \<open>Characters\<close>

text \<open>\<open>str::chars\<close>: a lead byte with its continuation bytes.\<close>

function chars_of :: "str \<Rightarrow> str list" where
  "chars_of [] = []"
| "chars_of (a # s) =
     (if byte_in 0 127 a then [a] # chars_of s
      else (a # takeWhile (byte_in 128 191) s) # chars_of (dropWhile (byte_in 128 191) s))"
  by pat_completeness auto
termination
  by (relation "measure length") (auto simp: length_dropWhile_le less_Suc_eq_le)

text \<open>\<open>char::is_whitespace\<close> and \<open>char::is_control\<close> on the bytes of one character.\<close>

definition blank_char :: "str \<Rightarrow> bool" where
  "blank_char c =
     (case map of_char c of
        [n] \<Rightarrow> (9 \<le> n \<and> n \<le> (13::nat)) \<or> n = 32
      | [a, n] \<Rightarrow> a = 0xC2 \<and> (n = 0x85 \<or> n = 0xA0)
      | [a, b, n] \<Rightarrow> (a = 0xE1 \<and> b = 0x9A \<and> n = 0x80)
          \<or> (a = 0xE2 \<and> b = 0x80 \<and> (n \<le> 0x8A \<or> n = 0xA8 \<or> n = 0xA9 \<or> n = 0xAF))
          \<or> (a = 0xE2 \<and> b = 0x81 \<and> n = 0x9F) \<or> (a = 0xE3 \<and> b = 0x80 \<and> n = 0x80)
      | _ \<Rightarrow> False)"

definition control_char :: "str \<Rightarrow> bool" where
  "control_char c =
     (case map of_char c of
        [n] \<Rightarrow> n < 32 \<or> n = (127::nat)
      | [a, n] \<Rightarrow> a = 0xC2 \<and> n < 0xA0
      | _ \<Rightarrow> False)"

definition trim_text :: "str \<Rightarrow> str" where
  "trim_text s = concat (rev (dropWhile blank_char (rev (dropWhile blank_char (chars_of s)))))"

text \<open>\<open>split_whitespace\<close>.\<close>

function words_of :: "str list \<Rightarrow> str list" where
  "words_of cs =
     (case dropWhile blank_char cs of
        [] \<Rightarrow> []
      | c # r \<Rightarrow> concat (c # takeWhile (\<lambda>x. \<not> blank_char x) r) # words_of (dropWhile (\<lambda>x. \<not> blank_char x) r))"
  by auto
termination
proof (relation "measure length", goal_cases)
  case (2 cs c r)
  have "length (dropWhile (\<lambda>x. \<not> blank_char x) r) \<le> length r" by (rule length_dropWhile_le)
  also have "\<dots> < length (dropWhile blank_char cs)" using 2 by simp
  also have "\<dots> \<le> length cs" by (rule length_dropWhile_le)
  finally show ?case by simp
qed simp

declare words_of.simps [simp del]

definition split_whitespace :: "str \<Rightarrow> str list" where
  "split_whitespace s = words_of (chars_of s)"

text \<open>\<open>str::lines\<close>: a carriage return goes with the line feed that follows it.\<close>

definition strip_return :: "str \<Rightarrow> str" where
  "strip_return l = (if l \<noteq> [] \<and> last l = return_byte then butlast l else l)"

definition text_lines :: "str \<Rightarrow> str list" where
  "text_lines s =
     (let ls = split_on newline_byte s
      in map strip_return (butlast ls) @ (if last ls = [] then [] else [last ls]))"

text \<open>\<open>str::split_once\<close> on a string.\<close>

definition split_at_sub :: "str \<Rightarrow> str \<Rightarrow> (str \<times> str) option" where
  "split_at_sub pat s = map_option (\<lambda>i. (take i s, drop (i + length pat) s)) (find_sub pat s)"

definition eq_ignore_case :: "str \<Rightarrow> str \<Rightarrow> bool" where
  "eq_ignore_case a b \<longleftrightarrow> to_ascii_lowercase a = to_ascii_lowercase b"

section \<open>Facts\<close>

lemma concat_chars_of [simp]: "concat (chars_of s) = s"
  by (induction s rule: chars_of.induct) simp_all

lemma chars_of_ne: "c \<in> set (chars_of s) \<Longrightarrow> c \<noteq> []"
  by (induction s rule: chars_of.induct) (auto split: if_splits)

lemma split_on_ne [simp]: "split_on c s \<noteq> []"
  by (induction s) (auto split: list.split)

lemma split_on_plain: "c \<notin> set s \<Longrightarrow> split_on c s = [s]"
  by (induction s) auto

lemma split_on_record: "c \<notin> set s \<Longrightarrow> split_on c (s @ c # t) = s # split_on c t"
  by (induction s) (auto split: list.split)

lemma split_on_append: "split_on c (s @ c # t) = split_on c s @ split_on c t"
  by (induction s) (auto split: list.split)

lemma split_on_parts: "x \<in> set (split_on c s) \<Longrightarrow> c \<notin> set x"
  by (induction s arbitrary: x) (auto split: list.splits if_splits)

text \<open>The parts of a string, put together again.\<close>

lemma join_split_on [simp]: "join [c] (split_on c s) = s"
proof (induction s)
  case (Cons a s)
  show ?case
  proof (cases "split_on c s")
    case (Cons w ws)
    with Cons.IH show ?thesis by (cases ws) auto
  qed simp
qed simp

lemma join_append: "xs \<noteq> [] \<Longrightarrow> ys \<noteq> [] \<Longrightarrow> join sep (xs @ ys) = join sep xs @ sep @ join sep ys"
proof (induction sep xs rule: join.induct)
  case (2 sep x)
  then show ?case by (cases ys) simp_all
next
  case (3 sep x y ys')
  then show ?case by simp
qed simp

lemma text_lines_no_newline: "l \<in> set (text_lines s) \<Longrightarrow> newline_byte \<notin> set l"
proof -
  have "x \<in> set (split_on newline_byte s) \<Longrightarrow> newline_byte \<notin> set (strip_return x)" for x
    using split_on_parts [of x newline_byte s] by (auto simp: strip_return_def dest: in_set_butlastD)
  moreover have "x \<in> set (butlast (split_on newline_byte s)) \<Longrightarrow> x \<in> set (split_on newline_byte s)" for x
    by (rule in_set_butlastD)
  moreover have "newline_byte \<notin> set (last (split_on newline_byte s))"
    using split_on_parts [of "last (split_on newline_byte s)" newline_byte s] by simp
  ultimately show "l \<in> set (text_lines s) \<Longrightarrow> newline_byte \<notin> set l"
    by (auto simp: text_lines_def Let_def split: if_splits)
qed

text \<open>Words contain no white space; in particular no line feed.\<close>

lemma words_of_parts: "w \<in> set (words_of cs) \<Longrightarrow> \<exists>ds. w = concat ds \<and> ds \<noteq> [] \<and> set ds \<subseteq> set cs \<and> (\<forall>d\<in>set ds. \<not> blank_char d)"
proof (induction cs rule: words_of.induct)
  case (1 cs)
  show ?case
  proof (cases "dropWhile blank_char cs")
    case Nil
    with 1 show ?thesis by (simp add: words_of.simps [of cs])
  next
    case (Cons c r)
    have r: "set (c # r) \<subseteq> set cs" using Cons by (metis set_dropWhileD subsetI)
    have c: "\<not> blank_char c" using Cons hd_dropWhile [of blank_char cs] by simp
    from "1.prems" Cons consider "w = concat (c # takeWhile (\<lambda>x. \<not> blank_char x) r)"
      | "w \<in> set (words_of (dropWhile (\<lambda>x. \<not> blank_char x) r))" by (auto simp: words_of.simps [of cs])
    then show ?thesis
    proof cases
      case 1
      have "set (c # takeWhile (\<lambda>x. \<not> blank_char x) r) \<subseteq> set cs" "\<forall>d\<in>set (c # takeWhile (\<lambda>x. \<not> blank_char x) r). \<not> blank_char d"
        using r c by (auto dest: set_takeWhileD)
      with 1 show ?thesis by blast
    next
      case 2
      have "set (dropWhile (\<lambda>x. \<not> blank_char x) r) \<subseteq> set cs" using r by (auto dest: set_dropWhileD)
      with "1.IH" [OF Cons 2] show ?thesis by blast
    qed
  qed
qed

lemma chars_of_ascii: "c \<in> set (chars_of s) \<Longrightarrow> a \<in> set c \<Longrightarrow> byte_in 0 127 a \<Longrightarrow> c = [a]"
proof (induction s rule: chars_of.induct)
  case (2 b s)
  have "byte_in 128 191 x \<Longrightarrow> \<not> byte_in 0 127 x" for x by (simp add: byte_in_def)
  then have "a \<notin> set (takeWhile (byte_in 128 191) s)" using "2.prems"(3) by (auto dest: set_takeWhileD)
  with 2 show ?case by (auto split: if_splits)
qed simp

lemma word_not_blank: "w \<in> set (split_whitespace s) \<Longrightarrow> a \<in> set w \<Longrightarrow> byte_in 0 127 a \<Longrightarrow> \<not> blank_char [a]"
proof -
  assume w: "w \<in> set (split_whitespace s)" and a: "a \<in> set w" "byte_in 0 127 a"
  obtain ds where ds: "w = concat ds" "set ds \<subseteq> set (chars_of s)" "\<forall>d\<in>set ds. \<not> blank_char d"
    using words_of_parts w unfolding split_whitespace_def by metis
  then obtain d where d: "d \<in> set ds" "a \<in> set d" using a(1) by auto
  with ds(2) a(2) chars_of_ascii have "d = [a]" by blast
  with d(1) ds(3) show "\<not> blank_char [a]" by auto
qed

lemma word_no_newline: "w \<in> set (split_whitespace s) \<Longrightarrow> newline_byte \<notin> set w"
  using word_not_blank [of w s newline_byte] by (auto simp: byte_in_def blank_char_def)

end
