(* ===== verification/Graph_Wal.thy ===== *)
theory Graph_Wal
  imports Graph_Store Text_Bytes "HOL-Library.Multiset"
begin

text \<open>
  \<open>crates/maturana-graph/src/wal.rs\<close> and the persistence of \<open>store.rs\<close>: the write-ahead log
  as bytes, the snapshot, \<open>Store::open\<close> and the mutations with the files they leave behind
  at every point where the process may die. The JSON text of a mutation and its parser are
  parameters \<open>enc\<close> and \<open>dec\<close> (\<open>serde_json\<close>); the snapshot file, replaced in one rename, is
  its content.
\<close>

section \<open>Lines of a file\<close>

text \<open>\<open>BufRead::lines\<close>: a last line without a line feed counts when it is not empty.\<close>

definition byte_lines :: "str \<Rightarrow> str list" where
  "byte_lines s = (let ls = split_on newline_byte s in if last ls = [] then butlast ls else ls)"

text \<open>\<open>str::trim\<close> on the bytes: the ASCII white space; no JSON text begins or ends with any other.\<close>

definition ascii_ws :: "char \<Rightarrow> bool" where
  "ascii_ws c \<longleftrightarrow> byte_in 9 13 c \<or> byte_in 32 32 c"

definition trim_bytes :: "str \<Rightarrow> str" where
  "trim_bytes s = rev (dropWhile ascii_ws (rev (dropWhile ascii_ws s)))"

section \<open>The files\<close>

record disk =
  dk_snapshot :: "(node list \<times> edge list) option"
  dk_wal :: str

definition empty_disk :: disk where
  "empty_disk = \<lparr> dk_snapshot = None, dk_wal = [] \<rparr>"

datatype wal_error = InvalidUtf8

definition append_wal :: "(mutation \<Rightarrow> str) \<Rightarrow> mutation \<Rightarrow> disk \<Rightarrow> disk" where
  "append_wal enc m d = d\<lparr>dk_wal := dk_wal d @ enc m @ [newline_byte]\<rparr>"

fun read_records :: "(str \<Rightarrow> mutation option) \<Rightarrow> str list \<Rightarrow> wal_error + mutation list" where
  "read_records dec [] = Inr []"
| "read_records dec (l # ls) =
     (if \<not> utf8 l then Inl InvalidUtf8
      else if trim_bytes l = [] then read_records dec ls
      else case dec (trim_bytes l) of
             None \<Rightarrow> Inr []
           | Some m \<Rightarrow> (case read_records dec ls of Inl e \<Rightarrow> Inl e | Inr ms \<Rightarrow> Inr (m # ms)))"

definition read_wal :: "(str \<Rightarrow> mutation option) \<Rightarrow> disk \<Rightarrow> wal_error + mutation list" where
  "read_wal dec d = read_records dec (byte_lines (dk_wal d))"

definition load_snapshot :: "disk \<Rightarrow> store" where
  "load_snapshot d =
     (case dk_snapshot d of
        None \<Rightarrow> empty_store
      | Some (ns, es) \<Rightarrow> fold put_edge es (fold put_node ns empty_store))"

text \<open>\<open>Store::open\<close>.\<close>

definition open_store :: "(str \<Rightarrow> mutation option) \<Rightarrow> disk \<Rightarrow> wal_error + store" where
  "open_store dec d =
     (case read_wal dec d of
        Inl e \<Rightarrow> Inl e
      | Inr ms \<Rightarrow> Inr (fold apply_in_memory ms (load_snapshot d)))"

section \<open>Mutating\<close>

text \<open>The order in which the \<open>HashMap\<close>s are walked: any permutation.\<close>

record iteration =
  it_nodes :: "node list \<Rightarrow> node list"
  it_edges :: "edge list \<Rightarrow> edge list"

definition snapshot_of :: "iteration \<Rightarrow> store \<Rightarrow> node list \<times> edge list" where
  "snapshot_of it st = (it_nodes it (map snd (s_nodes st)), it_edges it (map snd (s_edges st)))"

definition snapshot_every :: nat where
  "snapshot_every = 512"

definition snapshot :: "iteration \<Rightarrow> store \<times> disk \<Rightarrow> store \<times> disk" where
  "snapshot it sd = (case sd of (st, d) \<Rightarrow>
     (st\<lparr>s_since := 0\<rparr>, d\<lparr>dk_snapshot := Some (snapshot_of it st), dk_wal := []\<rparr>))"

definition maybe_snapshot :: "iteration \<Rightarrow> store \<times> disk \<Rightarrow> store \<times> disk" where
  "maybe_snapshot it sd = (case sd of (st, d) \<Rightarrow>
     (let st1 = st\<lparr>s_since := s_since st + 1\<rparr>
      in if snapshot_every \<le> s_since st1 then snapshot it (st1, d) else (st1, d)))"

text \<open>The common body of the four mutations: log, apply, maybe fold into a snapshot.\<close>

definition mutate :: "(mutation \<Rightarrow> str) \<Rightarrow> iteration \<Rightarrow> mutation \<Rightarrow> store \<times> disk \<Rightarrow> store \<times> disk" where
  "mutate enc it m sd = (case sd of (st, d) \<Rightarrow> maybe_snapshot it (apply_in_memory m st, append_wal enc m d))"

definition upsert_node :: "(mutation \<Rightarrow> str) \<Rightarrow> iteration \<Rightarrow> node \<Rightarrow> store \<times> disk \<Rightarrow> store \<times> disk" where
  "upsert_node enc it n = mutate enc it (UpsertNode n)"

definition upsert_edge :: "(mutation \<Rightarrow> str) \<Rightarrow> iteration \<Rightarrow> edge \<Rightarrow> store \<times> disk \<Rightarrow> str \<times> store \<times> disk" where
  "upsert_edge enc it e sd = (let e1 = e\<lparr>e_id := effective_id e\<rparr> in (e_id e1, mutate enc it (UpsertEdge e1) sd))"

definition delete_node :: "(mutation \<Rightarrow> str) \<Rightarrow> iteration \<Rightarrow> str \<Rightarrow> store \<times> disk \<Rightarrow> store \<times> disk" where
  "delete_node enc it i = mutate enc it (DeleteNode i)"

definition delete_edge :: "(mutation \<Rightarrow> str) \<Rightarrow> iteration \<Rightarrow> str \<Rightarrow> store \<times> disk \<Rightarrow> store \<times> disk" where
  "delete_edge enc it i = mutate enc it (DeleteEdge i)"

text \<open>
  What the directory can hold if the process dies during \<open>mutate\<close>: part of the record, all
  of it, and around a snapshot the renamed snapshot with the log not yet cut.
\<close>

definition crash_points :: "(mutation \<Rightarrow> str) \<Rightarrow> iteration \<Rightarrow> mutation \<Rightarrow> store \<times> disk \<Rightarrow> disk list" where
  "crash_points enc it m sd = (case sd of (st, d) \<Rightarrow>
     map (\<lambda>k. d\<lparr>dk_wal := dk_wal d @ take k (enc m @ [newline_byte])\<rparr>) [0..<length (enc m) + 2] @
     (let st1 = apply_in_memory m st
      in if snapshot_every \<le> s_since st1 + 1
         then [(append_wal enc m d)\<lparr>dk_snapshot := Some (snapshot_of it st1)\<rparr>,
               snd (mutate enc it m sd)]
         else []))"

text \<open>A life of the directory: mutations, and clean restarts.\<close>

datatype graph_event = Mutate mutation | Reopen

fun live :: "(mutation \<Rightarrow> str) \<Rightarrow> (str \<Rightarrow> mutation option) \<Rightarrow> iteration \<Rightarrow> graph_event list \<Rightarrow> store \<times> disk \<Rightarrow> wal_error + store \<times> disk" where
  "live enc dec it [] sd = Inr sd"
| "live enc dec it (Mutate m # es) sd = live enc dec it es (mutate enc it m sd)"
| "live enc dec it (Reopen # es) sd =
     (case open_store dec (snd sd) of Inl e \<Rightarrow> Inl e | Inr st \<Rightarrow> live enc dec it es (st, snd sd))"

definition mutations_of :: "graph_event list \<Rightarrow> mutation list" where
  "mutations_of es = List.map_filter (\<lambda>e. case e of Mutate m \<Rightarrow> Some m | Reopen \<Rightarrow> None) es"

section \<open>What JSON promises\<close>

definition record_ok :: "(mutation \<Rightarrow> str) \<Rightarrow> (str \<Rightarrow> mutation option) \<Rightarrow> mutation \<Rightarrow> bool" where
  "record_ok enc dec m \<longleftrightarrow> dec (enc m) = Some m \<and> newline_byte \<notin> set (enc m) \<and> trim_bytes (enc m) = enc m \<and>
     enc m \<noteq> [] \<and> utf8 (enc m)"

text \<open>A proper part of the record is no record.\<close>

definition torn_ok :: "(mutation \<Rightarrow> str) \<Rightarrow> (str \<Rightarrow> mutation option) \<Rightarrow> mutation \<Rightarrow> bool" where
  "torn_ok enc dec m \<longleftrightarrow> (\<forall>k<length (enc m). dec (trim_bytes (take k (enc m))) = None)"

definition fair_iteration :: "iteration \<Rightarrow> bool" where
  "fair_iteration it \<longleftrightarrow> (\<forall>ns. mset (it_nodes it ns) = mset ns) \<and> (\<forall>es. mset (it_edges it es) = mset es)"

section \<open>Reading back the log\<close>

definition log_bytes :: "(mutation \<Rightarrow> str) \<Rightarrow> mutation list \<Rightarrow> str" where
  "log_bytes enc ms = concat (map (\<lambda>m. enc m @ [newline_byte]) ms)"

lemma log_bytes_simps [simp]:
  "log_bytes enc [] = []" "log_bytes enc (m # ms) = enc m @ newline_byte # log_bytes enc ms"
  "log_bytes enc (ms @ ns) = log_bytes enc ms @ log_bytes enc ns"
  by (simp_all add: log_bytes_def)

lemma split_on_log:
  "\<forall>m\<in>set ms. newline_byte \<notin> set (enc m) \<Longrightarrow> split_on newline_byte (log_bytes enc ms @ t) = map enc ms @ split_on newline_byte t"
  by (induction ms) (auto simp: split_on_record)

lemma lines_of_log:
  "\<forall>m\<in>set ms. newline_byte \<notin> set (enc m) \<Longrightarrow> byte_lines (log_bytes enc ms @ t) = map enc ms @ byte_lines t"
  by (simp add: byte_lines_def Let_def split_on_log butlast_append)

lemma lines_of_tail: "newline_byte \<notin> set t \<Longrightarrow> byte_lines t = (if t = [] then [] else [t])"
  by (simp add: byte_lines_def split_on_plain)

lemma read_records_log:
  "\<forall>m\<in>set ms. record_ok enc dec m \<Longrightarrow>
     read_records dec (map enc ms @ ls) = (case read_records dec ls of Inl e \<Rightarrow> Inl e | Inr ns \<Rightarrow> Inr (ms @ ns))"
  by (induction ms) (auto simp: record_ok_def split: sum.split)

lemma read_wal_log:
  assumes "\<forall>m\<in>set ms. record_ok enc dec m" and "dk_wal d = log_bytes enc ms @ t"
  shows "read_wal dec d = (case read_records dec (byte_lines t) of Inl e \<Rightarrow> Inl e | Inr ns \<Rightarrow> Inr (ms @ ns))"
proof -
  have "\<forall>m\<in>set ms. newline_byte \<notin> set (enc m)" using assms(1) by (simp add: record_ok_def)
  then show ?thesis by (simp add: read_wal_def assms(2) lines_of_log read_records_log [OF assms(1)])
qed

lemma read_torn:
  assumes "record_ok enc dec m" and "torn_ok enc dec m" and "utf8 (take k (enc m))" and "k < length (enc m)"
  shows "read_records dec (byte_lines (take k (enc m))) = Inr []"
proof -
  have "newline_byte \<notin> set (take k (enc m))" using assms(1) by (auto simp: record_ok_def dest: in_set_takeD)
  moreover have "dec (trim_bytes (take k (enc m))) = None" using assms(2,4) by (simp add: torn_ok_def)
  ultimately show ?thesis using assms(3) by (simp add: lines_of_tail)
qed

text \<open>A cut inside a character is an error of \<open>BufRead::lines\<close>.\<close>

lemma read_torn_char:
  assumes "record_ok enc dec m" and "\<not> utf8 (take k (enc m))"
  shows "read_records dec (byte_lines (take k (enc m))) = Inl InvalidUtf8"
proof -
  have "newline_byte \<notin> set (take k (enc m))" using assms(1) by (auto simp: record_ok_def dest: in_set_takeD)
  moreover have "take k (enc m) \<noteq> []" using assms(2) by (metis utf8.simps(1))
  ultimately show ?thesis using assms(2) by (simp add: lines_of_tail)
qed

lemma read_whole: "record_ok enc dec m \<Longrightarrow> read_records dec (byte_lines (enc m)) = Inr [m]"
  by (simp add: lines_of_tail record_ok_def)

section \<open>The snapshot keeps the graph\<close>

lemma fold_puts:
  "fold put_node ns st = fold apply_in_memory (map UpsertNode ns) st"
  "fold put_edge es st = fold apply_in_memory (map UpsertEdge es) st"
  by (induction ns arbitrary: st; simp) (induction es arbitrary: st; simp)

lemma node_slot_puts:
  "distinct (map n_id ns) \<Longrightarrow> fold (node_at i) (map UpsertNode ns) x =
     (case map_of (map (\<lambda>n. (n_id n, n)) ns) i of None \<Rightarrow> x | Some n \<Rightarrow> Some n)"
proof (induction ns arbitrary: x)
  case (Cons n ns)
  have "n_id n = i \<Longrightarrow> map_of (map (\<lambda>n. (n_id n, n)) ns) i = None"
    using Cons.prems by (auto simp: map_of_eq_None_iff)
  with Cons show ?case by auto
qed simp

lemma edge_slot_puts:
  "distinct (map e_id es) \<Longrightarrow> fold (edge_at i) (map UpsertEdge es) x =
     (case map_of (map (\<lambda>e. (e_id e, e)) es) i of None \<Rightarrow> x | Some e \<Rightarrow> Some e)"
proof (induction es arbitrary: x)
  case (Cons e es)
  have "e_id e = i \<Longrightarrow> map_of (map (\<lambda>e. (e_id e, e)) es) i = None"
    using Cons.prems by (auto simp: map_of_eq_None_iff)
  with Cons show ?case by auto
qed simp

lemma slots_other:
  "fold (node_at i) (map UpsertEdge es) x = x" "fold (edge_at i) (map UpsertNode ns) y = y"
  by (induction es; simp) (induction ns; simp)

text \<open>A permutation of the values of a keyed list, keyed again, is the same map.\<close>

lemma keyed_values:
  assumes k: "keyed key m" and p: "mset vs = mset (map snd m)"
  shows "distinct (map key vs) \<and> map_of (map (\<lambda>v. (key v, v)) vs) = map_of m"
proof -
  have kv: "\<forall>(a, v)\<in>set m. key v = a" using k by (auto simp: keyed_def)
  have same: "map (\<lambda>v. (key v, v)) (map snd m) = m"
  proof -
    have "map (\<lambda>p. (key (snd p), snd p)) m = m" using kv by (intro map_idI) auto
    then show ?thesis by (simp add: comp_def)
  qed
  have "mset (map (\<lambda>v. (key v, v)) vs) = mset m"
    using arg_cong [OF p, of "image_mset (\<lambda>v. (key v, v))"] same by (metis mset_map)
  moreover have dm: "distinct (map fst m)" using k by (simp add: keyed_def)
  moreover have "map fst (map (\<lambda>v. (key v, v)) vs) = map key vs" by (simp add: comp_def)
  moreover have d: "distinct (map key vs)"
  proof -
    have "mset (map key vs) = mset (map key (map snd m))" using p by (metis mset_map)
    also have "map key (map snd m) = map fst m" using kv by auto
    finally show ?thesis using dm mset_eq_imp_distinct_iff by blast
  qed
  ultimately show ?thesis by (metis map_of_inject_set mset_eq_setD)
qed

lemma load_snapshot_view:
  assumes ok: "store_ok st" and it: "fair_iteration it" and d: "dk_snapshot d = Some (snapshot_of it st)"
  shows "store_ok (load_snapshot d) \<and> view (load_snapshot d) = view st"
proof -
  let ?ns = "it_nodes it (map snd (s_nodes st))" and ?es = "it_edges it (map snd (s_edges st))"
  have "load_snapshot d = fold apply_in_memory (map UpsertNode ?ns @ map UpsertEdge ?es) empty_store"
    by (simp add: load_snapshot_def d snapshot_of_def fold_puts)
  then have l: "store_ok (load_snapshot d)"
    "view (load_snapshot d) = fold apply_graph (map UpsertNode ?ns @ map UpsertEdge ?es) empty_graph"
    using replay_ok_view [OF store_ok_empty] view_empty by metis+
  have n: "distinct (map n_id ?ns)" "map_of (map (\<lambda>v. (n_id v, v)) ?ns) = map_of (s_nodes st)"
    using keyed_values [of n_id "s_nodes st" ?ns] ok it by (simp_all add: store_ok_def fair_iteration_def)
  have e: "distinct (map e_id ?es)" "map_of (map (\<lambda>v. (e_id v, v)) ?es) = map_of (s_edges st)"
    using keyed_values [of e_id "s_edges st" ?es] ok it by (simp_all add: store_ok_def fair_iteration_def)
  have "fold apply_graph (map UpsertNode ?ns @ map UpsertEdge ?es) empty_graph = view st"
    unfolding empty_graph_def fold_apply_graph view_def
    by (auto simp: slots_other node_slot_puts [OF n(1)] edge_slot_puts [OF e(1)] n(2) e(2) fun_eq_iff split: option.split)
  with l show ?thesis by simp
qed

section \<open>Durability\<close>

definition durable :: "(mutation \<Rightarrow> str) \<Rightarrow> (str \<Rightarrow> mutation option) \<Rightarrow> graph \<Rightarrow> disk \<Rightarrow> bool" where
  "durable enc dec g d \<longleftrightarrow> store_ok (load_snapshot d) \<and>
     (\<exists>ms. (\<forall>m\<in>set ms. record_ok enc dec m) \<and> dk_wal d = log_bytes enc ms \<and> fold apply_graph ms (view (load_snapshot d)) = g)"

lemma durable_open: "durable enc dec g d \<Longrightarrow> \<exists>st. open_store dec d = Inr st \<and> store_ok st \<and> view st = g"
proof -
  assume "durable enc dec g d"
  then obtain ms where ms: "\<forall>m\<in>set ms. record_ok enc dec m" "dk_wal d = log_bytes enc ms @ []"
    "store_ok (load_snapshot d)" "fold apply_graph ms (view (load_snapshot d)) = g" by (auto simp: durable_def)
  from read_wal_log [OF ms(1,2)] have "read_wal dec d = Inr ms" by (simp add: byte_lines_def)
  with replay_ok_view [OF ms(3), of ms] ms(4) show ?thesis by (simp add: open_store_def)
qed

lemma durable_append:
  assumes "durable enc dec g d" and "record_ok enc dec m"
  shows "durable enc dec (apply_graph m g) (append_wal enc m d)"
proof -
  obtain ms where ms: "\<forall>m\<in>set ms. record_ok enc dec m" "dk_wal d = log_bytes enc ms"
    "store_ok (load_snapshot d)" "fold apply_graph ms (view (load_snapshot d)) = g" using assms(1) by (auto simp: durable_def)
  have "load_snapshot (append_wal enc m d) = load_snapshot d" by (simp add: load_snapshot_def append_wal_def)
  with ms assms(2) show ?thesis
    by (auto simp: durable_def append_wal_def intro!: exI [of _ "ms @ [m]"])
qed

lemma durable_snapshot:
  "store_ok st \<Longrightarrow> fair_iteration it \<Longrightarrow> durable enc dec (view st) \<lparr> dk_snapshot = Some (snapshot_of it st), dk_wal = [] \<rparr>"
  using load_snapshot_view [of st it "\<lparr> dk_snapshot = Some (snapshot_of it st), dk_wal = [] \<rparr>"]
  by (auto simp: durable_def intro!: exI [of _ "[]"])

text \<open>Renamed, but the log not yet cut: replaying it again is harmless.\<close>

lemma durable_renamed:
  assumes dur: "durable enc dec (view st) d" and ok: "store_ok st" and it: "fair_iteration it"
  shows "durable enc dec (view st) (d\<lparr>dk_snapshot := Some (snapshot_of it st)\<rparr>)"
proof -
  let ?d = "d\<lparr>dk_snapshot := Some (snapshot_of it st)\<rparr>"
  obtain ms where ms: "\<forall>m\<in>set ms. record_ok enc dec m" "dk_wal d = log_bytes enc ms"
    "fold apply_graph ms (view (load_snapshot d)) = view st" using dur by (auto simp: durable_def)
  have l: "store_ok (load_snapshot ?d)" "view (load_snapshot ?d) = view st"
    using load_snapshot_view [OF ok it, of ?d] by simp_all
  have "fold apply_graph ms (view (load_snapshot ?d)) = view st"
    unfolding l(2) using replay_twice [of ms "view (load_snapshot d)"] ms(3) by simp
  with ms(1,2) l(1) show ?thesis by (auto simp: durable_def)
qed

lemma since_irrelevant [simp]: "store_ok (st\<lparr>s_since := n\<rparr>) = store_ok st" "view (st\<lparr>s_since := n\<rparr>) = view st"
  "snapshot_of it (st\<lparr>s_since := n\<rparr>) = snapshot_of it st"
  by (simp_all add: store_ok_def view_def snapshot_of_def)

lemma mutate_durable:
  assumes ok: "store_ok st" and dur: "durable enc dec (view st) d" and r: "record_ok enc dec m" and it: "fair_iteration it"
    and m: "mutate enc it m (st, d) = (st', d')"
  shows "store_ok st' \<and> view st' = apply_graph m (view st) \<and> durable enc dec (view st') d'"
proof -
  note a = apply_in_memory_ok_view [OF ok, of m]
  have dur1: "durable enc dec (view (apply_in_memory m st)) (append_wal enc m d)"
    using durable_append [OF dur r] a by simp
  show ?thesis
  proof (cases "snapshot_every \<le> s_since (apply_in_memory m st) + 1")
    case False
    with m a dur1 show ?thesis by (auto simp: mutate_def maybe_snapshot_def Let_def)
  next
    case True
    with m have "st' = (apply_in_memory m st)\<lparr>s_since := 0\<rparr>"
      "d' = \<lparr> dk_snapshot = Some (snapshot_of it (apply_in_memory m st)), dk_wal = [] \<rparr>"
      by (auto simp: mutate_def maybe_snapshot_def snapshot_def Let_def append_wal_def)
    with a durable_snapshot [OF conjunct1 [OF a] it, of enc dec] show ?thesis by simp
  qed
qed

lemma live_durable:
  "\<forall>m\<in>set (mutations_of es). record_ok enc dec m \<Longrightarrow> fair_iteration it \<Longrightarrow> store_ok st \<Longrightarrow> durable enc dec (view st) d \<Longrightarrow>
     \<exists>st' d'. live enc dec it es (st, d) = Inr (st', d') \<and> store_ok st' \<and>
       view st' = fold apply_graph (mutations_of es) (view st) \<and> durable enc dec (view st') d'"
proof (induction es arbitrary: st d)
  case Nil
  then show ?case by (simp add: mutations_of_def map_filter_simps)
next
  case (Cons e es)
  show ?case
  proof (cases e)
    case (Mutate m)
    obtain st1 d1 where m: "mutate enc it m (st, d) = (st1, d1)" by fastforce
    have "record_ok enc dec m" "\<forall>m\<in>set (mutations_of es). record_ok enc dec m"
      using Cons.prems(1) Mutate by (simp_all add: mutations_of_def map_filter_simps)
    then have s1: "store_ok st1" "view st1 = apply_graph m (view st)" "durable enc dec (view st1) d1"
      using mutate_durable [OF Cons.prems(3,4) _ Cons.prems(2) m] by blast+
    from Cons.IH [OF \<open>\<forall>m\<in>set (mutations_of es). record_ok enc dec m\<close> Cons.prems(2) s1(1,3)] s1(2) Mutate m
    show ?thesis by (simp add: mutations_of_def map_filter_simps)
  next
    case Reopen
    obtain st1 where o1: "open_store dec d = Inr st1" "store_ok st1" "view st1 = view st"
      using durable_open [OF Cons.prems(4)] by blast
    have "\<forall>m\<in>set (mutations_of es). record_ok enc dec m"
      using Cons.prems(1) Reopen by (simp add: mutations_of_def map_filter_simps)
    with Cons.IH [OF _ Cons.prems(2) o1(2), of d] Cons.prems(4) o1 Reopen show ?thesis
      by (simp add: mutations_of_def map_filter_simps)
  qed
qed

lemma durable_start: "durable enc dec empty_graph empty_disk"
  by (auto simp: durable_def empty_disk_def load_snapshot_def store_ok_empty view_empty intro!: exI [of _ "[]"])

lemma open_torn:
  assumes "durable enc dec g d" and "dk_snapshot d' = dk_snapshot d" and "dk_wal d' = dk_wal d @ t"
    and "read_records dec (byte_lines t) = Inr ns"
  shows "\<exists>st. open_store dec d' = Inr st \<and> view st = fold apply_graph ns g"
proof -
  obtain ms where ms: "\<forall>m\<in>set ms. record_ok enc dec m" "dk_wal d = log_bytes enc ms"
    "store_ok (load_snapshot d)" "fold apply_graph ms (view (load_snapshot d)) = g" using assms(1) by (auto simp: durable_def)
  have l: "load_snapshot d' = load_snapshot d" using assms(2) by (simp add: load_snapshot_def)
  have "read_wal dec d' = Inr (ms @ ns)" using read_wal_log [OF ms(1), of d' t] assms(3,4) ms(2) by simp
  with replay_ok_view [OF ms(3), of "ms @ ns"] ms(4) show ?thesis by (simp add: open_store_def l)
qed

text \<open>The one crash the reader does not survive: the record is cut inside a character.\<close>

definition torn_in_char :: "(mutation \<Rightarrow> str) \<Rightarrow> (str \<Rightarrow> mutation option) \<Rightarrow> mutation \<Rightarrow> disk \<Rightarrow> disk \<Rightarrow> bool" where
  "torn_in_char enc dec m d d' \<longleftrightarrow>
     (\<exists>k<length (enc m). \<not> utf8 (take k (enc m)) \<and> d' = d\<lparr>dk_wal := dk_wal d @ take k (enc m)\<rparr>) \<and> open_store dec d' = Inl InvalidUtf8"

lemma torn_char_open:
  assumes "durable enc dec g d" and "record_ok enc dec m" and "\<not> utf8 (take k (enc m))" and "k < length (enc m)"
  shows "torn_in_char enc dec m d (d\<lparr>dk_wal := dk_wal d @ take k (enc m)\<rparr>)"
proof -
  obtain ms where ms: "\<forall>m\<in>set ms. record_ok enc dec m" "dk_wal d = log_bytes enc ms" using assms(1) by (auto simp: durable_def)
  let ?d' = "d\<lparr>dk_wal := dk_wal d @ take k (enc m)\<rparr>"
  have "open_store dec ?d' = Inl InvalidUtf8"
    using read_wal_log [OF ms(1), of ?d' "take k (enc m)"] ms(2) read_torn_char [OF assms(2,3)] by (simp add: open_store_def)
  then show ?thesis using assms(3,4) by (auto simp: torn_in_char_def)
qed

lemma crash_opens:
  assumes ok: "store_ok st" and dur: "durable enc dec (view st) d" and r: "record_ok enc dec m" and it: "fair_iteration it"
    and torn: "torn_ok enc dec m" and d': "d' \<in> set (crash_points enc it m (st, d))"
  shows "(\<exists>st'. open_store dec d' = Inr st' \<and> (view st' = view st \<or> view st' = apply_graph m (view st))) \<or>
    torn_in_char enc dec m d d'"
proof -
  let ?st1 = "apply_in_memory m st"
  note a = apply_in_memory_ok_view [OF ok, of m]
  have dur1: "durable enc dec (view ?st1) (append_wal enc m d)" using durable_append [OF dur r] a by simp
  have "d' \<in> (\<lambda>k. d\<lparr>dk_wal := dk_wal d @ take k (enc m @ [newline_byte])\<rparr>) ` {0..<length (enc m) + 2} \<or>
      d' = (append_wal enc m d)\<lparr>dk_snapshot := Some (snapshot_of it ?st1)\<rparr> \<or> d' = snd (mutate enc it m (st, d))"
    using d' unfolding crash_points_def by (simp only: prod.case Let_def set_append set_map set_upt split: if_splits) auto
  then consider (part) k where "k < length (enc m) + 2" "d' = d\<lparr>dk_wal := dk_wal d @ take k (enc m @ [newline_byte])\<rparr>"
    | (renamed) "d' = (append_wal enc m d)\<lparr>dk_snapshot := Some (snapshot_of it ?st1)\<rparr>"
    | (cut) "d' = snd (mutate enc it m (st, d))"
    unfolding image_iff Bex_def atLeastLessThan_iff by blast
  then show ?thesis
  proof cases
    case part
    consider "k < length (enc m)" | "k = length (enc m)" | "k = Suc (length (enc m))" using part(1) by linarith
    then show ?thesis
    proof cases
      case 1
      show ?thesis
      proof (cases "utf8 (take k (enc m))")
        case True
        with 1 part read_torn [OF r torn True 1] open_torn [OF dur, of d' "take k (enc m)" "[]"] show ?thesis by auto
      next
        case False
        have "d' = d\<lparr>dk_wal := dk_wal d @ take k (enc m)\<rparr>" using part(2) 1 by simp
        then show ?thesis using torn_char_open [OF dur r False 1] by blast
      qed
    next
      case 2
      with part read_whole [OF r] open_torn [OF dur, of d' "enc m" "[m]"] show ?thesis by auto
    next
      case 3
      then have "d' = append_wal enc m d" using part(2) by (simp add: append_wal_def)
      with durable_open [OF dur1] a show ?thesis by auto
    qed
  next
    case renamed
    with durable_open [OF durable_renamed [OF dur1 _ it]] a show ?thesis by auto
  next
    case cut
    obtain st2 d2 where m: "mutate enc it m (st, d) = (st2, d2)" by fastforce
    with mutate_durable [OF ok dur r it m] durable_open [of enc dec "view st2" d2] cut show ?thesis by auto
  qed
qed

section \<open>Properties\<close>

text \<open>
  C3. Crash safety. Let the directory live through any mutations and clean restarts and let
  the process die at any point of one more mutation: in the middle of the record, before or
  after it took effect, or inside the snapshot, between its rename and the cut of the log.
  Opening the directory then gives exactly the graph before that mutation or after it, with
  one exception: when the record was cut inside a multi-byte character, opening fails with
  the error of \<open>BufRead::lines\<close>, against the comment of \<open>read_wal\<close> that a torn final record is
  skipped. Nothing is lost even then: the log is the old one with the cut bytes behind it. What
  is used of JSON: a record reads back, on one line, and a cut one does not read.
\<close>

theorem crash_recovery:
  assumes "\<forall>x\<in>set (mutations_of es). record_ok enc dec x" and "record_ok enc dec m"
    and "torn_ok enc dec m" and "fair_iteration it"
  shows "\<exists>st d. live enc dec it es (empty_store, empty_disk) = Inr (st, d) \<and>
    view st = fold apply_graph (mutations_of es) empty_graph \<and>
    (\<forall>d'\<in>set (crash_points enc it m (st, d)).
       (\<exists>st'. open_store dec d' = Inr st' \<and> view st' \<in> {view st, apply_graph m (view st)}) \<or>
       (\<exists>k<length (enc m). \<not> utf8 (take k (enc m)) \<and> d' = d\<lparr>dk_wal := dk_wal d @ take k (enc m)\<rparr> \<and>
          open_store dec d' = Inl InvalidUtf8))"
proof -
  obtain st d where l: "live enc dec it es (empty_store, empty_disk) = Inr (st, d)" "store_ok st"
    "view st = fold apply_graph (mutations_of es) empty_graph" "durable enc dec (view st) d"
    using live_durable [OF assms(1,4) store_ok_empty, of empty_disk] durable_start [of enc dec] view_empty by auto
  have "(\<exists>st'. open_store dec d' = Inr st' \<and> view st' \<in> {view st, apply_graph m (view st)}) \<or>
       (\<exists>k<length (enc m). \<not> utf8 (take k (enc m)) \<and> d' = d\<lparr>dk_wal := dk_wal d @ take k (enc m)\<rparr> \<and>
          open_store dec d' = Inl InvalidUtf8)" if "d' \<in> set (crash_points enc it m (st, d))" for d'
    using crash_opens [OF l(2,4) assms(2,4,3) that] unfolding torn_in_char_def by blast
  with l show ?thesis by blast
qed

text \<open>
  C1. Replaying a log that a snapshot already contains changes nothing, as the comment of
  \<open>wal.rs\<close> claims: mutations are not only idempotent one by one, the whole list is, also
  when it deletes nodes under edges it inserted before.
\<close>

theorem replay_idempotent:
  "let st = fold apply_in_memory ms (fold apply_in_memory ls empty_store)
   in view (fold apply_in_memory ms st) = view st"
proof -
  let ?s0 = "fold apply_in_memory ls empty_store"
  have s0: "store_ok ?s0" using replay_ok_view [OF store_ok_empty] by blast
  note s1 = replay_ok_view [OF s0, of ms]
  note s2 = replay_ok_view [OF conjunct1 [OF s1], of ms]
  from s1 s2 replay_twice [of ms "view ?s0"] show ?thesis by (simp add: Let_def)
qed

lemma since_kept: "s_since (apply_in_memory m st) = s_since st"
proof -
  have re: "s_since (remove_edge i st) = s_since st" for i st by (auto simp: remove_edge_def split: option.split)
  have "s_since (fold remove_edge is st) = s_since st" for "is" st by (induction "is" arbitrary: st) (simp_all add: re)
  then show ?thesis
    by (cases m) (auto simp: put_node_def put_edge_def remove_node_def re Let_def split: option.split prod.split)
qed

lemma mutates_without_snapshot:
  "s_since st + length ms < snapshot_every \<Longrightarrow> store_ok st \<Longrightarrow>
     \<exists>st'. live enc dec it (map Mutate ms) (st, d) = Inr (st', d\<lparr>dk_wal := dk_wal d @ log_bytes enc ms\<rparr>) \<and>
       view st' = fold apply_graph ms (view st)"
proof (induction ms arbitrary: st d)
  case Nil
  then show ?case by simp
next
  case (Cons m ms)
  let ?st1 = "(apply_in_memory m st)\<lparr>s_since := s_since st + 1\<rparr>"
  have m: "mutate enc it m (st, d) = (?st1, append_wal enc m d)"
    using Cons.prems by (simp add: mutate_def maybe_snapshot_def Let_def since_kept)
  have "store_ok ?st1" "view ?st1 = apply_graph m (view st)" using apply_in_memory_ok_view [OF Cons.prems(2), of m] by simp_all
  with Cons.IH [of ?st1 "append_wal enc m d"] Cons.prems show ?case
    by (simp add: m append_wal_def)
qed

lemma lines_of_record: "newline_byte \<notin> set s \<Longrightarrow> byte_lines (s @ newline_byte # t) = s # byte_lines t"
  by (simp add: byte_lines_def Let_def split_on_record)

lemma dropWhile_none: "dropWhile P s = [] \<longleftrightarrow> (\<forall>c\<in>set s. P c)"
  by (induction s) auto

lemma trim_blank: "trim_bytes s = [] \<longleftrightarrow> (\<forall>c\<in>set s. ascii_ws c)"
proof -
  have "(\<forall>c\<in>set (dropWhile ascii_ws s). ascii_ws c) \<longleftrightarrow> (\<forall>c\<in>set s. ascii_ws c)"
    by (induction s) auto
  then show ?thesis by (simp add: trim_bytes_def dropWhile_none)
qed

lemma opened_since: "dk_snapshot d = None \<Longrightarrow> open_store dec d = Inr st \<Longrightarrow> s_since st = 0"
proof -
  have k: "s_since (fold apply_in_memory ms st) = s_since st" for ms st
    by (induction ms arbitrary: st) (simp_all add: since_kept)
  show "dk_snapshot d = None \<Longrightarrow> open_store dec d = Inr st \<Longrightarrow> s_since st = 0"
    by (auto simp: open_store_def load_snapshot_def k empty_store_def split: sum.splits)
qed

text \<open>
  A torn record is not cut off when the log is opened again: the next record is appended
  to it, the two are one line that does not parse, and everything after the tear is lost at
  the next restart although the running process shows it and its log holds it.
\<close>

theorem torn_record_loses_later:
  assumes "\<forall>x\<in>set (ms @ n # ns). record_ok enc dec x"
    and "d = \<lparr> dk_snapshot = None, dk_wal = log_bytes enc ms @ t \<rparr>"
    and "newline_byte \<notin> set t" and "utf8 t" and "dec (trim_bytes t) = None"
    and "utf8 (t @ enc n)" and "dec (trim_bytes (t @ enc n)) = None"
    and "length ns < 511"
  shows "\<exists>st st2 d2 st3. open_store dec d = Inr st \<and> view st = fold apply_graph ms empty_graph \<and>
    live enc dec it (map Mutate (n # ns)) (st, d) = Inr (st2, d2) \<and>
    view st2 = fold apply_graph (n # ns) (view st) \<and>
    open_store dec d2 = Inr st3 \<and> view st3 = view st"
proof -
  have ms: "\<forall>m\<in>set ms. record_ok enc dec m" and n: "record_ok enc dec n" using assms(1) by auto
  have d: "dk_wal d = log_bytes enc ms @ t" "dk_snapshot d = None" "load_snapshot d = empty_store"
    using assms(2) by (simp_all add: load_snapshot_def)
  have "read_records dec (byte_lines t) = Inr []" using assms(3,4,5) by (simp add: lines_of_tail)
  with read_wal_log [OF ms d(1)] have "read_wal dec d = Inr ms" by simp
  then have o1: "open_store dec d = Inr (fold apply_in_memory ms empty_store)" by (simp add: open_store_def d(3))
  let ?st = "fold apply_in_memory ms empty_store"
  have s: "store_ok ?st" "view ?st = fold apply_graph ms empty_graph"
    using replay_ok_view [OF store_ok_empty, of ms] view_empty by auto
  have "s_since ?st + length (n # ns) < snapshot_every"
    using opened_since [OF d(2) o1] assms(8) by (simp add: snapshot_every_def)
  from mutates_without_snapshot [OF this s(1), of enc dec it d] obtain st2 where st2:
    "live enc dec it (map Mutate (n # ns)) (?st, d) = Inr (st2, d\<lparr>dk_wal := dk_wal d @ log_bytes enc (n # ns)\<rparr>)"
    "view st2 = fold apply_graph (n # ns) (view ?st)" by blast
  let ?d2 = "d\<lparr>dk_wal := dk_wal d @ log_bytes enc (n # ns)\<rparr>"
  have w: "dk_wal ?d2 = log_bytes enc ms @ ((t @ enc n) @ newline_byte # log_bytes enc ns)" by (simp add: d(1))
  have nl: "newline_byte \<notin> set (t @ enc n)" using assms(3) n by (simp add: record_ok_def)
  have "trim_bytes (enc n) \<noteq> []" using n by (simp add: record_ok_def)
  then have "trim_bytes (t @ enc n) \<noteq> []" unfolding trim_blank by auto
  with assms(6,7) have "read_records dec (byte_lines ((t @ enc n) @ newline_byte # log_bytes enc ns)) = Inr []"
    by (simp only: lines_of_record [OF nl]) simp
  with read_wal_log [OF ms w] have "read_wal dec ?d2 = Inr ms" by simp
  then have "open_store dec ?d2 = Inr ?st" using d(2) by (simp add: open_store_def load_snapshot_def)
  with o1 s(2) st2 show ?thesis by blast
qed

text \<open>
  C1. A record torn inside a character is worse: opening the directory fails, although a torn
  last line is meant to be ignored. \<open>BufRead::lines\<close> reports a line that is not UTF-8 as an
  error, and \<open>read\<close> passes it on.
\<close>

theorem torn_char_blocks_open:
  assumes "\<forall>x\<in>set (mutations_of es). record_ok enc dec x" and "record_ok enc dec m" and "fair_iteration it"
    and "k < length (enc m)" and "\<not> utf8 (take k (enc m))"
  shows "\<exists>st d d'. live enc dec it es (empty_store, empty_disk) = Inr (st, d) \<and>
    d' \<in> set (crash_points enc it m (st, d)) \<and> open_store dec d' = Inl InvalidUtf8"
proof -
  obtain st d where l: "live enc dec it es (empty_store, empty_disk) = Inr (st, d)" "durable enc dec (view st) d"
    using live_durable [OF assms(1,3) store_ok_empty, of empty_disk] durable_start [of enc dec] view_empty by auto
  let ?d' = "d\<lparr>dk_wal := dk_wal d @ take k (enc m @ [newline_byte])\<rparr>"
  have d': "?d' \<in> set (crash_points enc it m (st, d))"
    using assms(4) by (simp add: crash_points_def del: upt_Suc take_append)
  have "open_store dec ?d' = Inl InvalidUtf8"
    using torn_char_open [OF l(2) assms(2,5,4)] assms(4) by (simp add: torn_in_char_def)
  with d' l(1) show ?thesis by blast
qed

section \<open>Witnesses\<close>

text \<open>A small codec: the name of the operation and the identifier, between braces.\<close>

definition small_enc :: "mutation \<Rightarrow> str" where
  "small_enc m = (case m of DeleteNode i \<Rightarrow> ''{n'' @ i @ ''}'' | DeleteEdge i \<Rightarrow> ''{e'' @ i @ ''}''
     | UpsertNode n \<Rightarrow> ''{N'' @ n_id n @ ''}'' | UpsertEdge e \<Rightarrow> ''{E'' @ e_id e @ ''}'')"

fun small_dec :: "str \<Rightarrow> mutation option" where
  "small_dec (a # k # r) =
     (if a \<noteq> CHR ''{'' \<or> r = [] \<or> last r \<noteq> CHR ''}'' \<or> CHR ''{'' \<in> set r then None
      else if k = CHR ''n'' then Some (DeleteNode (butlast r))
      else if k = CHR ''e'' then Some (DeleteEdge (butlast r))
      else if k = CHR ''N'' then Some (UpsertNode (new_node (butlast r))) else None)"
| "small_dec _ = None"

definition demo_iteration :: iteration where
  "demo_iteration = \<lparr> it_nodes = rev, it_edges = rev \<rparr>"

lemma demo_fair: "fair_iteration demo_iteration"
  by (simp add: fair_iteration_def demo_iteration_def)

abbreviation demo_add :: mutation where
  "demo_add \<equiv> UpsertNode (new_node ''a'')"

lemma demo_records:
  "record_ok small_enc small_dec demo_add" "record_ok small_enc small_dec (DeleteNode ''a'')"
  "torn_ok small_enc small_dec (DeleteNode ''a'')" "record_ok small_enc small_dec (DeleteNode [CHR 0xC3, CHR 0xA9])"
  by code_simp+

lemma demo_mutations: "mutations_of [Mutate demo_add, Reopen] = [demo_add]"
  by code_simp

theorem crash_recovery_witness:
  "\<exists>st d. live small_enc small_dec demo_iteration [Mutate demo_add, Reopen] (empty_store, empty_disk) = Inr (st, d) \<and>
    view st = fold apply_graph [demo_add] empty_graph \<and>
    (\<forall>d'\<in>set (crash_points small_enc demo_iteration (DeleteNode ''a'') (st, d)).
       \<exists>st'. open_store small_dec d' = Inr st' \<and> view st' \<in> {view st, apply_graph (DeleteNode ''a'') (view st)})"
proof -
  let ?e = "small_enc (DeleteNode ''a'')"
  have "list_all (byte_in 0 127) ?e" by code_simp
  then have "utf8 (take k ?e)" for k by (intro ascii_utf8) (auto simp: list_all_iff dest: in_set_takeD)
  moreover have "\<forall>x\<in>set (mutations_of [Mutate demo_add, Reopen]). record_ok small_enc small_dec x"
    by (simp add: demo_mutations demo_records)
  note crash_recovery [OF this demo_records(2,3) demo_fair]
  ultimately show ?thesis unfolding demo_mutations by blast
qed

theorem torn_record_loses_later_witness:
  "\<exists>st st2 d2 st3. open_store small_dec \<lparr> dk_snapshot = None, dk_wal = log_bytes small_enc [] @ ''{N'' \<rparr> = Inr st \<and>
    view st = fold apply_graph [] empty_graph \<and>
    live small_enc small_dec demo_iteration (map Mutate [demo_add])
      (st, \<lparr> dk_snapshot = None, dk_wal = log_bytes small_enc [] @ ''{N'' \<rparr>) = Inr (st2, d2) \<and>
    view st2 = fold apply_graph [demo_add] (view st) \<and>
    open_store small_dec d2 = Inr st3 \<and> view st3 = view st"
proof (rule torn_record_loses_later)
  show "utf8 ''{N''" "small_dec (trim_bytes ''{N'') = None" "utf8 (''{N'' @ small_enc demo_add)"
    "small_dec (trim_bytes (''{N'' @ small_enc demo_add)) = None" by code_simp+
qed (simp_all add: demo_records)

theorem torn_char_blocks_open_witness:
  "\<exists>st d d'. live small_enc small_dec demo_iteration [Mutate demo_add, Reopen] (empty_store, empty_disk) = Inr (st, d) \<and>
    d' \<in> set (crash_points small_enc demo_iteration (DeleteNode [CHR 0xC3, CHR 0xA9]) (st, d)) \<and>
    open_store small_dec d' = Inl InvalidUtf8"
proof (rule torn_char_blocks_open)
  show "3 < length (small_enc (DeleteNode [CHR 0xC3, CHR 0xA9]))" by code_simp
  show "\<not> utf8 (take 3 (small_enc (DeleteNode [CHR 0xC3, CHR 0xA9])))" by code_simp
qed (simp_all add: demo_mutations demo_records demo_fair)

end
