(* ===== verification/Egress_Proxy.thy ===== *)
theory Egress_Proxy
  imports Text_Bytes
begin

text \<open>
  \<open>crates/maturana-core/src/pipelock_proxy.rs\<close>: the egress proxy between the agents' VMs and
  the network. What one connection does is a trace of actions: answers to the client,
  connections it opens, bytes it sends there, audit records. The sockets, TLS, the vault
  and JSON are the environment.
\<close>

section \<open>Configuration\<close>

record injection =
  j_host :: str
  j_header :: str
  j_source :: str
  j_prefix :: "str option"

record proxy_config =
  p_allowlist :: "str list"
  p_allow_all :: bool
  p_injections :: "injection list"

datatype allow_source = FromSpec | FromRuntime | AllowAll | Denied

definition source_label :: "allow_source \<Rightarrow> str" where
  "source_label a = (case a of FromSpec \<Rightarrow> ''spec'' | FromRuntime \<Rightarrow> ''runtime'' | AllowAll \<Rightarrow> ''allow_all'' | Denied \<Rightarrow> ''denied'')"

record proxy_spec =
  y_enabled :: bool
  y_inject_headers :: "injection list"

record network_spec =
  w_proxy :: "proxy_spec option"
  w_egress_allowlist :: "str list"
  w_egress_allow_all :: bool
  w_mcp_egress_hosts :: "str list list"

datatype proxy_error =
    NoProxyDeclared | ProxyDisabled | BadInjection | BadInjectionSource
  | SocketError | HeadersTooLarge | EmptyRequest | NotUtf8 | MissingLine | MissingMethod | MissingTarget | MissingVersion
  | EmptyHost | IllegalHostChar | BadPort | NotHttpUrl | MissingTerminator | SecretMissing | HeaderControl
  | ConnectFailed | TlsFailed

definition from_spec :: "network_spec \<Rightarrow> proxy_error + proxy_config" where
  "from_spec w =
     (case w_proxy w of
        None \<Rightarrow> Inl NoProxyDeclared
      | Some y \<Rightarrow>
          if \<not> y_enabled y then Inl ProxyDisabled
          else Inr \<lparr> p_allowlist = fold (\<lambda>h as. if list_ex (\<lambda>a. eq_ignore_case a h) as then as else as @ [h])
                       (concat (w_mcp_egress_hosts w)) (w_egress_allowlist w),
                     p_allow_all = w_egress_allow_all w,
                     p_injections = map (\<lambda>j. \<lparr> j_host = to_ascii_lowercase (trim_text (j_host j)), j_header = trim_text (j_header j),
                       j_source = trim_text (j_source j), j_prefix = j_prefix j \<rparr>) (y_inject_headers y) \<rparr>)"

definition parse_injection :: "str \<Rightarrow> proxy_error + injection" where
  "parse_injection raw =
     (case split_once CHR '':'' raw of
        None \<Rightarrow> Inl BadInjection
      | Some (host, rest) \<Rightarrow>
          (case split_once CHR ''='' rest of
             None \<Rightarrow> Inl BadInjection
           | Some (header, source) \<Rightarrow>
               if trim_text host = [] \<or> trim_text header = [] \<or> trim_text source = [] then Inl BadInjection
               else if \<not> prefix ''pipelock:'' source then Inl BadInjectionSource
               else Inr \<lparr> j_host = to_ascii_lowercase (trim_text host), j_header = trim_text header,
                          j_source = trim_text source, j_prefix = None \<rparr>))"

section \<open>Which hosts are allowed\<close>

definition normalize_host_str :: "str \<Rightarrow> str" where
  "normalize_host_str raw = to_ascii_lowercase (trim_end_with (\<lambda>c. c = CHR ''.'') (trim_text raw))"

definition illegal_char :: "str \<Rightarrow> bool" where
  "illegal_char c \<longleftrightarrow> blank_char c \<or> control_char c \<or> c \<in> {''@'', ''#'', ''/'', [CHR 0x5C]}"

definition normalize_host :: "str \<Rightarrow> proxy_error + str" where
  "normalize_host raw =
     (let host = normalize_host_str raw
      in if host = [] then Inl EmptyHost
         else if list_ex illegal_char (chars_of host) then Inl IllegalHostChar
         else Inr host)"

definition host_allowed :: "str \<Rightarrow> str list \<Rightarrow> bool" where
  "host_allowed host allowlist =
     list_ex (\<lambda>a. let n = normalize_host_str a in host = n \<or> suffix (CHR ''.'' # n) host) allowlist"

text \<open>The live grants are read from a shared vector: an argument.\<close>

definition classify_host :: "proxy_config \<Rightarrow> str list \<Rightarrow> str \<Rightarrow> allow_source" where
  "classify_host cfg grants host =
     (if p_allow_all cfg \<or> list_ex (\<lambda>h. trim_text h = ''*'') (p_allowlist cfg) then AllowAll
      else if host_allowed host (p_allowlist cfg) then FromSpec
      else if list_ex (\<lambda>h. trim_text h = ''*'') grants then AllowAll
      else if host_allowed host grants then FromRuntime
      else Denied)"

section \<open>Reading a request\<close>

text \<open>What a read from a socket gives; an empty read is the end of the stream.\<close>

datatype read_result = Data str | CutOff | ReadFailed

definition head_end :: str where
  "head_end = [return_byte, newline_byte, return_byte, newline_byte]"

fun read_loop :: "str \<Rightarrow> read_result list \<Rightarrow> proxy_error + str" where
  "read_loop data [] = Inr data"
| "read_loop data (Data c # rs) =
     (if c = [] then Inr data
      else let d = data @ c
        in if contains head_end d then Inr d
           else if 65536 < length d then Inl HeadersTooLarge
           else read_loop d rs)"
| "read_loop data (CutOff # rs) = Inl SocketError"
| "read_loop data (ReadFailed # rs) = Inl SocketError"

definition read_http_request :: "read_result list \<Rightarrow> proxy_error + str" where
  "read_http_request rs = bind_result (read_loop [] rs) (\<lambda>d. if d = [] then Inl EmptyRequest else Inr d)"

record parsed_request =
  r_method :: str
  r_target :: str
  r_host :: str
  r_port :: "16 word"
  r_path :: str
  r_version :: str

text \<open>The first three words of the first line.\<close>

definition request_line :: "str \<Rightarrow> proxy_error + str \<times> str \<times> str" where
  "request_line request =
     (if \<not> utf8 request then Inl NotUtf8
      else case text_lines request of
        [] \<Rightarrow> Inl MissingLine
      | l # _ \<Rightarrow> (case split_whitespace l of
            [] \<Rightarrow> Inl MissingMethod
          | [_] \<Rightarrow> Inl MissingTarget
          | [_, _] \<Rightarrow> Inl MissingVersion
          | m # t # v # _ \<Rightarrow> Inr (m, t, v)))"

definition parse_u16 :: "str \<Rightarrow> proxy_error + 16 word" where
  "parse_u16 s = (case parse_nat_below 65536 s of None \<Rightarrow> Inl BadPort | Some n \<Rightarrow> Inr (of_nat n))"

definition host_and_port :: "str \<Rightarrow> 16 word \<Rightarrow> proxy_error + str \<times> 16 word" where
  "host_and_port authority default_port =
     (let plain = bind_result (normalize_host authority) (\<lambda>h. Inr (h, default_port))
      in case rsplit_once CHR '':'' authority of
        Some (host, port) \<Rightarrow>
          if list_all is_digit port
          then bind_result (normalize_host host) (\<lambda>h. bind_result (parse_u16 port) (\<lambda>p. Inr (h, p)))
          else plain
      | None \<Rightarrow> plain)"

definition is_connect :: "str \<Rightarrow> bool" where
  "is_connect m = eq_ignore_case m ''CONNECT''"

definition slash_path :: "(str \<times> str) option \<Rightarrow> str" where
  "slash_path sp = (case sp of Some (_, path) \<Rightarrow> CHR ''/'' # path | None \<Rightarrow> ''/'')"

definition parse_proxy_request :: "str \<Rightarrow> proxy_error + parsed_request" where
  "parse_proxy_request request =
     bind_result (request_line request) (\<lambda>(m, t, v).
       if is_connect m then
         bind_result (host_and_port t 443) (\<lambda>(h, p).
           Inr \<lparr> r_method = m, r_target = t, r_host = h, r_port = p, r_path = t, r_version = v \<rparr>)
       else (case strip_prefix ''http://'' t of
           None \<Rightarrow> Inl NotHttpUrl
         | Some rest \<Rightarrow>
             (let sp = split_once CHR ''/'' rest;
                  authority = (case sp of Some (a, _) \<Rightarrow> a | None \<Rightarrow> rest)
              in bind_result (host_and_port authority 80) (\<lambda>(h, p).
                   Inr \<lparr> r_method = m, r_target = t, r_host = h, r_port = p, r_path = slash_path sp, r_version = v \<rparr>))))"

definition parse_mitm_http_request :: "parsed_request \<Rightarrow> str \<Rightarrow> proxy_error + parsed_request" where
  "parse_mitm_http_request connect request =
     bind_result (request_line request) (\<lambda>(m, t, v).
       (let path = (case strip_prefix ''https://'' t of
              Some rest \<Rightarrow> slash_path (split_once CHR ''/'' rest)
            | None \<Rightarrow> t)
        in Inr \<lparr> r_method = m, r_target = ''https://'' @ r_host connect @ path, r_host = r_host connect,
                 r_port = r_port connect, r_path = path, r_version = v \<rparr>))"

section \<open>Injecting headers\<close>

definition has_injections :: "str \<Rightarrow> proxy_config \<Rightarrow> bool" where
  "has_injections host cfg = list_ex (\<lambda>j. j_host j = host) (p_injections cfg)"

definition is_header_control :: "char \<Rightarrow> bool" where
  "is_header_control c \<longleftrightarrow> c = return_byte \<or> c = newline_byte \<or> c = CHR 0x00"

fun collect_headers :: "(str \<Rightarrow> str option) \<Rightarrow> str \<Rightarrow> injection list \<Rightarrow> proxy_error + (str \<times> str) list" where
  "collect_headers secret host [] = Inr []"
| "collect_headers secret host (j # js) =
     (if j_host j \<noteq> host then collect_headers secret host js
      else case secret (j_source j) of
        None \<Rightarrow> Inl SecretMissing
      | Some s \<Rightarrow>
          (let value = (case j_prefix j of Some p \<Rightarrow> p @ s | None \<Rightarrow> s)
           in if list_ex is_header_control (j_header j) \<or> list_ex is_header_control value then Inl HeaderControl
              else bind_result (collect_headers secret host js) (\<lambda>hs. Inr ((j_header j, value) # hs))))"

definition injected_headers :: "(str \<Rightarrow> str option) \<Rightarrow> str \<Rightarrow> proxy_config \<Rightarrow> proxy_error + (str \<times> str) list" where
  "injected_headers secret host cfg = collect_headers secret host (p_injections cfg)"

definition crlf :: str where
  "crlf = [return_byte, newline_byte]"

definition dropped_header :: "(str \<times> str) list \<Rightarrow> str \<Rightarrow> bool" where
  "dropped_header injected line =
     (let lower = to_ascii_lowercase line
      in list_ex (\<lambda>p. prefix p lower) [''proxy-connection:'', ''connection:'', ''host:'', ''transfer-encoding:'']
         \<or> list_ex (\<lambda>(h, _). prefix (to_ascii_lowercase h @ '':'') lower) injected)"

definition build_upstream_request :: "parsed_request \<Rightarrow> str \<Rightarrow> (str \<times> str) list \<Rightarrow> proxy_error + str" where
  "build_upstream_request p raw injected =
     (if \<not> utf8 raw then Inl NotUtf8
      else case split_at_sub head_end raw of
        None \<Rightarrow> Inl MissingTerminator
      | Some (headers, body) \<Rightarrow> Inr (
          r_method p @ '' '' @ r_path p @ '' '' @ r_version p @ crlf @
          concat (map (\<lambda>l. l @ crlf) (filter (\<lambda>l. l \<noteq> [] \<and> \<not> dropped_header injected l) (drop 1 (text_lines headers)))) @
          ''Host: '' @ r_host p @ crlf @
          ''Connection: close'' @ crlf @
          concat (map (\<lambda>(h, v). h @ '': '' @ v @ crlf) injected) @
          crlf @ body))"

section \<open>One connection\<close>

record audit_event =
  a_allowed :: bool
  a_method :: str
  a_host :: str
  a_port :: "16 word"
  a_target :: str
  a_injected :: nat
  a_tls :: bool
  a_bytes :: nat
  a_reason :: "str option"
  a_source :: str

definition audit_allowed :: "parsed_request \<Rightarrow> nat \<Rightarrow> nat \<Rightarrow> bool \<Rightarrow> str \<Rightarrow> audit_event" where
  "audit_allowed p injected bytes tls src = \<lparr> a_allowed = True, a_method = r_method p, a_host = r_host p, a_port = r_port p,
     a_target = r_target p, a_injected = injected, a_tls = tls, a_bytes = bytes, a_reason = None, a_source = src \<rparr>"

definition audit_denied :: "parsed_request \<Rightarrow> str \<Rightarrow> audit_event" where
  "audit_denied p reason = \<lparr> a_allowed = False, a_method = r_method p, a_host = r_host p, a_port = r_port p,
     a_target = r_target p, a_injected = 0, a_tls = False, a_bytes = 0, a_reason = Some reason, a_source = ''denied'' \<rparr>"

definition audit_denied_raw :: "str \<Rightarrow> audit_event" where
  "audit_denied_raw reason = \<lparr> a_allowed = False, a_method = [], a_host = [], a_port = 0,
     a_target = [], a_injected = 0, a_tls = False, a_bytes = 0, a_reason = Some reason, a_source = ''denied'' \<rparr>"

datatype action = Respond str | Dial str "16 word" | Forward str | Audit audit_event

text \<open>
  What the world does to a connection: what the client sends (in clear, and inside the
  intercepted TLS session), whether it takes the first answer, whether the upstream can be
  reached and takes the request, the TLS set-up on either side, the reply (with whether the
  client takes each part of it), and the two directions of a tunnel with whether the copy
  ended without an error.
\<close>

record connection =
  e_request :: "read_result list"
  e_tls_request :: "read_result list"
  e_client_takes :: bool
  e_reachable :: bool
  e_upstream_takes :: bool
  e_server_tls :: bool
  e_client_tls :: bool
  e_reply :: "(read_result \<times> bool) list"
  e_tunnel_up :: "str \<times> bool"
  e_tunnel_down :: "str \<times> bool"

type_synonym 'a effect = "action list \<times> (proxy_error + 'a)"

definition fail_with :: "proxy_error \<Rightarrow> 'a effect" where
  "fail_with e = ([], Inl e)"

definition after :: "action list \<Rightarrow> 'a effect \<Rightarrow> 'a effect" where
  "after as r = (as @ fst r, snd r)"

definition attempt :: "proxy_error + 'a \<Rightarrow> ('a \<Rightarrow> 'b effect) \<Rightarrow> 'b effect" where
  "attempt r k = (case r of Inl e \<Rightarrow> fail_with e | Inr a \<Rightarrow> k a)"

definition need :: "bool \<Rightarrow> proxy_error \<Rightarrow> 'a effect \<Rightarrow> 'a effect" where
  "need ok e r = (if ok then r else fail_with e)"

text \<open>The relay loops: the plain one stops at every error, the TLS one takes a cut as the end.\<close>

fun relay :: "bool \<Rightarrow> nat \<Rightarrow> (read_result \<times> bool) list \<Rightarrow> nat effect" where
  "relay tls sent [] = ([], Inr sent)"
| "relay tls sent ((Data c, taken) # rs) =
     (if c = [] then ([], Inr sent)
      else need taken SocketError (after [Respond c] (relay tls (sent + length c) rs)))"
| "relay tls sent ((CutOff, taken) # rs) = (if tls then ([], Inr sent) else fail_with SocketError)"
| "relay tls sent ((ReadFailed, taken) # rs) = fail_with SocketError"

definition relay_and_audit ::
    "proxy_config \<Rightarrow> str list \<Rightarrow> connection \<Rightarrow> bool \<Rightarrow> parsed_request \<Rightarrow> nat \<Rightarrow> unit effect" where
  "relay_and_audit cfg grants c tls p injected =
     (let r = relay tls 0 (e_reply c)
      in after (fst r) (attempt (snd r) (\<lambda>sent.
           ([Audit (audit_allowed p injected sent tls (source_label (classify_host cfg grants (r_host p))))], Inr ()))))"

definition established :: str where
  "established = ''HTTP/1.1 200 Connection Established'' @ crlf @ crlf"

definition copied :: "str \<times> bool \<Rightarrow> nat" where
  "copied d = (if snd d then length (fst d) else 0)"

text \<open>The grants are those at the end of the exchange; a tunnel is two copies side by side.\<close>

definition handle_connect :: "proxy_config \<Rightarrow> str list \<Rightarrow> connection \<Rightarrow> parsed_request \<Rightarrow> unit effect" where
  "handle_connect cfg grants c p =
     after [Dial (r_host p) (r_port p)]
     (need (e_reachable c) ConnectFailed
     (need (e_client_takes c) SocketError
     (after [Respond established, Forward (fst (e_tunnel_up c)), Respond (fst (e_tunnel_down c))]
     ([Audit (audit_allowed p 0 (copied (e_tunnel_down c) + copied (e_tunnel_up c)) False
         (source_label (classify_host cfg grants (r_host p))))], Inr ()))))"

definition handle_mitm_connect ::
    "proxy_config \<Rightarrow> (str \<Rightarrow> str option) \<Rightarrow> str list \<Rightarrow> connection \<Rightarrow> parsed_request \<Rightarrow> unit effect" where
  "handle_mitm_connect cfg secret grants c p =
     need (e_client_takes c) SocketError
     (after [Respond established]
     (need (e_server_tls c) TlsFailed
     (after [Dial (r_host p) (r_port p)]
     (need (e_reachable c) ConnectFailed
     (need (e_client_tls c) TlsFailed
     (attempt (read_http_request (e_tls_request c)) (\<lambda>request.
      attempt (parse_mitm_http_request p request) (\<lambda>q.
      attempt (injected_headers secret (r_host q) cfg) (\<lambda>injected.
      attempt (build_upstream_request q request injected) (\<lambda>out.
      need (e_upstream_takes c) SocketError
      (after [Forward out]
      (relay_and_audit cfg grants c True q (length injected)))))))))))))"

definition refusal :: str where
  "refusal = ''HTTP/1.1 403 forbidden'' @ crlf @ ''content-length: 9'' @ crlf @ ''connection: close'' @ crlf @ crlf @ ''forbidden''"

text \<open>Grants at the decision, and at the time of the audit record.\<close>

definition handle_proxy_stream ::
    "proxy_config \<Rightarrow> (str \<Rightarrow> str option) \<Rightarrow> str list \<Rightarrow> str list \<Rightarrow> connection \<Rightarrow> unit effect" where
  "handle_proxy_stream cfg secret grants grants' c =
     attempt (read_http_request (e_request c)) (\<lambda>request.
     attempt (parse_proxy_request request) (\<lambda>p.
       if classify_host cfg grants (r_host p) = Denied
       then need (e_client_takes c) SocketError ([Respond refusal, Audit (audit_denied p ''host not allowed'')], Inr ())
       else if is_connect (r_method p)
       then (if has_injections (r_host p) cfg then handle_mitm_connect cfg secret grants' c p else handle_connect cfg grants' c p)
       else
         attempt (injected_headers secret (r_host p) cfg) (\<lambda>injected.
         attempt (build_upstream_request p request injected) (\<lambda>out.
         after [Dial (r_host p) (r_port p)]
         (need (e_reachable c) ConnectFailed
         (need (e_upstream_takes c) SocketError
         (after [Forward out]
         (relay_and_audit cfg grants' c False p (length injected)))))))))"

text \<open>The thread of \<open>run_proxy\<close>: a failure is audited as a refusal without a host.\<close>

definition serve_connection ::
    "(proxy_error \<Rightarrow> str) \<Rightarrow> proxy_config \<Rightarrow> (str \<Rightarrow> str option) \<Rightarrow> str list \<Rightarrow> str list \<Rightarrow> connection \<Rightarrow> action list" where
  "serve_connection msg cfg secret grants grants' c =
     (case handle_proxy_stream cfg secret grants grants' c of
        (t, Inr _) \<Rightarrow> t
      | (t, Inl e) \<Rightarrow> t @ [Audit (audit_denied_raw (msg e))])"

section \<open>Live grants\<close>

text \<open>
  \<open>load_runtime_allow\<close>: no file, or no array of strings, is no grant. The watcher compares
  modification times; a file is its time and text.
\<close>

type_synonym allow_file = "(timestamp \<times> str) option"

definition load_runtime_allow :: "(str \<Rightarrow> str list option) \<Rightarrow> allow_file \<Rightarrow> str list" where
  "load_runtime_allow json f =
     (case f of None \<Rightarrow> [] | Some (_, text) \<Rightarrow> (case json text of None \<Rightarrow> [] | Some hs \<Rightarrow> hs))"

record watcher =
  v_last :: "timestamp option"
  v_grants :: "str list"

text \<open>One second later: \<open>f\<close> is the file when its time is read, \<open>f'\<close> when its text is.\<close>

definition watch_tick :: "(str \<Rightarrow> str list option) \<Rightarrow> allow_file \<times> allow_file \<Rightarrow> watcher \<Rightarrow> watcher" where
  "watch_tick json ff v = (case ff of (f, f') \<Rightarrow>
     if map_option fst f \<noteq> v_last v
     then \<lparr> v_last = map_option fst f, v_grants = load_runtime_allow json f' \<rparr> else v)"

text \<open>\<open>run_proxy\<close> loads the file, then starts the watcher, which first reads its time.\<close>

definition start_watcher :: "(str \<Rightarrow> str list option) \<Rightarrow> allow_file \<Rightarrow> allow_file \<Rightarrow> watcher" where
  "start_watcher json loaded seen = \<lparr> v_last = map_option fst seen, v_grants = load_runtime_allow json loaded \<rparr>"

section \<open>Allowlist entries are domains\<close>

lemma suffix_labels: "suffix (split_on d n) (split_on d h) \<longleftrightarrow> h = n \<or> suffix (d # n) h"
proof
  assume "suffix (split_on d n) (split_on d h)"
  then obtain zs where zs: "split_on d h = zs @ split_on d n" by (auto simp: suffix_def)
  show "h = n \<or> suffix (d # n) h"
  proof (cases "zs = []")
    case True
    with zs have "join [d] (split_on d h) = join [d] (split_on d n)" by simp
    then show ?thesis by simp
  next
    case False
    with zs have "join [d] (split_on d h) = join [d] zs @ [d] @ join [d] (split_on d n)" by (simp add: join_append)
    then show ?thesis by (simp add: suffix_def)
  qed
next
  assume "h = n \<or> suffix (d # n) h"
  then show "suffix (split_on d n) (split_on d h)"
    by (auto simp: suffix_def split_on_append)
qed

lemma lower_char_dot [simp]: "lower_char c = CHR ''.'' \<longleftrightarrow> c = CHR ''.''"
proof -
  have "of_char c + 32 < (256::nat)" if "is_ascii_upper c"
    using that by (auto simp: is_ascii_upper_def Let_def)
  then have "of_char (lower_char c) = (if is_ascii_upper c then of_char c + 32 else of_char c :: nat)"
    by (simp add: lower_char_def)
  then show ?thesis
    by (cases "is_ascii_upper c") (auto simp: is_ascii_upper_def Let_def lower_char_def dest: arg_cong [of _ _ "of_char :: char \<Rightarrow> nat"])
qed

lemma last_trim_end: "trim_end_with p s \<noteq> [] \<Longrightarrow> \<not> p (last (trim_end_with p s))"
  using hd_dropWhile [of p "rev s"] by (simp add: trim_end_with_def last_rev)

lemma normalized_last: "normalize_host_str raw \<noteq> [] \<Longrightarrow> last (normalize_host_str raw) \<noteq> CHR ''.''"
  using last_trim_end [of "\<lambda>c. c = CHR ''.''" "trim_text raw"]
  by (auto simp: normalize_host_str_def to_ascii_lowercase_def last_map)

lemma normalize_host_Inr: "normalize_host raw = Inr h \<longleftrightarrow>
    h = normalize_host_str raw \<and> h \<noteq> [] \<and> \<not> list_ex illegal_char (chars_of h)"
  by (auto simp: normalize_host_def Let_def)

section \<open>What one connection may do\<close>

lemma effect_simps [simp]:
  "fst (fail_with e) = []" "snd (fail_with e) = Inl e"
  "fst (after as r) = as @ fst r" "snd (after as r) = snd r"
  "attempt (Inl e) k = fail_with e" "attempt (Inr a) k = k a"
  "need True e r = r" "need False e r = fail_with e"
  by (simp_all add: fail_with_def after_def attempt_def need_def)

fun outward :: "action \<Rightarrow> bool" where
  "outward (Dial h q) = True"
| "outward (Forward b) = True"
| "outward _ = False"

text \<open>Nothing leaves before the one connection, which goes to \<open>h\<close> and \<open>q\<close>.\<close>

fun only_to :: "str \<Rightarrow> 16 word \<Rightarrow> action list \<Rightarrow> bool" where
  "only_to h q [] = True"
| "only_to h q (Dial h' q' # as) = (h' = h \<and> q' = q \<and> (\<forall>a\<in>set as. \<forall>x y. a \<noteq> Dial x y))"
| "only_to h q (Forward b # as) = False"
| "only_to h q (_ # as) = only_to h q as"

definition requested :: "connection \<Rightarrow> parsed_request option" where
  "requested c = (case bind_result (read_http_request (e_request c)) parse_proxy_request of Inl _ \<Rightarrow> None | Inr p \<Rightarrow> Some p)"

lemma relay_actions: "a \<in> set (fst (relay tls n rs)) \<Longrightarrow> \<exists>b. a = Respond b"
proof (induction tls n rs rule: relay.induct)
  case (2 tls sent c taken rs)
  then show ?case by (cases "c = []"; cases taken) auto
qed (auto split: if_splits)

lemma relay_and_audit_actions:
  "a \<in> set (fst (relay_and_audit cfg g c tls p n)) \<Longrightarrow> (\<exists>b. a = Respond b) \<or> (\<exists>e. a = Audit e)"
  by (cases "snd (relay tls 0 (e_reply c))") (auto simp: relay_and_audit_def Let_def dest: relay_actions)

lemma only_to_quiet: "(\<forall>a\<in>set as. \<not> outward a) \<Longrightarrow> only_to h q as"
  by (induction h q as rule: only_to.induct) auto

lemma only_to_snoc: "only_to h q as \<Longrightarrow> only_to h q (as @ [Audit e])"
  by (induction h q as rule: only_to.induct) auto

lemma relay_no_dial: "Dial x y \<notin> set (fst (relay_and_audit cfg g c tls p n))"
  using relay_and_audit_actions by fastforce

lemma connect_only: "only_to (r_host p) (r_port p) (fst (handle_connect cfg g c p))"
  by (cases "e_reachable c"; cases "e_client_takes c") (auto simp: handle_connect_def)

lemma mitm_only: "only_to (r_host p) (r_port p) (fst (handle_mitm_connect cfg secret g c p))"
proof -
  have parsed: "parse_mitm_http_request p r = Inr q \<Longrightarrow> r_host q = r_host p" for r q
    by (auto simp: parse_mitm_http_request_def bind_result_Inr Let_def)
  show ?thesis
    by (auto simp: handle_mitm_connect_def need_def attempt_def fail_with_def after_def relay_no_dial split: sum.splits)
qed

lemma stream_only:
  "(\<forall>a\<in>set (fst (handle_proxy_stream cfg secret g g' c)). \<not> outward a) \<or>
   (\<exists>p. requested c = Some p \<and> classify_host cfg g (r_host p) \<noteq> Denied \<and>
      only_to (r_host p) (r_port p) (fst (handle_proxy_stream cfg secret g g' c)))"
proof -
  obtain r where r: "bind_result (read_http_request (e_request c)) parse_proxy_request = r" by simp
  show ?thesis
  proof (cases r)
    case (Inl e)
    with r have "fst (handle_proxy_stream cfg secret g g' c) = []"
      by (cases "read_http_request (e_request c)") (auto simp: handle_proxy_stream_def)
    then show ?thesis by simp
  next
    case (Inr p)
    with r obtain d where d: "read_http_request (e_request c) = Inr d" "parse_proxy_request d = Inr p"
      by (auto simp: bind_result_Inr)
    have q: "requested c = Some p" using r Inr by (simp add: requested_def)
    show ?thesis
    proof (cases "classify_host cfg g (r_host p) = Denied")
      case True
      with d show ?thesis by (auto simp: handle_proxy_stream_def need_def)
    next
      case False
      have "only_to (r_host p) (r_port p) (fst (handle_proxy_stream cfg secret g g' c))"
        using d False connect_only mitm_only
        by (auto simp: handle_proxy_stream_def need_def attempt_def fail_with_def after_def relay_no_dial split: sum.splits)
      with q False show ?thesis by blast
    qed
  qed
qed

section \<open>The request that is sent on\<close>

lemma find_end_line: "newline_byte \<notin> set l \<Longrightarrow>
   find_sub head_end (l @ crlf @ t) = (if prefix crlf t then Some (length l) else map_option (\<lambda>n. length l + 2 + n) (find_sub head_end t))"
proof (induction l)
  case Nil
  have "\<not> prefix head_end (newline_byte # t)" by (simp add: head_end_def)
  then show ?case
    by (cases "find_sub head_end t") (auto simp: crlf_def head_end_def)
next
  case (Cons a l)
  have "\<not> prefix head_end (a # l @ crlf @ t)"
    using Cons.prems by (cases l) (auto simp: head_end_def crlf_def)
  with Cons show ?case by (auto simp: option.map_comp comp_def)
qed

lemma not_line_start: "l \<noteq> [] \<Longrightarrow> newline_byte \<notin> set l \<Longrightarrow> \<not> prefix crlf (l @ crlf @ t)"
  by (cases l rule: remdups_adj.cases) (auto simp: crlf_def)

text \<open>The head of a request is its lines, up to the first empty one.\<close>

lemma split_head:
  assumes "ls \<noteq> []" and "\<forall>l\<in>set ls. l \<noteq> [] \<and> newline_byte \<notin> set l"
  shows "split_at_sub head_end (concat (map (\<lambda>l. l @ crlf) ls) @ crlf @ b) = Some (join crlf ls, b)"
proof -
  have len: "length crlf = 2" "length head_end = 4" by (simp_all add: crlf_def head_end_def)
  have cj: "ls \<noteq> [] \<Longrightarrow> concat (map (\<lambda>l. l @ crlf) ls) = join crlf ls @ crlf" for ls
    by (induction crlf ls rule: join.induct) simp_all
  from assms have "find_sub head_end (concat (map (\<lambda>l. l @ crlf) ls) @ crlf @ b) = Some (length (join crlf ls))"
  proof (induction ls)
    case (Cons l ls)
    show ?case
    proof (cases ls)
      case Nil
      with Cons.prems show ?thesis using find_end_line [of l "crlf @ b"] by simp
    next
      case (Cons k ks)
      with Cons.prems Cons.IH have "find_sub head_end (concat (map (\<lambda>l. l @ crlf) ls) @ crlf @ b) = Some (length (join crlf ls))"
        "\<not> prefix crlf (concat (map (\<lambda>l. l @ crlf) ls) @ crlf @ b)"
        using not_line_start [of k] by simp_all
      with Cons.prems Cons find_end_line [of l "concat (map (\<lambda>l. l @ crlf) ls) @ crlf @ b"] len show ?thesis by simp
    qed
  qed simp
  then have "find_sub head_end ((join crlf ls @ crlf) @ crlf @ b) = Some (length (join crlf ls))"
    by (simp only: cj [OF assms(1)])
  then show ?thesis by (simp add: split_at_sub_def cj [OF assms(1)] len)
qed

lemma text_lines_join:
  assumes "ls \<noteq> []" and "\<forall>l\<in>set ls. newline_byte \<notin> set l" and "last ls \<noteq> []"
  shows "text_lines (join crlf ls) = ls"
proof -
  have "split_on newline_byte (join crlf ls) = map (\<lambda>l. l @ [return_byte]) (butlast ls) @ [last ls]"
    using assms(1,2)
  proof (induction ls)
    case (Cons l ls)
    show ?case
    proof (cases ls)
      case Nil
      with Cons.prems show ?thesis by (simp add: split_on_plain)
    next
      case c: (Cons k ks)
      with Cons.prems have "newline_byte \<notin> set (l @ [return_byte])" by simp
      from split_on_record [OF this, of "join crlf ls"] Cons.IH Cons.prems c show ?thesis by (simp add: crlf_def)
    qed
  qed simp
  with assms(1,3) show ?thesis
    by (simp add: text_lines_def Let_def strip_return_def comp_def)
qed

definition clean_request :: "parsed_request \<Rightarrow> bool" where
  "clean_request p \<longleftrightarrow> newline_byte \<notin> set (r_method p) \<union> set (r_path p) \<union> set (r_version p) \<union> set (r_host p)"

lemma request_line_clean: "request_line raw = Inr (m, t, v) \<Longrightarrow> newline_byte \<notin> set m \<union> set t \<union> set v"
proof -
  assume "request_line raw = Inr (m, t, v)"
  then obtain l r where "split_whitespace l = m # t # v # r"
    by (auto simp: request_line_def split: if_splits list.splits)
  then have "m \<in> set (split_whitespace l)" "t \<in> set (split_whitespace l)" "v \<in> set (split_whitespace l)" by simp_all
  then show ?thesis using word_no_newline by blast
qed

lemma split_once_sub: "split_once c s = Some (a, b) \<Longrightarrow> set a \<subseteq> set s \<and> set b \<subseteq> set s"
  using split_once_Some by fastforce

lemma slash_path_no_newline: "newline_byte \<notin> set s \<Longrightarrow> newline_byte \<notin> set (slash_path (split_once c s))"
proof -
  assume "newline_byte \<notin> set s"
  moreover have "set (slash_path (split_once c s)) \<subseteq> insert CHR ''/'' (set s)"
    using split_once_sub [of c s] by (auto simp: slash_path_def split: option.split)
  ultimately show ?thesis by auto
qed

lemma normalized_no_newline: "normalize_host raw = Inr h \<Longrightarrow> newline_byte \<notin> set h"
proof
  assume "normalize_host raw = Inr h" and n: "newline_byte \<in> set h"
  then have h: "\<not> list_ex illegal_char (chars_of h)" unfolding normalize_host_Inr by blast
  have "newline_byte \<in> set (concat (chars_of h))" using n by (simp only: concat_chars_of)
  then obtain c where c: "c \<in> set (chars_of h)" "newline_byte \<in> set c" by (auto simp del: concat_chars_of)
  then have "c = [newline_byte]" by (rule chars_of_ascii) (simp add: byte_in_def)
  then have "illegal_char c" by (simp add: illegal_char_def blank_char_def)
  with c(1) h show False by (auto simp: list_ex_iff)
qed

lemma host_and_port_clean: "host_and_port a d = Inr (h, p) \<Longrightarrow> newline_byte \<notin> set h"
  unfolding host_and_port_def Let_def
  by (auto simp: bind_result_Inr normalized_no_newline split: option.splits if_splits)

lemma parse_proxy_clean: "parse_proxy_request raw = Inr p \<Longrightarrow> clean_request p"
proof -
  assume "parse_proxy_request raw = Inr p"
  then obtain m t v where l: "request_line raw = Inr (m, t, v)" and p: "parse_proxy_request raw = Inr p"
    by (auto simp: parse_proxy_request_def bind_result_Inr)
  note c = request_line_clean [OF l]
  show ?thesis
  proof (cases "is_connect m")
    case True
    with l p c show ?thesis
      by (auto simp: parse_proxy_request_def bind_result_Inr clean_request_def dest: host_and_port_clean)
  next
    case False
    with l p obtain rest where r: "strip_prefix ''http://'' t = Some rest"
      by (auto simp: parse_proxy_request_def bind_result_Inr split: option.splits)
    then have "set rest \<subseteq> set t" by (auto simp: strip_prefix_def split: if_splits dest: in_set_dropD)
    with c slash_path_no_newline [of rest] have "newline_byte \<notin> set (slash_path (split_once CHR ''/'' rest))" by blast
    with False l p c r show ?thesis
      by (auto simp: parse_proxy_request_def bind_result_Inr clean_request_def Let_def dest: host_and_port_clean)
  qed
qed

lemma parse_mitm_clean: "newline_byte \<notin> set (r_host c) \<Longrightarrow> parse_mitm_http_request c raw = Inr p \<Longrightarrow> clean_request p"
proof -
  assume h: "newline_byte \<notin> set (r_host c)" and p: "parse_mitm_http_request c raw = Inr p"
  then obtain m t v where l: "request_line raw = Inr (m, t, v)"
    by (auto simp: parse_mitm_http_request_def bind_result_Inr)
  note cl = request_line_clean [OF l]
  have "newline_byte \<notin> set (slash_path (split_once CHR ''/'' rest))" if "strip_prefix ''https://'' t = Some rest" for rest
  proof -
    have "set rest \<subseteq> set t" using that by (auto simp: strip_prefix_def split: if_splits dest: in_set_dropD)
    with cl slash_path_no_newline [of rest] show ?thesis by blast
  qed
  with h l p cl show ?thesis
    by (auto simp: parse_mitm_http_request_def bind_result_Inr clean_request_def Let_def split: option.splits)
qed

lemma collect_clean: "collect_headers secret host js = Inr hs \<Longrightarrow> \<forall>(k, v)\<in>set hs. newline_byte \<notin> set k \<union> set v"
proof (induction js arbitrary: hs)
  case (Cons j js)
  show ?case
  proof (cases "j_host j = host")
    case False
    with Cons show ?thesis by simp
  next
    case True
    then obtain x where x: "secret (j_source j) = Some x" using Cons.prems by (auto split: option.splits)
    obtain v where v: "v = (case j_prefix j of Some p \<Rightarrow> p @ x | None \<Rightarrow> x)" by simp
    from True x v Cons.prems have n: "\<not> list_ex is_header_control (j_header j)" "\<not> list_ex is_header_control v"
      "\<exists>hs'. collect_headers secret host js = Inr hs' \<and> hs = (j_header j, v) # hs'"
      by (auto simp: Let_def bind_result_Inr split: if_splits simp del: list_ex_iff)
    from n(1,2) have "newline_byte \<notin> set (j_header j) \<union> set v" by (auto simp: list_ex_iff is_header_control_def)
    with n(3) Cons.IH show ?thesis by auto
  qed
qed simp

text \<open>The lines of the request that the proxy sends, in order.\<close>

definition upstream_lines :: "parsed_request \<Rightarrow> str \<Rightarrow> (str \<times> str) list \<Rightarrow> str list" where
  "upstream_lines p headers injected =
     (r_method p @ '' '' @ r_path p @ '' '' @ r_version p) #
     filter (\<lambda>l. l \<noteq> [] \<and> \<not> dropped_header injected l) (drop 1 (text_lines headers)) @
     [''Host: '' @ r_host p, ''Connection: close''] @ map (\<lambda>(h, v). h @ '': '' @ v) injected"

lemma upstream_lines_ok:
  assumes "clean_request p" and "collect_headers secret host js = Inr injected"
  shows "\<forall>l\<in>set (upstream_lines p headers injected). l \<noteq> [] \<and> newline_byte \<notin> set l"
proof -
  have "l \<in> set (drop 1 (text_lines headers)) \<Longrightarrow> newline_byte \<notin> set l" for l
    using text_lines_no_newline [of l headers] by (meson in_set_dropD)
  with assms(1) collect_clean [OF assms(2)] show ?thesis
    by (auto simp: upstream_lines_def clean_request_def)
qed

lemma build_lines:
  "build_upstream_request p raw injected = Inr out \<longleftrightarrow>
     utf8 raw \<and> (\<exists>headers body. split_at_sub head_end raw = Some (headers, body) \<and>
       out = concat (map (\<lambda>l. l @ crlf) (upstream_lines p headers injected)) @ crlf @ body)"
proof -
  have "(\<lambda>l. l @ crlf) \<circ> (\<lambda>(h, v). h @ '': '' @ v) = (\<lambda>(h, v). h @ '': '' @ v @ crlf)"
    by (simp add: fun_eq_iff split_beta)
  then show ?thesis
    by (auto simp: build_upstream_request_def upstream_lines_def split: option.splits)
qed

section \<open>Properties\<close>

text \<open>
  C1. An allowlist entry is a domain with everything below it and nothing else: for a host
  that passed \<open>normalize_host\<close>, in whatever spelling the client sent it, an entry allows it
  exactly when the entry's labels are the last labels of the host; an empty entry allows nothing.
\<close>

theorem allowlist_by_labels:
  assumes "normalize_host raw = Inr h"
  shows "host_allowed h allowlist =
    (\<exists>a\<in>set allowlist. normalize_host_str a \<noteq> [] \<and>
       suffix (split_on CHR ''.'' (normalize_host_str a)) (split_on CHR ''.'' h))"
proof -
  have h: "h \<noteq> []" "last h \<noteq> CHR ''.''" using assms normalized_last [of raw] by (auto simp: normalize_host_Inr)
  then have "normalize_host_str a = [] \<Longrightarrow> \<not> (h = normalize_host_str a \<or> suffix (CHR ''.'' # normalize_host_str a) h)" for a
    by (auto simp: suffix_def)
  then show ?thesis unfolding host_allowed_def list_ex_iff Let_def suffix_labels by blast
qed

theorem allowlist_by_labels_witness:
  "host_allowed ''v1.api.x'' [''API.x. '', ''''] =
    (\<exists>a\<in>set [''API.x. '', '''']. normalize_host_str a \<noteq> [] \<and>
       suffix (split_on CHR ''.'' (normalize_host_str a)) (split_on CHR ''.'' ''v1.api.x''))"
proof (rule allowlist_by_labels)
  show "normalize_host '' V1.Api.x..'' = Inr ''v1.api.x''" by code_simp
qed

text \<open>
  C2. Nothing leaves the host for a destination that is not allowed: on any input, with any
  behaviour of the client, the upstream and the vault, either the connection sends nothing
  out, or the request names a host that is allowed at the decision, the proxy connects once,
  to that host and port, and sends nothing before.
\<close>

theorem egress_only_allowed:
  "(\<forall>a\<in>set (serve_connection msg cfg secret grants grants' c). \<not> outward a) \<or>
   (\<exists>p. requested c = Some p \<and> classify_host cfg grants (r_host p) \<noteq> Denied \<and>
      only_to (r_host p) (r_port p) (serve_connection msg cfg secret grants grants' c))"
  using stream_only [of cfg secret grants grants' c]
  by (auto simp: serve_connection_def only_to_snoc split: prod.split sum.split)

lemma injected_same:
  "\<forall>j\<in>set js. j_host j = h \<longrightarrow> secret (j_source j) = secret' (j_source j) \<Longrightarrow>
     collect_headers secret h js = collect_headers secret' h js"
proof (induction js)
  case (Cons j js)
  then have e: "collect_headers secret h js = collect_headers secret' h js" by simp
  show ?case unfolding collect_headers.simps e using Cons.prems by auto
qed simp

text \<open>
  C9. A secret leaves only towards its host: what a connection does depends on no vault
  entry but those of the injections of the requested host. If the host is refused, or nothing
  is injected for it, the vault is not read at all.
\<close>

theorem secrets_only_for_their_host:
  assumes "\<forall>p. requested c = Some p \<longrightarrow> classify_host cfg grants (r_host p) \<noteq> Denied \<longrightarrow>
      (\<forall>j\<in>set (p_injections cfg). j_host j = r_host p \<longrightarrow> secret (j_source j) = secret' (j_source j))"
  shows "serve_connection msg cfg secret grants grants' c = serve_connection msg cfg secret' grants grants' c"
proof -
  have mitm: "parse_mitm_http_request p r = Inr q \<Longrightarrow> r_host q = r_host p" for p q r
    by (auto simp: parse_mitm_http_request_def bind_result_Inr Let_def)
  have "handle_proxy_stream cfg secret grants grants' c = handle_proxy_stream cfg secret' grants grants' c"
  proof (cases "requested c")
    case None
    then show ?thesis
      by (auto simp: requested_def handle_proxy_stream_def attempt_def bind_result_def split: sum.splits)
  next
    case (Some p)
    then obtain d where d: "read_http_request (e_request c) = Inr d" "parse_proxy_request d = Inr p"
      by (auto simp: requested_def bind_result_def split: sum.splits)
    show ?thesis
    proof (cases "classify_host cfg grants (r_host p) = Denied")
      case True
      with d show ?thesis by (simp add: handle_proxy_stream_def)
    next
      case False
      then have i: "injected_headers secret (r_host p) cfg = injected_headers secret' (r_host p) cfg"
        using assms Some injected_same [of "p_injections cfg" "r_host p" secret secret'] by (simp add: injected_headers_def)
      then have m: "handle_mitm_connect cfg secret grants' c p = handle_mitm_connect cfg secret' grants' c p"
        by (auto simp: handle_mitm_connect_def attempt_def need_def after_def mitm split: sum.splits)
      from d i m show ?thesis by (simp add: handle_proxy_stream_def)
    qed
  qed
  then show ?thesis by (simp add: serve_connection_def)
qed

text \<open>
  C1. What is sent upstream, read back: up to its first empty line it is the request line,
  the client's headers less the dropped ones, the pinned \<open>Host\<close>, \<open>Connection: close\<close> and the
  injected headers, in this order, and the rest is the client's body. So neither the client's
  headers nor a secret can add, split or end a header line.
\<close>

theorem upstream_request_exact:
  assumes "parse_proxy_request raw = Inr p \<or> (\<exists>c raw'. parse_proxy_request raw' = Inr c \<and> parse_mitm_http_request c raw = Inr p)"
    and "injected_headers secret host cfg = Inr injected" and "build_upstream_request p raw injected = Inr out"
  shows "\<exists>headers body head. split_at_sub head_end raw = Some (headers, body) \<and>
    split_at_sub head_end out = Some (head, body) \<and>
    text_lines head = (r_method p @ '' '' @ r_path p @ '' '' @ r_version p) #
      filter (\<lambda>l. l \<noteq> [] \<and> \<not> dropped_header injected l) (drop 1 (text_lines headers)) @
      [''Host: '' @ r_host p, ''Connection: close''] @ map (\<lambda>(h, v). h @ '': '' @ v) injected"
proof -
  have clean: "clean_request p"
    using assms(1) parse_proxy_clean parse_mitm_clean by (metis Un_iff clean_request_def)
  obtain headers body where hb: "split_at_sub head_end raw = Some (headers, body)"
    "out = concat (map (\<lambda>l. l @ crlf) (upstream_lines p headers injected)) @ crlf @ body"
    using assms(3) by (auto simp: build_lines)
  let ?ls = "upstream_lines p headers injected"
  have ok: "\<forall>l\<in>set ?ls. l \<noteq> [] \<and> newline_byte \<notin> set l"
    using upstream_lines_ok [OF clean] assms(2) unfolding injected_headers_def by blast
  have ne: "?ls \<noteq> []" by (simp add: upstream_lines_def)
  have "split_at_sub head_end out = Some (join crlf ?ls, body)" using split_head [OF ne ok] hb(2) by simp
  moreover have "text_lines (join crlf ?ls) = ?ls" using text_lines_join [OF ne] ok ne last_in_set by blast
  ultimately show ?thesis using hb(1) by (auto simp: upstream_lines_def)
qed

definition demo_config :: proxy_config where
  "demo_config = \<lparr> p_allowlist = [''api.x''], p_allow_all = False,
     p_injections = [\<lparr> j_host = ''api.x'', j_header = ''Authorization'', j_source = ''pipelock:k'', j_prefix = Some ''Bearer '' \<rparr>] \<rparr>"

definition demo_secret :: "str \<Rightarrow> str option" where
  "demo_secret s = (if s = ''pipelock:k'' then Some ''s3'' else None)"

definition demo_request :: str where
  "demo_request = ''GET http://API.x/a HTTP/1.1'' @ crlf @ ''Host: evil'' @ crlf @ ''authorization: mine'' @ crlf @ ''Accept: *'' @ head_end"

definition demo_connection :: "read_result list \<Rightarrow> connection" where
  "demo_connection rs = \<lparr> e_request = rs, e_tls_request = [], e_client_takes = True, e_reachable = True, e_upstream_takes = True,
     e_server_tls = True, e_client_tls = True, e_reply = [(Data ''ok'', True)], e_tunnel_up = ([], True), e_tunnel_down = ([], True) \<rparr>"

definition demo_parsed :: parsed_request where
  "demo_parsed = \<lparr> r_method = ''GET'', r_target = ''http://API.x/a'', r_host = ''api.x'', r_port = 80, r_path = ''/a'', r_version = ''HTTP/1.1'' \<rparr>"

lemma demo_parse: "parse_proxy_request demo_request = Inr demo_parsed"
  by code_simp

lemma demo_requested: "requested (demo_connection [Data demo_request]) = Some demo_parsed"
  by code_simp

theorem egress_only_allowed_witness:
  "(\<forall>a\<in>set (serve_connection (\<lambda>_. []) demo_config demo_secret [] [] (demo_connection [Data demo_request])). \<not> outward a) \<or>
   (\<exists>p. requested (demo_connection [Data demo_request]) = Some p \<and> classify_host demo_config [] (r_host p) \<noteq> Denied \<and>
      only_to (r_host p) (r_port p) (serve_connection (\<lambda>_. []) demo_config demo_secret [] [] (demo_connection [Data demo_request])))"
  by (rule egress_only_allowed)

theorem secrets_only_for_their_host_witness:
  "serve_connection (\<lambda>_. []) demo_config demo_secret [] [] (demo_connection [Data demo_request]) =
   serve_connection (\<lambda>_. []) demo_config (demo_secret(''pipelock:other'' \<mapsto> ''t'')) [] [] (demo_connection [Data demo_request])"
proof (rule secrets_only_for_their_host)
  show "\<forall>p. requested (demo_connection [Data demo_request]) = Some p \<longrightarrow> classify_host demo_config [] (r_host p) \<noteq> Denied \<longrightarrow>
    (\<forall>j\<in>set (p_injections demo_config). j_host j = r_host p \<longrightarrow>
       demo_secret (j_source j) = (demo_secret(''pipelock:other'' \<mapsto> ''t'')) (j_source j))"
    by (simp add: demo_config_def)
qed

theorem upstream_request_exact_witness:
  "\<exists>headers body head. split_at_sub head_end demo_request = Some (headers, body) \<and>
    split_at_sub head_end (''GET /a HTTP/1.1'' @ crlf @ ''Accept: *'' @ crlf @ ''Host: api.x'' @ crlf @ ''Connection: close'' @ crlf @
      ''Authorization: Bearer s3'' @ head_end) = Some (head, body) \<and>
    text_lines head = (r_method demo_parsed @ '' '' @ r_path demo_parsed @ '' '' @ r_version demo_parsed) #
      filter (\<lambda>l. l \<noteq> [] \<and> \<not> dropped_header [(''Authorization'', ''Bearer s3'')] l) (drop 1 (text_lines headers)) @
      [''Host: '' @ r_host demo_parsed, ''Connection: close''] @ map (\<lambda>(h, v). h @ '': '' @ v) [(''Authorization'', ''Bearer s3'')]"
proof (rule upstream_request_exact)
  show "injected_headers demo_secret ''api.x'' demo_config = Inr [(''Authorization'', ''Bearer s3'')]" by code_simp
  show "build_upstream_request demo_parsed demo_request [(''Authorization'', ''Bearer s3'')] =
    Inr (''GET /a HTTP/1.1'' @ crlf @ ''Accept: *'' @ crlf @ ''Host: api.x'' @ crlf @ ''Connection: close'' @ crlf @
      ''Authorization: Bearer s3'' @ head_end)" by code_simp
qed (simp add: demo_parse)

section \<open>The audit log\<close>

definition audited :: "action list \<Rightarrow> audit_event \<Rightarrow> bool" where
  "audited t e \<longleftrightarrow> (\<exists>us. t = us @ [Audit e] \<and> (\<forall>a\<in>set us. \<forall>e'. a \<noteq> Audit e'))"

lemma audited_simps [simp]:
  "audited [Audit e'] e \<longleftrightarrow> e' = e"
  "audited (Respond b # t) e = audited t e" "audited (Dial h q # t) e = audited t e" "audited (Forward b # t) e = audited t e"
proof -
  have cons: "(\<forall>e'. a \<noteq> Audit e') \<Longrightarrow> audited (a # t) e = audited t e" for a t
  proof
    assume a: "\<forall>e'. a \<noteq> Audit e'" and "audited (a # t) e"
    then obtain us where "a # t = us @ [Audit e]" "\<forall>a\<in>set us. \<forall>e'. a \<noteq> Audit e'" by (auto simp: audited_def)
    with a show "audited t e" by (cases us) (auto simp: audited_def)
  next
    assume a: "\<forall>e'. a \<noteq> Audit e'" and "audited t e"
    then obtain us where "t = us @ [Audit e]" "\<forall>a\<in>set us. \<forall>e'. a \<noteq> Audit e'" by (auto simp: audited_def)
    with a show "audited (a # t) e" unfolding audited_def by (intro exI [of _ "a # us"]) auto
  qed
  show "audited (Respond b # t) e = audited t e" "audited (Dial h q # t) e = audited t e" "audited (Forward b # t) e = audited t e"
    by (rule cons; simp)+
  show "audited [Audit e'] e \<longleftrightarrow> e' = e" by (auto simp: audited_def append_eq_Cons_conv)
qed

lemma audited_prefix: "(\<forall>a\<in>set us. \<forall>e'. a \<noteq> Audit e') \<Longrightarrow> audited (us @ t) e = audited t e"
proof (induction us)
  case (Cons a us)
  then show ?case by (cases a) simp_all
qed simp

text \<open>The one record of a connection: of a failure, or what the handler wrote.\<close>

definition outcome :: "(proxy_error \<Rightarrow> str) \<Rightarrow> unit effect \<Rightarrow> audit_event \<Rightarrow> bool" where
  "outcome msg r e = (case snd r of
     Inl x \<Rightarrow> (\<forall>a\<in>set (fst r). \<forall>e'. a \<noteq> Audit e') \<and> e = audit_denied_raw (msg x)
   | Inr _ \<Rightarrow> audited (fst r) e)"

lemma outcome_simps [simp]:
  "outcome msg (fail_with x) e \<longleftrightarrow> e = audit_denied_raw (msg x)"
  "outcome msg ([Audit e'], Inr ()) e \<longleftrightarrow> e' = e"
  by (simp_all add: outcome_def)

lemma outcome_after: "(\<forall>a\<in>set us. \<forall>e'. a \<noteq> Audit e') \<Longrightarrow> outcome msg (after us r) e = outcome msg r e"
  by (auto simp: outcome_def audited_prefix split: sum.split)

lemma outcome_relay: "outcome msg (relay_and_audit cfg g c tls p n) e \<longleftrightarrow>
    (case snd (relay tls 0 (e_reply c)) of Inl x \<Rightarrow> e = audit_denied_raw (msg x)
     | Inr sent \<Rightarrow> e = audit_allowed p n sent tls (source_label (classify_host cfg g (r_host p))))"
proof -
  have "\<forall>a\<in>set (fst (relay tls 0 (e_reply c))). \<forall>e'. a \<noteq> Audit e'" by (auto dest: relay_actions)
  then show ?thesis
    by (auto simp: relay_and_audit_def Let_def outcome_after attempt_def split: sum.split)
qed

lemma outcome_serve: "outcome msg (handle_proxy_stream cfg secret g g' c) e \<Longrightarrow> audited (serve_connection msg cfg secret g g' c) e"
  by (cases "handle_proxy_stream cfg secret g g' c") (auto simp: serve_connection_def outcome_def audited_def split: sum.splits)

text \<open>What an audit record may say.\<close>

definition record_faithful :: "(proxy_error \<Rightarrow> str) \<Rightarrow> proxy_config \<Rightarrow> str list \<Rightarrow> str list \<Rightarrow> connection \<Rightarrow> audit_event \<Rightarrow> bool" where
  "record_faithful msg cfg g g' c e \<longleftrightarrow>
     (\<exists>x. e = audit_denied_raw (msg x)) \<or>
     (\<exists>p. requested c = Some p \<and>
        (if classify_host cfg g (r_host p) = Denied then e = audit_denied p ''host not allowed''
         else a_allowed e \<and> a_host e = r_host p \<and> a_port e = r_port p \<and> a_source e = source_label (classify_host cfg g' (r_host p))
           \<and> a_injected e \<le> length (p_injections cfg) \<and> (a_injected e > 0 \<longrightarrow> has_injections (r_host p) cfg)))"

lemma collect_length: "collect_headers secret host js = Inr hs \<Longrightarrow> length hs \<le> length js \<and> (hs \<noteq> [] \<longrightarrow> list_ex (\<lambda>j. j_host j = host) js)"
proof (induction js arbitrary: hs)
  case (Cons j js)
  show ?case
  proof (cases "j_host j = host")
    case False
    with Cons show ?thesis by fastforce
  next
    case True
    then obtain x where x: "secret (j_source j) = Some x" using Cons.prems by (auto split: option.splits)
    obtain hs' where "collect_headers secret host js = Inr hs'" "length hs = Suc (length hs')"
      using True x Cons.prems by (auto simp: Let_def bind_result_Inr split: if_splits)
    with Cons.IH [of hs'] True show ?thesis by auto
  qed
qed simp

lemma outcome_exists: "\<exists>e. outcome msg (handle_proxy_stream cfg secret g g' c) e \<and> record_faithful msg cfg g g' c e"
proof (cases "requested c")
  case None
  then obtain x where "handle_proxy_stream cfg secret g g' c = fail_with x"
    by (auto simp: requested_def handle_proxy_stream_def attempt_def bind_result_def split: sum.splits)
  then show ?thesis by (auto simp: record_faithful_def)
next
  case (Some p)
  then obtain d where d: "read_http_request (e_request c) = Inr d" "parse_proxy_request d = Inr p"
    by (auto simp: requested_def bind_result_def split: sum.splits)
  have raw: "record_faithful msg cfg g g' c (audit_denied_raw (msg x))" for x by (auto simp: record_faithful_def)
  show ?thesis
  proof (cases "classify_host cfg g (r_host p) = Denied")
    case True
    with d Some show ?thesis
      by (cases "e_client_takes c") (auto simp: handle_proxy_stream_def outcome_def record_faithful_def)
  next
    case False
    have ok: "record_faithful msg cfg g g' c (audit_allowed q n b tls (source_label (classify_host cfg g' (r_host p))))"
      if "r_host q = r_host p" "r_port q = r_port p" "n \<le> length (p_injections cfg)" "n > 0 \<longrightarrow> has_injections (r_host p) cfg" for q n b tls
      using that False Some by (auto simp: record_faithful_def audit_allowed_def)
    have inj: "injected_headers secret (r_host p) cfg = Inr hs \<Longrightarrow>
        length hs \<le> length (p_injections cfg) \<and> (length hs > 0 \<longrightarrow> has_injections (r_host p) cfg)" for hs
      using collect_length [of secret "r_host p" "p_injections cfg" hs] by (auto simp: injected_headers_def has_injections_def)
    have relayed: "\<exists>e. outcome msg (relay_and_audit cfg g' c tls q n) e \<and> record_faithful msg cfg g g' c e"
      if "r_host q = r_host p" "r_port q = r_port p" "n \<le> length (p_injections cfg)" "n > 0 \<longrightarrow> has_injections (r_host p) cfg" for q n tls
      using ok [OF that] raw that(1) by (cases "snd (relay tls 0 (e_reply c))") (auto simp: outcome_relay)
    have parsed: "parse_mitm_http_request p r = Inr q \<Longrightarrow> r_host q = r_host p \<and> r_port q = r_port p" for r q
      by (auto simp: parse_mitm_http_request_def bind_result_Inr Let_def)
    have connect: "\<exists>e. outcome msg (handle_connect cfg g' c p) e \<and> record_faithful msg cfg g g' c e"
      using raw ok [of p 0] by (auto simp: handle_connect_def need_def outcome_after)
    have mitm: "\<exists>e. outcome msg (handle_mitm_connect cfg secret g' c p) e \<and> record_faithful msg cfg g g' c e"
      using raw relayed inj parsed
      by (auto simp: handle_mitm_connect_def need_def attempt_def outcome_after split: sum.split)
    show ?thesis
      using d False connect mitm raw relayed [of p] inj
      by (auto simp: handle_proxy_stream_def need_def attempt_def outcome_after split: sum.split)
  qed
qed

text \<open>
  Every connection leaves exactly one audit record, as its last action: a failure, or the
  refusal of the requested host, or the exchange with the requested host and port, its source
  of permission and no more injected headers than are configured for it.
\<close>

theorem one_faithful_record:
  "\<exists>us e. serve_connection msg cfg secret grants grants' c = us @ [Audit e] \<and> (\<forall>a\<in>set us. \<forall>e'. a \<noteq> Audit e') \<and>
     record_faithful msg cfg grants grants' c e"
  using outcome_exists [of msg cfg secret grants grants' c] outcome_serve [of msg cfg secret grants grants' c]
  unfolding audited_def by meson

theorem one_faithful_record_witness:
  "\<exists>us e. serve_connection (\<lambda>_. []) demo_config demo_secret [] [] (demo_connection [Data demo_request]) = us @ [Audit e] \<and>
     (\<forall>a\<in>set us. \<forall>e'. a \<noteq> Audit e') \<and> record_faithful (\<lambda>_. []) demo_config [] [] (demo_connection [Data demo_request]) e"
  by (rule one_faithful_record)

section \<open>Limits of the proxy\<close>

lemma read_stops: "contains head_end a \<Longrightarrow> read_http_request (Data a # rs) = read_http_request [Data a]"
proof -
  assume "contains head_end a"
  moreover have "\<not> contains head_end []" by (simp add: contains_def head_end_def)
  ultimately have "a \<noteq> []" "contains head_end a" by metis+
  then show ?thesis by (simp add: read_http_request_def Let_def)
qed

text \<open>
  The proxy reads up to the chunk that ends the headers and forwards that: whatever the
  client sends later, the rest of its body included, is never read, for plain requests and
  inside intercepted TLS alike.
\<close>

theorem late_body_dropped:
  assumes a: "contains head_end a" and b: "contains head_end b"
    and c: "e_request c = Data a # rs" "e_tls_request c = Data b # ss"
  shows "serve_connection msg cfg secret grants grants' (c\<lparr>e_request := [Data a], e_tls_request := [Data b]\<rparr>) =
    serve_connection msg cfg secret grants grants' c"
proof -
  let ?c = "c\<lparr>e_request := [Data a], e_tls_request := [Data b]\<rparr>"
  have "handle_mitm_connect cfg secret g ?c q = handle_mitm_connect cfg secret g c q" for g q
    using read_stops [OF b, of ss] c(2) by (simp add: handle_mitm_connect_def relay_and_audit_def)
  moreover have "handle_connect cfg g ?c q = handle_connect cfg g c q" for g q
    by (simp add: handle_connect_def)
  moreover have "relay_and_audit cfg g ?c tls q n = relay_and_audit cfg g c tls q n" for g tls q n
    by (simp add: relay_and_audit_def)
  ultimately show ?thesis
    using read_stops [OF a, of rs] c(1) by (simp add: serve_connection_def handle_proxy_stream_def cong: if_cong)
qed

definition demo_late :: connection where
  "demo_late = (demo_connection [Data demo_request, Data ''body''])\<lparr>e_tls_request := [Data demo_request, Data ''more'']\<rparr>"

theorem late_body_dropped_witness:
  "serve_connection (\<lambda>_. []) demo_config demo_secret [] [] (demo_late\<lparr>e_request := [Data demo_request], e_tls_request := [Data demo_request]\<rparr>) =
   serve_connection (\<lambda>_. []) demo_config demo_secret [] [] demo_late"
proof (rule late_body_dropped)
  show "contains head_end demo_request" by code_simp
  show "e_request demo_late = Data demo_request # [Data ''body'']" "e_tls_request demo_late = Data demo_request # [Data ''more'']"
    by (simp_all add: demo_late_def demo_connection_def)
qed (code_simp)

text \<open>
  The grants follow the modification time of the file: a file that then stays as it is
  is loaded at the next tick when its time differs from the last one seen, and never
  otherwise. So a grant written between the load and the first look of the watcher is never seen.
\<close>

theorem grants_follow_mtime:
  "v_grants ((watch_tick json (f, f) ^^ Suc n) v) = (if v_last v = map_option fst f then v_grants v else load_runtime_allow json f)
   \<and> v_grants ((watch_tick json (f, f) ^^ n) (start_watcher json loaded f)) = load_runtime_allow json loaded"
proof -
  have still: "(watch_tick json (f, f) ^^ n) w = w" if "map_option fst f = v_last w" for w n
    using that by (induction n) (simp_all add: watch_tick_def)
  have "map_option fst f = v_last (watch_tick json (f, f) v)" by (simp add: watch_tick_def)
  from still [OF this, of n] have "(watch_tick json (f, f) ^^ Suc n) v = watch_tick json (f, f) v"
    by (simp only: funpow_Suc_right comp_apply)
  then show ?thesis using still [of "start_watcher json loaded f" n] by (simp add: watch_tick_def start_watcher_def)
qed

text \<open>
  C1. Two ways around the pinned \<open>Host\<close>. Inside intercepted TLS only \<open>https://\<close> targets lose
  their authority, so any other absolute target goes out as it is, and the standard makes the
  server follow it rather than \<open>Host\<close>; and a space before the colon hides a header from the filter.
\<close>

definition escaping_request :: str where
  "escaping_request = ''GET http://evil/x HTTP/1.1'' @ crlf @ ''Host : evil'' @ crlf @ ''Authorization : a'' @ head_end"

theorem host_pin_escaped:
  "\<exists>q. parse_mitm_http_request c escaping_request = Inr q \<and> r_host q = r_host c \<and>
     build_upstream_request q escaping_request [(''Authorization'', s)] =
       Inr (''GET http://evil/x HTTP/1.1'' @ crlf @ ''Host : evil'' @ crlf @ ''Authorization : a'' @ crlf @ ''Host: '' @ r_host c @ crlf @
            ''Connection: close'' @ crlf @ ''Authorization: '' @ s @ head_end)"
proof -
  have l: "request_line escaping_request = Inr (''GET'', ''http://evil/x'', ''HTTP/1.1'')" by code_simp
  have b: "split_at_sub head_end escaping_request =
      Some (''GET http://evil/x HTTP/1.1'' @ crlf @ ''Host : evil'' @ crlf @ ''Authorization : a'', [])" "utf8 escaping_request"
    "strip_prefix ''https://'' ''http://evil/x'' = None"
    "drop (Suc 0) (text_lines (''GET http://evil/x HTTP/1.1'' @ crlf @ ''Host : evil'' @ crlf @ ''Authorization : a'')) = [''Host : evil'', ''Authorization : a'']"
    by code_simp+
  have k: "\<not> dropped_header [(''Authorization'', [])] ''Host : evil''" "\<not> dropped_header [(''Authorization'', [])] ''Authorization : a''"
    by code_simp+
  then have "\<not> dropped_header [(''Authorization'', s)] ''Host : evil''" "\<not> dropped_header [(''Authorization'', s)] ''Authorization : a''"
    by (simp_all add: dropped_header_def)
  with b have "build_upstream_request q escaping_request [(''Authorization'', s)] = Inr (r_method q @ '' '' @ r_path q @ '' '' @ r_version q @ crlf @
      ''Host : evil'' @ crlf @ ''Authorization : a'' @ crlf @ ''Host: '' @ r_host q @ crlf @
      ''Connection: close'' @ crlf @ ''Authorization: '' @ s @ crlf @ crlf)" for q
    unfolding build_upstream_request_def by simp
  moreover have "head_end = crlf @ crlf" by (simp add: head_end_def crlf_def)
  moreover have "parse_mitm_http_request c escaping_request = Inr \<lparr> r_method = ''GET'', r_target = ''https://'' @ r_host c @ ''http://evil/x'',
      r_host = r_host c, r_port = r_port c, r_path = ''http://evil/x'', r_version = ''HTTP/1.1'' \<rparr>"
    by (simp add: parse_mitm_http_request_def l b(3) Let_def)
  ultimately show ?thesis by simp
qed

text \<open>An exchange that fails after the request went out is audited as a refusal without a host.\<close>

lemma failed_exchange_hidden:
  "\<exists>b. serve_connection msg demo_config demo_secret [] [] ((demo_connection [Data demo_request])\<lparr>e_reply := [(ReadFailed, True)]\<rparr>) =
     [Dial ''api.x'' 80, Forward b, Audit (audit_denied_raw (msg SocketError))]"
proof -
  have *: "read_http_request (e_request ((demo_connection [Data demo_request])\<lparr>e_reply := [(ReadFailed, True)]\<rparr>)) = Inr demo_request"
    "classify_host demo_config [] ''api.x'' = FromSpec" "\<not> is_connect ''GET''"
    "injected_headers demo_secret ''api.x'' demo_config = Inr [(''Authorization'', ''Bearer s3'')]"
    "\<not> isl (build_upstream_request demo_parsed demo_request [(''Authorization'', ''Bearer s3'')])"
    by code_simp+
  then obtain b where "build_upstream_request demo_parsed demo_request [(''Authorization'', ''Bearer s3'')] = Inr b"
    by (cases "build_upstream_request demo_parsed demo_request [(''Authorization'', ''Bearer s3'')]") auto
  with *  show ?thesis
    by (auto simp: serve_connection_def handle_proxy_stream_def demo_parse demo_parsed_def demo_connection_def relay_and_audit_def after_def fail_with_def)
qed

end
