(* ===== verification/Agent_Spec.thy ===== *)
theory Agent_Spec
  imports Egress_Proxy
begin

text \<open>
  \<open>crates/maturana-core/src/spec.rs\<close> and \<open>validation.rs\<close>: the specification of an agent,
  its file form, the egress defaults applied when it is read, and its validation. The YAML
  text of a specification is a parameter (\<open>serde_yaml\<close>). The properties connect what the
  validation accepts with what the egress proxy then does.
\<close>

section \<open>The specification\<close>

datatype harness_runtime = Codex | ClaudeCode | Opencode
datatype host_provider = HyperV | Firecracker
datatype guest_os = Linux | Windows
datatype mcp_transport = Stdio | Http

record identity =
  id_id :: str
  id_name :: str
  id_purpose :: str

record cloud_init =
  ci_username :: str
  ci_ssh_public_key :: str

record firecracker_vm =
  fc_kernel_image :: str
  fc_rootfs_image :: str
  fc_tap_name :: str
  fc_host_ip :: str
  fc_guest_ip :: str
  fc_guest_mac :: str
  fc_kernel_args :: str

record vm =
  vm_provider :: host_provider
  vm_guest_os :: guest_os
  vm_vcpu :: "8 word"
  vm_memory_mib :: u32
  vm_boot_image :: "str option"
  vm_switch_name :: "str option"
  vm_cloud_init :: "cloud_init option"
  vm_firecracker :: "firecracker_vm option"

record mount =
  mt_host_path :: str
  mt_guest_path :: str
  mt_writable :: bool

record network_proxy =
  np_enabled :: bool
  np_bind :: str
  np_inject_headers :: "injection list"

record network =
  nw_egress_allowlist :: "str list"
  nw_egress_allow_all :: bool
  nw_proxy :: "network_proxy option"

record credential =
  cr_name :: str
  cr_source :: str

record harness_auth =
  ha_runtime :: harness_runtime
  ha_source_path :: str
  ha_guest_path :: str

record memory =
  me_wiki_path :: "str option"
  me_agent_memory_path :: "str option"

record knowledge_graph =
  kg_enabled :: bool
  kg_graph :: "str option"

record mcp_server =
  mcp_name :: str
  mcp_transport_of :: mcp_transport
  mcp_command :: "str option"
  mcp_args :: "str list"
  mcp_url :: "str option"
  mcp_env :: "credential list"
  mcp_egress_hosts :: "str list"

record capabilities =
  cap_image_gen :: bool
  cap_voice :: bool
  cap_self_forge :: bool

record schedule_entry =
  sc_name :: str
  sc_cron :: str

record telegram_channel =
  tg_token_source :: str
  tg_chat_id_source :: "str option"

record slack_channel =
  sl_bot_token_source :: str
  sl_app_token_source :: str

record agentmail_channel =
  am_api_key_source :: str
  am_inbox :: "str option"

record channels =
  ch_tui :: bool
  ch_telegram :: "telegram_channel option"
  ch_discord :: "str option"
  ch_slack :: "slack_channel option"
  ch_agentmail :: "agentmail_channel option"

text \<open>Hooks, browser, run and snapshot policies carry no checks and are left out.\<close>

record agent_description =
  as_identity :: identity
  as_harness :: harness_runtime
  as_vm :: vm
  as_mounts :: "mount list"
  as_network :: network
  as_credentials :: "credential list"
  as_harness_auth :: "harness_auth list"
  as_memory :: memory
  as_knowledge_graph :: knowledge_graph
  as_mcp_servers :: "mcp_server list"
  as_capabilities :: capabilities
  as_skills :: "str list"
  as_tools :: "str list"
  as_schedules :: "schedule_entry list"
  as_channels :: channels

definition graph_name :: "knowledge_graph \<Rightarrow> str \<Rightarrow> str" where
  "graph_name k agent = (case kg_graph k of Some g \<Rightarrow> g | None \<Rightarrow> agent)"

section \<open>Reading a specification\<close>

definition egress_defaults :: "capabilities \<Rightarrow> str list" where
  "egress_defaults c = (if cap_image_gen c then [''api.openai.com''] else [])"

definition add_host :: "str \<Rightarrow> str list \<Rightarrow> str list" where
  "add_host h as = (if list_ex (\<lambda>a. eq_ignore_case a h) as then as else as @ [h])"

definition default_hosts :: "agent_description \<Rightarrow> str list" where
  "default_hosts s = egress_defaults (as_capabilities s)
     @ (if as_harness s = Opencode then [''models.dev''] else [])
     @ (if as_harness s = Codex then [''auth.openai.com'', ''chatgpt.com''] else [])"

definition apply_egress_defaults :: "agent_description \<Rightarrow> agent_description" where
  "apply_egress_defaults s =
     s\<lparr>as_network := (as_network s)\<lparr>nw_egress_allowlist := fold add_host (default_hosts s) (nw_egress_allowlist (as_network s))\<rparr>\<rparr>"

datatype spec_read_error = NoFrontMatter | Unclosed | EmptyFrontMatter | BadYaml

definition or_else :: "'a option \<Rightarrow> 'a option \<Rightarrow> 'a option" where
  "or_else a b = (case a of None \<Rightarrow> b | Some x \<Rightarrow> Some x)"

definition extract_yaml_frontmatter :: "str \<Rightarrow> spec_read_error + str" where
  "extract_yaml_frontmatter raw =
     (case or_else (strip_prefix (''---'' @ crlf) raw) (strip_prefix (''---'' @ [newline_byte]) raw) of
        None \<Rightarrow> Inl NoFrontMatter
      | Some body \<Rightarrow>
          (case or_else (find_sub (crlf @ ''---'') body) (find_sub (newline_byte # ''---'') body) of
             None \<Rightarrow> Inl Unclosed
           | Some n \<Rightarrow> if trim_text (take n body) = [] then Inl EmptyFrontMatter else Inr (take n body)))"

definition from_maturana_markdown :: "(str \<Rightarrow> agent_description option) \<Rightarrow> str \<Rightarrow> spec_read_error + agent_description" where
  "from_maturana_markdown yaml raw =
     (case extract_yaml_frontmatter raw of
        Inl e \<Rightarrow> Inl e
      | Inr y \<Rightarrow> (case yaml y of None \<Rightarrow> Inl BadYaml | Some s \<Rightarrow> Inr (apply_egress_defaults s)))"

definition to_maturana_markdown :: "(agent_description \<Rightarrow> str) \<Rightarrow> agent_description \<Rightarrow> str" where
  "to_maturana_markdown show_yaml s =
     ''---'' @ [newline_byte] @ show_yaml s @ ''---'' @ [newline_byte, newline_byte] @ ''# '' @ id_name (as_identity s) @ [newline_byte]"

section \<open>Validation\<close>

datatype spec_error =
    EmptyId | IdCharacters | EmptyName | NoFirecrackerVm | UnproxiedEgress str | NoVcpu | LittleMemory
  | EmptyUsername | BadSshKey | MountPaths | WritableRoot | RawSecret str | EmptySourcePath | RelativeGuestPath
  | UnsafeGuestPath str | McpWithoutName | McpWithoutCommand str | McpWithoutUrl str | EmptyWikiPath | EmptyMemoryPath
  | UnsafeGraphName | EmptySkill | EmptyTool | EmptyScheduleName | EmptyCron | ProxyWithoutAllowlist | EmptyBind
  | EmptyInjectionHost | EmptyInjectionHeader | InjectionSource | InjectionNotAllowlisted str

datatype spec_warning =
    ShortPurpose | NoHarnessAuth harness_runtime | HyperVNeedsWindows | FirecrackerNeedsLinux | SlackHost | AgentMailHost
  | McpHost str str | OpenEgress | NoEgress

record validation_report =
  vr_valid :: bool
  vr_errors :: "spec_error list"
  vr_warnings :: "spec_warning list"

definition host_allowlisted :: "agent_description \<Rightarrow> str \<Rightarrow> bool" where
  "host_allowlisted s host =
     (let h = to_ascii_lowercase (trim_text host)
      in list_ex (\<lambda>a. let n = to_ascii_lowercase (trim_text a) in h = n \<or> suffix (CHR ''.'' # n) h)
           (nw_egress_allowlist (as_network s)))"

definition is_safe_guest_path :: "str \<Rightarrow> bool" where
  "is_safe_guest_path path \<longleftrightarrow>
     (list_ex (\<lambda>r. prefix r path) [''/home/'', ''/agent/'', ''/opt/maturana/''] \<or> path \<in> {''/agent'', ''/opt/maturana''})
     \<and> ''..'' \<notin> set (split_on CHR ''/'' path)"

definition validate_id :: "str \<Rightarrow> spec_error list" where
  "validate_id i =
     (if trim_text i = [] then [EmptyId]
      else if list_all (\<lambda>c. is_ascii_lower c \<or> is_digit c \<or> c = CHR ''-'') i then [] else [IdCharacters])"

definition validate_secret_source :: "str \<Rightarrow> str \<Rightarrow> spec_error list" where
  "validate_secret_source source field =
     (if list_ex (\<lambda>p. prefix p source) [''env:'', ''pipelock:'', ''file:''] then [] else [RawSecret field])"

definition blank :: "str \<Rightarrow> bool" where
  "blank s \<longleftrightarrow> trim_text s = []"

definition err :: "bool \<Rightarrow> 'e \<Rightarrow> 'e list" where
  "err b e = (if b then [e] else [])"

definition egress_open :: "agent_description \<Rightarrow> bool" where
  "egress_open s \<longleftrightarrow> nw_egress_allow_all (as_network s) \<or> list_ex (\<lambda>h. trim_text h = ''*'') (nw_egress_allowlist (as_network s))"

definition check_provider :: "agent_description \<Rightarrow> spec_error list" where
  "check_provider s =
     (case vm_provider (as_vm s) of
        HyperV \<Rightarrow> []
      | Firecracker \<Rightarrow>
          err (vm_firecracker (as_vm s) = None) NoFirecrackerVm
          @ err ((nw_egress_allowlist (as_network s) \<noteq> [] \<or> nw_egress_allow_all (as_network s))
                 \<and> \<not> (case nw_proxy (as_network s) of Some p \<Rightarrow> np_enabled p | None \<Rightarrow> False))
              (UnproxiedEgress ((case vm_firecracker (as_vm s) of Some f \<Rightarrow> fc_host_ip f | None \<Rightarrow> ''<host_ip>'') @ '':47833'')))"

definition check_vm :: "agent_description \<Rightarrow> spec_error list" where
  "check_vm s =
     err (vm_vcpu (as_vm s) = 0) NoVcpu @ err (vm_memory_mib (as_vm s) < 512) LittleMemory
     @ (case vm_cloud_init (as_vm s) of
          None \<Rightarrow> []
        | Some c \<Rightarrow> err (blank (ci_username c)) EmptyUsername @ err (\<not> prefix ''ssh-'' (ci_ssh_public_key c)) BadSshKey)"

definition check_mount :: "mount \<Rightarrow> spec_error list" where
  "check_mount m = err (blank (mt_host_path m) \<or> blank (mt_guest_path m)) MountPaths
     @ err (mt_writable m \<and> mt_host_path m = ''/'') WritableRoot"

definition check_auth :: "harness_auth \<Rightarrow> spec_error list" where
  "check_auth a = err (blank (ha_source_path a)) EmptySourcePath
     @ (if blank (ha_guest_path a) \<or> \<not> prefix ''/'' (ha_guest_path a) then [RelativeGuestPath]
        else err (\<not> is_safe_guest_path (ha_guest_path a)) (UnsafeGuestPath (ha_guest_path a)))"

definition check_channels :: "channels \<Rightarrow> spec_error list" where
  "check_channels c =
     (case ch_telegram c of None \<Rightarrow> [] | Some t \<Rightarrow> validate_secret_source (tg_token_source t) ''channels.telegram.token_source''
        @ (case tg_chat_id_source t of None \<Rightarrow> [] | Some i \<Rightarrow> validate_secret_source i ''channels.telegram.chat_id_source''))
     @ (case ch_discord c of None \<Rightarrow> [] | Some d \<Rightarrow> validate_secret_source d ''channels.discord.bot_token_source'')
     @ (case ch_slack c of None \<Rightarrow> [] | Some l \<Rightarrow> validate_secret_source (sl_bot_token_source l) ''channels.slack.bot_token_source''
          @ validate_secret_source (sl_app_token_source l) ''channels.slack.app_token_source'')
     @ (case ch_agentmail c of None \<Rightarrow> [] | Some m \<Rightarrow> validate_secret_source (am_api_key_source m) ''channels.agentmail.api_key_source'')"

definition mcp_label :: "nat \<Rightarrow> mcp_server \<Rightarrow> str" where
  "mcp_label i m = ''mcp_servers['' @ show_nat i @ ''] ('' @ mcp_name m @ '')''"

definition or_empty :: "str option \<Rightarrow> str" where
  "or_empty x = (case x of Some s \<Rightarrow> s | None \<Rightarrow> [])"

definition check_mcp :: "nat \<times> mcp_server \<Rightarrow> spec_error list" where
  "check_mcp im = (case im of (i, m) \<Rightarrow>
     err (blank (mcp_name m)) McpWithoutName
     @ (case mcp_transport_of m of
          Stdio \<Rightarrow> err (blank (or_empty (mcp_command m))) (McpWithoutCommand (mcp_label i m))
        | Http \<Rightarrow> err (blank (or_empty (mcp_url m))) (McpWithoutUrl (mcp_label i m)))
     @ concat (map (\<lambda>e. validate_secret_source (cr_source e) (mcp_label i m @ ''.env.'' @ cr_name e)) (mcp_env m)))"

definition safe_graph_name :: "str \<Rightarrow> bool" where
  "safe_graph_name g \<longleftrightarrow> \<not> blank g \<and> length g \<le> 128 \<and> \<not> contains ''..'' g
     \<and> list_all (\<lambda>c. is_ascii_alnum c \<or> c \<in> {CHR ''-'', CHR ''_'', CHR ''.''}) g"

definition check_memory :: "agent_description \<Rightarrow> spec_error list" where
  "check_memory s =
     (case me_wiki_path (as_memory s) of None \<Rightarrow> [] | Some p \<Rightarrow> err (blank p) EmptyWikiPath)
     @ (case me_agent_memory_path (as_memory s) of None \<Rightarrow> [] | Some p \<Rightarrow> err (blank p) EmptyMemoryPath)
     @ (if kg_enabled (as_knowledge_graph s)
        then (case kg_graph (as_knowledge_graph s) of None \<Rightarrow> [] | Some g \<Rightarrow> err (\<not> safe_graph_name g) UnsafeGraphName) else [])"

definition check_lists :: "agent_description \<Rightarrow> spec_error list" where
  "check_lists s =
     concat (map (\<lambda>k. err (blank k) EmptySkill) (as_skills s)) @ concat (map (\<lambda>t. err (blank t) EmptyTool) (as_tools s))
     @ concat (map (\<lambda>c. err (blank (sc_name c)) EmptyScheduleName @ err (blank (sc_cron c)) EmptyCron) (as_schedules s))"

definition check_injection :: "agent_description \<Rightarrow> network_proxy \<Rightarrow> injection \<Rightarrow> spec_error list" where
  "check_injection s p j =
     err (blank (j_host j)) EmptyInjectionHost @ err (blank (j_header j)) EmptyInjectionHeader
     @ err (\<not> prefix ''pipelock:'' (j_source j)) InjectionSource
     @ err (np_enabled p \<and> \<not> egress_open s
            \<and> \<not> list_ex (\<lambda>a. eq_ignore_case a (to_ascii_lowercase (j_host j))) (nw_egress_allowlist (as_network s)))
         (InjectionNotAllowlisted (j_host j))"

definition check_proxy :: "agent_description \<Rightarrow> spec_error list" where
  "check_proxy s =
     (case nw_proxy (as_network s) of
        None \<Rightarrow> []
      | Some p \<Rightarrow>
          err (np_enabled p \<and> \<not> egress_open s \<and> nw_egress_allowlist (as_network s) = []) ProxyWithoutAllowlist
          @ err (np_enabled p \<and> blank (np_bind p)) EmptyBind
          @ concat (map (check_injection s p) (np_inject_headers p)))"

definition spec_errors :: "agent_description \<Rightarrow> spec_error list" where
  "spec_errors s =
     validate_id (id_id (as_identity s)) @ err (blank (id_name (as_identity s))) EmptyName
     @ check_provider s @ check_vm s
     @ concat (map check_mount (as_mounts s))
     @ concat (map (\<lambda>c. validate_secret_source (cr_source c) (''credentials.'' @ cr_name c)) (as_credentials s))
     @ concat (map check_auth (as_harness_auth s))
     @ check_channels (as_channels s)
     @ concat (map check_mcp (List.enumerate 0 (as_mcp_servers s)))
     @ check_memory s @ check_lists s @ check_proxy s"

definition spec_warnings :: "bool \<Rightarrow> agent_description \<Rightarrow> spec_warning list" where
  "spec_warnings windows s =
     err (length (trim_text (id_purpose (as_identity s))) < 12) ShortPurpose
     @ err (\<not> list_ex (\<lambda>a. ha_runtime a = as_harness s) (as_harness_auth s)) (NoHarnessAuth (as_harness s))
     @ (case vm_provider (as_vm s) of HyperV \<Rightarrow> err (\<not> windows) HyperVNeedsWindows | Firecracker \<Rightarrow> err windows FirecrackerNeedsLinux)
     @ err (ch_slack (as_channels s) \<noteq> None \<and> \<not> host_allowlisted s ''api.slack.com'') SlackHost
     @ err (ch_agentmail (as_channels s) \<noteq> None \<and> \<not> host_allowlisted s ''api.agentmail.to'') AgentMailHost
     @ concat (map (\<lambda>(i, m). concat (map (\<lambda>h. err (\<not> host_allowlisted s h) (McpHost (mcp_label i m) h)) (mcp_egress_hosts m)))
         (List.enumerate 0 (as_mcp_servers s)))
     @ (if egress_open s then [OpenEgress] else err (nw_egress_allowlist (as_network s) = []) NoEgress)"

definition validate_spec :: "bool \<Rightarrow> agent_description \<Rightarrow> validation_report" where
  "validate_spec windows s = \<lparr> vr_valid = (spec_errors s = []), vr_errors = spec_errors s, vr_warnings = spec_warnings windows s \<rparr>"

text \<open>The part of a specification that the proxy is configured from.\<close>

definition network_of :: "agent_description \<Rightarrow> network_spec" where
  "network_of s = \<lparr> w_proxy = map_option (\<lambda>p. \<lparr> y_enabled = np_enabled p, y_inject_headers = np_inject_headers p \<rparr>) (nw_proxy (as_network s)),
     w_egress_allowlist = nw_egress_allowlist (as_network s), w_egress_allow_all = nw_egress_allow_all (as_network s),
     w_mcp_egress_hosts = map mcp_egress_hosts (as_mcp_servers s) \<rparr>"

section \<open>Lower case and white space\<close>

lemma of_char_lower: "of_char (lower_char c) = (if is_ascii_upper c then of_char c + 32 else of_char c :: nat)"
proof -
  have "of_char c + 32 < (256::nat)" if "is_ascii_upper c"
    using that by (auto simp: is_ascii_upper_def Let_def)
  then show ?thesis by (simp add: lower_char_def)
qed

lemma upper_range: "is_ascii_upper c \<longleftrightarrow> 65 \<le> (of_char c :: nat) \<and> of_char c \<le> (90::nat)"
  by (simp add: is_ascii_upper_def Let_def)

lemma lower_number [simp]:
  "k < 65 \<or> 122 < k \<Longrightarrow> of_char (lower_char c) = k \<longleftrightarrow> of_char c = (k::nat)"
  "k < 65 \<or> 122 \<le> k \<Longrightarrow> of_char (lower_char c) \<le> k \<longleftrightarrow> of_char c \<le> (k::nat)"
  "k \<le> 65 \<or> 122 < k \<Longrightarrow> k \<le> of_char (lower_char c) \<longleftrightarrow> (k::nat) \<le> of_char c"
  unfolding of_char_lower upper_range by auto

lemma byte_in_lower [simp]: "byte_in 0 127 (lower_char c) = byte_in 0 127 c" "byte_in 128 191 (lower_char c) = byte_in 128 191 c"
  by (simp_all add: byte_in_def)

lemma lower_lower [simp]: "lower_char (lower_char c) = lower_char c"
proof -
  have "\<not> is_ascii_upper (lower_char c)" unfolding upper_range of_char_lower by simp
  then show ?thesis by (simp add: lower_char_def [of "lower_char c"])
qed

lemma chars_of_lower: "chars_of (to_ascii_lowercase s) = map to_ascii_lowercase (chars_of s)"
proof -
  have "chars_of (map lower_char s) = map (map lower_char) (chars_of s)"
    by (induction s rule: chars_of.induct) (simp_all add: takeWhile_map dropWhile_map comp_def)
  then show ?thesis by (simp add: to_ascii_lowercase_def [abs_def])
qed

lemma blank_char_lower [simp]: "blank_char (to_ascii_lowercase c) = blank_char c"
proof -
  consider "c = []" | a where "c = [a]" | a b where "c = [a, b]" | a b d where "c = [a, b, d]" | a b d e r where "c = a # b # d # e # r"
    by (metis list.exhaust)
  then show ?thesis by cases (simp_all add: blank_char_def to_ascii_lowercase_def)
qed

lemma trim_lower: "trim_text (to_ascii_lowercase s) = to_ascii_lowercase (trim_text s)"
proof -
  have c: "blank_char \<circ> to_ascii_lowercase = blank_char" by (simp add: fun_eq_iff)
  have m: "concat (map to_ascii_lowercase xs) = to_ascii_lowercase (concat xs)" for xs
    by (induction xs) (simp_all add: to_ascii_lowercase_def)
  show ?thesis
    by (simp add: trim_text_def chars_of_lower dropWhile_map c rev_map m)
qed

lemma lower_twice [simp]: "to_ascii_lowercase (to_ascii_lowercase s) = to_ascii_lowercase s"
  by (simp add: to_ascii_lowercase_def comp_def)

lemma lower_star: "to_ascii_lowercase s = ''*'' \<longleftrightarrow> s = ''*''"
proof -
  have n: "x = CHR ''*'' \<longleftrightarrow> of_char x = (42::nat)" for x
    using of_char_eq_iff [where ?'a = nat, of x "CHR ''*''"] by simp
  have "lower_char c = CHR ''*'' \<longleftrightarrow> c = CHR ''*''" for c unfolding n by simp
  then show ?thesis by (auto simp: to_ascii_lowercase_def map_eq_Cons_conv)
qed

text \<open>Hosts that differ in case only are wildcards together.\<close>

lemma star_ignore_case: "eq_ignore_case a b \<Longrightarrow> trim_text a = ''*'' \<longleftrightarrow> trim_text b = ''*''"
  using trim_lower [of a] trim_lower [of b] lower_star [of "trim_text a"] lower_star [of "trim_text b"]
  by (simp add: eq_ignore_case_def)

section \<open>Adding hosts\<close>

lemma add_hosts_keep: "a \<in> set as \<Longrightarrow> a \<in> set (fold add_host hs as)"
  by (induction hs arbitrary: as) (auto simp: add_host_def)

lemma add_hosts_star: "list_ex (\<lambda>h. trim_text h = ''*'') (fold add_host hs as) \<longleftrightarrow>
    list_ex (\<lambda>h. trim_text h = ''*'') as \<or> list_ex (\<lambda>h. trim_text h = ''*'') hs"
proof (induction hs arbitrary: as)
  case (Cons h hs)
  have "list_ex (\<lambda>h. trim_text h = ''*'') (add_host h as) \<longleftrightarrow> list_ex (\<lambda>h. trim_text h = ''*'') as \<or> trim_text h = ''*''"
    using star_ignore_case by (auto simp: add_host_def list_ex_iff)
  with Cons show ?case by auto
qed simp

lemma add_hosts_has: "h \<in> set hs \<Longrightarrow> list_ex (\<lambda>a. eq_ignore_case a h) (fold add_host hs as)"
proof (induction hs arbitrary: as)
  case (Cons k hs)
  show ?case
  proof (cases "h = k")
    case True
    have "list_ex (\<lambda>a. eq_ignore_case a h) (add_host h as)" by (auto simp: add_host_def eq_ignore_case_def)
    then obtain a where "a \<in> set (add_host h as)" "eq_ignore_case a h" by (auto simp: list_ex_iff)
    with True add_hosts_keep [of a "add_host h as" hs] show ?thesis by (auto simp: list_ex_iff)
  qed (use Cons in auto)
qed simp

lemma add_hosts_again: "\<forall>h\<in>set hs. list_ex (\<lambda>a. eq_ignore_case a h) as \<Longrightarrow> fold add_host hs as = as"
  by (induction hs) (auto simp: add_host_def)

lemma default_hosts_same [simp]: "default_hosts (apply_egress_defaults s) = default_hosts s"
  by (simp add: apply_egress_defaults_def default_hosts_def)

lemma apply_egress_defaults_twice [simp]: "apply_egress_defaults (apply_egress_defaults s) = apply_egress_defaults s"
proof -
  have "fold add_host (default_hosts s) (nw_egress_allowlist (as_network (apply_egress_defaults s))) =
      nw_egress_allowlist (as_network (apply_egress_defaults s))"
    using add_hosts_has [of _ "default_hosts s" "nw_egress_allowlist (as_network s)"]
    by (intro add_hosts_again) (simp add: apply_egress_defaults_def)
  then show ?thesis unfolding apply_egress_defaults_def [of "apply_egress_defaults s"] by simp
qed

section \<open>What a valid specification guarantees\<close>

lemma errs [simp]: "err b e = [] \<longleftrightarrow> \<not> b"
  by (simp add: err_def)

lemma concat_map_nil: "concat (map f xs) = [] \<longleftrightarrow> (\<forall>x\<in>set xs. f x = [])"
  by auto

lemma vr_valid_iff: "vr_valid (validate_spec w s) \<longleftrightarrow> spec_errors s = []"
  by (simp add: validate_spec_def)

text \<open>The path a guest path names, and the subtrees an agent owns.\<close>

definition path_parts :: "str \<Rightarrow> str list" where
  "path_parts p = filter (\<lambda>x. x \<noteq> [] \<and> x \<noteq> ''.'') (split_on CHR ''/'' p)"

definition agent_owned :: "str \<Rightarrow> bool" where
  "agent_owned p \<longleftrightarrow> ''..'' \<notin> set (path_parts p) \<and>
     (prefix [''home''] (path_parts p) \<or> prefix [''agent''] (path_parts p) \<or> prefix [''opt'', ''maturana''] (path_parts p))"

lemma parts_under:
  "path_parts (''/home/'' @ r) = ''home'' # path_parts r" "path_parts (''/agent/'' @ r) = ''agent'' # path_parts r"
  "path_parts (''/opt/maturana/'' @ r) = ''opt'' # ''maturana'' # path_parts r"
proof -
  have h: "''/home/'' @ r = [] @ CHR ''/'' # (''home'' @ CHR ''/'' # r)" "''/agent/'' @ r = [] @ CHR ''/'' # (''agent'' @ CHR ''/'' # r)"
    "''/opt/maturana/'' @ r = [] @ CHR ''/'' # (''opt'' @ CHR ''/'' # (''maturana'' @ CHR ''/'' # r))" by simp_all
  have p: "split_on CHR ''/'' ''home'' = [''home'']" "split_on CHR ''/'' ''agent'' = [''agent'']" "split_on CHR ''/'' ''opt'' = [''opt'']"
    "split_on CHR ''/'' ''maturana'' = [''maturana'']" "split_on CHR ''/'' [] = [[]]" by simp_all
  show "path_parts (''/home/'' @ r) = ''home'' # path_parts r" "path_parts (''/agent/'' @ r) = ''agent'' # path_parts r"
    "path_parts (''/opt/maturana/'' @ r) = ''opt'' # ''maturana'' # path_parts r"
    unfolding h path_parts_def split_on_append p by simp_all
qed

lemma safe_path_owned: "is_safe_guest_path p \<Longrightarrow> agent_owned p"
proof -
  assume s: "is_safe_guest_path p"
  then have "''..'' \<notin> set (path_parts p)" by (simp add: is_safe_guest_path_def path_parts_def)
  moreover have "prefix [''home''] (path_parts p) \<or> prefix [''agent''] (path_parts p) \<or> prefix [''opt'', ''maturana''] (path_parts p)"
  proof -
    from s consider (home) r where "p = ''/home/'' @ r" | (agent) r where "p = ''/agent/'' @ r" | (opt) r where "p = ''/opt/maturana/'' @ r"
      | (a) "p = ''/agent''" | (o) "p = ''/opt/maturana''"
      unfolding is_safe_guest_path_def prefix_def list_ex_iff by auto
    then show ?thesis
    proof cases
      case home
      then show ?thesis by (simp only: parts_under) simp
    next
      case agent
      then show ?thesis by (simp only: parts_under) simp
    next
      case opt
      then show ?thesis by (simp only: parts_under) simp
    next
      case a
      then show ?thesis by (simp add: path_parts_def)
    next
      case o
      then show ?thesis by (simp add: path_parts_def)
    qed
  qed
  ultimately show ?thesis by (simp add: agent_owned_def)
qed

definition secret_reference :: "str \<Rightarrow> bool" where
  "secret_reference x \<longleftrightarrow> prefix ''env:'' x \<or> prefix ''pipelock:'' x \<or> prefix ''file:'' x"

lemma secret_ok [simp]: "validate_secret_source x f = [] \<longleftrightarrow> secret_reference x"
  by (simp add: validate_secret_source_def secret_reference_def)

text \<open>Every place of a specification that names a secret.\<close>

definition channel_sources :: "channels \<Rightarrow> str list" where
  "channel_sources c =
     (case ch_telegram c of None \<Rightarrow> [] | Some t \<Rightarrow> tg_token_source t # (case tg_chat_id_source t of None \<Rightarrow> [] | Some i \<Rightarrow> [i]))
     @ (case ch_discord c of None \<Rightarrow> [] | Some d \<Rightarrow> [d])
     @ (case ch_slack c of None \<Rightarrow> [] | Some l \<Rightarrow> [sl_bot_token_source l, sl_app_token_source l])
     @ (case ch_agentmail c of None \<Rightarrow> [] | Some m \<Rightarrow> [am_api_key_source m])"

definition secret_sources :: "agent_description \<Rightarrow> str list" where
  "secret_sources s =
     map cr_source (as_credentials s) @ concat (map (\<lambda>m. map cr_source (mcp_env m)) (as_mcp_servers s))
     @ channel_sources (as_channels s)
     @ (case nw_proxy (as_network s) of None \<Rightarrow> [] | Some p \<Rightarrow> map j_source (np_inject_headers p))"

lemma valid_channels: "check_channels c = [] \<Longrightarrow> x \<in> set (channel_sources c) \<Longrightarrow> secret_reference x"
  by (cases "ch_telegram c"; cases "ch_discord c"; cases "ch_slack c"; cases "ch_agentmail c")
    (auto simp: channel_sources_def check_channels_def split: option.splits)

lemma valid_secrets: "spec_errors s = [] \<Longrightarrow> x \<in> set (secret_sources s) \<Longrightarrow> secret_reference x"
proof -
  assume v: "spec_errors s = []" and x: "x \<in> set (secret_sources s)"
  have c: "check_channels (as_channels s) = []" "check_proxy s = []"
    "\<forall>c\<in>set (as_credentials s). secret_reference (cr_source c)" "\<forall>im\<in>set (List.enumerate 0 (as_mcp_servers s)). check_mcp im = []"
    using v by (auto simp: spec_errors_def)
  have m: "secret_reference (cr_source e)" if "m \<in> set (as_mcp_servers s)" "e \<in> set (mcp_env m)" for m e
  proof -
    have "m \<in> set (map snd (List.enumerate 0 (as_mcp_servers s)))" using that(1) by simp
    then obtain i where "(i, m) \<in> set (List.enumerate 0 (as_mcp_servers s))" by (auto simp del: map_snd_enumerate)
    with c(4) have "check_mcp (i, m) = []" by blast
    with that(2) show ?thesis by (simp add: check_mcp_def)
  qed
  have p: "secret_reference (j_source j)" if "nw_proxy (as_network s) = Some y" "j \<in> set (np_inject_headers y)" for y j
  proof -
    from c(2) that have "check_injection s y j = []" by (simp add: check_proxy_def)
    then show ?thesis by (simp add: check_injection_def secret_reference_def)
  qed
  from x consider (credential) e where "e \<in> set (as_credentials s)" "x = cr_source e"
    | (server) m e where "m \<in> set (as_mcp_servers s)" "e \<in> set (mcp_env m)" "x = cr_source e"
    | (channel) "x \<in> set (channel_sources (as_channels s))"
    | (header) y j where "nw_proxy (as_network s) = Some y" "j \<in> set (np_inject_headers y)" "x = j_source j"
    by (cases "nw_proxy (as_network s)") (auto simp: secret_sources_def)
  then show ?thesis
    by cases (use c(3) m p valid_channels [OF c(1)] in auto)
qed

section \<open>The proxy of a valid specification\<close>

lemma from_spec_network: "from_spec (network_of s) = Inr cfg \<longleftrightarrow>
    (\<exists>p. nw_proxy (as_network s) = Some p \<and> np_enabled p \<and>
       cfg = \<lparr> p_allowlist = fold add_host (concat (map mcp_egress_hosts (as_mcp_servers s))) (nw_egress_allowlist (as_network s)),
               p_allow_all = nw_egress_allow_all (as_network s),
               p_injections = map (\<lambda>j. \<lparr> j_host = to_ascii_lowercase (trim_text (j_host j)), j_header = trim_text (j_header j),
                 j_source = trim_text (j_source j), j_prefix = j_prefix j \<rparr>) (np_inject_headers p) \<rparr>)"
  by (cases "nw_proxy (as_network s)") (auto simp: from_spec_def network_of_def add_host_def [abs_def])

lemma trim_end_id: "s = [] \<or> last s \<noteq> CHR ''.'' \<Longrightarrow> trim_end_with (\<lambda>c. c = CHR ''.'') s = s"
  by (cases s rule: rev_cases) (auto simp: trim_end_with_def)

text \<open>A host of the allowlist, in any spelling without a dot at its end, allows itself.\<close>

lemma listed_allowed:
  assumes "to_ascii_lowercase (trim_text a) = h" and "normalize_host raw = Inr h" and "a \<in> set as"
  shows "host_allowed h as"
proof -
  have l: "last h \<noteq> CHR ''.''" "h \<noteq> []" using assms(2) normalized_last [of raw] by (auto simp: normalize_host_Inr)
  then have "trim_text a \<noteq> []" "last (trim_text a) \<noteq> CHR ''.''"
    using assms(1) by (auto simp: to_ascii_lowercase_def last_map)
  then have "normalize_host_str a = h" using assms(1) by (simp add: normalize_host_str_def trim_end_id)
  with assms(3) show ?thesis by (auto simp: host_allowed_def list_ex_iff Let_def)
qed

section \<open>The file of a specification\<close>

lemma find_sub_absent: "c \<in> set pat \<Longrightarrow> c \<notin> set s \<Longrightarrow> find_sub pat s = None"
proof (induction s)
  case (Cons a s)
  then have "\<not> prefix pat (a # s)" using set_mono_prefix [of pat "a # s"] by auto
  with Cons show ?case by simp
qed auto

lemma contains_Cons: "contains pat s \<Longrightarrow> contains pat (a # s)"
  by (auto simp: contains_def)

lemma fence_first:
  "\<not> contains (newline_byte # ''---'') y \<Longrightarrow> find_sub (newline_byte # ''---'') (y @ newline_byte # ''---'' @ r) = Some (length y)"
proof (induction y)
  case (Cons a y)
  have "\<not> prefix (newline_byte # ''---'') (a # y @ newline_byte # ''---'' @ r)"
  proof
    assume p: "prefix (newline_byte # ''---'') (a # y @ newline_byte # ''---'' @ r)"
    then have "prefix ''---'' y" by (cases y; cases "tl y"; cases "tl (tl y)") auto
    with p have "prefix (newline_byte # ''---'') (a # y)" by simp
    with Cons.prems show False by (simp add: contains_def)
  qed
  moreover have "\<not> contains (newline_byte # ''---'') y" using Cons.prems contains_Cons by blast
  ultimately show ?case using Cons.IH by simp
qed simp

section \<open>Properties\<close>

text \<open>
  A specification that was read from a file (so that the egress defaults are applied) and
  is written out again is read back as it is. What is used of YAML: the text is one or more
  lines that read back without their last line feed, without a carriage return, and with no
  line that starts with three dashes.
\<close>

theorem spec_file_roundtrip:
  assumes "from_maturana_markdown yaml raw = Inr s" and "show_yaml s = y @ [newline_byte]" and "yaml y = Some s"
    and "trim_text y \<noteq> []" and "return_byte \<notin> set y \<union> set (id_name (as_identity s))" and "\<not> contains (newline_byte # ''---'') y"
  shows "from_maturana_markdown yaml (to_maturana_markdown show_yaml s) = Inr s"
proof -
  obtain s0 where "s = apply_egress_defaults s0"
    using assms(1) by (auto simp: from_maturana_markdown_def split: sum.splits option.splits)
  then have s: "apply_egress_defaults s = s" by simp
  let ?rest = "[newline_byte, newline_byte] @ ''# '' @ id_name (as_identity s) @ [newline_byte]"
  let ?body = "y @ newline_byte # ''---'' @ ?rest"
  have raw: "to_maturana_markdown show_yaml s = ''---'' @ [newline_byte] @ ?body"
    by (simp add: to_maturana_markdown_def assms(2))
  have p: "strip_prefix (''---'' @ crlf) (''---'' @ [newline_byte] @ ?body) = None"
    "strip_prefix (''---'' @ [newline_byte]) (''---'' @ [newline_byte] @ ?body) = Some ?body"
    by (simp_all add: strip_prefix_def crlf_def)
  have "return_byte \<notin> set ?body" using assms(5) by simp
  then have "find_sub (crlf @ ''---'') ?body = None" by (intro find_sub_absent [of return_byte]) (simp_all add: crlf_def)
  moreover have "find_sub (newline_byte # ''---'') ?body = Some (length y)" by (rule fence_first [OF assms(6)])
  ultimately have "extract_yaml_frontmatter (''---'' @ [newline_byte] @ ?body) = Inr y"
    unfolding extract_yaml_frontmatter_def p or_else_def using assms(4) by simp
  then show ?thesis by (simp only: raw from_maturana_markdown_def sum.case assms(3) option.case s)
qed

text \<open>A machine that can be started: a processor, at least 512 MiB, the section of its provider, and a login that works.\<close>

definition usable_vm :: "vm \<Rightarrow> bool" where
  "usable_vm v \<longleftrightarrow> 1 \<le> unat (vm_vcpu v) \<and> 512 \<le> unat (vm_memory_mib v) \<and>
     (vm_provider v = HyperV \<or> vm_provider v = Firecracker \<and> vm_firecracker v \<noteq> None) \<and>
     (case vm_cloud_init v of None \<Rightarrow> True | Some c \<Rightarrow> trim_text (ci_username c) \<noteq> [] \<and> prefix ''ssh-'' (ci_ssh_public_key c))"

lemma check_vm_usable: "check_vm s = [] \<Longrightarrow> check_provider s = [] \<Longrightarrow> usable_vm (as_vm s)"
proof -
  assume v: "check_vm s = []" and p: "check_provider s = []"
  have "0 < vm_vcpu (as_vm s)" "512 \<le> vm_memory_mib (as_vm s)"
    using v by (auto simp: check_vm_def word_neq_0_conv)
  then have "1 \<le> unat (vm_vcpu (as_vm s))" "512 \<le> unat (vm_memory_mib (as_vm s))"
    by (simp_all add: word_less_nat_alt word_le_nat_alt)
  moreover have "vm_provider (as_vm s) = HyperV \<or> vm_provider (as_vm s) = Firecracker \<and> vm_firecracker (as_vm s) \<noteq> None"
    using p by (auto simp: check_provider_def split: host_provider.splits)
  ultimately show ?thesis using v by (auto simp: usable_vm_def check_vm_def blank_def split: option.splits)
qed

text \<open>
  C40. What a validated specification guarantees: its id is a plain directory name, the VM has at least one processor and
  512 MiB, the section of its provider and a login with a name and an SSH key, every
  secret it names is a reference and not the secret itself, every guest path that the
  provisioner will delete lies, once \<open>.\<close> and empty parts are resolved, below a root the agent
  owns, every mount names both its sides and none makes the host root writable, and a Firecracker guest that declares egress
  has an enabled proxy.
\<close>

theorem valid_spec_safe:
  assumes "vr_valid (validate_spec windows s)"
  shows "id_id (as_identity s) \<noteq> [] \<and> list_all (\<lambda>c. is_ascii_lower c \<or> is_digit c \<or> c = CHR ''-'') (id_id (as_identity s)) \<and>
    usable_vm (as_vm s) \<and>
    list_all secret_reference (secret_sources s) \<and>
    list_all (\<lambda>a. agent_owned (ha_guest_path a)) (as_harness_auth s) \<and>
    list_all (\<lambda>m. trim_text (mt_host_path m) \<noteq> [] \<and> trim_text (mt_guest_path m) \<noteq> []) (as_mounts s) \<and>
    \<not> list_ex (\<lambda>m. mt_writable m \<and> mt_host_path m = ''/'') (as_mounts s) \<and>
    (vm_provider (as_vm s) = HyperV \<or> (nw_egress_allowlist (as_network s) = [] \<and> \<not> nw_egress_allow_all (as_network s)) \<or>
     (\<exists>p. nw_proxy (as_network s) = Some p \<and> np_enabled p))"
proof -
  have v: "spec_errors s = []" using assms by (simp add: vr_valid_iff)
  have i: "validate_id (id_id (as_identity s)) = []" "check_provider s = []" "check_vm s = []"
    "\<forall>a\<in>set (as_harness_auth s). check_auth a = []" "\<forall>m\<in>set (as_mounts s). check_mount m = []"
    using v by (auto simp: spec_errors_def)
  have "trim_text [] = []" by (simp add: trim_text_def)
  with i(1) have "id_id (as_identity s) \<noteq> []" "list_all (\<lambda>c. is_ascii_lower c \<or> is_digit c \<or> c = CHR ''-'') (id_id (as_identity s))"
    by (auto simp: validate_id_def split: if_splits)
  moreover have "usable_vm (as_vm s)" by (rule check_vm_usable [OF i(3,2)])
  moreover have "list_all secret_reference (secret_sources s)" using valid_secrets [OF v] by (simp add: list_all_iff)
  moreover have "list_all (\<lambda>a. agent_owned (ha_guest_path a)) (as_harness_auth s)"
    using i(4) safe_path_owned by (auto simp: list_all_iff check_auth_def split: if_splits)
  moreover have "list_all (\<lambda>m. trim_text (mt_host_path m) \<noteq> [] \<and> trim_text (mt_guest_path m) \<noteq> []) (as_mounts s)"
    "\<not> list_ex (\<lambda>m. mt_writable m \<and> mt_host_path m = ''/'') (as_mounts s)"
    using i(5) by (auto simp: list_ex_iff list_all_iff check_mount_def blank_def)
  moreover have "vm_provider (as_vm s) = HyperV \<or> (nw_egress_allowlist (as_network s) = [] \<and> \<not> nw_egress_allow_all (as_network s)) \<or>
     (\<exists>p. nw_proxy (as_network s) = Some p \<and> np_enabled p)"
    using i(2) by (auto simp: check_provider_def split: host_provider.splits option.splits)
  ultimately show ?thesis by blast
qed

text \<open>
  Validation and proxy agree on injections: if a specification is valid, the proxy built
  from it allows every host it would inject a secret for, whatever the live grants are. No
  configured credential is unreachable.
\<close>

theorem valid_injections_allowed:
  assumes "vr_valid (validate_spec windows s)" and "from_spec (network_of s) = Inr cfg"
    and "normalize_host raw = Inr h" and "has_injections h cfg"
  shows "classify_host cfg grants h \<noteq> Denied"
proof -
  obtain p where p: "nw_proxy (as_network s) = Some p" "np_enabled p" and
    cfg: "p_allowlist cfg = fold add_host (concat (map mcp_egress_hosts (as_mcp_servers s))) (nw_egress_allowlist (as_network s))"
      "p_allow_all cfg = nw_egress_allow_all (as_network s)"
      "p_injections cfg = map (\<lambda>j. \<lparr> j_host = to_ascii_lowercase (trim_text (j_host j)), j_header = trim_text (j_header j),
                 j_source = trim_text (j_source j), j_prefix = j_prefix j \<rparr>) (np_inject_headers p)"
    using assms(2) unfolding from_spec_network by auto
  show ?thesis
  proof (cases "egress_open s")
    case True
    with cfg show ?thesis by (auto simp: classify_host_def egress_open_def add_hosts_star)
  next
    case False
    obtain j where j: "j \<in> set (np_inject_headers p)" "to_ascii_lowercase (trim_text (j_host j)) = h"
      using assms(4) cfg(3) by (auto simp: has_injections_def list_ex_iff)
    have "check_proxy s = []" using assms(1) by (simp add: vr_valid_iff spec_errors_def)
    with p j(1) have "check_injection s p j = []" by (simp add: check_proxy_def)
    with p False obtain a where a: "a \<in> set (nw_egress_allowlist (as_network s))" "eq_ignore_case a (to_ascii_lowercase (j_host j))"
      by (auto simp: check_injection_def list_ex_iff)
    have "to_ascii_lowercase (trim_text a) = h"
      using a(2) j(2) trim_lower [of a] trim_lower [of "j_host j"] by (simp add: eq_ignore_case_def)
    moreover have "a \<in> set (p_allowlist cfg)" using add_hosts_keep [OF a(1)] cfg(1) by simp
    ultimately have "host_allowed h (p_allowlist cfg)" using listed_allowed assms(3) by blast
    then show ?thesis by (simp add: classify_host_def)
  qed
qed

text \<open>
  When the egress of an agent is open: exactly if the specification says so (the flag, or
  a wildcard in its allowlist) or one of its MCP servers lists the wildcard. The validation
  warns of an open boundary only in the first case.
\<close>

theorem egress_open_exact:
  assumes "from_spec (network_of s) = Inr cfg"
  shows "(classify_host cfg [] h = AllowAll) =
      (OpenEgress \<in> set (vr_warnings (validate_spec windows s)) \<or>
       (\<exists>m\<in>set (as_mcp_servers s). \<exists>x\<in>set (mcp_egress_hosts m). trim_text x = ''*''))"
proof -
  have w: "OpenEgress \<in> set (vr_warnings (validate_spec windows s)) \<longleftrightarrow> egress_open s"
    by (auto simp: validate_spec_def spec_warnings_def err_def split: host_provider.split if_splits)
  obtain p where cfg: "p_allowlist cfg = fold add_host (concat (map mcp_egress_hosts (as_mcp_servers s))) (nw_egress_allowlist (as_network s))"
      "p_allow_all cfg = nw_egress_allow_all (as_network s)"
    using assms unfolding from_spec_network by auto
  have "(classify_host cfg [] h = AllowAll) = (p_allow_all cfg \<or> list_ex (\<lambda>h. trim_text h = ''*'') (p_allowlist cfg))"
    by (simp add: classify_host_def)
  then show ?thesis unfolding w cfg add_hosts_star egress_open_def by (auto simp: list_ex_iff)
qed

section \<open>Witnesses\<close>

definition demo_agent :: agent_description where
  "demo_agent = \<lparr> as_identity = \<lparr> id_id = ''a-1'', id_name = ''A'', id_purpose = ''x'' \<rparr>, as_harness = ClaudeCode,
     as_vm = \<lparr> vm_provider = Firecracker, vm_guest_os = Linux, vm_vcpu = 2, vm_memory_mib = 2048, vm_boot_image = None, vm_switch_name = None,
       vm_cloud_init = None, vm_firecracker = Some \<lparr> fc_kernel_image = ''k'', fc_rootfs_image = ''r'', fc_tap_name = ''t'', fc_host_ip = ''h'',
         fc_guest_ip = ''g'', fc_guest_mac = ''m'', fc_kernel_args = [] \<rparr> \<rparr>,
     as_mounts = [],
     as_network = \<lparr> nw_egress_allowlist = ['' API.x ''], nw_egress_allow_all = False,
       nw_proxy = Some \<lparr> np_enabled = True, np_bind = ''b'', np_inject_headers =
         [\<lparr> j_host = '' api.X '', j_header = ''K'', j_source = ''pipelock:k'', j_prefix = None \<rparr>] \<rparr> \<rparr>,
     as_credentials = [\<lparr> cr_name = ''c'', cr_source = ''env:C'' \<rparr>],
     as_harness_auth = [\<lparr> ha_runtime = ClaudeCode, ha_source_path = ''s'', ha_guest_path = ''/home/u/.c'' \<rparr>],
     as_memory = \<lparr> me_wiki_path = None, me_agent_memory_path = None \<rparr>, as_knowledge_graph = \<lparr> kg_enabled = True, kg_graph = None \<rparr>,
     as_mcp_servers = [\<lparr> mcp_name = ''m'', mcp_transport_of = Stdio, mcp_command = Some ''n'', mcp_args = [], mcp_url = None,
       mcp_env = [], mcp_egress_hosts = [''*''] \<rparr>],
     as_capabilities = \<lparr> cap_image_gen = False, cap_voice = False, cap_self_forge = False \<rparr>, as_skills = [], as_tools = [], as_schedules = [],
     as_channels = \<lparr> ch_tui = False, ch_telegram = None, ch_discord = None, ch_slack = None, ch_agentmail = None \<rparr> \<rparr>"

definition demo_proxy :: proxy_config where
  "demo_proxy = \<lparr> p_allowlist = ['' API.x '', ''*''], p_allow_all = False,
     p_injections = [\<lparr> j_host = ''api.x'', j_header = ''K'', j_source = ''pipelock:k'', j_prefix = None \<rparr>] \<rparr>"

lemma demo_valid: "vr_valid (validate_spec False demo_agent)"
  by code_simp

lemma demo_from_spec: "from_spec (network_of demo_agent) = Inr demo_proxy"
  by code_simp

definition demo_yaml :: "str \<Rightarrow> agent_description option" where
  "demo_yaml t = (if t = ''a'' then Some demo_agent else None)"

theorem spec_file_roundtrip_witness:
  "from_maturana_markdown demo_yaml (to_maturana_markdown (\<lambda>_. ''a'' @ [newline_byte]) demo_agent) = Inr demo_agent"
proof (rule spec_file_roundtrip)
  show "from_maturana_markdown demo_yaml (''---'' @ crlf @ ''a'' @ crlf @ ''---'') = Inr demo_agent" by code_simp
  show "\<not> contains (newline_byte # ''---'') ''a''" by code_simp
qed (simp_all add: demo_yaml_def demo_agent_def trim_text_def byte_in_def blank_char_def)

theorem valid_spec_safe_witness:
  "usable_vm (as_vm demo_agent) \<and> list_all secret_reference (secret_sources demo_agent) \<and>
    list_all (\<lambda>a. agent_owned (ha_guest_path a)) (as_harness_auth demo_agent)"
  using valid_spec_safe [OF demo_valid] by blast

theorem valid_injections_allowed_witness: "classify_host demo_proxy [] ''api.x'' \<noteq> Denied"
proof (rule valid_injections_allowed [OF demo_valid demo_from_spec])
  show "normalize_host ''Api.x.'' = Inr ''api.x''" "has_injections ''api.x'' demo_proxy" by code_simp+
qed

theorem egress_open_exact_witness:
  "(classify_host demo_proxy [] ''any'' = AllowAll) =
      (OpenEgress \<in> set (vr_warnings (validate_spec False demo_agent)) \<or>
       (\<exists>m\<in>set (as_mcp_servers demo_agent). \<exists>x\<in>set (mcp_egress_hosts m). trim_text x = ''*''))"
  by (rule egress_open_exact [OF demo_from_spec])

text \<open>
  Three gaps: a valid specification whose MCP server opens the egress without the warning;
  the root of all home directories counts as owned by the agent; and in a file with plain
  line feeds a later fence that follows a carriage return ends the front matter instead of the first.
\<close>

lemma silent_open_egress:
  "vr_valid (validate_spec False demo_agent) \<and> classify_host demo_proxy [] ''any'' = AllowAll \<and>
   OpenEgress \<notin> set (vr_warnings (validate_spec False demo_agent))"
  by code_simp

lemma home_root_accepted: "is_safe_guest_path ''/home/'' \<and> path_parts ''/home/'' = [''home'']"
  by code_simp

lemma late_fence_wins:
  "extract_yaml_frontmatter (''---'' @ [newline_byte] @ ''a'' @ [newline_byte] @ ''---'' @ [newline_byte] @ ''b'' @ crlf @ ''---'') =
     Inr (''a'' @ [newline_byte] @ ''---'' @ [newline_byte] @ ''b'')"
  by code_simp

end
