(* ===== verification/Sessiond.thy ===== *)
theory Sessiond
  imports Session_Queue Agent_Spec Verify
begin

text \<open>
  The session daemon of \<open>crates/maturana-cli/src/session.rs\<close>: HTTP requests read from a
  socket, the token check, the identifiers that become paths, and the routes over the session
  queues of all agents. Bodies are decoded by parameters (\<open>serde_json\<close>), clocks and ids are
  the environment; the engine that runs forged tools is a parameter.
\<close>

section \<open>Reading a request\<close>

record http_request =
  h_method :: str
  h_path :: str
  h_headers :: "str \<rightharpoonup> str"
  h_body :: str

datatype http_error = ClosedEarly | HeadTooLarge | BodyTooLarge | SocketFailed

definition max_body_bytes :: nat where
  "max_body_bytes = 1024 * 1024"

fun read_head :: "str \<Rightarrow> read_result list \<Rightarrow> http_error + str \<times> nat \<times> read_result list" where
  "read_head data [] = Inl ClosedEarly"
| "read_head data (Data c # rs) =
     (if c = [] then Inl ClosedEarly
      else (case find_sub head_end (data @ c) of
          Some i \<Rightarrow> Inr (data @ c, i, rs)
        | None \<Rightarrow> if 1024 * 1024 < length (data @ c) then Inl HeadTooLarge else read_head (data @ c) rs))"
| "read_head data (_ # rs) = Inl SocketFailed"

text \<open>Read on until \<open>n\<close> bytes are there; the end of the stream ends the body early.\<close>

fun read_body :: "nat \<Rightarrow> str \<Rightarrow> read_result list \<Rightarrow> http_error + str" where
  "read_body n data rs =
     (if n \<le> length data then Inr data
      else case rs of
        [] \<Rightarrow> Inr data
      | Data c # rs' \<Rightarrow> if c = [] then Inr data else read_body n (data @ c) rs'
      | _ # _ \<Rightarrow> Inl SocketFailed)"

declare read_body.simps [simp del]

definition parse_head :: "str \<Rightarrow> str \<times> str \<times> (str \<rightharpoonup> str)" where
  "parse_head raw =
     (let ls = split_pat crlf (from_utf8_lossy raw);
          ws = split_whitespace (hd ls)
      in (case ws of m # _ \<Rightarrow> m | [] \<Rightarrow> [], case ws of _ # p # _ \<Rightarrow> p | _ \<Rightarrow> [],
          fold (\<lambda>l hs. case split_once CHR '':'' l of
              Some (k, v) \<Rightarrow> hs(to_ascii_lowercase (trim_text k) \<mapsto> trim_text v) | None \<Rightarrow> hs) (tl ls) Map.empty))"

definition content_length :: "(str \<rightharpoonup> str) \<Rightarrow> nat" where
  "content_length hs = (case hs ''content-length'' of None \<Rightarrow> 0
     | Some v \<Rightarrow> (case parse_nat_below (2 ^ 64) v of Some n \<Rightarrow> n | None \<Rightarrow> 0))"

definition read_request :: "read_result list \<Rightarrow> http_error + http_request" where
  "read_request rs =
     (case read_head [] rs of
        Inl e \<Rightarrow> Inl e
      | Inr (data, i, rest) \<Rightarrow>
          (case parse_head (take i data) of (m, p, hs) \<Rightarrow>
             let n = content_length hs
             in if max_body_bytes < n then Inl BodyTooLarge
                else (case read_body (i + 4 + n) data rest of
                    Inl e \<Rightarrow> Inl e
                  | Inr all \<Rightarrow> Inr \<lparr> h_method = m, h_path = p, h_headers = hs,
                      h_body = (if i + 4 + n \<le> length all then take n (drop (i + 4) all) else []) \<rparr>)))"

section \<open>Checks\<close>

text \<open>The comparison loop: \<open>diff |= x ^ y\<close> on bytes.\<close>

definition byte_word :: "char \<Rightarrow> 8 word" where
  "byte_word c = of_nat (of_char c)"

unbundle bit_operations_syntax

definition constant_time_eq :: "str \<Rightarrow> str \<Rightarrow> bool" where
  "constant_time_eq a b =
     (if length a \<noteq> length b then False
      else fold (\<lambda>(x, y) diff. diff OR (byte_word x XOR byte_word y)) (zip a b) 0 = 0)"

definition valid_identifier :: "str \<Rightarrow> bool" where
  "valid_identifier v \<longleftrightarrow> v \<noteq> [] \<and> length v \<le> 128 \<and> v \<noteq> ''.'' \<and> v \<noteq> ''..'' \<and>
     list_all (\<lambda>c. is_ascii_alnum c \<or> c \<in> {CHR ''-'', CHR ''_'', CHR ''.''}) v \<and> \<not> contains ''..'' v"

definition check_identifiers :: "str \<Rightarrow> str \<Rightarrow> str + unit" where
  "check_identifiers agent session =
     (if \<not> valid_identifier agent then Inl ''invalid agent_id''
      else if \<not> valid_identifier session then Inl ''invalid session_id''
      else Inr ())"

section \<open>The host and its environment\<close>

record worker_status =
  ws_session :: str
  ws_status :: str
  ws_message_id :: "str option"
  ws_error :: "str option"
  ws_at :: timestamp

record trajectory =
  tj_agent :: str
  tj_session :: str
  tj_input :: str
  tj_output :: str

text \<open>Sessions and status files by agent, the specification files, the trajectory store.\<close>

record host =
  hs_sessions :: "str \<Rightarrow> str \<Rightarrow> session option"
  hs_status :: "str \<Rightarrow> worker_status option"
  hs_specs :: "str \<Rightarrow> str option"
  hs_trajectories :: "trajectory list"

record claim_request =
  cl_agent :: str
  cl_session :: str
  cl_limit :: "nat option"

record complete_request =
  co_agent :: str
  co_session :: str
  co_message_ids :: "str list"

record cancel_status_request =
  cs_agent :: str
  cs_session :: str
  cs_message_id :: str

record outbound_request =
  ob_agent :: str
  ob_session :: str
  ob_in_reply_to :: "str option"
  ob_kind :: str
  ob_channel :: str
  ob_platform_id :: str
  ob_thread_id :: "str option"
  ob_content :: str

record heartbeat_request =
  hb_agent :: str
  hb_session :: str
  hb_status :: str
  hb_message_id :: "str option"
  hb_error :: "str option"

record progress_request =
  pr_agent :: str
  pr_session :: str
  pr_message_id :: str
  pr_seq :: nat
  pr_kind :: str
  pr_text :: str

text \<open>The capabilities and limits of a forged tool go to the engine with its source.\<close>

record forge_request =
  fo_agent :: str
  fo_session :: str
  fo_message_id :: "str option"
  fo_name :: str
  fo_format :: "str option"
  fo_source :: str

record message_json =
  mj_text :: "str option"
  mj_files :: "str list"

record forge_outcome =
  fg_ok :: bool
  fg_name :: str
  fg_stdout :: str

datatype forge_format = Wat | WasmBase64

record sessiond_env =
  sv_claim :: "str \<Rightarrow> claim_request option"
  sv_complete :: "str \<Rightarrow> complete_request option"
  sv_cancel_status :: "str \<Rightarrow> cancel_status_request option"
  sv_outbound :: "str \<Rightarrow> outbound_request option"
  sv_heartbeat :: "str \<Rightarrow> heartbeat_request option"
  sv_progress :: "str \<Rightarrow> progress_request option"
  sv_forge :: "str \<Rightarrow> forge_request option"
  sv_message :: "str \<Rightarrow> message_json option"
  sv_yaml :: "str \<Rightarrow> agent_description option"
  sv_clocks :: clocks
  sv_dead_body :: str
  sv_dead_uuids :: "str list"
  sv_uuid :: str
  sv_now :: timestamp
  sv_store_ok :: bool
  sv_forge_text :: "str \<Rightarrow> str \<Rightarrow> str"
  sv_engine :: "forge_request \<Rightarrow> forge_format \<Rightarrow> str + forge_outcome"

datatype payload =
    Fine | Messages "in_row list" | Cancelled bool | Posted str | Forged forge_outcome | Refused str

type_synonym http_response = "nat \<times> payload"

definition message_text :: "(str \<Rightarrow> message_json option) \<Rightarrow> str \<Rightarrow> str option" where
  "message_text json content =
     (case json content of None \<Rightarrow> None | Some v \<Rightarrow> Some (case mj_text v of Some t \<Rightarrow> t | None \<Rightarrow> content))"

definition message_files :: "(str \<Rightarrow> message_json option) \<Rightarrow> str \<Rightarrow> str list" where
  "message_files json content = (case json content of None \<Rightarrow> [] | Some v \<Rightarrow> mj_files v)"

definition session_at :: "host \<Rightarrow> str \<Rightarrow> str \<Rightarrow> session" where
  "session_at w a i = (case hs_sessions w a i of None \<Rightarrow> empty_session | Some s \<Rightarrow> s)"

definition put_session :: "str \<Rightarrow> str \<Rightarrow> session \<Rightarrow> host \<Rightarrow> host" where
  "put_session a i s w = w\<lparr>hs_sessions := (hs_sessions w)(a := (hs_sessions w a)(i \<mapsto> s))\<rparr>"

section \<open>The routes\<close>

text \<open>A route that decodes its body, checks the identifiers and opens the session.\<close>

definition on_session ::
    "'b option \<Rightarrow> ('b \<Rightarrow> str) \<Rightarrow> ('b \<Rightarrow> str) \<Rightarrow> ('b \<Rightarrow> session \<Rightarrow> http_response \<times> session) \<Rightarrow> host \<Rightarrow> http_response \<times> host" where
  "on_session body agent session k w =
     (case body of
        None \<Rightarrow> ((500, Refused ''json''), w)
      | Some b \<Rightarrow>
          (case check_identifiers (agent b) (session b) of
             Inl e \<Rightarrow> ((400, Refused e), w)
           | Inr _ \<Rightarrow>
               (case k b (session_at w (agent b) (session b)) of
                  (r, s) \<Rightarrow> (r, put_session (agent b) (session b) s w))))"

definition do_claim :: "sessiond_env \<Rightarrow> claim_request \<Rightarrow> session \<Rightarrow> http_response \<times> session" where
  "do_claim E b s =
     (case claim_pending_inbound (sv_clocks E) (sv_dead_body E) (sv_dead_uuids E)
             (max 1 (min 20 (case cl_limit b of Some n \<Rightarrow> n | None \<Rightarrow> 1))) s of
        (ms, s') \<Rightarrow> ((200, Messages ms), s'))"

definition do_complete :: "sessiond_env \<Rightarrow> complete_request \<Rightarrow> session \<Rightarrow> http_response \<times> session" where
  "do_complete E b s = ((200, Fine), mark_inbound_completed (sv_now E) (co_message_ids b) s)"

definition do_cancel_status :: "cancel_status_request \<Rightarrow> session \<Rightarrow> http_response \<times> session" where
  "do_cancel_status b s = ((200, Cancelled (is_cancel_requested s (cs_message_id b))), s)"

definition do_outbound :: "sessiond_env \<Rightarrow> outbound_request \<Rightarrow> session \<Rightarrow> http_response \<times> session" where
  "do_outbound E b s =
     (case write_outbound (sv_uuid E) (sv_now E) (ob_in_reply_to b) (ob_kind b) (ob_channel b) (ob_platform_id b)
             (ob_thread_id b) (ob_content b) s of
        Inl _ \<Rightarrow> ((500, Refused ''database''), s)
      | Inr (i, s') \<Rightarrow> ((200, Posted i), s'))"

definition do_progress :: "progress_request \<Rightarrow> session \<Rightarrow> http_response \<times> session" where
  "do_progress b s =
     ((200, Fine), append_progress (pr_message_id b) \<lparr> pe_seq = pr_seq b, pe_kind = pr_kind b, pe_text = pr_text b \<rparr> s)"

definition record_chat_trajectory :: "sessiond_env \<Rightarrow> outbound_request \<Rightarrow> host \<Rightarrow> host" where
  "record_chat_trajectory E b w =
     (let s = session_at w (ob_agent b) (ob_session b);
          text = (\<lambda>c. case message_text (sv_message E) c of Some t \<Rightarrow> t | None \<Rightarrow> []);
          input = (case ob_in_reply_to b of
              None \<Rightarrow> []
            | Some r \<Rightarrow> (case List.find (\<lambda>m. i_id m = r) (list_recent_inbound 50 s) of Some m \<Rightarrow> text (i_content m) | None \<Rightarrow> []))
      in if sv_store_ok E
         then w\<lparr>hs_trajectories := hs_trajectories w @
           [\<lparr> tj_agent = ob_agent b, tj_session = ob_session b, tj_input = input, tj_output = text (ob_content b) \<rparr>]\<rparr>
         else w)"

definition post_outbound :: "sessiond_env \<Rightarrow> str \<Rightarrow> host \<Rightarrow> http_response \<times> host" where
  "post_outbound E body w =
     (case on_session (sv_outbound E body) ob_agent ob_session (do_outbound E) w of
        (r, w') \<Rightarrow>
          (r, case (r, sv_outbound E body) of
              ((_, Posted _), Some b) \<Rightarrow> if ob_kind b = ''chat'' then record_chat_trajectory E b w' else w'
            | _ \<Rightarrow> w'))"

definition write_worker_status :: "sessiond_env \<Rightarrow> heartbeat_request \<Rightarrow> host \<Rightarrow> host" where
  "write_worker_status E b w = w\<lparr>hs_status := (hs_status w)(hb_agent b \<mapsto>
     \<lparr> ws_session = hb_session b, ws_status = hb_status b, ws_message_id = hb_message_id b, ws_error = hb_error b, ws_at = sv_now E \<rparr>)\<rparr>"

definition post_heartbeat :: "sessiond_env \<Rightarrow> str \<Rightarrow> host \<Rightarrow> http_response \<times> host" where
  "post_heartbeat E body w =
     (case sv_heartbeat E body of
        None \<Rightarrow> ((500, Refused ''json''), w)
      | Some b \<Rightarrow> (case check_identifiers (hb_agent b) (hb_session b) of
            Inl e \<Rightarrow> ((400, Refused e), w)
          | Inr _ \<Rightarrow> ((200, Fine), write_worker_status E b w)))"

section \<open>Forging tools\<close>

definition parse_forge_format :: "str \<Rightarrow> forge_format option" where
  "parse_forge_format v =
     (let f = to_ascii_lowercase (trim_text v)
      in if f \<in> {''wat'', ''wast'', ''text''} then Some Wat
         else if f \<in> {''wasm'', ''wasm-base64'', ''base64'', ''binary''} then Some WasmBase64
         else None)"

text \<open>Progress goes to the lane of the turn in flight, if the request names one.\<close>

definition forge_emit :: "sessiond_env \<Rightarrow> forge_request \<Rightarrow> nat \<Rightarrow> str \<Rightarrow> session \<Rightarrow> session" where
  "forge_emit E b offset kind s =
     (case fo_message_id b of
        None \<Rightarrow> s
      | Some m \<Rightarrow> append_progress m \<lparr> pe_seq = nat (sv_now E div 1000000) + offset, pe_kind = kind,
          pe_text = sv_forge_text E kind (trim_text (fo_name b)) \<rparr> s)"

definition forge_impl :: "sessiond_env \<Rightarrow> forge_request \<Rightarrow> session \<Rightarrow> http_response \<times> session" where
  "forge_impl E b s =
     (case parse_forge_format (case fo_format b of Some f \<Rightarrow> f | None \<Rightarrow> ''wat'') of
        None \<Rightarrow> ((400, Refused ''unknown forge source format''), s)
      | Some f \<Rightarrow>
          let s1 = forge_emit E b 1 ''forge.running'' (forge_emit E b 0 ''forge.building'' s)
          in case sv_engine E (b\<lparr>fo_name := trim_text (fo_name b)\<rparr>) f of
               Inl e \<Rightarrow> ((400, Refused e), forge_emit E b 2 ''forge.failed'' s1)
             | Inr r \<Rightarrow> ((200, Forged r), forge_emit E b 2 ''forge.done'' s1))"

definition self_forge_granted :: "sessiond_env \<Rightarrow> host \<Rightarrow> str \<Rightarrow> bool" where
  "self_forge_granted E w agent =
     (case hs_specs w agent of
        None \<Rightarrow> False
      | Some raw \<Rightarrow> (case from_maturana_markdown (sv_yaml E) raw of
            Inl _ \<Rightarrow> False
          | Inr spec \<Rightarrow> cap_self_forge (as_capabilities spec)))"

definition handle_forge :: "sessiond_env \<Rightarrow> str \<Rightarrow> host \<Rightarrow> http_response \<times> host" where
  "handle_forge E body w =
     (case sv_forge E body of
        None \<Rightarrow> ((400, Refused ''invalid forge request''), w)
      | Some b \<Rightarrow>
          (case check_identifiers (fo_agent b) (fo_session b) of
             Inl e \<Rightarrow> ((400, Refused e), w)
           | Inr _ \<Rightarrow>
               if \<not> self_forge_granted E w (fo_agent b) then ((403, Refused ''self_forge capability not granted''), w)
               else (case forge_impl E b (session_at w (fo_agent b) (fo_session b)) of
                   (r, s) \<Rightarrow> (r, put_session (fo_agent b) (fo_session b) s w))))"

section \<open>The server\<close>

definition reason_phrase :: "nat \<Rightarrow> str" where
  "reason_phrase status = (if status = 200 then ''OK'' else if status = 401 then ''Unauthorized''
     else if status = 404 then ''Not Found'' else ''Internal Server Error'')"

definition response_bytes :: "nat \<Rightarrow> str \<Rightarrow> str" where
  "response_bytes status body =
     ''HTTP/1.1 '' @ show_nat status @ '' '' @ reason_phrase status @ crlf @ ''content-type: application/json'' @ crlf
     @ ''content-length: '' @ show_nat (length body) @ crlf @ ''connection: close'' @ crlf @ crlf @ body"

definition authorized :: "str \<Rightarrow> http_request \<Rightarrow> bool" where
  "authorized token req =
     constant_time_eq (case h_headers req ''x-maturana-session-token'' of Some t \<Rightarrow> t | None \<Rightarrow> []) token"

definition route :: "sessiond_env \<Rightarrow> http_request \<Rightarrow> host \<Rightarrow> http_response \<times> host" where
  "route E req w =
     (let m = h_method req; p = h_path req; body = h_body req
      in if m = ''GET'' \<and> p = ''/health'' then ((200, Fine), w)
         else if m \<noteq> ''POST'' then ((404, Refused ''not found''), w)
         else if p = ''/session/claim'' then on_session (sv_claim E body) cl_agent cl_session (do_claim E) w
         else if p = ''/session/complete'' then on_session (sv_complete E body) co_agent co_session (do_complete E) w
         else if p = ''/session/cancel-status'' then on_session (sv_cancel_status E body) cs_agent cs_session do_cancel_status w
         else if p = ''/session/outbound'' then post_outbound E body w
         else if p = ''/session/heartbeat'' then post_heartbeat E body w
         else if p = ''/session/progress'' then on_session (sv_progress E body) pr_agent pr_session do_progress w
         else if p = ''/session/forge'' then handle_forge E body w
         else ((404, Refused ''not found''), w))"

definition handle_sessiond_request :: "str \<Rightarrow> sessiond_env \<Rightarrow> read_result list \<Rightarrow> host \<Rightarrow> (http_error + http_response) \<times> host" where
  "handle_sessiond_request token E rs w =
     (case read_request rs of
        Inl e \<Rightarrow> (Inl e, w)
      | Inr req \<Rightarrow>
          if h_path req \<noteq> ''/health'' \<and> \<not> authorized token req then (Inr (401, Refused ''unauthorized''), w)
          else (case route E req w of (r, w') \<Rightarrow> (Inr r, w')))"

fun serve_connections :: "str \<Rightarrow> (sessiond_env \<times> read_result list) list \<Rightarrow> host \<Rightarrow> http_response list \<times> host" where
  "serve_connections token [] w = ([], w)"
| "serve_connections token ((E, rs) # cs) w =
     (case handle_sessiond_request token E rs w of
        (r, w') \<Rightarrow> (case serve_connections token cs w' of
          (out, w'') \<Rightarrow> ((case r of Inl _ \<Rightarrow> (500, Refused ''request'') | Inr x \<Rightarrow> x) # out, w'')))"

definition serve_sessiond ::
  "str option \<Rightarrow> (sessiond_env \<times> read_result list) list \<Rightarrow> host \<Rightarrow> str + http_response list \<times> host" where
  "serve_sessiond token cs w =
     (case token of
        None \<Rightarrow> Inl ''sessiond requires a token''
      | Some t \<Rightarrow> if t = [] then Inl ''sessiond requires a token'' else Inr (serve_connections t cs w))"

section \<open>Where a session lives\<close>

text \<open>\<open>Path::join\<close> on Unix: an absolute argument replaces the path.\<close>

definition path_join :: "str \<Rightarrow> str \<Rightarrow> str" where
  "path_join base p =
     (if prefix ''/'' p then p else if base = [] \<or> last base = CHR ''/'' then base @ p else base @ CHR ''/'' # p)"

text \<open>\<open>Path::file_name\<close>.\<close>

definition file_name :: "str \<Rightarrow> str option" where
  "file_name p = (let ps = path_parts p in if ps = [] \<or> last ps = ''..'' then None else Some (last ps))"

definition agent_dir :: "str \<Rightarrow> str \<Rightarrow> str" where
  "agent_dir root agent = path_join (path_join root ''agents'') agent"

definition session_dir :: "str \<Rightarrow> str \<Rightarrow> str" where
  "session_dir dir i = path_join (path_join dir ''sessions'') i"

section \<open>Facts\<close>

lemma byte_word_eq [simp]: "byte_word x = byte_word y \<longleftrightarrow> x = y"
proof -
  have b: "unat (byte_word c) = of_char c" for c
    using nat_of_char_less_256 [of c] by (simp add: byte_word_def unat_of_nat take_bit_nat_eq_self_iff)
  show ?thesis by (metis b of_char_eq_iff)
qed

lemma constant_time_fold: "length a = length b \<Longrightarrow>
  fold (\<lambda>(x, y) diff. diff OR (byte_word x XOR byte_word y)) (zip a b) d = (0 :: 8 word) \<longleftrightarrow> d = 0 \<and> a = b"
proof (induction a b arbitrary: d rule: list_induct2)
  case (Cons x xs y ys)
  have "byte_word x XOR byte_word y = 0 \<longleftrightarrow> byte_word x = byte_word y"
    by (metis xor.assoc xor_self_eq xor.left_neutral xor.right_neutral)
  then show ?case using Cons.IH by (auto simp: or_eq_0_iff)
qed simp

lemma constant_time_iff [simp]: "constant_time_eq a b \<longleftrightarrow> a = b"
  by (auto simp: constant_time_eq_def constant_time_fold)

lemma authorized_iff: "token \<noteq> [] \<Longrightarrow> authorized token req \<longleftrightarrow> h_headers req ''x-maturana-session-token'' = Some token"
  by (auto simp: authorized_def split: option.split)

lemma prefix_within: "length p \<le> length x \<Longrightarrow> prefix p (x @ y) \<longleftrightarrow> prefix p x"
  using prefix_length_prefix [of p "x @ y" x] by auto

lemma find_sub_append: "find_sub p x = Some i \<Longrightarrow> find_sub p (x @ y) = Some i"
proof (induction x arbitrary: i)
  case Nil
  then show ?case by (cases y) (auto split: if_splits)
next
  case (Cons c x)
  show ?case
  proof (cases "prefix p (c # x)")
    case True
    then have "prefix p ((c # x) @ y)" by (rule prefix_prefix)
    with True Cons.prems show ?thesis by simp
  next
    case False
    with Cons.prems obtain j where j: "find_sub p x = Some j" "i = Suc j" by auto
    then have "length p \<le> length (c # x)" using find_sub_Some [OF j(1)] by simp
    with False have "\<not> prefix p ((c # x) @ y)" by (metis prefix_within)
    with j Cons.IH show ?thesis by simp
  qed
qed

lemma find_sub_within: "find_sub p (x @ y) = Some i \<Longrightarrow> i + length p \<le> length x \<Longrightarrow> find_sub p x = Some i"
proof (induction x arbitrary: i)
  case (Cons c x)
  show ?case
  proof (cases i)
    case 0
    with Cons.prems have "prefix p ((c # x) @ y)" by (auto split: if_splits)
    then show ?thesis using Cons.prems 0 prefix_within [of p "c # x" y] by simp
  next
    case (Suc j)
    with Cons.prems have "\<not> prefix p ((c # x) @ y)" "find_sub p (x @ y) = Some j" by (auto split: if_splits)
    then show ?thesis using Suc Cons.prems(2) Cons.IH [of j] prefix_within [of p "c # x" y] by simp
  qed
qed simp

lemma read_body_chunks: "[] \<notin> set cs \<Longrightarrow>
  \<exists>all r. read_body n d (map Data cs) = Inr all \<and> all @ r = d @ concat cs \<and> (n \<le> length all \<or> r = [])"
proof (induction cs arbitrary: d)
  case Nil
  then show ?case by (simp add: read_body.simps)
next
  case (Cons c cs)
  then show ?case using Cons.IH [of "d @ c"] by (auto simp: read_body.simps)
qed

lemma read_head_chunks: "find_sub head_end (d @ concat cs) = Some i \<Longrightarrow> i + 4 \<le> 1024 * 1024 \<Longrightarrow> [] \<notin> set cs \<Longrightarrow>
  find_sub head_end d = None \<Longrightarrow>
  \<exists>e cs'. read_head d (map Data cs) = Inr (e, i, map Data cs') \<and> e @ concat cs' = d @ concat cs \<and> [] \<notin> set cs'"
proof (induction cs arbitrary: d)
  case (Cons c cs)
  show ?case
  proof (cases "find_sub head_end (d @ c)")
    case None
    have "length (d @ c) < i + 4"
      using find_sub_within [of head_end "d @ c" "concat cs" i] None Cons.prems(1) by (fastforce simp: head_end_def)
    with Cons.prems Cons.IH [of "d @ c"] None show ?thesis by auto
  next
    case (Some j)
    then have "j = i" using find_sub_append [OF Some, of "concat cs"] Cons.prems(1) by simp
    with Some Cons.prems show ?thesis by auto
  qed
qed simp

lemma read_head_found: "read_head d rs = Inr (e, i, rest) \<Longrightarrow> find_sub head_end e = Some i"
  by (induction d rs rule: read_head.induct) (auto split: if_splits option.splits)

text \<open>How a request is read does not depend on how its bytes arrive.\<close>

lemma read_chunks_whole:
  assumes "[] \<notin> set cs" "contains head_end (take (1024 * 1024) (concat cs))"
  shows "read_request (map Data cs) = read_request [Data (concat cs)]"
proof -
  let ?w = "concat cs"
  obtain i where i0: "find_sub head_end (take (1024 * 1024) ?w) = Some i" using assms(2) by (auto simp: contains_def)
  have i: "find_sub head_end ?w = Some i" using find_sub_append [OF i0, of "drop (1024 * 1024) ?w"] by simp
  have le: "i + 4 \<le> 1024 * 1024" "i + 4 \<le> length ?w" using find_sub_Some [OF i0] by (auto simp: head_end_def)
  obtain e cs' where e: "read_head [] (map Data cs) = Inr (e, i, map Data cs')" "e @ concat cs' = ?w" "[] \<notin> set cs'"
    using read_head_chunks [of "[]" cs i] i le(1) assms(1) by (auto simp: head_end_def)
  have ie: "find_sub head_end e = Some i"
    using e(1) by (rule read_head_found)
  have ile: "i \<le> length e" using find_sub_Some [OF ie] by simp
  have "?w \<noteq> []" using le(2) by (metis add_is_0 le_zero_eq list.size(3) zero_neq_numeral)
  then have one: "read_head [] [Data ?w] = Inr (?w, i, [])" using i le by simp
  have t: "take i e = take i ?w" using e(2) ile by (metis take_append take0 append_Nil2 diff_is_0_eq)
  obtain m p hs where mp: "parse_head (take i ?w) = (m, p, hs)" by (metis prod_cases3)
  let ?n = "content_length hs"
  obtain all r where all: "read_body (i + 4 + ?n) e (map Data cs') = Inr all" "all @ r = ?w" "i + 4 + ?n \<le> length all \<or> r = []"
    using read_body_chunks [OF e(3), of "i + 4 + ?n" e] e(2) by auto
  have whole: "read_body (i + 4 + ?n) ?w [] = Inr ?w" by (simp add: read_body.simps)
  have same: "(if i + 4 + ?n \<le> length all then take ?n (drop (i + 4) all) else []) =
      (if i + 4 + ?n \<le> length ?w then take ?n (drop (i + 4) ?w) else [])"
    unfolding all(2) [symmetric] using all(3) by auto
  show ?thesis using e(1) one t mp all(1) whole same by (simp add: read_request_def Let_def)
qed

section \<open>Sessions behind the routes\<close>

abbreviation queue_reachable :: "session \<Rightarrow> bool" where
  "queue_reachable \<equiv> session_reachable default_policy"

definition sessions_reachable :: "host \<Rightarrow> bool" where
  "sessions_reachable w \<longleftrightarrow> (\<forall>a i s. hs_sessions w a i = Some s \<longrightarrow> queue_reachable s)"

text \<open>The entries that differ belong to valid identifiers.\<close>

definition confined :: "host \<Rightarrow> host \<Rightarrow> bool" where
  "confined w w' \<longleftrightarrow> hs_specs w' = hs_specs w
     \<and> (\<forall>a i. hs_sessions w' a i \<noteq> hs_sessions w a i \<longrightarrow> valid_identifier a \<and> valid_identifier i)
     \<and> (\<forall>a. hs_status w' a \<noteq> hs_status w a \<longrightarrow> valid_identifier a)"

lemma confined_refl [simp]: "confined w w"
  by (simp add: confined_def)

lemma confined_trans: "confined w w' \<Longrightarrow> confined w' w'' \<Longrightarrow> confined w w''"
  unfolding confined_def by metis

lemma session_at_reachable: "sessions_reachable w \<Longrightarrow> queue_reachable (session_at w a i)"
  by (auto simp: sessions_reachable_def session_at_def session_reachable.start split: option.split)

lemma put_session_reachable: "sessions_reachable w \<Longrightarrow> queue_reachable s \<Longrightarrow> sessions_reachable (put_session a i s w)"
  by (auto simp: sessions_reachable_def put_session_def)

lemma check_identifiers_ok: "check_identifiers a i = Inr u \<longleftrightarrow> valid_identifier a \<and> valid_identifier i"
  by (auto simp: check_identifiers_def)

lemma put_session_confined: "check_identifiers a i = Inr u \<Longrightarrow> confined w (put_session a i s w)"
  by (auto simp: confined_def put_session_def check_identifiers_ok)

text \<open>What a route owes the queue: it only moves a session by the steps of the queue.\<close>

locale session_route =
  fixes k :: "'b \<Rightarrow> session \<Rightarrow> http_response \<times> session"
  assumes by_steps: "queue_reachable s \<Longrightarrow> queue_reachable (snd (k b s))"
begin

lemma put_sound: "sessions_reachable w \<Longrightarrow> sessions_reachable (put_session a i (snd (k b (session_at w a i))) w)"
  by (intro put_session_reachable by_steps session_at_reachable)

lemma route_sound: "sessions_reachable w \<Longrightarrow> sessions_reachable (snd (on_session body agent session k w))"
  using put_sound by (auto simp: on_session_def split: option.split sum.split prod.split) (metis snd_conv)

end

lemma on_session_confined: "confined w (snd (on_session body agent session k w))"
  by (auto simp: on_session_def put_session_confined split: option.split sum.split prod.split)

lemma emit_by_steps: "queue_reachable s \<Longrightarrow> queue_reachable (forge_emit E b n kind s)"
  by (auto simp: forge_emit_def intro: session_reachable.step session_step.show_progress split: option.split)

interpretation claim_route: session_route "do_claim E" for E
proof
  show "queue_reachable (snd (do_claim E b s))" if "queue_reachable s" for b s
    using that by (auto simp: do_claim_def claim_pending_inbound_def intro: session_reachable.step session_step.claim split: prod.split)
qed

interpretation complete_route: session_route "do_complete E" for E
  by unfold_locales (auto simp: do_complete_def intro: session_reachable.step session_step.complete)

interpretation cancel_route: session_route do_cancel_status
  by unfold_locales (auto simp: do_cancel_status_def)

interpretation outbound_route: session_route "do_outbound E" for E
  by unfold_locales (auto simp: do_outbound_def intro: session_reachable.step session_step.reply split: sum.split prod.split)

interpretation progress_route: session_route do_progress
  by unfold_locales (auto simp: do_progress_def intro: session_reachable.step session_step.show_progress)

interpretation forge_route: session_route "forge_impl E" for E
  by unfold_locales (auto simp: forge_impl_def Let_def emit_by_steps split: option.split sum.split)

lemma trajectory_frame: "hs_sessions (record_chat_trajectory E b w) = hs_sessions w" "confined w (record_chat_trajectory E b w)"
  by (auto simp: record_chat_trajectory_def Let_def confined_def)

lemma post_outbound_sound: "sessions_reachable w \<Longrightarrow> sessions_reachable (snd (post_outbound E body w))"
  using outbound_route.route_sound [of w "sv_outbound E body" ob_agent ob_session E]
  by (auto simp: post_outbound_def sessions_reachable_def trajectory_frame split: prod.splits payload.splits option.splits)

lemma post_outbound_confined: "confined w (snd (post_outbound E body w))"
  using on_session_confined [of w "sv_outbound E body" ob_agent ob_session "do_outbound E"]
  by (auto simp: post_outbound_def intro: confined_trans trajectory_frame split: prod.splits payload.splits option.splits)

lemma post_heartbeat_frame: "hs_sessions (snd (post_heartbeat E body w)) = hs_sessions w" "confined w (snd (post_heartbeat E body w))"
  by (auto simp: post_heartbeat_def write_worker_status_def confined_def check_identifiers_ok split: option.split sum.split)

lemma handle_forge_sound: "sessions_reachable w \<Longrightarrow> sessions_reachable (snd (handle_forge E body w))"
  using forge_route.put_sound by (auto simp: handle_forge_def split: option.split sum.split prod.split) (metis snd_conv)

lemma handle_forge_confined: "confined w (snd (handle_forge E body w))"
  by (auto simp: handle_forge_def put_session_confined split: option.split sum.split prod.split)

lemma route_confined: "confined w (snd (route E req w))"
  by (simp add: route_def Let_def on_session_confined post_outbound_confined post_heartbeat_frame handle_forge_confined)

lemma route_keeps: "sessions_reachable w \<Longrightarrow> sessions_reachable (snd (route E req w))"
  using post_heartbeat_frame(1) [of E "h_body req" w]
  by (simp add: route_def Let_def claim_route.route_sound complete_route.route_sound cancel_route.route_sound
      progress_route.route_sound post_outbound_sound handle_forge_sound) (simp add: sessions_reachable_def)

lemma handle_sound: "sessions_reachable w \<Longrightarrow> sessions_reachable (snd (handle_sessiond_request token E rs w))"
  using route_keeps [of w E] by (fastforce simp: handle_sessiond_request_def split_beta split: sum.split)

lemma handle_confined: "confined w (snd (handle_sessiond_request token E rs w))"
  using route_confined [of w E] by (fastforce simp: handle_sessiond_request_def split_beta split: sum.split)

lemma serve_sound:
  "sessions_reachable w \<Longrightarrow> serve_connections token cs w = (out, w') \<Longrightarrow> sessions_reachable w' \<and> confined w w'"
proof (induction token cs w arbitrary: out w' rule: serve_connections.induct)
  case (2 token E rs cs w)
  obtain r w1 where h: "handle_sessiond_request token E rs w = (r, w1)" by force
  obtain out2 where o: "serve_connections token cs w1 = (out2, w')" using "2.prems"(2) h by (auto split: prod.splits)
  have "sessions_reachable w1" "confined w w1"
    using handle_sound [OF "2.prems"(1), of token E rs] handle_confined [of w token E rs] h by simp_all
  with "2.IH" [OF h [symmetric] _ o] show ?case by (metis confined_trans)
qed simp

lemma identifier_chars: "valid_identifier v \<Longrightarrow> CHR ''/'' \<notin> set v \<and> v \<notin> {[], ''.'', ''..''}"
  by (auto simp: valid_identifier_def list_all_iff is_ascii_alnum_def is_ascii_upper_def is_ascii_lower_def is_digit_def dest!: bspec)

lemma path_parts_append: "path_parts (p @ CHR ''/'' # q) = path_parts p @ path_parts q"
  by (simp add: path_parts_def split_on_append)

lemma path_parts_one: "CHR ''/'' \<notin> set v \<Longrightarrow> v \<notin> {[], ''.''} \<Longrightarrow> path_parts v = [v]"
  by (simp add: path_parts_def split_on_plain)

lemma path_parts_join: "\<not> prefix ''/'' p \<Longrightarrow> path_parts (path_join base p) = path_parts base @ path_parts p"
proof (cases "base \<noteq> [] \<and> last base = CHR ''/''")
  case True
  then obtain b where b: "base = b @ [CHR ''/'']" by (metis append_butlast_last_id)
  have "path_parts (b @ CHR ''/'' # q) = path_parts b @ path_parts q" for q by (rule path_parts_append)
  moreover have "path_parts [] = []" by (simp add: path_parts_def)
  moreover assume "\<not> prefix ''/'' p"
  ultimately show ?thesis using b by (simp add: path_join_def)
next
  case False
  moreover have "path_parts [] = []" by (simp add: path_parts_def)
  moreover assume "\<not> prefix ''/'' p"
  ultimately show ?thesis by (auto simp: path_join_def path_parts_append)
qed

lemma agent_dir_parts: "valid_identifier a \<Longrightarrow> path_parts (agent_dir root a) = path_parts root @ [''agents'', a]"
proof -
  assume "valid_identifier a"
  then have "path_parts a = [a]" "\<not> prefix ''/'' a" using identifier_chars [of a] by (auto simp: path_parts_one prefix_def)
  moreover have "path_parts ''agents'' = [''agents'']" by code_simp
  ultimately show ?thesis by (simp add: agent_dir_def path_parts_join)
qed

lemma session_dir_parts:
  assumes "valid_identifier a" "valid_identifier i"
  shows "path_parts (session_dir (agent_dir root a) i) = path_parts root @ [''agents'', a, ''sessions'', i]"
proof -
  have "path_parts i = [i]" "\<not> prefix ''/'' i" using identifier_chars [OF assms(2)] by (auto simp: path_parts_one prefix_def)
  moreover have "path_parts ''sessions'' = [''sessions'']" by code_simp
  ultimately show ?thesis by (simp add: session_dir_def path_parts_join agent_dir_parts [OF assms(1)])
qed

section \<open>One local turn\<close>

text \<open>The local runner: only \<open>echo\<close>; the JSON of a reply is written by a parameter.\<close>

fun echo_replies ::
  "(str \<Rightarrow> message_json option) \<Rightarrow> (str \<Rightarrow> str) \<Rightarrow> str \<Rightarrow> timestamp \<Rightarrow> (in_row \<times> str) list \<Rightarrow> session \<Rightarrow> (str + unit) \<times> session" where
  "echo_replies json encode provider now [] s = (Inr (), s)"
| "echo_replies json encode provider now ((m, uuid) # ms) s =
     (case message_text json (i_content m) of
        None \<Rightarrow> (Inl ''invalid message json'', s)
      | Some t \<Rightarrow>
          if provider \<noteq> ''echo'' then (Inl ''unsupported local session provider'', s)
          else (case write_outbound uuid now (Some (i_id m)) ''chat'' (i_channel m) (i_platform_id m) (i_thread_id m)
                   (encode (''echo: '' @ t)) s of
              Inl _ \<Rightarrow> (Inl ''database'', s)
            | Inr (_, s') \<Rightarrow> echo_replies json encode provider now ms s'))"

definition run_session_once ::
  "(str \<Rightarrow> message_json option) \<Rightarrow> (str \<Rightarrow> str) \<Rightarrow> str \<Rightarrow> clocks \<Rightarrow> str \<Rightarrow> str list \<Rightarrow> str list \<Rightarrow> timestamp \<Rightarrow> nat \<Rightarrow> session
   \<Rightarrow> (str + nat) \<times> session" where
  "run_session_once json encode provider ck body dead_uuids uuids now limit s =
     (case claim_pending_inbound ck body dead_uuids limit s of
        (ms, s1) \<Rightarrow>
          (case echo_replies json encode provider now (zip ms uuids) s1 of
             (Inl e, s2) \<Rightarrow> (Inl e, s2)
           | (Inr _, s2) \<Rightarrow> (Inr (length ms), mark_inbound_completed now (map i_id ms) s2)))"

lemma completed_frame: "messages_out (mark_inbound_completed now is s) = messages_out s"
  unfolding mark_inbound_completed_def by (induction "is" arbitrary: s) (simp_all add: Let_def)

lemma write_outbound_row:
  "write_outbound uuid now re k c p th x s = Inr (i, s') \<Longrightarrow>
     messages_in s' = messages_in s \<and>
     (\<exists>row. messages_out s' = messages_out s @ [row] \<and> o_in_reply_to row = re \<and> o_channel row = c \<and> o_platform_id row = p \<and> o_content row = x)"
  by (auto simp: write_outbound_def Let_def split: if_splits)

text \<open>A reply row that echoes a message.\<close>

definition echoes :: "(str \<Rightarrow> message_json option) \<Rightarrow> (str \<Rightarrow> str) \<Rightarrow> in_row \<Rightarrow> out_row \<Rightarrow> bool" where
  "echoes json encode m row \<longleftrightarrow> o_in_reply_to row = Some (i_id m) \<and> o_channel row = i_channel m \<and> o_platform_id row = i_platform_id m \<and>
     (\<exists>t. message_text json (i_content m) = Some t \<and> o_content row = encode (''echo: '' @ t))"

lemma echo_replies_ok:
  "echo_replies json encode provider now ps s = (Inr u, s') \<Longrightarrow> queue_reachable s \<Longrightarrow>
     queue_reachable s' \<and> messages_in s' = messages_in s \<and>
     (\<exists>rows. messages_out s' = messages_out s @ rows \<and> list_all2 (echoes json encode) (map fst ps) rows)"
proof (induction ps arbitrary: s)
  case (Cons q ps)
  obtain m uuid where q [simp]: "q = (m, uuid)" by force
  from Cons.prems(1) obtain t i s1 where t: "message_text json (i_content m) = Some t"
    and wr: "write_outbound uuid now (Some (i_id m)) ''chat'' (i_channel m) (i_platform_id m) (i_thread_id m) (encode (''echo: '' @ t)) s = Inr (i, s1)"
    and rest: "echo_replies json encode provider now ps s1 = (Inr u, s')"
    by (auto split: option.splits if_splits sum.splits)
  have r1: "queue_reachable s1" using Cons.prems(2) wr by (blast intro: session_reachable.step session_step.reply)
  obtain row where row: "messages_in s1 = messages_in s" "messages_out s1 = messages_out s @ [row]" "echoes json encode m row"
    using write_outbound_row [OF wr] t by (auto simp: echoes_def)
  obtain rows where rows: "queue_reachable s'" "messages_in s' = messages_in s1" "messages_out s' = messages_out s1 @ rows"
      "list_all2 (echoes json encode) (map fst ps) rows"
    using Cons.IH [OF rest r1] by blast
  then show ?case using row by (intro conjI exI [of _ "row # rows"]) simp_all
qed simp

section \<open>Properties\<close>

text \<open>
  The daemon never starts without a token. A request without it is answered 401 whatever it asks for,
  only the health check apart, and leaves sessions, status files, specifications and trajectories as they were.
\<close>
theorem sessiond_auth:
  assumes "read_request rs = Inr req" and "token \<noteq> []"
    and "h_headers req ''x-maturana-session-token'' \<noteq> Some token"
  shows "handle_sessiond_request token E rs w =
      (Inr (if h_path req \<noteq> ''/health'' then (401, Refused ''unauthorized'')
            else if h_method req = ''GET'' then (200, Fine) else (404, Refused ''not found'')), w) \<and>
    serve_sessiond None cs w = Inl ''sessiond requires a token'' \<and>
    serve_sessiond (Some []) cs w = Inl ''sessiond requires a token''"
  using assms by (simp add: handle_sessiond_request_def serve_sessiond_def authorized_iff route_def Let_def)

text \<open>
  Whatever clients send, the daemon touches only sessions whose agent and session id are valid identifiers:
  their directory is \<open>agents/<agent>/sessions/<session>\<close> below the root and none of its parts climbs; it never changes a
  specification; and every session stays one the queue operations alone can produce, so ids stay unique,
  sequence numbers increase and attempts stay within the policy.
\<close>
theorem sessiond_confined:
  assumes "serve_sessiond token cs w = Inr (out, w')" and "sessions_reachable w"
  shows "sessions_reachable w' \<and> hs_specs w' = hs_specs w \<and>
    (\<forall>a i. hs_sessions w' a i = hs_sessions w a i \<or>
      path_parts (session_dir (agent_dir root a) i) = path_parts root @ [''agents'', a, ''sessions'', i] \<and> a \<noteq> ''..'' \<and> i \<noteq> ''..'') \<and>
    (\<forall>a. hs_status w' a = hs_status w a \<or> path_parts (agent_dir root a) = path_parts root @ [''agents'', a] \<and> a \<noteq> ''..'')"
proof -
  obtain t where "serve_connections t cs w = (out, w')"
    using assms(1) by (auto simp: serve_sessiond_def split: option.splits if_splits)
  then have *: "sessions_reachable w'" "confined w w'" using serve_sound [OF assms(2)] by blast+
  moreover have "hs_sessions w' a i = hs_sessions w a i \<or>
      path_parts (session_dir (agent_dir root a) i) = path_parts root @ [''agents'', a, ''sessions'', i] \<and> a \<noteq> ''..'' \<and> i \<noteq> ''..''" for a i
    using *(2) session_dir_parts identifier_chars unfolding confined_def by blast
  moreover have "hs_status w' a = hs_status w a \<or> path_parts (agent_dir root a) = path_parts root @ [''agents'', a] \<and> a \<noteq> ''..''" for a
    using *(2) agent_dir_parts identifier_chars unfolding confined_def by blast
  ultimately show ?thesis by (simp add: confined_def)
qed

text \<open>
  A request is read the same however its bytes are cut into reads, when its head ends in the first mebibyte: the chunks
  received so far never change method, path, headers or body.
\<close>
theorem read_request_any_chunks:
  assumes "[] \<notin> set cs" and "contains head_end (take (1024 * 1024) (concat cs))"
  shows "read_request (map Data cs) = read_request [Data (concat cs)]"
  using assms by (rule read_chunks_whole)

text \<open>
  Code sent by an agent whose specification on the host does not grant \<open>self_forge\<close>, or cannot be read, never reaches the
  engine: the answer is the same for every engine, 400 or 403, and the host is unchanged.
\<close>
theorem forge_needs_grant:
  assumes "sv_forge E body = Some b"
    and "\<forall>raw. hs_specs w (fo_agent b) = Some raw \<longrightarrow>
      (\<forall>spec. from_maturana_markdown (sv_yaml E) raw = Inr spec \<longrightarrow> \<not> cap_self_forge (as_capabilities spec))"
  shows "\<exists>status\<in>{400, 403}. \<exists>e. \<forall>engine. handle_forge (E\<lparr>sv_engine := engine\<rparr>) body w = ((status, Refused e), w)"
proof -
  have "\<not> self_forge_granted (E\<lparr>sv_engine := engine\<rparr>) w (fo_agent b)" for engine
    using assms(2) by (auto simp: self_forge_granted_def split: option.splits sum.splits)
  then show ?thesis using assms(1) by (cases "check_identifiers (fo_agent b) (fo_session b)") (auto simp: handle_forge_def)
qed

lemma run_once_cases:
  assumes "run_session_once json encode provider ck body dead_uuids uuids now limit s = (r, s')"
    and "claim_pending_inbound ck body dead_uuids limit s = (ms, s1)" and "length ms \<le> length uuids" and "queue_reachable s"
  shows "r = Inr n \<Longrightarrow> n = length ms \<and>
      (\<exists>rows. messages_out s' = messages_out s1 @ rows \<and> list_all2 (echoes json encode) ms rows) \<and>
      (\<forall>q\<in>set (messages_in s'). i_id q \<in> i_id ` set ms \<longrightarrow> i_status q = Completed) \<and> queue_reachable s'"
    and "provider \<noteq> ''echo'' \<Longrightarrow> ms \<noteq> [] \<Longrightarrow> (\<exists>e. r = Inl e) \<and> s' = s1"
proof -
  have z: "map fst (zip ms uuids) = ms" using assms(3) by (simp add: map_fst_zip_take)
  have r1: "queue_reachable s1"
    using assms(2,4) unfolding claim_pending_inbound_def by (blast intro: session_reachable.step session_step.claim)
  assume "r = Inr n"
  then obtain s2 where s2: "echo_replies json encode provider now (zip ms uuids) s1 = (Inr (), s2)"
      "n = length ms" "s' = mark_inbound_completed now (map i_id ms) s2"
    using assms(1,2) by (auto simp: run_session_once_def split: prod.splits sum.splits)
  obtain rows where rows: "queue_reachable s2" "messages_out s2 = messages_out s1 @ rows" "list_all2 (echoes json encode) ms rows"
    using echo_replies_ok [OF s2(1) r1] unfolding z by blast
  have "messages_out s' = messages_out s2" by (simp add: s2(3) completed_frame)
  moreover have "queue_reachable s'" unfolding s2(3) using rows(1) by (blast intro: session_reachable.step session_step.complete)
  moreover have "\<forall>q\<in>set (messages_in s'). i_id q \<in> i_id ` set ms \<longrightarrow> i_status q = Completed"
    by (auto simp: s2(3) completed_rows)
  ultimately show "n = length ms \<and> (\<exists>rows. messages_out s' = messages_out s1 @ rows \<and> list_all2 (echoes json encode) ms rows) \<and>
      (\<forall>q\<in>set (messages_in s'). i_id q \<in> i_id ` set ms \<longrightarrow> i_status q = Completed) \<and> queue_reachable s'"
    using rows s2(2) by auto
next
  assume "provider \<noteq> ''echo''" "ms \<noteq> []"
  then show "(\<exists>e. r = Inl e) \<and> s' = s1"
    using assms(1,2,3) by (cases ms; cases uuids) (auto simp: run_session_once_def split: option.splits)
qed

text \<open>
  A local turn that succeeds answers exactly the messages it claimed, one echo each and in order, and completes them; it reports
  their number. With another provider nothing is answered and the claimed messages stay in flight until their lease ends.
\<close>
theorem run_once_answers:
  assumes "run_session_once json encode provider ck body dead_uuids uuids now limit s = (r, s')"
    and "claim_pending_inbound ck body dead_uuids limit s = (ms, s1)" and "length ms \<le> length uuids" and "queue_reachable s"
  shows "(\<forall>n. r = Inr n \<longrightarrow> n = length ms \<and>
      (\<exists>rows. messages_out s' = messages_out s1 @ rows \<and> list_all2 (echoes json encode) ms rows) \<and>
      (\<forall>q\<in>set (messages_in s'). i_id q \<in> i_id ` set ms \<longrightarrow> i_status q = Completed) \<and> queue_reachable s') \<and>
    (provider \<noteq> ''echo'' \<and> ms \<noteq> [] \<longrightarrow> (\<exists>e. r = Inl e) \<and> s' = s1)"
  using run_once_cases [OF assms] by blast

section \<open>Runs on small inputs\<close>

definition demo_request :: str where
  "demo_request = ''POST /session/forge HTTP/1.1'' @ crlf @ ''X-Maturana-Session-Token: k'' @ crlf @ ''content-length: 1'' @ crlf @ crlf @ ''b''"

definition demo_env :: sessiond_env where
  "demo_env = \<lparr> sv_claim = \<lambda>_. None, sv_complete = \<lambda>_. None, sv_cancel_status = \<lambda>_. None, sv_outbound = \<lambda>_. None,
     sv_heartbeat = \<lambda>_. None, sv_progress = \<lambda>_. None,
     sv_forge = \<lambda>b. if b = ''b'' then Some \<lparr> fo_agent = ''a'', fo_session = ''s'', fo_message_id = Some ''m'', fo_name = ''t'',
       fo_format = None, fo_source = '''' \<rparr> else None,
     sv_message = \<lambda>c. Some \<lparr> mj_text = Some c, mj_files = [] \<rparr>, sv_yaml = demo_yaml, sv_clocks = clocks_at 0, sv_dead_body = '''',
     sv_dead_uuids = [], sv_uuid = ''u'', sv_now = 0, sv_store_ok = True, sv_forge_text = \<lambda>k n. k,
     sv_engine = \<lambda>b f. Inl ''no engine'' \<rparr>"

definition demo_host :: host where
  "demo_host = \<lparr> hs_sessions = \<lambda>_ _. None, hs_status = \<lambda>_. None, hs_specs = \<lambda>_. None, hs_trajectories = [] \<rparr>"

lemma demo_head: "find_sub head_end demo_request = Some 76" by code_simp

lemma demo_session_head: "parse_head (take 76 demo_request) =
   (''POST'', ''/session/forge'', [''x-maturana-session-token'' \<mapsto> ''k'', ''content-length'' \<mapsto> ''1''])"
proof -
  have "split_pat crlf (from_utf8_lossy (take 76 demo_request)) =
     [''POST /session/forge HTTP/1.1'', ''X-Maturana-Session-Token: k'', ''content-length: 1'']" by code_simp
  moreover have "split_whitespace ''POST /session/forge HTTP/1.1'' = [''POST'', ''/session/forge'', ''HTTP/1.1'']" by code_simp
  moreover have "split_once CHR '':'' ''X-Maturana-Session-Token: k'' = Some (''X-Maturana-Session-Token'', '' k'')"
    "split_once CHR '':'' ''content-length: 1'' = Some (''content-length'', '' 1'')" by code_simp+
  moreover have "to_ascii_lowercase (trim_text ''X-Maturana-Session-Token'') = ''x-maturana-session-token''" "trim_text '' k'' = ''k''"
    "to_ascii_lowercase (trim_text ''content-length'') = ''content-length''" "trim_text '' 1'' = ''1''" by code_simp+
  ultimately show ?thesis by (simp add: parse_head_def Let_def)
qed

lemma demo_read: "read_request [Data demo_request] =
   Inr \<lparr> h_method = ''POST'', h_path = ''/session/forge'',
     h_headers = [''x-maturana-session-token'' \<mapsto> ''k'', ''content-length'' \<mapsto> ''1''], h_body = ''b'' \<rparr>"
proof -
  have n: "content_length [''x-maturana-session-token'' \<mapsto> ''k'', ''content-length'' \<mapsto> ''1''] = 1"
    by (simp add: content_length_def parse_nat_below_def is_digit_def digits_val_def digit_val_def)
  have l: "length demo_request = 81" "demo_request \<noteq> []" "take (Suc 0) (drop 80 demo_request) = ''b''" by code_simp+
  show ?thesis using demo_head demo_session_head l
    by (simp add: read_request_def n read_body.simps max_body_bytes_def)
qed

theorem sessiond_auth_witness: "handle_sessiond_request ''key'' demo_env [Data demo_request] demo_host = (Inr (401, Refused ''unauthorized''), demo_host)"
  using sessiond_auth [OF demo_read, of "''key''" demo_env demo_host] by simp

lemma demo_serve: "serve_sessiond (Some ''k'') [(demo_env, [Data demo_request])] demo_host =
   Inr ([(403, Refused ''self_forge capability not granted'')], demo_host)"
proof -
  have i: "valid_identifier ''a''" "valid_identifier ''s''" by code_simp+
  show ?thesis
    by (simp add: serve_sessiond_def handle_sessiond_request_def demo_read authorized_iff route_def Let_def handle_forge_def
        check_identifiers_def i demo_env_def demo_host_def self_forge_granted_def)
qed

theorem sessiond_confined_witness: "sessions_reachable demo_host \<and> hs_specs demo_host = hs_specs demo_host"
  using sessiond_confined [OF demo_serve] by (simp add: sessions_reachable_def demo_host_def)

theorem read_request_any_chunks_witness:
  "read_request (map Data [take 30 demo_request, drop 30 demo_request]) = read_request [Data (concat [take 30 demo_request, drop 30 demo_request])]"
proof (rule read_request_any_chunks)
  have "length demo_request = 81" by code_simp
  then show "[] \<notin> set [take 30 demo_request, drop 30 demo_request]" "contains head_end (take (1024 * 1024) (concat [take 30 demo_request, drop 30 demo_request]))"
    using demo_head by (auto simp: contains_def)
qed

theorem forge_needs_grant_witness: "\<exists>status\<in>{400, 403}. \<exists>e. \<forall>engine. handle_forge (demo_env\<lparr>sv_engine := engine\<rparr>) ''b'' demo_host = ((status, Refused e), demo_host)"
  by (rule forge_needs_grant) (simp_all add: demo_env_def demo_host_def)

theorem run_once_answers_witness:
  "let s = demo_session [demo_row ''msg-1'' 1 Pending 0]
   in run_session_once (sv_message demo_env) (\<lambda>t. t) ''codex'' (clocks_at 0) [] [] [''u''] 0 1 s =
        (Inl ''unsupported local session provider'', snd (claim_pending_inbound (clocks_at 0) [] [] 1 s))"
proof -
  let ?s = "demo_session [demo_row ''msg-1'' 1 Pending 0]"
  have s: "queue_reachable ?s"
    by (rule session_reachable.step [OF session_reachable.start]) (rule session_step.insert, rule demo_inserted)
  obtain ms s1 where c: "claim_pending_inbound (clocks_at 0) [] [] 1 ?s = (ms, s1)" by force
  have "map i_content (fst (claim_pending_inbound (clocks_at 0) [] [] 1 ?s)) = [''hi'']" by code_simp
  then obtain m where ms: "ms = [m]" "i_content m = ''hi''" using c by auto
  obtain r s' where r: "run_session_once (sv_message demo_env) (\<lambda>t. t) ''codex'' (clocks_at 0) [] [] [''u''] 0 1 ?s = (r, s')" by force
  have "s' = s1" using run_once_answers [OF r c _ s] ms by simp
  moreover have "r = Inl ''unsupported local session provider''"
    using r c ms by (simp add: run_session_once_def message_text_def demo_env_def)
  ultimately show ?thesis using r c by simp
qed

end
