(* ===== verification/Telegram.thy ===== *)
theory Telegram
  imports Sessiond
begin

text \<open>
  The Telegram channel of \<open>crates/maturana-cli/src/channels/\<close>: which action an update stands for
  (\<open>telegram_routing.rs\<close>), what the bridge does with it (\<open>telegram_inbound.rs\<close>), pairing
  (\<open>telegram_pairing.rs\<close>) and the batch loop of \<open>channels.rs\<close>. What a handler does is a list of effects; a
  call that fails ends the handler, so a run executes a prefix of its effects. The vault is a map from
  keys to secrets; the handlers behind an accepted action are one effect each.
\<close>

section \<open>Integers as text\<close>

definition show_int :: "int \<Rightarrow> str" where
  "show_int i = (if i < 0 then CHR ''-'' # show_nat (nat (- i)) else show_nat (nat i))"

text \<open>\<open>parse::<i64>\<close>.\<close>

definition parse_i64 :: "str \<Rightarrow> int option" where
  "parse_i64 s =
     (case s of
        c # ds \<Rightarrow> if c = CHR ''-''
          then if ds \<noteq> [] \<and> list_all is_digit ds \<and> digits_val ds \<le> 2 ^ 63 then Some (- int (digits_val ds)) else None
          else map_option int (parse_nat_below (2 ^ 63) s)
      | [] \<Rightarrow> None)"

lemma parse_show_int: "- (2 ^ 63) \<le> i \<Longrightarrow> i < 2 ^ 63 \<Longrightarrow> parse_i64 (show_int i) = Some i"
proof (cases "i < 0")
  case True
  moreover assume "- (2 ^ 63) \<le> i"
  ultimately show ?thesis using show_nat_digits [of "nat (- i)"]
    by (simp add: show_int_def parse_i64_def digits_val_show_nat nat_le_iff)
next
  case False
  moreover obtain c cs where c: "show_nat (nat i) = c # cs" "is_digit c"
    using show_nat_digits [of "nat i"] by (cases "show_nat (nat i)") auto
  moreover from c(2) have "c \<noteq> CHR ''-''" by (auto simp: is_digit_def)
  moreover assume "i < 2 ^ 63"
  ultimately show ?thesis using parse_show_nat [of "nat i" "2 ^ 63"]
    by (simp add: show_int_def parse_i64_def nat_less_iff)
qed

section \<open>Updates\<close>

record tg_document =
  td_file_id :: str
  td_file_name :: "str option"
  td_file_size :: "int option"

record tg_audio =
  ta_file_id :: str
  ta_file_name :: "str option"

record tg_message =
  tm_message_id :: int
  tm_text :: "str option"
  tm_caption :: "str option"
  tm_document :: "tg_document option"
  tm_photo :: "str list option" \<comment> \<open>the file ids of the sizes\<close>
  tm_voice :: "str option"
  tm_audio :: "tg_audio option"
  tm_chat :: int

record tg_callback =
  tc_id :: str
  tc_data :: "str option"
  tc_message :: "tg_message option"

record tg_update =
  tu_update_id :: int
  tu_message :: "tg_message option"
  tu_channel_post :: "tg_message option"
  tu_callback :: "tg_callback option"

datatype spawn_mode = Ephemeral | Persistent

datatype inbound_action =
    Ignore | Pair int | Help int | Onboard int | Status int | New int | Spawn int spawn_mode str str | Prompt int str
  | Document int tg_document "str option" | Photo int str "str option" | Voice int str str | Tool int str str
  | Feedback int bool \<comment> \<open>thumbs up\<close> | Command int str str | Deny int

section \<open>Commands\<close>

text \<open>\<open>split_once(char::is_whitespace)\<close>.\<close>

definition split_at_blank :: "str \<Rightarrow> (str \<times> str) option" where
  "split_at_blank s =
     (let cs = chars_of s
      in case dropWhile (\<lambda>c. \<not> blank_char c) cs of
           [] \<Rightarrow> None
         | _ # r \<Rightarrow> Some (concat (takeWhile (\<lambda>c. \<not> blank_char c) cs), concat r))"

definition normalize_bot_command :: "str \<Rightarrow> str" where
  "normalize_bot_command t =
     (case split_once CHR '' '' t of
        None \<Rightarrow> (case split_once CHR ''@'' t of Some (c, _) \<Rightarrow> c | None \<Rightarrow> t)
      | Some (c, rest) \<Rightarrow>
          (case split_once CHR ''@'' c of
             Some (base, _) \<Rightarrow> if prefix ''/'' base then base @ '' '' @ rest else t
           | None \<Rightarrow> t))"

definition is_pair_command :: "str \<Rightarrow> str \<Rightarrow> bool" where
  "is_pair_command t code =
     (let n = normalize_bot_command (trim_text t)
      in case or_else (strip_prefix ''/pair'' n) (strip_prefix ''pair'' n) of
           None \<Rightarrow> False
         | Some rest \<Rightarrow> trim_text rest = code)"

definition is_valid_tool_name :: "str \<Rightarrow> bool" where
  "is_valid_tool_name n \<longleftrightarrow> n \<noteq> [] \<and> length n \<le> 64 \<and>
     list_all (\<lambda>c. is_ascii_lower c \<or> is_digit c \<or> c = CHR ''-'') n \<and> \<not> prefix ''-'' n \<and> \<not> suffix ''-'' n"

definition parse_tool_command :: "str \<Rightarrow> (str \<times> str) option" where
  "parse_tool_command command =
     (case strip_prefix ''/tool'' command of
        None \<Rightarrow> None
      | Some r \<Rightarrow>
          let rest = trim_text r;
              (name, inp) = (case split_at_blank rest of Some (n, i) \<Rightarrow> (trim_text n, trim_text i) | None \<Rightarrow> (rest, []))
          in if is_valid_tool_name name then Some (name, if inp = [] then ''{}'' else inp) else None)"

definition slugify_channel_id :: "str \<Rightarrow> str" where
  "slugify_channel_id v =
     (let slug = join ''-'' (filter (\<lambda>p. p \<noteq> [])
        (split_on CHR ''-'' (concat (map (\<lambda>c. if length c = 1 \<and> is_ascii_alnum (hd c) then to_ascii_lowercase c else ''-'') (chars_of v)))))
      in if slug = [] then ''subagent'' else slug)"

definition parse_spawn_command :: "str \<Rightarrow> (spawn_mode \<times> str \<times> str) option" where
  "parse_spawn_command command =
     (case strip_prefix ''/spawn'' command of
        None \<Rightarrow> None
      | Some r \<Rightarrow>
          (case split_at_sub ''--'' (trim_text r) of
             None \<Rightarrow> None
           | Some (head, p) \<Rightarrow>
               let task = trim_text p;
                   finish = (\<lambda>mode name. if trim_text name = [] \<or> task = [] then None else Some (mode, slugify_channel_id name, task))
               in case split_whitespace head of
                    [] \<Rightarrow> None
                  | w # ws \<Rightarrow>
                      if w = ''ephemeral'' then (case ws of [] \<Rightarrow> None | n # _ \<Rightarrow> finish Ephemeral n)
                      else if w = ''persistent'' then (case ws of [] \<Rightarrow> None | n # _ \<Rightarrow> finish Persistent n)
                      else finish Ephemeral w))"

definition channel_commands :: "str list" where
  "channel_commands = [''/commands'', ''/tools'', ''/models'', ''/model'', ''/reasoning'', ''/reset'', ''/stop'', ''/compact'',
     ''/session'', ''/subagents'', ''/graph-query'', ''/graph-insert'', ''/tts'', ''/tts-provider'', ''/emerge'', ''/skill'', ''/loop'']"

text \<open>The action of a paired chat's text.\<close>

definition text_action :: "int \<Rightarrow> str \<Rightarrow> inbound_action" where
  "text_action chat t =
     (let command = normalize_bot_command t;
          (cmd0, args) = (case split_at_blank command of
              Some (c, a) \<Rightarrow> (to_ascii_lowercase c, trim_text a)
            | None \<Rightarrow> (to_ascii_lowercase command, []));
          cmd = (if prefix ''/'' cmd0 then map (\<lambda>c. if c = CHR ''_'' then CHR ''-'' else c) cmd0 else cmd0)
      in if cmd = ''/start'' \<or> cmd = ''/help'' then Help chat
         else if cmd = ''/status'' then Status chat
         else if cmd = ''/new'' then New chat
         else if cmd = ''/good'' then Feedback chat True
         else if cmd = ''/bad'' then Feedback chat False
         else if cmd = ''/tool'' then (case parse_tool_command command of Some (n, i) \<Rightarrow> Tool chat n i | None \<Rightarrow> Help chat)
         else if cmd = ''/spawn'' then (case parse_spawn_command command of Some (m, n, p) \<Rightarrow> Spawn chat m n p | None \<Rightarrow> Help chat)
         else if cmd = ''/emerge'' \<and> args \<noteq> [] then Spawn chat Ephemeral (slugify_channel_id args) args
         else if cmd = ''/skill'' \<and> args \<noteq> [] then
           (let (skill, rest) = (case split_at_blank args of Some (s, r) \<Rightarrow> (s, trim_text r) | None \<Rightarrow> (args, []))
            in Prompt chat (trim_text (''Use the `'' @ skill @ ''` skill. '' @ rest)))
         else if cmd = ''/onboard'' then Onboard chat
         else if cmd \<in> set channel_commands then Command chat (dropWhile (\<lambda>c. c = CHR ''/'') cmd) args
         else if prefix ''/'' cmd then Command chat ''unknown'' cmd
         else Prompt chat t)"

definition telegram_message :: "tg_update \<Rightarrow> tg_message option" where
  "telegram_message u = or_else (tu_message u) (tu_channel_post u)"

definition voice_of :: "tg_message \<Rightarrow> (str \<times> str) option" where
  "voice_of m = or_else (map_option (\<lambda>v. (v, ''voice.ogg'')) (tm_voice m))
     (map_option (\<lambda>a. (ta_file_id a, case ta_file_name a of Some n \<Rightarrow> n | None \<Rightarrow> ''audio.ogg'')) (tm_audio m))"

definition classify_telegram_update :: "tg_update \<Rightarrow> int option \<Rightarrow> str option \<Rightarrow> inbound_action" where
  "classify_telegram_update u paired code =
     (case telegram_message u of
        None \<Rightarrow> Ignore
      | Some m \<Rightarrow>
          let chat = tm_chat m; only_paired = (\<lambda>a. if paired \<noteq> Some chat then Deny chat else a)
          in case tm_document m of
               Some d \<Rightarrow> only_paired (Document chat d (tm_caption m))
             | None \<Rightarrow>
                 (case (case tm_photo m of None \<Rightarrow> None | Some [] \<Rightarrow> None | Some fs \<Rightarrow> Some (last fs)) of
                    Some f \<Rightarrow> only_paired (Photo chat f (tm_caption m))
                  | None \<Rightarrow>
                      (case voice_of m of
                         Some (f, n) \<Rightarrow> only_paired (Voice chat f n)
                       | None \<Rightarrow>
                           let t = trim_text (case tm_text m of Some t \<Rightarrow> t | None \<Rightarrow> [])
                           in if t = [] then Ignore
                              else if (case code of Some c \<Rightarrow> is_pair_command t c | None \<Rightarrow> False) then Pair chat
                              else only_paired (text_action chat t))))"

section \<open>Channel settings\<close>

record channel_settings =
  st_model :: "str option"
  st_reasoning :: "str option"
  st_tts_enabled :: bool
  st_tts_provider :: "str option"
  st_idle :: bool

definition default_settings :: channel_settings where
  "default_settings = \<lparr> st_model = None, st_reasoning = None, st_tts_enabled = False, st_tts_provider = None, st_idle = False \<rparr>"

definition reasoning_levels :: "str list" where
  "reasoning_levels = [''low'', ''medium'', ''high'']"

text \<open>A tap on a button: one field of the settings and the text shown; the settings are saved for every known action.\<close>

definition apply_channel_selection :: "str \<Rightarrow> channel_settings \<Rightarrow> str \<times> channel_settings" where
  "apply_channel_selection data s =
     (let (action, v) = (case split_once CHR '':'' data of Some p \<Rightarrow> p | None \<Rightarrow> (data, []))
      in if action = ''model'' then (''Model set to `'' @ v @ ''` (applies to new turns).'', s\<lparr>st_model := Some v\<rparr>)
         else if action = ''reasoning'' then (''Reasoning effort set to `'' @ v @ ''` (applies to new turns).'', s\<lparr>st_reasoning := Some v\<rparr>)
         else if action = ''ttsprov'' then (''TTS provider set to `'' @ v @ ''`.'', s\<lparr>st_tts_provider := Some v\<rparr>)
         else if action = ''tts'' then (''Text-to-speech '' @ (if v = ''on'' then ''ENABLED'' else ''disabled'') @ ''.'', s\<lparr>st_tts_enabled := (v = ''on'')\<rparr>)
         else if action = ''session'' then (''Session '' @ (if v = ''idle'' then ''idle'' else ''active'') @ ''.'', s\<lparr>st_idle := (v = ''idle'')\<rparr>)
         else (''Unknown selection.'', s))"

definition selection_toast :: "str \<Rightarrow> str" where
  "selection_toast data =
     (let (action, v) = (case split_once CHR '':'' data of Some p \<Rightarrow> p | None \<Rightarrow> (data, []))
      in if action = ''model'' then ''Model: '' @ v
         else if action = ''reasoning'' then ''Reasoning: '' @ v
         else if action = ''ttsprov'' then ''Provider: '' @ v
         else if action = ''tts'' then ''TTS '' @ (if v = ''on'' then ''ENABLED'' else ''disabled'')
         else if action = ''session'' then ''Session '' @ v
         else [])"

text \<open>The slash commands over the settings; \<open>None\<close> for a name they do not handle.\<close>

definition session_command :: "str \<Rightarrow> str \<Rightarrow> str \<Rightarrow> channel_settings \<Rightarrow> (str \<times> channel_settings) option" where
  "session_command session_id name args s =
     (let arg = trim_text args; or_text = (\<lambda>d x. case x of Some v \<Rightarrow> v | None \<Rightarrow> d)
      in if name = ''session'' then
           (let sub = (case split_whitespace args of w # _ \<Rightarrow> w | [] \<Rightarrow> [])
            in Some (if sub = ''idle'' then (''Session set to idle.'', s\<lparr>st_idle := True\<rparr>)
                     else if sub = ''active'' \<or> sub = ''wake'' then (''Session active.'', s\<lparr>st_idle := False\<rparr>)
                     else (''Session '' @ session_id @ newline_byte # ''  idle: '' @ (if st_idle s then ''on'' else ''off'')
                       @ newline_byte # ''  model: '' @ or_text ''(default)'' (st_model s)
                       @ newline_byte # ''Set with: /session idle | /session active'', s)))
         else if name = ''tts'' then
           Some (let b = \<not> st_tts_enabled s
                 in (''Text-to-speech '' @ (if b then ''ENABLED'' else ''disabled'') @ '' (provider: '' @ or_text ''none set'' (st_tts_provider s)
                       @ ''). Set a provider with /tts-provider <name>.'', s\<lparr>st_tts_enabled := b\<rparr>))
         else if name = ''tts-provider'' then
           Some (if arg = [] then (''TTS provider: '' @ or_text ''(none)'' (st_tts_provider s), s)
                 else (''TTS provider set to `'' @ arg @ ''`.'', s\<lparr>st_tts_provider := Some arg\<rparr>))
         else None)"

definition settings_command :: "str \<Rightarrow> str \<Rightarrow> str \<Rightarrow> channel_settings \<Rightarrow> (str \<times> channel_settings) option" where
  "settings_command session_id name args s =
     (let arg = trim_text args; or_text = (\<lambda>d x. case x of Some v \<Rightarrow> v | None \<Rightarrow> d)
      in if name = ''model'' then
           Some (if arg = [] then (''Model: '' @ or_text ''(harness default)'' (st_model s), s)
                 else (''Model set to `'' @ arg @ ''` (applies to new turns).'', s\<lparr>st_model := Some arg\<rparr>))
         else if name = ''reasoning'' then
           (let l = to_ascii_lowercase arg
            in Some (if l = [] then (''Reasoning effort: '' @ or_text ''low (default)'' (st_reasoning s)
                        @ '' (codex/gpt-5). Set with /reasoning <'' @ join ''|'' reasoning_levels @ ''>'', s)
                     else if l \<in> set reasoning_levels
                     then (''Reasoning effort set to `'' @ l @ ''` (applies to new turns; codex/gpt-5).'', s\<lparr>st_reasoning := Some l\<rparr>)
                     else (''Unknown level `'' @ l @ ''`. Choose one of: '' @ join '', '' reasoning_levels, s)))
         else session_command session_id name args s)"

section \<open>The bridge\<close>

definition shared_pair_code :: str where "shared_pair_code = ''telegram/pair-code''"
definition shared_chat_id :: str where "shared_chat_id = ''telegram/chat-id''"

definition telegram_pair_code_key :: "str \<Rightarrow> str" where
  "telegram_pair_code_key agent = (if agent = ''default'' then shared_pair_code else ''telegram/'' @ agent @ ''/pair-code'')"

definition telegram_chat_id_key :: "str \<Rightarrow> str" where
  "telegram_chat_id_key agent = (if agent = ''default'' then shared_chat_id else ''telegram/'' @ agent @ ''/chat-id'')"

datatype tg_effect =
    SetVault str str | DelVault str | AuditEvent str str | SendText int str | Typing int
  | EnqueueOnboarding int | MarkOnboarded | AnswerCallback str "str option" | Select int str | EditMessage int int str
  | Run inbound_action

record tg_state =
  ts_vault :: "str \<rightharpoonup> str"
  ts_onboarded :: bool
  ts_settings :: channel_settings
  ts_offset :: "int option"

definition em_dash :: str where
  "em_dash = [CHR 0xE2, CHR 0x80, CHR 0x94]"

definition handle_telegram_callback :: "int option \<Rightarrow> channel_settings \<Rightarrow> tg_callback \<Rightarrow> tg_effect list" where
  "handle_telegram_callback paired settings c =
     (case tc_message c of
        None \<Rightarrow> [AnswerCallback (tc_id c) None]
      | Some m \<Rightarrow>
          if paired \<noteq> Some (tm_chat m) then [AnswerCallback (tc_id c) (Some ''Not paired with this chat.'')]
          else let data = (case tc_data c of Some d \<Rightarrow> d | None \<Rightarrow> [])
               in [Select (tm_chat m) data, AnswerCallback (tc_id c) (Some (selection_toast data)),
                   EditMessage (tm_chat m) (tm_message_id m) (fst (apply_channel_selection data settings)),
                   AuditEvent ''channel.telegram.callback'' data])"

definition start_onboarding :: "int \<Rightarrow> tg_effect list" where
  "start_onboarding chat = [EnqueueOnboarding chat, MarkOnboarded]"

definition handle_telegram_update ::
    "str \<Rightarrow> tg_state \<Rightarrow> int option \<Rightarrow> str option \<Rightarrow> tg_update \<Rightarrow> tg_effect list" where
  "handle_telegram_update agent st paired code u =
     (case tu_callback u of
        Some c \<Rightarrow> handle_telegram_callback paired (ts_settings st) c
      | None \<Rightarrow>
          (case classify_telegram_update u paired code of
             Ignore \<Rightarrow> []
           | Deny chat \<Rightarrow> [AuditEvent ''channel.telegram.denied'' ''ignored unpaired chat'',
               SendText chat ''This Maturana agent is not paired with this chat.'']
           | Pair chat \<Rightarrow>
               [SetVault (telegram_chat_id_key agent) (show_int chat), DelVault (telegram_pair_code_key agent),
                AuditEvent ''channel.telegram.paired'' ''paired telegram chat'']
               @ (if \<not> ts_onboarded st
                  then start_onboarding chat
                    @ [SendText chat (''Paired! One moment '' @ em_dash @ '' let me introduce myself.''), Typing chat]
                  else [SendText chat (''Paired. Welcome back '' @ em_dash @ '' message me any time.'')])
           | Onboard chat \<Rightarrow> start_onboarding chat
               @ [SendText chat (''Starting onboarding '' @ em_dash @ '' one moment while I introduce myself.''), Typing chat]
           | a \<Rightarrow> [Run a]))"

text \<open>A slash command without arguments opens a keyboard when it has one; otherwise it runs.\<close>

definition run_command :: "str \<Rightarrow> str \<Rightarrow> channel_settings \<Rightarrow> channel_settings" where
  "run_command name args s =
     (if trim_text args = [] \<and> name \<in> {''models'', ''model'', ''reasoning'', ''tts-provider'', ''tts'', ''session''} then s
      else case settings_command [] name args s of Some (_, s') \<Rightarrow> s' | None \<Rightarrow> s)"

fun apply_effect :: "tg_effect \<Rightarrow> tg_state \<Rightarrow> tg_state" where
  "apply_effect (SetVault k v) st = st\<lparr>ts_vault := (ts_vault st)(k \<mapsto> v)\<rparr>"
| "apply_effect (DelVault k) st = st\<lparr>ts_vault := (ts_vault st)(k := None)\<rparr>"
| "apply_effect MarkOnboarded st = st\<lparr>ts_onboarded := True\<rparr>"
| "apply_effect (Select _ d) st = st\<lparr>ts_settings := snd (apply_channel_selection d (ts_settings st))\<rparr>"
| "apply_effect (Run (Command _ name args)) st = st\<lparr>ts_settings := run_command name args (ts_settings st)\<rparr>"
| "apply_effect _ st = st"

definition paired_chat :: "str \<Rightarrow> (str \<rightharpoonup> str) \<Rightarrow> int option" where
  "paired_chat agent v =
     (case or_else (v (telegram_chat_id_key agent)) (v shared_chat_id) of None \<Rightarrow> None | Some x \<Rightarrow> parse_i64 x)"

definition pending_code :: "str \<Rightarrow> (str \<rightharpoonup> str) \<Rightarrow> str option" where
  "pending_code agent v = or_else (v (telegram_pair_code_key agent)) (v shared_pair_code)"

text \<open>One update; the number says how many effects happen before a call fails.\<close>

definition serve_update :: "str \<Rightarrow> nat \<Rightarrow> tg_update \<Rightarrow> tg_state \<Rightarrow> tg_effect list \<times> tg_state" where
  "serve_update agent n u st =
     (let st1 = st\<lparr>ts_offset := Some (tu_update_id u + 1)\<rparr>;
          es = take n (handle_telegram_update agent st1 (paired_chat agent (ts_vault st1)) (pending_code agent (ts_vault st1)) u)
      in (es, fold apply_effect es st1))"

fun serve_updates :: "str \<Rightarrow> (nat \<times> tg_update) list \<Rightarrow> tg_state \<Rightarrow> (tg_update \<times> tg_effect list) list \<times> tg_state" where
  "serve_updates agent [] st = ([], st)"
| "serve_updates agent ((n, u) # us) st =
     (case serve_update agent n u st of
        (es, st') \<Rightarrow> (case serve_updates agent us st' of (tr, st'') \<Rightarrow> ((u, es) # tr, st'')))"

text \<open>The command-line half of pairing: the first update that carries the code.\<close>

fun first_pair :: "str \<Rightarrow> tg_update list \<Rightarrow> int option" where
  "first_pair code [] = None"
| "first_pair code (u # us) =
     (case classify_telegram_update u None (Some code) of Pair chat \<Rightarrow> Some chat | _ \<Rightarrow> first_pair code us)"

fun poll_for_pair :: "str \<Rightarrow> tg_update list list \<Rightarrow> int option" where
  "poll_for_pair code [] = None"
| "poll_for_pair code (b # bs) = (case first_pair code b of Some chat \<Rightarrow> Some chat | None \<Rightarrow> poll_for_pair code bs)"

definition complete_telegram_pair :: "str \<Rightarrow> nat \<Rightarrow> tg_update list list \<Rightarrow> (str \<rightharpoonup> str) \<Rightarrow> str + (str \<rightharpoonup> str)" where
  "complete_telegram_pair agent timeout_seconds batches v =
     (case v (telegram_pair_code_key agent) of
        None \<Rightarrow> Inl ''no active Telegram pair code''
      | Some code \<Rightarrow>
          (case poll_for_pair code (take (max 1 timeout_seconds) batches) of
             None \<Rightarrow> Inl (''timed out waiting for `/pair '' @ code @ ''`'')
           | Some chat \<Rightarrow> Inr (v(telegram_chat_id_key agent \<mapsto> show_int chat, telegram_pair_code_key agent := None))))"

definition telegram_pair_status :: "str \<Rightarrow> (str \<rightharpoonup> str) \<Rightarrow> bool \<times> bool" where
  "telegram_pair_status agent v =
     (v (telegram_chat_id_key agent) \<noteq> None \<or> agent = ''default'' \<and> v shared_chat_id \<noteq> None,
      v (telegram_pair_code_key agent) \<noteq> None \<or> agent = ''default'' \<and> v shared_pair_code \<noteq> None)"

section \<open>Who may act\<close>

definition update_chat :: "tg_update \<Rightarrow> int option" where
  "update_chat u =
     (case tu_callback u of
        Some c \<Rightarrow> map_option tm_chat (tc_message c)
      | None \<Rightarrow> map_option tm_chat (telegram_message u))"

text \<open>The update is a text message that carries a pair code.\<close>

definition carries_code :: "tg_update \<Rightarrow> str \<Rightarrow> bool" where
  "carries_code u code \<longleftrightarrow> tu_callback u = None \<and>
     (case telegram_message u of None \<Rightarrow> False
      | Some m \<Rightarrow> is_pair_command (trim_text (case tm_text m of Some t \<Rightarrow> t | None \<Rightarrow> [])) code)"

text \<open>Effects that change the host, and those that only answer.\<close>

fun privileged :: "tg_effect \<Rightarrow> bool" where
  "privileged (AuditEvent _ _) = False"
| "privileged (SendText _ _) = False"
| "privileged (AnswerCallback _ _) = False"
| "privileged _ = True"

lemma text_action_acts [simp]: "text_action c t \<noteq> Pair d" "text_action c t \<noteq> Deny d" "text_action c t \<noteq> Ignore"
  by (auto simp: text_action_def Let_def split_beta split: if_splits option.splits prod.splits)

lemma classify_unpaired:
  "telegram_message u = Some m \<Longrightarrow> paired \<noteq> Some (tm_chat m) \<Longrightarrow> tu_callback u = None \<Longrightarrow>
     (\<forall>c. code = Some c \<longrightarrow> \<not> carries_code u c) \<Longrightarrow>
     classify_telegram_update u paired code \<in> {Ignore, Deny (tm_chat m)}"
  by (auto simp: classify_telegram_update_def Let_def carries_code_def split: option.splits list.splits)

lemma classify_pair:
  "classify_telegram_update u paired code = Pair d \<Longrightarrow> tu_callback u = None \<Longrightarrow>
     (\<exists>c. code = Some c \<and> carries_code u c) \<and> update_chat u = Some d"
  by (auto simp: classify_telegram_update_def Let_def carries_code_def update_chat_def split: option.splits list.splits if_splits)

lemma update_chat_none: "update_chat u = None \<Longrightarrow> e \<in> set (handle_telegram_update agent st paired code u) \<Longrightarrow> \<not> privileged e"
  by (auto simp: update_chat_def handle_telegram_update_def handle_telegram_callback_def classify_telegram_update_def split: option.splits)

lemma handle_privileged:
  assumes "e \<in> set (handle_telegram_update agent st paired code u)" "privileged e"
  shows "\<exists>c. update_chat u = Some c \<and> (paired = Some c \<or> (\<exists>k. code = Some k \<and> carries_code u k))"
proof (cases "tu_callback u")
  case (Some c)
  with assms show ?thesis
    by (auto simp: handle_telegram_update_def handle_telegram_callback_def update_chat_def split: option.splits if_splits)
next
  case None
  then obtain m where m: "telegram_message u = Some m"
    using assms update_chat_none [of u e agent st paired code] by (auto simp: update_chat_def split: option.splits)
  then have c: "update_chat u = Some (tm_chat m)" using None by (simp add: update_chat_def)
  show ?thesis
  proof (rule ccontr)
    assume "\<not> ?thesis"
    with c have "paired \<noteq> Some (tm_chat m)" "\<forall>c. code = Some c \<longrightarrow> \<not> carries_code u c" by auto
    then have "classify_telegram_update u paired code \<in> {Ignore, Deny (tm_chat m)}" using classify_unpaired [OF m] None by blast
    with assms None show False by (auto simp: handle_telegram_update_def)
  qed
qed

lemma effect_sets_vault: "ts_vault (apply_effect e st) =
   (case e of SetVault k v \<Rightarrow> (ts_vault st)(k \<mapsto> v) | DelVault k \<Rightarrow> (ts_vault st)(k := None) | _ \<Rightarrow> ts_vault st)"
  by (cases "(e, st)" rule: apply_effect.cases) auto

section \<open>Pairing over a run\<close>

lemma key_ends: "last (telegram_chat_id_key a) = CHR ''d''" "last (telegram_pair_code_key a) = CHR ''e''"
  "last shared_chat_id = CHR ''d''" "last shared_pair_code = CHR ''e''"
  by (simp_all add: telegram_chat_id_key_def telegram_pair_code_key_def shared_chat_id_def shared_pair_code_def)

lemma keys_differ [simp]: "telegram_chat_id_key a \<noteq> telegram_pair_code_key b" "shared_chat_id \<noteq> telegram_pair_code_key b"
  "telegram_chat_id_key a \<noteq> shared_pair_code" "shared_chat_id \<noteq> shared_pair_code"
proof -
  have "CHR ''d'' \<noteq> CHR ''e''" by simp
  then show "telegram_chat_id_key a \<noteq> telegram_pair_code_key b" "shared_chat_id \<noteq> telegram_pair_code_key b"
    "telegram_chat_id_key a \<noteq> shared_pair_code" "shared_chat_id \<noteq> shared_pair_code"
    by (metis key_ends)+
qed

lemma keys_differ' [simp]: "telegram_pair_code_key b \<noteq> telegram_chat_id_key a" "telegram_pair_code_key b \<noteq> shared_chat_id"
  "shared_pair_code \<noteq> telegram_chat_id_key a" "shared_pair_code \<noteq> shared_chat_id"
  by (metis keys_differ)+

lemma parse_show_int_only: "parse_i64 (show_int c) = Some d \<Longrightarrow> d = c"
proof (cases "c < 0")
  case True
  moreover assume "parse_i64 (show_int c) = Some d"
  ultimately show ?thesis by (auto simp: show_int_def parse_i64_def digits_val_show_nat split: if_splits)
next
  case False
  obtain x xs where x: "show_nat (nat c) = x # xs" "is_digit x"
    using show_nat_digits [of "nat c"] by (cases "show_nat (nat c)") auto
  then have "x \<noteq> CHR ''-''" "x \<noteq> CHR ''+''" by (auto simp: is_digit_def)
  moreover assume "parse_i64 (show_int c) = Some d"
  ultimately show ?thesis using False x digits_val_show_nat [of "nat c"]
    by (auto simp: show_int_def parse_i64_def parse_nat_below_def Let_def split: if_splits)
qed

lemma vault_quiet:
  "\<forall>e\<in>set fs. \<forall>k v. e \<noteq> SetVault k v \<and> e \<noteq> DelVault k \<Longrightarrow> ts_vault (fold apply_effect (take j fs) st0) = ts_vault st0"
proof (induction fs arbitrary: j st0)
  case (Cons e fs)
  have "ts_vault (apply_effect e st0) = ts_vault st0" using Cons.prems by (auto simp: effect_sets_vault split: tg_effect.split)
  with Cons show ?case by (cases j) auto
qed simp

text \<open>What the effects of one update do to the vault: nothing, or the pairing of its chat.\<close>

lemma handle_vault:
  assumes "es = take n (handle_telegram_update agent st paired code u)"
  shows "ts_vault (fold apply_effect es st0) = ts_vault st0 \<or>
    (\<exists>c k. update_chat u = Some c \<and> code = Some k \<and> carries_code u k \<and>
       ts_vault (fold apply_effect es st0) \<in>
         {(ts_vault st0)(telegram_chat_id_key agent \<mapsto> show_int c),
          (ts_vault st0)(telegram_chat_id_key agent \<mapsto> show_int c, telegram_pair_code_key agent := None)})"
proof -
  show ?thesis
  proof (cases "tu_callback u = None \<and> (\<exists>d. classify_telegram_update u paired code = Pair d)")
    case False
    then have "\<forall>e\<in>set (handle_telegram_update agent st paired code u). \<forall>k v. e \<noteq> SetVault k v \<and> e \<noteq> DelVault k"
      by (auto simp: handle_telegram_update_def handle_telegram_callback_def start_onboarding_def
          split: option.splits inbound_action.splits if_splits)
    then show ?thesis unfolding assms using vault_quiet by blast
  next
    case True
    then obtain d where d: "tu_callback u = None" "classify_telegram_update u paired code = Pair d" by blast
    obtain k where k: "code = Some k" "carries_code u k" "update_chat u = Some d" using classify_pair [OF d(2) d(1)] by blast
    obtain rest where es: "handle_telegram_update agent st paired code u =
        SetVault (telegram_chat_id_key agent) (show_int d) # DelVault (telegram_pair_code_key agent) # rest"
      and r: "\<forall>e\<in>set rest. \<forall>k v. e \<noteq> SetVault k v \<and> e \<noteq> DelVault k"
      using d by (auto simp: handle_telegram_update_def start_onboarding_def)
    show ?thesis
    proof (cases n)
      case 0
      then show ?thesis by (simp add: assms)
    next
      case (Suc i)
      then show ?thesis using k vault_quiet [OF r] unfolding assms es by (cases i) auto
    qed
  qed
qed

definition known_codes :: "str \<Rightarrow> (str \<rightharpoonup> str) \<Rightarrow> str set" where
  "known_codes agent v = {k. v (telegram_pair_code_key agent) = Some k \<or> v shared_pair_code = Some k}"

lemma pending_known: "pending_code agent v = Some k \<Longrightarrow> k \<in> known_codes agent v"
  by (auto simp: pending_code_def known_codes_def or_else_def split: option.splits)

lemma serve_update_vault:
  assumes "serve_update agent n u st = (es, st')"
  shows "known_codes agent (ts_vault st') \<subseteq> known_codes agent (ts_vault st)"
    and "paired_chat agent (ts_vault st') = Some c \<Longrightarrow> paired_chat agent (ts_vault st) = Some c \<or>
      update_chat u = Some c \<and> (\<exists>k\<in>known_codes agent (ts_vault st). carries_code u k)"
proof -
  let ?st1 = "st\<lparr>ts_offset := Some (tu_update_id u + 1)\<rparr>"
  let ?p = "paired_chat agent (ts_vault ?st1)" and ?c = "pending_code agent (ts_vault ?st1)"
  have es: "es = take n (handle_telegram_update agent ?st1 ?p ?c u)" and st': "st' = fold apply_effect es ?st1"
    using assms by (auto simp: serve_update_def Let_def)
  consider (same) "ts_vault st' = ts_vault st"
    | (pair) d k where "update_chat u = Some d" "?c = Some k" "carries_code u k"
        "ts_vault st' \<in> {(ts_vault st)(telegram_chat_id_key agent \<mapsto> show_int d),
          (ts_vault st)(telegram_chat_id_key agent \<mapsto> show_int d, telegram_pair_code_key agent := None)}"
    using handle_vault [OF es, of ?st1] unfolding st' by auto
  note cases = this
  from cases show "known_codes agent (ts_vault st') \<subseteq> known_codes agent (ts_vault st)"
    by cases (auto simp: known_codes_def split: if_splits)
  assume pc: "paired_chat agent (ts_vault st') = Some c"
  from cases show "paired_chat agent (ts_vault st) = Some c \<or>
      update_chat u = Some c \<and> (\<exists>k\<in>known_codes agent (ts_vault st). carries_code u k)"
  proof cases
    case (pair d k)
    then have "paired_chat agent (ts_vault st') = parse_i64 (show_int d)" by (auto simp: paired_chat_def or_else_def)
    with pc have "c = d" by (simp add: parse_show_int_only)
    then show ?thesis using pair pending_known [of agent "ts_vault st" k] by auto
  qed (use pc in simp)
qed

lemma serve_updates_vault:
  assumes "serve_updates agent us st = (tr, st')"
  shows "known_codes agent (ts_vault st') \<subseteq> known_codes agent (ts_vault st) \<and>
    (\<forall>c. paired_chat agent (ts_vault st') = Some c \<longrightarrow> paired_chat agent (ts_vault st) = Some c \<or>
      (\<exists>u\<in>snd ` set us. update_chat u = Some c \<and> (\<exists>k\<in>known_codes agent (ts_vault st). carries_code u k)))"
  using assms
proof (induction agent us st arbitrary: tr st' rule: serve_updates.induct)
  case (2 agent n u us st)
  obtain es st1 where s1: "serve_update agent n u st = (es, st1)" by force
  obtain tr1 where s2: "serve_updates agent us st1 = (tr1, st')" using "2.prems" s1 by (auto split: prod.splits)
  note one = serve_update_vault [OF s1]
  note rest = "2.IH" [OF s1 [symmetric] s2]
  have "known_codes agent (ts_vault st') \<subseteq> known_codes agent (ts_vault st)" using one(1) rest by blast
  moreover have "paired_chat agent (ts_vault st) = Some c \<or>
      (\<exists>u\<in>snd ` set ((n, u) # us). update_chat u = Some c \<and> (\<exists>k\<in>known_codes agent (ts_vault st). carries_code u k))"
    if "paired_chat agent (ts_vault st') = Some c" for c
    using that one rest by (simp add: image_iff) (metis subsetD)
  ultimately show ?case by blast
qed simp

section \<open>Slugs\<close>

definition slug_char :: "char \<Rightarrow> bool" where
  "slug_char c \<longleftrightarrow> is_ascii_lower c \<or> is_digit c"

definition is_slug :: "str \<Rightarrow> bool" where
  "is_slug s \<longleftrightarrow> (\<exists>ps. ps \<noteq> [] \<and> (\<forall>p\<in>set ps. p \<noteq> [] \<and> list_all slug_char p) \<and> s = join ''-'' ps)"

lemma lower_slug_char: "is_ascii_alnum c \<Longrightarrow> slug_char (lower_char c)"
  by (auto simp: is_ascii_alnum_def slug_char_def is_ascii_lower_def is_digit_def Let_def of_char_lower upper_range)

lemma slug_char_not_dash: "slug_char c \<Longrightarrow> c \<noteq> CHR ''-''"
  by (auto simp: slug_char_def is_ascii_lower_def is_digit_def)

lemma dash_no_slug [simp]: "\<not> slug_char CHR ''-''" "\<not> is_ascii_alnum CHR ''-''"
  by code_simp+

lemma split_parts_chars: "p \<in> set (split_on c s) \<Longrightarrow> set p \<subseteq> set s"
  by (induction s arbitrary: p) (auto split: list.splits if_splits, blast+)

definition slug_text :: "str \<Rightarrow> str" where
  "slug_text v = concat (map (\<lambda>c. if length c = 1 \<and> is_ascii_alnum (hd c) then to_ascii_lowercase c else ''-'') (chars_of v))"

lemma slug_text_chars: "x \<in> set (slug_text v) \<Longrightarrow> x = CHR ''-'' \<or> slug_char x"
  by (auto simp: slug_text_def to_ascii_lowercase_def length_Suc_conv lower_slug_char split: if_splits)

lemma slugify_alt: "slugify_channel_id v =
   (let slug = join ''-'' (filter (\<lambda>p. p \<noteq> []) (split_on CHR ''-'' (slug_text v))) in if slug = [] then ''subagent'' else slug)"
  by (simp add: slugify_channel_id_def slug_text_def)

lemma slugify_slug: "is_slug (slugify_channel_id v)"
proof -
  let ?ps = "filter (\<lambda>p. p \<noteq> []) (split_on CHR ''-'' (slug_text v))"
  note e = slugify_alt [of v]
  have ps: "\<forall>p\<in>set ?ps. p \<noteq> [] \<and> list_all slug_char p"
    using split_on_parts split_parts_chars slug_text_chars by (fastforce simp: list_all_iff)
  show ?thesis
  proof (cases "join ''-'' ?ps = []")
    case True
    have "list_all slug_char ''subagent''" by code_simp
    then show ?thesis using True unfolding e is_slug_def by (intro exI [of _ "[''subagent'']"]) (simp add: Let_def)
  next
    case False
    then have "?ps \<noteq> []" by (metis join.simps(1))
    then show ?thesis using ps False unfolding e is_slug_def Let_def by (metis (no_types))
  qed
qed

lemma split_join_slug: "\<forall>p\<in>set ps. list_all slug_char p \<Longrightarrow> ps \<noteq> [] \<Longrightarrow> split_on CHR ''-'' (join ''-'' ps) = ps"
proof (induction ps)
  case (Cons x ps)
  then have x: "CHR ''-'' \<notin> set x" by (auto simp: list_all_iff)
  show ?case
  proof (cases ps)
    case Nil
    with x show ?thesis by (simp add: split_on_plain)
  next
    case (Cons y ys)
    have "split_on CHR ''-'' (join ''-'' ps) = ps" using Cons.IH Cons.prems Cons by simp
    with x Cons show ?thesis by (simp add: split_on_record)
  qed
qed simp

lemma slug_chars: "is_slug s \<Longrightarrow> x \<in> set s \<Longrightarrow> slug_char x \<or> x = CHR ''-''"
proof -
  have "x \<in> set (join ''-'' ps) \<Longrightarrow> \<forall>p\<in>set ps. list_all slug_char p \<Longrightarrow> slug_char x \<or> x = CHR ''-''" for ps
    by (induction "''-''" ps rule: join.induct) (auto simp: list_all_iff)
  then show "is_slug s \<Longrightarrow> x \<in> set s \<Longrightarrow> slug_char x \<or> x = CHR ''-''" by (auto simp: is_slug_def)
qed

lemma chars_of_slug: "\<forall>x\<in>set s. byte_in 0 127 x \<Longrightarrow> chars_of s = map (\<lambda>c. [c]) s"
proof (induction s)
  case (Cons a s)
  have "takeWhile (byte_in 128 191) s = []" "dropWhile (byte_in 128 191) s = s"
    using Cons.prems by (cases s; auto simp: byte_in_def)+
  with Cons show ?case by (simp add: byte_in_def)
qed simp

lemma slugify_fixed: "is_slug s \<Longrightarrow> slugify_channel_id s = s"
proof -
  assume s: "is_slug s"
  then obtain ps where ps: "ps \<noteq> []" "\<forall>p\<in>set ps. p \<noteq> [] \<and> list_all slug_char p" "s = join ''-'' ps" by (auto simp: is_slug_def)
  have b: "byte_in 0 127 x" if "x \<in> set s" for x
    using slug_chars [OF s that] by (auto simp: slug_char_def is_ascii_lower_def is_digit_def byte_in_def Let_def)
  have low: "lower_char x = x \<and> is_ascii_alnum x" if "slug_char x" for x
    using that by (auto simp: slug_char_def lower_char_def is_ascii_alnum_def is_ascii_upper_def is_ascii_lower_def is_digit_def Let_def)
  have "slug_text s = concat (map (\<lambda>c. if is_ascii_alnum c then to_ascii_lowercase [c] else ''-'') s)"
    using b by (simp add: slug_text_def chars_of_slug comp_def)
  also have "\<dots> = concat (map (\<lambda>c. [c]) s)"
  proof (intro arg_cong [where f = concat] map_cong refl)
    fix x assume "x \<in> set s"
    then show "(if is_ascii_alnum x then to_ascii_lowercase [x] else ''-'') = [x]"
      using slug_chars [OF s, of x] low [of x] by (cases "slug_char x") (auto simp: to_ascii_lowercase_def)
  qed
  finally have t: "slug_text s = s" by simp
  have "join ''-'' ps \<noteq> []" using ps(1,2) by (cases ps; cases "tl ps") auto
  then show ?thesis
    using ps t split_join_slug [of ps] by (simp add: slugify_alt Let_def)
qed

text \<open>Only the pairing of the update's chat writes to the vault.\<close>

lemma set_vault_pairs: "SetVault k v \<in> set (handle_telegram_update agent st paired code u) \<Longrightarrow>
   tu_callback u = None \<and> (\<exists>d k. classify_telegram_update u paired code = Pair d \<and> code = Some k)"
  using classify_pair [of u paired code]
  by (auto simp: handle_telegram_update_def handle_telegram_callback_def start_onboarding_def
      split: option.splits inbound_action.splits if_splits)

text \<open>A pairing that gets past its second effect has used the agent's own code up.\<close>

lemma pair_effects:
  assumes "tu_callback u = None" "classify_telegram_update u paired code = Pair d"
  obtains rest where "handle_telegram_update agent st paired code u =
      SetVault (telegram_chat_id_key agent) (show_int d) # DelVault (telegram_pair_code_key agent) # rest"
    "\<And>j st0. ts_vault (fold apply_effect (take j rest) st0) = ts_vault st0"
proof -
  obtain rest where es: "handle_telegram_update agent st paired code u =
      SetVault (telegram_chat_id_key agent) (show_int d) # DelVault (telegram_pair_code_key agent) # rest"
    and r: "\<forall>e\<in>set rest. \<forall>k v. e \<noteq> SetVault k v \<and> e \<noteq> DelVault k"
    using assms by (auto simp: handle_telegram_update_def start_onboarding_def)
  from es vault_quiet [OF r] show ?thesis by (rule that)
qed

lemma no_pair_when_none:
  "pending_code agent (ts_vault st) = None \<Longrightarrow> serve_updates agent us st = (tr, st') \<Longrightarrow>
     pending_code agent (ts_vault st') = None \<and> filter (\<lambda>(u, es). \<exists>k v. SetVault k v \<in> set es) tr = []"
proof (induction agent us st arbitrary: tr st' rule: serve_updates.induct)
  case (2 agent n u us st)
  obtain es st1 where s1: "serve_update agent n u st = (es, st1)" by force
  obtain tr1 where s2: "serve_updates agent us st1 = (tr1, st')" "tr = (u, es) # tr1" using "2.prems" s1 by (auto split: prod.splits)
  have "known_codes agent (ts_vault st) = {}"
    using "2.prems"(1) by (auto simp: pending_code_def or_else_def known_codes_def split: option.splits)
  then have "known_codes agent (ts_vault st1) = {}" using serve_update_vault(1) [OF s1] by simp
  then have none: "pending_code agent (ts_vault st1) = None" using pending_known by (metis empty_iff not_Some_eq)
  have "\<forall>k v. SetVault k v \<notin> set es"
    using s1 "2.prems"(1) by (auto simp: serve_update_def Let_def dest!: in_set_takeD set_vault_pairs)
  then show ?case using "2.IH" [OF s1 [symmetric] none s2(1)] s2(2) by simp
qed simp

text \<open>What an update does to the vault, seen from its effects.\<close>

lemma serve_update_pairs:
  assumes "serve_update agent n u st = (es, st')"
  shows "agent \<noteq> ''default'' \<Longrightarrow> ts_vault st' shared_pair_code = ts_vault st shared_pair_code"
    and "SetVault k v \<in> set es \<Longrightarrow> pending_code agent (ts_vault st) \<noteq> None"
    and "SetVault k v \<in> set es \<Longrightarrow> 2 \<le> n \<Longrightarrow> ts_vault st' (telegram_pair_code_key agent) = None \<and>
           (agent \<noteq> ''default'' \<longrightarrow> ts_vault st' shared_pair_code = ts_vault st shared_pair_code)"
    and "(\<And>k v. SetVault k v \<notin> set es) \<Longrightarrow> ts_vault st' = ts_vault st"
proof -
  let ?st1 = "st\<lparr>ts_offset := Some (tu_update_id u + 1)\<rparr>"
  let ?p = "paired_chat agent (ts_vault st)" and ?c = "pending_code agent (ts_vault st)"
  let ?es = "handle_telegram_update agent ?st1 ?p ?c u"
  have es: "es = take n ?es" and st': "st' = fold apply_effect es ?st1"
    using assms by (auto simp: serve_update_def Let_def)
  have key: "agent \<noteq> ''default'' \<Longrightarrow> shared_pair_code \<noteq> telegram_pair_code_key agent"
    by (auto simp: telegram_pair_code_key_def shared_pair_code_def dest: arg_cong [where f = length])
  have quiet: "ts_vault st' = ts_vault st" if "\<nexists>d. classify_telegram_update u ?p ?c = Pair d \<and> tu_callback u = None"
  proof -
    have "\<forall>e\<in>set ?es. \<forall>k v. e \<noteq> SetVault k v \<and> e \<noteq> DelVault k"
      using that by (auto simp: handle_telegram_update_def handle_telegram_callback_def start_onboarding_def
          split: option.splits inbound_action.splits if_splits)
    then show ?thesis unfolding st' es using vault_quiet by simp
  qed
  have pair: "es = [] \<and> ts_vault st' = ts_vault st \<or>
      (\<exists>d. SetVault (telegram_chat_id_key agent) (show_int d) \<in> set es \<and>
        (ts_vault st' = (ts_vault st)(telegram_chat_id_key agent \<mapsto> show_int d) \<and> n = 1 \<or>
         ts_vault st' = (ts_vault st)(telegram_chat_id_key agent \<mapsto> show_int d, telegram_pair_code_key agent := None) \<and> 2 \<le> n))"
    if d: "tu_callback u = None" "classify_telegram_update u ?p ?c = Pair d" for d
  proof -
    obtain rest where r: "?es = SetVault (telegram_chat_id_key agent) (show_int d) # DelVault (telegram_pair_code_key agent) # rest"
      "\<And>j st0. ts_vault (fold apply_effect (take j rest) st0) = ts_vault st0" using pair_effects [OF d] by metis
    consider "n = 0" | "n = 1" | j where "n = Suc (Suc j)" by (metis One_nat_def not0_implies_Suc)
    then show ?thesis using r unfolding st' es by cases auto
  qed
  show "SetVault k v \<in> set es \<Longrightarrow> ?c \<noteq> None"
    using set_vault_pairs unfolding es by (metis in_set_takeD option.distinct(1))
  show "agent \<noteq> ''default'' \<Longrightarrow> ts_vault st' shared_pair_code = ts_vault st shared_pair_code"
    using quiet pair key by (metis (no_types, lifting) fun_upd_apply keys_differ(3))
  show "SetVault k v \<in> set es \<Longrightarrow> 2 \<le> n \<Longrightarrow> ts_vault st' (telegram_pair_code_key agent) = None \<and>
      (agent \<noteq> ''default'' \<longrightarrow> ts_vault st' shared_pair_code = ts_vault st shared_pair_code)"
  proof -
    assume s: "SetVault k v \<in> set es" and n: "2 \<le> n"
    then obtain d where d: "tu_callback u = None" "classify_telegram_update u ?p ?c = Pair d"
      using set_vault_pairs unfolding es by (metis in_set_takeD)
    from pair [OF d] s n obtain d' where
      "ts_vault st' = (ts_vault st)(telegram_chat_id_key agent \<mapsto> show_int d', telegram_pair_code_key agent := None)" by auto
    then show ?thesis using key by auto
  qed
  show "(\<And>k v. SetVault k v \<notin> set es) \<Longrightarrow> ts_vault st' = ts_vault st"
    using quiet pair by metis
qed

lemma serve_update_own:
  assumes "serve_update agent n u st = (es, st')"
  shows "ts_vault st' (telegram_pair_code_key agent) \<in> {ts_vault st (telegram_pair_code_key agent), None}"
proof -
  let ?st1 = "st\<lparr>ts_offset := Some (tu_update_id u + 1)\<rparr>"
  have es: "es = take n (handle_telegram_update agent ?st1 (paired_chat agent (ts_vault st)) (pending_code agent (ts_vault st)) u)"
    and st': "st' = fold apply_effect es ?st1"
    using assms by (auto simp: serve_update_def Let_def)
  show ?thesis using handle_vault [OF es, of ?st1] unfolding st' by auto
qed

text \<open>Nothing a bridge does for another agent touches the default agent's code, nor brings back one of its own.\<close>

lemma shared_code_kept:
  "serve_updates agent us st = (tr, st') \<Longrightarrow> agent \<noteq> ''default'' \<Longrightarrow>
   ts_vault st (telegram_pair_code_key agent) = None \<and> ts_vault st shared_pair_code = Some k \<Longrightarrow>
   ts_vault st' shared_pair_code = Some k \<and> ts_vault st' (telegram_pair_code_key agent) = None"
proof (induction agent us st arbitrary: tr st' rule: serve_updates.induct)
  case (2 agent n u us st)
  obtain es st1 where s1: "serve_update agent n u st = (es, st1)" by force
  obtain tr1 where s2: "serve_updates agent us st1 = (tr1, st')" using "2.prems" s1 by (auto split: prod.splits)
  have "ts_vault st1 shared_pair_code = Some k" using serve_update_pairs(1) [OF s1] "2.prems" by simp
  moreover have "ts_vault st1 (telegram_pair_code_key agent) = None"
    using serve_update_own [OF s1] "2.prems"(3) by auto
  ultimately show ?case using "2.IH" [OF s1 [symmetric] s2 "2.prems"(2)] by blast
qed simp

section \<open>Properties\<close>

text \<open>
  An update from a chat that is not paired and does not carry the pending code gets at most a refusal: no effect of it changes
  the host, starts an interview or reaches a handler, whatever it contains.
\<close>
theorem unpaired_refused:
  assumes "paired = None \<or> paired \<noteq> update_chat u" and "\<forall>k. code = Some k \<longrightarrow> \<not> carries_code u k"
  shows "handle_telegram_update agent st paired code u \<in>
    {[], [AuditEvent ''channel.telegram.denied'' ''ignored unpaired chat'',
          SendText (the (update_chat u)) ''This Maturana agent is not paired with this chat.'']} \<union>
    {[AnswerCallback i t] | i t. t = None \<or> t = Some ''Not paired with this chat.''}"
proof (cases "tu_callback u")
  case (Some c)
  show ?thesis
  proof (cases "tc_message c")
    case (Some m)
    then have "paired \<noteq> Some (tm_chat m)" using assms(1) \<open>tu_callback u = Some c\<close> by (auto simp: update_chat_def)
    then show ?thesis using Some \<open>tu_callback u = Some c\<close> by (simp add: handle_telegram_update_def handle_telegram_callback_def)
  qed (use Some in \<open>simp add: handle_telegram_update_def handle_telegram_callback_def\<close>)
next
  case None
  show ?thesis
  proof (cases "telegram_message u")
    case (Some m)
    then have c: "update_chat u = Some (tm_chat m)" using None by (simp add: update_chat_def)
    have "classify_telegram_update u paired code \<in> {Ignore, Deny (tm_chat m)}"
      using classify_unpaired [OF Some _ None] assms c by auto
    with None c show ?thesis by (auto simp: handle_telegram_update_def)
  qed (simp add: handle_telegram_update_def None classify_telegram_update_def)
qed

text \<open>
  C25. Nobody takes an agent over without a code: in any run of updates, with failures anywhere, an effect that changes the host
  serves a chat that was paired at the start, or that itself sent a code which was in the vault at the start.
\<close>
theorem takeover_needs_code:
  assumes "serve_updates agent us st = (tr, st1)" and "serve_update agent n u st1 = (es, st2)"
    and "e \<in> set es" and "privileged e"
  shows "\<exists>c. update_chat u = Some c \<and> (paired_chat agent (ts_vault st) = Some c \<or>
    (\<exists>v\<in>set (map snd us @ [u]). update_chat v = Some c \<and>
      (\<exists>k. carries_code v k \<and> (ts_vault st (telegram_pair_code_key agent) = Some k \<or> ts_vault st shared_pair_code = Some k))))"
proof -
  let ?st = "st1\<lparr>ts_offset := Some (tu_update_id u + 1)\<rparr>"
  have "e \<in> set (handle_telegram_update agent ?st (paired_chat agent (ts_vault st1)) (pending_code agent (ts_vault st1)) u)"
    using assms(2,3) by (auto simp: serve_update_def Let_def dest: in_set_takeD)
  then obtain c where c: "update_chat u = Some c"
    "paired_chat agent (ts_vault st1) = Some c \<or> (\<exists>k. pending_code agent (ts_vault st1) = Some k \<and> carries_code u k)"
    using handle_privileged assms(4) by blast
  note run = serve_updates_vault [OF assms(1)]
  have "paired_chat agent (ts_vault st) = Some c \<or>
    (\<exists>v\<in>set (map snd us @ [u]). update_chat v = Some c \<and> (\<exists>k\<in>known_codes agent (ts_vault st). carries_code v k))"
    using c(2)
  proof
    assume "paired_chat agent (ts_vault st1) = Some c"
    with run show ?thesis by auto
  next
    assume "\<exists>k. pending_code agent (ts_vault st1) = Some k \<and> carries_code u k"
    then obtain k where "k \<in> known_codes agent (ts_vault st1)" "carries_code u k" using pending_known by blast
    with run c(1) show ?thesis by auto
  qed
  with c(1) show ?thesis by (auto simp: known_codes_def)
qed

text \<open>
  A code of the agent's own pairs once: when the handlers run through, at most one update of a run pairs a chat,
  and afterwards the code is gone.
\<close>
theorem own_code_single_use:
  assumes "serve_updates agent us st = (tr, st')" and "ts_vault st shared_pair_code = None \<or> agent = ''default''"
    and "\<forall>(n, u)\<in>set us. 2 \<le> n"
  shows "length (filter (\<lambda>(u, es). \<exists>k v. SetVault k v \<in> set es) tr) \<le> (if pending_code agent (ts_vault st) = None then 0 else 1)"
  using assms
proof (induction agent us st arbitrary: tr st' rule: serve_updates.induct)
  case (2 agent n u us st)
  obtain es st1 where s1: "serve_update agent n u st = (es, st1)" by force
  obtain tr1 where s2: "serve_updates agent us st1 = (tr1, st')" "tr = (u, es) # tr1" using "2.prems" s1 by (auto split: prod.splits)
  note e = serve_update_pairs [OF s1]
  have shared: "ts_vault st1 shared_pair_code = None \<or> agent = ''default''" using e(1) "2.prems"(2) by auto
  note IH = "2.IH" [OF s1 [symmetric] s2(1) shared]
  show ?case
  proof (cases "\<exists>k v. SetVault k v \<in> set es")
    case True
    then have "pending_code agent (ts_vault st) \<noteq> None" "pending_code agent (ts_vault st1) = None"
      using e(2,3) "2.prems"(2,3) by (auto simp: pending_code_def or_else_def telegram_pair_code_key_def)
    then show ?thesis using no_pair_when_none [OF _ s2(1)] True s2(2) by simp
  next
    case False
    then have "ts_vault st1 = ts_vault st" using e(4) by blast
    then show ?thesis using IH False "2.prems"(3) s2(2) by simp
  qed
qed simp

text \<open>
  But the code of the default agent is accepted for every other agent without being used up: after any run it still pairs
  whatever chat sends it, so whoever has seen it once can take over every such agent.
\<close>
theorem shared_code_reusable:
  assumes "serve_updates agent us st = (tr, st')" and "agent \<noteq> ''default''"
    and "ts_vault st (telegram_pair_code_key agent) = None" and "ts_vault st shared_pair_code = Some k"
    and "tu_callback u = None" and "\<forall>p. classify_telegram_update u p (Some k) = Pair c" and "0 < n"
    and "- (2 ^ 63) \<le> c" and "c < 2 ^ 63"
  shows "paired_chat agent (ts_vault (snd (serve_update agent n u st'))) = Some c"
proof -
  have "ts_vault st' shared_pair_code = Some k \<and> ts_vault st' (telegram_pair_code_key agent) = None"
    using shared_code_kept [OF assms(1,2)] assms(3,4) by simp
  then have p: "pending_code agent (ts_vault st') = Some k" by (simp add: pending_code_def or_else_def)
  obtain j where n: "n = Suc j" using assms(7) by (metis gr0_implies_Suc)
  let ?st1 = "st'\<lparr>ts_offset := Some (tu_update_id u + 1)\<rparr>"
  have cl: "classify_telegram_update u (paired_chat agent (ts_vault st')) (Some k) = Pair c" using assms(6) by blast
  obtain rest where es: "handle_telegram_update agent ?st1 (paired_chat agent (ts_vault st')) (Some k) u =
      SetVault (telegram_chat_id_key agent) (show_int c) # DelVault (telegram_pair_code_key agent) # rest"
    and q: "\<And>j st0. ts_vault (fold apply_effect (take j rest) st0) = ts_vault st0"
    using pair_effects [OF assms(5) cl] by metis
  have "ts_vault (snd (serve_update agent n u st')) (telegram_chat_id_key agent) = Some (show_int c)"
    using q unfolding serve_update_def Let_def n by (cases j) (simp_all add: p es)
  then show ?thesis using parse_show_int [OF assms(8,9)] by (simp add: paired_chat_def or_else_def)
qed

text \<open>
  The name of a sub-task file is always a slug: words of lower-case letters and digits joined by single dashes, never empty, so
  it names a file directly in the agent's directory; and making a slug twice changes nothing.
\<close>
theorem subagent_names_safe:
  "is_slug (slugify_channel_id v) \<and> slugify_channel_id (slugify_channel_id v) = slugify_channel_id v \<and>
   path_parts (slugify_channel_id v @ ''.json'') = [slugify_channel_id v @ ''.json'']"
proof -
  have "\<not> slug_char CHR ''/''" by code_simp
  then have "CHR ''/'' \<notin> set (slugify_channel_id v)" using slug_chars [OF slugify_slug] by auto
  then have "path_parts (slugify_channel_id v @ ''.json'') = [slugify_channel_id v @ ''.json'']"
    by (intro path_parts_one) (auto simp: append_eq_Cons_conv)
  then show ?thesis using slugify_slug slugify_fixed by blast
qed

section \<open>Runs on small inputs\<close>

definition demo_update :: "int \<Rightarrow> str \<Rightarrow> tg_update" where
  "demo_update chat t = \<lparr> tu_update_id = 1, tu_message = Some \<lparr> tm_message_id = 1, tm_text = Some t, tm_caption = None,
     tm_document = None, tm_photo = None, tm_voice = None, tm_audio = None, tm_chat = chat \<rparr>,
     tu_channel_post = None, tu_callback = None \<rparr>"

definition demo_bridge :: "(str \<rightharpoonup> str) \<Rightarrow> tg_state" where
  "demo_bridge v = \<lparr> ts_vault = v, ts_onboarded = True, ts_settings = default_settings, ts_offset = None \<rparr>"

lemma demo_chat [simp]: "update_chat (demo_update c t) = Some c" "tu_callback (demo_update c t) = None"
  by (simp_all add: demo_update_def update_chat_def telegram_message_def or_else_def)

lemma demo_pair: "classify_telegram_update (demo_update c ''/pair K'') p (Some ''K'') = Pair c"
proof -
  have "trim_text ''/pair K'' = ''/pair K''" "is_pair_command ''/pair K'' ''K''" by code_simp+
  then show ?thesis by (simp add: classify_telegram_update_def demo_update_def telegram_message_def or_else_def voice_of_def)
qed

theorem unpaired_refused_witness:
  "handle_telegram_update ''a'' (demo_bridge Map.empty) None (Some ''K'') (demo_update 7 ''/pair L'') \<in>
    {[], [AuditEvent ''channel.telegram.denied'' ''ignored unpaired chat'',
          SendText (the (update_chat (demo_update 7 ''/pair L''))) ''This Maturana agent is not paired with this chat.'']} \<union>
    {[AnswerCallback i t] | i t. t = None \<or> t = Some ''Not paired with this chat.''}"
proof (rule unpaired_refused)
  have "\<not> carries_code (demo_update 7 ''/pair L'') ''K''" by code_simp
  then show "\<forall>k. Some ''K'' = Some k \<longrightarrow> \<not> carries_code (demo_update 7 ''/pair L'') k" by simp
qed simp

theorem takeover_needs_code_witness:
  "\<exists>c. update_chat (demo_update 7 ''hi'') = Some c \<and>
    paired_chat ''a'' (ts_vault (demo_bridge [''telegram/a/chat-id'' \<mapsto> show_int 7])) = Some c"
proof -
  let ?st = "demo_bridge [''telegram/a/chat-id'' \<mapsto> show_int 7]"
  have p: "paired_chat ''a'' (ts_vault ?st) = Some 7" and c: "pending_code ''a'' (ts_vault ?st) = None"
    using parse_show_int [of 7]
    by (simp_all add: paired_chat_def pending_code_def telegram_chat_id_key_def telegram_pair_code_key_def demo_bridge_def or_else_def
        shared_pair_code_def)
  have "classify_telegram_update (demo_update 7 ''hi'') (Some 7) None = Prompt 7 ''hi''" by code_simp
  then have h: "handle_telegram_update ''a'' st (Some 7) None (demo_update 7 ''hi'') = [Run (Prompt 7 ''hi'')]" for st
    by (simp add: handle_telegram_update_def)
  obtain es st2 where s: "serve_update ''a'' 1 (demo_update 7 ''hi'') ?st = (es, st2)" by force
  then have "Run (Prompt 7 ''hi'') \<in> set es" using p c h by (auto simp: serve_update_def Let_def)
  then show ?thesis
    using takeover_needs_code [of "''a''" "[]" ?st "[]" ?st, OF _ s] p by (auto simp: demo_bridge_def shared_pair_code_def telegram_pair_code_key_def)
qed

theorem own_code_single_use_witness:
  "length (filter (\<lambda>(u, es). \<exists>k v. SetVault k v \<in> set es)
     (fst (serve_updates ''a'' [(5, demo_update 7 ''/pair K''), (5, demo_update 8 ''/pair K'')]
        (demo_bridge [''telegram/a/pair-code'' \<mapsto> ''K''])))) \<le> 1"
proof -
  let ?st = "demo_bridge [''telegram/a/pair-code'' \<mapsto> ''K'']"
  obtain tr st' where "serve_updates ''a'' [(5, demo_update 7 ''/pair K''), (5, demo_update 8 ''/pair K'')] ?st = (tr, st')" by force
  then show ?thesis using own_code_single_use [of "''a''" _ ?st tr st'] by (fastforce simp: demo_bridge_def shared_pair_code_def split: if_splits)
qed

theorem shared_code_reusable_witness:
  "paired_chat ''a'' (ts_vault (snd (serve_update ''a'' 1 (demo_update 8 ''/pair K'')
     (snd (serve_updates ''a'' [(5, demo_update 7 ''/pair K'')] (demo_bridge [''telegram/pair-code'' \<mapsto> ''K''])))))) = Some 8"
proof -
  let ?st = "demo_bridge [''telegram/pair-code'' \<mapsto> ''K'']"
  obtain tr st' where r: "serve_updates ''a'' [(5, demo_update 7 ''/pair K'')] ?st = (tr, st')" by force
  have "paired_chat ''a'' (ts_vault (snd (serve_update ''a'' 1 (demo_update 8 ''/pair K'') st'))) = Some 8"
    by (rule shared_code_reusable [OF r, where k = "''K''"])
       (simp_all add: demo_pair, simp_all add: demo_bridge_def shared_pair_code_def telegram_pair_code_key_def)
  then show ?thesis unfolding r by simp
qed

text \<open>A button may store a reasoning level that the command refuses.\<close>

lemma selection_unchecked:
  "st_reasoning (snd (apply_channel_selection ''reasoning:minimal'' s)) = Some ''minimal''"
  "settings_command i ''reasoning'' ''minimal'' s = Some (''Unknown level `minimal`. Choose one of: low, medium, high'', s)"
proof -
  have "split_once CHR '':'' ''reasoning:minimal'' = Some (''reasoning'', ''minimal'')" by code_simp
  then show "st_reasoning (snd (apply_channel_selection ''reasoning:minimal'' s)) = Some ''minimal''"
    by (simp add: apply_channel_selection_def)
  have "to_ascii_lowercase (trim_text ''minimal'') = ''minimal''" by code_simp
  then show "settings_command i ''reasoning'' ''minimal'' s = Some (''Unknown level `minimal`. Choose one of: low, medium, high'', s)"
    by (simp add: settings_command_def reasoning_levels_def Let_def)
qed

end
