(* ===== verification/Delivery.thy ===== *)
theory Delivery
  imports Telegram
begin

text \<open>
  Outbound delivery of \<open>crates/maturana-cli/src/channels/delivery.rs\<close>: the loop every channel bridge
  runs over the outbox of a session, and the Telegram sink that sends texts and files. What the channel
  answers, what other processes do to the session in between, and the clocks are the environment, given per
  row; the database itself does not fail.
\<close>

section \<open>The text of a reply\<close>

definition max_response_chars :: nat where
  "max_response_chars = 3500"

definition truncate_for_telegram :: "str \<Rightarrow> str" where
  "truncate_for_telegram value =
     (let v = trim_text value; cs = chars_of v
      in if length cs \<le> max_response_chars then v
         else concat (take max_response_chars cs) @ newline_byte # ''...[truncated]'')"

definition onboarding_complete_sentinel :: str where
  "onboarding_complete_sentinel = ''[[ONBOARDING_COMPLETE]]''"

text \<open>With the flag of the running interview.\<close>

definition finalize_onboarding_reply :: "str \<Rightarrow> bool \<Rightarrow> str \<times> bool" where
  "finalize_onboarding_reply reply active =
     (if contains onboarding_complete_sentinel reply
      then (trim_text (replace_all onboarding_complete_sentinel [] reply), False)
      else (reply, active))"

definition silence_sentinel :: str where
  "silence_sentinel = ''[[MATURANA_SILENT]]''"

section \<open>The other processes\<close>

text \<open>
  What the other processes on the session do. Each deliverer (another bridge running this loop, or the live
  streamer of \<open>channels/telegram_live.rs\<close>) claims a row, sends it, and marks it or gives it back; the rows it
  has won and not yet settled are known to it alone, so together they are part of the state. The web app and the
  command line mark rows without claiming them, and everybody may change the rest of the session.
\<close>

record shared =
  sh_session :: session
  sh_held :: "str set" \<comment> \<open>won by another process, not settled yet\<close>

datatype other_step =
    OtherClaims timestamp str | OtherDelivers timestamp str "str option" | OtherGivesBack str
  | OtherMarks timestamp str "str option" | OtherElsewhere "session \<Rightarrow> session"

fun other_acts :: "other_step \<Rightarrow> shared \<Rightarrow> shared" where
  "other_acts (OtherClaims t i) sh =
     (case claim_delivery t i (sh_session sh) of
        (won, s) \<Rightarrow> \<lparr> sh_session = s, sh_held = (if won then insert i (sh_held sh) else sh_held sh) \<rparr>)"
| "other_acts (OtherDelivers t i p) sh =
     (if i \<in> sh_held sh then \<lparr> sh_session = mark_delivered t i p (sh_session sh), sh_held = sh_held sh - {i} \<rparr> else sh)"
| "other_acts (OtherGivesBack i) sh =
     (if i \<in> sh_held sh then \<lparr> sh_session = unclaim_delivery i (sh_session sh), sh_held = sh_held sh - {i} \<rparr> else sh)"
| "other_acts (OtherMarks t i p) sh = sh\<lparr>sh_session := mark_delivered t i p (sh_session sh)\<rparr>"
| "other_acts (OtherElsewhere f) sh = sh\<lparr>sh_session := (f (sh_session sh))\<lparr>delivered := delivered (sh_session sh)\<rparr>\<rparr>"

fun others_do :: "other_step list \<Rightarrow> shared \<Rightarrow> shared" where
  "others_do [] sh = sh"
| "others_do (x # xs) sh = others_do xs (other_acts x sh)"

section \<open>The loop\<close>

record delivery_turn =
  dt_others :: "other_step list" \<comment> \<open>before the row is looked at\<close>
  dt_during :: "other_step list" \<comment> \<open>while the row is being sent\<close>
  dt_now :: timestamp
  dt_claim_at :: timestamp
  dt_mark_at :: timestamp
  dt_streaming :: bool
  dt_result :: "str + str option"

record delivery_env =
  dl_message :: "str \<Rightarrow> message_json option"
  dl_turn :: "str \<Rightarrow> delivery_turn" \<comment> \<open>by the id of the row\<close>

datatype delivery_action =
    Sent str str "str list" "str option" \<comment> \<open>row, text, files, reply-to\<close>
  | SendFailed str | Silenced str | Dropped str

definition too_young :: "delivery_env \<Rightarrow> int option \<Rightarrow> out_row \<Rightarrow> bool" where
  "too_young E min_age m =
     (case min_age of
        None \<Rightarrow> False
      | Some a \<Rightarrow> let age = dt_now (dl_turn E (o_id m)) - o_created_at m
          in 0 \<le> age \<and> age < a \<and> dt_streaming (dl_turn E (o_id m)))"

text \<open>What happens to a row this loop has won.\<close>

definition row_action :: "delivery_env \<Rightarrow> out_row \<Rightarrow> delivery_action" where
  "row_action E m =
     (case message_text (dl_message E) (o_content m) of
        None \<Rightarrow> Dropped (o_id m)
      | Some t \<Rightarrow>
          let response = truncate_for_telegram (fst (finalize_onboarding_reply t False))
          in if trim_text response = silence_sentinel then Silenced (o_id m)
             else case dt_result (dl_turn E (o_id m)) of
                 Inl _ \<Rightarrow> SendFailed (o_id m)
               | Inr _ \<Rightarrow> Sent (o_id m) response (message_files (dl_message E) (o_content m)) (o_thread_id m))"

definition settle_row :: "delivery_env \<Rightarrow> out_row \<Rightarrow> session \<Rightarrow> session" where
  "settle_row E m s =
     (let t = dl_turn E (o_id m)
      in case row_action E m of
           Sent _ _ _ _ \<Rightarrow> mark_delivered (dt_mark_at t) (o_id m) (case dt_result t of Inr p \<Rightarrow> p | Inl _ \<Rightarrow> None) s
         | SendFailed _ \<Rightarrow> unclaim_delivery (o_id m) s
         | _ \<Rightarrow> mark_delivered (dt_mark_at t) (o_id m) None s)"

definition ends_onboarding :: "delivery_env \<Rightarrow> out_row \<Rightarrow> bool" where
  "ends_onboarding E m =
     (case message_text (dl_message E) (o_content m) of None \<Rightarrow> False | Some t \<Rightarrow> contains onboarding_complete_sentinel t)"

definition mine :: "delivery_env \<Rightarrow> str \<Rightarrow> str \<Rightarrow> int option \<Rightarrow> out_row \<Rightarrow> bool" where
  "mine E channel platform min_age m \<longleftrightarrow>
     o_channel m = channel \<and> o_platform_id m = platform \<and> \<not> too_young E min_age m"

definition deliver_row ::
    "delivery_env \<Rightarrow> str \<Rightarrow> str \<Rightarrow> int option \<Rightarrow> out_row \<Rightarrow> shared \<times> bool \<Rightarrow> delivery_action list \<times> shared \<times> bool" where
  "deliver_row E channel platform min_age m sa =
     (case sa of (sh0, active) \<Rightarrow>
        let t = dl_turn E (o_id m); sh = others_do (dt_others t) sh0
        in if \<not> mine E channel platform min_age m then ([], sh, active)
           else case claim_delivery (dt_claim_at t) (o_id m) (sh_session sh) of
               (False, s1) \<Rightarrow> ([], sh\<lparr>sh_session := s1\<rparr>, active)
             | (True, s1) \<Rightarrow>
                 let sh1 = others_do (dt_during t) (sh\<lparr>sh_session := s1\<rparr>)
                 in ([row_action E m], sh1\<lparr>sh_session := settle_row E m (sh_session sh1)\<rparr>, active \<and> \<not> ends_onboarding E m))"

fun deliver_rows ::
    "delivery_env \<Rightarrow> str \<Rightarrow> str \<Rightarrow> int option \<Rightarrow> out_row list \<Rightarrow> shared \<times> bool \<Rightarrow> delivery_action list \<times> shared \<times> bool" where
  "deliver_rows E channel platform min_age [] sa = ([], sa)"
| "deliver_rows E channel platform min_age (m # ms) sa =
     (case deliver_row E channel platform min_age m sa of
        (as, sa') \<Rightarrow> (case deliver_rows E channel platform min_age ms sa' of (bs, sa'') \<Rightarrow> (as @ bs, sa'')))"

fun is_sent :: "delivery_action \<Rightarrow> bool" where
  "is_sent (Sent _ _ _ _) = True"
| "is_sent _ = False"

definition deliver_outbox ::
    "delivery_env \<Rightarrow> str \<Rightarrow> str \<Rightarrow> int option \<Rightarrow> shared \<times> bool \<Rightarrow> nat \<times> delivery_action list \<times> shared \<times> bool" where
  "deliver_outbox E channel platform min_age sa =
     (case deliver_rows E channel platform min_age (list_undelivered (sh_session (fst sa))) sa of
        (as, sa') \<Rightarrow> (length (filter is_sent as), as, sa'))"

definition deliver_telegram_outbox ::
    "delivery_env \<Rightarrow> int \<Rightarrow> int option \<Rightarrow> shared \<times> bool \<Rightarrow> nat \<times> delivery_action list \<times> shared \<times> bool" where
  "deliver_telegram_outbox E chat min_age = deliver_outbox E ''telegram'' (show_int chat) min_age"

text \<open>The generic channels: no streaming.\<close>

definition deliver_channel_outbox ::
    "delivery_env \<Rightarrow> str \<Rightarrow> str \<Rightarrow> shared \<times> bool \<Rightarrow> nat \<times> delivery_action list \<times> shared \<times> bool" where
  "deliver_channel_outbox E channel platform = deliver_outbox E channel platform None"

section \<open>Files\<close>

definition paperclip :: str where
  "paperclip = [CHR 0xF0, CHR 0x9F, CHR 0x93, CHR 0x8E]"

text \<open>A channel without uploads sends the names.\<close>

definition files_as_text :: "str \<Rightarrow> str list \<Rightarrow> str" where
  "files_as_text t files =
     (let names = map (\<lambda>f. case file_name f of Some n \<Rightarrow> n | None \<Rightarrow> f) files
      in if trim_text t = [] then paperclip @ '' Files produced: '' @ join '', '' names
         else t @ newline_byte # paperclip @ '' Files produced: '' @ join '', '' names)"

text \<open>The Telegram sink: the calls it makes, the outcome of each given by the environment.\<close>

datatype telegram_call = Finalize "int option" str | Upload nat str "str option"

record telegram_env =
  te_finalize :: "int option \<Rightarrow> str \<Rightarrow> str + int option"
  te_upload :: "nat \<Rightarrow> str + int option"

fun upload_files :: "telegram_env \<Rightarrow> str \<Rightarrow> bool \<Rightarrow> nat \<Rightarrow> str list \<Rightarrow> telegram_call list \<times> int option \<times> nat" where
  "upload_files T t already i [] = ([], None, 0)"
| "upload_files T t already i (f # fs) =
     (case upload_files T t already (Suc i) fs of
        (calls, last_id, n) \<Rightarrow>
          (Upload i f (if i = 0 \<and> \<not> already then Some t else None) # calls,
           (case te_upload T i of
              Inl _ \<Rightarrow> (last_id, n)
            | Inr p \<Rightarrow> (if n = 0 then p else last_id, Suc n))))"

definition telegram_send_files ::
    "telegram_env \<Rightarrow> int option \<Rightarrow> str \<Rightarrow> str list \<Rightarrow> telegram_call list \<times> (str + int option)" where
  "telegram_send_files T live t files =
     (let first = (case live of None \<Rightarrow> [] | Some _ \<Rightarrow> [Finalize live t])
      in case (case live of None \<Rightarrow> Inr None | Some _ \<Rightarrow> te_finalize T live t) of
           Inl e \<Rightarrow> (first, Inl e)
         | Inr _ \<Rightarrow>
             (case upload_files T t (live \<noteq> None) 0 files of
                (calls, last_id, n) \<Rightarrow>
                  if n = 0 \<and> live = None then
                    (let msg = t @ newline_byte # ''(couldn't attach: '' @ join '', '' (List.map_filter file_name files) @ '')''
                     in (first @ calls @ [Finalize None msg], te_finalize T None msg))
                  else (first @ calls, Inr last_id)))"

section \<open>One pass over the outbox\<close>

definition quiet_env :: "delivery_env \<Rightarrow> bool" where
  "quiet_env E \<longleftrightarrow> (\<forall>i. dt_others (dl_turn E i) = [] \<and> dt_during (dl_turn E i) = [])"

text \<open>Whether a row is still to be sent after the pass.\<close>

definition stays :: "delivery_env \<Rightarrow> str \<Rightarrow> str \<Rightarrow> int option \<Rightarrow> out_row \<Rightarrow> bool" where
  "stays E channel platform min_age m \<longleftrightarrow> \<not> mine E channel platform min_age m \<or> row_action E m = SendFailed (o_id m)"

lemma settle_frame: "messages_out (settle_row E m s) = messages_out s" "i \<noteq> o_id m \<Longrightarrow> delivered (settle_row E m s) i = delivered s i"
  by (simp_all add: settle_row_def Let_def mark_delivered_def unclaim_delivery_def split: delivery_action.split option.split)

lemma action_id: "row_action E m \<noteq> SendFailed i \<or> i = o_id m"
  by (auto simp: row_action_def Let_def split: option.split sum.split)

lemma settle_claimed: "delivered s (o_id m) = Some (None, t) \<Longrightarrow>
   delivered (settle_row E m s) (o_id m) = None \<longleftrightarrow> row_action E m = SendFailed (o_id m)"
  using action_id [of E m]
  by (auto simp: settle_row_def Let_def mark_delivered_def unclaim_delivery_def split: delivery_action.split)

lemma row_quiet:
  assumes "quiet_env E" and "deliver_row E c p g m (sh, a) = (as, sh', a')"
  shows "messages_out (sh_session sh') = messages_out (sh_session sh)"
    and "i \<noteq> o_id m \<Longrightarrow> delivered (sh_session sh') i = delivered (sh_session sh) i"
    and "delivered (sh_session sh) (o_id m) = None \<Longrightarrow> as = (if mine E c p g m then [row_action E m] else []) \<and>
      (delivered (sh_session sh') (o_id m) = None \<longleftrightarrow> stays E c p g m)"
  using assms settle_frame settle_claimed
  by (auto simp: deliver_row_def Let_def quiet_env_def claim_delivery_def stays_def split: option.splits if_splits)

lemma rows_quiet:
  assumes "quiet_env E" and "deliver_rows E c p g ms (sh, a) = (as, sh', a')"
    and "distinct (map o_id ms)" and "\<forall>m\<in>set ms. delivered (sh_session sh) (o_id m) = None"
  shows "as = map (row_action E) (filter (mine E c p g) ms) \<and> messages_out (sh_session sh') = messages_out (sh_session sh) \<and>
    (\<forall>i. i \<notin> o_id ` set ms \<longrightarrow> delivered (sh_session sh') i = delivered (sh_session sh) i) \<and>
    (\<forall>m\<in>set ms. delivered (sh_session sh') (o_id m) = None \<longleftrightarrow> stays E c p g m)"
  using assms(2-)
proof (induction ms arbitrary: sh a as)
  case (Cons m ms)
  obtain bs sh1 a1 where r: "deliver_row E c p g m (sh, a) = (bs, sh1, a1)" by (metis prod_cases3)
  obtain cs where rs: "deliver_rows E c p g ms (sh1, a1) = (cs, sh', a')" "as = bs @ cs"
    using Cons.prems(1) r by (auto split: prod.splits)
  note q = row_quiet [OF assms(1) r]
  have "\<forall>k\<in>set ms. delivered (sh_session sh1) (o_id k) = None"
    using q(2) Cons.prems(2,3) by (metis image_eqI list.set_intros(2) list.simps(9) distinct.simps(2) set_map)
  then have IH: "cs = map (row_action E) (filter (mine E c p g) ms)" "messages_out (sh_session sh') = messages_out (sh_session sh1)"
    "\<forall>i. i \<notin> o_id ` set ms \<longrightarrow> delivered (sh_session sh') i = delivered (sh_session sh1) i"
    "\<forall>k\<in>set ms. delivered (sh_session sh') (o_id k) = None \<longleftrightarrow> stays E c p g k"
    using Cons.IH [OF rs(1)] Cons.prems(2) by simp_all
  have m: "bs = (if mine E c p g m then [row_action E m] else [])" "delivered (sh_session sh1) (o_id m) = None \<longleftrightarrow> stays E c p g m"
    using q(3) Cons.prems(3) by simp_all
  have "delivered (sh_session sh') (o_id m) = delivered (sh_session sh1) (o_id m)" using IH(3) Cons.prems(2) by auto
  then show ?case using IH m q(1,2) rs(2) by auto
qed simp

section \<open>Runs in company\<close>

text \<open>What a process holds is claimed.\<close>

definition sound_shared :: "shared \<Rightarrow> bool" where
  "sound_shared sh \<longleftrightarrow> (\<forall>i\<in>sh_held sh. delivered (sh_session sh) i \<noteq> None)"

text \<open>A row that is off the outbox for good: delivered, or claimed by a process that is gone. Nobody can give it back.\<close>

definition gone :: "shared \<Rightarrow> str \<Rightarrow> bool" where
  "gone sh i \<longleftrightarrow> delivered (sh_session sh) i \<noteq> None \<and> i \<notin> sh_held sh"

fun sent_id :: "str \<Rightarrow> delivery_action \<Rightarrow> bool" where
  "sent_id i (Sent j _ _ _) = (i = j)"
| "sent_id i _ = False"

definition sent_count :: "str \<Rightarrow> delivery_action list \<Rightarrow> nat" where
  "sent_count i as = length (filter (sent_id i) as)"

lemma sent_count_simps [simp]: "sent_count i [] = 0" "sent_count i (as @ bs) = sent_count i as + sent_count i bs"
  by (simp_all add: sent_count_def)

lemma other_acts_sound: "sound_shared sh \<Longrightarrow> sound_shared (other_acts x sh)"
  by (cases x) (auto simp: sound_shared_def claim_delivery_def mark_delivered_def unclaim_delivery_def split: option.splits if_splits)

lemma other_acts_gone: "gone sh i \<Longrightarrow> gone (other_acts x sh) i"
  by (cases x) (auto simp: gone_def claim_delivery_def mark_delivered_def unclaim_delivery_def split: option.splits if_splits)

lemma others_sound: "sound_shared sh \<Longrightarrow> sound_shared (others_do xs sh)"
  by (induction xs arbitrary: sh) (auto intro: other_acts_sound)

lemma others_gone: "gone sh i \<Longrightarrow> gone (others_do xs sh) i"
  by (induction xs arbitrary: sh) (auto intro: other_acts_gone)

lemma sent_row: "sent_count i [row_action E m] \<noteq> 0 \<Longrightarrow> i = o_id m \<and> delivered (settle_row E m s) i \<noteq> None"
  by (auto simp: sent_count_def row_action_def settle_row_def Let_def mark_delivered_def split: option.splits sum.splits if_splits)

lemma sent_one: "sent_count i [x] \<le> 1"
  by (simp add: sent_count_def)

text \<open>The ledger of a run: what was sent is gone, what was gone stays so and is not sent.\<close>

definition accounts :: "shared \<Rightarrow> delivery_action list \<Rightarrow> shared \<Rightarrow> bool" where
  "accounts sh as sh' \<longleftrightarrow> sound_shared sh' \<and> (\<forall>i. sent_count i as + (if gone sh i then 1 else 0) \<le> (if gone sh' i then 1 else 0))"

lemma accounts_trans: "accounts sh as sh1 \<Longrightarrow> accounts sh1 bs sh2 \<Longrightarrow> accounts sh (as @ bs) sh2"
proof -
  assume a: "accounts sh as sh1" "accounts sh1 bs sh2"
  have "sent_count i (as @ bs) + (if gone sh i then 1 else 0) \<le> (if gone sh2 i then 1 else 0)" for i
  proof -
    have "sent_count i as + (if gone sh i then 1 else 0) \<le> (if gone sh1 i then 1 else 0)"
      "sent_count i bs + (if gone sh1 i then 1 else 0) \<le> (if gone sh2 i then 1 else 0)"
      using a unfolding accounts_def by blast+
    then show ?thesis unfolding sent_count_simps by linarith
  qed
  then show ?thesis using a(2) unfolding accounts_def by blast
qed

lemma others_account: "sound_shared sh \<Longrightarrow> accounts sh [] (others_do xs sh)"
  by (auto simp: accounts_def others_sound others_gone)

text \<open>The row this process has won stays its own whatever the others do meanwhile.\<close>

lemma won_row_accounts:
  assumes "sound_shared sh" and "delivered (sh_session sh) (o_id m) = None"
    and "sh1 = others_do xs (sh\<lparr>sh_session := (sh_session sh)\<lparr>delivered := (delivered (sh_session sh))(o_id m \<mapsto> (None, t))\<rparr>\<rparr>)"
  shows "accounts sh [row_action E m] (sh1\<lparr>sh_session := settle_row E m (sh_session sh1)\<rparr>)"
proof -
  let ?c = "sh\<lparr>sh_session := (sh_session sh)\<lparr>delivered := (delivered (sh_session sh))(o_id m \<mapsto> (None, t))\<rparr>\<rparr>"
  let ?e = "sh1\<lparr>sh_session := settle_row E m (sh_session sh1)\<rparr>"
  have free: "o_id m \<notin> sh_held sh" using assms(1,2) by (auto simp: sound_shared_def)
  then have c: "sound_shared ?c" "gone ?c (o_id m)" using assms(1) by (auto simp: sound_shared_def gone_def)
  then have h: "sound_shared sh1" "gone sh1 (o_id m)" unfolding assms(3) by (auto intro: others_sound others_gone)
  have "delivered (settle_row E m (sh_session sh1)) i \<noteq> None" if "i \<in> sh_held sh1" for i
  proof -
    have "i \<noteq> o_id m" using that h(2) by (auto simp: gone_def)
    then show ?thesis using settle_frame(2) [of i m E "sh_session sh1"] that h(1) by (simp add: sound_shared_def)
  qed
  then have "sound_shared ?e" by (simp add: sound_shared_def)
  moreover have "sent_count i [row_action E m] + (if gone sh i then 1 else 0) \<le> (if gone ?e i then 1 else 0)" for i
  proof (cases "i = o_id m")
    case True
    have "\<not> gone sh i" using True assms(2) by (simp add: gone_def)
    moreover have "gone ?e i" if "sent_count i [row_action E m] \<noteq> 0"
      using sent_row [OF that, of "sh_session sh1"] h(2) True by (auto simp: gone_def)
    ultimately show ?thesis using sent_one [of i "row_action E m"] by auto
  next
    case False
    have "gone ?e i" if "gone sh i"
    proof -
      have "gone ?c i" using that False by (simp add: gone_def)
      then have "gone sh1 i" unfolding assms(3) by (rule others_gone)
      then show ?thesis using settle_frame(2) [OF False, of E "sh_session sh1"] by (simp add: gone_def)
    qed
    moreover have "sent_count i [row_action E m] = 0" using sent_row [of i E m] False by blast
    ultimately show ?thesis by auto
  qed
  ultimately show ?thesis by (simp add: accounts_def)
qed

lemma row_accounts:
  assumes "sound_shared sh" and "deliver_row E c p g m (sh, a) = (as, sh', a')"
  shows "accounts sh as sh'"
proof -
  let ?s = "others_do (dt_others (dl_turn E (o_id m))) sh"
  note o = others_account [OF assms(1)] others_sound [OF assms(1)]
  show ?thesis
  proof (cases "mine E c p g m \<and> delivered (sh_session ?s) (o_id m) = None")
    case True
    then have "accounts ?s as sh'" using assms(2) o(2)
      by (auto simp: deliver_row_def Let_def claim_delivery_def intro!: won_row_accounts)
    then show ?thesis using accounts_trans [OF o(1)] by fastforce
  next
    case False
    then have "as = []" "sh' = ?s"
      using assms(2) by (auto simp: deliver_row_def Let_def claim_delivery_def split: option.splits if_splits)
    then show ?thesis using o(1) by simp
  qed
qed

lemma rows_account: "sound_shared sh \<Longrightarrow> deliver_rows E c p g ms (sh, a) = (as, sh', a') \<Longrightarrow> accounts sh as sh'"
proof (induction ms arbitrary: sh a as)
  case (Cons m ms)
  obtain bs sh1 a1 where r: "deliver_row E c p g m (sh, a) = (bs, sh1, a1)" by (metis prod_cases3)
  obtain cs where rs: "deliver_rows E c p g ms (sh1, a1) = (cs, sh', a')" "as = bs @ cs"
    using Cons.prems(2) r by (auto split: prod.splits)
  have b: "accounts sh bs sh1" by (rule row_accounts [OF Cons.prems(1) r])
  then have "accounts sh1 cs sh'" using Cons.IH [OF _ rs(1)] by (simp add: accounts_def)
  with b show ?case unfolding rs(2) by (rule accounts_trans)
qed (simp add: accounts_def)

text \<open>Any number of passes, each with its own environment.\<close>

fun deliver_passes :: "(delivery_env \<times> str \<times> str \<times> int option) list \<Rightarrow> shared \<times> bool \<Rightarrow> delivery_action list \<times> shared \<times> bool" where
  "deliver_passes [] sa = ([], sa)"
| "deliver_passes ((E, c, p, g) # ps) sa =
     (case deliver_outbox E c p g sa of (_, as, sa') \<Rightarrow> (case deliver_passes ps sa' of (bs, sa'') \<Rightarrow> (as @ bs, sa'')))"

lemma passes_account: "sound_shared sh \<Longrightarrow> deliver_passes ps (sh, a) = (as, sh', a') \<Longrightarrow> accounts sh as sh'"
proof (induction ps arbitrary: sh a as)
  case (Cons q ps)
  obtain E c p g where q: "q = (E, c, p, g)" by (metis prod_cases4)
  obtain bs sh1 a1 where r: "deliver_rows E c p g (list_undelivered (sh_session sh)) (sh, a) = (bs, sh1, a1)" by (metis prod_cases3)
  obtain cs where rs: "deliver_passes ps (sh1, a1) = (cs, sh', a')" "as = bs @ cs"
    using Cons.prems(2) r q by (auto simp: deliver_outbox_def split: prod.splits)
  have b: "accounts sh bs sh1" by (rule rows_account [OF Cons.prems(1) r])
  then have "accounts sh1 cs sh'" using Cons.IH [OF _ rs(1)] by (simp add: accounts_def)
  with b show ?case unfolding rs(2) by (rule accounts_trans)
qed (simp add: accounts_def)

section \<open>Lengths in characters\<close>

lemma chars_of_continued: "byte_in 128 191 b \<Longrightarrow> \<not> byte_in 0 127 b"
  by (simp add: byte_in_def)

text \<open>A text that starts at a character boundary.\<close>

definition starts_char :: "str \<Rightarrow> bool" where
  "starts_char s \<longleftrightarrow> (case s of [] \<Rightarrow> True | b # _ \<Rightarrow> \<not> byte_in 128 191 b)"

lemma cut_at_char: "starts_char r \<Longrightarrow> \<forall>x\<in>set w. byte_in 128 191 x \<Longrightarrow>
    takeWhile (byte_in 128 191) (w @ r) = w \<and> dropWhile (byte_in 128 191) (w @ r) = r"
  by (cases r) (auto simp: starts_char_def)

lemma starts_char_taken: "starts_char s \<Longrightarrow> starts_char (concat (take k (chars_of s)))"
  by (cases s; cases k) (auto simp: starts_char_def)

lemma starts_char_drop: "starts_char (dropWhile (byte_in 128 191) s)"
proof (cases "dropWhile (byte_in 128 191) s")
  case Nil
  then show ?thesis unfolding starts_char_def Nil by simp
next
  case (Cons c cs)
  then have "\<not> byte_in 128 191 c" using hd_dropWhile [of "byte_in 128 191" s] by simp
  then show ?thesis unfolding starts_char_def Cons by simp
qed

lemma starts_char_append: "starts_char s \<Longrightarrow> starts_char t \<Longrightarrow> starts_char (s @ t)"
  by (cases s) (auto simp: starts_char_def)

lemma chars_of_take: "chars_of (concat (take n (chars_of s))) = take n (chars_of s)"
proof (induction s arbitrary: n rule: chars_of.induct)
  case (2 b s)
  show ?case
  proof (cases n)
    case (Suc k)
    show ?thesis
    proof (cases "byte_in 0 127 b")
      case True
      then show ?thesis using "2.IH"(1) Suc by simp
    next
      case False
      let ?d = "dropWhile (byte_in 128 191) s" and ?t = "takeWhile (byte_in 128 191) s"
      have "\<forall>x\<in>set ?t. byte_in 128 191 x" by (auto dest: set_takeWhileD)
      note cut = cut_at_char [OF starts_char_taken [OF starts_char_drop] this, of k]
      have "chars_of (b # ?t @ concat (take k (chars_of ?d))) = (b # ?t) # chars_of (concat (take k (chars_of ?d)))"
        using False cut by simp
      then show ?thesis using "2.IH"(2) [OF False] Suc False by simp
    qed
  qed simp
qed simp

lemma chars_of_append: "starts_char t \<Longrightarrow> chars_of (s @ t) = chars_of s @ chars_of t"
proof (induction s rule: chars_of.induct)
  case (2 b s)
  show ?case
  proof (cases "byte_in 0 127 b")
    case True
    then show ?thesis using 2 by simp
  next
    case False
    let ?d = "dropWhile (byte_in 128 191) s" and ?t = "takeWhile (byte_in 128 191) s"
    have "\<forall>x\<in>set ?t. byte_in 128 191 x" by (auto dest: set_takeWhileD)
    moreover have "starts_char (?d @ t)" using "2.prems" starts_char_drop by (intro starts_char_append)
    ultimately have "takeWhile (byte_in 128 191) (?t @ ?d @ t) = ?t \<and> dropWhile (byte_in 128 191) (?t @ ?d @ t) = ?d @ t"
      using cut_at_char by blast
    moreover have "s @ t = ?t @ ?d @ t" by (metis append_assoc takeWhile_dropWhile_id)
    ultimately show ?thesis using 2 False by (metis append_Cons chars_of.simps(2))
  qed
qed simp

lemma truncated_length: "length (chars_of (truncate_for_telegram v)) \<le> max_response_chars + 15"
proof -
  have n: "chars_of (newline_byte # ''...[truncated]'') = map (\<lambda>c. [c]) (newline_byte # ''...[truncated]'')" by code_simp
  have "starts_char (newline_byte # ''...[truncated]'')" by code_simp
  from chars_of_append [OF this] show ?thesis
    unfolding truncate_for_telegram_def Let_def by (simp only: n chars_of_take if_distrib [where f = chars_of] split: if_splits) simp
qed

lemma rows_actions: "deliver_rows E c p g ms sa = (as, sa') \<Longrightarrow> x \<in> set as \<Longrightarrow> \<exists>m. row_action E m = x"
proof (induction ms arbitrary: sa as)
  case (Cons m ms)
  obtain bs sa1 where r: "deliver_row E c p g m sa = (bs, sa1)" by (metis surj_pair)
  obtain cs where rs: "deliver_rows E c p g ms sa1 = (cs, sa')" "as = bs @ cs" using Cons.prems(1) r by (auto split: prod.splits)
  have "x \<in> set bs \<Longrightarrow> x = row_action E m"
    using r by (auto simp: deliver_row_def Let_def split: prod.splits if_splits bool.splits)
  then show ?case using Cons.IH [OF rs(1)] Cons.prems(2) rs(2) by auto
qed simp

lemma passes_actions: "deliver_passes ps sa = (as, sa') \<Longrightarrow> x \<in> set as \<Longrightarrow> \<exists>E m. row_action E m = x"
proof (induction ps arbitrary: sa as)
  case (Cons q ps)
  obtain E c p g where q: "q = (E, c, p, g)" by (metis prod_cases4)
  obtain bs sa1 where r: "deliver_rows E c p g (list_undelivered (sh_session (fst sa))) sa = (bs, sa1)" by (metis surj_pair)
  obtain cs where rs: "deliver_passes ps sa1 = (cs, sa')" "as = bs @ cs"
    using Cons.prems(1) r q by (auto simp: deliver_outbox_def split: prod.splits)
  from Cons.prems(2) rs(2) consider "x \<in> set bs" | "x \<in> set cs" by auto
  then show ?case
  proof cases
    case 1
    with rows_actions [OF r] show ?thesis by blast
  next
    case 2
    with Cons.IH [OF rs(1)] show ?thesis by blast
  qed
qed simp

section \<open>The text beside files\<close>

definition call_ok :: "telegram_env \<Rightarrow> telegram_call \<Rightarrow> bool" where
  "call_ok T c = (case c of Finalize l m \<Rightarrow> (\<exists>x. te_finalize T l m = Inr x) | Upload i _ _ \<Rightarrow> (\<exists>x. te_upload T i = Inr x))"

definition carries_text :: "str \<Rightarrow> telegram_call \<Rightarrow> bool" where
  "carries_text t c = (case c of Finalize _ m \<Rightarrow> prefix t m | Upload _ _ caption \<Rightarrow> caption = Some t)"

lemma upload_calls:
  assumes "upload_files T t already i fs = (calls, last_id, n)"
  shows "(n = 0 \<longleftrightarrow> (\<forall>j<length fs. \<exists>e. te_upload T (i + j) = Inl e)) \<and>
    (\<forall>c. c \<in> set calls \<and> carries_text t c \<longleftrightarrow> i = 0 \<and> \<not> already \<and> fs \<noteq> [] \<and> c = Upload 0 (hd fs) (Some t))"
  using assms
proof (induction fs arbitrary: i calls last_id n)
  case (Cons f fs)
  obtain cs l k where r: "upload_files T t already (Suc i) fs = (cs, l, k)" by (metis prod_cases3)
  note IH = Cons.IH [OF r]
  have "(\<forall>j<length (f # fs). \<exists>e. te_upload T (i + j) = Inl e) \<longleftrightarrow>
      (\<exists>e. te_upload T i = Inl e) \<and> (\<forall>j<length fs. \<exists>e. te_upload T (Suc i + j) = Inl e)"
    by (auto simp: less_Suc_eq_0_disj)
  with IH Cons.prems r show ?case by (auto simp: carries_text_def split: sum.splits if_splits)
qed simp

section \<open>Properties\<close>

text \<open>
  C27. A pass over the outbox with no interference acts once on each waiting row of the channel, in sequence order, and afterwards exactly
  those rows still wait that belong elsewhere, are held back for a live stream, or whose sending failed: a failure never loses a
  reply and never blocks the ones behind it.
\<close>
theorem outbox_drained:
  assumes "deliver_outbox E c p g (sh, active) = (n, as, sh', active')" and "quiet_env E"
    and "distinct (map o_id (messages_out (sh_session sh)))"
  shows "as = map (row_action E) (filter (mine E c p g) (list_undelivered (sh_session sh))) \<and> n = length (filter is_sent as) \<and>
    list_undelivered (sh_session sh') =
      filter (\<lambda>m. \<not> mine E c p g m \<or> row_action E m = SendFailed (o_id m)) (list_undelivered (sh_session sh))"
proof -
  let ?s = "sh_session sh" and ?s' = "sh_session sh'"
  let ?ms = "list_undelivered ?s"
  obtain r: "deliver_rows E c p g ?ms (sh, active) = (as, sh', active')" and n: "n = length (filter is_sent as)"
    using assms(1) by (auto simp: deliver_outbox_def split: prod.splits)
  let ?all = "sort_key o_seq (messages_out ?s)"
  have d: "distinct (map o_id ?all)"
    using assms(3) by (metis distinct_map distinct_sort inj_on_cong set_sort sort_key_simps)
  then have "distinct (map o_id ?ms)" by (simp add: list_undelivered_def distinct_map_filter)
  moreover have "\<forall>m\<in>set ?ms. delivered ?s (o_id m) = None" by (simp add: list_undelivered_def)
  ultimately have q: "as = map (row_action E) (filter (mine E c p g) ?ms)" "messages_out ?s' = messages_out ?s"
      "\<forall>i. i \<notin> o_id ` set ?ms \<longrightarrow> delivered ?s' i = delivered ?s i"
      "\<forall>m\<in>set ?ms. delivered ?s' (o_id m) = None \<longleftrightarrow> stays E c p g m"
    using rows_quiet [OF assms(2) r] by blast+
  have "delivered ?s' (o_id m) = None \<longleftrightarrow> delivered ?s (o_id m) = None \<and> stays E c p g m" if "m \<in> set ?all" for m
  proof (cases "delivered ?s (o_id m) = None")
    case True
    with that q(4) show ?thesis by (simp add: list_undelivered_def)
  next
    case False
    have "o_id m \<notin> o_id ` set ?ms" using False by (auto simp: list_undelivered_def)
    with q(3) False show ?thesis by metis
  qed
  then have "list_undelivered ?s' = filter (stays E c p g) ?ms"
    by (auto simp: list_undelivered_def q(2) intro: filter_cong)
  then show ?thesis using q(1) n by (simp add: stays_def [abs_def])
qed

text \<open>
  C26. However many passes run, over whatever channels, and whatever the other processes do before each row and while it is being sent
  (claim rows, deliver them, give back rows they hold themselves, mark any row, change the rest of the session), this loop sends a
  reply at most once, and never one that was off the outbox for good before: delivered, or claimed and held by no process. Once it has
  sent a reply, that reply is off the outbox for good, so that no other process can win it either. The start only has to be sound: what
  another process holds is claimed.
\<close>
theorem reply_sent_once:
  assumes "deliver_passes ps (sh, active) = (as, sh', active')" and "sound_shared sh"
  shows "sent_count i as \<le> (if gone sh i then 0 else 1) \<and> (gone sh i \<or> 0 < sent_count i as \<longrightarrow> gone sh' i)"
  using passes_account [OF assms(2,1)] by (auto simp: accounts_def split: if_splits dest!: spec [of _ i])

text \<open>
  Every text the loop sends is at most 3515 characters long (the cut plus its note) and is never the silence sentinel.
\<close>
theorem sent_text_bounded:
  assumes "deliver_passes ps (s, active) = (as, s', active')" and "Sent i t fs r \<in> set as"
  shows "length (chars_of t) \<le> 3515 \<and> trim_text t \<noteq> ''[[MATURANA_SILENT]]''"
proof -
  obtain E m where "row_action E m = Sent i t fs r" using passes_actions [OF assms] by blast
  then obtain v where "t = truncate_for_telegram v" "trim_text t \<noteq> silence_sentinel"
    by (auto simp: row_action_def Let_def split: option.splits if_splits sum.splits)
  then show ?thesis using truncated_length [of v] by (simp add: max_response_chars_def silence_sentinel_def)
qed

text \<open>
  When the Telegram sink reports success, the text reached the chat exactly if there was a live message to put it in, or the first file
  could be uploaded, or none could: when only the first upload fails the text was its caption, and the row is marked delivered without it.
\<close>
theorem file_text_exact:
  assumes "telegram_send_files T live t files = (calls, Inr r)" and "files \<noteq> []"
  shows "(\<exists>c\<in>set calls. call_ok T c \<and> carries_text t c) \<longleftrightarrow>
    live \<noteq> None \<or> (\<exists>x. te_upload T 0 = Inr x) \<or> (\<forall>i<length files. \<exists>e. te_upload T i = Inl e)"
proof -
  obtain cs l n where u: "upload_files T t (live \<noteq> None) 0 files = (cs, l, n)" by (metis prod_cases3)
  note up = upload_calls [OF u]
  show ?thesis
  proof (cases live)
    case (Some m)
    then obtain x where "te_finalize T live t = Inr x" "calls = Finalize live t # cs"
      using assms(1) u by (auto simp: telegram_send_files_def Let_def split: sum.splits)
    then have "Finalize live t \<in> set calls \<and> call_ok T (Finalize live t) \<and> carries_text t (Finalize live t)"
      by (simp add: call_ok_def carries_text_def)
    then show ?thesis using Some by blast
  next
    case None
    let ?msg = "t @ newline_byte # ''(couldn't attach: '' @ join '', '' (List.map_filter file_name files) @ '')''"
    show ?thesis
    proof (cases "n = 0")
      case True
      then have "calls = cs @ [Finalize None ?msg]" "te_finalize T None ?msg = Inr r"
        using assms(1) u None by (auto simp: telegram_send_files_def Let_def)
      then have "Finalize None ?msg \<in> set calls \<and> call_ok T (Finalize None ?msg) \<and> carries_text t (Finalize None ?msg)"
        by (simp add: call_ok_def carries_text_def)
      then show ?thesis using True up by auto
    next
      case False
      then have "calls = cs" using assms(1) u None by (auto simp: telegram_send_files_def Let_def)
      moreover have "call_ok T (Upload 0 (hd files) (Some t)) \<longleftrightarrow> (\<exists>x. te_upload T 0 = Inr x)" by (simp add: call_ok_def)
      moreover have "\<forall>c. c \<in> set cs \<and> carries_text t c \<longleftrightarrow> c = Upload 0 (hd files) (Some t)" using up None assms(2) by simp
      moreover have "\<not> (\<forall>i<length files. \<exists>e. te_upload T i = Inl e)" using up False by simp
      ultimately show ?thesis using None by metis
    qed
  qed
qed

section \<open>Runs on small inputs\<close>

definition demo_reply :: out_row where
  "demo_reply = \<lparr> o_id = ''o'', o_seq = 1, o_in_reply_to = None, o_kind = ''chat'', o_channel = ''slack'', o_platform_id = ''p'',
     o_thread_id = None, o_content = ''hi'', o_created_at = 0 \<rparr>"

definition demo_outbox :: shared where
  "demo_outbox = \<lparr> sh_session = empty_session\<lparr>messages_out := [demo_reply]\<rparr>, sh_held = {} \<rparr>"

definition demo_delivery :: "str + str option \<Rightarrow> delivery_env" where
  "demo_delivery r = \<lparr> dl_message = \<lambda>c. Some \<lparr> mj_text = Some c, mj_files = [] \<rparr>,
     dl_turn = \<lambda>_. \<lparr> dt_others = [], dt_during = [], dt_now = 0, dt_claim_at = 0, dt_mark_at = 0, dt_streaming = False, dt_result = r \<rparr> \<rparr>"

lemma demo_quiet: "quiet_env (demo_delivery r)"
  by (simp add: quiet_env_def demo_delivery_def)

lemma demo_sound: "sound_shared demo_outbox"
  by (simp add: sound_shared_def demo_outbox_def)

lemma demo_sent: "row_action (demo_delivery (Inr None)) demo_reply = Sent ''o'' ''hi'' [] None"
proof -
  have "\<not> contains onboarding_complete_sentinel ''hi''" "trim_text ''hi'' = ''hi''" by code_simp+
  then have "truncate_for_telegram (fst (finalize_onboarding_reply ''hi'' False)) = ''hi''"
    by (simp add: truncate_for_telegram_def finalize_onboarding_reply_def max_response_chars_def byte_in_def)
  with \<open>trim_text ''hi'' = ''hi''\<close> show ?thesis
    by (simp add: row_action_def demo_delivery_def demo_reply_def message_text_def message_files_def silence_sentinel_def)
qed

lemma demo_waiting: "list_undelivered (sh_session demo_outbox) = [demo_reply]" "mine (demo_delivery r) ''slack'' ''p'' None demo_reply"
  by (simp_all add: list_undelivered_def demo_outbox_def empty_session_def mine_def too_young_def demo_reply_def)

theorem outbox_drained_witness:
  "case deliver_outbox (demo_delivery (Inr None)) ''slack'' ''p'' None (demo_outbox, False) of
     (n, as, s', _) \<Rightarrow> n = 1 \<and> as = [Sent ''o'' ''hi'' [] None] \<and> list_undelivered (sh_session s') = []"
proof -
  let ?E = "demo_delivery (Inr None)"
  obtain n as s' a where r: "deliver_outbox ?E ''slack'' ''p'' None (demo_outbox, False) = (n, as, s', a)" by (metis prod_cases4)
  have "distinct (map o_id (messages_out (sh_session demo_outbox)))" by (simp add: demo_outbox_def)
  from outbox_drained [OF r demo_quiet this] show ?thesis
    by (simp add: r demo_waiting demo_sent)
qed

text \<open>
  Another bridge takes the row, fails to send it and gives it back; later it tries again while this loop is sending.
\<close>

definition demo_company :: delivery_env where
  "demo_company = (demo_delivery (Inr None))\<lparr>dl_turn := \<lambda>_. (dl_turn (demo_delivery (Inr None)) [])\<lparr>
     dt_others := [OtherClaims 0 ''o'', OtherGivesBack ''o''], dt_during := [OtherClaims 1 ''o'', OtherGivesBack ''o''] \<rparr>\<rparr>"

lemma demo_same: "row_action demo_company m = row_action (demo_delivery (Inr None)) m"
proof -
  have "dl_message demo_company = dl_message (demo_delivery (Inr None))"
    "dt_result (dl_turn demo_company i) = dt_result (dl_turn (demo_delivery (Inr None)) i)" for i
    by (simp_all add: demo_company_def demo_delivery_def)
  then show ?thesis by (simp only: row_action_def)
qed

theorem reply_sent_once_witness:
  "case deliver_passes (replicate 3 (demo_company, ''slack'', ''p'', None)) (demo_outbox, False) of
     (as, sh, _) \<Rightarrow> sent_count ''o'' as = 1 \<and> gone sh ''o''"
proof -
  let ?ps = "replicate 3 (demo_company, ''slack'', ''p'', None)"
  obtain as sh a where r: "deliver_passes ?ps (demo_outbox, False) = (as, sh, a)" by (metis prod_cases3)
  have one: "mine demo_company ''slack'' ''p'' None demo_reply" "row_action demo_company demo_reply = Sent ''o'' ''hi'' [] None"
    unfolding demo_same demo_sent by (simp_all add: mine_def too_young_def demo_reply_def)
  obtain cs where "as = Sent ''o'' ''hi'' [] None # cs"
    using r demo_waiting(1) one
    by (auto simp: deliver_outbox_def deliver_row_def Let_def demo_company_def demo_reply_def demo_outbox_def claim_delivery_def
        unclaim_delivery_def empty_session_def numeral_3_eq_3 split: prod.splits)
  then have "0 < sent_count ''o'' as" by (simp add: sent_count_def)
  then show ?thesis using reply_sent_once [OF r demo_sound, of "''o''"] unfolding r by (simp split: if_splits)
qed

theorem sent_text_bounded_witness: "length (chars_of ''hi'') \<le> 3515 \<and> trim_text ''hi'' \<noteq> ''[[MATURANA_SILENT]]''"
proof -
  let ?E = "demo_delivery (Inr None)"
  obtain n as s' a where r: "deliver_outbox ?E ''slack'' ''p'' None (demo_outbox, False) = (n, as, s', a)" by (metis prod_cases4)
  then have p: "deliver_passes [(?E, ''slack'', ''p'', None)] (demo_outbox, False) = (as, s', a)" by simp
  have "as = [Sent ''o'' ''hi'' [] None]" using r demo_waiting demo_sent
    by (auto simp: deliver_outbox_def deliver_row_def claim_delivery_def demo_delivery_def demo_outbox_def empty_session_def demo_reply_def
        split: prod.splits)
  then show ?thesis using sent_text_bounded [OF p, of "''o''" "''hi''" "[]" None] by simp
qed

text \<open>The first of two files cannot be uploaded: success, and the text is gone.\<close>

definition demo_uploads :: telegram_env where
  "demo_uploads = \<lparr> te_finalize = \<lambda>_ _. Inr None, te_upload = \<lambda>i. if i = 0 then Inl ''too large'' else Inr (Some 5) \<rparr>"

theorem file_text_exact_witness:
  "telegram_send_files demo_uploads None ''hi'' [''/a'', ''/b''] = ([Upload 0 ''/a'' (Some ''hi''), Upload 1 ''/b'' None], Inr (Some 5)) \<and>
   \<not> list_ex (\<lambda>c. call_ok demo_uploads c \<and> carries_text ''hi'' c) [Upload 0 ''/a'' (Some ''hi''), Upload 1 ''/b'' None]"
proof -
  have r: "telegram_send_files demo_uploads None ''hi'' [''/a'', ''/b''] = ([Upload 0 ''/a'' (Some ''hi''), Upload 1 ''/b'' None], Inr (Some 5))"
    by (simp add: telegram_send_files_def demo_uploads_def)
  have "\<not> (\<forall>i<length [''/a'', ''/b'']. \<exists>e. te_upload demo_uploads i = Inl e)" by (auto simp: demo_uploads_def intro: exI [of _ 1])
  then show ?thesis using file_text_exact [OF r] r by (simp add: demo_uploads_def list_ex_iff)
qed

end
