(* ===== verification/Snapshots.thy ===== *)
theory Snapshots
  imports Sessiond "HOL-Library.List_Lexorder" "HOL-Library.Char_ord"
begin

text \<open>
  VM snapshots of \<open>crates/maturana-core/src/snapshots.rs\<close>: names and paths, the records beside the
  files, stopping and starting the Firecracker process, taking a full snapshot of a paused guest, and
  restoring one with a backup of the disk it replaces. The host is a map from paths to contents, the set of
  directories and the set of live processes; every call to the system fails or not as the environment says,
  and a copy that breaks off leaves any content behind. A running guest writes to its disk at every step.
\<close>

section \<open>Records\<close>

datatype snapshot_kind = LocalMarker | HyperVCheckpoint | FirecrackerFull

record snapshot_record =
  sn_name :: str
  sn_provider :: host_provider
  sn_kind :: snapshot_kind
  sn_created_at :: str
  sn_state_path :: "str option"
  sn_memory_path :: "str option"
  sn_disk_path :: "str option"

datatype snapshot_error =
    NoAgent str | BadSpec | BadSnapshotName str | SnapshotExists str | NotRestorable str | PathsMissing str
  | ComponentMissing str | ComponentEscapes str | NoFileName str | NotLive | HostdRefused str
  | NoMetadata str | EscapesRoot str | EscapesState str | RootfsMismatch str str | InvalidPid str | UntrackedSocket str
  | SystemCall str

definition validate_snapshot_name :: "str \<Rightarrow> snapshot_error option" where
  "validate_snapshot_name name =
     (if name = [] \<or> name = ''.'' \<or> name = ''..'' \<or> CHR ''/'' \<in> set name \<or> CHR 0x5C \<in> set name \<or> CHR '':'' \<in> set name
      then Some (BadSnapshotName name) else None)"

definition snapshot_dir :: "str \<Rightarrow> str \<Rightarrow> snapshot_error + str" where
  "snapshot_dir agent name =
     (case validate_snapshot_name name of
        Some e \<Rightarrow> Inl e
      | None \<Rightarrow> Inr (path_join (path_join agent ''snapshots'') name))"

definition local_record :: "str \<Rightarrow> host_provider \<Rightarrow> str \<Rightarrow> snapshot_record" where
  "local_record name p at = \<lparr> sn_name = name, sn_provider = p, sn_kind = LocalMarker, sn_created_at = at,
     sn_state_path = None, sn_memory_path = None, sn_disk_path = None \<rparr>"

definition hyperv_snapshot_record :: "str \<Rightarrow> str \<Rightarrow> snapshot_record" where
  "hyperv_snapshot_record name at = \<lparr> sn_name = name, sn_provider = HyperV, sn_kind = HyperVCheckpoint, sn_created_at = at,
     sn_state_path = None, sn_memory_path = None, sn_disk_path = None \<rparr>"

definition validate_firecracker_restore_record :: "snapshot_record \<Rightarrow> snapshot_error option" where
  "validate_firecracker_restore_record r =
     (if sn_provider r \<noteq> Firecracker \<or> sn_kind r \<noteq> FirecrackerFull then Some (NotRestorable (sn_name r))
      else if sn_state_path r = None \<or> sn_memory_path r = None \<or> sn_disk_path r = None then Some (PathsMissing (sn_name r))
      else None)"

section \<open>Paths\<close>

fun normalize_parts :: "str list \<Rightarrow> str list \<Rightarrow> str list option" where
  "normalize_parts kept [] = Some (rev kept)"
| "normalize_parts kept (p # ps) =
     (if p = ''..'' then (case kept of [] \<Rightarrow> None | _ # d \<Rightarrow> normalize_parts d ps)
      else normalize_parts (p # kept) ps)"

definition normalize_path :: "str \<Rightarrow> snapshot_error + str" where
  "normalize_path p =
     (case normalize_parts [] (path_parts p) of
        None \<Rightarrow> Inl (EscapesRoot p)
      | Some ps \<Rightarrow> Inr (''/'' @ join ''/'' ps))"

definition absolute_normalized_path :: "str \<Rightarrow> str \<Rightarrow> snapshot_error + str" where
  "absolute_normalized_path cwd p = normalize_path (if prefix ''/'' p then p else path_join cwd p)"

text \<open>\<open>Path::starts_with\<close>, for absolute paths.\<close>

definition path_starts_with :: "str \<Rightarrow> str \<Rightarrow> bool" where
  "path_starts_with p root \<longleftrightarrow> prefix (path_parts root) (path_parts p)"

definition state_metadata_path :: "str \<Rightarrow> str \<Rightarrow> (str \<Rightarrow> str option) \<Rightarrow> str \<Rightarrow> snapshot_error + str" where
  "state_metadata_path cwd state_dir value key =
     (case value key of
        None \<Rightarrow> Inl (NoMetadata key)
      | Some raw \<Rightarrow>
          bind_result (absolute_normalized_path cwd state_dir) (\<lambda>root.
          bind_result (absolute_normalized_path cwd raw) (\<lambda>c.
            if path_starts_with c root then Inr c else Inl (EscapesState c))))"

definition validate_firecracker_rootfs_path :: "str \<Rightarrow> agent_description \<Rightarrow> str \<Rightarrow> snapshot_error option" where
  "validate_firecracker_rootfs_path cwd spec configured =
     (case vm_firecracker (as_vm spec) of
        None \<Rightarrow> Some (NoMetadata ''vm.firecracker'')
      | Some f \<Rightarrow>
          (case absolute_normalized_path cwd (fc_rootfs_image f) of
             Inl e \<Rightarrow> Some e
           | Inr expected \<Rightarrow>
               (case absolute_normalized_path cwd configured of
                  Inl e \<Rightarrow> Some e
                | Inr c \<Rightarrow> if c \<noteq> expected then Some (RootfsMismatch c expected) else None)))"

record firecracker_files =
  fm_socket :: str
  fm_pid :: str
  fm_rootfs_path :: str
  fm_stdout_log :: str
  fm_stderr_log :: str

section \<open>The host\<close>

record vm_host =
  vh_files :: "str \<rightharpoonup> str"
  vh_dirs :: "str set"
  vh_procs :: "nat set" \<comment> \<open>live processes\<close>
  vh_vm :: "nat option" \<comment> \<open>the process that has the guest on this disk\<close>
  vh_paused :: bool

record snapshot_env =
  se_cwd :: str
  se_yaml :: "str \<Rightarrow> agent_description option"
  se_object :: "str \<Rightarrow> (str \<Rightarrow> str option) option" \<comment> \<open>the string members of a JSON object\<close>
  se_drive :: "str \<Rightarrow> str option option" \<comment> \<open>the first drive's \<open>path_on_host\<close> of the configuration\<close>
  se_record :: "str \<Rightarrow> snapshot_record option"
  se_show :: "snapshot_record \<Rightarrow> str"
  se_canon :: "str \<Rightarrow> str option" \<comment> \<open>\<open>canonicalize\<close>, which follows symbolic links\<close>

definition path_exists :: "vm_host \<Rightarrow> str \<Rightarrow> bool" where
  "path_exists w p \<longleftrightarrow> vh_files w p \<noteq> None \<or> p \<in> vh_dirs w"

definition load_agent_spec :: "snapshot_env \<Rightarrow> str \<Rightarrow> vm_host \<Rightarrow> snapshot_error + agent_description" where
  "load_agent_spec E agent w =
     (case vh_files w (path_join agent ''MATURANA.md'') of
        None \<Rightarrow> Inl (NoAgent agent)
      | Some raw \<Rightarrow> (case from_maturana_markdown (se_yaml E) raw of Inl _ \<Rightarrow> Inl BadSpec | Inr s \<Rightarrow> Inr s))"

definition firecracker_metadata :: "snapshot_env \<Rightarrow> str \<Rightarrow> vm_host \<Rightarrow> snapshot_error + firecracker_files" where
  "firecracker_metadata E agent w =
     (let state = path_join agent ''state''
      in bind_result (load_agent_spec E agent w) (\<lambda>spec.
         case Option.bind (vh_files w (path_join state ''firecracker-metadata.json'')) (se_object E) of
           None \<Rightarrow> Inl (NoMetadata ''metadata'')
         | Some value \<Rightarrow>
             (case Option.bind (vh_files w (path_join state ''firecracker-config.json'')) (se_drive E) of
                None \<Rightarrow> Inl (NoMetadata ''config'')
              | Some drive \<Rightarrow>
                  bind_result (state_metadata_path (se_cwd E) state value ''socket'') (\<lambda>socket.
                  bind_result (state_metadata_path (se_cwd E) state value ''pid'') (\<lambda>pid.
                    case drive of
                      None \<Rightarrow> Inl (NoMetadata ''drive'')
                    | Some rootfs \<Rightarrow>
                        (case validate_firecracker_rootfs_path (se_cwd E) spec rootfs of
                           Some e \<Rightarrow> Inl e
                         | None \<Rightarrow> Inr \<lparr> fm_socket = socket, fm_pid = pid, fm_rootfs_path = rootfs,
                             fm_stdout_log = path_join agent ''state/firecracker.stdout.log'',
                             fm_stderr_log = path_join agent ''state/firecracker.stderr.log'' \<rparr>))))))"

text \<open>
  \<open>fs::copy\<close>: it truncates the target before it reads, so a file copied onto itself is empty afterwards;
  breaking off leaves what had been written.
\<close>

datatype copy_outcome = CopyDone | CopyRefused | CopyTorn str

definition fs_copy :: "copy_outcome \<Rightarrow> str \<Rightarrow> str \<Rightarrow> vm_host \<Rightarrow> bool \<times> vm_host" where
  "fs_copy oc src dst w =
     (case vh_files w src of
        None \<Rightarrow> (False, w)
      | Some c \<Rightarrow>
          (case oc of
             CopyDone \<Rightarrow> (True, w\<lparr>vh_files := (vh_files w)(dst \<mapsto> (if src = dst then [] else c))\<rparr>)
           | CopyRefused \<Rightarrow> (False, w)
           | CopyTorn part \<Rightarrow> (False, w\<lparr>vh_files := (vh_files w)(dst \<mapsto> part)\<rparr>)))"

text \<open>\<open>remove_file_if_present\<close>.\<close>

definition remove_file_if_present :: "bool \<Rightarrow> str \<Rightarrow> vm_host \<Rightarrow> bool \<times> vm_host" where
  "remove_file_if_present ok p w =
     (if vh_files w p = None then (True, w)
      else if ok then (True, w\<lparr>vh_files := (vh_files w)(p := None)\<rparr>) else (False, w))"

definition guest_runs :: "vm_host \<Rightarrow> bool" where
  "guest_runs w \<longleftrightarrow> (case vh_vm w of None \<Rightarrow> False | Some p \<Rightarrow> p \<in> vh_procs w) \<and> \<not> vh_paused w"

text \<open>What a running guest does to its disk between two steps of the host.\<close>

definition guest_writes :: "(str \<Rightarrow> str) \<Rightarrow> str \<Rightarrow> vm_host \<Rightarrow> vm_host" where
  "guest_writes f disk w =
     (if guest_runs w then w\<lparr>vh_files := (vh_files w)(disk := map_option f (vh_files w disk))\<rparr> else w)"

section \<open>Stopping and starting Firecracker\<close>

definition parse_firecracker_pid :: "str \<Rightarrow> snapshot_error + nat option" where
  "parse_firecracker_pid raw =
     (let t = trim_text raw
      in if t = [] then Inr None
         else case parse_nat_below (2 ^ 32) t of
             None \<Rightarrow> Inl (InvalidPid raw)
           | Some p \<Rightarrow> if p = 0 then Inl (InvalidPid raw) else Inr (Some p))"

definition read_firecracker_pid :: "str \<Rightarrow> vm_host \<Rightarrow> snapshot_error + nat option" where
  "read_firecracker_pid p w = (case vh_files w p of None \<Rightarrow> Inr None | Some raw \<Rightarrow> parse_firecracker_pid raw)"

datatype stop_action = StopTracked nat | CleanStale | RefuseUntrackedSocket | Nothing

fun classify_firecracker_stop_action :: "nat option \<Rightarrow> bool option \<Rightarrow> bool \<Rightarrow> bool option \<Rightarrow> stop_action" where
  "classify_firecracker_stop_action (Some p) (Some True) _ _ = StopTracked p"
| "classify_firecracker_stop_action _ _ True (Some True) = RefuseUntrackedSocket"
| "classify_firecracker_stop_action (Some _) _ _ _ = CleanStale"
| "classify_firecracker_stop_action None _ True _ = CleanStale"
| "classify_firecracker_stop_action None _ False _ = Nothing"

text \<open>\<open>None\<close> where \<open>kill -0\<close> cannot be run; otherwise whether the process was gone in time.\<close>

record stop_env =
  so_probe :: bool
  so_answers :: bool \<comment> \<open>the API answers on the socket\<close>
  so_term :: bool
  so_term_wait :: "bool option"
  so_kill :: bool
  so_kill_wait :: "bool option"
  so_gone :: bool \<comment> \<open>on an error path: the signals ended the process all the same\<close>
  so_remove_pid :: bool
  so_remove_socket :: bool

definition remove_pair :: "stop_env \<Rightarrow> firecracker_files \<Rightarrow> vm_host \<Rightarrow> snapshot_error option \<times> vm_host" where
  "remove_pair so m w =
     (case remove_file_if_present (so_remove_pid so) (fm_pid m) w of
        (False, w1) \<Rightarrow> (Some (SystemCall ''remove pid''), w1)
      | (True, w1) \<Rightarrow>
          (case remove_file_if_present (so_remove_socket so) (fm_socket m) w1 of
             (False, w2) \<Rightarrow> (Some (SystemCall ''remove socket''), w2)
           | (True, w2) \<Rightarrow> (None, w2)))"

definition stop_tracked :: "stop_env \<Rightarrow> nat \<Rightarrow> vm_host \<Rightarrow> snapshot_error option \<times> vm_host" where
  "stop_tracked so p w =
     (let dead = w\<lparr>vh_procs := vh_procs w - {p}\<rparr>;
          unsure = (if so_gone so then dead else w)
      in if \<not> so_term so then (Some (SystemCall ''kill TERM''), w)
         else case so_term_wait so of
             None \<Rightarrow> (Some (SystemCall ''kill -0''), unsure)
           | Some True \<Rightarrow> (None, dead)
           | Some False \<Rightarrow>
               if \<not> so_kill so then (Some (SystemCall ''kill KILL''), unsure)
               else case so_kill_wait so of
                   None \<Rightarrow> (Some (SystemCall ''kill -0''), unsure)
                 | Some True \<Rightarrow> (None, dead)
                 | Some False \<Rightarrow> (Some (SystemCall ''did not exit after KILL''), unsure))"

definition stop_firecracker_process :: "stop_env \<Rightarrow> firecracker_files \<Rightarrow> vm_host \<Rightarrow> snapshot_error option \<times> vm_host" where
  "stop_firecracker_process so m w =
     (case read_firecracker_pid (fm_pid m) w of
        Inl e \<Rightarrow> (Some e, w)
      | Inr pid \<Rightarrow>
          let socket_exists = path_exists w (fm_socket m);
              running = map_option (\<lambda>p. p \<in> vh_procs w) pid;
              api_ready = (if socket_exists \<and> running \<noteq> Some True then Some (so_answers so) else None)
          in if pid \<noteq> None \<and> \<not> so_probe so then (Some (SystemCall ''kill -0''), w)
             else case classify_firecracker_stop_action pid running socket_exists api_ready of
                 StopTracked p \<Rightarrow>
                   (case stop_tracked so p w of
                      (Some e, w1) \<Rightarrow> (Some e, w1)
                    | (None, w1) \<Rightarrow> remove_pair so m w1)
               | CleanStale \<Rightarrow> remove_pair so m w
               | RefuseUntrackedSocket \<Rightarrow> (Some (UntrackedSocket (fm_socket m)), w)
               | Nothing \<Rightarrow> (None, w))"

record start_env =
  st_stop :: stop_env
  st_logs :: "bool \<times> bool"
  st_spawn :: "nat option" \<comment> \<open>the new process\<close>
  st_write_pid :: "str option" \<comment> \<open>what a failing write leaves; \<open>None\<close> when it works\<close>
  st_socket :: bool \<comment> \<open>the socket appears in time\<close>

definition start_firecracker_empty :: "start_env \<Rightarrow> firecracker_files \<Rightarrow> vm_host \<Rightarrow> snapshot_error option \<times> vm_host" where
  "start_firecracker_empty sa m w =
     (case stop_firecracker_process (st_stop sa) m w of
        (Some e, w1) \<Rightarrow> (Some e, w1)
      | (None, w1) \<Rightarrow>
          if \<not> fst (st_logs sa) then (Some (SystemCall ''stdout log''), w1)
          else let w2 = w1\<lparr>vh_files := (vh_files w1)(fm_stdout_log m \<mapsto> [])\<rparr>
            in if \<not> snd (st_logs sa) then (Some (SystemCall ''stderr log''), w2)
               else let w3 = w2\<lparr>vh_files := (vh_files w2)(fm_stderr_log m \<mapsto> [])\<rparr>
                 in case st_spawn sa of
                     None \<Rightarrow> (Some (SystemCall ''spawn firecracker''), w3)
                   | Some p \<Rightarrow>
                       let w4 = w3\<lparr>vh_procs := insert p (vh_procs w3)\<rparr>
                       in case st_write_pid sa of
                           Some part \<Rightarrow> (Some (SystemCall ''write pid''), w4\<lparr>vh_files := (vh_files w4)(fm_pid m \<mapsto> part)\<rparr>)
                         | None \<Rightarrow>
                             let w5 = w4\<lparr>vh_files := (vh_files w4)(fm_pid m \<mapsto> show_nat p)\<rparr>
                             in if st_socket sa then (None, w5\<lparr>vh_files := (vh_files w5)(fm_socket m \<mapsto> [])\<rparr>)
                                else (Some (SystemCall ''socket did not appear''), w5))"

section \<open>The disk and its backup\<close>

definition rollback_rootfs_backup :: "copy_outcome \<Rightarrow> bool \<Rightarrow> str \<Rightarrow> str option \<Rightarrow> vm_host \<Rightarrow> snapshot_error option \<times> vm_host" where
  "rollback_rootfs_backup oc rm rootfs backup w =
     (case backup of
        None \<Rightarrow> (None, w)
      | Some b \<Rightarrow>
          (case fs_copy oc b rootfs w of
             (False, w1) \<Rightarrow> (Some (SystemCall ''roll back rootfs''), w1)
           | (True, w1) \<Rightarrow>
               if rm \<and> vh_files w1 b \<noteq> None then (None, w1\<lparr>vh_files := (vh_files w1)(b := None)\<rparr>)
               else (Some (SystemCall ''remove rootfs backup''), w1)))"

definition cleanup_rootfs_backup :: "bool \<Rightarrow> str option \<Rightarrow> vm_host \<Rightarrow> snapshot_error option \<times> vm_host" where
  "cleanup_rootfs_backup rm backup w =
     (case backup of
        None \<Rightarrow> (None, w)
      | Some b \<Rightarrow> (case remove_file_if_present rm b w of
            (True, w1) \<Rightarrow> (None, w1) | (False, w1) \<Rightarrow> (Some (SystemCall ''remove rootfs backup''), w1)))"

text \<open>\<open>Path::with_file_name\<close>.\<close>

definition with_file_name :: "str \<Rightarrow> str \<Rightarrow> str" where
  "with_file_name p n = (if prefix ''/'' p then ''/'' else []) @ join ''/'' (butlast (path_parts p) @ [n])"

definition backup_of :: "str \<Rightarrow> str \<Rightarrow> str option" where
  "backup_of uuid rootfs =
     map_option (\<lambda>n. with_file_name rootfs (n @ ''.maturana-restore-backup-'' @ uuid)) (file_name rootfs)"

record replace_env =
  rp_uuid :: str
  rp_backup :: copy_outcome
  rp_restore :: copy_outcome
  rp_rollback :: "copy_outcome \<times> bool"

definition replace_rootfs_with_backup ::
    "replace_env \<Rightarrow> str \<Rightarrow> str \<Rightarrow> vm_host \<Rightarrow> (snapshot_error + str option) \<times> vm_host" where
  "replace_rootfs_with_backup rp rootfs disk w =
     (let saved =
        (if path_exists w rootfs
         then case backup_of (rp_uuid rp) rootfs of
             None \<Rightarrow> (Inl (NoFileName rootfs), w)
           | Some b \<Rightarrow> (case fs_copy (rp_backup rp) rootfs b w of
                 (True, w1) \<Rightarrow> (Inr (Some b), w1) | (False, w1) \<Rightarrow> (Inl (SystemCall ''back up rootfs''), w1))
         else (Inr None, w))
      in case saved of
           (Inl e, w1) \<Rightarrow> (Inl e, w1)
         | (Inr b, w1) \<Rightarrow>
             (case fs_copy (rp_restore rp) disk rootfs w1 of
                (True, w2) \<Rightarrow> (Inr b, w2)
              | (False, w2) \<Rightarrow>
                  (case rollback_rootfs_backup (fst (rp_rollback rp)) (snd (rp_rollback rp)) rootfs b w2 of
                     (Some e, w3) \<Rightarrow> (Inl e, w3)
                   | (None, w3) \<Rightarrow> (Inl (SystemCall ''restore rootfs''), w3))))"

section \<open>Restoring\<close>

definition read_record :: "snapshot_env \<Rightarrow> str \<Rightarrow> vm_host \<Rightarrow> snapshot_error + snapshot_record" where
  "read_record E dir w =
     (case Option.bind (vh_files w (path_join dir ''snapshot.json'')) (se_record E) of
        None \<Rightarrow> Inl (SystemCall ''read record'')
      | Some r \<Rightarrow> Inr r)"

definition snapshot_component_path :: "snapshot_env \<Rightarrow> str \<Rightarrow> str option \<Rightarrow> str \<Rightarrow> vm_host \<Rightarrow> snapshot_error + str" where
  "snapshot_component_path E dir configured default_name w =
     (let candidate = path_join dir (case configured of Some p \<Rightarrow> p | None \<Rightarrow> path_join dir default_name)
      in if \<not> path_exists w candidate then Inl (ComponentMissing candidate)
         else case se_canon E dir of
             None \<Rightarrow> Inl (SystemCall ''canonicalize'')
           | Some root \<Rightarrow>
               (case se_canon E candidate of
                  None \<Rightarrow> Inl (SystemCall ''canonicalize'')
                | Some c \<Rightarrow> if path_starts_with c root then Inr c else Inl (ComponentEscapes c)))"

record restore_env =
  re_stop :: stop_env
  re_replace :: replace_env
  re_start :: start_env
  re_ready :: "bool list" \<comment> \<open>the probes of the API before the deadline\<close>
  re_load :: "bool \<times> bool" \<comment> \<open>the load took effect; it was reported to\<close>
  re_guest :: "str \<Rightarrow> str"
  re_stop_again :: stop_env
  re_rollback :: "copy_outcome \<times> bool"
  re_cleanup :: bool
  re_late_guest :: "str \<Rightarrow> str"

text \<open>Starting, loading and resuming the snapshot; \<open>vh_vm\<close> becomes the new process when the load takes effect.\<close>

definition load_snapshot_vm :: "restore_env \<Rightarrow> firecracker_files \<Rightarrow> vm_host \<Rightarrow> snapshot_error option \<times> vm_host" where
  "load_snapshot_vm re m w =
     (case start_firecracker_empty (re_start re) m w of
        (Some e, w1) \<Rightarrow> (Some e, w1)
      | (None, w1) \<Rightarrow>
          if True \<notin> set (re_ready re) then (Some (SystemCall ''API not ready''), w1)
          else let w2 = guest_writes (re_guest re) (fm_rootfs_path m)
                 (if fst (re_load re) then w1\<lparr>vh_vm := st_spawn (re_start re), vh_paused := False\<rparr> else w1)
            in (if snd (re_load re) then None else Some (SystemCall ''snapshot/load''), w2))"

text \<open>With the process stopped: the disk, the snapshot, and back again when it does not load.\<close>

definition finish_restore ::
    "restore_env \<Rightarrow> snapshot_record \<Rightarrow> str \<Rightarrow> firecracker_files \<Rightarrow> vm_host \<Rightarrow> (snapshot_error + snapshot_record) \<times> vm_host" where
  "finish_restore re record disk m w1 =
     (case replace_rootfs_with_backup (re_replace re) (fm_rootfs_path m) disk w1 of
        (Inl e, w2) \<Rightarrow> (Inl e, w2)
      | (Inr backup, w2) \<Rightarrow>
          (case load_snapshot_vm re m w2 of
             (Some e, w3) \<Rightarrow>
               let w4 = snd (stop_firecracker_process (re_stop_again re) m w3);
                   w5 = snd (rollback_rootfs_backup (fst (re_rollback re)) (snd (re_rollback re)) (fm_rootfs_path m) backup w4)
               in (Inl e, guest_writes (re_late_guest re) (fm_rootfs_path m) w5)
           | (None, w3) \<Rightarrow>
               (case cleanup_rootfs_backup (re_cleanup re) backup w3 of
                  (Some e, w4) \<Rightarrow> (Inl e, w4)
                | (None, w4) \<Rightarrow> (Inr record, w4))))"

definition restore_firecracker_snapshot ::
    "snapshot_env \<Rightarrow> restore_env \<Rightarrow> str \<Rightarrow> str \<Rightarrow> vm_host \<Rightarrow> (snapshot_error + snapshot_record) \<times> vm_host" where
  "restore_firecracker_snapshot E re agent name w =
     (let prepared =
        bind_result (snapshot_dir agent name) (\<lambda>dir.
        bind_result (read_record E dir w) (\<lambda>record.
        bind_result (case validate_firecracker_restore_record record of Some e \<Rightarrow> Inl e | None \<Rightarrow> Inr ()) (\<lambda>_.
        bind_result (snapshot_component_path E dir (sn_state_path record) ''vm-state.snap'' w) (\<lambda>_.
        bind_result (snapshot_component_path E dir (sn_memory_path record) ''memory.mem'' w) (\<lambda>_.
        bind_result (snapshot_component_path E dir (sn_disk_path record) ''rootfs.ext4'' w) (\<lambda>disk.
        bind_result (firecracker_metadata E agent w) (\<lambda>m. Inr (record, disk, m))))))))
      in case prepared of
           Inl e \<Rightarrow> (Inl e, w)
         | Inr (record, disk, m) \<Rightarrow>
             (case stop_firecracker_process (re_stop re) m w of
                (Some e, w1) \<Rightarrow> (Inl e, w1)
              | (None, w1) \<Rightarrow> finish_restore re record disk m w1))"

section \<open>Taking\<close>

datatype write_outcome = WriteDone | WriteRefused | WriteTorn str

text \<open>The record is written beside its place and renamed.\<close>

definition write_record :: "snapshot_env \<Rightarrow> write_outcome \<Rightarrow> str \<Rightarrow> str \<Rightarrow> snapshot_record \<Rightarrow> vm_host \<Rightarrow> snapshot_error option \<times> vm_host" where
  "write_record E wr uuid dir r w =
     (case wr of
        WriteRefused \<Rightarrow> (Some (SystemCall ''create record''), w)
      | WriteTorn part \<Rightarrow>
          (Some (SystemCall ''write record''),
           w\<lparr>vh_files := (vh_files w)(path_join dir (''snapshot.json.'' @ uuid @ ''.tmp'') \<mapsto> part)\<rparr>)
      | WriteDone \<Rightarrow> (None, w\<lparr>vh_files := (vh_files w)(path_join dir ''snapshot.json'' \<mapsto> se_show E r @ [newline_byte])\<rparr>))"

definition create_new_snapshot_dir :: "bool \<Rightarrow> bool \<Rightarrow> str \<Rightarrow> str \<Rightarrow> vm_host \<Rightarrow> (snapshot_error + str) \<times> vm_host" where
  "create_new_snapshot_dir parent_ok ok agent name w =
     (case snapshot_dir agent name of
        Inl e \<Rightarrow> (Inl e, w)
      | Inr dir \<Rightarrow>
          if \<not> parent_ok then (Inl (SystemCall ''create snapshots''), w)
          else let w1 = w\<lparr>vh_dirs := insert (path_join agent ''snapshots'') (vh_dirs w)\<rparr>
            in if path_exists w1 dir then (Inl (SnapshotExists name), w1)
               else if \<not> ok then (Inl (SystemCall ''create snapshot''), w1)
               else (Inr dir, w1\<lparr>vh_dirs := insert dir (vh_dirs w1)\<rparr>))"

text \<open>\<open>remove_dir_all\<close>, which may leave some of the paths (those that \<open>goes\<close> does not hold of).\<close>

definition below :: "str \<Rightarrow> str \<Rightarrow> bool" where
  "below dir p \<longleftrightarrow> p = dir \<or> prefix (dir @ ''/'') p"

definition remove_dir_all :: "(str \<Rightarrow> bool) \<Rightarrow> str \<Rightarrow> vm_host \<Rightarrow> vm_host" where
  "remove_dir_all goes dir w =
     w\<lparr>vh_files := (\<lambda>p. if below dir p \<and> goes p then None else vh_files w p),
       vh_dirs := {d \<in> vh_dirs w. \<not> (below dir d \<and> goes d)}\<rparr>"

text \<open>A call of the API: whether it took effect, and whether it was reported to.\<close>

record take_env =
  tk_mkdir :: "bool \<times> bool"
  tk_pause :: "bool \<times> bool"
  tk_image :: "str \<Rightarrow> str \<times> str" \<comment> \<open>state and memory of the guest whose disk it is\<close>
  tk_create :: "(str option \<times> str option) option" \<comment> \<open>what a failing \<open>snapshot/create\<close> leaves\<close>
  tk_copy :: copy_outcome
  tk_resume :: "bool \<times> bool"
  tk_goes :: "str \<Rightarrow> bool"
  tk_now :: str
  tk_write :: write_outcome
  tk_uuid :: str
  tk_guest :: "nat \<Rightarrow> str \<Rightarrow> str"

fun reconcile_firecracker_snapshot_resume ::
    "snapshot_error option \<Rightarrow> snapshot_error option \<Rightarrow> snapshot_error option" where
  "reconcile_firecracker_snapshot_resume None None = None"
| "reconcile_firecracker_snapshot_resume None (Some r) = Some r"
| "reconcile_firecracker_snapshot_resume (Some e) _ = Some e"

definition create_and_copy :: "take_env \<Rightarrow> firecracker_files \<Rightarrow> str \<Rightarrow> vm_host \<Rightarrow> snapshot_error option \<times> vm_host" where
  "create_and_copy tk m dir w =
     (let put = (\<lambda>f p w. case f of None \<Rightarrow> w | Some x \<Rightarrow> w\<lparr>vh_files := (vh_files w)(p \<mapsto> x)\<rparr>);
          image = tk_image tk (case vh_files w (fm_rootfs_path m) of Some d \<Rightarrow> d | None \<Rightarrow> []);
          written = (case tk_create tk of Some part \<Rightarrow> part | None \<Rightarrow> (Some (fst image), Some (snd image)));
          w1 = put (snd written) (path_join dir ''memory.mem'') (put (fst written) (path_join dir ''vm-state.snap'') w)
      in if tk_create tk \<noteq> None then (Some (SystemCall ''snapshot/create''), w1)
         else case fs_copy (tk_copy tk) (fm_rootfs_path m) (path_join dir ''rootfs.ext4'')
                (guest_writes (tk_guest tk 1) (fm_rootfs_path m) w1) of
             (True, w2) \<Rightarrow> (None, w2)
           | (False, w2) \<Rightarrow> (Some (SystemCall ''copy rootfs''), w2))"

definition full_record :: "take_env \<Rightarrow> str \<Rightarrow> str \<Rightarrow> snapshot_record" where
  "full_record tk dir name = \<lparr> sn_name = name, sn_provider = Firecracker, sn_kind = FirecrackerFull, sn_created_at = tk_now tk,
     sn_state_path = Some (path_join dir ''vm-state.snap''), sn_memory_path = Some (path_join dir ''memory.mem''),
     sn_disk_path = Some (path_join dir ''rootfs.ext4'') \<rparr>"

definition take_firecracker_snapshot ::
    "snapshot_env \<Rightarrow> take_env \<Rightarrow> str \<Rightarrow> str \<Rightarrow> vm_host \<Rightarrow> (snapshot_error + snapshot_record) \<times> vm_host" where
  "take_firecracker_snapshot E tk agent name w =
     (case firecracker_metadata E agent w of
        Inl e \<Rightarrow> (Inl e, w)
      | Inr m \<Rightarrow>
          (case create_new_snapshot_dir (fst (tk_mkdir tk)) (snd (tk_mkdir tk)) agent name w of
             (Inl e, w1) \<Rightarrow> (Inl e, w1)
           | (Inr dir, w1) \<Rightarrow>
               let w2 = (if fst (tk_pause tk) then w1\<lparr>vh_paused := True\<rparr> else w1);
                   w3 = guest_writes (tk_guest tk 0) (fm_rootfs_path m) w2
               in if \<not> snd (tk_pause tk) then (Inl (SystemCall ''pause''), remove_dir_all (tk_goes tk) dir w3)
                  else case create_and_copy tk m dir w3 of
                      (taken, w4) \<Rightarrow>
                        let w5 = guest_writes (tk_guest tk 2) (fm_rootfs_path m) w4;
                            w6 = (if fst (tk_resume tk) then w5\<lparr>vh_paused := False\<rparr> else w5);
                            resumed = (if snd (tk_resume tk) then None else Some (SystemCall ''resume''));
                            w7 = guest_writes (tk_guest tk 3) (fm_rootfs_path m) w6
                        in case reconcile_firecracker_snapshot_resume taken resumed of
                             Some e \<Rightarrow> (Inl e, remove_dir_all (tk_goes tk) dir w7)
                           | None \<Rightarrow>
                               (case write_record E (tk_write tk) (tk_uuid tk) dir (full_record tk dir name) w7 of
                                  (Some e, w8) \<Rightarrow> (Inl e, w8)
                                | (None, w8) \<Rightarrow> (Inr (full_record tk dir name), w8))))"

section \<open>Markers, Hyper-V and listing\<close>

text \<open>The README may be written or not; the environment gives the clock and the id.\<close>

definition create_local_marker ::
    "snapshot_env \<Rightarrow> take_env \<Rightarrow> bool \<Rightarrow> str \<Rightarrow> host_provider \<Rightarrow> str \<Rightarrow> vm_host \<Rightarrow> (snapshot_error + snapshot_record) \<times> vm_host" where
  "create_local_marker E tk readme agent provider name w =
     (case create_new_snapshot_dir (fst (tk_mkdir tk)) (snd (tk_mkdir tk)) agent name w of
        (Inl e, w1) \<Rightarrow> (Inl e, w1)
      | (Inr dir, w1) \<Rightarrow>
          if \<not> readme then (Inl (SystemCall ''write README''), w1)
          else let w2 = w1\<lparr>vh_files := (vh_files w1)(path_join dir ''README.md'' \<mapsto>
                  ''Local snapshot marker only. Use --live for restorable VM snapshots.'' @ [newline_byte])\<rparr>
            in case write_record E (tk_write tk) (tk_uuid tk) dir (local_record name provider (tk_now tk)) w2 of
                 (Some e, w3) \<Rightarrow> (Inl e, w3)
               | (None, w3) \<Rightarrow> (Inr (local_record name provider (tk_now tk)), w3))"

text \<open>\<open>hostd\<close> answers with an error or with whether it did it.\<close>

definition ensure_hostd_ok :: "str \<Rightarrow> bool option \<Rightarrow> snapshot_error option" where
  "ensure_hostd_ok operation granted = (if granted = Some True then None else Some (HostdRefused operation))"

definition take_hyperv_snapshot ::
    "snapshot_env \<Rightarrow> take_env \<Rightarrow> (snapshot_error + bool option) \<Rightarrow> str \<Rightarrow> str \<Rightarrow> vm_host \<Rightarrow> (snapshot_error + snapshot_record) \<times> vm_host" where
  "take_hyperv_snapshot E tk hostd agent name w =
     (case create_new_snapshot_dir (fst (tk_mkdir tk)) (snd (tk_mkdir tk)) agent name w of
        (Inl e, w1) \<Rightarrow> (Inl e, w1)
      | (Inr dir, w1) \<Rightarrow>
          (case (case hostd of Inl e \<Rightarrow> Some e | Inr granted \<Rightarrow> ensure_hostd_ok ''snapshot take'' granted) of
             Some e \<Rightarrow> (Inl e, remove_dir_all (tk_goes tk) dir w1)
           | None \<Rightarrow>
               (case write_record E (tk_write tk) (tk_uuid tk) dir (hyperv_snapshot_record name (tk_now tk)) w1 of
                  (Some e, w2) \<Rightarrow> (Inl e, w2)
                | (None, w2) \<Rightarrow> (Inr (hyperv_snapshot_record name (tk_now tk)), w2))))"

definition validate_hyperv_restore_record_if_present :: "snapshot_env \<Rightarrow> str \<Rightarrow> str \<Rightarrow> vm_host \<Rightarrow> snapshot_error option" where
  "validate_hyperv_restore_record_if_present E agent name w =
     (case snapshot_dir agent name of
        Inl e \<Rightarrow> Some e
      | Inr dir \<Rightarrow>
          if \<not> path_exists w (path_join dir ''snapshot.json'') then None
          else (case read_record E dir w of
              Inl e \<Rightarrow> Some e
            | Inr r \<Rightarrow> if sn_provider r \<noteq> HyperV \<or> sn_kind r \<noteq> HyperVCheckpoint then Some (NotRestorable (sn_name r)) else None))"

definition restore_hyperv_snapshot ::
    "snapshot_env \<Rightarrow> str \<Rightarrow> (snapshot_error + bool option) \<Rightarrow> str \<Rightarrow> str \<Rightarrow> vm_host \<Rightarrow> snapshot_error + snapshot_record" where
  "restore_hyperv_snapshot E now hostd agent name w =
     (case validate_snapshot_name name of
        Some e \<Rightarrow> Inl e
      | None \<Rightarrow>
          (case validate_hyperv_restore_record_if_present E agent name w of
             Some e \<Rightarrow> Inl e
           | None \<Rightarrow>
               (case hostd of
                  Inl e \<Rightarrow> Inl e
                | Inr granted \<Rightarrow>
                    (case ensure_hostd_ok ''snapshot restore'' granted of Some e \<Rightarrow> Inl e | None \<Rightarrow> Inr (hyperv_snapshot_record name now)))))"

text \<open>The directory is read in any order.\<close>

fun local_records :: "snapshot_env \<Rightarrow> host_provider \<Rightarrow> str \<Rightarrow> str list \<Rightarrow> vm_host \<Rightarrow> snapshot_error + snapshot_record list" where
  "local_records E p dir [] w = Inr []"
| "local_records E p dir (n # ns) w =
     (let entry = path_join dir n
      in if entry \<notin> vh_dirs w then local_records E p dir ns w
         else bind_result
           (if path_exists w (path_join entry ''snapshot.json'') then read_record E entry w else Inr (local_record n p []))
           (\<lambda>r. bind_result (local_records E p dir ns w) (\<lambda>rs. Inr (r # rs))))"

definition list_local_snapshot_records ::
    "snapshot_env \<Rightarrow> str list \<Rightarrow> str \<Rightarrow> host_provider \<Rightarrow> vm_host \<Rightarrow> snapshot_error + snapshot_record list" where
  "list_local_snapshot_records E entries agent p w =
     (let dir = path_join agent ''snapshots''
      in if \<not> path_exists w dir then Inr []
         else bind_result (local_records E p dir entries w) (\<lambda>rs. Inr (sort_key sn_name rs)))"

definition take_snapshot ::
    "snapshot_env \<Rightarrow> take_env \<Rightarrow> bool \<Rightarrow> (snapshot_error + bool option) \<Rightarrow> str \<Rightarrow> str \<Rightarrow> bool \<Rightarrow> vm_host \<Rightarrow> (snapshot_error + snapshot_record) \<times> vm_host" where
  "take_snapshot E tk readme hostd agent name live w =
     (case load_agent_spec E agent w of
        Inl e \<Rightarrow> (Inl e, w)
      | Inr spec \<Rightarrow>
          let p = vm_provider (as_vm spec)
          in if live then (case p of HyperV \<Rightarrow> take_hyperv_snapshot E tk hostd agent name w
               | Firecracker \<Rightarrow> take_firecracker_snapshot E tk agent name w)
             else create_local_marker E tk readme agent p name w)"

definition restore_snapshot ::
    "snapshot_env \<Rightarrow> restore_env \<Rightarrow> str \<Rightarrow> (snapshot_error + bool option) \<Rightarrow> str \<Rightarrow> str \<Rightarrow> bool \<Rightarrow> vm_host \<Rightarrow> (snapshot_error + snapshot_record) \<times> vm_host" where
  "restore_snapshot E re now hostd agent name live w =
     (if \<not> live then (Inl NotLive, w)
      else case load_agent_spec E agent w of
          Inl e \<Rightarrow> (Inl e, w)
        | Inr spec \<Rightarrow> (case vm_provider (as_vm spec) of
              HyperV \<Rightarrow> (restore_hyperv_snapshot E now hostd agent name w, w)
            | Firecracker \<Rightarrow> restore_firecracker_snapshot E re agent name w))"

section \<open>What the steps leave alone\<close>

lemma guest_writes_frame [simp]: "p \<noteq> disk \<Longrightarrow> vh_files (guest_writes f disk w) p = vh_files w p"
  "vh_dirs (guest_writes f disk w) = vh_dirs w" "vh_procs (guest_writes f disk w) = vh_procs w"
  "vh_vm (guest_writes f disk w) = vh_vm w" "vh_paused (guest_writes f disk w) = vh_paused w"
  "guest_runs (guest_writes f disk w) = guest_runs w"
  by (simp_all add: guest_writes_def guest_runs_def split: option.split)

lemma guest_writes_disk: "vh_files (guest_writes f disk w) disk = (if guest_runs w then map_option f (vh_files w disk) else vh_files w disk)"
  by (simp add: guest_writes_def)

lemma guest_writes_idle [simp]: "\<not> guest_runs w \<Longrightarrow> guest_writes f disk w = w"
  by (simp add: guest_writes_def)

lemma remove_file_frame:
  assumes "remove_file_if_present ok p w = (r, w')"
  shows "q \<noteq> p \<Longrightarrow> vh_files w' q = vh_files w q" and "r \<Longrightarrow> vh_files w' p = None"
    and "vh_dirs w' = vh_dirs w" and "vh_procs w' = vh_procs w" and "vh_vm w' = vh_vm w" and "vh_paused w' = vh_paused w"
    and "vh_files w' p = vh_files w p \<or> vh_files w' p = None" and "\<not> r \<Longrightarrow> w' = w"
  using assms by (auto simp: remove_file_if_present_def split: if_splits)

lemma remove_pair_frame:
  assumes "remove_pair so m w = (r, w')"
  shows "q \<notin> {fm_pid m, fm_socket m} \<Longrightarrow> vh_files w' q = vh_files w q"
    and "r = None \<Longrightarrow> vh_files w' (fm_pid m) = None \<and> vh_files w' (fm_socket m) = None"
    and "vh_dirs w' = vh_dirs w" and "vh_procs w' = vh_procs w" and "vh_vm w' = vh_vm w" and "vh_paused w' = vh_paused w"
proof -
  obtain b1 w1 where 1: "remove_file_if_present (so_remove_pid so) (fm_pid m) w = (b1, w1)" by force
  obtain b2 w2 where 2: "remove_file_if_present (so_remove_socket so) (fm_socket m) w1 = (b2, w2)" by force
  note f = remove_file_frame [OF 1] remove_file_frame [OF 2]
  have c: "(r, w') = (if \<not> b1 then (Some (SystemCall ''remove pid''), w1)
      else if \<not> b2 then (Some (SystemCall ''remove socket''), w2) else (None, w2))"
    using assms by (auto simp: remove_pair_def 1 2)
  then show "q \<notin> {fm_pid m, fm_socket m} \<Longrightarrow> vh_files w' q = vh_files w q"
    "vh_dirs w' = vh_dirs w" "vh_procs w' = vh_procs w" "vh_vm w' = vh_vm w" "vh_paused w' = vh_paused w"
    using f by (auto split: if_splits)
  assume "r = None"
  then have "b1" "b2" "w' = w2" using c by (auto split: if_splits)
  then show "vh_files w' (fm_pid m) = None \<and> vh_files w' (fm_socket m) = None"
    using f by (metis (full_types))
qed

lemma stop_tracked_frame:
  assumes "stop_tracked so p w = (r, w')"
  shows "vh_files w' = vh_files w" and "vh_dirs w' = vh_dirs w" and "vh_vm w' = vh_vm w" and "vh_paused w' = vh_paused w"
    and "vh_procs w' = vh_procs w \<or> vh_procs w' = vh_procs w - {p}" and "r = None \<Longrightarrow> vh_procs w' = vh_procs w - {p}"
proof -
  have "(r, w') \<in> {(Some (SystemCall ''kill TERM''), w)} \<union> {(e, v). e \<noteq> None \<and> (v = w \<or> v = w\<lparr>vh_procs := vh_procs w - {p}\<rparr>)}
      \<union> {(None, w\<lparr>vh_procs := vh_procs w - {p}\<rparr>)}"
    unfolding assms [symmetric] stop_tracked_def Let_def
    by (cases "so_term so"; cases "so_term_wait so"; cases "so_kill so"; cases "so_kill_wait so"; cases "so_gone so") (simp_all split: bool.split)
  then show "vh_files w' = vh_files w" "vh_dirs w' = vh_dirs w" "vh_vm w' = vh_vm w" "vh_paused w' = vh_paused w"
    "vh_procs w' = vh_procs w \<or> vh_procs w' = vh_procs w - {p}" "r = None \<Longrightarrow> vh_procs w' = vh_procs w - {p}"
    by auto
qed

text \<open>Every way a stop can go.\<close>

lemma stop_cases:
  assumes "stop_firecracker_process so m w = (r, w')"
  obtains (fails) e where "r = Some e" "w' = w"
  | (unstopped) p where "read_firecracker_pid (fm_pid m) w = Inr (Some p)" "p \<in> vh_procs w" "stop_tracked so p w = (r, w')" "r \<noteq> None"
  | (stopped) p w1 where "read_firecracker_pid (fm_pid m) w = Inr (Some p)" "p \<in> vh_procs w" "stop_tracked so p w = (None, w1)"
      "remove_pair so m w1 = (r, w')"
  | (stale) pid where "read_firecracker_pid (fm_pid m) w = Inr pid" "\<forall>p. pid = Some p \<longrightarrow> p \<notin> vh_procs w"
      "\<not> (path_exists w (fm_socket m) \<and> so_answers so)" "remove_pair so m w = (r, w')"
  | (idle) "read_firecracker_pid (fm_pid m) w = Inr None" "\<not> path_exists w (fm_socket m)" "r = None" "w' = w"
proof (cases "read_firecracker_pid (fm_pid m) w")
  case (Inl e)
  then show ?thesis using assms that(1) by (auto simp: stop_firecracker_process_def)
next
  case (Inr pid)
  show ?thesis
  proof (cases pid)
    case None
    show ?thesis
    proof (cases "path_exists w (fm_socket m)")
      case False
      then have "r = None" "w' = w" using assms Inr None by (simp_all add: stop_firecracker_process_def Let_def)
      then show ?thesis using that(5) Inr None False by blast
    next
      case True
      then have "(r, w') = (if so_answers so then (Some (UntrackedSocket (fm_socket m)), w) else remove_pair so m w)"
        using assms Inr None by (cases "so_answers so") (simp_all add: stop_firecracker_process_def Let_def)
      then show ?thesis using that(1) that(4) [OF Inr] None by (cases "so_answers so") auto
    qed
  next
    case (Some p)
    show ?thesis
    proof (cases "so_probe so")
      case False
      then show ?thesis using assms Inr Some that(1) by (auto simp: stop_firecracker_process_def Let_def)
    next
      case True
      show ?thesis
      proof (cases "p \<in> vh_procs w")
        case alive: True
        obtain r1 w1 where 1: "stop_tracked so p w = (r1, w1)" by force
        then have "(r, w') = (case r1 of Some e \<Rightarrow> (Some e, w1) | None \<Rightarrow> remove_pair so m w1)"
          using assms Inr Some True alive by (auto simp: stop_firecracker_process_def Let_def split: option.splits)
        then show ?thesis using Inr Some alive 1 that(2,3) by (cases r1) auto
      next
        case dead: False
        then have "(r, w') = (if path_exists w (fm_socket m) \<and> so_answers so then (Some (UntrackedSocket (fm_socket m)), w) else remove_pair so m w)"
          using assms Inr Some True
          by (cases "path_exists w (fm_socket m)"; cases "so_answers so") (simp_all add: stop_firecracker_process_def Let_def)
        then show ?thesis using that(1) that(4) [OF Inr] Some dead by (cases "path_exists w (fm_socket m) \<and> so_answers so") auto
      qed
    qed
  qed
qed

lemma stop_frame:
  assumes "stop_firecracker_process so m w = (r, w')"
  shows "q \<notin> {fm_pid m, fm_socket m} \<Longrightarrow> vh_files w' q = vh_files w q"
    and "vh_dirs w' = vh_dirs w" and "vh_vm w' = vh_vm w" and "vh_paused w' = vh_paused w" and "vh_procs w' \<subseteq> vh_procs w"
proof -
  from assms show "q \<notin> {fm_pid m, fm_socket m} \<Longrightarrow> vh_files w' q = vh_files w q"
    by (cases rule: stop_cases) (auto simp: stop_tracked_frame(1) remove_pair_frame(1))
  from assms show "vh_dirs w' = vh_dirs w"
    by (cases rule: stop_cases) (auto simp: stop_tracked_frame(2) remove_pair_frame(3))
  from assms show "vh_vm w' = vh_vm w"
    by (cases rule: stop_cases) (auto simp: stop_tracked_frame(3) remove_pair_frame(5))
  from assms show "vh_paused w' = vh_paused w"
    by (cases rule: stop_cases) (auto simp: stop_tracked_frame(4) remove_pair_frame(6))
  from assms show "vh_procs w' \<subseteq> vh_procs w"
    by (cases rule: stop_cases) (auto dest: stop_tracked_frame(5) remove_pair_frame(4))
qed

lemma start_frame:
  assumes "start_firecracker_empty sa m w = (r, w')"
    and "q \<notin> {fm_pid m, fm_socket m, fm_stdout_log m, fm_stderr_log m}"
  shows "vh_files w' q = vh_files w q"
proof -
  obtain r1 w1 where 1: "stop_firecracker_process (st_stop sa) m w = (r1, w1)" by force
  have "vh_files w' q = vh_files w1 q"
    using assms by (auto simp: start_firecracker_empty_def 1 Let_def split: option.splits if_splits)
  also have "vh_files w1 q = vh_files w q" using stop_frame(1) [OF 1] assms(2) by simp
  finally show ?thesis .
qed

lemma copy_frame:
  assumes "fs_copy oc src dst w = (r, w')"
  shows "q \<noteq> dst \<Longrightarrow> vh_files w' q = vh_files w q"
    and "r \<Longrightarrow> src \<noteq> dst \<Longrightarrow> vh_files w' dst = vh_files w src \<and> vh_files w src \<noteq> None"
    and "vh_dirs w' = vh_dirs w" and "vh_procs w' = vh_procs w" and "vh_vm w' = vh_vm w" and "vh_paused w' = vh_paused w"
  using assms by (auto simp: fs_copy_def split: option.splits copy_outcome.splits)

lemma rollback_frame:
  assumes "rollback_rootfs_backup oc rm rootfs (Some b) w = (r, w')" and "b \<noteq> rootfs" and "vh_files w b = Some old"
  shows "vh_files w' rootfs = Some old \<or> vh_files w' b = Some old"
    and "q \<notin> {rootfs, b} \<Longrightarrow> vh_files w' q = vh_files w q"
    and "vh_procs w' = vh_procs w" and "vh_vm w' = vh_vm w" and "vh_paused w' = vh_paused w"
proof -
  obtain ok w1 where 1: "fs_copy oc b rootfs w = (ok, w1)" by force
  note f = copy_frame [OF 1]
  have b: "vh_files w1 b = Some old" using f(1) [of b] assms(2,3) by simp
  have "(r, w') = (if \<not> ok then (Some (SystemCall ''roll back rootfs''), w1)
      else if rm then (None, w1\<lparr>vh_files := (vh_files w1)(b := None)\<rparr>) else (Some (SystemCall ''remove rootfs backup''), w1))"
    using assms(1) b by (auto simp: rollback_rootfs_backup_def 1)
  then show "vh_files w' rootfs = Some old \<or> vh_files w' b = Some old" "q \<notin> {rootfs, b} \<Longrightarrow> vh_files w' q = vh_files w q"
    "vh_procs w' = vh_procs w" "vh_vm w' = vh_vm w" "vh_paused w' = vh_paused w"
    using f b assms(2,3) by (auto split: if_splits)
qed

text \<open>Replacing the disk: the old content is at its place or in the backup, whatever breaks.\<close>

lemma replace_keeps:
  assumes "replace_rootfs_with_backup rp rootfs disk w = (r, w')" and "vh_files w rootfs = Some old"
    and "backup_of (rp_uuid rp) rootfs = Some b" and "b \<noteq> rootfs"
  shows "vh_files w' rootfs = Some old \<or> vh_files w' b = Some old"
    and "q \<notin> {rootfs, b} \<Longrightarrow> vh_files w' q = vh_files w q"
    and "r = Inr x \<Longrightarrow> x = Some b \<and> vh_files w' b = Some old"
    and "r = Inr x \<Longrightarrow> disk \<notin> {rootfs, b} \<Longrightarrow> vh_files w' rootfs = vh_files w disk \<and> vh_files w disk \<noteq> None"
    and "vh_procs w' = vh_procs w" and "vh_vm w' = vh_vm w" and "vh_paused w' = vh_paused w"
proof -
  have e: "path_exists w rootfs" using assms(2) by (simp add: path_exists_def)
  obtain k1 w1 where 1: "fs_copy (rp_backup rp) rootfs b w = (k1, w1)" by force
  obtain k2 w2 where 2: "fs_copy (rp_restore rp) disk rootfs w1 = (k2, w2)" by force
  obtain r3 w3 where 3: "rollback_rootfs_backup (fst (rp_rollback rp)) (snd (rp_rollback rp)) rootfs (Some b) w2 = (r3, w3)" by force
  note f1 = copy_frame [OF 1] and f2 = copy_frame [OF 2]
  have c: "(r, w') = (if \<not> k1 then (Inl (SystemCall ''back up rootfs''), w1) else if k2 then (Inr (Some b), w2)
      else (Inl (case r3 of Some e \<Rightarrow> e | None \<Rightarrow> SystemCall ''restore rootfs''), w3))"
    using assms(1,3) e by (cases k1; cases k2; cases r3) (simp_all add: replace_rootfs_with_backup_def Let_def 1 2 3)
  have b1: "k1 \<Longrightarrow> vh_files w2 b = Some old" using f1(2) f2(1) [of b] assms(2,4) by auto
  have r1: "vh_files w1 rootfs = Some old" using f1(1) [of rootfs] assms(2,4) by auto
  note f3 = rollback_frame [OF 3 assms(4)]
  consider (unsaved) "\<not> k1" "w' = w1" "\<exists>e. r = Inl e" | (ok) "k1" "k2" "r = Inr (Some b)" "w' = w2"
    | (undone) "k1" "w' = w3" "\<exists>e. r = Inl e"
    using c by (cases k1; cases k2) auto
  note cases = this
  show "vh_files w' rootfs = Some old \<or> vh_files w' b = Some old"
    by (rule cases) (use r1 b1 f3(1) in auto)
  show "vh_files w' q = vh_files w q" if q: "q \<notin> {rootfs, b}"
    by (rule cases) (use q f1(1) [of q] f2(1) [of q] f3(2) [OF b1 q] in auto)
  show "r = Inr x \<Longrightarrow> x = Some b \<and> vh_files w' b = Some old" using cases b1 by auto
  show "r = Inr x \<Longrightarrow> disk \<notin> {rootfs, b} \<Longrightarrow> vh_files w' rootfs = vh_files w disk \<and> vh_files w disk \<noteq> None"
    using cases f2(2) f1(1) [of disk] by auto
  show "vh_procs w' = vh_procs w" by (rule cases) (use f1(4) f2(4) f3(3) b1 in auto)
  show "vh_vm w' = vh_vm w" by (rule cases) (use f1(5) f2(5) f3(4) b1 in auto)
  show "vh_paused w' = vh_paused w" by (rule cases) (use f1(6) f2(6) f3(5) b1 in auto)
qed

lemma load_frame:
  assumes "load_snapshot_vm re m w = (r, w')"
  shows "q \<notin> {fm_rootfs_path m, fm_pid m, fm_socket m, fm_stdout_log m, fm_stderr_log m} \<Longrightarrow> vh_files w' q = vh_files w q"
    and "fm_rootfs_path m \<notin> {fm_pid m, fm_socket m, fm_stdout_log m, fm_stderr_log m} \<Longrightarrow> vh_files w (fm_rootfs_path m) = Some d \<Longrightarrow>
      vh_files w' (fm_rootfs_path m) \<in> {Some d, Some (re_guest re d)}"
proof -
  obtain r1 w1 where 1: "start_firecracker_empty (re_start re) m w = (r1, w1)" by force
  let ?w2 = "guest_writes (re_guest re) (fm_rootfs_path m)
    (if fst (re_load re) then w1\<lparr>vh_vm := st_spawn (re_start re), vh_paused := False\<rparr> else w1)"
  have c: "w' = w1 \<or> w' = ?w2"
    using assms by (auto simp: load_snapshot_vm_def 1 Let_def split: option.splits if_splits)
  note f = start_frame [OF 1]
  show "q \<notin> {fm_rootfs_path m, fm_pid m, fm_socket m, fm_stdout_log m, fm_stderr_log m} \<Longrightarrow> vh_files w' q = vh_files w q"
    using c f [of q] by auto
  assume "fm_rootfs_path m \<notin> {fm_pid m, fm_socket m, fm_stdout_log m, fm_stderr_log m}" "vh_files w (fm_rootfs_path m) = Some d"
  then have "vh_files w1 (fm_rootfs_path m) = Some d" using f by auto
  then show "vh_files w' (fm_rootfs_path m) \<in> {Some d, Some (re_guest re d)}"
    using c by (auto simp: guest_writes_disk)
qed

text \<open>The files a restore works on, apart from the snapshot.\<close>

definition restore_files :: "firecracker_files \<Rightarrow> str \<Rightarrow> str list" where
  "restore_files m b = [fm_rootfs_path m, b, fm_pid m, fm_socket m, fm_stdout_log m, fm_stderr_log m]"

text \<open>A restore stops before it touched anything, or has all it needs.\<close>

lemma restore_cases:
  assumes "restore_firecracker_snapshot E re agent name w = (r, w')" and "firecracker_metadata E agent w = Inr m"
  obtains (refused) e where "r = Inl e" "w' = w"
  | (stuck) e where "r = Inl e" "stop_firecracker_process (re_stop re) m w = (Some e, w')"
  | (goes) dir rec disk w1 where "snapshot_dir agent name = Inr dir" "read_record E dir w = Inr rec"
      "validate_firecracker_restore_record rec = None" "snapshot_component_path E dir (sn_disk_path rec) ''rootfs.ext4'' w = Inr disk"
      "stop_firecracker_process (re_stop re) m w = (None, w1)" "finish_restore re rec disk m w1 = (r, w')"
proof -
  define prepared where "prepared =
        bind_result (snapshot_dir agent name) (\<lambda>dir.
        bind_result (read_record E dir w) (\<lambda>record.
        bind_result (case validate_firecracker_restore_record record of Some e \<Rightarrow> Inl e | None \<Rightarrow> Inr ()) (\<lambda>_.
        bind_result (snapshot_component_path E dir (sn_state_path record) ''vm-state.snap'' w) (\<lambda>_.
        bind_result (snapshot_component_path E dir (sn_memory_path record) ''memory.mem'' w) (\<lambda>_.
        bind_result (snapshot_component_path E dir (sn_disk_path record) ''rootfs.ext4'' w) (\<lambda>disk.
        bind_result (firecracker_metadata E agent w) (\<lambda>m. Inr (record, disk, m))))))))"
  have run: "(r, w') = (case prepared of
           Inl e \<Rightarrow> (Inl e, w)
         | Inr (record, disk, m) \<Rightarrow>
             (case stop_firecracker_process (re_stop re) m w of
                (Some e, w1) \<Rightarrow> (Inl e, w1)
              | (None, w1) \<Rightarrow> finish_restore re record disk m w1))"
    using assms(1) unfolding restore_firecracker_snapshot_def Let_def prepared_def finish_restore_def by simp
  show ?thesis
  proof (cases prepared)
    case (Inl e)
    then show ?thesis using run refused by simp
  next
    case (Inr t)
    then obtain dir rec disk where t: "t = (rec, disk, m)" "snapshot_dir agent name = Inr dir" "read_record E dir w = Inr rec"
      "validate_firecracker_restore_record rec = None" "snapshot_component_path E dir (sn_disk_path rec) ''rootfs.ext4'' w = Inr disk"
      using assms(2) by (auto simp: prepared_def bind_result_Inr split: option.splits)
    obtain s1 w1 where 1: "stop_firecracker_process (re_stop re) m w = (s1, w1)" by force
    show ?thesis
    proof (cases s1)
      case None
      then show ?thesis using goes [OF t(2-5)] 1 run Inr t(1) by simp
    next
      case (Some e)
      then show ?thesis using stuck 1 run Inr t(1) by simp
    qed
  qed
qed

lemma finish_steps:
  assumes "finish_restore re rec disk m w = (r, w')" and "vh_files w (fm_rootfs_path m) = Some old"
    and "backup_of (rp_uuid (re_replace re)) (fm_rootfs_path m) = Some b" and "distinct (restore_files m b)"
  shows "(\<forall>q. q \<notin> set (restore_files m b) \<longrightarrow> vh_files w' q = vh_files w q) \<and>
    (vh_files w' (fm_rootfs_path m) = Some old \<or> vh_files w' b = Some old \<or> guest_runs w' \<or> r = Inr rec) \<and>
    (\<forall>x. r = Inr x \<longrightarrow> x = rec \<and> vh_files w' b = None \<and> (disk \<notin> set (restore_files m b) \<longrightarrow>
      (\<exists>d. vh_files w disk = Some d \<and> vh_files w' (fm_rootfs_path m) \<in> {Some d, Some (re_guest re d)})))"
proof -
  let ?root = "fm_rootfs_path m"
  have ne: "?root \<notin> {fm_pid m, fm_socket m, fm_stdout_log m, fm_stderr_log m}" "b \<notin> {fm_pid m, fm_socket m, fm_stdout_log m, fm_stderr_log m}"
    "b \<noteq> ?root" "b \<notin> {?root, fm_pid m, fm_socket m, fm_stdout_log m, fm_stderr_log m}" using assms(4) by (auto simp: restore_files_def)
  obtain r2 w2 where 2: "replace_rootfs_with_backup (re_replace re) ?root disk w = (r2, w2)" by force
  note f2 = replace_keeps [OF 2 assms(2,3) ne(3)]
  consider (broken) e where "r2 = Inl e" "r = Inl e" "w' = w2" | (done2) "r2 = Inr (Some b)"
    using assms(1) f2(3) 2 by (cases r2) (auto simp: finish_restore_def)
  then show ?thesis
  proof cases
    case broken
    then show ?thesis using f2(1,2) by (auto simp: restore_files_def)
  next
    case done2
    obtain r3 w3 where 3: "load_snapshot_vm re m w2 = (r3, w3)" by force
    note f3 = load_frame [OF 3]
    have b3: "vh_files w3 b = Some old" using f3(1) ne(4) f2(3) [OF done2] by auto
    obtain r4 w4 where 4: "stop_firecracker_process (re_stop_again re) m w3 = (r4, w4)" by force
    have b4: "vh_files w4 b = Some old" using stop_frame(1) [OF 4, of b] ne(2) b3 by auto
    obtain r5 w5 where 5: "rollback_rootfs_backup (fst (re_rollback re)) (snd (re_rollback re)) ?root (Some b) w4 = (r5, w5)" by force
    note f5 = rollback_frame [OF 5 ne(3) b4]
    obtain ok w6 where 6: "remove_file_if_present (re_cleanup re) b w3 = (ok, w6)" by force
    note f6 = remove_file_frame [OF 6]
    have c: "(r, w') = (case r3 of Some e \<Rightarrow> (Inl e, guest_writes (re_late_guest re) ?root w5)
        | None \<Rightarrow> if ok then (Inr rec, w6) else (Inl (SystemCall ''remove rootfs backup''), w6))"
      using assms(1) done2 by (cases r3) (auto simp: finish_restore_def cleanup_rootfs_backup_def 2 3 4 5 6 Let_def split: bool.splits)
    have frame: "vh_files w' q = vh_files w q" if "q \<notin> set (restore_files m b)" for q
      using that c f2(2) [of q] f3(1) [of q] stop_frame(1) [OF 4, of q] f5(2) [of q] f6(1) [of q]
      by (auto simp: restore_files_def split: option.splits if_splits)
    have safe: "vh_files w' ?root = Some old \<or> vh_files w' b = Some old \<or> guest_runs w' \<or> r = Inr rec"
    proof (cases "r3 = None")
      case True
      then show ?thesis using c f6(8) b3 by (auto split: if_splits)
    next
      case False
      then have w': "w' = guest_writes (re_late_guest re) ?root w5" using c by auto
      then show ?thesis using f5(1) by (cases "guest_runs w5") auto
    qed
    have over: "x = rec \<and> vh_files w' b = None" "r3 = None" "w' = w6" if "r = Inr x" for x
      using that c f6(2) by (auto split: option.splits if_splits)
    have disk: "\<exists>d. vh_files w disk = Some d \<and> vh_files w' ?root \<in> {Some d, Some (re_guest re d)}"
      if r: "r = Inr x" and q: "disk \<notin> set (restore_files m b)" for x
    proof -
      have "disk \<notin> {?root, b}" using q by (auto simp: restore_files_def)
      then obtain d where d: "vh_files w disk = Some d" "vh_files w2 ?root = Some d" using f2(4) [OF done2] by auto
      then have "vh_files w3 ?root \<in> {Some d, Some (re_guest re d)}" using f3(2) [OF ne(1)] by blast
      then show ?thesis using d over [OF r] f6(1) [of ?root] ne(3) by auto
    qed
    show ?thesis
      using frame safe over disk by blast
  qed
qed

section \<open>Where things are\<close>

lemma snapshot_dir_end: "snapshot_dir agent name = Inr dir \<Longrightarrow> dir \<noteq> [] \<and> last dir \<noteq> CHR ''/''"
proof -
  assume "snapshot_dir agent name = Inr dir"
  then have d: "dir = path_join (path_join agent ''snapshots'') name" and n: "name \<noteq> []" "CHR ''/'' \<notin> set name"
    by (auto simp: snapshot_dir_def validate_snapshot_name_def split: if_splits)
  then have "suffix name dir" by (auto simp: path_join_def suffix_def)
  then show ?thesis using n by (metis last_in_set suffix_def last_append Nil_is_append_conv)
qed

lemma in_dir:
  assumes "snapshot_dir agent name = Inr dir" and "x = [] \<or> hd x \<noteq> CHR ''/''"
  shows "path_join dir x = dir @ CHR ''/'' # x" and "below dir (path_join dir x)"
proof -
  have "\<not> prefix ''/'' x" using assms(2) by (cases x) auto
  then show "path_join dir x = dir @ CHR ''/'' # x" using snapshot_dir_end [OF assms(1)] by (simp add: path_join_def)
  then show "below dir (path_join dir x)" by (simp add: below_def)
qed

definition snapshot_parts :: "str list" where
  "snapshot_parts = [''vm-state.snap'', ''memory.mem'', ''rootfs.ext4'', ''snapshot.json'']"

lemma in_dir_parts [simp]:
  assumes "snapshot_dir agent name = Inr dir"
  shows "path_join dir ''vm-state.snap'' = dir @ ''/vm-state.snap''" "path_join dir ''memory.mem'' = dir @ ''/memory.mem''"
    "path_join dir ''rootfs.ext4'' = dir @ ''/rootfs.ext4''" "path_join dir ''snapshot.json'' = dir @ ''/snapshot.json''"
    "path_join dir (''snapshot.json.'' @ u) = dir @ ''/snapshot.json.'' @ u"
  using in_dir(1) [OF assms] by simp_all

lemma below_parts [simp]: "below dir (dir @ CHR ''/'' # x)" "below dir dir"
  by (simp_all add: below_def)

lemma normalize_parts_clean:
  "normalize_parts kept ps = Some qs \<Longrightarrow> ''..'' \<notin> set kept \<Longrightarrow> ''..'' \<notin> set qs \<and> set qs \<subseteq> set kept \<union> set ps"
  by (induction kept ps rule: normalize_parts.induct) (auto split: if_splits list.splits)

lemma parts_of_joined: "\<forall>p\<in>set ps. p \<noteq> [] \<and> p \<noteq> ''.'' \<and> CHR ''/'' \<notin> set p \<Longrightarrow> path_parts (join ''/'' ps) = ps"
proof (induction ps)
  case (Cons p ps)
  show ?case
  proof (cases ps)
    case Nil
    then show ?thesis using Cons.prems by (simp add: path_parts_one)
  next
    case (Cons q qs)
    then have "join ''/'' (p # ps) = p @ CHR ''/'' # join ''/'' ps" by simp
    then show ?thesis using Cons.IH Cons.prems by (simp add: path_parts_append path_parts_one)
  qed
qed (simp add: path_parts_def)

lemma path_parts_plain: "p \<in> set (path_parts x) \<Longrightarrow> p \<noteq> [] \<and> p \<noteq> ''.'' \<and> CHR ''/'' \<notin> set p"
  by (auto simp: path_parts_def dest: split_on_parts)

text \<open>A normalized path has no \<open>..\<close> left and is made of parts of the path it came from.\<close>

lemma normalized_clean:
  assumes "normalize_path p = Inr c"
  shows "''..'' \<notin> set (path_parts c)" and "set (path_parts c) \<subseteq> set (path_parts p)"
    and "normalize_parts [] (path_parts p) = Some (path_parts c)"
proof -
  obtain ps where ps: "normalize_parts [] (path_parts p) = Some ps" "c = ''/'' @ join ''/'' ps"
    using assms by (auto simp: normalize_path_def split: option.splits)
  have q: "''..'' \<notin> set ps" "set ps \<subseteq> set (path_parts p)" using normalize_parts_clean [OF ps(1)] by auto
  then have "path_parts (join ''/'' ps) = ps" using path_parts_plain by (intro parts_of_joined) blast
  moreover have "path_parts (''/'' @ x) = path_parts x" for x using path_parts_append [of "[]" x] by (simp add: path_parts_def)
  ultimately have "path_parts c = ps" using ps(2) by simp
  then show "''..'' \<notin> set (path_parts c)" "set (path_parts c) \<subseteq> set (path_parts p)"
    "normalize_parts [] (path_parts p) = Some (path_parts c)" using q ps(1) by simp_all
qed

lemma state_path_confined:
  assumes "state_metadata_path cwd state value key = Inr c"
  shows "\<exists>root. absolute_normalized_path cwd state = Inr root \<and> prefix (path_parts root) (path_parts c) \<and> ''..'' \<notin> set (path_parts c)"
  using assms normalized_clean(1)
  by (auto simp: state_metadata_path_def bind_result_Inr path_starts_with_def absolute_normalized_path_def split: option.splits if_splits)

section \<open>Taking, step by step\<close>

lemma create_dir_cases:
  assumes "create_new_snapshot_dir a b agent name w = (r, w')" and "snapshot_dir agent name = Inr dir"
  shows "vh_files w' = vh_files w \<and> vh_procs w' = vh_procs w \<and> vh_vm w' = vh_vm w \<and> vh_paused w' = vh_paused w \<and>
    vh_dirs w' \<subseteq> insert dir (insert (path_join agent ''snapshots'') (vh_dirs w)) \<and>
    (\<forall>e. r = Inl e \<longrightarrow> vh_dirs w' \<subseteq> insert (path_join agent ''snapshots'') (vh_dirs w)) \<and>
    (\<forall>x. r = Inr x \<longrightarrow> x = dir \<and> \<not> path_exists w dir)"
  using assms by (auto simp: create_new_snapshot_dir_def Let_def path_exists_def split: if_splits)

lemma create_and_copy_frame:
  assumes "create_and_copy tk m dir w = (r, w')" and "snapshot_dir agent name = Inr dir"
  shows "q \<noteq> fm_rootfs_path m \<Longrightarrow> \<not> below dir q \<Longrightarrow> vh_files w' q = vh_files w q"
    and "vh_dirs w' = vh_dirs w" and "vh_procs w' = vh_procs w" and "vh_vm w' = vh_vm w" and "vh_paused w' = vh_paused w"
    and "r = None \<Longrightarrow> \<not> guest_runs w \<Longrightarrow> \<not> below dir (fm_rootfs_path m) \<Longrightarrow>
      \<exists>d. vh_files w (fm_rootfs_path m) = Some d \<and> vh_files w' (dir @ ''/rootfs.ext4'') = Some d \<and>
        vh_files w' (dir @ ''/vm-state.snap'') = Some (fst (tk_image tk d)) \<and> vh_files w' (dir @ ''/memory.mem'') = Some (snd (tk_image tk d))"
proof -
  let ?image = "tk_image tk (case vh_files w (fm_rootfs_path m) of Some d \<Rightarrow> d | None \<Rightarrow> [])"
  let ?put = "\<lambda>f p w. case f of None \<Rightarrow> w | Some x \<Rightarrow> w\<lparr>vh_files := (vh_files w)(p \<mapsto> x)\<rparr>"
  let ?written = "case tk_create tk of Some part \<Rightarrow> part | None \<Rightarrow> (Some (fst ?image), Some (snd ?image))"
  define w1 where "w1 = ?put (snd ?written) (dir @ ''/memory.mem'') (?put (fst ?written) (dir @ ''/vm-state.snap'') w)"
  have f1: "\<not> below dir q \<Longrightarrow> vh_files w1 q = vh_files w q" "vh_dirs w1 = vh_dirs w" "vh_procs w1 = vh_procs w"
    "vh_vm w1 = vh_vm w" "vh_paused w1 = vh_paused w" for q
    by (auto simp: w1_def split: option.splits)
  let ?w2 = "guest_writes (tk_guest tk 1) (fm_rootfs_path m) w1"
  obtain ok w3 where 3: "fs_copy (tk_copy tk) (fm_rootfs_path m) (dir @ ''/rootfs.ext4'') ?w2 = (ok, w3)" by force
  note f3 = copy_frame [OF 3]
  have c: "(r, w') = (if tk_create tk \<noteq> None then (Some (SystemCall ''snapshot/create''), w1)
      else if ok then (None, w3) else (Some (SystemCall ''copy rootfs''), w3))"
    using assms(1) 3 unfolding create_and_copy_def Let_def in_dir_parts [OF assms(2)] w1_def [symmetric] by (auto split: bool.splits)
  show "q \<noteq> fm_rootfs_path m \<Longrightarrow> \<not> below dir q \<Longrightarrow> vh_files w' q = vh_files w q"
    using c f1(1) [of q] f3(1) [of q] by (cases "q = dir @ ''/rootfs.ext4''") (auto split: if_splits)
  show "vh_dirs w' = vh_dirs w" "vh_procs w' = vh_procs w" "vh_vm w' = vh_vm w" "vh_paused w' = vh_paused w"
    using c f1 f3 by (auto split: if_splits)
  assume *: "r = None" "\<not> guest_runs w" "\<not> below dir (fm_rootfs_path m)"
  then have k: "tk_create tk = None" "ok" "w' = w3" using c by (cases "tk_create tk"; auto split: if_splits)+
  have "\<not> guest_runs w1" using *(2) f1(3-5) by (simp add: guest_runs_def split: option.split)
  then have w2: "?w2 = w1" by simp
  have ne: "fm_rootfs_path m \<noteq> dir @ ''/rootfs.ext4''" using *(3) by auto
  then obtain d where d: "vh_files w (fm_rootfs_path m) = Some d" "vh_files w3 (dir @ ''/rootfs.ext4'') = Some d"
    using f3(2) [OF k(2)] f1(1) [OF *(3)] w2 by auto
  then show "\<exists>d. vh_files w (fm_rootfs_path m) = Some d \<and> vh_files w' (dir @ ''/rootfs.ext4'') = Some d \<and>
        vh_files w' (dir @ ''/vm-state.snap'') = Some (fst (tk_image tk d)) \<and> vh_files w' (dir @ ''/memory.mem'') = Some (snd (tk_image tk d))"
    using k f3(1) w2 by (auto simp: w1_def)
qed

lemma write_record_frame:
  assumes "write_record E wr u dir r w = (x, w')" and "snapshot_dir agent name = Inr dir"
  shows "\<not> below dir q \<Longrightarrow> vh_files w' q = vh_files w q"
    and "vh_dirs w' = vh_dirs w" and "vh_procs w' = vh_procs w" and "vh_vm w' = vh_vm w" and "vh_paused w' = vh_paused w"
    and "x = None \<Longrightarrow> vh_files w' = (vh_files w)(dir @ ''/snapshot.json'' \<mapsto> se_show E r @ [newline_byte])"
    and "wr = WriteDone \<Longrightarrow> x = None"
  using assms(1) unfolding write_record_def in_dir_parts [OF assms(2)] by (auto split: write_outcome.splits)

lemma remove_dir_frame [simp]: "\<not> below dir q \<Longrightarrow> vh_files (remove_dir_all goes dir w) q = vh_files w q"
  "vh_paused (remove_dir_all goes dir w) = vh_paused w" "vh_procs (remove_dir_all goes dir w) = vh_procs w"
  by (simp_all add: remove_dir_all_def)

text \<open>Every way of taking a snapshot once its directory exists: the pause is refused, something fails and the directory goes,
  the record is not written, or all is there.\<close>

lemma take_cases:
  assumes "take_firecracker_snapshot E tk agent name w = (r, w')" and "firecracker_metadata E agent w = Inr m"
    and "snapshot_dir agent name = Inr dir"
  obtains (early) e where "r = Inl e" "vh_files w' = vh_files w" "vh_paused w' = vh_paused w"
      "vh_dirs w' \<subseteq> insert (path_join agent ''snapshots'') (vh_dirs w)"
  | (gone) e v where "r = Inl e" "w' = remove_dir_all (tk_goes tk) dir v" "\<not> path_exists w dir"
      "\<And>q. q \<noteq> fm_rootfs_path m \<Longrightarrow> \<not> below dir q \<Longrightarrow> vh_files v q = vh_files w q"
      "vh_dirs v \<subseteq> insert dir (insert (path_join agent ''snapshots'') (vh_dirs w))"
      "vh_paused v \<longrightarrow> vh_paused w \<or> fst (tk_pause tk) \<and> (\<not> snd (tk_pause tk) \<or> \<not> fst (tk_resume tk))"
  | (unrecorded) e where "r = Inl e" "tk_write tk \<noteq> WriteDone"
  | (taken) w3 w4 w7 :: vm_host where "r = Inr (full_record tk dir name)" "snd (tk_pause tk)" "snd (tk_resume tk)"
      "fst (tk_pause tk) \<Longrightarrow> vh_paused w3" "\<And>q. q \<noteq> fm_rootfs_path m \<Longrightarrow> vh_files w3 q = vh_files w q"
      "create_and_copy tk m dir w3 = (None, w4)" "\<And>q. q \<noteq> fm_rootfs_path m \<Longrightarrow> vh_files w7 q = vh_files w4 q"
      "vh_files w' = (vh_files w7)(dir @ ''/snapshot.json'' \<mapsto> se_show E (full_record tk dir name) @ [newline_byte])"
proof -
  obtain r1 w1 where 1: "create_new_snapshot_dir (fst (tk_mkdir tk)) (snd (tk_mkdir tk)) agent name w = (r1, w1)" by force
  note f1 = create_dir_cases [OF 1 assms(3)]
  show ?thesis
  proof (cases r1)
    case (Inl e)
    then have "r = Inl e" "w' = w1" using assms(1,2) 1 by (simp_all add: take_firecracker_snapshot_def)
    then show ?thesis using early f1 Inl by blast
  next
    case (Inr x)
    then have x: "r1 = Inr dir" "\<not> path_exists w dir" using f1 by auto
    define w3 where "w3 = guest_writes (tk_guest tk 0) (fm_rootfs_path m) (if fst (tk_pause tk) then w1\<lparr>vh_paused := True\<rparr> else w1)"
    have 3: "\<And>q. q \<noteq> fm_rootfs_path m \<Longrightarrow> vh_files w3 q = vh_files w q" "vh_dirs w3 = vh_dirs w1"
      "vh_paused w3 = (fst (tk_pause tk) \<or> vh_paused w)"
      using f1 by (auto simp: w3_def)
    obtain k w4 where 4: "create_and_copy tk m dir w3 = (k, w4)" by force
    note f4 = create_and_copy_frame [OF 4 assms(3)]
    define w5 where "w5 = guest_writes (tk_guest tk 2) (fm_rootfs_path m) w4"
    define w7 where "w7 = guest_writes (tk_guest tk 3) (fm_rootfs_path m) (if fst (tk_resume tk) then w5\<lparr>vh_paused := False\<rparr> else w5)"
    have 7: "\<And>q. q \<noteq> fm_rootfs_path m \<Longrightarrow> vh_files w7 q = vh_files w4 q" "vh_dirs w7 = vh_dirs w1"
      "vh_paused w7 = (\<not> fst (tk_resume tk) \<and> (fst (tk_pause tk) \<or> vh_paused w))"
      using 3 f4 by (auto simp: w7_def w5_def)
    let ?resumed = "if snd (tk_resume tk) then None else Some (SystemCall ''resume'')"
    obtain x8 w8 where 8: "write_record E (tk_write tk) (tk_uuid tk) dir (full_record tk dir name) w7 = (x8, w8)" by force
    note f8 = write_record_frame [OF 8 assms(3)]
    have c: "(r, w') = (if \<not> snd (tk_pause tk) then (Inl (SystemCall ''pause''), remove_dir_all (tk_goes tk) dir w3)
        else case reconcile_firecracker_snapshot_resume k ?resumed of
            Some e \<Rightarrow> (Inl e, remove_dir_all (tk_goes tk) dir w7)
          | None \<Rightarrow> (case x8 of Some e \<Rightarrow> (Inl e, w8) | None \<Rightarrow> (Inr (full_record tk dir name), w8)))"
      using assms(1) unfolding take_firecracker_snapshot_def assms(2) sum.case 1 x(1) prod.case Let_def w3_def [symmetric] 4
        w5_def [symmetric] w7_def [symmetric] 8 by (auto split: option.splits if_splits)
    show ?thesis
    proof (cases "snd (tk_pause tk)")
      case False
      then have "r = Inl (SystemCall ''pause'')" "w' = remove_dir_all (tk_goes tk) dir w3" using c by simp_all
      then show ?thesis using gone [of _ w3] x(2) 3 f1 False by auto
    next
      case True
      show ?thesis
      proof (cases "reconcile_firecracker_snapshot_resume k ?resumed")
        case (Some e)
        then have "r = Inl e" "w' = remove_dir_all (tk_goes tk) dir w7" using c True by simp_all
        then show ?thesis using gone [of e w7] x(2) 3(1) 7 f1 f4(1) by auto
      next
        case None
        then have k: "k = None" "snd (tk_resume tk)" by (cases k; auto split: if_splits)+
        show ?thesis
        proof (cases x8)
          case (Some e)
          then show ?thesis using unrecorded c True None f8(7) by auto
        next
          case x8: None
          then have "r = Inr (full_record tk dir name)" "w' = w8" using c True None by simp_all
          then show ?thesis using taken [of w3 w4 w7] True k 3 4 7(1) f8(6) [OF x8] by simp
        qed
      qed
    qed
  qed
qed

text \<open>What a whole restore does.\<close>

lemma restore_steps:
  assumes "restore_firecracker_snapshot E re agent name w = (r, w')" and "firecracker_metadata E agent w = Inr m"
    and "vh_files w (fm_rootfs_path m) = Some old" and "backup_of (rp_uuid (re_replace re)) (fm_rootfs_path m) = Some b"
    and "distinct (restore_files m b)"
  shows "q \<notin> set (restore_files m b) \<Longrightarrow> vh_files w' q = vh_files w q"
    and "case r of
       Inl e \<Rightarrow> vh_files w' (fm_rootfs_path m) = Some old \<or> vh_files w' b = Some old \<or> guest_runs w'
     | Inr rec \<Rightarrow> vh_files w' b = None \<and> (\<exists>dir disk. snapshot_dir agent name = Inr dir \<and> read_record E dir w = Inr rec \<and>
         snapshot_component_path E dir (sn_disk_path rec) ''rootfs.ext4'' w = Inr disk \<and>
         (disk \<notin> set (restore_files m b) \<longrightarrow>
           (\<exists>d. vh_files w disk = Some d \<and> vh_files w' (fm_rootfs_path m) \<in> {Some d, Some (re_guest re d)})))"
proof -
  show "vh_files w' q = vh_files w q" if q: "q \<notin> set (restore_files m b)"
    using assms(1,2)
  proof (cases rule: restore_cases)
    case (stuck e)
    then show ?thesis using stop_frame(1) [OF stuck(2)] q by (auto simp: restore_files_def)
  next
    case (goes dir rec disk w1)
    have same: "vh_files w1 p = vh_files w p" if "p \<notin> {fm_pid m, fm_socket m}" for p using stop_frame(1) [OF goes(5) that] .
    have "vh_files w1 (fm_rootfs_path m) = Some old" using same assms(3,5) by (auto simp: restore_files_def)
    then show ?thesis using finish_steps [OF goes(6) _ assms(4,5)] same [of q] q by (auto simp: restore_files_def)
  qed simp
  show "case r of
       Inl e \<Rightarrow> vh_files w' (fm_rootfs_path m) = Some old \<or> vh_files w' b = Some old \<or> guest_runs w'
     | Inr rec \<Rightarrow> vh_files w' b = None \<and> (\<exists>dir disk. snapshot_dir agent name = Inr dir \<and> read_record E dir w = Inr rec \<and>
         snapshot_component_path E dir (sn_disk_path rec) ''rootfs.ext4'' w = Inr disk \<and>
         (disk \<notin> set (restore_files m b) \<longrightarrow>
           (\<exists>d. vh_files w disk = Some d \<and> vh_files w' (fm_rootfs_path m) \<in> {Some d, Some (re_guest re d)})))"
    using assms(1,2)
  proof (cases rule: restore_cases)
    case (stuck e)
    then show ?thesis using stop_frame(1) [OF stuck(2)] assms(3,5) by (auto simp: restore_files_def)
  next
    case (goes dir rec disk w1)
    have same: "vh_files w1 p = vh_files w p" if "p \<notin> {fm_pid m, fm_socket m}" for p using stop_frame(1) [OF goes(5) that] .
    have root: "vh_files w1 (fm_rootfs_path m) = Some old" using same assms(3,5) by (auto simp: restore_files_def)
    have "disk \<notin> set (restore_files m b) \<Longrightarrow> vh_files w1 disk = vh_files w disk" using same by (auto simp: restore_files_def)
    then show ?thesis using finish_steps [OF goes(6) root assms(4,5)] goes(1,2,4) by (cases r) auto
  qed (use assms(3) in auto)
qed

section \<open>Properties\<close>

text \<open>
  C21. A restore never loses the disk it replaces: whatever fails, and wherever a copy breaks off, the old content is at its place or in
  the backup, unless the restore succeeded (then the disk is the snapshot's, and the backup is gone) or a guest that the second stop did not
  end still runs on the disk. The snapshot and every other file are left alone.
\<close>
theorem restore_keeps_disk:
  assumes "restore_firecracker_snapshot E re agent name w = (r, w')" and "firecracker_metadata E agent w = Inr m"
    and "vh_files w (fm_rootfs_path m) = Some old" and "backup_of (rp_uuid (re_replace re)) (fm_rootfs_path m) = Some b"
    and "distinct (restore_files m b)" and "q \<notin> set (restore_files m b)"
  shows "vh_files w' q = vh_files w q \<and>
    (case r of
       Inl e \<Rightarrow> vh_files w' (fm_rootfs_path m) = Some old \<or> vh_files w' b = Some old \<or> guest_runs w'
     | Inr rec \<Rightarrow> vh_files w' b = None \<and> (\<exists>dir disk. snapshot_dir agent name = Inr dir \<and>
         snapshot_component_path E dir (sn_disk_path rec) ''rootfs.ext4'' w = Inr disk \<and>
         (disk \<notin> set (restore_files m b) \<longrightarrow>
           (\<exists>d. vh_files w disk = Some d \<and> vh_files w' (fm_rootfs_path m) \<in> {Some d, Some (re_guest re d)}))))"
  using restore_steps [OF assms(1-5)] assms(6) by (cases r) auto


text \<open>
  A snapshot that could not be taken leaves nothing: when the clean-up works, every file but the guest's own disk is as before and
  no directory is new but the one that holds the snapshots; an existing snapshot of that name is untouched. The guest is left paused only when it was,
  when resuming failed, or when the pause took effect although the call was reported to fail.
\<close>
theorem failed_take_clean:
  assumes "take_firecracker_snapshot E tk agent name w = (Inl e, w')" and "firecracker_metadata E agent w = Inr m"
    and "snapshot_dir agent name = Inr dir" and "\<forall>p. tk_goes tk p" and "tk_write tk = WriteDone"
    and "\<not> path_exists w dir \<longrightarrow> (\<forall>p. below dir p \<longrightarrow> \<not> path_exists w p)" and "q \<noteq> fm_rootfs_path m"
  shows "vh_files w' q = vh_files w q \<and> vh_dirs w' \<subseteq> insert (path_join agent ''snapshots'') (vh_dirs w) \<and>
    (vh_paused w' \<longrightarrow> vh_paused w \<or> fst (tk_pause tk) \<and> (\<not> snd (tk_pause tk) \<or> \<not> fst (tk_resume tk)))"
  using assms(1-3)
proof (cases rule: take_cases)
  case (gone e' v)
  have "below dir q \<Longrightarrow> vh_files w q = None" using assms(6) gone(3) unfolding path_exists_def by blast
  moreover have "vh_files w' q = (if below dir q then None else vh_files v q)"
    unfolding gone(2) remove_dir_all_def using assms(4) by simp
  ultimately have "vh_files w' q = vh_files w q" using gone(4) [OF assms(7)] by (cases "below dir q") simp_all
  moreover have "vh_dirs w' \<subseteq> insert (path_join agent ''snapshots'') (vh_dirs w)"
    using gone(2,5) assms(4) by (auto simp: remove_dir_all_def)
  ultimately show ?thesis using gone(2,6) by simp
next
  case early
  then show ?thesis by simp
next
  case unrecorded
  then show ?thesis using assms(5) by blast
qed simp

text \<open>
  Stopping the VM ends at most the live process whose id is in the pid file, removes no file but that one and the socket, and when it succeeds the
  process and the socket are gone; a socket that answers without such a process stops it before anything is touched.
\<close>
theorem stop_confined:
  assumes "stop_firecracker_process so m w = (r, w')"
  shows "(vh_procs w' = vh_procs w \<or>
      (\<exists>p\<in>vh_procs w. read_firecracker_pid (fm_pid m) w = Inr (Some p) \<and> vh_procs w' = vh_procs w - {p})) \<and>
    (\<forall>q. q \<noteq> fm_pid m \<and> q \<noteq> fm_socket m \<longrightarrow> vh_files w' q = vh_files w q) \<and>
    (r = None \<longrightarrow> vh_files w' (fm_socket m) = None \<and> (\<forall>p. read_firecracker_pid (fm_pid m) w = Inr (Some p) \<longrightarrow> p \<notin> vh_procs w')) \<and>
    ((\<forall>p. read_firecracker_pid (fm_pid m) w = Inr (Some p) \<longrightarrow> p \<notin> vh_procs w) \<and> path_exists w (fm_socket m) \<and> so_answers so \<longrightarrow>
       w' = w \<and> r \<noteq> None)"
proof -
  have frame: "\<forall>q. q \<noteq> fm_pid m \<and> q \<noteq> fm_socket m \<longrightarrow> vh_files w' q = vh_files w q" using stop_frame(1) [OF assms] by simp
  from assms show ?thesis
  proof (cases rule: stop_cases)
    case (unstopped p)
    then show ?thesis using stop_tracked_frame(5) [OF unstopped(3)] frame by auto
  next
    case (stopped p w1)
    then have "vh_procs w' = vh_procs w - {p}" using stop_tracked_frame(6) remove_pair_frame(4) by metis
    then show ?thesis using stopped(1,2) remove_pair_frame(2) [OF stopped(4)] frame by auto
  next
    case (stale pid)
    then show ?thesis using remove_pair_frame(2,4) [OF stale(4)] frame by auto
  next
    case idle
    then show ?thesis by (simp add: path_exists_def)
  qed simp
qed

text \<open>
  What a restore removes and signals lies in the agent's own state directory: the socket and the pid file of the metadata are, after resolving \<open>.\<close>
  and \<open>..\<close>, below that directory, and the disk it overwrites is the one the specification names.
\<close>
theorem metadata_confined:
  assumes "firecracker_metadata E agent w = Inr m"
  shows "\<exists>root spec fc. absolute_normalized_path (se_cwd E) (path_join agent ''state'') = Inr root \<and>
    load_agent_spec E agent w = Inr spec \<and> vm_firecracker (as_vm spec) = Some fc \<and>
    absolute_normalized_path (se_cwd E) (fm_rootfs_path m) = absolute_normalized_path (se_cwd E) (fc_rootfs_image fc) \<and>
    (\<forall>p\<in>{fm_socket m, fm_pid m}. prefix (path_parts root) (path_parts p) \<and> ''..'' \<notin> set (path_parts p))"
proof -
  let ?state = "path_join agent ''state''"
  let ?M = "Option.bind (vh_files w (path_join ?state ''firecracker-metadata.json'')) (se_object E)"
  let ?C = "Option.bind (vh_files w (path_join ?state ''firecracker-config.json'')) (se_drive E)"
  obtain spec jv drive where s0: "load_agent_spec E agent w = Inr spec" "?M = Some jv" "?C = Some drive"
    using assms unfolding firecracker_metadata_def Let_def by (cases ?M; cases ?C) (auto simp: bind_result_Inr)
  obtain socket pid where s1: "state_metadata_path (se_cwd E) ?state jv ''socket'' = Inr socket"
      "state_metadata_path (se_cwd E) ?state jv ''pid'' = Inr pid"
    using assms unfolding firecracker_metadata_def Let_def s0 bind_result_simps option.case by (auto simp: bind_result_Inr)
  obtain rootfs where r: "drive = Some rootfs"
    using assms unfolding firecracker_metadata_def Let_def s0 s1 bind_result_simps option.case by (cases drive) simp_all
  have v: "validate_firecracker_rootfs_path (se_cwd E) spec rootfs = None"
    using assms unfolding firecracker_metadata_def Let_def s0 s1 r bind_result_simps option.case
    by (cases "validate_firecracker_rootfs_path (se_cwd E) spec rootfs") simp_all
  have "fm_socket m = socket" "fm_pid m = pid" "fm_rootfs_path m = rootfs"
    using assms unfolding firecracker_metadata_def Let_def s0 s1 r bind_result_simps option.case v by auto
  then have s: "load_agent_spec E agent w = Inr spec"
      "state_metadata_path (se_cwd E) ?state jv ''socket'' = Inr (fm_socket m)"
      "state_metadata_path (se_cwd E) ?state jv ''pid'' = Inr (fm_pid m)"
      "validate_firecracker_rootfs_path (se_cwd E) spec (fm_rootfs_path m) = None"
    using s0(1) s1 v by simp_all
  obtain fc x where fc: "vm_firecracker (as_vm spec) = Some fc" "absolute_normalized_path (se_cwd E) (fc_rootfs_image fc) = Inr x"
      "absolute_normalized_path (se_cwd E) (fm_rootfs_path m) = Inr x"
    using s(4) by (auto simp: validate_firecracker_rootfs_path_def split: option.splits sum.splits if_splits)
  show ?thesis using s(1) fc state_path_confined [OF s(2)] state_path_confined [OF s(3)] by auto
qed

section \<open>Runs on small inputs\<close>

definition demo_snapshot_env :: snapshot_env where
  "demo_snapshot_env = \<lparr> se_cwd = ''/'', se_yaml = (\<lambda>_. Some demo_agent),
     se_object = (\<lambda>_. Some (\<lambda>k. if k = ''socket'' then Some ''/a/state/../state/s'' else if k = ''pid'' then Some ''/a/state/p'' else None)),
     se_drive = (\<lambda>_. Some (Some ''/r'')),
     se_record = (\<lambda>_. Some \<lparr> sn_name = ''n'', sn_provider = Firecracker, sn_kind = FirecrackerFull, sn_created_at = ''now'',
       sn_state_path = Some ''/a/snapshots/n/vm-state.snap'', sn_memory_path = Some ''/a/snapshots/n/memory.mem'',
       sn_disk_path = Some ''/a/snapshots/n/rootfs.ext4'' \<rparr>),
     se_show = (\<lambda>_. ''record''), se_canon = Some \<rparr>"

definition demo_files :: firecracker_files where
  "demo_files = \<lparr> fm_socket = ''/a/state/s'', fm_pid = ''/a/state/p'', fm_rootfs_path = ''/r'',
     fm_stdout_log = ''/a/state/firecracker.stdout.log'', fm_stderr_log = ''/a/state/firecracker.stderr.log'' \<rparr>"

definition demo_vm_host :: vm_host where
  "demo_vm_host = \<lparr> vh_files = [''/a/MATURANA.md'' \<mapsto> ''---'' @ [newline_byte] @ ''a'' @ [newline_byte] @ ''---'',
       ''/a/state/firecracker-metadata.json'' \<mapsto> ''m'', ''/a/state/firecracker-config.json'' \<mapsto> ''c'', ''/r'' \<mapsto> ''disk''],
     vh_dirs = {''/a''}, vh_procs = {7}, vh_vm = Some 7, vh_paused = False \<rparr>"

definition demo_take :: "bool \<times> bool \<Rightarrow> take_env" where
  "demo_take pause = \<lparr> tk_mkdir = (True, True), tk_pause = pause, tk_image = (\<lambda>d. (''state '' @ d, ''memory '' @ d)), tk_create = None,
     tk_copy = CopyDone, tk_resume = (True, True), tk_goes = (\<lambda>_. True), tk_now = ''now'', tk_write = WriteDone, tk_uuid = ''u'',
     tk_guest = (\<lambda>i d. d @ ''!'') \<rparr>"

definition demo_stop :: stop_env where
  "demo_stop = \<lparr> so_probe = True, so_answers = False, so_term = True, so_term_wait = Some True, so_kill = True, so_kill_wait = Some True,
     so_gone = True, so_remove_pid = True, so_remove_socket = True \<rparr>"

definition demo_restore :: "bool \<Rightarrow> restore_env" where
  "demo_restore loads = \<lparr> re_stop = demo_stop, re_replace = \<lparr> rp_uuid = ''u'', rp_backup = CopyDone, rp_restore = CopyDone, rp_rollback = (CopyDone, True) \<rparr>,
     re_start = \<lparr> st_stop = demo_stop, st_logs = (True, True), st_spawn = (if loads then Some 9 else None), st_write_pid = None, st_socket = True \<rparr>,
     re_ready = [False, True], re_load = (True, True), re_guest = (\<lambda>d. d @ ''?''), re_stop_again = demo_stop,
     re_rollback = (CopyTorn ''di'', True), re_cleanup = True, re_late_guest = (\<lambda>d. d) \<rparr>"

lemma demo_metadata: "firecracker_metadata demo_snapshot_env ''/a'' demo_vm_host = Inr demo_files"
  by code_simp

text \<open>A host some time after the snapshot was taken.\<close>

definition demo_later :: vm_host where
  "demo_later = demo_vm_host\<lparr>vh_files := (vh_files demo_vm_host)(''/a/snapshots/n/vm-state.snap'' \<mapsto> ''state disk'',
       ''/a/snapshots/n/memory.mem'' \<mapsto> ''memory disk'', ''/a/snapshots/n/rootfs.ext4'' \<mapsto> ''disk'', ''/r'' \<mapsto> ''new'',
       ''/a/snapshots/n/snapshot.json'' \<mapsto> ''record'' @ [newline_byte]), vh_procs := {}\<rparr>"

lemma demo_metadata_later: "firecracker_metadata demo_snapshot_env ''/a'' demo_later = Inr demo_files"
  by code_simp

theorem metadata_confined_witness:
  "\<exists>root spec fc. absolute_normalized_path (se_cwd demo_snapshot_env) (path_join ''/a'' ''state'') = Inr root \<and>
    load_agent_spec demo_snapshot_env ''/a'' demo_vm_host = Inr spec \<and> vm_firecracker (as_vm spec) = Some fc \<and>
    absolute_normalized_path (se_cwd demo_snapshot_env) (fm_rootfs_path demo_files) =
      absolute_normalized_path (se_cwd demo_snapshot_env) (fc_rootfs_image fc) \<and>
    prefix (path_parts root) (path_parts (fm_socket demo_files)) \<and> ''..'' \<notin> set (path_parts (fm_socket demo_files))"
  using metadata_confined [OF demo_metadata] by auto

theorem stop_confined_witness:
  "vh_procs (snd (stop_firecracker_process demo_stop demo_files (demo_vm_host\<lparr>vh_files := [''/a/state/p'' \<mapsto> ''7'']\<rparr>))) = {}"
proof -
  have t: "trim_text ''7'' = ''7''" and v: "digits_val ''7'' = 7" by code_simp+
  have "parse_firecracker_pid ''7'' = Inr (Some 7)"
    using v by (simp add: parse_firecracker_pid_def Let_def t parse_nat_below_def is_digit_def)
  then have r: "stop_firecracker_process demo_stop demo_files (demo_vm_host\<lparr>vh_files := [''/a/state/p'' \<mapsto> ''7'']\<rparr>) =
      (None, demo_vm_host\<lparr>vh_files := Map.empty, vh_procs := {}\<rparr>)"
    and p: "read_firecracker_pid (fm_pid demo_files) (demo_vm_host\<lparr>vh_files := [''/a/state/p'' \<mapsto> ''7'']\<rparr>) = Inr (Some 7)"
    by (simp_all add: stop_firecracker_process_def read_firecracker_pid_def demo_files_def demo_vm_host_def demo_stop_def Let_def
        stop_tracked_def remove_pair_def remove_file_if_present_def path_exists_def)
  from stop_confined [OF r] p show ?thesis by (simp add: r)
qed

theorem failed_take_clean_witness:
  "vh_paused (snd (take_firecracker_snapshot demo_snapshot_env (demo_take (True, False)) ''/a'' ''n'' demo_vm_host)) \<and>
   vh_files (snd (take_firecracker_snapshot demo_snapshot_env (demo_take (True, False)) ''/a'' ''n'' demo_vm_host)) ''/a/MATURANA.md'' =
     vh_files demo_vm_host ''/a/MATURANA.md''"
proof -
  obtain w' where t: "take_firecracker_snapshot demo_snapshot_env (demo_take (True, False)) ''/a'' ''n'' demo_vm_host =
      (Inl (SystemCall ''pause''), w')" "vh_paused w'"
  proof
    let ?t = "take_firecracker_snapshot demo_snapshot_env (demo_take (True, False)) ''/a'' ''n'' demo_vm_host"
    have "fst ?t = Inl (SystemCall ''pause'')" by code_simp
    then show "?t = (Inl (SystemCall ''pause''), snd ?t)" by (metis prod.collapse)
    show "vh_paused (snd ?t)" by code_simp
  qed
  have d: "snapshot_dir ''/a'' ''n'' = Inr ''/a/snapshots/n''" by code_simp
  let ?ps = "[''/a'', ''/r'', ''/a/MATURANA.md'', ''/a/state/firecracker-metadata.json'', ''/a/state/firecracker-config.json'']"
  have "path_exists demo_vm_host p \<Longrightarrow> p \<in> set ?ps" for p
    unfolding path_exists_def demo_vm_host_def vm_host.select_convs fun_upd_apply by (simp split: if_splits)
  moreover have "list_all (\<lambda>p. \<not> below ''/a/snapshots/n'' p) ?ps" by code_simp
  ultimately have "below ''/a/snapshots/n'' p \<Longrightarrow> \<not> path_exists demo_vm_host p" for p unfolding list_all_iff by blast
  then have "vh_files w' ''/a/MATURANA.md'' = vh_files demo_vm_host ''/a/MATURANA.md''"
    using failed_take_clean [OF t(1) demo_metadata d, of "''/a/MATURANA.md''"] by (simp add: demo_take_def demo_files_def)
  then show ?thesis using t by simp
qed


text \<open>A restore that cannot start the VM and cannot roll back either: the backup is there.\<close>

theorem restore_keeps_disk_witness:
  "vh_files (snd (restore_firecracker_snapshot demo_snapshot_env (demo_restore False) ''/a'' ''n'' demo_later)) ''/r'' = Some ''di'' \<and>
   vh_files (snd (restore_firecracker_snapshot demo_snapshot_env (demo_restore False) ''/a'' ''n'' demo_later))
     ''/r.maturana-restore-backup-u'' = Some ''new''"
proof -
  obtain w' where r: "restore_firecracker_snapshot demo_snapshot_env (demo_restore False) ''/a'' ''n'' demo_later =
      (Inl (SystemCall ''spawn firecracker''), w')" "vh_files w' ''/r'' = Some ''di''" "\<not> guest_runs w'"
  proof
    let ?r = "restore_firecracker_snapshot demo_snapshot_env (demo_restore False) ''/a'' ''n'' demo_later"
    have "fst ?r = Inl (SystemCall ''spawn firecracker'')" by code_simp
    then show "?r = (Inl (SystemCall ''spawn firecracker''), snd ?r)" by (metis prod.collapse)
    show "vh_files (snd ?r) ''/r'' = Some ''di''" "\<not> guest_runs (snd ?r)" by code_simp+
  qed
  have b: "backup_of (rp_uuid (re_replace (demo_restore False))) (fm_rootfs_path demo_files) = Some ''/r.maturana-restore-backup-u''"
    and o: "vh_files demo_later (fm_rootfs_path demo_files) = Some ''new''"
    and x: "distinct (restore_files demo_files ''/r.maturana-restore-backup-u'')"
      "''/a/MATURANA.md'' \<notin> set (restore_files demo_files ''/r.maturana-restore-backup-u'')" by code_simp+
  have "fm_rootfs_path demo_files = ''/r''" by (simp add: demo_files_def)
  then show ?thesis using restore_keeps_disk [OF r(1) demo_metadata_later o b x] r by simp
qed

section \<open>A relative home\<close>

text \<open>
  With a relative home the record holds relative paths, which the restore resolves against the snapshot's own directory again: no
  snapshot taken there can be restored.
\<close>

lemma relative_home_unrestorable:
  assumes "snapshot_dir agent name = Inr dir" and "\<not> prefix ''/'' dir" and "read_record E dir w = Inr (full_record tk dir name)"
    and "\<not> path_exists w (dir @ CHR ''/'' # dir @ ''/vm-state.snap'')"
  shows "restore_firecracker_snapshot E re agent name w = (Inl (ComponentMissing (dir @ CHR ''/'' # dir @ ''/vm-state.snap'')), w)"
proof -
  have "\<not> prefix ''/'' (dir @ ''/vm-state.snap'')" using assms(2) snapshot_dir_end [OF assms(1)] by (cases dir) auto
  then have "path_join dir (dir @ ''/vm-state.snap'') = dir @ CHR ''/'' # dir @ ''/vm-state.snap''"
    using snapshot_dir_end [OF assms(1)] by (simp add: path_join_def)
  then show ?thesis using assms
    by (simp add: restore_firecracker_snapshot_def full_record_def validate_firecracker_restore_record_def snapshot_component_path_def
        in_dir_parts [OF assms(1)])
qed

end
