(* ===== verification/Web_Auth.thy ===== *)
theory Web_Auth
  imports Sessiond
begin

text \<open>
  The gate of the web console, \<open>crates/maturana-web/src/auth.rs\<close>: the login token, sessions by cookie, the
  middleware in front of every route, the required header of changing calls, and the origin check of the WebSocket
  upgrade (\<open>ws/mod.rs\<close>). Session ids are the environment; handlers behind the gate are one outcome.
\<close>

section \<open>Requests\<close>

record web_request =
  wq_method :: str
  wq_path :: str
  wq_headers :: "(str \<times> str) list" \<comment> \<open>names in lower case, as \<open>HeaderMap\<close> keeps them\<close>
  wq_login :: "str option" \<comment> \<open>the token of a login body; \<open>None\<close> when the JSON is bad\<close>

definition session_cookie_name :: str where "session_cookie_name = ''maturana_web_session''"
definition csrf_header :: str where "csrf_header = ''x-maturana-web''"

text \<open>\<open>HeaderValue::to_str\<close>: visible ASCII only.\<close>

definition header_text :: "str \<Rightarrow> str option" where
  "header_text v = (if list_all (\<lambda>c. byte_in 32 126 c \<or> c = CHR 0x09) v then Some v else None)"

definition header :: "str \<Rightarrow> web_request \<Rightarrow> str option" where
  "header name r = Option.bind (map_of (wq_headers r) name) header_text"

fun scan_cookies :: "str list \<Rightarrow> str option" where
  "scan_cookies [] = None"
| "scan_cookies (p # ps) =
     (case split_once CHR ''='' (trim_text p) of
        None \<Rightarrow> None
      | Some (name, v) \<Rightarrow> if name = session_cookie_name then Some (trim_text v) else scan_cookies ps)"

definition session_cookie :: "web_request \<Rightarrow> str option" where
  "session_cookie r = Option.bind (header ''cookie'' r) (\<lambda>raw. scan_cookies (split_on CHR '';'' raw))"

section \<open>Sessions\<close>

record web_state =
  ws_sessions :: "str \<rightharpoonup> timestamp"
  ws_login_token :: str

definition create_session :: "str \<Rightarrow> timestamp \<Rightarrow> web_state \<Rightarrow> web_state" where
  "create_session i now st = st\<lparr>ws_sessions := (ws_sessions st)(i \<mapsto> now)\<rparr>"

definition is_valid_session :: "str \<Rightarrow> web_state \<Rightarrow> bool" where
  "is_valid_session i st \<longleftrightarrow> ws_sessions st i \<noteq> None"

definition remove_session :: "str \<Rightarrow> web_state \<Rightarrow> web_state" where
  "remove_session i st = st\<lparr>ws_sessions := (ws_sessions st)(i := None)\<rparr>"

definition has_valid_session :: "web_state \<Rightarrow> web_request \<Rightarrow> bool" where
  "has_valid_session st r = (case session_cookie r of None \<Rightarrow> False | Some i \<Rightarrow> is_valid_session i st)"

text \<open>The token file: kept when it holds something, otherwise written anew.\<close>

definition ensure_web_token :: "str \<Rightarrow> str option \<Rightarrow> str \<times> str option" where
  "ensure_web_token fresh file =
     (let kept = trim_text (case file of Some t \<Rightarrow> t | None \<Rightarrow> [])
      in if kept \<noteq> [] then (kept, file) else (fresh, Some (fresh @ [newline_byte])))"

datatype web_outcome =
    LoggedIn str | BadToken | BadBody | LoggedOut "str option" | Unauthorized | ToLogin | MissingHeader | ForeignOrigin | Served

definition login :: "str \<Rightarrow> timestamp \<Rightarrow> web_request \<Rightarrow> web_state \<Rightarrow> web_outcome \<times> web_state" where
  "login fresh now r st =
     (case wq_login r of
        None \<Rightarrow> (BadBody, st)
      | Some t \<Rightarrow>
          if \<not> constant_time_eq (trim_text t) (ws_login_token st) then (BadToken, st)
          else (LoggedIn fresh, create_session fresh now st))"

definition logout :: "web_request \<Rightarrow> web_state \<Rightarrow> web_outcome \<times> web_state" where
  "logout r st =
     (case session_cookie r of None \<Rightarrow> (LoggedOut None, st) | Some i \<Rightarrow> (LoggedOut (Some i), remove_session i st))"

section \<open>The gate\<close>

definition public_path :: "str \<Rightarrow> bool" where
  "public_path p \<longleftrightarrow> p = ''/health'' \<or> p = ''/login'' \<or> prefix ''/assets/'' p"

definition mutating :: "str \<Rightarrow> bool" where
  "mutating m \<longleftrightarrow> m \<notin> {''GET'', ''HEAD'', ''OPTIONS''}"

text \<open>\<open>None\<close> lets the request through.\<close>

definition require_session :: "web_state \<Rightarrow> web_request \<Rightarrow> web_outcome option" where
  "require_session st r =
     (let p = wq_path r
      in if public_path p then None
         else if \<not> has_valid_session st r then Some (if prefix ''/api/'' p \<or> p = ''/ws'' then Unauthorized else ToLogin)
         else if mutating (wq_method r) \<and> prefix ''/api/'' p \<and> map_of (wq_headers r) csrf_header = None then Some MissingHeader
         else None)"

text \<open>
  \<open>Ipv4Addr\<close>: four decimal numbers below 256 without leading zeros. An IPv6 address holds a colon, which the host of an origin
  never does after the split.
\<close>

definition parse_octet :: "str \<Rightarrow> nat option" where
  "parse_octet s =
     (if s \<noteq> [] \<and> list_all is_digit s \<and> (length s = 1 \<or> hd s \<noteq> CHR ''0'') \<and> length s \<le> 3 \<and> digits_val s < 256
      then Some (digits_val s) else None)"

definition parse_ipv4 :: "str \<Rightarrow> (nat \<times> nat) option" where
  "parse_ipv4 s =
     (case map parse_octet (split_on CHR ''.'' s) of [Some a, Some b, Some c, Some d] \<Rightarrow> Some (a, b) | _ \<Rightarrow> None)"

definition is_trusted_network_host :: "str \<Rightarrow> bool" where
  "is_trusted_network_host host \<longleftrightarrow>
     (if eq_ignore_case host ''localhost'' then True
      else case parse_ipv4 host of
          Some (a, b) \<Rightarrow> a = 127 \<or> a = 10 \<or> a = 172 \<and> 16 \<le> b \<and> b \<le> 31 \<or> a = 192 \<and> b = 168 \<or> a = 100 \<and> 64 \<le> b \<and> b \<le> 127
        | None \<Rightarrow> CHR ''.'' \<notin> set host \<or> suffix ''.ts.net'' host \<or> suffix ''.tailscale.net'' host)"

definition origin_host :: "str \<Rightarrow> str" where
  "origin_host origin =
     hd (split_on CHR '':'' (case or_else (strip_prefix ''http://'' origin) (strip_prefix ''https://'' origin) of Some a \<Rightarrow> a | None \<Rightarrow> origin))"

definition origin_matches_host :: "web_request \<Rightarrow> bool" where
  "origin_matches_host r =
     (case header ''origin'' r of
        None \<Rightarrow> True
      | Some origin \<Rightarrow>
          (case header ''host'' r of
             Some h \<Rightarrow> eq_ignore_case (origin_host origin) (hd (split_on CHR '':'' h)) | None \<Rightarrow> False)
          \<or> is_trusted_network_host (origin_host origin))"

definition ws_upgrade :: "web_state \<Rightarrow> web_request \<Rightarrow> web_outcome" where
  "ws_upgrade st r =
     (if \<not> has_valid_session st r then Unauthorized else if \<not> origin_matches_host r then ForeignOrigin else Served)"

text \<open>The router behind the gate; every other route is \<open>Served\<close>.\<close>

definition serve_web :: "str \<Rightarrow> timestamp \<Rightarrow> web_request \<Rightarrow> web_state \<Rightarrow> web_outcome \<times> web_state" where
  "serve_web fresh now r st =
     (case require_session st r of
        Some refused \<Rightarrow> (refused, st)
      | None \<Rightarrow>
          if wq_path r = ''/login'' \<and> wq_method r = ''POST'' then login fresh now r st
          else if wq_path r = ''/logout'' \<and> wq_method r = ''POST'' then logout r st
          else if wq_path r = ''/ws'' \<and> wq_method r = ''GET'' then (ws_upgrade st r, st)
          else (Served, st))"

record web_event =
  we_request :: web_request
  we_outcome :: web_outcome

text \<open>A run of the console: requests with the ids and times of the logins they may cause.\<close>

fun web_run :: "(str \<times> timestamp \<times> web_request) list \<Rightarrow> web_state \<Rightarrow> web_event list \<times> web_state" where
  "web_run [] st = ([], st)"
| "web_run ((fresh, now, r) # rs) st =
     (case serve_web fresh now r st of
        (o1, st1) \<Rightarrow> (case web_run rs st1 of (es, st2) \<Rightarrow> (\<lparr> we_request = r, we_outcome = o1 \<rparr> # es, st2)))"

section \<open>What a session stands for\<close>

text \<open>Some event of the run issued the id, and no later one ended it.\<close>

definition live_session :: "web_event list \<Rightarrow> str \<Rightarrow> bool" where
  "live_session es i \<longleftrightarrow> (\<exists>k<length es. we_outcome (es ! k) = LoggedIn i \<and>
     (\<forall>j. k < j \<and> j < length es \<longrightarrow> we_outcome (es ! j) \<noteq> LoggedOut (Some i)))"

lemma live_nil [simp]: "\<not> live_session [] i"
  by (simp add: live_session_def)

lemma live_snoc: "live_session (es @ [e]) i \<longleftrightarrow>
   we_outcome e = LoggedIn i \<or> live_session es i \<and> we_outcome e \<noteq> LoggedOut (Some i)"
proof
  assume "live_session (es @ [e]) i"
  then obtain k where k: "k < length (es @ [e])" "we_outcome ((es @ [e]) ! k) = LoggedIn i"
    "\<And>j. k < j \<Longrightarrow> j < length (es @ [e]) \<Longrightarrow> we_outcome ((es @ [e]) ! j) \<noteq> LoggedOut (Some i)"
    unfolding live_session_def by blast
  show "we_outcome e = LoggedIn i \<or> live_session es i \<and> we_outcome e \<noteq> LoggedOut (Some i)"
  proof (cases "k = length es")
    case False
    then have l: "k < length es" using k(1) by simp
    have "we_outcome (es ! j) \<noteq> LoggedOut (Some i)" if "k < j" "j < length es" for j
      using k(3) [of j] that by (simp add: nth_append)
    moreover have "we_outcome e \<noteq> LoggedOut (Some i)" using k(3) [of "length es"] l by simp
    ultimately show ?thesis using l k(2) unfolding live_session_def by (auto simp: nth_append)
  qed (use k(2) in simp)
next
  assume "we_outcome e = LoggedIn i \<or> live_session es i \<and> we_outcome e \<noteq> LoggedOut (Some i)"
  then show "live_session (es @ [e]) i"
  proof
    assume "we_outcome e = LoggedIn i"
    then show ?thesis unfolding live_session_def by (intro exI [of _ "length es"]) auto
  next
    assume *: "live_session es i \<and> we_outcome e \<noteq> LoggedOut (Some i)"
    then obtain k where k: "k < length es" "we_outcome (es ! k) = LoggedIn i"
      "\<And>j. k < j \<Longrightarrow> j < length es \<Longrightarrow> we_outcome (es ! j) \<noteq> LoggedOut (Some i)"
      unfolding live_session_def by blast
    then show ?thesis unfolding live_session_def using *
      by (intro exI [of _ k]) (auto simp: nth_append less_Suc_eq)
  qed
qed

lemma serve_sessions:
  assumes "serve_web fresh now r st = (x, st')"
  shows "is_valid_session i st' \<longleftrightarrow> x = LoggedIn i \<or> is_valid_session i st \<and> x \<noteq> LoggedOut (Some i)"
    and "ws_login_token st' = ws_login_token st"
    and "x = LoggedIn i \<Longrightarrow> wq_path r = ''/login'' \<and> (\<exists>t. wq_login r = Some t \<and> trim_text t = ws_login_token st)"
    and "x = LoggedOut (Some i) \<Longrightarrow> session_cookie r = Some i \<and> is_valid_session i st"
  using assms
  by (auto simp: serve_web_def require_session_def has_valid_session_def login_def logout_def ws_upgrade_def create_session_def remove_session_def is_valid_session_def
      public_path_def Let_def split: if_splits option.splits)

lemma web_run_snoc: "web_run (rs @ [(fresh, now, r)]) st =
   (case web_run rs st of (es, st1) \<Rightarrow> (case serve_web fresh now r st1 of (x, st2) \<Rightarrow> (es @ [\<lparr> we_request = r, we_outcome = x \<rparr>], st2)))"
  by (induction rs arbitrary: st) (auto split: prod.splits)

text \<open>The sessions of the store are those a correct login opened and nobody closed since.\<close>

lemma run_sessions:
  assumes "web_run rs st = (es, st')" and "ws_sessions st = Map.empty"
  shows "(is_valid_session i st' \<longleftrightarrow> live_session es i) \<and> ws_login_token st' = ws_login_token st \<and>
    (\<forall>e\<in>set es. \<forall>i. we_outcome e = LoggedIn i \<longrightarrow>
      wq_path (we_request e) = ''/login'' \<and> (\<exists>t. wq_login (we_request e) = Some t \<and> trim_text t = ws_login_token st))"
  using assms(1)
proof (induction rs arbitrary: es st' i rule: rev_induct)
  case Nil
  then show ?case using assms(2) by (auto simp: is_valid_session_def)
next
  case (snoc x rs)
  obtain fresh now r where x: "x = (fresh, now, r)" by (metis prod_cases3)
  obtain es1 st1 where 1: "web_run rs st = (es1, st1)" by force
  obtain o2 st2 where 2: "serve_web fresh now r st1 = (o2, st2)" by force
  have es: "es = es1 @ [\<lparr> we_request = r, we_outcome = o2 \<rparr>]" "st' = st2" using snoc.prems by (simp_all add: x web_run_snoc 1 2)
  note IH = snoc.IH [OF 1] and S = serve_sessions [OF 2]
  have "is_valid_session i st' \<longleftrightarrow> live_session es i" using IH S(1) es by (simp add: live_snoc)
  then show ?case using IH S(2,3) es by auto
qed

section \<open>Properties\<close>

text \<open>
  C4. Nothing behind the gate is reached without the login token: in any run of requests from an empty store, a request for a path that is not
  public is served only if its cookie names a session that an earlier login with the right token opened and no logout closed since; and a changing
  call of the API only with the required header.
\<close>
theorem web_gate:
  assumes "ws_sessions st = Map.empty" and "web_run rs st = (es, st1)" and "serve_web fresh now r st1 = (Served, st2)"
    and "\<not> public_path (wq_path r)"
  shows "\<exists>i. session_cookie r = Some i \<and> live_session es i \<and>
    (\<exists>e\<in>set es. we_outcome e = LoggedIn i \<and> (\<exists>t. wq_login (we_request e) = Some t \<and> trim_text t = ws_login_token st)) \<and>
    (mutating (wq_method r) \<and> prefix ''/api/'' (wq_path r) \<longrightarrow> map_of (wq_headers r) csrf_header \<noteq> None)"
proof -
  have "require_session st1 r = None"
    using assms(3) by (auto simp: serve_web_def require_session_def Let_def split: option.splits if_splits)
  then have gate: "has_valid_session st1 r"
    "mutating (wq_method r) \<and> prefix ''/api/'' (wq_path r) \<longrightarrow> map_of (wq_headers r) csrf_header \<noteq> None"
    using assms(4) by (auto simp: require_session_def Let_def split: if_splits)
  then obtain i where i: "session_cookie r = Some i" "is_valid_session i st1" by (auto simp: has_valid_session_def split: option.splits)
  then have "live_session es i" using run_sessions [OF assms(2,1)] by blast
  moreover then obtain k where "k < length es" "we_outcome (es ! k) = LoggedIn i" unfolding live_session_def by blast
  then have "\<exists>e\<in>set es. we_outcome e = LoggedIn i \<and> (\<exists>t. wq_login (we_request e) = Some t \<and> trim_text t = ws_login_token st)"
    using run_sessions [OF assms(2,1)] by (metis nth_mem)
  ultimately show ?thesis using i(1) gate(2) by blast
qed

definition own_cookie :: "str \<Rightarrow> str \<Rightarrow> bool" where
  "own_cookie p v \<longleftrightarrow> (\<exists>u. split_once CHR ''='' (trim_text p) = Some (session_cookie_name, u) \<and> v = trim_text u)"

definition other_cookie :: "str \<Rightarrow> bool" where
  "other_cookie p \<longleftrightarrow> (\<exists>n w. split_once CHR ''='' (trim_text p) = Some (n, w) \<and> n \<noteq> session_cookie_name)"

lemma scan_skip: "\<forall>a\<in>set as. other_cookie a \<Longrightarrow> own_cookie p v \<Longrightarrow> scan_cookies (as @ p # bs) = Some v"
  by (induction as) (auto simp: other_cookie_def own_cookie_def)

lemma scan_found: "scan_cookies ps = Some v \<Longrightarrow> \<exists>as p bs. ps = as @ p # bs \<and> own_cookie p v \<and> (\<forall>a\<in>set as. other_cookie a)"
proof (induction ps)
  case (Cons p ps)
  then obtain n w where q: "split_once CHR ''='' (trim_text p) = Some (n, w)" by (auto split: option.splits)
  show ?case
  proof (cases "n = session_cookie_name")
    case True
    then have "own_cookie p v" using Cons.prems q by (simp add: own_cookie_def)
    then show ?thesis by (intro exI [of _ "[]"] exI [of _ p] exI [of _ ps]) simp
  next
    case False
    then obtain as p' bs where "ps = as @ p' # bs" "own_cookie p' v" "\<forall>a\<in>set as. other_cookie a" using Cons q by auto
    moreover have "other_cookie p" using q False by (auto simp: other_cookie_def)
    ultimately show ?thesis by (intro exI [of _ "p # as"] exI [of _ p'] exI [of _ bs]) simp
  qed
qed simp

text \<open>
  The session cookie of a request is found exactly when every cookie written before it has an equals sign: one that does not, which browsers
  do send, hides the session, and the operator is sent back to the login page for ever.
\<close>
theorem session_cookie_exact:
  "session_cookie r = Some v \<longleftrightarrow> (\<exists>raw as p bs. header ''cookie'' r = Some raw \<and> split_on CHR '';'' raw = as @ p # bs \<and> own_cookie p v \<and>
     (\<forall>a\<in>set as. other_cookie a))"
proof
  assume "session_cookie r = Some v"
  then obtain raw where "header ''cookie'' r = Some raw" "scan_cookies (split_on CHR '';'' raw) = Some v"
    by (cases "header ''cookie'' r") (auto simp: session_cookie_def)
  then show "\<exists>raw as p bs. header ''cookie'' r = Some raw \<and> split_on CHR '';'' raw = as @ p # bs \<and> own_cookie p v \<and> (\<forall>a\<in>set as. other_cookie a)"
    using scan_found by blast
qed (auto simp: session_cookie_def scan_skip)

text \<open>
  The origin check lets every IPv6 origin and the opaque origin through, though it means to refuse what is clearly external: cut at the first colon,
  the former is a single bracket, and neither has a dot.
\<close>

lemma dotless_trusted: "CHR ''.'' \<notin> set h \<Longrightarrow> is_trusted_network_host h"
  by (auto simp: is_trusted_network_host_def parse_ipv4_def split_on_plain split: option.split list.split)

lemma external_origins_trusted:
  "header ''origin'' r = Some ''null'' \<Longrightarrow> origin_matches_host r"
  "header ''origin'' r = Some (''http://['' @ CHR '':'' # rest) \<Longrightarrow> origin_matches_host r"
  "header ''origin'' r = Some (''https://['' @ a @ CHR '':'' # rest) \<Longrightarrow> CHR '':'' \<notin> set a \<Longrightarrow> CHR ''.'' \<notin> set a \<Longrightarrow> origin_matches_host r"
proof -
  have t: "header ''origin'' r = Some x \<Longrightarrow> CHR ''.'' \<notin> set (origin_host x) \<Longrightarrow> origin_matches_host r" for x
    using dotless_trusted by (simp add: origin_matches_host_def)
  have "origin_host ''null'' = ''null''" by code_simp
  then show "header ''origin'' r = Some ''null'' \<Longrightarrow> origin_matches_host r" using t by simp
  have "origin_host (''http://['' @ CHR '':'' # rest) = ''[''"
    using split_on_record [of "CHR '':''" "''[''" rest] by (simp add: origin_host_def or_else_def strip_prefix_def)
  then show "header ''origin'' r = Some (''http://['' @ CHR '':'' # rest) \<Longrightarrow> origin_matches_host r" using t by simp
  assume a: "CHR '':'' \<notin> set a" "CHR ''.'' \<notin> set a"
  have "origin_host (''https://['' @ a @ CHR '':'' # rest) = ''['' @ a"
    using split_on_record [of "CHR '':''" "''['' @ a" rest] a by (simp add: origin_host_def or_else_def strip_prefix_def)
  then show "header ''origin'' r = Some (''https://['' @ a @ CHR '':'' # rest) \<Longrightarrow> origin_matches_host r" using t a by simp
qed

section \<open>Runs on small inputs\<close>

definition demo_login :: web_request where
  "demo_login = \<lparr> wq_method = ''POST'', wq_path = ''/login'', wq_headers = [], wq_login = Some '' secret '' \<rparr>"

definition demo_call :: "str \<Rightarrow> web_request" where
  "demo_call cookie = \<lparr> wq_method = ''POST'', wq_path = ''/api/boards'', wq_headers = [(''cookie'', cookie), (''x-maturana-web'', ''1'')], wq_login = None \<rparr>"

theorem web_gate_witness:
  "session_cookie (demo_call ''a=b; maturana_web_session=s1'') = Some ''s1'' \<and> live_session [\<lparr> we_request = demo_login, we_outcome = LoggedIn ''s1'' \<rparr>] ''s1''"
proof -
  let ?st = "\<lparr> ws_sessions = Map.empty, ws_login_token = ''secret'' \<rparr>"
  let ?st1 = "\<lparr> ws_sessions = [''s1'' \<mapsto> 5], ws_login_token = ''secret'' \<rparr>"
  have t: "trim_text '' secret '' = ''secret''" and c: "session_cookie (demo_call ''a=b; maturana_web_session=s1'') = Some ''s1''"
    by code_simp+
  have run: "web_run [(''s1'', 5, demo_login)] ?st = ([\<lparr> we_request = demo_login, we_outcome = LoggedIn ''s1'' \<rparr>], ?st1)"
    by (simp add: serve_web_def require_session_def public_path_def demo_login_def login_def t create_session_def)
  have srv: "serve_web ''s2'' 6 (demo_call ''a=b; maturana_web_session=s1'') ?st1 = (Served, ?st1)"
    using c by (simp add: serve_web_def require_session_def has_valid_session_def is_valid_session_def public_path_def demo_call_def csrf_header_def Let_def)
  have "\<not> public_path (wq_path (demo_call ''a=b; maturana_web_session=s1''))" by code_simp
  then show ?thesis using web_gate [OF _ run srv] c by simp
qed

lemma hidden_session: "session_cookie (demo_call ''flag; maturana_web_session=s1'') = None"
  by code_simp

theorem session_cookie_exact_witness:
  "session_cookie (demo_call ''a=b; maturana_web_session=s1'') = Some ''s1''"
proof -
  have h: "header ''cookie'' (demo_call ''a=b; maturana_web_session=s1'') = Some ''a=b; maturana_web_session=s1''"
    "split_on CHR '';'' ''a=b; maturana_web_session=s1'' = [''a=b''] @ '' maturana_web_session=s1'' # []" by code_simp+
  have "split_once CHR ''='' (trim_text '' maturana_web_session=s1'') = Some (session_cookie_name, ''s1'') \<and> trim_text ''s1'' = ''s1''" by code_simp
  then have o: "own_cookie '' maturana_web_session=s1'' ''s1''" by (simp add: own_cookie_def)
  have "split_once CHR ''='' (trim_text ''a=b'') = Some (''a'', ''b'') \<and> ''a'' \<noteq> session_cookie_name" by code_simp
  then have "\<forall>a\<in>set [''a=b'']. other_cookie a" by (simp add: other_cookie_def)
  then show ?thesis using session_cookie_exact h o by blast
qed

end
