(* ===== verification/Plugins.thy ===== *)
theory Plugins
  imports Sessiond "HOL-Library.AList" "HOL-Library.List_Lexorder" "HOL-Library.Char_ord" "HOL-Library.Product_Lexorder"
begin

text \<open>
  Plugins: the manifest, its validation and the discovery of \<open>crates/maturana-plugin/src/lib.rs\<close>, and the
  enablement, assets, permissions, built-in commands and installation of \<open>crates/maturana-ops/src/plugins.rs\<close>.
  Directories are trees; a symbolic link says what lies behind it. TOML, JSON and the order in which a directory is read
  are the environment.
\<close>

section \<open>Directories\<close>

datatype found = Missing | Found bool "str option" \<comment> \<open>inside the plugin; the text of a file\<close>

datatype entry = FileE str | DirE "(str \<times> entry) list" | LinkE "(str list \<times> found) list"

fun look :: "entry \<Rightarrow> str list \<Rightarrow> found" where
  "look (FileE c) ps = (if ps = [] then Found True (Some c) else Missing)"
| "look (LinkE behind) ps = (case map_of behind ps of None \<Rightarrow> Missing | Some f \<Rightarrow> f)"
| "look (DirE es) [] = Found True None"
| "look (DirE es) (p # ps) = (case map_of es p of None \<Rightarrow> Missing | Some e \<Rightarrow> look e ps)"

section \<open>The manifest\<close>

record plugin_feature =
  pf_name :: str
  pf_kind :: str
  pf_description :: str
  pf_entrypoint :: "str option"
  pf_default_enabled :: bool

record plugin_asset =
  pa_name :: str
  pa_path :: str
  pa_description :: "str option"
  pa_feature :: "str option"

record plugin_command =
  pc_name :: str
  pc_description :: str
  pc_entrypoint :: str
  pc_feature :: "str option"

record plugin_permissions =
  pp_filesystem :: "str list"
  pp_egress :: "str list"
  pp_secrets :: "str list"

record plugin_manifest =
  pm_name :: str
  pm_version :: str
  pm_description :: str
  pm_features :: "plugin_feature list"
  pm_skills :: "plugin_asset list"
  pm_tools :: "plugin_asset list"
  pm_commands :: "plugin_command list"
  pm_permissions :: plugin_permissions

datatype manifest_error =
    UnsafeId str | EmptyVersion | DuplicateFeature str | DuplicateAsset str str | DuplicateCommand str | NotRelative str | NoSuchPath str
  | Escapes str | UnknownFeature str str | NotUnderCommands str | EmptyFilesystem | BadHost str | BadSecret str

definition check :: "bool \<Rightarrow> 'e \<Rightarrow> 'e list" where
  "check holds e = (if holds then [] else [e])"

definition safe_plugin_id :: "str \<Rightarrow> bool" where
  "safe_plugin_id v \<longleftrightarrow> trim_text v \<noteq> [] \<and> length v \<le> 128 \<and> \<not> contains ''..'' v \<and>
     list_all (\<lambda>c. is_ascii_alnum c \<or> c = CHR ''-'' \<or> c = CHR ''_'' \<or> c = CHR ''.'') v"

text \<open>The path is tried in the plugin and must end inside it.\<close>

definition validate_relative_path :: "str \<Rightarrow> str \<Rightarrow> entry \<Rightarrow> manifest_error list" where
  "validate_relative_path field v root =
     (if trim_text v = [] \<or> prefix ''/'' v \<or> ''..'' \<in> set (path_parts v) then [NotRelative field]
      else case look root (path_parts v) of
          Missing \<Rightarrow> [NoSuchPath field]
        | Found inside _ \<Rightarrow> check inside (Escapes field))"

text \<open>\<open>Path::components\<close> keeps a leading dot; \<open>starts_with\<close> compares components.\<close>

definition path_components :: "str \<Rightarrow> str list" where
  "path_components p = (if prefix ''/'' p then [''/''] else if p = ''.'' \<or> prefix ''./'' p then [''.''] else []) @ path_parts p"

definition validate_command_entrypoint :: "str \<Rightarrow> str \<Rightarrow> entry \<Rightarrow> str list \<Rightarrow> manifest_error list" where
  "validate_command_entrypoint field v root tool_paths =
     validate_relative_path field v root @
     check (prefix [''commands''] (path_components v) \<or> list_ex (\<lambda>t. prefix (path_components t) (path_components v)) tool_paths)
       (NotUnderCommands field)"

definition validate_feature_ref :: "str \<Rightarrow> str \<Rightarrow> str option \<Rightarrow> str list \<Rightarrow> manifest_error list" where
  "validate_feature_ref field asset feature names =
     (case feature of
        None \<Rightarrow> []
      | Some f \<Rightarrow> check (safe_plugin_id f) (UnsafeId field) @ check (f \<in> set names) (UnknownFeature asset f))"

text \<open>A name that stands before in the list is a duplicate.\<close>

fun duplicates :: "str list \<Rightarrow> str list \<Rightarrow> bool list" where
  "duplicates seen [] = []"
| "duplicates seen (n # ns) = (n \<in> set seen) # duplicates (n # seen) ns"

definition validate_assets :: "str \<Rightarrow> plugin_asset list \<Rightarrow> entry \<Rightarrow> str list \<Rightarrow> manifest_error list" where
  "validate_assets label assets root features =
     concat (map (\<lambda>(a, dup).
       check (safe_plugin_id (pa_name a)) (UnsafeId (label @ ''.name'')) @ check (\<not> dup) (DuplicateAsset label (pa_name a)) @
       validate_relative_path (label @ ''.path'') (pa_path a) root @ validate_feature_ref (label @ ''.feature'') (pa_name a) (pa_feature a) features)
       (zip assets (duplicates [] (map pa_name assets))))"

definition validate_features :: "plugin_feature list \<Rightarrow> entry \<Rightarrow> manifest_error list" where
  "validate_features features root =
     concat (map (\<lambda>(f, dup).
       check (safe_plugin_id (pf_name f)) (UnsafeId ''features.name'') @ check (safe_plugin_id (pf_kind f)) (UnsafeId ''features.kind'') @
       check (\<not> dup) (DuplicateFeature (pf_name f)) @
       (case pf_entrypoint f of None \<Rightarrow> [] | Some p \<Rightarrow> validate_relative_path ''features.entrypoint'' p root))
       (zip features (duplicates [] (map pf_name features))))"

definition validate_commands :: "plugin_command list \<Rightarrow> entry \<Rightarrow> str list \<Rightarrow> str list \<Rightarrow> manifest_error list" where
  "validate_commands commands root tool_paths features =
     concat (map (\<lambda>(c, dup).
       check (safe_plugin_id (pc_name c)) (UnsafeId ''commands.name'') @ check (\<not> dup) (DuplicateCommand (pc_name c)) @
       validate_command_entrypoint ''commands.entrypoint'' (pc_entrypoint c) root tool_paths @
       validate_feature_ref ''commands.feature'' (pc_name c) (pc_feature c) features)
       (zip commands (duplicates [] (map pc_name commands))))"

definition validate_permissions :: "plugin_permissions \<Rightarrow> manifest_error list" where
  "validate_permissions p =
     concat (map (\<lambda>x. check (trim_text x \<noteq> []) EmptyFilesystem) (pp_filesystem p)) @
     concat (map (\<lambda>h. check (trim_text h \<noteq> [] \<and> CHR ''/'' \<notin> set h) (BadHost h)) (pp_egress p)) @
     concat (map (\<lambda>x. check (trim_text x \<noteq> [] \<and> \<not> contains ''..'' x) (BadSecret x)) (pp_secrets p))"

text \<open>The errors; a manifest is valid without any. Warnings change nothing and are left out.\<close>

definition validate_manifest :: "plugin_manifest \<Rightarrow> entry \<Rightarrow> manifest_error list" where
  "validate_manifest m root =
     (let features = map pf_name (pm_features m)
      in check (safe_plugin_id (pm_name m)) (UnsafeId ''name'') @ check (trim_text (pm_version m) \<noteq> []) EmptyVersion @
         validate_features (pm_features m) root @ validate_assets ''skills'' (pm_skills m) root features @
         validate_assets ''tools'' (pm_tools m) root features @
         validate_commands (pm_commands m) root (map pa_path (pm_tools m)) features @ validate_permissions (pm_permissions m))"

section \<open>Discovery\<close>

record plugin_env =
  pe_toml :: "str \<Rightarrow> plugin_manifest option"
  pe_json :: "str \<Rightarrow> plugin_manifest option"

definition manifest_candidates :: "str list list" where
  "manifest_candidates = [[''MATURANA_PLUGIN.toml''], [''plugin.toml''], [''.maturana-plugin'', ''plugin.toml''], [''plugin.json''],
     [''.maturana-plugin'', ''plugin.json'']]"

definition manifest_path_for :: "entry \<Rightarrow> str list option" where
  "manifest_path_for root = List.find (\<lambda>p. look root p \<noteq> Missing) manifest_candidates"

text \<open>\<open>None\<close> is an error that ends whatever asked for it.\<close>

definition load_manifest :: "plugin_env \<Rightarrow> entry \<Rightarrow> str list \<Rightarrow> plugin_manifest option" where
  "load_manifest E root p =
     (case look root p of
        Found _ (Some raw) \<Rightarrow> if suffix ''.json'' (last p) \<and> last p \<noteq> ''.json'' then pe_json E raw else pe_toml E raw
      | _ \<Rightarrow> None)"

record discovered_plugin =
  dp_manifest :: plugin_manifest
  dp_root :: "str list" \<comment> \<open>scope and directory\<close>
  dp_tree :: entry
  dp_manifest_path :: "str list"
  dp_scope :: str
  dp_errors :: "manifest_error list"

definition is_dir :: "entry \<Rightarrow> bool" where
  "is_dir e = (case e of DirE _ \<Rightarrow> True | _ \<Rightarrow> False)"

text \<open>The candidates under a root: itself, or its directories in the order of their names.\<close>

definition plugin_dirs :: "(str \<times> entry) list option \<Rightarrow> (str list \<times> entry) list" where
  "plugin_dirs root =
     (case root of
        None \<Rightarrow> []
      | Some es \<Rightarrow>
          if manifest_path_for (DirE es) \<noteq> None then [([], DirE es)]
          else map (\<lambda>(n, e). ([n], e)) (sort_key fst (filter (\<lambda>(n, e). is_dir e) es)))"

text \<open>
  A plugin whose name was already seen in its scope is skipped; a manifest that does not parse ends the whole discovery.
\<close>

fun discover_dirs :: "plugin_env \<Rightarrow> (str \<times> str) list \<Rightarrow> (str \<times> str list \<times> entry) list \<Rightarrow> discovered_plugin list option" where
  "discover_dirs E seen [] = Some []"
| "discover_dirs E seen ((scope, d, t) # ds) =
     (case manifest_path_for t of
        None \<Rightarrow> discover_dirs E seen ds
      | Some p \<Rightarrow>
          (case load_manifest E t p of
             None \<Rightarrow> None
           | Some m \<Rightarrow>
               if (scope, pm_name m) \<in> set seen then discover_dirs E seen ds
               else map_option ((#) \<lparr> dp_manifest = m, dp_root = scope # d, dp_tree = t, dp_manifest_path = p, dp_scope = scope, dp_errors = validate_manifest m t \<rparr>)
                 (discover_dirs E ((scope, pm_name m) # seen) ds)))"

definition discover_plugins :: "plugin_env \<Rightarrow> (str \<times> (str \<times> entry) list option) list \<Rightarrow> discovered_plugin list option" where
  "discover_plugins E roots =
     map_option (sort_key (\<lambda>p. (pm_name (dp_manifest p), dp_scope p)))
       (discover_dirs E [] (concat (map (\<lambda>(scope, root). map (\<lambda>(d, t). (scope, d, t)) (plugin_dirs root)) roots)))"

section \<open>Enablement\<close>

record plugin_enablement =
  en_enabled :: "bool option"
  en_features :: "(str \<times> bool) list"

type_synonym plugin_config = "(str \<times> plugin_enablement) list"

text \<open>
  The two plugin directories, where they exist. \<open>config.json\<close> is a file of the second and kept apart; it cannot be read
  either when its text does not parse or when a directory of that name stands there.
\<close>

datatype config_file = NoConfig | BadConfig | Config plugin_config

record plugin_home =
  ph_workspace :: "(str \<times> entry) list option"
  ph_plugins :: "(str \<times> entry) list option"
  ph_config :: config_file

datatype plugin_error =
    Undiscoverable | ConfigUnreadable | PluginNotFound str | InvalidPlugin str | NoFeature str str | CommandDisabled str "str option"
  | NoManifest | NameTaken str | AlreadyInstalled str | InstallFailed str | ConfigNotSaved

definition default_plugin_roots :: "plugin_home \<Rightarrow> (str \<times> (str \<times> entry) list option) list" where
  "default_plugin_roots h = [(''workspace'', ph_workspace h), (''home'', ph_plugins h)]"

definition list_plugins :: "plugin_env \<Rightarrow> plugin_home \<Rightarrow> plugin_error + discovered_plugin list" where
  "list_plugins E h = (case discover_plugins E (default_plugin_roots h) of None \<Rightarrow> Inl Undiscoverable | Some ps \<Rightarrow> Inr ps)"

definition inspect_plugin :: "plugin_env \<Rightarrow> plugin_home \<Rightarrow> str \<Rightarrow> plugin_error + discovered_plugin option" where
  "inspect_plugin E h name = bind_result (list_plugins E h) (\<lambda>ps. Inr (List.find (\<lambda>p. pm_name (dp_manifest p) = name) ps))"

definition load_plugin_config :: "plugin_home \<Rightarrow> plugin_error + plugin_config" where
  "load_plugin_config h = (case ph_config h of NoConfig \<Rightarrow> Inr [] | BadConfig \<Rightarrow> Inl ConfigUnreadable | Config c \<Rightarrow> Inr c)"

definition no_permissions :: plugin_permissions where
  "no_permissions = \<lparr> pp_filesystem = [], pp_egress = [], pp_secrets = [] \<rparr>"

record plugin_status =
  ps_plugin :: discovered_plugin
  ps_enabled :: bool
  ps_features :: "(str \<times> bool) list"
  ps_permissions :: plugin_permissions

definition plugin_enabled :: "plugin_manifest \<Rightarrow> plugin_config \<Rightarrow> bool" where
  "plugin_enabled m config =
     (let entry = map_of config (pm_name m);
          override = (case entry of None \<Rightarrow> False | Some e \<Rightarrow> list_ex snd (en_features e));
          default_enabled = list_ex pf_default_enabled (pm_features m)
      in case Option.bind entry en_enabled of Some b \<Rightarrow> b | None \<Rightarrow> default_enabled \<or> override)"

definition status_of_plugin :: "discovered_plugin \<Rightarrow> plugin_config \<Rightarrow> plugin_status" where
  "status_of_plugin p config =
     (let m = dp_manifest p; enabled = plugin_enabled m config
      in \<lparr> ps_plugin = p, ps_enabled = enabled,
           ps_features = map (\<lambda>f. (pf_name f, enabled \<and>
             (case Option.bind (map_of config (pm_name m)) (\<lambda>e. map_of (en_features e) (pf_name f)) of
                Some b \<Rightarrow> b | None \<Rightarrow> pf_default_enabled f))) (pm_features m),
           ps_permissions = (if enabled \<and> dp_errors p = [] then pm_permissions m else no_permissions) \<rparr>)"

definition list_plugin_statuses :: "plugin_env \<Rightarrow> plugin_home \<Rightarrow> plugin_error + plugin_status list" where
  "list_plugin_statuses E h =
     bind_result (load_plugin_config h) (\<lambda>c. bind_result (list_plugins E h) (\<lambda>ps. Inr (map (\<lambda>p. status_of_plugin p c) ps)))"

definition inspect_plugin_status :: "plugin_env \<Rightarrow> plugin_home \<Rightarrow> str \<Rightarrow> plugin_error + plugin_status option" where
  "inspect_plugin_status E h name =
     bind_result (load_plugin_config h) (\<lambda>c.
       bind_result (inspect_plugin E h name) (\<lambda>p. Inr (map_option (\<lambda>p. status_of_plugin p c) p)))"

definition is_plugin_enabled :: "plugin_env \<Rightarrow> plugin_home \<Rightarrow> str \<Rightarrow> plugin_error + bool" where
  "is_plugin_enabled E h name =
     bind_result (inspect_plugin_status E h name) (\<lambda>s. Inr (case s of None \<Rightarrow> False | Some s \<Rightarrow> ps_enabled s))"

definition is_feature_enabled :: "plugin_env \<Rightarrow> plugin_home \<Rightarrow> str \<Rightarrow> str \<Rightarrow> plugin_error + bool" where
  "is_feature_enabled E h name feature =
     bind_result (inspect_plugin_status E h name) (\<lambda>s.
       Inr (case Option.bind s (\<lambda>s. map_of (ps_features s) feature) of None \<Rightarrow> False | Some b \<Rightarrow> b))"

definition asset_feature_enabled :: "plugin_status \<Rightarrow> str option \<Rightarrow> bool" where
  "asset_feature_enabled s feature =
     (case feature of None \<Rightarrow> True | Some f \<Rightarrow> (case map_of (ps_features s) f of None \<Rightarrow> False | Some b \<Rightarrow> b))"

record active_asset =
  aa_plugin :: str
  aa_feature :: "str option"
  aa_kind :: str
  aa_name :: str
  aa_root :: "str list"
  aa_path :: str
  aa_description :: "str option"

definition active_assets :: "plugin_status \<Rightarrow> active_asset list" where
  "active_assets s =
     (let p = ps_plugin s; m = dp_manifest p;
          make = (\<lambda>kind name path description feature. \<lparr> aa_plugin = pm_name m, aa_feature = feature, aa_kind = kind, aa_name = name,
            aa_root = dp_root p, aa_path = path, aa_description = description \<rparr>);
          of_assets = (\<lambda>kind as. map (\<lambda>a. make kind (pa_name a) (pa_path a) (pa_description a) (pa_feature a))
            (filter (\<lambda>a. asset_feature_enabled s (pa_feature a)) as))
      in of_assets ''skill'' (pm_skills m) @ of_assets ''tool'' (pm_tools m) @
         map (\<lambda>c. make ''command'' (pc_name c) (pc_entrypoint c) (Some (pc_description c)) (pc_feature c))
           (filter (\<lambda>c. asset_feature_enabled s (pc_feature c)) (pm_commands m)))"

text \<open>The enabled plugins; one that is invalid is an error.\<close>

fun enabled_statuses :: "plugin_status list \<Rightarrow> plugin_error + plugin_status list" where
  "enabled_statuses [] = Inr []"
| "enabled_statuses (s # ss) =
     (if \<not> ps_enabled s then enabled_statuses ss
      else if dp_errors (ps_plugin s) \<noteq> [] then Inl (InvalidPlugin (pm_name (dp_manifest (ps_plugin s))))
      else bind_result (enabled_statuses ss) (\<lambda>r. Inr (s # r)))"

definition enabled_plugin_assets :: "plugin_env \<Rightarrow> plugin_home \<Rightarrow> plugin_error + active_asset list" where
  "enabled_plugin_assets E h =
     bind_result (list_plugin_statuses E h) (\<lambda>ss. bind_result (enabled_statuses ss) (\<lambda>es.
       Inr (sort_key (\<lambda>a. (aa_plugin a, aa_kind a, aa_name a)) (concat (map active_assets es)))))"

definition enabled_plugin_skills :: "plugin_env \<Rightarrow> plugin_home \<Rightarrow> plugin_error + active_asset list" where
  "enabled_plugin_skills E h = bind_result (enabled_plugin_assets E h) (\<lambda>as. Inr (filter (\<lambda>a. aa_kind a = ''skill'') as))"

definition enabled_plugin_permissions :: "plugin_env \<Rightarrow> plugin_home \<Rightarrow> plugin_error + (str \<times> plugin_permissions) list" where
  "enabled_plugin_permissions E h =
     bind_result (list_plugin_statuses E h) (\<lambda>ss. bind_result (enabled_statuses ss) (\<lambda>es.
       Inr (sort_key fst (map (\<lambda>s. (pm_name (dp_manifest (ps_plugin s)), ps_permissions s))
         (filter (\<lambda>s. ps_permissions s \<noteq> no_permissions) es)))))"

section \<open>Built-in commands\<close>

definition builtins_plugin :: str where "builtins_plugin = ''maturana-builtins''"
definition core_plugin_command :: str where "core_plugin_command = ''plugin''"

definition find_command :: "plugin_status \<Rightarrow> str \<Rightarrow> plugin_command option" where
  "find_command s name = List.find (\<lambda>c. pc_name c = name) (pm_commands (dp_manifest (ps_plugin s)))"

definition builtin_command_feature :: "plugin_env \<Rightarrow> plugin_home \<Rightarrow> str \<Rightarrow> plugin_error + str option" where
  "builtin_command_feature E h name =
     bind_result (inspect_plugin_status E h builtins_plugin) (\<lambda>s. case s of
         None \<Rightarrow> Inr None
       | Some s \<Rightarrow>
           if dp_errors (ps_plugin s) \<noteq> [] then Inl (InvalidPlugin builtins_plugin)
           else Inr (Option.bind (find_command s name) pc_feature))"

definition builtin_command_enabled :: "plugin_env \<Rightarrow> plugin_home \<Rightarrow> str \<Rightarrow> plugin_error + bool" where
  "builtin_command_enabled E h name =
     (if name = core_plugin_command then Inr True
      else bind_result (inspect_plugin_status E h builtins_plugin) (\<lambda>s. case s of
          None \<Rightarrow> Inr True
        | Some s \<Rightarrow>
            if dp_errors (ps_plugin s) \<noteq> [] then Inl (InvalidPlugin builtins_plugin)
            else Inr (case find_command s name of None \<Rightarrow> True | Some c \<Rightarrow> asset_feature_enabled s (pc_feature c))))"

definition ensure_builtin_command_enabled :: "plugin_env \<Rightarrow> plugin_home \<Rightarrow> str \<Rightarrow> plugin_error option" where
  "ensure_builtin_command_enabled E h name =
     (case builtin_command_enabled E h name of
        Inl e \<Rightarrow> Some e
      | Inr True \<Rightarrow> None
      | Inr False \<Rightarrow> (case builtin_command_feature E h name of Inl e \<Rightarrow> Some e | Inr f \<Rightarrow> Some (CommandDisabled name f)))"

section \<open>Switching plugins and features\<close>

definition enablement_of :: "plugin_config \<Rightarrow> str \<Rightarrow> plugin_enablement" where
  "enablement_of c name = (case map_of c name of Some e \<Rightarrow> e | None \<Rightarrow> \<lparr> en_enabled = None, en_features = [] \<rparr>)"

definition set_plugin_enabled :: "plugin_env \<Rightarrow> str \<Rightarrow> bool \<Rightarrow> plugin_home \<Rightarrow> plugin_error + plugin_home" where
  "set_plugin_enabled E name enabled h =
     bind_result (inspect_plugin E h name) (\<lambda>p. case p of
         None \<Rightarrow> Inl (PluginNotFound name)
       | Some p \<Rightarrow>
           if enabled \<and> dp_errors p \<noteq> [] then Inl (InvalidPlugin name)
           else bind_result (load_plugin_config h) (\<lambda>c.
             Inr (h\<lparr>ph_config := Config (AList.update name ((enablement_of c name)\<lparr>en_enabled := Some enabled\<rparr>) c)\<rparr>)))"

definition set_plugin_feature_enabled :: "plugin_env \<Rightarrow> str \<Rightarrow> str \<Rightarrow> bool \<Rightarrow> plugin_home \<Rightarrow> plugin_error + plugin_home" where
  "set_plugin_feature_enabled E name feature enabled h =
     bind_result (inspect_plugin E h name) (\<lambda>p. case p of
         None \<Rightarrow> Inl (PluginNotFound name)
       | Some p \<Rightarrow>
           if enabled \<and> dp_errors p \<noteq> [] then Inl (InvalidPlugin name)
           else if feature \<notin> set (map pf_name (pm_features (dp_manifest p))) then Inl (NoFeature name feature)
           else bind_result (load_plugin_config h) (\<lambda>c.
             let e = enablement_of c name; e1 = (if enabled then e\<lparr>en_enabled := Some True\<rparr> else e)
             in Inr (h\<lparr>ph_config := Config (AList.update name (e1\<lparr>en_features := AList.update feature enabled (en_features e1)\<rparr>) c)\<rparr>)))"

section \<open>Installing\<close>

text \<open>
  \<open>copy_plugin_dir\<close>: links are refused; \<open>works\<close> says which files can be copied. The result tells whether all went well, and
  what stands at the target.
\<close>

fun copy_entry :: "(str list \<Rightarrow> bool) \<Rightarrow> str list \<Rightarrow> entry \<Rightarrow> bool \<times> entry"
  and copy_entries :: "(str list \<Rightarrow> bool) \<Rightarrow> str list \<Rightarrow> (str \<times> entry) list \<Rightarrow> bool \<times> (str \<times> entry) list" where
  "copy_entry works path (DirE es) = (case copy_entries works path es of (b, r) \<Rightarrow> (b, DirE r))"
| "copy_entry works path (FileE c) = (works path, FileE c)"
| "copy_entry works path (LinkE behind) = (False, LinkE behind)"
| "copy_entries works path [] = (True, [])"
| "copy_entries works path ((n, e) # es) =
     (case e of
        LinkE _ \<Rightarrow> (False, [])
      | _ \<Rightarrow>
          (case copy_entry works (path @ [n]) e of
             (False, c) \<Rightarrow> (False, if is_dir e then [(n, c)] else [])
           | (True, c) \<Rightarrow> (case copy_entries works path es of (b, r) \<Rightarrow> (b, (n, c) # r))))"

record install_env =
  ie_in_place :: bool \<comment> \<open>the source is the destination\<close>
  ie_same :: "str list \<Rightarrow> bool" \<comment> \<open>plugin directories that resolve to the destination\<close>
  ie_works :: "str list \<Rightarrow> bool"
  ie_pid :: str
  ie_removed :: "entry option" \<comment> \<open>what a failing removal of the old plugin leaves; \<open>None\<close> when it works\<close>
  ie_renamed :: bool
  ie_saved :: "config_file option" \<comment> \<open>what a failing write of the configuration leaves; \<open>None\<close> when it works\<close>
  ie_enable :: bool
  ie_force :: bool

definition plugins_entries :: "plugin_home \<Rightarrow> (str \<times> entry) list" where
  "plugins_entries h = (case ph_plugins h of Some es \<Rightarrow> es | None \<Rightarrow> [])"

definition config_name :: str where "config_name = ''config.json''"

definition temp_name :: "install_env \<Rightarrow> str \<Rightarrow> str" where
  "temp_name ie name = ''.install-'' @ name @ ''-'' @ ie_pid ie"

text \<open>\<open>destination.exists()\<close>; the name \<open>.\<close> is the plugin directory itself, the name of the configuration its file.\<close>

definition destination_exists :: "plugin_home \<Rightarrow> str \<Rightarrow> bool" where
  "destination_exists h name =
     (if name = ''.'' then ph_plugins h \<noteq> None
      else look (DirE (plugins_entries h)) [name] \<noteq> Missing \<or> name = config_name \<and> ph_config h \<noteq> NoConfig)"

definition external_collision :: "plugin_env \<Rightarrow> install_env \<Rightarrow> plugin_home \<Rightarrow> str \<Rightarrow> plugin_error option" where
  "external_collision E ie h name =
     (case list_plugins E h of
        Inl e \<Rightarrow> Some e
      | Inr ps \<Rightarrow>
          if list_ex (\<lambda>p. pm_name (dp_manifest p) = name \<and> \<not> ie_same ie (dp_root p) \<and> dp_scope p \<noteq> ''home'') ps
          then Some (NameTaken name) else None)"

text \<open>
  Copied beside, the old plugin removed, renamed into place. Under the name \<open>.\<close> the copy lies outside the plugin
  directory, the removal empties the plugin directory and then fails on the directory itself, and where there is none
  the rename fails. A file \<open>config.json\<close> cannot be removed as a directory.
\<close>

definition install_files :: "install_env \<Rightarrow> str \<Rightarrow> entry \<Rightarrow> plugin_home \<Rightarrow> plugin_error option \<times> plugin_home" where
  "install_files ie name src h =
     (case copy_entry (ie_works ie) [] src of (all_copied, c) \<Rightarrow>
        if name = ''.'' then
          if \<not> all_copied then (Some (InstallFailed ''copy''), h)
          else if ph_plugins h = None then (Some (InstallFailed ''rename''), h)
          else (Some (InstallFailed ''remove''),
            (case ie_removed ie of Some (DirE rest) \<Rightarrow> h\<lparr>ph_plugins := Some rest\<rparr> | _ \<Rightarrow> h\<lparr>ph_plugins := Some [], ph_config := NoConfig\<rparr>))
        else
          let temp = temp_name ie name; es = AList.delete temp (plugins_entries h); old = destination_exists h name;
              is_file = (name = config_name \<and> map_of es name = None)
          in if \<not> all_copied
             then (Some (InstallFailed ''copy''), h\<lparr>ph_plugins := Some (if is_dir src then AList.update temp c es else es)\<rparr>)
             else if old \<and> is_file then (Some (InstallFailed ''remove''), h\<lparr>ph_plugins := Some (AList.update temp c es)\<rparr>)
             else if old \<and> ie_removed ie \<noteq> None
             then (Some (InstallFailed ''remove''), h\<lparr>ph_plugins := Some (AList.update temp c (AList.update name (the (ie_removed ie)) es))\<rparr>)
             else
               let es1 = (if old then AList.delete name es else es)
               in if \<not> ie_renamed ie \<or> map_of es1 name \<noteq> None
                  then (Some (InstallFailed ''rename''), h\<lparr>ph_plugins := Some (AList.update temp c es1)\<rparr>)
                  else (None, h\<lparr>ph_plugins := Some (AList.update name c es1), ph_config := if name = config_name then BadConfig else ph_config h\<rparr>))"

text \<open>\<open>plugin_source\<close>: the directory and the manifest in it; a file may be named itself.\<close>

definition plugin_source :: "plugin_env \<Rightarrow> entry \<Rightarrow> str list option \<Rightarrow> plugin_error + plugin_manifest \<times> str list \<times> manifest_error list" where
  "plugin_source E src file =
     (case (case file of Some p \<Rightarrow> Some p | None \<Rightarrow> manifest_path_for src) of
        None \<Rightarrow> Inl NoManifest
      | Some p \<Rightarrow> (case load_manifest E src p of None \<Rightarrow> Inl NoManifest | Some m \<Rightarrow> Inr (m, p, validate_manifest m src)))"

definition validate_plugin_path :: "plugin_env \<Rightarrow> entry \<Rightarrow> str list option \<Rightarrow> plugin_error + manifest_error list" where
  "validate_plugin_path E src file = bind_result (plugin_source E src file) (\<lambda>(m, p, errors). Inr errors)"

text \<open>
  The result: whether a plugin was replaced, and the status of the new one.
\<close>

definition install_plugin :: "plugin_env \<Rightarrow> install_env \<Rightarrow> entry \<Rightarrow> str list option \<Rightarrow> plugin_home \<Rightarrow>
    (plugin_error + bool \<times> plugin_status) \<times> plugin_home" where
  "install_plugin E ie src file h =
     (case plugin_source E src file of
        Inl e \<Rightarrow> (Inl e, h)
      | Inr (m, p, errors) \<Rightarrow>
          let name = pm_name m
          in if errors \<noteq> [] then (Inl (InvalidPlugin name), h)
             else case external_collision E ie h name of
                 Some e \<Rightarrow> (Inl e, h)
               | None \<Rightarrow>
                   let replaced = destination_exists h name \<and> \<not> ie_in_place ie
                   in if replaced \<and> \<not> ie_force ie then (Inl (AlreadyInstalled name), h)
                      else case (if ie_in_place ie then (None, h) else install_files ie name src h) of
                          (Some e, h1) \<Rightarrow> (Inl e, h1)
                        | (None, h1) \<Rightarrow>
                            (case load_plugin_config h1 of
                               Inl e \<Rightarrow> (Inl e, h1)
                             | Inr c \<Rightarrow>
                                 let c1 = (if ie_enable ie then AList.update name ((enablement_of c name)\<lparr>en_enabled := Some True\<rparr>) c else c);
                                     d = \<lparr> dp_manifest = m, dp_root = [''home'', name], dp_tree = src, dp_manifest_path = p, dp_scope = ''home'', dp_errors = errors \<rparr>
                                 in case (if ie_enable ie then ie_saved ie else None) of
                                      Some left \<Rightarrow> (Inl ConfigNotSaved, h1\<lparr>ph_config := left\<rparr>)
                                    | None \<Rightarrow> (Inr (replaced, status_of_plugin d c1), if ie_enable ie then h1\<lparr>ph_config := Config c1\<rparr> else h1)))"

section \<open>Facts\<close>

lemma check_nil [simp]: "check b e = [] \<longleftrightarrow> b"
  by (simp add: check_def)

lemma relative_path_ok: "validate_relative_path field v root = [] \<longleftrightarrow>
   trim_text v \<noteq> [] \<and> \<not> prefix ''/'' v \<and> ''..'' \<notin> set (path_parts v) \<and> (\<exists>c. look root (path_parts v) = Found True c)"
  by (auto simp: validate_relative_path_def split: found.split)

lemma feature_ref_ok: "validate_feature_ref field asset feature names = [] \<longleftrightarrow> (\<forall>f. feature = Some f \<longrightarrow> safe_plugin_id f \<and> f \<in> set names)"
  by (auto simp: validate_feature_ref_def split: option.split)

lemma duplicates_length [simp]: "length (duplicates seen ns) = length ns"
  by (induction seen ns rule: duplicates.induct) auto

lemma duplicates_none: "True \<notin> set (duplicates seen ns) \<longleftrightarrow> distinct ns \<and> set seen \<inter> set ns = {}"
  by (induction seen ns rule: duplicates.induct) auto

lemma no_dup_flags:
  assumes "\<forall>(a, dup)\<in>set (zip as (duplicates [] (map f as))). \<not> dup"
  shows "distinct (map f as)"
proof -
  have "True \<notin> set (duplicates [] (map f as))"
  proof
    assume "True \<in> set (duplicates [] (map f as))"
    then obtain a where "(a, True) \<in> set (zip as (duplicates [] (map f as)))"
      using in_set_impl_in_set_zip2 [of as "duplicates [] (map f as)" True] by auto
    then show False using assms by (metis (no_types, lifting) case_prodD)
  qed
  then show ?thesis by (simp add: duplicates_none)
qed

lemma in_zip_dup: "a \<in> set as \<Longrightarrow> \<exists>d. (a, d) \<in> set (zip as (duplicates [] (map f as)))"
  using in_set_impl_in_set_zip1 [of as "duplicates [] (map f as)" a] by auto

lemma assets_ok:
  assumes "validate_assets label as root features = []"
  shows "distinct (map pa_name as)" and "a \<in> set as \<Longrightarrow> safe_plugin_id (pa_name a) \<and> (\<exists>c. look root (path_parts (pa_path a)) = Found True c) \<and>
    ''..'' \<notin> set (path_parts (pa_path a)) \<and> \<not> prefix ''/'' (pa_path a) \<and> (\<forall>f. pa_feature a = Some f \<longrightarrow> f \<in> set features)"
proof -
  have e: "\<forall>(a, dup)\<in>set (zip as (duplicates [] (map pa_name as))). \<not> dup \<and> safe_plugin_id (pa_name a) \<and>
      validate_relative_path (label @ ''.path'') (pa_path a) root = [] \<and>
      validate_feature_ref (label @ ''.feature'') (pa_name a) (pa_feature a) features = []"
    using assms by (auto simp: validate_assets_def concat_map_nil)
  then show "distinct (map pa_name as)" by (intro no_dup_flags) auto
  show "a \<in> set as \<Longrightarrow> safe_plugin_id (pa_name a) \<and> (\<exists>c. look root (path_parts (pa_path a)) = Found True c) \<and>
    ''..'' \<notin> set (path_parts (pa_path a)) \<and> \<not> prefix ''/'' (pa_path a) \<and> (\<forall>f. pa_feature a = Some f \<longrightarrow> f \<in> set features)"
  proof -
    assume "a \<in> set as"
    then obtain d where "(a, d) \<in> set (zip as (duplicates [] (map pa_name as)))" using in_zip_dup [of a as pa_name] by blast
    then have "safe_plugin_id (pa_name a)" "validate_relative_path (label @ ''.path'') (pa_path a) root = []"
      "validate_feature_ref (label @ ''.feature'') (pa_name a) (pa_feature a) features = []" using e by blast+
    then show ?thesis by (simp add: relative_path_ok feature_ref_ok)
  qed
qed

lemma commands_ok:
  assumes "validate_commands cs root tools features = []"
  shows "distinct (map pc_name cs)" and "c \<in> set cs \<Longrightarrow> safe_plugin_id (pc_name c) \<and> (\<exists>x. look root (path_parts (pc_entrypoint c)) = Found True x) \<and>
    ''..'' \<notin> set (path_parts (pc_entrypoint c)) \<and> \<not> prefix ''/'' (pc_entrypoint c) \<and> (\<forall>f. pc_feature c = Some f \<longrightarrow> f \<in> set features)"
proof -
  have e: "\<forall>(c, dup)\<in>set (zip cs (duplicates [] (map pc_name cs))). \<not> dup \<and> safe_plugin_id (pc_name c) \<and>
      validate_relative_path ''commands.entrypoint'' (pc_entrypoint c) root = [] \<and>
      validate_feature_ref ''commands.feature'' (pc_name c) (pc_feature c) features = []"
    using assms by (auto simp: validate_commands_def validate_command_entrypoint_def concat_map_nil)
  then show "distinct (map pc_name cs)" by (intro no_dup_flags) auto
  show "c \<in> set cs \<Longrightarrow> safe_plugin_id (pc_name c) \<and> (\<exists>x. look root (path_parts (pc_entrypoint c)) = Found True x) \<and>
    ''..'' \<notin> set (path_parts (pc_entrypoint c)) \<and> \<not> prefix ''/'' (pc_entrypoint c) \<and> (\<forall>f. pc_feature c = Some f \<longrightarrow> f \<in> set features)"
  proof -
    assume "c \<in> set cs"
    then obtain d where "(c, d) \<in> set (zip cs (duplicates [] (map pc_name cs)))" using in_zip_dup [of c cs pc_name] by blast
    then have "safe_plugin_id (pc_name c)" "validate_relative_path ''commands.entrypoint'' (pc_entrypoint c) root = []"
      "validate_feature_ref ''commands.feature'' (pc_name c) (pc_feature c) features = []" using e by blast+
    then show ?thesis by (simp add: relative_path_ok feature_ref_ok)
  qed
qed

text \<open>What was discovered lies in the tree it was read from.\<close>

lemma discover_dirs_sound:
  "discover_dirs E seen ds = Some ps \<Longrightarrow> p \<in> set ps \<Longrightarrow> load_manifest E (dp_tree p) (dp_manifest_path p) = Some (dp_manifest p) \<and>
     dp_errors p = validate_manifest (dp_manifest p) (dp_tree p) \<and> (dp_scope p, tl (dp_root p), dp_tree p) \<in> set ds"
proof (induction E seen ds arbitrary: ps rule: discover_dirs.induct)
  case (2 E seen scope d t ds)
  show ?case
  proof (cases "manifest_path_for t")
    case None
    then show ?thesis using 2 by auto
  next
    case (Some q)
    then obtain m where m: "load_manifest E t q = Some m" using "2.prems" by (auto split: option.splits)
    show ?thesis
    proof (cases "(scope, pm_name m) \<in> set seen")
      case True
      then show ?thesis using "2.IH"(2) [OF Some m True] "2.prems" Some m by auto
    next
      case False
      then obtain qs where "discover_dirs E ((scope, pm_name m) # seen) ds = Some qs"
        "ps = \<lparr> dp_manifest = m, dp_root = scope # d, dp_tree = t, dp_manifest_path = q, dp_scope = scope, dp_errors = validate_manifest m t \<rparr> # qs"
        using "2.prems" Some m by auto
      then show ?thesis using "2.IH"(3) [OF Some m False] "2.prems" m by auto
    qed
  qed
qed simp

lemma list_plugins_sound:
  "list_plugins E h = Inr ps \<Longrightarrow> p \<in> set ps \<Longrightarrow> load_manifest E (dp_tree p) (dp_manifest_path p) = Some (dp_manifest p) \<and>
     dp_errors p = validate_manifest (dp_manifest p) (dp_tree p)"
  using discover_dirs_sound by (fastforce simp: list_plugins_def discover_plugins_def split: option.splits)

lemma enabled_statuses_iff:
  "enabled_statuses ss = Inr es \<longleftrightarrow> es = filter ps_enabled ss \<and> (\<forall>s\<in>set ss. ps_enabled s \<longrightarrow> dp_errors (ps_plugin s) = [])"
  by (induction ss arbitrary: es) (auto simp: bind_result_Inr)

lemma statuses_iff:
  "list_plugin_statuses E h = Inr ss \<longleftrightarrow> (\<exists>c ps. load_plugin_config h = Inr c \<and> list_plugins E h = Inr ps \<and> ss = map (\<lambda>p. status_of_plugin p c) ps)"
  by (auto simp: list_plugin_statuses_def bind_result_Inr)

text \<open>Switching changes the configuration only.\<close>

lemma inspect_config [simp]: "inspect_plugin E (h\<lparr>ph_config := c\<rparr>) name = inspect_plugin E h name"
  "list_plugins E (h\<lparr>ph_config := c\<rparr>) = list_plugins E h"
  by (simp_all add: inspect_plugin_def list_plugins_def default_plugin_roots_def)

lemma load_config_set [simp]: "load_plugin_config (h\<lparr>ph_config := Config c\<rparr>) = Inr c"
  by (simp add: load_plugin_config_def)

lemma inspect_name: "inspect_plugin E h name = Inr (Some p) \<Longrightarrow> pm_name (dp_manifest p) = name"
  by (auto simp: inspect_plugin_def bind_result_Inr find_Some_iff)

lemma inspect_status_iff:
  "inspect_plugin_status E h name = Inr s \<longleftrightarrow> (\<exists>c p. load_plugin_config h = Inr c \<and> inspect_plugin E h name = Inr p \<and> s = map_option (\<lambda>p. status_of_plugin p c) p)"
  by (auto simp: inspect_plugin_status_def bind_result_Inr)

lemma ps_enabled_status [simp]: "ps_enabled (status_of_plugin p c) = plugin_enabled (dp_manifest p) c"
  "ps_plugin (status_of_plugin p c) = p"
  by (simp_all add: status_of_plugin_def Let_def)

lemma enabled_iff: "is_plugin_enabled E h name = Inr b \<longleftrightarrow> (\<exists>c p. load_plugin_config h = Inr c \<and> inspect_plugin E h name = Inr p \<and>
   b = (case p of None \<Rightarrow> False | Some p \<Rightarrow> plugin_enabled (dp_manifest p) c))"
proof -
  have "is_plugin_enabled E h name = Inr b \<longleftrightarrow> (\<exists>s. inspect_plugin_status E h name = Inr s \<and> (case s of None \<Rightarrow> False | Some s \<Rightarrow> ps_enabled s) = b)"
    by (simp add: is_plugin_enabled_def bind_result_Inr)
  moreover have "(case map_option (\<lambda>p. status_of_plugin p c) p of None \<Rightarrow> False | Some s \<Rightarrow> ps_enabled s) =
    (case p of None \<Rightarrow> False | Some p \<Rightarrow> plugin_enabled (dp_manifest p) c)" for c p
    by (cases p) simp_all
  ultimately show ?thesis by (auto simp: inspect_status_iff)
qed

lemma plugin_enabled_other: "pm_name m \<noteq> name \<Longrightarrow> plugin_enabled m (AList.update name e c) = plugin_enabled m c"
  by (simp add: plugin_enabled_def update_conv')

lemma copy_exact:
  "copy_entry works path e = (True, c) \<Longrightarrow> c = e"
  "copy_entries works path es = (True, cs) \<Longrightarrow> cs = es"
  by (induction works path e and works path es arbitrary: c and cs rule: copy_entry_copy_entries.induct)
    (auto split: prod.splits entry.splits bool.splits)

section \<open>What plugins contribute\<close>

lemma valid_manifest_parts:
  assumes "validate_manifest m root = []"
  shows "validate_assets ''skills'' (pm_skills m) root (map pf_name (pm_features m)) = []"
    and "validate_assets ''tools'' (pm_tools m) root (map pf_name (pm_features m)) = []"
    and "validate_commands (pm_commands m) root (map pa_path (pm_tools m)) (map pf_name (pm_features m)) = []"
    and "safe_plugin_id (pm_name m)"
  using assms by (simp_all add: validate_manifest_def Let_def)

text \<open>A path that stays in a plugin's tree.\<close>

definition asset_confined :: "entry \<Rightarrow> str \<Rightarrow> bool" where
  "asset_confined t path \<longleftrightarrow> \<not> prefix ''/'' path \<and> ''..'' \<notin> set (path_parts path) \<and>
     (case look t (path_parts path) of Found inside _ \<Rightarrow> inside | Missing \<Rightarrow> False)"

lemma active_asset_ok:
  assumes a: "a \<in> set (active_assets s)" and v: "validate_manifest (dp_manifest (ps_plugin s)) (dp_tree (ps_plugin s)) = []"
  shows "aa_plugin a = pm_name (dp_manifest (ps_plugin s)) \<and> aa_root a = dp_root (ps_plugin s) \<and>
    asset_confined (dp_tree (ps_plugin s)) (aa_path a) \<and> asset_feature_enabled s (aa_feature a)"
proof -
  let ?p = "ps_plugin s" let ?m = "dp_manifest (ps_plugin s)"
  note parts = valid_manifest_parts [OF v]
  note ok = assets_ok(2) [OF parts(1)] assets_ok(2) [OF parts(2)] commands_ok(2) [OF parts(3)]
  from a consider (skill) x where "x \<in> set (pm_skills ?m)" "asset_feature_enabled s (pa_feature x)" "aa_path a = pa_path x" "aa_feature a = pa_feature x"
    | (tool) x where "x \<in> set (pm_tools ?m)" "asset_feature_enabled s (pa_feature x)" "aa_path a = pa_path x" "aa_feature a = pa_feature x"
    | (command) x where "x \<in> set (pm_commands ?m)" "asset_feature_enabled s (pc_feature x)" "aa_path a = pc_entrypoint x" "aa_feature a = pc_feature x"
    by (auto simp: active_assets_def Let_def)
  then have "asset_confined (dp_tree ?p) (aa_path a) \<and> asset_feature_enabled s (aa_feature a)"
    by cases (use ok in \<open>fastforce simp: asset_confined_def\<close>)+
  moreover have "aa_plugin a = pm_name ?m \<and> aa_root a = dp_root ?p" using a by (auto simp: active_assets_def Let_def)
  ultimately show ?thesis by blast
qed

text \<open>
  C0. Every skill, tool and command that plugins contribute belongs to a discovered plugin that is enabled and whose
  manifest is valid; its path is relative, has no \<open>..\<close>, exists, and ends, links followed, inside that plugin's own
  directory; and the feature that gates it, if one does, is switched on.
\<close>

theorem plugin_assets_confined:
  assumes "enabled_plugin_assets E h = Inr as" and "a \<in> set as"
  shows "\<exists>ps c p. list_plugins E h = Inr ps \<and> load_plugin_config h = Inr c \<and> p \<in> set ps \<and> plugin_enabled (dp_manifest p) c \<and>
    validate_manifest (dp_manifest p) (dp_tree p) = [] \<and> aa_root a = dp_root p \<and> asset_confined (dp_tree p) (aa_path a) \<and>
    asset_feature_enabled (status_of_plugin p c) (aa_feature a)"
proof -
  from assms(1) obtain ss es where ss: "list_plugin_statuses E h = Inr ss" and es: "enabled_statuses ss = Inr es"
    and as: "set as = (\<Union>s\<in>set es. set (active_assets s))"
    by (auto simp: enabled_plugin_assets_def bind_result_Inr)
  from ss obtain c ps where c: "load_plugin_config h = Inr c" "list_plugins E h = Inr ps" "ss = map (\<lambda>p. status_of_plugin p c) ps"
    by (auto simp: statuses_iff)
  from assms(2) as obtain s where s: "s \<in> set es" "a \<in> set (active_assets s)" by blast
  then have "s \<in> set ss" "ps_enabled s" "dp_errors (ps_plugin s) = []" using es by (auto simp: enabled_statuses_iff)
  then obtain p where p: "p \<in> set ps" "s = status_of_plugin p c" "plugin_enabled (dp_manifest p) c" "dp_errors p = []" using c(3) by auto
  moreover have v: "validate_manifest (dp_manifest p) (dp_tree p) = []" using list_plugins_sound [OF c(2) p(1)] p(4) by simp
  moreover have "aa_root a = dp_root p \<and> asset_confined (dp_tree p) (aa_path a) \<and> asset_feature_enabled s (aa_feature a)"
    using active_asset_ok [OF s(2)] v p(2) by simp
  ultimately show ?thesis using c by blast
qed

lemma enabled_statuses_Inl:
  "enabled_statuses ss = Inl e \<Longrightarrow> \<exists>s\<in>set ss. ps_enabled s \<and> dp_errors (ps_plugin s) \<noteq> [] \<and> e = InvalidPlugin (pm_name (dp_manifest (ps_plugin s)))"
  by (induction ss) (auto simp: bind_result_def split: if_splits sum.splits)

text \<open>
  The permissions granted to plugins are exactly those of the enabled, valid plugins that ask for any; one enabled
  plugin that is invalid makes the request an error, and nothing is granted.
\<close>

theorem permission_grants_exact:
  assumes c: "load_plugin_config h = Inr c" and ps: "list_plugins E h = Inr ps"
  shows "case enabled_plugin_permissions E h of
      Inl e \<Rightarrow> \<exists>p\<in>set ps. plugin_enabled (dp_manifest p) c \<and> dp_errors p \<noteq> [] \<and> e = InvalidPlugin (pm_name (dp_manifest p))
    | Inr grants \<Rightarrow> set grants = {(pm_name (dp_manifest p), pm_permissions (dp_manifest p)) | p.
        p \<in> set ps \<and> plugin_enabled (dp_manifest p) c \<and> dp_errors p = [] \<and> pm_permissions (dp_manifest p) \<noteq> no_permissions}"
proof -
  have ss: "list_plugin_statuses E h = Inr (map (\<lambda>p. status_of_plugin p c) ps)" using c ps by (simp add: statuses_iff)
  show ?thesis
  proof (cases "enabled_statuses (map (\<lambda>p. status_of_plugin p c) ps)")
    case (Inl e)
    then show ?thesis using enabled_statuses_Inl [OF Inl] ss by (auto simp: enabled_plugin_permissions_def bind_result_def)
  next
    case (Inr es)
    then have es: "set es = {status_of_plugin p c | p. p \<in> set ps \<and> plugin_enabled (dp_manifest p) c}"
      and v: "\<forall>p\<in>set ps. plugin_enabled (dp_manifest p) c \<longrightarrow> dp_errors p = []" by (auto simp: enabled_statuses_iff)
    have perms: "ps_permissions (status_of_plugin p c) = pm_permissions (dp_manifest p)" if "p \<in> set ps" "plugin_enabled (dp_manifest p) c" for p
      using that v by (simp add: status_of_plugin_def Let_def)
    have "enabled_plugin_permissions E h = Inr (sort_key fst (map (\<lambda>s. (pm_name (dp_manifest (ps_plugin s)), ps_permissions s))
         (filter (\<lambda>s. ps_permissions s \<noteq> no_permissions) es)))"
      using Inr ss by (simp add: enabled_plugin_permissions_def bind_result_def)
    moreover have "set (map (\<lambda>s. (pm_name (dp_manifest (ps_plugin s)), ps_permissions s)) (filter (\<lambda>s. ps_permissions s \<noteq> no_permissions) es)) =
       {(pm_name (dp_manifest p), pm_permissions (dp_manifest p)) | p.
        p \<in> set ps \<and> plugin_enabled (dp_manifest p) c \<and> dp_errors p = [] \<and> pm_permissions (dp_manifest p) \<noteq> no_permissions}"
      (is "?l = ?r")
    proof (rule set_eqI)
      fix x
      show "x \<in> ?l \<longleftrightarrow> x \<in> ?r" using es v perms by (auto simp: image_iff)
    qed
    ultimately show ?thesis by simp
  qed
qed

section \<open>Switches\<close>

lemma set_plugin_enabled_Inr:
  assumes "set_plugin_enabled E name b h = Inr h'"
  shows "\<exists>p c. inspect_plugin E h name = Inr (Some p) \<and> load_plugin_config h = Inr c \<and>
    h' = h\<lparr>ph_config := Config (AList.update name ((enablement_of c name)\<lparr>en_enabled := Some b\<rparr>) c)\<rparr>"
proof -
  from assms obtain q where q: "inspect_plugin E h name = Inr q" and r: "(case q of None \<Rightarrow> Inl (PluginNotFound name)
       | Some p \<Rightarrow> if b \<and> dp_errors p \<noteq> [] then Inl (InvalidPlugin name)
           else bind_result (load_plugin_config h) (\<lambda>c.
             Inr (h\<lparr>ph_config := Config (AList.update name ((enablement_of c name)\<lparr>en_enabled := Some b\<rparr>) c)\<rparr>))) = Inr h'"
    unfolding set_plugin_enabled_def bind_result_Inr by blast
  then show ?thesis by (cases q) (auto simp: bind_result_Inr split: if_splits)
qed

lemma plugin_enabled_set: "pm_name m = name \<Longrightarrow> plugin_enabled m (AList.update name (e\<lparr>en_enabled := Some b\<rparr>) c) = b"
  by (simp add: plugin_enabled_def update_conv')

lemma is_enabled_eq:
  assumes "load_plugin_config h = Inr c"
  shows "is_plugin_enabled E h name = bind_result (inspect_plugin E h name) (\<lambda>p. Inr (case p of None \<Rightarrow> False | Some p \<Rightarrow> plugin_enabled (dp_manifest p) c))"
proof (cases "inspect_plugin E h name")
  case (Inl e)
  then show ?thesis using assms by (simp add: is_plugin_enabled_def inspect_plugin_status_def bind_result_def)
next
  case (Inr p)
  then show ?thesis using assms by (simp add: enabled_iff bind_result_def)
qed

text \<open>
  After a plugin is switched on or off it reads back as such, every other name reads as before, and what is
  discovered has not changed.
\<close>

theorem switch_read_back:
  assumes "set_plugin_enabled E name b h = Inr h'"
  shows "is_plugin_enabled E h' name = Inr b \<and> (\<forall>other. other \<noteq> name \<longrightarrow> is_plugin_enabled E h' other = is_plugin_enabled E h other) \<and>
    list_plugins E h' = list_plugins E h"
proof -
  from set_plugin_enabled_Inr [OF assms] obtain p c where p: "inspect_plugin E h name = Inr (Some p)" and c: "load_plugin_config h = Inr c"
    and h': "h' = h\<lparr>ph_config := Config (AList.update name ((enablement_of c name)\<lparr>en_enabled := Some b\<rparr>) c)\<rparr>" by blast
  let ?c = "AList.update name ((enablement_of c name)\<lparr>en_enabled := Some b\<rparr>) c"
  have c': "load_plugin_config h' = Inr ?c" by (simp add: h')
  have "is_plugin_enabled E h' other = is_plugin_enabled E h other" if "other \<noteq> name" for other
  proof (cases "inspect_plugin E h other")
    case (Inl e)
    then show ?thesis using is_enabled_eq [OF c, of E other] is_enabled_eq [OF c', of E other] by (simp add: h' bind_result_def)
  next
    case (Inr q)
    show ?thesis
    proof (cases q)
      case None
      then show ?thesis using Inr is_enabled_eq [OF c, of E other] is_enabled_eq [OF c', of E other] by (simp add: h' bind_result_def)
    next
      case (Some q')
      then have "pm_name (dp_manifest q') \<noteq> name" using inspect_name [of E h other q'] Inr that by simp
      then show ?thesis using Inr Some is_enabled_eq [OF c, of E other] is_enabled_eq [OF c', of E other]
        by (simp add: h' bind_result_def plugin_enabled_other)
    qed
  qed
  moreover have "is_plugin_enabled E h' name = Inr b"
    using is_enabled_eq [OF c', of E name] p inspect_name [OF p] by (simp add: h' bind_result_def plugin_enabled_set)
  ultimately show ?thesis by (simp add: h')
qed

section \<open>Installation\<close>

fun no_links :: "entry \<Rightarrow> bool" where
  "no_links (FileE _) = True"
| "no_links (LinkE _) = False"
| "no_links (DirE es) = list_all (\<lambda>(n, e). no_links e) es"

lemma copied_no_links:
  "copy_entry works path e = (True, c) \<Longrightarrow> no_links e"
  "copy_entries works path es = (True, cs) \<Longrightarrow> list_all (\<lambda>(n, e). no_links e) es"
  by (induction works path e and works path es arbitrary: c and cs rule: copy_entry_copy_entries.induct)
    (auto split: prod.splits entry.splits bool.splits)

lemma install_files_done:
  assumes "install_files ie name src h = (None, h')"
  shows "name \<noteq> ''.'' \<and> no_links src \<and> map_of (plugins_entries h') name = Some src \<and>
    (\<forall>n. n \<noteq> name \<and> n \<noteq> temp_name ie name \<longrightarrow> map_of (plugins_entries h') n = map_of (plugins_entries h) n) \<and>
    ph_workspace h' = ph_workspace h \<and> ph_config h' = (if name = config_name then BadConfig else ph_config h)"
proof -
  obtain ok c where k: "copy_entry (ie_works ie) [] src = (ok, c)" by (cases "copy_entry (ie_works ie) [] src")
  let ?es = "AList.delete (temp_name ie name) (plugins_entries h)"
  let ?es1 = "if destination_exists h name then AList.delete name ?es else ?es"
  have name: "name \<noteq> ''.''" and ok and h': "h' = h\<lparr>ph_plugins := Some (AList.update name c ?es1),
      ph_config := if name = config_name then BadConfig else ph_config h\<rparr>"
    using assms k by (auto simp: install_files_def Let_def split: if_splits)
  then have "c = src" "no_links src" using k copy_exact(1) copied_no_links(1) by auto
  then show ?thesis using name by (auto simp: h' plugins_entries_def update_conv' delete_conv')
qed

lemma install_files_failed:
  assumes "install_files ie name src h = (Some e, h')" and "name \<noteq> ''.''" and "n \<noteq> name" and "n \<noteq> temp_name ie name"
  shows "map_of (plugins_entries h') n = map_of (plugins_entries h) n \<and> ph_workspace h' = ph_workspace h \<and> ph_config h' = ph_config h"
proof -
  obtain ok c where k: "copy_entry (ie_works ie) [] src = (ok, c)" by (cases "copy_entry (ie_works ie) [] src")
  then show ?thesis using assms
    by (auto simp: install_files_def Let_def plugins_entries_def update_conv' delete_conv' split: if_splits)
qed

text \<open>A failing installation never touches the old plugin before its replacement is complete beside it.\<close>

lemma install_copy_failed:
  assumes "install_files ie name src h = (Some (InstallFailed ''copy''), h')" and "name \<noteq> ''.''" and "name \<noteq> temp_name ie name"
  shows "map_of (plugins_entries h') name = map_of (plugins_entries h) name"
proof -
  obtain ok c where k: "copy_entry (ie_works ie) [] src = (ok, c)" by (cases "copy_entry (ie_works ie) [] src")
  then show ?thesis using assms
    by (auto simp: install_files_def Let_def plugins_entries_def update_conv' delete_conv' split: if_splits)
qed

lemma temp_name_other [simp]: "name \<noteq> temp_name ie name" "temp_name ie name \<noteq> name"
proof -
  have "length (temp_name ie name) > length name" by (simp add: temp_name_def)
  then show "name \<noteq> temp_name ie name" "temp_name ie name \<noteq> name" by auto
qed

text \<open>What the outcome of \<open>install_plugin\<close> says about the checks that were passed.\<close>

lemma install_plugin_Inr:
  assumes "install_plugin E ie src file h = (Inr (replaced, s), h')"
  obtains m p h1 c where "plugin_source E src file = Inr (m, p, [])" and "validate_manifest m src = []"
    and "external_collision E ie h (pm_name m) = None" and "replaced = (destination_exists h (pm_name m) \<and> \<not> ie_in_place ie)"
    and "replaced \<longrightarrow> ie_force ie" and "(if ie_in_place ie then (None, h) else install_files ie (pm_name m) src h) = (None, h1)"
    and "load_plugin_config h1 = Inr c"
    and "h' = (if ie_enable ie then h1\<lparr>ph_config := Config (AList.update (pm_name m) ((enablement_of c (pm_name m))\<lparr>en_enabled := Some True\<rparr>) c)\<rparr> else h1)"
proof -
  from assms obtain m p errors where src: "plugin_source E src file = Inr (m, p, errors)"
    by (cases "plugin_source E src file") (auto simp: install_plugin_def)
  let ?name = "pm_name m"
  have e: "errors = []" and col: "external_collision E ie h ?name = None"
    using assms src by (auto simp: install_plugin_def Let_def split: if_splits option.splits)
  have v: "validate_manifest m src = []" using src e by (auto simp: plugin_source_def split: option.splits)
  let ?r = "destination_exists h ?name \<and> \<not> ie_in_place ie"
  have f: "\<not> (?r \<and> \<not> ie_force ie)" 
  proof
    assume "?r \<and> \<not> ie_force ie"
    then show False using assms src e col by (simp add: install_plugin_def Let_def)
  qed
  obtain x h1 where x: "(if ie_in_place ie then (None, h) else install_files ie ?name src h) = (x, h1)" by fastforce
  have x0: "x = None" using assms src e col f x by (cases x) (simp_all add: install_plugin_def Let_def del: de_Morgan_conj not_not split: if_splits)
  obtain c where c: "load_plugin_config h1 = Inr c"
    using assms src e col f x x0 by (cases "load_plugin_config h1") (simp_all add: install_plugin_def Let_def del: de_Morgan_conj not_not split: if_splits)
  have "replaced = ?r \<and> h' = (if ie_enable ie then h1\<lparr>ph_config := Config (AList.update ?name ((enablement_of c ?name)\<lparr>en_enabled := Some True\<rparr>) c)\<rparr> else h1)"
    using assms src e col f x x0 c by (simp add: install_plugin_def Let_def del: de_Morgan_conj not_not split: if_splits option.splits)
  then show thesis using that src e v col f x x0 c by blast
qed

lemma install_files_error: "install_files ie n src h = (Some e, k) \<Longrightarrow> \<exists>s. e = InstallFailed s"
  by (auto simp: install_files_def Let_def split: prod.splits if_splits)

lemma install_files_else:
  assumes "install_files ie name src h = (x, h1)" and "name \<noteq> ''.''" and "n \<noteq> name" and "n \<noteq> temp_name ie name"
  shows "map_of (plugins_entries h1) n = map_of (plugins_entries h) n \<and> ph_workspace h1 = ph_workspace h \<and>
    (ph_config h1 = ph_config h \<or> name = config_name)"
proof (cases x)
  case None
  then show ?thesis using install_files_done [of ie name src h h1] assms by (auto split: if_splits)
next
  case (Some e)
  then show ?thesis using install_files_failed [of ie name src h e h1 n] assms by simp
qed

lemma install_plugin_Inl:
  assumes "install_plugin E ie src file h = (Inl e, h')"
  shows "h' = h \<or> (\<exists>m p errors h1. plugin_source E src file = Inr (m, p, errors) \<and>
    (h1 = h \<or> (\<exists>x. install_files ie (pm_name m) src h = (x, h1))) \<and>
    (h' = h1 \<and> ((\<exists>s. e = InstallFailed s) \<or> e = ConfigUnreadable) \<or>
     e = ConfigNotSaved \<and> ie_enable ie \<and> (\<exists>c. ie_saved ie = Some c \<and> h' = h1\<lparr>ph_config := c\<rparr>)))"
  using assms by (auto simp: install_plugin_def Let_def load_plugin_config_def dest: install_files_error
      split: if_splits option.splits prod.splits sum.splits config_file.splits)

section \<open>A host to evaluate on\<close>

definition demo_manifest :: "str \<Rightarrow> plugin_manifest" where
  "demo_manifest name = \<lparr> pm_name = name, pm_version = ''1'', pm_description = [], pm_features = [],
     pm_skills = [\<lparr> pa_name = ''s'', pa_path = ''s.md'', pa_description = None, pa_feature = None \<rparr>], pm_tools = [], pm_commands = [],
     pm_permissions = no_permissions\<lparr>pp_egress := [''h'']\<rparr> \<rparr>"

text \<open>The manifest text is the plugin's name.\<close>

definition demo_plugin_env :: plugin_env where
  "demo_plugin_env = \<lparr> pe_toml = (\<lambda>raw. if raw = [] then None else Some (demo_manifest raw)), pe_json = (\<lambda>_. None) \<rparr>"

definition demo_tree :: "str \<Rightarrow> entry" where
  "demo_tree name = DirE [(''plugin.toml'', FileE name), (''s.md'', FileE ''x'')]"

definition demo_plugin_home :: "plugin_config \<Rightarrow> plugin_home" where
  "demo_plugin_home c = \<lparr> ph_workspace = Some [(''w'', demo_tree ''w'')], ph_plugins = Some [(''a'', demo_tree ''a'')], ph_config = Config c \<rparr>"

definition demo_install :: "bool \<Rightarrow> install_env" where
  "demo_install force = \<lparr> ie_in_place = False, ie_same = (\<lambda>_. False), ie_works = (\<lambda>_. True), ie_pid = ''7'', ie_removed = None, ie_renamed = True, ie_saved = None,
     ie_enable = True, ie_force = force \<rparr>"

lemma demo_assets: "enabled_plugin_assets demo_plugin_env (demo_plugin_home [(''a'', \<lparr> en_enabled = Some True, en_features = [] \<rparr>)]) =
  Inr [\<lparr> aa_plugin = ''a'', aa_feature = None, aa_kind = ''skill'', aa_name = ''s'', aa_root = [''home'', ''a''], aa_path = ''s.md'', aa_description = None \<rparr>]"
  by code_simp

lemma demo_list: "list_plugins demo_plugin_env (demo_plugin_home c) = Inr [
   \<lparr> dp_manifest = demo_manifest ''a'', dp_root = [''home'', ''a''], dp_tree = demo_tree ''a'', dp_manifest_path = [''plugin.toml''], dp_scope = ''home'', dp_errors = [] \<rparr>,
   \<lparr> dp_manifest = demo_manifest ''w'', dp_root = [''workspace'', ''w''], dp_tree = demo_tree ''w'', dp_manifest_path = [''plugin.toml''], dp_scope = ''workspace'', dp_errors = [] \<rparr>]"
  by code_simp

lemma demo_installed: "install_plugin demo_plugin_env (demo_install True) (demo_tree ''a'') None (demo_plugin_home []) =
  (Inr (True, status_of_plugin \<lparr> dp_manifest = demo_manifest ''a'', dp_root = [''home'', ''a''], dp_tree = demo_tree ''a'',
     dp_manifest_path = [''plugin.toml''], dp_scope = ''home'', dp_errors = [] \<rparr> [(''a'', \<lparr> en_enabled = Some True, en_features = [] \<rparr>)]),
   demo_plugin_home [(''a'', \<lparr> en_enabled = Some True, en_features = [] \<rparr>)])"
  by code_simp

lemma permission_grants_exact_witness:
  "case enabled_plugin_permissions demo_plugin_env (demo_plugin_home [(''a'', \<lparr> en_enabled = Some True, en_features = [] \<rparr>)]) of
     Inl e \<Rightarrow> False | Inr grants \<Rightarrow> grants = [(''a'', no_permissions\<lparr>pp_egress := [''h'']\<rparr>)] \<and> set grants \<noteq> {}"
proof -
  let ?c = "[(''a'', \<lparr> en_enabled = Some True, en_features = [] \<rparr>)]"
  have "enabled_plugin_permissions demo_plugin_env (demo_plugin_home ?c) = Inr [(''a'', no_permissions\<lparr>pp_egress := [''h'']\<rparr>)]" by code_simp
  moreover have "load_plugin_config (demo_plugin_home ?c) = Inr ?c" by (simp add: load_plugin_config_def demo_plugin_home_def)
  ultimately show ?thesis using permission_grants_exact [OF _ demo_list, of ?c] by auto
qed

lemma switch_read_back_witness:
  "is_plugin_enabled demo_plugin_env (demo_plugin_home [(''a'', \<lparr> en_enabled = Some False, en_features = [] \<rparr>)]) ''a'' = Inr False"
proof -
  have "set_plugin_enabled demo_plugin_env ''a'' False (demo_plugin_home []) = Inr (demo_plugin_home [(''a'', \<lparr> en_enabled = Some False, en_features = [] \<rparr>)])"
    by code_simp
  then show ?thesis using switch_read_back by blast
qed

section \<open>The properties\<close>

lemma plugin_assets_confined_witness:
  "\<exists>ps c p. list_plugins demo_plugin_env (demo_plugin_home [(''a'', \<lparr> en_enabled = Some True, en_features = [] \<rparr>)]) = Inr ps \<and> p \<in> set ps \<and>
     plugin_enabled (dp_manifest p) c \<and> dp_root p = [''home'', ''a''] \<and> asset_confined (dp_tree p) ''s.md''"
proof -
  from plugin_assets_confined [OF demo_assets list.set_intros(1)] obtain ps c p where
    "list_plugins demo_plugin_env (demo_plugin_home [(''a'', \<lparr> en_enabled = Some True, en_features = [] \<rparr>)]) = Inr ps" "p \<in> set ps"
    "plugin_enabled (dp_manifest p) c" "dp_root p = [''home'', ''a'']" "asset_confined (dp_tree p) ''s.md''"
    by auto
  then show ?thesis by blast
qed

text \<open>
  C23. An installation that succeeds has read a valid manifest, found no plugin of that name outside the home, replaced
  an old plugin only when forced, copied a source without links entry for entry (unless the source is the destination
  already), left every other plugin alone but for its own temporary directory, and enabled the plugin when asked to. One
  that fails before it copies leaves everything as it was. One that fails later leaves every other plugin but its own temporary
  directory as it was, unless the plugin is named \<open>.\<close>, which is the directory of all plugins; it leaves the configuration
  as it was unless the plugin has the name of the configuration file, or what failed is the saving of the configuration
  with the plugin enabled: then it is what the failed write left.
\<close>

theorem install_exact:
  assumes "install_plugin E ie src file h = (r, h')"
  shows "case r of
      Inr (replaced, s) \<Rightarrow> \<exists>m p. plugin_source E src file = Inr (m, p, []) \<and> validate_manifest m src = [] \<and>
        external_collision E ie h (pm_name m) = None \<and> (replaced \<longrightarrow> ie_force ie) \<and> ph_workspace h' = ph_workspace h \<and>
        (ie_in_place ie \<and> ph_plugins h' = ph_plugins h \<or> no_links src \<and> map_of (plugins_entries h') (pm_name m) = Some src) \<and>
        (\<forall>n. n \<noteq> pm_name m \<and> n \<noteq> temp_name ie (pm_name m) \<longrightarrow> map_of (plugins_entries h') n = map_of (plugins_entries h) n) \<and>
        (ie_enable ie \<longrightarrow> (\<exists>c. load_plugin_config h' = Inr c \<and> plugin_enabled m c))
    | Inl e \<Rightarrow> (h' = h \<or> (\<exists>s. e = InstallFailed s) \<or> e = ConfigUnreadable \<or> e = ConfigNotSaved) \<and>
       (\<forall>m p errors n. plugin_source E src file = Inr (m, p, errors) \<and> pm_name m \<noteq> ''.'' \<and> n \<noteq> pm_name m \<and> n \<noteq> temp_name ie (pm_name m) \<longrightarrow>
        map_of (plugins_entries h') n = map_of (plugins_entries h) n \<and> ph_workspace h' = ph_workspace h \<and>
        (ph_config h' = ph_config h \<or> pm_name m = config_name \<or> e = ConfigNotSaved \<and> ie_enable ie \<and> ie_saved ie = Some (ph_config h')))"
proof (cases r)
  case (Inl e)
  note I = install_plugin_Inl [OF assms [unfolded Inl]]
  have "map_of (plugins_entries h') n = map_of (plugins_entries h) n \<and> ph_workspace h' = ph_workspace h \<and>
      (ph_config h' = ph_config h \<or> pm_name m = config_name \<or> e = ConfigNotSaved \<and> ie_enable ie \<and> ie_saved ie = Some (ph_config h'))"
    if p: "plugin_source E src file = Inr (m, p, errors)" and n: "pm_name m \<noteq> ''.''" "n \<noteq> pm_name m" "n \<noteq> temp_name ie (pm_name m)" for m p errors n
  proof (cases "h' = h")
    case False
    with I p obtain h1 where h1: "h1 = h \<or> (\<exists>x. install_files ie (pm_name m) src h = (x, h1))"
      and h': "h' = h1 \<or> e = ConfigNotSaved \<and> ie_enable ie \<and> (\<exists>c. ie_saved ie = Some c \<and> h' = h1\<lparr>ph_config := c\<rparr>)" by auto
    have "map_of (plugins_entries h1) n = map_of (plugins_entries h) n \<and> ph_workspace h1 = ph_workspace h \<and>
        (ph_config h1 = ph_config h \<or> pm_name m = config_name)"
      using h1 install_files_else [OF _ n] by blast
    with h' show ?thesis by (auto simp: plugins_entries_def)
  qed simp
  moreover have "h' = h \<or> (\<exists>s. e = InstallFailed s) \<or> e = ConfigUnreadable \<or> e = ConfigNotSaved" using I by blast
  ultimately show ?thesis unfolding Inl sum.case by blast
next
  case (Inr q)
  obtain replaced s where q: "q = (replaced, s)" by (cases q)
  from install_plugin_Inr [OF assms [unfolded Inr q]] obtain m p h1 c where
    src: "plugin_source E src file = Inr (m, p, [])" "validate_manifest m src = []" "external_collision E ie h (pm_name m) = None"
    and rep: "replaced \<longrightarrow> ie_force ie" and h1: "(if ie_in_place ie then (None, h) else install_files ie (pm_name m) src h) = (None, h1)"
    and c: "load_plugin_config h1 = Inr c"
    and h': "h' = (if ie_enable ie then h1\<lparr>ph_config := Config (AList.update (pm_name m) ((enablement_of c (pm_name m))\<lparr>en_enabled := Some True\<rparr>) c)\<rparr> else h1)"
    by metis
  have files: "plugins_entries h' = plugins_entries h1" "ph_plugins h' = ph_plugins h1" "ph_workspace h' = ph_workspace h1"
    by (simp_all add: h' plugins_entries_def)
  have kept: "ph_workspace h1 = ph_workspace h \<and>
      (ie_in_place ie \<and> ph_plugins h1 = ph_plugins h \<or> no_links src \<and> map_of (plugins_entries h1) (pm_name m) = Some src) \<and>
      (\<forall>n. n \<noteq> pm_name m \<and> n \<noteq> temp_name ie (pm_name m) \<longrightarrow> map_of (plugins_entries h1) n = map_of (plugins_entries h) n)"
    using h1 install_files_done [of ie "pm_name m" src h h1] by (auto split: if_splits)
  moreover have "ie_enable ie \<longrightarrow> (\<exists>c. load_plugin_config h' = Inr c \<and> plugin_enabled m c)"
    by (simp add: h' plugin_enabled_set)
  ultimately show ?thesis using Inr q src rep files by auto
qed

lemma install_exact_witness:
  "map_of (plugins_entries (demo_plugin_home [(''a'', \<lparr> en_enabled = Some True, en_features = [] \<rparr>)])) ''a'' = Some (demo_tree ''a'') \<and>
   no_links (demo_tree ''a'') \<and>
   fst (install_plugin demo_plugin_env (demo_install False) (demo_tree ''a'') None (demo_plugin_home [])) = Inl (AlreadyInstalled ''a'')"
proof -
  have "plugin_source demo_plugin_env (demo_tree ''a'') None = Inr (demo_manifest ''a'', [''plugin.toml''], [])" by code_simp
  moreover have "fst (install_plugin demo_plugin_env (demo_install False) (demo_tree ''a'') None (demo_plugin_home [])) = Inl (AlreadyInstalled ''a'')" by code_simp
  ultimately show ?thesis using install_exact [OF demo_installed] by (auto simp: demo_manifest_def demo_install_def)
qed

text \<open>A plugin named \<open>.\<close> passes the validation, and its forced installation removes every plugin and the configuration.\<close>

lemma dot_plugin_wipes:
  "validate_manifest (demo_manifest ''.'') (demo_tree ''.'') = [] \<and>
   install_plugin demo_plugin_env (demo_install True) (demo_tree ''.'') None (demo_plugin_home [(''a'', \<lparr> en_enabled = Some True, en_features = [] \<rparr>)]) =
     (Inl (InstallFailed ''remove''), \<lparr> ph_workspace = Some [(''w'', demo_tree ''w'')], ph_plugins = Some [], ph_config = NoConfig \<rparr>)"
  by code_simp

text \<open>A plugin named as the configuration takes its place, and nothing reads the configuration any more.\<close>

lemma config_plugin_blocks:
  "\<exists>h. install_plugin demo_plugin_env (demo_install False) (demo_tree ''config.json'') None ((demo_plugin_home [])\<lparr>ph_config := NoConfig\<rparr>) = (Inl ConfigUnreadable, h) \<and>
     list_plugin_statuses demo_plugin_env h = Inl ConfigUnreadable"
  by (intro exI conjI, code_simp, code_simp)

text \<open>A copy that fails leaves a directory that discovery takes for the plugin, before the installed one.\<close>

lemma failed_install_shadows:
  "\<exists>h. install_plugin demo_plugin_env ((demo_install True)\<lparr>ie_works := (\<lambda>p. p = [''plugin.toml''])\<rparr>) (demo_tree ''a'') None (demo_plugin_home []) = (Inl (InstallFailed ''copy''), h) \<and>
     map_sum id (map_option dp_root) (inspect_plugin demo_plugin_env h ''a'') = Inr (Some [''home'', ''.install-a-7''])"
  by (intro exI conjI, code_simp, code_simp)

section \<open>Built-in commands\<close>

lemma core_command_open: "ensure_builtin_command_enabled E h core_plugin_command = None"
  by (simp add: ensure_builtin_command_enabled_def builtin_command_enabled_def)

text \<open>A refusal always names the feature: the branch without one is never taken.\<close>

lemma refused_by_feature:
  assumes "ensure_builtin_command_enabled E h name = Some (CommandDisabled n f)"
  shows "\<exists>s cmd g. inspect_plugin_status E h builtins_plugin = Inr (Some s) \<and> find_command s name = Some cmd \<and> n = name \<and>
    pc_feature cmd = Some g \<and> f = Some g \<and> \<not> asset_feature_enabled s (Some g)"
proof -
  from assms have ne: "name \<noteq> core_plugin_command" using core_command_open [of E h] by auto
  show ?thesis
  proof (cases "inspect_plugin_status E h builtins_plugin")
    case (Inl e)
    have "e \<noteq> CommandDisabled n f"
      using Inl by (auto simp: inspect_plugin_status_def bind_result_def inspect_plugin_def list_plugins_def load_plugin_config_def split: sum.splits option.splits config_file.splits)
    then show ?thesis using Inl assms ne by (simp add: ensure_builtin_command_enabled_def builtin_command_enabled_def bind_result_def)
  next
    case (Inr q)
    with assms ne obtain s where q: "q = Some s" by (cases q) (simp_all add: ensure_builtin_command_enabled_def builtin_command_enabled_def bind_result_def)
    show ?thesis
      using Inr assms ne q by (auto simp: ensure_builtin_command_enabled_def builtin_command_enabled_def builtin_command_feature_def bind_result_def
        asset_feature_enabled_def split: if_splits option.splits bool.splits)
  qed
qed

end
