(* ===== verification/Conversation.thy ===== *)
theory Conversation
  imports Delivery Ordered_Map
begin

text \<open>
  What an agent is told with a message, \<open>crates/maturana-ops/src/conversation.rs\<close>: the transcript of each chat, memory
  notes, the windows on the context files, the terms the knowledge graph is asked for, the prompt, and the turns and
  outbox rows written to the sessions of \<open>Session_Queue\<close>. Files are a map from path to content; the graph service, the
  trajectory store, JSON and the clock are the environment.
\<close>

section \<open>State and environment\<close>

record chat_host =
  ch_files :: "str \<Rightarrow> str option"
  ch_sessions :: "str \<Rightarrow> session option" \<comment> \<open>by session directory\<close>

datatype chat_error = CannotRead str | CannotWrite str | DuplicateId | NoSession str

record wiki_term_source =
  wt_term :: str
  wt_sources :: "str list"

record loaded_file =
  lf_label :: str
  lf_path :: str
  lf_chars :: nat
  lf_missing :: bool

record context_manifest =
  cm_at :: str
  cm_agent_id :: str
  cm_chat_id :: int
  cm_source_files :: "loaded_file list"
  cm_wiki_query_terms :: "str list"
  cm_wiki_term_sources :: "wiki_term_source list"
  cm_graph_name :: "str option"
  cm_graph_context_chars :: nat
  cm_strategy :: str
  cm_transcript_char_budget :: nat
  cm_excludes_reset_marker :: bool
  cm_loaded_context_chars :: nat
  cm_transcript_path :: str
  cm_transcript_chars :: nat

record turn_content =
  tc_text :: str
  tc_prompt :: str
  tc_model :: "str option"
  tc_reasoning :: "str option"

text \<open>
  The environment of one call. Every file that can be written is written whole; \<open>ce_content\<close> also merges the caller's
  extra fields into the content.
\<close>

record chat_env =
  ce_root :: str
  ce_yaml :: "str \<Rightarrow> agent_description option"
  ce_settings :: "str \<Rightarrow> channel_settings option"
  ce_writable :: "str \<Rightarrow> bool"
  ce_openable :: "str \<Rightarrow> bool" \<comment> \<open>session databases\<close>
  ce_at :: str
  ce_date :: str
  ce_stamp :: str
  ce_millis :: str
  ce_graph_query :: "str list \<Rightarrow> str list \<Rightarrow> str"
  ce_learned :: "str \<Rightarrow> str"
  ce_manifest :: "context_manifest \<Rightarrow> str"
  ce_content :: "turn_content \<Rightarrow> str"
  ce_uuid :: str
  ce_now :: timestamp

definition read_file :: "str \<Rightarrow> chat_host \<Rightarrow> chat_error + str" where
  "read_file p h = (case ch_files h p of Some c \<Rightarrow> if utf8 c then Inr c else Inl (CannotRead p) | None \<Rightarrow> Inl (CannotRead p))"

definition write_file :: "chat_env \<Rightarrow> str \<Rightarrow> str \<Rightarrow> chat_host \<Rightarrow> chat_error + chat_host" where
  "write_file E p c h = (if ce_writable E p then Inr (h\<lparr>ch_files := (ch_files h)(p := Some c)\<rparr>) else Inl (CannotWrite p))"

definition append_file :: "chat_env \<Rightarrow> str \<Rightarrow> str \<Rightarrow> chat_host \<Rightarrow> chat_error + chat_host" where
  "append_file E p c h = write_file E p ((case ch_files h p of None \<Rightarrow> [] | Some old \<Rightarrow> old) @ c) h"

definition rename_file :: "chat_env \<Rightarrow> str \<Rightarrow> str \<Rightarrow> chat_host \<Rightarrow> chat_error + chat_host" where
  "rename_file E p q h =
     (if ce_writable E q then Inr (h\<lparr>ch_files := (ch_files h)(q := ch_files h p, p := None)\<rparr>) else Inl (CannotWrite q))"

section \<open>Paths\<close>

definition chat_dir :: "chat_env \<Rightarrow> str \<Rightarrow> str" where
  "chat_dir E agent = path_join (agent_dir (ce_root E) agent) ''channels/telegram''"

definition channel_transcript_path :: "chat_env \<Rightarrow> str \<Rightarrow> int \<Rightarrow> str" where
  "channel_transcript_path E agent chat = path_join (chat_dir E agent) (show_int chat @ ''.md'')"

definition channel_context_manifest_path :: "chat_env \<Rightarrow> str \<Rightarrow> int \<Rightarrow> str" where
  "channel_context_manifest_path E agent chat = path_join (chat_dir E agent) (show_int chat @ ''.context.json'')"

definition memory_path :: "chat_env \<Rightarrow> str \<Rightarrow> str" where
  "memory_path E agent = path_join (agent_dir (ce_root E) agent) ''memory/MEMORY.md''"

definition memory_note_path :: "chat_env \<Rightarrow> str \<Rightarrow> str" where
  "memory_note_path E agent = path_join (path_join (agent_dir (ce_root E) agent) ''inbox'') (''memory-'' @ ce_millis E @ ''.md'')"

definition spec_path :: "chat_env \<Rightarrow> str \<Rightarrow> str" where
  "spec_path E agent = path_join (agent_dir (ce_root E) agent) ''MATURANA.md''"

section \<open>The transcript\<close>

definition turn_entry :: "str \<Rightarrow> str \<Rightarrow> str \<Rightarrow> str" where
  "turn_entry at role body = [newline_byte] @ ''## '' @ at @ '' '' @ role @ [newline_byte, newline_byte] @ trim_text body @ [newline_byte]"

definition append_channel_turn :: "chat_env \<Rightarrow> str \<Rightarrow> int \<Rightarrow> str \<Rightarrow> str \<Rightarrow> chat_host \<Rightarrow> chat_error + chat_host" where
  "append_channel_turn E agent chat role body h =
     append_file E (channel_transcript_path E agent chat) (turn_entry (ce_at E) role body) h"

definition session_header :: "str \<Rightarrow> str" where
  "session_header at = ''# Telegram Session'' @ [newline_byte, newline_byte] @ ''Started: '' @ at @ [newline_byte, newline_byte] @
     ''Memory and wiki context will be reloaded on the next turn.'' @ [newline_byte]"

definition archive_if_present :: "chat_env \<Rightarrow> str \<Rightarrow> str \<Rightarrow> chat_host \<Rightarrow> chat_error + chat_host" where
  "archive_if_present E p q h = (if ch_files h p = None then Inr h else rename_file E p q h)"

definition archived_path :: "chat_env \<Rightarrow> str \<Rightarrow> int \<Rightarrow> str \<Rightarrow> str" where
  "archived_path E agent chat ext =
     path_join (path_join (chat_dir E agent) ''archive'') ((show_int chat @ ''-'' @ ce_stamp E) @ ext)"

text \<open>What an error leaves is not the state before, so the host is returned with it.\<close>

definition reset_channel_context :: "chat_env \<Rightarrow> str \<Rightarrow> int \<Rightarrow> chat_host \<Rightarrow> chat_error option \<times> chat_host" where
  "reset_channel_context E agent chat h =
     (case archive_if_present E (channel_transcript_path E agent chat) (archived_path E agent chat ''.md'') h of
        Inl e \<Rightarrow> (Some e, h)
      | Inr h1 \<Rightarrow> (case archive_if_present E (channel_context_manifest_path E agent chat) (archived_path E agent chat ''.context.json'') h1 of
          Inl e \<Rightarrow> (Some e, h1)
        | Inr h2 \<Rightarrow> (case write_file E (channel_transcript_path E agent chat) (session_header (ce_at E)) h2 of
            Inl e \<Rightarrow> (Some e, h2)
          | Inr h3 \<Rightarrow> (None, h3))))"

section \<open>Memory\<close>

definition memory_cues :: "str list" where
  "memory_cues = [''/remember '', ''remember that '', ''remember this: '', ''remember this:'', ''remember: '', ''remember:'',
     ''please remember '', ''remember '']"

definition memory_heuristics :: "str list" where
  "memory_heuristics = [''my name is'', ''call me '', ''i prefer'', ''i live in'', ''i work at'', ''my email'', ''my phone'', ''my timezone'',
     ''my birthday'', ''remind me'', ''deadline'', ''due by'', ''due on'']"

fun first_cue :: "str \<Rightarrow> str list \<Rightarrow> str option" where
  "first_cue t [] = None"
| "first_cue t (cue # cues) =
     (if prefix cue (to_ascii_lowercase t) \<and> trim_text (drop (length cue) t) \<noteq> [] then Some (trim_text (drop (length cue) t))
      else first_cue t cues)"

definition extract_memory_fact :: "str \<Rightarrow> str option" where
  "extract_memory_fact body =
     (let t = trim_text body
      in if t = [] then None
         else case first_cue t memory_cues of
             Some f \<Rightarrow> Some f
           | None \<Rightarrow> if list_ex (\<lambda>x. contains x (to_ascii_lowercase t)) memory_heuristics then Some t else None)"

definition read_graph_token :: "chat_env \<Rightarrow> chat_host \<Rightarrow> str option" where
  "read_graph_token E h =
     (case read_file (path_join (path_join (ce_root E) ''graph'') ''token'') h of
        Inl _ \<Rightarrow> None
      | Inr c \<Rightarrow> if trim_text c = [] then None else Some (trim_text c))"

text \<open>
  With a graph token the fact is also written as a note to the inbox and sent to the graph service, both best effort; the
  service is not part of the host's state.
\<close>

definition maybe_remember_user_message :: "chat_env \<Rightarrow> str \<Rightarrow> str \<Rightarrow> chat_host \<Rightarrow> chat_error + chat_host" where
  "maybe_remember_user_message E agent body h =
     (case extract_memory_fact body of
        None \<Rightarrow> Inr h
      | Some f \<Rightarrow>
          bind_result (if ch_files h (memory_path E agent) = None then write_file E (memory_path E agent) (''# Memory'' @ [newline_byte]) h else Inr h) (\<lambda>h1.
          bind_result (append_file E (memory_path E agent) ([newline_byte] @ ''- '' @ ce_date E @ '': '' @ f @ [newline_byte]) h1) (\<lambda>h2.
            Inr (case read_graph_token E h2 of
                None \<Rightarrow> h2
              | Some _ \<Rightarrow> (case write_file E (memory_note_path E agent) f h2 of Inr h3 \<Rightarrow> h3 | Inl _ \<Rightarrow> h2)))))"

section \<open>Windows on files\<close>

definition truncate_chars :: "str \<Rightarrow> nat \<Rightarrow> str" where
  "truncate_chars v limit =
     (if length (chars_of v) \<le> limit then v else concat (take limit (chars_of v)) @ [newline_byte] @ ''...[truncated]'')"

definition read_context_file :: "str \<Rightarrow> str \<Rightarrow> nat \<Rightarrow> chat_host \<Rightarrow> chat_error + str \<times> loaded_file" where
  "read_context_file label p limit h =
     (if ch_files h p = None then Inr (''(missing)'', \<lparr> lf_label = label, lf_path = p, lf_chars = 0, lf_missing = True \<rparr>)
      else bind_result (read_file p h) (\<lambda>c.
        let c1 = truncate_chars c limit
        in Inr (c1, \<lparr> lf_label = label, lf_path = p, lf_chars = length (chars_of c1), lf_missing = False \<rparr>)))"

definition tail_window :: "nat \<Rightarrow> str \<Rightarrow> str" where
  "tail_window limit c =
     (let n = length (chars_of c)
      in if n \<le> limit then c
         else ''[older transcript omitted]'' @ [newline_byte] @ concat (drop (n - limit) (chars_of c)))"

definition tail_context_file :: "str \<Rightarrow> nat \<Rightarrow> chat_host \<Rightarrow> chat_error + str" where
  "tail_context_file p limit h =
     (if ch_files h p = None then Inr ''(no transcript yet)'' else bind_result (read_file p h) (\<lambda>c. Inr (tail_window limit c)))"

definition identity_context_chars :: nat where "identity_context_chars = 8000"
definition soul_context_chars :: nat where "soul_context_chars = 4000"
definition contract_context_chars :: nat where "contract_context_chars = 5000"
definition memory_context_chars :: nat where "memory_context_chars = 5000"
definition agent_context_chars :: nat where "agent_context_chars = 3000"
definition transcript_context_chars :: nat where "transcript_context_chars = 8000"

section \<open>Terms for the graph\<close>

definition normalize_wiki_query_term :: "str \<Rightarrow> str" where
  "normalize_wiki_query_term t =
     to_ascii_lowercase (rev (dropWhile (\<lambda>c. \<not> is_ascii_alnum c) (rev (dropWhile (\<lambda>c. \<not> is_ascii_alnum c) t))))"

definition wiki_query_stopwords :: "str list" where
  "wiki_query_stopwords = [''about'', ''again'', ''agent'', ''context'', ''current'', ''durable'', ''hello'', ''memory'', ''maturana'', ''message'',
     ''please'', ''reload'', ''reloaded'', ''session'', ''should'', ''telegram'', ''transcript'', ''turn'', ''what'', ''wiki'', ''with'']"

definition is_wiki_query_stopword :: "str \<Rightarrow> bool" where
  "is_wiki_query_stopword t \<longleftrightarrow> t \<in> set wiki_query_stopwords"

definition extract_wiki_query_terms :: "str \<Rightarrow> str list" where
  "extract_wiki_query_terms q =
     remdups_adj (sort (filter (\<lambda>t. 3 \<le> length t \<and> \<not> is_wiki_query_stopword t) (map normalize_wiki_query_term (split_whitespace q))))"

definition collect_wiki_query_terms :: "str \<Rightarrow> str \<Rightarrow> str list omap \<Rightarrow> str list omap" where
  "collect_wiki_query_terms source body terms =
     fold (\<lambda>t m. let ss = (case map_of m t of Some ss \<Rightarrow> ss | None \<Rightarrow> [])
                 in om_insert t (if source \<in> set ss then ss else ss @ [source]) m)
       (extract_wiki_query_terms body) terms"

definition transcript_for_wiki_query :: "str \<Rightarrow> str" where
  "transcript_for_wiki_query transcript =
     join [newline_byte] (filter (\<lambda>l. \<not> contains ''Memory and wiki context will be reloaded'' l)
       (filter (\<lambda>l. \<not> prefix ''Started:'' l) (filter (\<lambda>l. \<not> prefix ''# Telegram Session'' l) (text_lines transcript))))"

definition build_wiki_query_policy :: "str \<Rightarrow> str \<Rightarrow> wiki_term_source list" where
  "build_wiki_query_policy message transcript =
     map (\<lambda>(t, ss). \<lparr> wt_term = t, wt_sources = ss \<rparr>)
       (collect_wiki_query_terms ''recent_transcript'' (transcript_for_wiki_query transcript)
         (collect_wiki_query_terms ''current_message'' message []))"

section \<open>The context of a message\<close>

record channel_context =
  cx_identity :: "str \<times> loaded_file"
  cx_soul :: "str \<times> loaded_file"
  cx_contract :: "str \<times> loaded_file"
  cx_memory :: "str \<times> loaded_file"
  cx_agent_context :: "str \<times> loaded_file"
  cx_terms :: "wiki_term_source list"
  cx_graph :: "(str \<times> str) option" \<comment> \<open>name and rendering\<close>
  cx_learned :: str
  cx_self_forge :: bool
  cx_onboarding :: bool
  cx_transcript :: str
  cx_transcript_path :: str

definition spec_of :: "chat_env \<Rightarrow> str \<Rightarrow> chat_host \<Rightarrow> agent_description option" where
  "spec_of E agent h =
     (case read_file (spec_path E agent) h of
        Inl _ \<Rightarrow> None
      | Inr raw \<Rightarrow> (case from_maturana_markdown (ce_yaml E) raw of Inl _ \<Rightarrow> None | Inr s \<Rightarrow> Some s))"

definition agent_graph_name :: "str \<Rightarrow> str" where
  "agent_graph_name agent =
     (let safe = concat (map (\<lambda>c. case c of [a] \<Rightarrow> if is_ascii_alnum a \<or> a = CHR ''-'' then [lower_char a] else ''-'' | _ \<Rightarrow> ''-'') (chars_of agent));
          trim_dash = dropWhile (\<lambda>c. c = CHR ''-'')
      in ''agent.'' @ rev (trim_dash (rev (trim_dash safe))))"

definition load_graph_channel_context :: "chat_env \<Rightarrow> str \<Rightarrow> str list \<Rightarrow> chat_host \<Rightarrow> (str \<times> str) option" where
  "load_graph_channel_context E agent terms h =
     (let kg = (case spec_of E agent h of Some s \<Rightarrow> as_knowledge_graph s | None \<Rightarrow> \<lparr> kg_enabled = True, kg_graph = None \<rparr>)
      in if \<not> kg_enabled kg then None
         else case read_graph_token E h of
             None \<Rightarrow> None
           | Some _ \<Rightarrow>
               let shared = graph_name kg agent; own = agent_graph_name agent
               in Some (own @ '' + '' @ shared, ce_graph_query E [own, shared] terms))"

definition load_channel_context :: "chat_env \<Rightarrow> str \<Rightarrow> int \<Rightarrow> str \<Rightarrow> chat_host \<Rightarrow> chat_error + channel_context" where
  "load_channel_context E agent chat message h =
     (let dir = agent_dir (ce_root E) agent; tp = channel_transcript_path E agent chat;
          file = (\<lambda>label limit. read_context_file label (path_join dir label) limit h)
      in bind_result (tail_context_file tp transcript_context_chars h) (\<lambda>transcript.
         let sources = build_wiki_query_policy message transcript
         in bind_result (file ''AGENTS.md'' identity_context_chars) (\<lambda>identity.
         bind_result (file ''SOUL.md'' soul_context_chars) (\<lambda>soul.
         bind_result (file ''MATURANA.md'' contract_context_chars) (\<lambda>contract.
         bind_result (file ''memory/MEMORY.md'' memory_context_chars) (\<lambda>memory.
         bind_result (file ''context/README.md'' agent_context_chars) (\<lambda>context.
           Inr \<lparr> cx_identity = identity, cx_soul = soul, cx_contract = contract, cx_memory = memory, cx_agent_context = context,
                 cx_terms = sources, cx_graph = load_graph_channel_context E agent (map wt_term sources) h,
                 cx_learned = ce_learned E agent,
                 cx_self_forge = (case spec_of E agent h of Some s \<Rightarrow> cap_self_forge (as_capabilities s) | None \<Rightarrow> False),
                 cx_onboarding = (ch_files h (path_join dir ''onboarding-active'') \<noteq> None),
                 cx_transcript = transcript, cx_transcript_path = tp \<rparr>)))))))"

section \<open>The prompt\<close>

text \<open>Lines of a text; the pick and the gear of the source as bytes.\<close>

definition lines_text :: "str list \<Rightarrow> str" where
  "lines_text ls = concat (map (\<lambda>l. l @ [newline_byte]) ls)"

definition hammer :: str where "hammer = [CHR 0xF0, CHR 0x9F, CHR 0x94, CHR 0xA8]"
definition gear :: str where "gear = [CHR 0xE2, CHR 0x9A, CHR 0x99, CHR 0xEF, CHR 0xB8, CHR 0x8F]"
definition backtick :: char where "backtick = CHR 0x60"
definition apostrophe :: char where "apostrophe = CHR 0x27"
definition double_quote :: char where "double_quote = CHR 0x22"

definition forge_prompt_section :: str where
  "forge_prompt_section = lines_text [
     [],
     ''## Self-Forge '' @ em_dash @ '' build and run a capability on the fly'',
     ''You are allowed to extend yourself at runtime. When a task needs computation or'',
     ''transformation you don'' @ [apostrophe] @ ''t already have, author a small WebAssembly capability and'',
     ''run it immediately, the same turn, in a sandbox '' @ em_dash @ '' no host rebuild. Use the'',
     [backtick] @ ''maturana-forge'' @ [backtick] @ '' shell helper:'',
     [],
     [backtick, backtick, backtick],
     ''maturana-forge <name> --input '' @ [apostrophe] @ ''{'' @ [double_quote] @ ''n'' @ [double_quote] @ '': 7}'' @ [apostrophe] @ '' <<'' @ [apostrophe] @ ''WAT'' @ [apostrophe],
     ''(module'',
     ''  (import '' @ [double_quote] @ ''wasi_snapshot_preview1'' @ [double_quote] @ '' '' @ [double_quote] @ ''fd_write'' @ [double_quote],
     ''    (func $fd_write (param i32 i32 i32 i32) (result i32)))'',
     ''  (memory (export '' @ [double_quote] @ ''memory'' @ [double_quote] @ '') 1)'',
     ''  ;; ... compute, then write the result to stdout (fd 1) via fd_write ...'',
     ''  (func (export '' @ [double_quote] @ ''_start'' @ [double_quote] @ '') ...))'',
     ''WAT'',
     [backtick, backtick, backtick],
     [],
     ''It assembles your WAT, runs the module under a fuel/memory/timeout sandbox (no'',
     ''ambient filesystem or network unless you declare it), and returns the module'' @ [apostrophe] @ ''s'',
     ''stdout. Submit a precompiled module with '' @ [backtick] @ ''--wasm <base64>'' @ [backtick] @ '' instead of heredoc'',
     ''WAT. The channel shows a '' @ hammer @ '' Building / '' @ gear @ '' Running animation while it happens.'',
     ''Forge sparingly and only when it helps; then describe in your reply what you'',
     ''built and what it returned.'']"

definition onboarding_prompt_section :: str where
  "onboarding_prompt_section = lines_text [
     [],
     ''## Onboarding in progress '' @ em_dash @ '' KEEP THE INTERVIEW GOING'',
     ''You are still in your first-run onboarding interview with your owner. This '' @
     ''is a short, warm conversation, not a one-off Q&A. After briefly acknowledging '' @
     ''what they just told you, ASK THE NEXT THING you don'' @ [apostrophe] @ ''t yet know '' @ em_dash @ '' one question '' @
     ''at a time '' @ em_dash @ '' until you have learned ALL of: their name and how they'' @ [apostrophe] @ ''d like to '' @
     ''be addressed; their timezone / working hours; and the main things they want '' @
     ''your help with. Save durable facts to memory and fill IDENTITY.md'' @ [apostrophe] @ ''s '' @ [double_quote] @ ''Who you '' @
     ''are to me'' @ [double_quote] @ '' section as you learn them. Until you have all of that, your reply '' @
     ''MUST end with the next question. Only when you genuinely have everything, give '' @
     ''a short warm wrap-up and put [[ONBOARDING_COMPLETE]] on its own final line (it '' @
     ''is removed before the message is sent).'']"

definition graph_section :: "(str \<times> str) option \<Rightarrow> str" where
  "graph_section g =
     (case g of
        None \<Rightarrow> []
      | Some (name, rendered) \<Rightarrow> lines_text [
          [],
          ''## Knowledge Graph Context (GraphRAG, graph '' @ [backtick] @ name @ [backtick] @ '')'',
          [],
          ''Entities and relationships retrieved from your knowledge graph for this message. Treat them as ground truth about ingested documents and recorded facts.'',
          [],
          rendered])"

definition learned_section :: "str \<Rightarrow> str" where
  "learned_section learned =
     (if trim_text learned = [] then [] else lines_text [[], ''## Learned Examples (positively rated)'', [], learned])"

definition render_channel_prompt :: "channel_context \<Rightarrow> str \<Rightarrow> str" where
  "render_channel_prompt c message = lines_text [
     ''You are a Maturana personal agent running inside an isolated VM.'',
     [],
     ''Answer the current Telegram message directly and conversationally.'',
     ''Use the durable memory and recent channel transcript for continuity.'',
     ''Do not say you cannot remember earlier messages if the transcript contains them.'',
     ''If the user asks you to remember something, acknowledge it briefly; the host has already stored the raw user memory note.'',
     ''Return only the message that should be sent back to Telegram.'',
     (if cx_onboarding c then onboarding_prompt_section else []),
     ''## AGENTS.md'', fst (cx_identity c), [],
     ''## SOUL.md'', fst (cx_soul c), [],
     ''## MATURANA.md'', fst (cx_contract c), [],
     ''## Durable Memory'', fst (cx_memory c), [],
     ''## Agent Context'', fst (cx_agent_context c),
     graph_section (cx_graph c) @ learned_section (cx_learned c) @ (if cx_self_forge c then forge_prompt_section else []),
     ''## Recent Telegram Transcript'', cx_transcript c, [],
     ''## Current Telegram Message'', message]"

definition context_manifest_of :: "chat_env \<Rightarrow> str \<Rightarrow> int \<Rightarrow> channel_context \<Rightarrow> context_manifest" where
  "context_manifest_of E agent chat c =
     (let files = map snd [cx_identity c, cx_soul c, cx_contract c, cx_memory c, cx_agent_context c];
          graph_chars = (case cx_graph c of None \<Rightarrow> 0 | Some (_, r) \<Rightarrow> length (chars_of r));
          transcript_chars = length (chars_of (cx_transcript c))
      in \<lparr> cm_at = ce_at E, cm_agent_id = agent, cm_chat_id = chat, cm_source_files = files,
           cm_wiki_query_terms = map wt_term (cx_terms c), cm_wiki_term_sources = cx_terms c,
           cm_graph_name = map_option fst (cx_graph c), cm_graph_context_chars = graph_chars,
           cm_strategy = ''durable-files-plus-current-message-and-recent-transcript-graph-terms'',
           cm_transcript_char_budget = transcript_context_chars, cm_excludes_reset_marker = True,
           cm_loaded_context_chars = sum_list (map lf_chars files) + graph_chars + transcript_chars,
           cm_transcript_path = cx_transcript_path c, cm_transcript_chars = transcript_chars \<rparr>)"

definition build_channel_prompt :: "chat_env \<Rightarrow> str \<Rightarrow> int \<Rightarrow> str \<Rightarrow> chat_host \<Rightarrow> chat_error + str \<times> chat_host" where
  "build_channel_prompt E agent chat message h =
     bind_result (load_channel_context E agent chat message h) (\<lambda>c.
     bind_result (write_file E (channel_context_manifest_path E agent chat) (ce_manifest E (context_manifest_of E agent chat c)) h) (\<lambda>h1.
       Inr (render_channel_prompt c message, h1)))"

section \<open>Turns\<close>

definition load_channel_settings :: "chat_env \<Rightarrow> str \<Rightarrow> chat_host \<Rightarrow> channel_settings" where
  "load_channel_settings E agent h =
     (case read_file (path_join (agent_dir (ce_root E) agent) ''channel-settings.json'') h of
        Inl _ \<Rightarrow> default_settings
      | Inr raw \<Rightarrow> (case ce_settings E raw of Some s \<Rightarrow> s | None \<Rightarrow> default_settings))"

definition turn_session :: "chat_env \<Rightarrow> str \<Rightarrow> str \<Rightarrow> str" where
  "turn_session E agent session_id = session_dir (agent_dir (ce_root E) agent) session_id"

definition chat_session :: "str \<Rightarrow> chat_host \<Rightarrow> session" where
  "chat_session p h = (case ch_sessions h p of Some s \<Rightarrow> s | None \<Rightarrow> empty_session)"

definition queue_turn :: "chat_env \<Rightarrow> str \<Rightarrow> str \<Rightarrow> str \<Rightarrow> str \<Rightarrow> str \<Rightarrow> str option \<Rightarrow> str \<Rightarrow> chat_host \<Rightarrow> chat_error + str \<times> chat_host" where
  "queue_turn E agent session_id kind channel platform thread content h =
     (let p = turn_session E agent session_id
      in if \<not> ce_openable E p then Inl (NoSession p)
         else case insert_inbound (ce_uuid E) (ce_now E) kind channel platform thread content (chat_session p h) of
             Inl UniqueViolation \<Rightarrow> Inl DuplicateId
           | Inr (i, s) \<Rightarrow> Inr (i, h\<lparr>ch_sessions := (ch_sessions h)(p \<mapsto> s)\<rparr>))"

definition turn_of :: "chat_env \<Rightarrow> str \<Rightarrow> chat_host \<Rightarrow> str \<Rightarrow> str \<Rightarrow> turn_content" where
  "turn_of E agent h body prompt =
     \<lparr> tc_text = body, tc_prompt = prompt, tc_model = st_model (load_channel_settings E agent h), tc_reasoning = st_reasoning (load_channel_settings E agent h) \<rparr>"

text \<open>Here too the host is returned with an error.\<close>

definition enqueue_turn :: "chat_env \<Rightarrow> str \<Rightarrow> str \<Rightarrow> str \<Rightarrow> str \<Rightarrow> int \<Rightarrow> str option \<Rightarrow> str \<Rightarrow> chat_host \<Rightarrow> (chat_error + str) \<times> chat_host" where
  "enqueue_turn E agent session_id channel platform chat thread body h =
     (case append_channel_turn E agent chat ''user'' body h of
        Inl e \<Rightarrow> (Inl e, h)
      | Inr h1 \<Rightarrow> (case maybe_remember_user_message E agent body h1 of
          Inl e \<Rightarrow> (Inl e, h1)
        | Inr h2 \<Rightarrow> (case build_channel_prompt E agent chat body h2 of
            Inl e \<Rightarrow> (Inl e, h2)
          | Inr (prompt, h3) \<Rightarrow>
              (case queue_turn E agent session_id ''chat'' channel platform thread (ce_content E (turn_of E agent h3 body prompt)) h3 of
                 Inl e \<Rightarrow> (Inl e, h3) | Inr (i, h4) \<Rightarrow> (Inr i, h4)))))"

definition enqueue_outreach_turn :: "chat_env \<Rightarrow> str \<Rightarrow> str \<Rightarrow> int \<Rightarrow> str \<Rightarrow> str \<Rightarrow> chat_host \<Rightarrow> (chat_error + str) \<times> chat_host" where
  "enqueue_outreach_turn E agent session_id chat directive kind h =
     (case build_channel_prompt E agent chat directive h of
        Inl e \<Rightarrow> (Inl e, h)
      | Inr (prompt, h1) \<Rightarrow>
          (case queue_turn E agent session_id kind ''telegram'' (show_int chat) None (ce_content E (turn_of E agent h1 directive prompt)) h1 of
             Inl e \<Rightarrow> (Inl e, h1) | Inr (i, h2) \<Rightarrow> (Inr i, h2)))"

section \<open>The outbox\<close>

record outbox_target =
  ot_channel :: str
  ot_platform_id :: str
  ot_thread_id :: "str option"
  ot_agent_id :: str
  ot_session_id :: str

definition write_outbox_body :: "chat_env \<Rightarrow> outbox_target \<Rightarrow> str \<Rightarrow> chat_host \<Rightarrow> chat_error + bool \<times> chat_host" where
  "write_outbox_body E t body h =
     (let p = turn_session E (ot_agent_id t) (ot_session_id t)
      in if \<not> ce_openable E p then Inl (NoSession p)
         else case write_outbound (ce_uuid E) (ce_now E) None ''chat'' (ot_channel t) (ot_platform_id t) (ot_thread_id t) body (chat_session p h) of
             Inl UniqueViolation \<Rightarrow> Inl DuplicateId
           | Inr (i, s) \<Rightarrow> Inr (True, h\<lparr>ch_sessions := (ch_sessions h)(p \<mapsto> s)\<rparr>))"

text \<open>\<open>json\<close> writes the body with the files, when there are any.\<close>

definition post_outbox_text :: "chat_env \<Rightarrow> (str \<Rightarrow> str list option \<Rightarrow> str) \<Rightarrow> outbox_target option \<Rightarrow> str \<Rightarrow> chat_host \<Rightarrow> chat_error + bool \<times> chat_host" where
  "post_outbox_text E json target body h =
     (case target of None \<Rightarrow> Inr (False, h) | Some t \<Rightarrow> write_outbox_body E t (json body None) h)"

definition post_outbox_files :: "chat_env \<Rightarrow> (str \<Rightarrow> str list option \<Rightarrow> str) \<Rightarrow> outbox_target option \<Rightarrow> str \<Rightarrow> str list \<Rightarrow> chat_host \<Rightarrow> chat_error + bool \<times> chat_host" where
  "post_outbox_files E json target body files h =
     (case target of
        None \<Rightarrow> Inr (False, h)
      | Some t \<Rightarrow>
          let existing = filter (\<lambda>f. ch_files h f \<noteq> None) files
          in if existing = [] then post_outbox_text E json target body h else write_outbox_body E t (json body (Some existing)) h)"

section \<open>Characters of a concatenation\<close>

lemma chars_of_dropWhile_le: "length (chars_of (dropWhile (byte_in 128 191) t)) \<le> length (chars_of t)"
proof (induction t)
  case (Cons a t)
  show ?case
  proof (cases "byte_in 128 191 a")
    case True
    then have "\<not> byte_in 0 127 a" by (simp add: byte_in_def)
    with True show ?thesis by simp
  qed simp
qed simp

lemma chars_of_append_le: "length (chars_of (s @ t)) \<le> length (chars_of s) + length (chars_of t)"
proof (induction s rule: chars_of.induct)
  case (2 a s)
  show ?case
  proof (cases "byte_in 0 127 a")
    case True
    then show ?thesis using 2 by simp
  next
    case False
    show ?thesis
    proof (cases "dropWhile (byte_in 128 191) s = []")
      case True
      then have "dropWhile (byte_in 128 191) (s @ t) = dropWhile (byte_in 128 191) t"
        by (simp add: dropWhile_append1 dropWhile_append2)
      then show ?thesis using False True chars_of_dropWhile_le [of t] by simp
    next
      case ne: False
      then have "dropWhile (byte_in 128 191) (s @ t) = dropWhile (byte_in 128 191) s @ t"
        by (metis dropWhile_append1 dropWhile_eq_Nil_conv)
      then show ?thesis using False 2 by simp
    qed
  qed
qed simp

lemma dropWhile_takeWhile_same [simp]: "dropWhile P (takeWhile P s) = []"
  by (induction s) auto

lemma char_of_char: "c \<in> set (chars_of s) \<Longrightarrow> length (chars_of c) \<le> 1"
  by (induction s rule: chars_of.induct) (auto split: if_splits)

lemma single_chars_le: "\<forall>c\<in>set cs. length (chars_of c) \<le> 1 \<Longrightarrow> length (chars_of (concat cs)) \<le> length cs"
proof (induction cs)
  case (Cons c cs)
  then have "length (chars_of c) \<le> 1" "length (chars_of (concat cs)) \<le> length cs" by simp_all
  then show ?case using chars_of_append_le [of c "concat cs"] by simp
qed simp

lemma chars_taken_le: "length (chars_of (concat (take n (chars_of s)))) \<le> n"
  by (simp add: chars_of_take)

lemma chars_dropped_le: "length (chars_of (concat (drop n (chars_of s)))) \<le> length (chars_of s) - n"
proof -
  have "\<forall>c\<in>set (drop n (chars_of s)). length (chars_of c) \<le> 1" using char_of_char in_set_dropD by fast
  from single_chars_le [OF this] show ?thesis by simp
qed

lemma chars_ascii: "\<forall>c\<in>set s. byte_in 0 127 c \<Longrightarrow> chars_of s = map (\<lambda>c. [c]) s"
  by (induction s) simp_all

section \<open>What the windows let through\<close>

lemma truncate_bound: "length (chars_of (truncate_chars v n)) \<le> n + 15"
proof (cases "length (chars_of v) \<le> n")
  case False
  have "length (chars_of (truncate_chars v n)) \<le> length (chars_of (concat (take n (chars_of v)))) + length (chars_of ([newline_byte] @ ''...[truncated]''))"
    using False chars_of_append_le by (simp add: truncate_chars_def del: append_Cons append.left_neutral)
  moreover have "length (chars_of ([newline_byte] @ ''...[truncated]'')) = 15" by code_simp
  ultimately show ?thesis using chars_taken_le [of n v] by linarith
qed (simp add: truncate_chars_def)

lemma read_context_bound:
  assumes "read_context_file label p n h = Inr x" and "9 \<le> n"
  shows "length (chars_of (fst x)) \<le> n + 15"
proof (cases "ch_files h p = None")
  case True
  then have "fst x = ''(missing)''" using assms(1) by (cases x) (simp add: read_context_file_def)
  moreover have "length (chars_of ''(missing)'') = 9" by code_simp
  ultimately show ?thesis using assms(2) by simp
next
  case False
  then show ?thesis using assms truncate_bound by (auto simp: read_context_file_def bind_result_Inr Let_def)
qed

lemma tail_window_bound: "length (chars_of (tail_window n c)) \<le> n + 27"
proof (cases "length (chars_of c) \<le> n")
  case False
  have "length (chars_of ((''[older transcript omitted]'' @ [newline_byte]) @ concat (drop (length (chars_of c) - n) (chars_of c)))) \<le>
      length (chars_of (''[older transcript omitted]'' @ [newline_byte])) + (length (chars_of c) - (length (chars_of c) - n))"
    by (meson add_left_mono chars_dropped_le chars_of_append_le order_trans)
  moreover have "length (chars_of (''[older transcript omitted]'' @ [newline_byte])) = 27" by code_simp
  ultimately show ?thesis using False by (simp add: tail_window_def Let_def)
qed (simp add: tail_window_def)

lemma tail_bound:
  assumes "tail_context_file p n h = Inr c" and "19 \<le> n"
  shows "length (chars_of c) \<le> n + 27"
proof (cases "ch_files h p = None")
  case True
  then have "c = ''(no transcript yet)''" using assms(1) by (simp add: tail_context_file_def)
  moreover have "length (chars_of ''(no transcript yet)'') = 19" by code_simp
  ultimately show ?thesis using assms(2) by simp
next
  case False
  then show ?thesis using assms(1) tail_window_bound by (auto simp: tail_context_file_def bind_result_Inr)
qed

section \<open>How long a prompt can be\<close>

lemma chars_le_length: "length (chars_of s) \<le> length s"
proof (induction s rule: chars_of.induct)
  case (2 a s)
  have "length (dropWhile (byte_in 128 191) s) \<le> length s" by (rule length_dropWhile_le)
  with 2 show ?case by (cases "byte_in 0 127 a") (simp_all del: One_nat_def)
qed simp

lemma lines_text_bound: "length (chars_of (lines_text ls)) \<le> sum_list (map (\<lambda>l. length (chars_of l) + 1) ls)"
proof (induction ls)
  case (Cons l ls)
  have "length (chars_of [newline_byte]) \<le> 1" using chars_le_length [of "[newline_byte]"] by simp
  moreover have "length (chars_of (lines_text (l # ls))) \<le> length (chars_of l) + length (chars_of [newline_byte]) + length (chars_of (lines_text ls))"
    using chars_of_append_le [of l "[newline_byte] @ lines_text ls"] chars_of_append_le [of "[newline_byte]" "lines_text ls"]
    by (simp add: lines_text_def)
  ultimately show ?case using Cons.IH by simp
qed (simp add: lines_text_def)

definition window_chars :: nat where
  "window_chars = identity_context_chars + soul_context_chars + contract_context_chars + memory_context_chars + agent_context_chars
     + transcript_context_chars + 5 * 15 + 27"

lemma load_context_bound:
  assumes "load_channel_context E agent chat message h = Inr c"
  shows "length (chars_of (fst (cx_identity c))) + length (chars_of (fst (cx_soul c))) + length (chars_of (fst (cx_contract c)))
      + length (chars_of (fst (cx_memory c))) + length (chars_of (fst (cx_agent_context c))) + length (chars_of (cx_transcript c)) \<le> window_chars
    \<and> cx_learned c = ce_learned E agent"
proof -
  from assms obtain p1 p2 p3 p4 p5 p6 l1 l2 l3 l4 l5 where f:
    "tail_context_file p6 transcript_context_chars h = Inr (cx_transcript c)"
    "read_context_file l1 p1 identity_context_chars h = Inr (cx_identity c)" "read_context_file l2 p2 soul_context_chars h = Inr (cx_soul c)"
    "read_context_file l3 p3 contract_context_chars h = Inr (cx_contract c)" "read_context_file l4 p4 memory_context_chars h = Inr (cx_memory c)"
    "read_context_file l5 p5 agent_context_chars h = Inr (cx_agent_context c)" and learned: "cx_learned c = ce_learned E agent"
    by (auto simp: load_channel_context_def bind_result_Inr Let_def)
  note limits = transcript_context_chars_def identity_context_chars_def soul_context_chars_def contract_context_chars_def
    memory_context_chars_def agent_context_chars_def
  have "length (chars_of (cx_transcript c)) \<le> transcript_context_chars + 27" by (rule tail_bound [OF f(1)]) (simp add: limits)
  moreover have "length (chars_of (fst (cx_identity c))) \<le> identity_context_chars + 15" by (rule read_context_bound [OF f(2)]) (simp add: limits)
  moreover have "length (chars_of (fst (cx_soul c))) \<le> soul_context_chars + 15" by (rule read_context_bound [OF f(3)]) (simp add: limits)
  moreover have "length (chars_of (fst (cx_contract c))) \<le> contract_context_chars + 15" by (rule read_context_bound [OF f(4)]) (simp add: limits)
  moreover have "length (chars_of (fst (cx_memory c))) \<le> memory_context_chars + 15" by (rule read_context_bound [OF f(5)]) (simp add: limits)
  moreover have "length (chars_of (fst (cx_agent_context c))) \<le> agent_context_chars + 15" by (rule read_context_bound [OF f(6)]) (simp add: limits)
  ultimately show ?thesis using learned by (simp add: window_chars_def)
qed

lemma fixed_sections:
  "length forge_prompt_section \<le> 1400" "length onboarding_prompt_section \<le> 1000"
  by (simp_all add: forge_prompt_section_def onboarding_prompt_section_def lines_text_def em_dash_def hammer_def gear_def)

lemma graph_section_bound:
  "length (chars_of (graph_section g)) \<le> 300 + (case g of None \<Rightarrow> 0 | Some (n, r) \<Rightarrow> length (chars_of n) + length (chars_of r))"
proof (cases g)
  case (Some x)
  obtain n r where x: "x = (n, r)" by (cases x)
  let ?head = "''## Knowledge Graph Context (GraphRAG, graph '' @ [backtick]" and ?tail = "[backtick] @ '')''"
  have "length (chars_of (?head @ n @ ?tail)) \<le> length (chars_of ?head) + (length (chars_of n) + length (chars_of ?tail))"
    by (meson add_left_mono chars_of_append_le order_trans)
  also have "\<dots> \<le> 60 + length (chars_of n)" using chars_le_length [of ?head] chars_le_length [of ?tail] by simp
  finally have head: "length (chars_of (?head @ n @ ?tail)) \<le> 60 + length (chars_of n)" .
  let ?text = "''Entities and relationships retrieved from your knowledge graph for this message. Treat them as ground truth about ingested documents and recorded facts.''"
  have "length (chars_of ?text) \<le> 200" using chars_le_length [of ?text] by simp
  with head lines_text_bound [of "[[], ?head @ n @ ?tail, [], ?text, [], r]"] show ?thesis
    by (simp add: graph_section_def Some x del: append_Cons append.left_neutral append_assoc) (simp add: graph_section_def)
qed (simp add: graph_section_def)

lemma learned_section_bound: "length (chars_of (learned_section l)) \<le> 60 + length (chars_of l)"
proof (cases "trim_text l = []")
  case False
  let ?head = "''## Learned Examples (positively rated)''"
  have "length (chars_of ?head) \<le> 50" using chars_le_length [of ?head] by simp
  then show ?thesis using False lines_text_bound [of "[[], ?head, [], l]"] by (simp add: learned_section_def del: chars_of.simps) (simp add: learned_section_def)
qed (simp add: learned_section_def)

text \<open>The lines of the prompt that are always there.\<close>

definition prompt_frame :: "str list" where
  "prompt_frame = [
     ''You are a Maturana personal agent running inside an isolated VM.'', [],
     ''Answer the current Telegram message directly and conversationally.'',
     ''Use the durable memory and recent channel transcript for continuity.'',
     ''Do not say you cannot remember earlier messages if the transcript contains them.'',
     ''If the user asks you to remember something, acknowledge it briefly; the host has already stored the raw user memory note.'',
     ''Return only the message that should be sent back to Telegram.'',
     ''## AGENTS.md'', [], ''## SOUL.md'', [], ''## MATURANA.md'', [], ''## Durable Memory'', [], ''## Agent Context'',
     ''## Recent Telegram Transcript'', [], ''## Current Telegram Message'']"

lemma prompt_frame_bound: "sum_list (map (\<lambda>l. length (chars_of l) + 1) prompt_frame) \<le> 800"
proof -
  have "sum_list (map (\<lambda>l. length (chars_of l) + 1) ls) \<le> sum_list (map (\<lambda>l. length l + 1) ls)" for ls
    by (rule sum_list_mono) (simp add: chars_le_length)
  also have "sum_list (map (\<lambda>l. length l + 1) prompt_frame) \<le> 800" by (simp add: prompt_frame_def)
  finally show ?thesis .
qed

lemma render_bound:
  "length (chars_of (render_channel_prompt c message)) \<le> 4000 + length (chars_of message) + length (chars_of (cx_learned c))
     + (case cx_graph c of None \<Rightarrow> 0 | Some (n, r) \<Rightarrow> length (chars_of n) + length (chars_of r))
     + (length (chars_of (fst (cx_identity c))) + length (chars_of (fst (cx_soul c))) + length (chars_of (fst (cx_contract c)))
      + length (chars_of (fst (cx_memory c))) + length (chars_of (fst (cx_agent_context c))) + length (chars_of (cx_transcript c)))"
proof -
  let ?size = "\<lambda>l. length (chars_of l)"
  let ?extra = "graph_section (cx_graph c) @ learned_section (cx_learned c) @ (if cx_self_forge c then forge_prompt_section else [])"
  let ?on = "if cx_onboarding c then onboarding_prompt_section else []"
  have on: "?size ?on \<le> 1000" using fixed_sections(2) chars_le_length [of onboarding_prompt_section] by simp
  have forge: "?size (if cx_self_forge c then forge_prompt_section else []) \<le> 1400" using fixed_sections(1) chars_le_length [of forge_prompt_section] by simp
  have "?size ?extra \<le> ?size (graph_section (cx_graph c)) + (?size (learned_section (cx_learned c)) + ?size (if cx_self_forge c then forge_prompt_section else []))"
    by (meson add_left_mono chars_of_append_le order_trans)
  with forge graph_section_bound [of "cx_graph c"] learned_section_bound [of "cx_learned c"]
  have extra: "?size ?extra \<le> 1760 + (case cx_graph c of None \<Rightarrow> 0 | Some (n, r) \<Rightarrow> ?size n + ?size r) + ?size (cx_learned c)" by linarith
  have "?size (render_channel_prompt c message) \<le> sum_list (map (\<lambda>l. ?size l + 1) prompt_frame) + (?size ?on + 1)
      + (?size (fst (cx_identity c)) + 1) + (?size (fst (cx_soul c)) + 1) + (?size (fst (cx_contract c)) + 1) + (?size (fst (cx_memory c)) + 1)
      + (?size (fst (cx_agent_context c)) + 1) + (?size ?extra + 1) + (?size (cx_transcript c) + 1) + (?size message + 1)"
    unfolding render_channel_prompt_def
    by (rule order_trans [OF lines_text_bound]) (simp add: prompt_frame_def del: chars_of.simps append_Cons append.left_neutral)
  then show ?thesis using prompt_frame_bound on extra by linarith
qed

section \<open>Terms\<close>

lemma remdups_adj_strict: "sorted xs \<Longrightarrow> sorted_wrt (<) (remdups_adj (xs :: 'a :: linorder list))"
  by (induction xs rule: remdups_adj.induct) (auto simp: less_le)

lemma extract_strict [simp]: "sorted_wrt (<) (extract_wiki_query_terms q)"
  by (simp add: extract_wiki_query_terms_def remdups_adj_strict)

lemma extract_set: "t \<in> set (extract_wiki_query_terms q) \<longleftrightarrow>
  3 \<le> length t \<and> \<not> is_wiki_query_stopword t \<and> (\<exists>w\<in>set (split_whitespace q). t = normalize_wiki_query_term w)"
  by (auto simp: extract_wiki_query_terms_def)

definition add_source :: "str \<Rightarrow> str list \<Rightarrow> str list" where
  "add_source source ss = (if source \<in> set ss then ss else ss @ [source])"

lemma collect_fold:
  assumes "om_ok m"
  shows "om_ok (fold (\<lambda>t m. let ss = (case map_of m t of Some ss \<Rightarrow> ss | None \<Rightarrow> []) in om_insert t (if source \<in> set ss then ss else ss @ [source]) m) ts m) \<and>
    map_of (fold (\<lambda>t m. let ss = (case map_of m t of Some ss \<Rightarrow> ss | None \<Rightarrow> []) in om_insert t (if source \<in> set ss then ss else ss @ [source]) m) ts m) =
      (\<lambda>t. if t \<in> set ts then Some (add_source source (case map_of m t of Some ss \<Rightarrow> ss | None \<Rightarrow> [])) else map_of m t)"
  using assms
proof (induction ts arbitrary: m)
  case (Cons t ts)
  let ?m = "om_insert t (add_source source (case map_of m t of Some ss \<Rightarrow> ss | None \<Rightarrow> [])) m"
  have "om_ok ?m" using Cons.prems by simp
  from Cons.IH [OF this] Cons.prems show ?case
    by (auto simp: fun_eq_iff Let_def add_source_def split: option.splits)
qed simp

lemma collect_ok: "om_ok m \<Longrightarrow> om_ok (collect_wiki_query_terms source body m)"
  and collect_map: "om_ok m \<Longrightarrow> map_of (collect_wiki_query_terms source body m) =
    (\<lambda>t. if t \<in> set (extract_wiki_query_terms body) then Some (add_source source (case map_of m t of Some ss \<Rightarrow> ss | None \<Rightarrow> [])) else map_of m t)"
  using collect_fold [of m source "extract_wiki_query_terms body"] by (simp_all add: collect_wiki_query_terms_def)

lemma policy_exact:
  "map wt_term (build_wiki_query_policy message transcript) =
     sorted_list_of_set (set (extract_wiki_query_terms message) \<union> set (extract_wiki_query_terms (transcript_for_wiki_query transcript)))"
  "x \<in> set (build_wiki_query_policy message transcript) \<Longrightarrow> wt_sources x =
     (if wt_term x \<in> set (extract_wiki_query_terms message) then [''current_message''] else []) @
     (if wt_term x \<in> set (extract_wiki_query_terms (transcript_for_wiki_query transcript)) then [''recent_transcript''] else [])"
proof -
  let ?a = "collect_wiki_query_terms ''current_message'' message []"
  let ?m = "collect_wiki_query_terms ''recent_transcript'' (transcript_for_wiki_query transcript) ?a"
  let ?A = "set (extract_wiki_query_terms message)" and ?B = "set (extract_wiki_query_terms (transcript_for_wiki_query transcript))"
  have a: "om_ok ?a" and m: "om_ok ?m" by (simp_all add: collect_ok)
  have get: "map_of ?m t = (if t \<in> ?A \<union> ?B then Some ((if t \<in> ?A then [''current_message''] else []) @ (if t \<in> ?B then [''recent_transcript''] else [])) else None)" for t
    by (simp add: collect_map a add_source_def)
  have names: "map wt_term (build_wiki_query_policy message transcript) = map fst ?m"
    by (simp add: build_wiki_query_policy_def case_prod_unfold)
  have "set (map fst ?m) = ?A \<union> ?B" using get by (auto simp: dom_map_of_conv_image_fst [symmetric] dom_def)
  moreover have "sorted_wrt (<) (map fst ?m)" using m by (simp add: om_ok_def)
  ultimately show "map wt_term (build_wiki_query_policy message transcript) = sorted_list_of_set (?A \<union> ?B)"
    unfolding names by (metis List.finite_set sorted_list_of_set.idem_if_sorted_distinct strict_sorted_iff)
  show "wt_sources x = (if wt_term x \<in> ?A then [''current_message''] else []) @ (if wt_term x \<in> ?B then [''recent_transcript''] else [])"
    if x: "x \<in> set (build_wiki_query_policy message transcript)"
  proof -
    from x obtain t ss where t: "(t, ss) \<in> set ?m" "x = \<lparr> wt_term = t, wt_sources = ss \<rparr>" by (auto simp: build_wiki_query_policy_def)
    then have "map_of ?m t = Some ss" using om_get_in [OF m] by simp
    then show ?thesis using get [of t] t(2) by (auto split: if_splits)
  qed
qed

section \<open>Paths stay apart\<close>

lemma show_int_start: "\<not> prefix ''/'' (show_int i @ s)"
proof -
  have "show_nat n \<noteq> [] \<and> hd (show_nat n) \<noteq> CHR ''/''" for n
    using show_nat_digits [of n] by (cases "show_nat n") (auto simp: is_digit_def)
  then have "hd (show_int i) \<noteq> CHR ''/''" "show_int i \<noteq> []" by (auto simp: show_int_def)
  then show ?thesis by (cases "show_int i") (auto simp: prefix_def)
qed

lemma path_join_last: "p \<noteq> [] \<Longrightarrow> last (path_join b p) = last p"
  by (simp add: path_join_def)

lemma path_join_length: "\<not> prefix ''/'' p \<Longrightarrow> length b + length p \<le> length (path_join b p) \<and> length (path_join b p) \<le> Suc (length b + length p)"
  by (simp add: path_join_def)

lemma archive_apart [simp]:
  "archived_path E agent chat ''.md'' \<noteq> channel_transcript_path E agent chat"
  "archived_path E agent chat ''.md'' \<noteq> channel_context_manifest_path E agent chat"
  "channel_context_manifest_path E agent chat \<noteq> channel_transcript_path E agent chat"
  "archived_path E agent chat ''.context.json'' \<noteq> channel_transcript_path E agent chat"
  "archived_path E agent chat ''.context.json'' \<noteq> archived_path E agent chat ''.md''"
proof -
  have ends: "last (archived_path E agent chat ''.md'') = CHR ''d''" "last (channel_transcript_path E agent chat) = CHR ''d''" "last (channel_context_manifest_path E agent chat) = CHR ''n''" "last (archived_path E agent chat ''.context.json'') = CHR ''n''"
    by (simp_all add: archived_path_def channel_transcript_path_def channel_context_manifest_path_def path_join_last)
  show "archived_path E agent chat ''.md'' \<noteq> channel_context_manifest_path E agent chat" by (rule notI, drule arg_cong [where f = last], simp add: ends)
  show "channel_context_manifest_path E agent chat \<noteq> channel_transcript_path E agent chat" by (rule notI, drule arg_cong [where f = last], simp add: ends)
  show "archived_path E agent chat ''.context.json'' \<noteq> channel_transcript_path E agent chat" by (rule notI, drule arg_cong [where f = last], simp add: ends)
  show "archived_path E agent chat ''.context.json'' \<noteq> archived_path E agent chat ''.md''" by (rule notI, drule arg_cong [where f = last], simp add: ends)
  let ?c = "chat_dir E agent"
  have "length (channel_transcript_path E agent chat) \<le> Suc (length ?c + length (show_int chat @ ''.md''))"
    using path_join_length [OF show_int_start [of chat "''.md''"], of ?c] by (simp add: channel_transcript_path_def)
  moreover have "length ?c + 7 \<le> length (path_join ?c ''archive'')" using path_join_length [of "''archive''" ?c] by simp
  moreover have "length (path_join ?c ''archive'') + length ((show_int chat @ ''-'' @ ce_stamp E) @ ''.md'') \<le> length (archived_path E agent chat ''.md'')"
    using path_join_length [of "(show_int chat @ ''-'' @ ce_stamp E) @ ''.md''" "path_join ?c ''archive''"] show_int_start [of chat "''-'' @ ce_stamp E @ ''.md''"]
    by (simp add: archived_path_def)
  ultimately have "length (channel_transcript_path E agent chat) < length (archived_path E agent chat ''.md'')" by simp
  then show "archived_path E agent chat ''.md'' \<noteq> channel_transcript_path E agent chat" by auto
qed

lemmas archive_apart_sym [simp] = archive_apart [symmetric]

section \<open>A fresh transcript\<close>

definition plain_stamp :: "str \<Rightarrow> bool" where
  "plain_stamp at \<longleftrightarrow> length at \<le> 64 \<and> list_all (byte_in 33 126) at"

lemma plain_no_newline: "plain_stamp at \<Longrightarrow> newline_byte \<notin> set at \<and> return_byte \<notin> set at"
  by (auto simp: plain_stamp_def list_all_iff byte_in_def)

lemma header_lines:
  assumes "plain_stamp at"
  shows "text_lines (session_header at) = [''# Telegram Session'', [], ''Started: '' @ at, [],
    ''Memory and wiki context will be reloaded on the next turn.'']"
proof -
  have nl: "newline_byte \<notin> set (''Started: '' @ at)" using plain_no_newline [OF assms] by simp
  have "strip_return (''Started: '' @ at) = ''Started: '' @ at"
  proof -
    have "last (''Started: '' @ at) \<in> set (''Started: '' @ at)" by (rule last_in_set) simp
    then have "last (''Started: '' @ at) \<noteq> return_byte" using plain_no_newline [OF assms] by auto
    then show ?thesis by (simp add: strip_return_def)
  qed
  moreover have "split_on newline_byte (session_header at) = [''# Telegram Session'', [], ''Started: '' @ at, [],
    ''Memory and wiki context will be reloaded on the next turn.'', []]"
    using split_on_record [of newline_byte "''# Telegram Session''" "newline_byte # (''Started: '' @ at) @ newline_byte # newline_byte #
        ''Memory and wiki context will be reloaded on the next turn.'' @ [newline_byte]"]
      split_on_record [OF nl, of "newline_byte # ''Memory and wiki context will be reloaded on the next turn.'' @ [newline_byte]"]
      split_on_record [of newline_byte "''Memory and wiki context will be reloaded on the next turn.''" "[]"]
    by (simp add: session_header_def)
  ultimately show ?thesis by (simp add: text_lines_def Let_def strip_return_def)
qed

lemma header_terms:
  assumes "plain_stamp at"
  shows "extract_wiki_query_terms (transcript_for_wiki_query (session_header at)) = []"
proof -
  have "contains ''Memory and wiki context will be reloaded'' ''Memory and wiki context will be reloaded on the next turn.''" by code_simp
  moreover have "\<not> contains ''Memory and wiki context will be reloaded'' []" by code_simp
  moreover have "prefix ''Started:'' (''Started: '' @ at)" by simp
  ultimately have "transcript_for_wiki_query (session_header at) = [newline_byte]"
    unfolding transcript_for_wiki_query_def header_lines [OF assms] by simp
  moreover have "split_whitespace [newline_byte] = []" by code_simp
  ultimately show ?thesis by (simp add: extract_wiki_query_terms_def)
qed

lemma header_window:
  assumes "plain_stamp at"
  shows "utf8 (session_header at)" and "tail_window transcript_context_chars (session_header at) = session_header at"
proof -
  have "\<forall>c\<in>set at. byte_in 0 127 c" using assms by (auto simp: plain_stamp_def list_all_iff byte_in_def)
  then have "\<forall>c\<in>set (session_header at). byte_in 0 127 c" by (auto simp: session_header_def byte_in_def)
  then show "utf8 (session_header at)" by (rule ascii_utf8)
  have "length (session_header at) \<le> 200" using assms by (simp add: session_header_def plain_stamp_def)
  then have "length (chars_of (session_header at)) \<le> transcript_context_chars"
    using chars_le_length [of "session_header at"] by (simp add: transcript_context_chars_def)
  then show "tail_window transcript_context_chars (session_header at) = session_header at" by (simp add: tail_window_def)
qed

lemma reset_outcome:
  assumes "reset_channel_context E agent chat h = (None, h')"
  shows "ch_files h' (channel_transcript_path E agent chat) = Some (session_header (ce_at E)) \<and>
    (\<forall>old. ch_files h (channel_transcript_path E agent chat) = Some old \<longrightarrow> ch_files h' (archived_path E agent chat ''.md'') = Some old) \<and>
    ch_sessions h' = ch_sessions h"
  using assms by (auto simp: reset_channel_context_def archive_if_present_def rename_file_def write_file_def split: sum.splits if_splits)

section \<open>A turn\<close>

lemma show_int_digit_end: "show_int i \<noteq> [] \<and> is_digit (last (show_int i))"
proof -
  have "show_nat n \<noteq> [] \<and> is_digit (last (show_nat n))" for n
    using show_nat_digits [of n] by (auto simp: list_all_iff)
  then show ?thesis by (auto simp: show_int_def)
qed

lemma memory_apart [simp]:
  "memory_path E agent \<noteq> channel_transcript_path E agent' chat" "channel_transcript_path E agent' chat \<noteq> memory_path E agent"
  "memory_path E agent \<noteq> channel_context_manifest_path E agent' chat" "channel_context_manifest_path E agent' chat \<noteq> memory_path E agent"
proof -
  have m: "hd (drop 3 (rev (memory_path E agent))) = CHR ''Y''" "last (memory_path E agent) = CHR ''d''" by (simp_all add: memory_path_def path_join_def)
  have t: "is_digit (hd (drop 3 (rev (channel_transcript_path E agent' chat))))"
    using show_int_digit_end [of chat] by (auto simp: channel_transcript_path_def path_join_def hd_append hd_rev)
  have "\<not> is_digit (CHR ''Y'')" by (simp add: is_digit_def)
  then show "memory_path E agent \<noteq> channel_transcript_path E agent' chat" using m t by auto
  then show "channel_transcript_path E agent' chat \<noteq> memory_path E agent" by metis
  show "memory_path E agent \<noteq> channel_context_manifest_path E agent' chat"
  proof
    assume "memory_path E agent = channel_context_manifest_path E agent' chat"
    then have "last (memory_path E agent) = CHR ''n''" by (simp add: channel_context_manifest_path_def path_join_last)
    with m(2) show False by simp
  qed
  then show "channel_context_manifest_path E agent' chat \<noteq> memory_path E agent" by metis
qed

lemma line_sublist: "l \<in> set ls \<Longrightarrow> sublist l (lines_text ls)"
proof -
  assume "l \<in> set ls"
  then obtain a b where "ls = a @ l # b" by (meson split_list)
  then have "lines_text ls = lines_text a @ l @ (newline_byte # lines_text b)" by (simp add: lines_text_def)
  then show ?thesis by (auto simp: sublist_def)
qed

lemma transcript_in_prompt: "sublist (cx_transcript c) (render_channel_prompt c message)"
  unfolding render_channel_prompt_def by (rule line_sublist) simp

lemma message_ends_prompt: "suffix (message @ [newline_byte]) (render_channel_prompt c message)"
  by (simp add: render_channel_prompt_def lines_text_def suffix_def)

lemma entry_in_window:
  assumes "length (chars_of (turn_entry at role body)) \<le> limit"
  shows "sublist (turn_entry at role body) (tail_window limit (old @ turn_entry at role body))"
proof -
  let ?e = "turn_entry at role body"
  have c: "chars_of (old @ ?e) = chars_of old @ chars_of ?e"
    by (rule chars_of_append) (simp add: turn_entry_def starts_char_def byte_in_def)
  show ?thesis
  proof (cases "length (chars_of (old @ ?e)) \<le> limit")
    case True
    then have "tail_window limit (old @ ?e) = old @ ?e" by (simp add: tail_window_def)
    then show ?thesis by (metis append_Nil2 sublist_append_leftI sublist_order.order_refl)
  next
    case False
    let ?k = "length (chars_of (old @ ?e)) - limit"
    have "?k \<le> length (chars_of old)" using assms c by simp
    then have "concat (drop ?k (chars_of (old @ ?e))) = concat (drop ?k (chars_of old)) @ ?e" by (simp add: c)
    with False have "tail_window limit (old @ ?e) = (''[older transcript omitted]'' @ [newline_byte] @ concat (drop ?k (chars_of old))) @ ?e"
      by (simp only: tail_window_def Let_def if_False append_assoc)
    then show ?thesis by (metis append_Nil2 sublist_append_leftI sublist_order.order_refl)
  qed
qed

lemma load_transcript: "load_channel_context E agent chat message h = Inr c \<Longrightarrow>
  tail_context_file (channel_transcript_path E agent chat) transcript_context_chars h = Inr (cx_transcript c) \<and>
  cx_terms c = build_wiki_query_policy message (cx_transcript c)"
  by (auto simp: load_channel_context_def bind_result_Inr Let_def)

lemma build_prompt_Inr:
  assumes "build_channel_prompt E agent chat message h = Inr (prompt, h')"
  shows "\<exists>c. load_channel_context E agent chat message h = Inr c \<and> prompt = render_channel_prompt c message \<and> ch_sessions h' = ch_sessions h \<and>
    (\<forall>p. p \<noteq> channel_context_manifest_path E agent chat \<longrightarrow> ch_files h' p = ch_files h p)"
  using assms by (auto simp: build_channel_prompt_def bind_result_Inr write_file_def split: if_splits)

definition memory_line :: "chat_env \<Rightarrow> str \<Rightarrow> str" where
  "memory_line E f = [newline_byte] @ ''- '' @ ce_date E @ '': '' @ f @ [newline_byte]"

lemma note_apart [simp]:
  "memory_note_path E agent \<noteq> memory_path E agent" "memory_note_path E agent \<noteq> channel_transcript_path E agent chat"
  "memory_path E agent \<noteq> memory_note_path E agent" "channel_transcript_path E agent chat \<noteq> memory_note_path E agent"
proof -
  obtain d where d: "\<And>p. \<not> prefix ''/'' p \<Longrightarrow> path_join (agent_dir (ce_root E) agent) p = d @ p"
  proof
    fix p :: str
    assume "\<not> prefix ''/'' p"
    then show "path_join (agent_dir (ce_root E) agent) p = (if agent_dir (ce_root E) agent = [] \<or> last (agent_dir (ce_root E) agent) = CHR ''/''
        then agent_dir (ce_root E) agent else agent_dir (ce_root E) agent @ ''/'') @ p"
      by (simp add: path_join_def)
  qed
  obtain c r where i: "show_int chat = c # r" "c \<noteq> CHR ''/''"
  proof (cases "chat < 0")
    case False
    obtain c r where c: "show_nat (nat chat) = c # r" "is_digit c"
      using show_nat_digits [of "nat chat"] by (cases "show_nat (nat chat)") simp_all
    moreover have "c \<noteq> CHR ''/''" using c(2) by (auto simp: is_digit_def)
    ultimately show thesis using that False by (simp add: show_int_def)
  qed (use that in \<open>simp add: show_int_def\<close>)
  have "\<not> prefix ''/'' (show_int chat @ ''.md'')" using i by simp
  then have t: "channel_transcript_path E agent chat = d @ ''channels/telegram'' @ ''/'' @ show_int chat @ ''.md''"
    by (simp add: channel_transcript_path_def chat_dir_def d path_join_def [of "d @ _"])
  have n: "memory_note_path E agent = d @ ''inbox'' @ ''/memory-'' @ ce_millis E @ ''.md''"
    by (simp add: memory_note_path_def d path_join_def [of "d @ _"])
  have m: "memory_path E agent = d @ ''memory/MEMORY.md''" by (simp add: memory_path_def d)
  show "memory_note_path E agent \<noteq> memory_path E agent" "memory_note_path E agent \<noteq> channel_transcript_path E agent chat"
    "memory_path E agent \<noteq> memory_note_path E agent" "channel_transcript_path E agent chat \<noteq> memory_note_path E agent"
    unfolding t n m by simp_all
qed

lemma remember_Inr:
  assumes "maybe_remember_user_message E agent body h = Inr h'"
  shows "ch_sessions h' = ch_sessions h \<and> (\<forall>p. p \<noteq> memory_path E agent \<longrightarrow> p \<noteq> memory_note_path E agent \<longrightarrow> ch_files h' p = ch_files h p) \<and>
    (case extract_memory_fact body of
       None \<Rightarrow> ch_files h' (memory_path E agent) = ch_files h (memory_path E agent)
     | Some f \<Rightarrow> ch_files h' (memory_path E agent) =
         Some ((case ch_files h (memory_path E agent) of None \<Rightarrow> ''# Memory'' @ [newline_byte] | Some old \<Rightarrow> old) @ memory_line E f))"
proof (cases "extract_memory_fact body")
  case None
  then show ?thesis using assms by (simp add: maybe_remember_user_message_def)
next
  case f: (Some f)
  obtain h1 where h1: "(if ch_files h (memory_path E agent) = None then write_file E (memory_path E agent) (''# Memory'' @ [newline_byte]) h else Inr h) = Inr h1"
    and rest: "bind_result (append_file E (memory_path E agent) (memory_line E f) h1) (\<lambda>h2. Inr (case read_graph_token E h2 of
                None \<Rightarrow> h2
              | Some _ \<Rightarrow> (case write_file E (memory_note_path E agent) f h2 of Inr h3 \<Rightarrow> h3 | Inl _ \<Rightarrow> h2))) = Inr h'"
    using assms unfolding maybe_remember_user_message_def f option.case bind_result_Inr memory_line_def by blast
  obtain h2 where h2: "append_file E (memory_path E agent) (memory_line E f) h1 = Inr h2"
    and h': "h' = (case read_graph_token E h2 of None \<Rightarrow> h2 | Some _ \<Rightarrow> (case write_file E (memory_note_path E agent) f h2 of Inr h3 \<Rightarrow> h3 | Inl _ \<Rightarrow> h2))"
    using rest unfolding bind_result_Inr by blast
  have "ch_sessions h' = ch_sessions h2 \<and> (\<forall>p. p \<noteq> memory_note_path E agent \<longrightarrow> ch_files h' p = ch_files h2 p)"
    unfolding h' by (simp add: write_file_def split: option.split)
  moreover have "ch_sessions h2 = ch_sessions h1 \<and> (\<forall>p. p \<noteq> memory_path E agent \<longrightarrow> ch_files h2 p = ch_files h1 p) \<and>
      ch_files h2 (memory_path E agent) = Some ((case ch_files h1 (memory_path E agent) of None \<Rightarrow> [] | Some old \<Rightarrow> old) @ memory_line E f)"
    using h2 by (auto simp: append_file_def write_file_def split: if_splits)
  moreover have "ch_sessions h1 = ch_sessions h \<and> (\<forall>p. p \<noteq> memory_path E agent \<longrightarrow> ch_files h1 p = ch_files h p) \<and>
      ch_files h1 (memory_path E agent) = Some (case ch_files h (memory_path E agent) of None \<Rightarrow> ''# Memory'' @ [newline_byte] | Some old \<Rightarrow> old)"
    using h1 by (auto simp: write_file_def split: if_splits)
  ultimately show ?thesis unfolding f by simp
qed

lemma append_turn_Inr:
  assumes "append_channel_turn E agent chat role body h = Inr h'"
  shows "ch_sessions h' = ch_sessions h \<and> (\<forall>p. p \<noteq> channel_transcript_path E agent chat \<longrightarrow> ch_files h' p = ch_files h p) \<and>
    ch_files h' (channel_transcript_path E agent chat) =
      Some ((case ch_files h (channel_transcript_path E agent chat) of None \<Rightarrow> [] | Some old \<Rightarrow> old) @ turn_entry (ce_at E) role body)"
  using assms by (auto simp: append_channel_turn_def append_file_def write_file_def split: if_splits)

lemma insert_inbound_Inr:
  assumes "insert_inbound uuid now kind channel platform thread content s = Inr (i, s')"
  shows "\<exists>r. s' = s\<lparr>messages_in := messages_in s @ [r]\<rparr> \<and> i_id r = i \<and> i_status r = Pending \<and> i_tries r = 0 \<and> i_kind r = kind \<and>
    i_channel r = channel \<and> i_platform_id r = platform \<and> i_thread_id r = thread \<and> i_content r = content"
proof -
  from assms have i: "i = ''msg-'' @ uuid" and s: "s' = s\<lparr>messages_in := messages_in s @
        [\<lparr> i_id = i, i_seq = next_seq (map i_seq (messages_in s)), i_kind = kind, i_channel = channel, i_platform_id = platform, i_thread_id = thread,
           i_content = content, i_status = Pending, i_tries = 0, i_process_after = None, i_created_at = now, i_status_changed = now \<rparr>]\<rparr>"
    by (auto simp: insert_inbound_def Let_def split: if_splits)
  show ?thesis by (rule exI, rule conjI, rule s) simp
qed

lemma queue_turn_Inr:
  assumes "queue_turn E agent sid kind channel platform thread content h = Inr (i, h')"
  shows "\<exists>r. h' = h\<lparr>ch_sessions := (ch_sessions h)(turn_session E agent sid \<mapsto> (chat_session (turn_session E agent sid) h)\<lparr>messages_in :=
      messages_in (chat_session (turn_session E agent sid) h) @ [r]\<rparr>)\<rparr> \<and>
    i_id r = i \<and> i_status r = Pending \<and> i_tries r = 0 \<and> i_kind r = kind \<and> i_channel r = channel \<and> i_platform_id r = platform \<and>
    i_thread_id r = thread \<and> i_content r = content"
proof -
  from assms obtain s where s: "insert_inbound (ce_uuid E) (ce_now E) kind channel platform thread content
      (chat_session (turn_session E agent sid) h) = Inr (i, s)" "h' = h\<lparr>ch_sessions := (ch_sessions h)(turn_session E agent sid \<mapsto> s)\<rparr>"
    by (auto simp: queue_turn_def Let_def split: if_splits sum.splits db_error.splits)
  from insert_inbound_Inr [OF s(1)] s(2) show ?thesis by blast
qed

section \<open>The properties\<close>

text \<open>
  Of all the texts a prompt is put together from only the current message, the learned examples and what the knowledge
  graph renders are unbounded: the files and the transcript contribute at most 33102 characters, everything else at most
  4000.
\<close>

theorem prompt_bounded:
  assumes "build_channel_prompt E agent chat message h = Inr (prompt, h')"
  shows "\<exists>c. load_channel_context E agent chat message h = Inr c \<and> length (chars_of prompt) \<le> 37102 + length (chars_of message)
    + length (chars_of (ce_learned E agent)) + (case cx_graph c of None \<Rightarrow> 0 | Some (n, r) \<Rightarrow> length (chars_of n) + length (chars_of r))"
proof -
  from build_prompt_Inr [OF assms] obtain c where c: "load_channel_context E agent chat message h = Inr c" "prompt = render_channel_prompt c message" by blast
  have "window_chars = 33102"
    by (simp add: window_chars_def identity_context_chars_def soul_context_chars_def contract_context_chars_def memory_context_chars_def
      agent_context_chars_def transcript_context_chars_def)
  then show ?thesis using load_context_bound [OF c(1)] render_bound [of c message] c by (intro exI [of _ c]) auto
qed

text \<open>
  After a reset the next prompt knows nothing of the conversation before it: its transcript is the fresh header, and
  the graph is asked only for terms of the current message. The old transcript is in the archive.
\<close>

theorem reset_forgets:
  assumes "reset_channel_context E agent chat h = (None, h')" and "plain_stamp (ce_at E)" and "ce_root F = ce_root E"
    and "load_channel_context F agent chat message h' = Inr c"
  shows "cx_transcript c = session_header (ce_at E) \<and> map wt_term (cx_terms c) = extract_wiki_query_terms message \<and>
    (\<forall>t\<in>set (cx_terms c). wt_sources t = [''current_message'']) \<and>
    (\<forall>old. ch_files h (channel_transcript_path E agent chat) = Some old \<longrightarrow> ch_files h' (archived_path E agent chat ''.md'') = Some old)"
proof -
  have p: "channel_transcript_path F agent chat = channel_transcript_path E agent chat"
    by (simp add: channel_transcript_path_def chat_dir_def assms(3))
  have r: "ch_files h' (channel_transcript_path E agent chat) = Some (session_header (ce_at E))" using reset_outcome [OF assms(1)] by blast
  have t: "cx_transcript c = session_header (ce_at E)" and terms: "cx_terms c = build_wiki_query_policy message (cx_transcript c)"
    using load_transcript [OF assms(4)] r header_window [OF assms(2)]
    by (simp_all add: p tail_context_file_def read_file_def bind_result_def)
  have none: "extract_wiki_query_terms (transcript_for_wiki_query (cx_transcript c)) = []" by (simp add: t header_terms [OF assms(2)])
  have names: "map wt_term (cx_terms c) = sorted_list_of_set (set (extract_wiki_query_terms message))"
    using policy_exact(1) [of message "cx_transcript c"] by (simp add: terms none)
  then have "map wt_term (cx_terms c) = extract_wiki_query_terms message"
    using extract_strict [of message] by (metis sorted_list_of_set.idem_if_sorted_distinct strict_sorted_iff)
  moreover have "\<forall>t\<in>set (cx_terms c). wt_sources t = [''current_message'']"
  proof
    fix x assume x: "x \<in> set (cx_terms c)"
    then have "wt_term x \<in> set (extract_wiki_query_terms message)" using names by (metis List.finite_set in_set_conv_nth length_map nth_map set_sorted_list_of_set)
    then show "wt_sources x = [''current_message'']" using policy_exact(2) [of x message "cx_transcript c"] x by (simp add: terms none)
  qed
  ultimately show ?thesis using t reset_outcome [OF assms(1)] by blast
qed


section \<open>A host to evaluate on\<close>

definition demo_chat_env :: chat_env where
  "demo_chat_env = \<lparr> ce_root = ''/h'', ce_yaml = (\<lambda>_. None), ce_settings = (\<lambda>_. None), ce_writable = (\<lambda>_. True), ce_openable = (\<lambda>_. True),
     ce_at = ''t'', ce_date = ''d'', ce_stamp = ''s'', ce_millis = ''m'', ce_graph_query = (\<lambda>_ _. []), ce_learned = (\<lambda>_. []), ce_manifest = (\<lambda>_. []),
     ce_content = tc_prompt, ce_uuid = ''u'', ce_now = 0 \<rparr>"

definition demo_chat_host :: chat_host where
  "demo_chat_host = \<lparr> ch_files = (\<lambda>p. if p = ''/h/agents/a/channels/telegram/7.md'' then Some ''old'' else None), ch_sessions = (\<lambda>_. None) \<rparr>"

lemma demo_turn: "fst (enqueue_turn demo_chat_env ''a'' ''s'' ''telegram'' ''7'' 7 None ''remember me'' demo_chat_host) = Inr ''msg-u''"
  by code_simp

lemma demo_reset: "fst (reset_channel_context demo_chat_env ''a'' 7 demo_chat_host) = None"
  by code_simp

lemma demo_context:
  "\<exists>c. load_channel_context demo_chat_env ''a'' 7 ''hello world'' (snd (reset_channel_context demo_chat_env ''a'' 7 demo_chat_host)) = Inr c"
proof -
  have "(case load_channel_context demo_chat_env ''a'' 7 ''hello world'' (snd (reset_channel_context demo_chat_env ''a'' 7 demo_chat_host)) of
      Inl _ \<Rightarrow> False | Inr _ \<Rightarrow> True)" by code_simp
  then show ?thesis by (auto split: sum.splits)
qed

text \<open>Two resets within one second: the second archives the fresh header over the conversation the first had archived.\<close>

lemma reset_twice_loses:
  "(case reset_channel_context demo_chat_env ''a'' 7 demo_chat_host of (_, h1) \<Rightarrow>
     ch_files h1 ''/h/agents/a/channels/telegram/archive/7-s.md'' = Some ''old'' \<and>
     ch_files (snd (reset_channel_context demo_chat_env ''a'' 7 h1)) ''/h/agents/a/channels/telegram/archive/7-s.md'' = Some (session_header ''t''))"
  by code_simp

lemma prompt_bounded_witness:
  "\<exists>prompt. fst prompt \<noteq> [] \<and> build_channel_prompt demo_chat_env ''a'' 7 ''hi'' demo_chat_host = Inr prompt \<and> length (chars_of (fst prompt)) \<le> 37104"
proof -
  have "(case build_channel_prompt demo_chat_env ''a'' 7 ''hi'' demo_chat_host of Inl _ \<Rightarrow> False | Inr x \<Rightarrow> fst x \<noteq> [])" by code_simp
  then obtain p h where b: "build_channel_prompt demo_chat_env ''a'' 7 ''hi'' demo_chat_host = Inr (p, h)" "p \<noteq> []" by (auto split: sum.splits)
  have g: "load_graph_channel_context demo_chat_env ''a'' ts demo_chat_host = None" for ts
    by (simp add: load_graph_channel_context_def spec_of_def read_graph_token_def read_file_def demo_chat_host_def spec_path_def demo_chat_env_def
      agent_dir_def path_join_def Let_def)
  have "\<exists>c. load_channel_context demo_chat_env ''a'' 7 ''hi'' demo_chat_host = Inr c \<and> length (chars_of p) \<le> 37102 + length (chars_of ''hi'')
    + length (chars_of (ce_learned demo_chat_env ''a'')) + (case cx_graph c of None \<Rightarrow> 0 | Some (n, r) \<Rightarrow> length (chars_of n) + length (chars_of r))"
    using prompt_bounded [OF b(1)] .
  then obtain c where c: "load_channel_context demo_chat_env ''a'' 7 ''hi'' demo_chat_host = Inr c" "length (chars_of p) \<le> 37102 + length (chars_of ''hi'')
    + length (chars_of (ce_learned demo_chat_env ''a'')) + (case cx_graph c of None \<Rightarrow> 0 | Some (n, r) \<Rightarrow> length (chars_of n) + length (chars_of r))" by blast
  from c(1) have "cx_graph c = None" by (auto simp: load_channel_context_def bind_result_Inr Let_def g)
  moreover have "chars_of ''hi'' = [''h'', ''i'']" by code_simp
  ultimately have "length (chars_of p) \<le> 37104" using c(2) by (simp add: demo_chat_env_def)
  then show ?thesis using b by (intro exI [of _ "(p, h)"]) simp
qed

lemma reset_forgets_witness:
  "\<exists>c. load_channel_context demo_chat_env ''a'' 7 ''hello world'' (snd (reset_channel_context demo_chat_env ''a'' 7 demo_chat_host)) = Inr c \<and>
     cx_transcript c = session_header ''t'' \<and> map wt_term (cx_terms c) = [''world'']"
proof -
  obtain c where c: "load_channel_context demo_chat_env ''a'' 7 ''hello world'' (snd (reset_channel_context demo_chat_env ''a'' 7 demo_chat_host)) = Inr c"
    using demo_context by blast
  have r: "reset_channel_context demo_chat_env ''a'' 7 demo_chat_host = (None, snd (reset_channel_context demo_chat_env ''a'' 7 demo_chat_host))"
    using demo_reset by (metis prod.collapse)
  have at: "ce_at demo_chat_env = ''t''" by (simp add: demo_chat_env_def)
  have "plain_stamp (ce_at demo_chat_env)" unfolding at by code_simp
  moreover have "extract_wiki_query_terms ''hello world'' = [''world'']" by code_simp
  ultimately show ?thesis using reset_forgets [OF r _ refl c] c by (auto simp: at)
qed


section \<open>The outbox\<close>

lemma outbox_row:
  assumes "write_outbox_body E t body h = Inr (b, h')"
  shows "\<exists>r. b \<and> ch_files h' = ch_files h \<and> ch_sessions h' = (ch_sessions h)(turn_session E (ot_agent_id t) (ot_session_id t) \<mapsto>
      (chat_session (turn_session E (ot_agent_id t) (ot_session_id t)) h)\<lparr>messages_out :=
        messages_out (chat_session (turn_session E (ot_agent_id t) (ot_session_id t)) h) @ [r]\<rparr>) \<and>
    o_channel r = ot_channel t \<and> o_platform_id r = ot_platform_id t \<and> o_content r = body \<and> o_in_reply_to r = None"
proof -
  let ?p = "turn_session E (ot_agent_id t) (ot_session_id t)"
  from assms obtain i s where s: "write_outbound (ce_uuid E) (ce_now E) None ''chat'' (ot_channel t) (ot_platform_id t) (ot_thread_id t) body (chat_session ?p h) = Inr (i, s)"
    "b" "h' = h\<lparr>ch_sessions := (ch_sessions h)(?p \<mapsto> s)\<rparr>" by (auto simp: write_outbox_body_def Let_def split: if_splits sum.splits db_error.splits)
  define r where "r = \<lparr> o_id = i, o_seq = next_seq (map o_seq (messages_out (chat_session ?p h))), o_in_reply_to = None, o_kind = ''chat'', o_channel = ot_channel t,
           o_platform_id = ot_platform_id t, o_thread_id = ot_thread_id t, o_content = body, o_created_at = ce_now E \<rparr>"
  from s(1) have "s = (chat_session ?p h)\<lparr>messages_out := messages_out (chat_session ?p h) @ [r]\<rparr>"
    by (auto simp: write_outbound_def Let_def r_def split: if_splits)
  with s(2,3) show ?thesis by (intro exI [of _ r]) (simp add: r_def)
qed

section \<open>Facts about notes\<close>

lemma first_cue_fact: "first_cue t cues = Some f \<Longrightarrow> \<exists>cue\<in>set cues. prefix cue (to_ascii_lowercase t) \<and> f = trim_text (drop (length cue) t) \<and> f \<noteq> []"
  by (induction cues) (auto split: if_splits)

lemma memory_fact_exact:
  "extract_memory_fact body = None \<longleftrightarrow> trim_text body = [] \<or>
     (\<forall>cue\<in>set memory_cues. prefix cue (to_ascii_lowercase (trim_text body)) \<longrightarrow> trim_text (drop (length cue) (trim_text body)) = []) \<and>
     (\<forall>x\<in>set memory_heuristics. \<not> contains x (to_ascii_lowercase (trim_text body)))"
proof -
  have "first_cue t cues = None \<longleftrightarrow> (\<forall>cue\<in>set cues. prefix cue (to_ascii_lowercase t) \<longrightarrow> trim_text (drop (length cue) t) = [])" for t cues
    by (induction cues) auto
  from this [of "trim_text body" memory_cues] show ?thesis
    by (cases "first_cue (trim_text body) memory_cues") (simp_all add: extract_memory_fact_def Let_def list_ex_iff)
qed

text \<open>The cue with nothing after it is itself taken for a note.\<close>

lemma bare_cue_remembered: "extract_memory_fact ''remember that'' = Some ''that''" "extract_memory_fact ''the deadline moved'' = Some ''the deadline moved''"
  by code_simp+

end
