(* ===== verification/Schedules.thy ===== *)
theory Schedules
  imports Conversation
begin

text \<open>
  The schedules of \<open>crates/maturana-cli/src/personal.rs\<close>: cron expressions, the slug that names a schedule, the two files of
  an agent (schedules and last runs), one pass over the due schedules, and what firing one does. \<open>chrono\<close> says which
  minute, hour, day, month and weekday a time is; JSON and processes are the environment.
\<close>

section \<open>Cron\<close>

text \<open>The minute of a time, counted from the epoch, and its parts.\<close>

record moment =
  mo_index :: int
  mo_minute :: nat
  mo_hour :: nat
  mo_day :: nat
  mo_month :: nat
  mo_weekday :: nat

datatype cron_error = CronFields | CronNumber str | CronStep | CronRange str | CronValue str

definition parse_u32 :: "str \<Rightarrow> cron_error + nat" where
  "parse_u32 s = (case parse_nat_below (2 ^ 32) s of None \<Rightarrow> Inl (CronNumber s) | Some n \<Rightarrow> Inr n)"

definition cron_part :: "str \<Rightarrow> nat \<Rightarrow> nat \<Rightarrow> nat \<Rightarrow> cron_error + bool" where
  "cron_part raw v lo hi =
     (let p = trim_text raw
      in if p = ''*'' then Inr True
         else case strip_prefix ''*/'' p of
             Some s \<Rightarrow> bind_result (parse_u32 s) (\<lambda>k. if k = 0 then Inl CronStep else Inr (v mod k = 0))
           | None \<Rightarrow>
               (case split_once CHR ''-'' p of
                  Some (a, b) \<Rightarrow> bind_result (parse_u32 a) (\<lambda>s. bind_result (parse_u32 b) (\<lambda>e.
                    if s < lo \<or> hi < e \<or> e < s then Inl (CronRange p) else Inr (s \<le> v \<and> v \<le> e)))
                | None \<Rightarrow> bind_result (parse_u32 p) (\<lambda>x. if x < lo \<or> hi < x then Inl (CronValue p) else Inr (x = v))))"

fun cron_parts :: "str list \<Rightarrow> nat \<Rightarrow> nat \<Rightarrow> nat \<Rightarrow> cron_error + bool" where
  "cron_parts [] v lo hi = Inr False"
| "cron_parts (p # ps) v lo hi = bind_result (cron_part p v lo hi) (\<lambda>m. if m then Inr True else cron_parts ps v lo hi)"

definition matches_cron_field :: "str \<Rightarrow> nat \<Rightarrow> nat \<Rightarrow> nat \<Rightarrow> cron_error + bool" where
  "matches_cron_field field v lo hi = cron_parts (split_on CHR '','' field) v lo hi"

text \<open>\<open>&&\<close> stops at the first field that does not match.\<close>

fun all_fields :: "(cron_error + bool) list \<Rightarrow> cron_error + bool" where
  "all_fields [] = Inr True"
| "all_fields (r # rs) = bind_result r (\<lambda>m. if m then all_fields rs else Inr False)"

definition cron_bounds :: "moment \<Rightarrow> (nat \<times> nat \<times> nat) list" where
  "cron_bounds now = [(mo_minute now, 0, 59), (mo_hour now, 0, 23), (mo_day now, 1, 31), (mo_month now, 1, 12), (mo_weekday now, 0, 6)]"

definition cron_matches :: "str \<Rightarrow> moment \<Rightarrow> cron_error + bool" where
  "cron_matches cron now =
     (let fields = split_whitespace cron
      in if length fields \<noteq> 5 then Inl CronFields
         else all_fields (map2 (\<lambda>f (v, lo, hi). matches_cron_field f v lo hi) fields (cron_bounds now)))"

section \<open>Slugs\<close>

text \<open>\<open>hash\<close> is the hexadecimal \<open>DefaultHasher\<close> value.\<close>

definition slug_text :: "str \<Rightarrow> str" where
  "slug_text v = concat (map (\<lambda>c. case c of [a] \<Rightarrow> if is_ascii_alnum a then [lower_char a] else ''-'' | _ \<Rightarrow> ''-'') (chars_of v))"

definition slugify :: "(str \<Rightarrow> str) \<Rightarrow> str \<Rightarrow> str" where
  "slugify hash v =
     (let slug = join ''-'' (filter (\<lambda>p. p \<noteq> []) (split_on CHR ''-'' (slug_text v)))
      in if slug = [] then ''item-'' @ hash v else slug)"

section \<open>The files\<close>

datatype 'a stored = Absent | Unreadable | Stored 'a

record schedule_record =
  sr_id :: str
  sr_agent_id :: str
  sr_name :: str
  sr_cron :: str
  sr_prompt :: str
  sr_channel :: "str option"
  sr_board :: "str option"
  sr_enabled :: bool
  sr_created_at :: timestamp

record schedule_host =
  sh_schedules :: "schedule_record list stored"
  sh_runs :: "(str \<Rightarrow> str option) stored"
  sh_chat :: chat_host
  sh_boards :: "str list" \<comment> \<open>board runs started\<close>

datatype schedule_error =
    NothingToRun | BadSchedules | BadRuns | BadCron cron_error | CannotMark | CannotLog | CannotSpawn | CannotAudit | ChatFailed chat_error
  | CannotSave

definition read_schedules :: "schedule_host \<Rightarrow> schedule_error + schedule_record list" where
  "read_schedules h = (case sh_schedules h of Absent \<Rightarrow> Inr [] | Unreadable \<Rightarrow> Inl BadSchedules | Stored ss \<Rightarrow> Inr ss)"

definition read_schedule_runs :: "schedule_host \<Rightarrow> schedule_error + (str \<Rightarrow> str option)" where
  "read_schedule_runs h = (case sh_runs h of Absent \<Rightarrow> Inr (\<lambda>_. None) | Unreadable \<Rightarrow> Inl BadRuns | Stored m \<Rightarrow> Inr m)"

definition add_schedule ::
    "(str \<Rightarrow> str) \<Rightarrow> timestamp \<Rightarrow> bool \<Rightarrow> str \<Rightarrow> str \<Rightarrow> str \<Rightarrow> str \<Rightarrow> str option \<Rightarrow> str option \<Rightarrow> schedule_host \<Rightarrow> schedule_error + schedule_host" where
  "add_schedule hash now saved agent name cron prompt channel board0 h =
     (let board = (case board0 of None \<Rightarrow> None | Some b \<Rightarrow> if trim_text b = [] then None else Some (trim_text b))
      in if board = None \<and> trim_text prompt = [] then Inl NothingToRun
         else bind_result (read_schedules h) (\<lambda>ss.
           let i = slugify hash name
           in if \<not> saved then Inl CannotSave
              else Inr (h\<lparr>sh_schedules := Stored (filter (\<lambda>s. sr_id s \<noteq> i) ss @
                [\<lparr> sr_id = i, sr_agent_id = agent, sr_name = name, sr_cron = cron, sr_prompt = prompt, sr_channel = channel, sr_board = board,
                   sr_enabled = True, sr_created_at = now \<rparr>])\<rparr>)))"

section \<open>Firing\<close>

text \<open>The environment of one firing. Hooks run on a thread of their own and are left out.\<close>

record fire_env =
  fe_chat :: chat_env
  fe_vault :: "str \<Rightarrow> str option"
  fe_content :: "schedule_record \<Rightarrow> str"
  fe_made_dir :: bool
  fe_marked :: bool
  fe_logged :: bool
  fe_spawned :: bool
  fe_audited :: bool

text \<open>\<open>format("%Y-%m-%dT%H:%MZ")\<close> is \<open>key\<close>.\<close>

definition mark_schedule_run :: "(int \<Rightarrow> str) \<Rightarrow> fire_env \<Rightarrow> str \<Rightarrow> moment \<Rightarrow> schedule_host \<Rightarrow> schedule_error + bool \<times> schedule_host" where
  "mark_schedule_run key F i now h =
     (if \<not> fe_made_dir F then Inl CannotMark else bind_result (read_schedule_runs h) (\<lambda>runs.
       if runs i = Some (key (mo_index now)) then Inr (False, h)
       else if \<not> fe_marked F then Inl CannotMark
       else Inr (True, h\<lparr>sh_runs := Stored (runs(i \<mapsto> key (mo_index now)))\<rparr>)))"

definition fire_audited :: "fire_env \<Rightarrow> schedule_host \<Rightarrow> schedule_error option \<times> schedule_host" where
  "fire_audited F h = ((if fe_audited F then None else Some CannotAudit), h)"

definition spawn_board_run :: "fire_env \<Rightarrow> str \<Rightarrow> schedule_host \<Rightarrow> schedule_error + schedule_host" where
  "spawn_board_run F board h =
     (if \<not> fe_logged F then Inl CannotLog
      else if \<not> fe_spawned F then Inl CannotSpawn
      else Inr (h\<lparr>sh_boards := sh_boards h @ [board]\<rparr>))"

definition enqueue_schedule :: "fire_env \<Rightarrow> str \<Rightarrow> str \<Rightarrow> schedule_record \<Rightarrow> schedule_host \<Rightarrow> schedule_error option \<times> schedule_host" where
  "enqueue_schedule F agent sid s h =
     (case (case sr_board s of Some b \<Rightarrow> if b = [] then None else Some b | None \<Rightarrow> None) of
        Some b \<Rightarrow> (case spawn_board_run F b h of Inl e \<Rightarrow> (Some e, h) | Inr h1 \<Rightarrow> fire_audited F h1)
      | None \<Rightarrow>
          let channel = (case sr_channel s of Some c \<Rightarrow> c | None \<Rightarrow> ''schedule'')
          in case (if channel = ''telegram'' then paired_chat agent (fe_vault F) else None) of
              Some chat \<Rightarrow>
                (case enqueue_outreach_turn (fe_chat F) agent sid chat (sr_prompt s) ''schedule'' (sh_chat h) of
                   (Inl e, c) \<Rightarrow> (Some (ChatFailed e), h\<lparr>sh_chat := c\<rparr>)
                 | (Inr _, c) \<Rightarrow> fire_audited F (h\<lparr>sh_chat := c\<rparr>))
            | None \<Rightarrow>
                (case queue_turn (fe_chat F) agent sid ''schedule'' channel (sr_id s) None (fe_content F s) (sh_chat h) of
                   Inl e \<Rightarrow> (Some (ChatFailed e), h)
                 | Inr (_, c) \<Rightarrow> fire_audited F (h\<lparr>sh_chat := c\<rparr>)))"

text \<open>
  One pass, the environment by position. The result: the error that ended it, the schedules that were marked and so
  were fired or tried to, and the host.
\<close>

fun due_pass ::
    "(int \<Rightarrow> str) \<Rightarrow> (nat \<Rightarrow> fire_env) \<Rightarrow> nat \<Rightarrow> str \<Rightarrow> str \<Rightarrow> moment \<Rightarrow> schedule_record list \<Rightarrow> schedule_host \<Rightarrow>
     schedule_error option \<times> schedule_record list \<times> schedule_host" where
  "due_pass key F k agent sid now [] h = (None, [], h)"
| "due_pass key F k agent sid now (s # ss) h =
     (case cron_matches (sr_cron s) now of
        Inl e \<Rightarrow> (Some (BadCron e), [], h)
      | Inr False \<Rightarrow> due_pass key F (Suc k) agent sid now ss h
      | Inr True \<Rightarrow>
          (case mark_schedule_run key (F k) (sr_id s) now h of
             Inl e \<Rightarrow> (Some e, [], h)
           | Inr (False, h1) \<Rightarrow> due_pass key F (Suc k) agent sid now ss h1
           | Inr (True, h1) \<Rightarrow>
               (case enqueue_schedule (F k) agent sid s h1 of
                  (Some e, h2) \<Rightarrow> (Some e, [s], h2)
                | (None, h2) \<Rightarrow> (case due_pass key F (Suc k) agent sid now ss h2 of (e, fired, h3) \<Rightarrow> (e, s # fired, h3)))))"

definition run_due_schedules ::
    "(int \<Rightarrow> str) \<Rightarrow> (nat \<Rightarrow> fire_env) \<Rightarrow> str \<Rightarrow> str \<Rightarrow> moment \<Rightarrow> schedule_host \<Rightarrow> schedule_error option \<times> schedule_record list \<times> schedule_host" where
  "run_due_schedules key F agent sid now h =
     (case read_schedules h of
        Inl e \<Rightarrow> (Some e, [], h)
      | Inr ss \<Rightarrow> due_pass key F 0 agent sid now (filter sr_enabled ss) h)"

text \<open>The runner goes on after a pass that failed.\<close>

fun serve_schedules ::
    "(int \<Rightarrow> str) \<Rightarrow> str \<Rightarrow> str \<Rightarrow> (moment \<times> (nat \<Rightarrow> fire_env)) list \<Rightarrow> schedule_host \<Rightarrow> (int \<times> schedule_record) list \<times> schedule_host" where
  "serve_schedules key agent sid [] h = ([], h)"
| "serve_schedules key agent sid ((now, F) # ps) h =
     (case run_due_schedules key F agent sid now h of
        (_, fired, h1) \<Rightarrow> (case serve_schedules key agent sid ps h1 of (rest, h2) \<Rightarrow> (map (\<lambda>s. (mo_index now, s)) fired @ rest, h2)))"

section \<open>Cron, exactly\<close>

text \<open>The values a part and a field stand for, when they are well formed.\<close>

definition part_values :: "str \<Rightarrow> nat \<Rightarrow> nat \<Rightarrow> nat set option" where
  "part_values p lo hi =
     (if p = ''*'' then Some {lo..hi}
      else case strip_prefix ''*/'' p of
          Some s \<Rightarrow> (case parse_nat_below (2 ^ 32) s of Some k \<Rightarrow> if k = 0 then None else Some {v. lo \<le> v \<and> v \<le> hi \<and> k dvd v} | None \<Rightarrow> None)
        | None \<Rightarrow>
            (case split_once CHR ''-'' p of
               Some (a, b) \<Rightarrow> (case (parse_nat_below (2 ^ 32) a, parse_nat_below (2 ^ 32) b) of
                   (Some s, Some e) \<Rightarrow> if lo \<le> s \<and> s \<le> e \<and> e \<le> hi then Some {s..e} else None | _ \<Rightarrow> None)
             | None \<Rightarrow> (case parse_nat_below (2 ^ 32) p of Some x \<Rightarrow> if lo \<le> x \<and> x \<le> hi then Some {x} else None | None \<Rightarrow> None)))"

definition field_values :: "str \<Rightarrow> nat \<Rightarrow> nat \<Rightarrow> nat set option" where
  "field_values f lo hi =
     (let parts = map (\<lambda>p. part_values (trim_text p) lo hi) (split_on CHR '','' f)
      in if None \<in> set parts then None else Some (\<Union>(the ` set parts)))"

lemma part_exact:
  assumes "part_values (trim_text p) lo hi = Some V" and v: "lo \<le> v" "v \<le> hi"
  shows "cron_part p v lo hi = Inr (v \<in> V)"
proof -
  let ?n = "parse_nat_below (2 ^ 32)"
  define q where "q = trim_text p"
  have V: "part_values q lo hi = Some V" using assms(1) by (simp add: q_def)
  consider (all) "q = ''*''" | (step) s where "q \<noteq> ''*''" "strip_prefix ''*/'' q = Some s"
    | (range) a b where "q \<noteq> ''*''" "strip_prefix ''*/'' q = None" "split_once CHR ''-'' q = Some (a, b)"
    | (exact) "q \<noteq> ''*''" "strip_prefix ''*/'' q = None" "split_once CHR ''-'' q = None"
    by (metis not_None_eq surj_pair)
  then have "(if q = ''*'' then Inr True
         else case strip_prefix ''*/'' q of
             Some s \<Rightarrow> bind_result (parse_u32 s) (\<lambda>k. if k = 0 then Inl CronStep else Inr (v mod k = 0))
           | None \<Rightarrow>
               (case split_once CHR ''-'' q of
                  Some (a, b) \<Rightarrow> bind_result (parse_u32 a) (\<lambda>s. bind_result (parse_u32 b) (\<lambda>e.
                    if s < lo \<or> hi < e \<or> e < s then Inl (CronRange q) else Inr (s \<le> v \<and> v \<le> e)))
                | None \<Rightarrow> bind_result (parse_u32 q) (\<lambda>x. if x < lo \<or> hi < x then Inl (CronValue q) else Inr (x = v)))) = Inr (v \<in> V)"
  proof cases
    case all
    then show ?thesis using V v by (auto simp: part_values_def)
  next
    case step
    then obtain k where k: "?n s = Some k" "k \<noteq> 0" "V = {v. lo \<le> v \<and> v \<le> hi \<and> k dvd v}"
      using V by (cases "?n s") (simp_all add: part_values_def split: if_splits)
    then show ?thesis using step v by (simp add: parse_u32_def bind_result_def dvd_eq_mod_eq_0)
  next
    case range
    then obtain x y where k: "?n a = Some x" "?n b = Some y" "lo \<le> x" "x \<le> y" "y \<le> hi" "V = {x..y}"
      using V by (cases "?n a"; cases "?n b") (simp_all add: part_values_def split: if_splits)
    then show ?thesis using range v by (simp add: parse_u32_def bind_result_def)
  next
    case exact
    then obtain x where "?n q = Some x" "lo \<le> x" "x \<le> hi" "V = {x}"
      using V by (cases "?n q") (simp_all add: part_values_def split: if_splits)
    then show ?thesis using exact v by (auto simp: parse_u32_def bind_result_def)
  qed
  then show ?thesis unfolding cron_part_def Let_def q_def .
qed

lemma parts_exact:
  assumes "\<forall>p\<in>set ps. part_values (trim_text p) lo hi \<noteq> None" and "lo \<le> v" and "v \<le> hi"
  shows "cron_parts ps v lo hi = Inr (v \<in> \<Union>((\<lambda>p. the (part_values (trim_text p) lo hi)) ` set ps))"
  using assms(1)
proof (induction ps)
  case (Cons p ps)
  then obtain V where "part_values (trim_text p) lo hi = Some V" by auto
  then show ?case using part_exact [OF _ assms(2,3), of p V] Cons by (simp add: bind_result_def)
qed simp

lemma field_exact:
  assumes "field_values f lo hi = Some V" and "lo \<le> v" and "v \<le> hi"
  shows "matches_cron_field f v lo hi = Inr (v \<in> V)"
proof -
  let ?parts = "split_on CHR '','' f"
  have "None \<notin> (\<lambda>p. part_values (trim_text p) lo hi) ` set ?parts"
    and V: "V = \<Union>((\<lambda>p. the (part_values (trim_text p) lo hi)) ` set ?parts)"
    using assms(1) by (simp_all add: field_values_def Let_def image_image split: if_splits)
  then have "\<forall>p\<in>set ?parts. part_values (trim_text p) lo hi \<noteq> None" by (metis imageI)
  from parts_exact [OF this assms(2,3)] show ?thesis by (simp add: matches_cron_field_def V)
qed

definition valid_moment :: "moment \<Rightarrow> bool" where
  "valid_moment now \<longleftrightarrow> list_all (\<lambda>(v, lo, hi). lo \<le> v \<and> v \<le> hi) (cron_bounds now)"

text \<open>
  C35. A cron expression of five well formed fields matches exactly the times each of whose parts is in the set of values
  its field stands for: a list is a union, a range an interval, a step the multiples, a star everything.
\<close>

theorem cron_exact:
  assumes "split_whitespace cron = [a, b, c, d, e]" and "valid_moment now"
    and "field_values a 0 59 = Some A" and "field_values b 0 23 = Some B" and "field_values c 1 31 = Some C"
    and "field_values d 1 12 = Some D" and "field_values e 0 6 = Some W"
  shows "cron_matches cron now = Inr (mo_minute now \<in> A \<and> mo_hour now \<in> B \<and> mo_day now \<in> C \<and> mo_month now \<in> D \<and> mo_weekday now \<in> W)"
proof -
  have "mo_minute now \<le> 59" "mo_hour now \<le> 23" "1 \<le> mo_day now" "mo_day now \<le> 31" "1 \<le> mo_month now" "mo_month now \<le> 12" "mo_weekday now \<le> 6"
    using assms(2) by (simp_all add: valid_moment_def cron_bounds_def)
  then show ?thesis using assms
    by (simp add: cron_matches_def cron_bounds_def field_exact bind_result_def)
qed

definition sample_moment :: moment where
  "sample_moment = \<lparr> mo_index = 5, mo_minute = 30, mo_hour = 9, mo_day = 15, mo_month = 6, mo_weekday = 1 \<rparr>"

lemma sample_numbers:
  "parse_nat_below (2 ^ 32) ''15'' = Some 15" "parse_nat_below (2 ^ 32) ''8'' = Some 8" "parse_nat_below (2 ^ 32) ''10'' = Some 10"
  "parse_nat_below (2 ^ 32) ''22'' = Some 22" "parse_nat_below (2 ^ 32) ''1'' = Some 1" "parse_nat_below (2 ^ 32) ''5'' = Some 5"
  by (simp_all add: parse_nat_below_def is_digit_def digits_val_def digit_val_def)

lemma sample_parts:
  "split_on CHR '','' ''*/15'' = [''*/15'']" "split_on CHR '','' ''8-10,22'' = [''8-10'', ''22'']"
  "split_on CHR '','' ''*'' = [''*'']" "split_on CHR '','' ''1-5'' = [''1-5'']"
  "trim_text ''*/15'' = ''*/15''" "trim_text ''8-10'' = ''8-10''" "trim_text ''22'' = ''22''" "trim_text ''*'' = ''*''" "trim_text ''1-5'' = ''1-5''"
  "strip_prefix ''*/'' ''*/15'' = Some ''15''" "strip_prefix ''*/'' ''8-10'' = None" "strip_prefix ''*/'' ''22'' = None" "strip_prefix ''*/'' ''1-5'' = None"
  "split_once CHR ''-'' ''8-10'' = Some (''8'', ''10'')" "split_once CHR ''-'' ''22'' = None" "split_once CHR ''-'' ''1-5'' = Some (''1'', ''5'')"
  by code_simp+

lemma sample_values:
  "part_values ''*/15'' 0 59 = Some {v. v \<le> 59 \<and> 15 dvd v}" "part_values ''8-10'' 0 23 = Some {8..10}" "part_values ''22'' 0 23 = Some {22}"
  "part_values ''*'' lo hi = Some {lo..hi}" "part_values ''1-5'' 0 6 = Some {1..5}"
  by (simp_all only: part_values_def sample_parts sample_numbers option.case prod.case) simp_all

lemma sample_fields:
  "split_whitespace ''*/15 8-10,22 * * 1-5'' = [''*/15'', ''8-10,22'', ''*'', ''*'', ''1-5'']"
  "field_values ''*/15'' 0 59 = Some {v. v \<le> 59 \<and> 15 dvd v}" "field_values ''8-10,22'' 0 23 = Some ({8..10} \<union> {22})"
  "field_values ''*'' 1 31 = Some {1..31}" "field_values ''*'' 1 12 = Some {1..12}" "field_values ''1-5'' 0 6 = Some {1..5}"
proof -
  show "split_whitespace ''*/15 8-10,22 * * 1-5'' = [''*/15'', ''8-10,22'', ''*'', ''*'', ''1-5'']" by code_simp
qed (simp_all only: field_values_def sample_parts list.map sample_values Let_def, simp_all)

text \<open>The fifteenth of June is a Monday, at half past nine.\<close>

theorem cron_exact_witness: "cron_matches ''*/15 8-10,22 * * 1-5'' sample_moment = Inr True"
  by (subst cron_exact [OF sample_fields(1) _ sample_fields(2-6)])
    (simp_all add: sample_moment_def valid_moment_def cron_bounds_def)

section \<open>Firing once\<close>

definition last_run :: "schedule_host \<Rightarrow> str \<Rightarrow> str option" where
  "last_run h i = (case sh_runs h of Stored m \<Rightarrow> m i | _ \<Rightarrow> None)"

lemma audited_runs: "last_run (snd (fire_audited F h)) = last_run h"
  by (simp add: fire_audited_def)

lemma enqueue_runs: "enqueue_schedule F agent sid s h = (e, h') \<Longrightarrow> last_run h' = last_run h"
  by (rule ext) (auto simp: enqueue_schedule_def spawn_board_run_def fire_audited_def last_run_def Let_def split: option.splits sum.splits prod.splits if_splits)

lemma mark_runs:
  assumes "mark_schedule_run key F i now h = Inr (m, h')"
  shows "m \<longleftrightarrow> last_run h i \<noteq> Some (key (mo_index now))" and "last_run h' i = Some (key (mo_index now))"
    and "j \<noteq> i \<Longrightarrow> last_run h' j = last_run h j"
  using assms by (auto simp: mark_schedule_run_def read_schedule_runs_def bind_result_def last_run_def split: stored.splits if_splits)

text \<open>What a pass does to the last runs, and which schedules it fires.\<close>

lemma due_pass_runs:
  assumes "due_pass key F k agent sid now ss h = (e, fired, h')"
  shows "distinct (map sr_id fired) \<and> (\<forall>s\<in>set fired. last_run h (sr_id s) \<noteq> Some (key (mo_index now)) \<and> last_run h' (sr_id s) = Some (key (mo_index now)))
    \<and> (\<forall>i. last_run h' i = last_run h i \<or> last_run h' i = Some (key (mo_index now)))"
  using assms
proof (induction ss arbitrary: k h e fired h')
  case (Cons s ss)
  consider (bad) x where "cron_matches (sr_cron s) now = Inl x" | (no) "cron_matches (sr_cron s) now = Inr False"
    | (yes) "cron_matches (sr_cron s) now = Inr True"
    by (metis (full_types) sum.exhaust)
  then show ?case
  proof cases
    case yes
    show ?thesis
    proof (cases "mark_schedule_run key (F k) (sr_id s) now h")
      case (Inr r)
      obtain m h1 where r: "r = (m, h1)" by (cases r)
      note mark = mark_runs [OF Inr [unfolded r]]
      have keep: "last_run h1 i = last_run h i \<or> last_run h1 i = Some (key (mo_index now))" for i
        using mark(2) mark(3) [of i] by (cases "i = sr_id s") simp_all
      show ?thesis
      proof (cases m)
        case False
        then have "due_pass key F (Suc k) agent sid now ss h1 = (e, fired, h')" using Cons.prems yes Inr r by simp
        from Cons.IH [OF this] show ?thesis using keep by metis
      next
        case True
        obtain e2 h2 where enq: "enqueue_schedule (F k) agent sid s h1 = (e2, h2)" by fastforce
        have h2: "last_run h2 = last_run h1" using enqueue_runs [OF enq] .
        show ?thesis
        proof (cases e2)
          case None
          obtain e3 f3 h3 where rest: "due_pass key F (Suc k) agent sid now ss h2 = (e3, f3, h3)" by (metis prod_cases3)
          then have "fired = s # f3" "h' = h3" using Cons.prems yes Inr r True enq None by simp_all
          moreover have "sr_id s \<notin> sr_id ` set f3" using Cons.IH [OF rest] h2 mark(2) by auto
          ultimately show ?thesis using Cons.IH [OF rest] keep h2 mark True by (simp del: not_Some_eq) metis
        next
          case (Some x)
          then have "fired = [s]" "h' = h2" using Cons.prems yes Inr r True enq by simp_all
          then show ?thesis using keep h2 mark True by simp
        qed
      qed
    qed (use Cons.prems yes in simp)
  qed (use Cons in auto)
qed simp

lemma run_due_runs:
  assumes "run_due_schedules key F agent sid now h = (e, fired, h')"
  shows "distinct (map sr_id fired)" "\<forall>s\<in>set fired. last_run h (sr_id s) \<noteq> Some (key (mo_index now))"
    "\<forall>s\<in>set fired. last_run h' (sr_id s) = Some (key (mo_index now))" "last_run h' i = last_run h i \<or> last_run h' i = Some (key (mo_index now))"
  using assms due_pass_runs [of key F 0 agent sid now _ h e fired h']
  by (auto simp: run_due_schedules_def split: sum.splits)

text \<open>The minutes of what a run of passes fired, by schedule.\<close>

abbreviation fired_keys :: "(int \<times> schedule_record) list \<Rightarrow> (int \<times> str) list" where
  "fired_keys fs \<equiv> map (\<lambda>(t, s). (t, sr_id s)) fs"

lemma fired_times: "x \<in> set (fst (serve_schedules key agent sid ps h)) \<Longrightarrow> \<exists>p\<in>set ps. fst x = mo_index (fst p)"
proof (induction ps arbitrary: h)
  case (Cons p ps)
  obtain now F where p: "p = (now, F)" by (cases p)
  obtain e fired h1 where run: "run_due_schedules key F agent sid now h = (e, fired, h1)" by (metis prod_cases3)
  obtain rest h2 where rest: "serve_schedules key agent sid ps h1 = (rest, h2)" by fastforce
  have "fst x = mo_index now \<or> x \<in> set rest" using Cons.prems run rest by (auto simp: p)
  then show ?case using Cons.IH [of h1] rest by (auto simp: p)
qed simp

lemma served_once:
  assumes "sorted (map (\<lambda>(now, _). mo_index now) ps)"
  shows "distinct (fired_keys (fst (serve_schedules key agent sid ps h)))
    \<and> (\<forall>t i. last_run h i = Some (key t) \<and> (\<forall>p\<in>set ps. t \<le> mo_index (fst p)) \<longrightarrow> (t, i) \<notin> set (fired_keys (fst (serve_schedules key agent sid ps h))))"
  using assms
proof (induction ps arbitrary: h)
  case (Cons p ps)
  obtain now F where p: "p = (now, F)" by (cases p)
  obtain e fired h1 where run: "run_due_schedules key F agent sid now h = (e, fired, h1)" by (metis prod_cases3)
  obtain rest h2 where rest: "serve_schedules key agent sid ps h1 = (rest, h2)" by fastforce
  note r = run_due_runs [OF run]
  have later: "\<forall>q\<in>set ps. mo_index now \<le> mo_index (fst q)" using Cons.prems by (auto simp: p)
  have IH: "distinct (fired_keys rest)"
    "\<And>t i. last_run h1 i = Some (key t) \<Longrightarrow> \<forall>p\<in>set ps. t \<le> mo_index (fst p) \<Longrightarrow> (t, i) \<notin> set (fired_keys rest)"
    using Cons.IH [of h1] Cons.prems rest by (simp_all add: p)
  have out: "fst (serve_schedules key agent sid (p # ps) h) = map (\<lambda>s. (mo_index now, s)) fired @ rest"
    using run rest by (simp add: p)
  have new: "fired_keys (map (\<lambda>s. (mo_index now, s)) fired) = map (\<lambda>i. (mo_index now, i)) (map sr_id fired)" by simp
  have fresh: "(mo_index now, sr_id s) \<notin> set (fired_keys rest)" if "s \<in> set fired" for s
    using IH(2) r(3) that later by blast
  have "distinct (fired_keys (map (\<lambda>s. (mo_index now, s)) fired))"
    unfolding new using r(1) by (subst distinct_map) (simp add: inj_on_def)
  moreover have "set (fired_keys (map (\<lambda>s. (mo_index now, s)) fired)) \<inter> set (fired_keys rest) = {}"
    using fresh unfolding new by (simp only: set_map image_image) blast
  ultimately have "distinct (fired_keys (map (\<lambda>s. (mo_index now, s)) fired @ rest))"
    using IH(1) by (simp only: map_append distinct_append)
  moreover have "(t, i) \<notin> set (fired_keys (map (\<lambda>s. (mo_index now, s)) fired @ rest))"
    if t: "last_run h i = Some (key t)" "\<forall>p\<in>set (p # ps). t \<le> mo_index (fst p)" for t i
  proof (cases "t = mo_index now")
    case True
    then have "last_run h1 i = Some (key t)" using r(4) [of i] t by auto
    then show ?thesis using IH(2) r(2) t True by auto
  next
    case False
    then have "t < mo_index now" using t(2) by (simp add: p)
    then have "\<forall>q\<in>set ps. t < mo_index (fst q)" using later by fastforce
    then have "fst x \<noteq> t" if "x \<in> set rest" for x
      using fired_times [of x key agent sid ps h1] that rest by fastforce
    then show ?thesis using False by force
  qed
  ultimately show ?case unfolding out by blast
qed simp

text \<open>
  C36. Polls may overlap a minute, and passes may fail halfway: as long as the clock does not go back, no schedule is fired
  twice for the same minute.
\<close>

theorem schedule_fires_once:
  assumes "sorted (map (\<lambda>(now, _). mo_index now) ps)"
  shows "distinct (fired_keys (fst (serve_schedules key agent sid ps h)))"
  using served_once [OF assms] by blast

definition demo_fire_env :: fire_env where
  "demo_fire_env = \<lparr> fe_chat = demo_chat_env, fe_vault = (\<lambda>_. None), fe_content = (\<lambda>_. ''{}''), fe_made_dir = True, fe_marked = True, fe_logged = True,
     fe_spawned = True, fe_audited = True \<rparr>"

definition demo_schedule :: "str \<Rightarrow> str \<Rightarrow> schedule_record" where
  "demo_schedule i cron = \<lparr> sr_id = i, sr_agent_id = ''a'', sr_name = i, sr_cron = cron, sr_prompt = ''go'', sr_channel = None,
     sr_board = (if i = ''b'' then Some ''board'' else None), sr_enabled = (i = ''b''), sr_created_at = 0 \<rparr>"

definition demo_schedule_host :: schedule_host where
  "demo_schedule_host = \<lparr> sh_schedules = Stored [demo_schedule ''b'' ''* * * * *'', demo_schedule ''n'' ''* * * * *''], sh_runs = Absent, sh_chat = demo_chat_host, sh_boards = [] \<rparr>"

definition demo_passes :: "(moment \<times> (nat \<Rightarrow> fire_env)) list" where
  "demo_passes = [(sample_moment, \<lambda>_. demo_fire_env), (sample_moment, \<lambda>_. demo_fire_env),
     (sample_moment\<lparr>mo_index := 6, mo_minute := 31\<rparr>, \<lambda>_. demo_fire_env)]"

text \<open>Two polls in one minute and one in the next: the board runs twice.\<close>

theorem schedule_fires_once_witness:
  "distinct (fired_keys (fst (serve_schedules (\<lambda>m. show_nat (nat m)) ''a'' ''s'' demo_passes demo_schedule_host)))
   \<and> fired_keys (fst (serve_schedules (\<lambda>m. show_nat (nat m)) ''a'' ''s'' demo_passes demo_schedule_host)) = [(5, ''b''), (6, ''b'')]"
proof
  show "distinct (fired_keys (fst (serve_schedules (\<lambda>m. show_nat (nat m)) ''a'' ''s'' demo_passes demo_schedule_host)))"
    by (rule schedule_fires_once) (simp add: demo_passes_def sample_moment_def)
  show "fired_keys (fst (serve_schedules (\<lambda>m. show_nat (nat m)) ''a'' ''s'' demo_passes demo_schedule_host)) = [(5, ''b''), (6, ''b'')]"
    by code_simp
qed

text \<open>
  A pass that ends without an error fired, in order, exactly the enabled schedules whose expression matches and that
  have not run in this minute.
\<close>

lemma due_exact:
  assumes "run_due_schedules key F agent sid now h = (None, fired, h')" and "sh_schedules h = Stored ss" and "distinct (map sr_id ss)"
  shows "fired = filter (\<lambda>s. sr_enabled s \<and> cron_matches (sr_cron s) now = Inr True \<and> last_run h (sr_id s) \<noteq> Some (key (mo_index now))) ss"
proof -
  have *: "fired = filter (\<lambda>s. cron_matches (sr_cron s) now = Inr True \<and> last_run h (sr_id s) \<noteq> Some (key (mo_index now))) ts"
    if "due_pass key F k agent sid now ts h = (None, fired, h')" "distinct (map sr_id ts)" for ts k h fired h'
    using that
  proof (induction ts arbitrary: k h fired h')
    case (Cons s ts)
    show ?case
    proof (cases "cron_matches (sr_cron s) now = Inr True")
      case yes: True
      obtain r where "mark_schedule_run key (F k) (sr_id s) now h = Inr r"
        using Cons.prems(1) yes by (cases "mark_schedule_run key (F k) (sr_id s) now h") simp_all
      then obtain m h1 where mark: "mark_schedule_run key (F k) (sr_id s) now h = Inr (m, h1)" by (cases r) simp
      note mr = mark_runs [OF mark]
      have same: "last_run h1 (sr_id t) = last_run h (sr_id t)" if "t \<in> set ts" for t
      proof (rule mr(3))
        have "sr_id s \<notin> sr_id ` set ts" using Cons.prems(2) by simp
        then show "sr_id t \<noteq> sr_id s" using that by (metis imageI)
      qed
      define P where "P h s \<longleftrightarrow> cron_matches (sr_cron s) now = Inr True \<and> last_run h (sr_id s) \<noteq> Some (key (mo_index now))" for h and s :: schedule_record
      have eq: "filter (P h2) ts = filter (P h) ts" if "last_run h2 = last_run h1" for h2
        by (rule filter_cong) (simp_all add: P_def that same)
      have IH: "fired = filter (P h2) ts" if "due_pass key F (Suc k) agent sid now ts h2 = (None, fired, h')" for h2 fired
        unfolding P_def using Cons.IH [OF that] Cons.prems(2) by simp
      have "fired = filter (P h) (s # ts)"
      proof (cases m)
        case False
        then show ?thesis using Cons.prems yes mark IH [of h1 fired] mr(1) eq [of h1] by (simp add: P_def)
      next
        case True
        obtain e2 h2 where enq0: "enqueue_schedule (F k) agent sid s h1 = (e2, h2)" by fastforce
        obtain e3 f3 h3 where rest0: "due_pass key F (Suc k) agent sid now ts h2 = (e3, f3, h3)" by (metis prod_cases3)
        have enq: "enqueue_schedule (F k) agent sid s h1 = (None, h2)" using Cons.prems(1) yes mark True enq0 by (cases e2) simp_all
        then have rest: "due_pass key F (Suc k) agent sid now ts h2 = (None, f3, h')" and "fired = s # f3"
          using Cons.prems(1) yes mark True rest0 by simp_all
        then show ?thesis using yes IH [OF rest] mr(1) True eq [OF enqueue_runs [OF enq]] by (simp add: P_def)
      qed
      then show ?thesis unfolding P_def .
    next
      case False
      then have "cron_matches (sr_cron s) now = Inr False" "due_pass key F (Suc k) agent sid now ts h = (None, fired, h')"
        using Cons.prems(1) by (auto split: sum.splits bool.splits)
      then show ?thesis using Cons by simp
    qed
  qed simp
  have "due_pass key F 0 agent sid now (filter sr_enabled ss) h = (None, fired, h')"
    using assms(1,2) by (simp add: run_due_schedules_def read_schedules_def)
  from * [OF this] show ?thesis using assms(3) by (simp add: distinct_map_filter conj_assoc)
qed

lemma due_exact_demo:
  "\<exists>h'. run_due_schedules (\<lambda>m. show_nat (nat m)) (\<lambda>_. demo_fire_env) ''a'' ''s'' sample_moment demo_schedule_host = (None, [demo_schedule ''b'' ''* * * * *''], h') \<and>
     [demo_schedule ''b'' ''* * * * *''] = filter (\<lambda>s. sr_enabled s \<and> cron_matches (sr_cron s) sample_moment = Inr True \<and>
       last_run demo_schedule_host (sr_id s) \<noteq> Some (show_nat (nat (mo_index sample_moment)))) [demo_schedule ''b'' ''* * * * *'', demo_schedule ''n'' ''* * * * *'']"
proof -
  let ?r = "run_due_schedules (\<lambda>m. show_nat (nat m)) (\<lambda>_. demo_fire_env) ''a'' ''s'' sample_moment demo_schedule_host"
  have "fst ?r = None \<and> fst (snd ?r) = [demo_schedule ''b'' ''* * * * *'']" by code_simp
  then obtain h' where r: "?r = (None, [demo_schedule ''b'' ''* * * * *''], h')" by (cases ?r) auto
  from due_exact [OF r] have "[demo_schedule ''b'' ''* * * * *''] = filter (\<lambda>s. sr_enabled s \<and> cron_matches (sr_cron s) sample_moment = Inr True \<and>
       last_run demo_schedule_host (sr_id s) \<noteq> Some (show_nat (nat (mo_index sample_moment)))) [demo_schedule ''b'' ''* * * * *'', demo_schedule ''n'' ''* * * * *'']"
    by (simp add: demo_schedule_host_def demo_schedule_def)
  with r show ?thesis by blast
qed

text \<open>A malformed expression ends the pass: the schedules after it do not run until it is removed.\<close>

lemma bad_cron_blocks:
  assumes "cron_matches (sr_cron s) now = Inl e"
  shows "due_pass key F k agent sid now (s # ss) h = (Some (BadCron e), [], h)"
  using assms by simp

end
