(* ===== verification/Mcp_Config.thy ===== *)
theory Mcp_Config
  imports Agent_Spec "HOL-Library.AList"
begin

text \<open>
  \<open>crates/maturana-core/src/mcp.rs\<close>: the tool servers of a specification, written into the configuration of the harness.
  A configuration is a tree of tables; parsing and printing TOML and JSON, and resolving a secret, are arguments.
\<close>

datatype config_value = CText str | CFlag bool | CItems "config_value list" | CTable "(str \<times> config_value) list"

type_synonym config_table = "(str \<times> config_value) list"

datatype mcp_error = NoSecret str str | BadToml | BadJson | NotATable str | CannotPrint

record mcp_host =
  mx_secret :: "str \<Rightarrow> str option"
  mx_toml :: "str \<Rightarrow> config_value option"
  mx_json :: "str \<Rightarrow> config_value option"
  mx_show_toml :: "config_value \<Rightarrow> str option"
  mx_show_json :: "config_value \<Rightarrow> str"

section \<open>How a server is started\<close>

definition resident_npm_bin :: "str \<Rightarrow> str option" where
  "resident_npm_bin pkg = (if pkg = ''@notionhq/notion-mcp-server'' then Some ''notion-mcp-server'' else None)"

definition strip_npm_version :: "str \<Rightarrow> str" where
  "strip_npm_version pkg = (case rsplit_once CHR ''@'' pkg of Some (a, b) \<Rightarrow> if a \<noteq> [] then a else pkg | None \<Rightarrow> pkg)"

definition npx_package :: "str option \<Rightarrow> str list \<Rightarrow> str option" where
  "npx_package command args = (if command \<noteq> Some ''npx'' then None else List.find (\<lambda>a. \<not> prefix ''-'' a) args)"

definition launch_invocation :: "str \<Rightarrow> str list \<Rightarrow> str \<times> str list" where
  "launch_invocation command args =
     (if command = ''npx''
      then case dropWhile (prefix ''-'') args of
          pkg # rest \<Rightarrow> (case resident_npm_bin (strip_npm_version pkg) of
              Some bin \<Rightarrow> (''/usr/local/bin/'' @ bin, rest) | None \<Rightarrow> (command, args))
        | [] \<Rightarrow> (command, args)
      else (command, args))"

section \<open>Rendering\<close>

fun resolve_vars :: "mcp_host \<Rightarrow> str \<Rightarrow> credential list \<Rightarrow> (str \<times> str) list \<Rightarrow> mcp_error + (str \<times> str) list" where
  "resolve_vars M n [] env = Inr env"
| "resolve_vars M n (v # vs) env =
     (case mx_secret M (cr_source v) of
        None \<Rightarrow> Inl (NoSecret n (cr_name v))
      | Some x \<Rightarrow> resolve_vars M n vs (AList.update (cr_name v) x env))"

definition resolve_env :: "mcp_host \<Rightarrow> mcp_server \<Rightarrow> mcp_error + (str \<times> str) list" where
  "resolve_env M s =
     bind_result (resolve_vars M (mcp_name s) (mcp_env s) []) (\<lambda>env.
       Inr (if mcp_egress_hosts s = [] then env
            else let hosts = join '','' (mcp_egress_hosts s) in AList.update ''no_proxy'' hosts (AList.update ''NO_PROXY'' hosts env)))"

definition env_table :: "(str \<times> str) list \<Rightarrow> config_value" where
  "env_table env = CTable (map (\<lambda>(k, v). (k, CText v)) env)"

definition text_or_empty :: "str option \<Rightarrow> str" where
  "text_or_empty x = (case x of Some t \<Rightarrow> t | None \<Rightarrow> [])"

definition codex_entry :: "mcp_host \<Rightarrow> mcp_server \<Rightarrow> mcp_error + config_value" where
  "codex_entry M s =
     (let base = (case mcp_transport_of s of
          Stdio \<Rightarrow> (case launch_invocation (text_or_empty (mcp_command s)) (mcp_args s) of
            (c, args) \<Rightarrow> [(''command'', CText c), (''args'', CItems (map CText args))])
        | Http \<Rightarrow> [(''url'', CText (text_or_empty (mcp_url s)))])
      in bind_result (resolve_env M s) (\<lambda>env. Inr (CTable (base @ (if env = [] then [] else [(''env'', env_table env)])))))"

definition claude_entry :: "mcp_host \<Rightarrow> mcp_server \<Rightarrow> mcp_error + config_value" where
  "claude_entry M s =
     (case mcp_transport_of s of
        Stdio \<Rightarrow> (case launch_invocation (text_or_empty (mcp_command s)) (mcp_args s) of (c, args) \<Rightarrow>
          bind_result (resolve_env M s) (\<lambda>env. Inr (CTable ([(''type'', CText ''stdio''), (''command'', CText c), (''args'', CItems (map CText args))] @
            (if env = [] then [] else [(''env'', env_table env)])))))
      | Http \<Rightarrow> Inr (CTable [(''type'', CText ''http''), (''url'', CText (text_or_empty (mcp_url s)))]))"

definition opencode_entry :: "mcp_host \<Rightarrow> mcp_server \<Rightarrow> mcp_error + config_value" where
  "opencode_entry M s =
     bind_result (case mcp_transport_of s of
        Stdio \<Rightarrow> (case launch_invocation (text_or_empty (mcp_command s)) (mcp_args s) of (c, args) \<Rightarrow>
          bind_result (resolve_env M s) (\<lambda>env. Inr ([(''type'', CText ''local''), (''command'', CItems (map CText (c # args)))] @
            (if env = [] then [] else [(''environment'', env_table env)]))))
      | Http \<Rightarrow> Inr [(''type'', CText ''remote''), (''url'', CText (text_or_empty (mcp_url s)))])
       (\<lambda>t. Inr (CTable (t @ [(''enabled'', CFlag True)])))"

text \<open>The loop over the servers; a later server of the same name replaces an earlier one.\<close>

fun put_servers :: "(mcp_server \<Rightarrow> mcp_error + config_value) \<Rightarrow> mcp_server list \<Rightarrow> config_table \<Rightarrow> mcp_error + config_table" where
  "put_servers f [] t = Inr t"
| "put_servers f (s # ss) t = bind_result (f s) (\<lambda>e. put_servers f ss (AList.update (mcp_name s) e t))"

text \<open>\<open>base\<close> is the content of the operator's file, empty when there is none.\<close>

definition merge_servers ::
    "(str \<Rightarrow> config_value option) \<Rightarrow> mcp_error \<Rightarrow> str \<Rightarrow> (mcp_server \<Rightarrow> mcp_error + config_value) \<Rightarrow> mcp_server list \<Rightarrow> str \<Rightarrow> mcp_error + config_value" where
  "merge_servers parse bad key f servers base =
     bind_result (if trim_text base = [] then Inr (CTable []) else case parse base of None \<Rightarrow> Inl bad | Some d \<Rightarrow> Inr d) (\<lambda>d.
       case d of
         CTable t \<Rightarrow>
           (case (case map_of t key of None \<Rightarrow> CTable [] | Some m \<Rightarrow> m) of
              CTable m \<Rightarrow> bind_result (put_servers f servers m) (\<lambda>m1. Inr (CTable (AList.update key (CTable m1) t)))
            | _ \<Rightarrow> Inl (NotATable key))
       | _ \<Rightarrow> Inl (NotATable []))"

definition codex_document :: "mcp_host \<Rightarrow> mcp_server list \<Rightarrow> str \<Rightarrow> mcp_error + config_value" where
  "codex_document M = merge_servers (mx_toml M) BadToml ''mcp_servers'' (codex_entry M)"

definition claude_document :: "mcp_host \<Rightarrow> mcp_server list \<Rightarrow> str \<Rightarrow> mcp_error + config_value" where
  "claude_document M = merge_servers (mx_json M) BadJson ''mcpServers'' (claude_entry M)"

definition opencode_document :: "mcp_host \<Rightarrow> mcp_server list \<Rightarrow> mcp_error + config_value" where
  "opencode_document M servers =
     bind_result (put_servers (opencode_entry M) servers []) (\<lambda>m.
       Inr (CTable [(''$schema'', CText ''https://opencode.ai/config.json''), (''mcp'', CTable m)]))"

record rendered_config =
  rc_guest_path :: str
  rc_contents :: str

text \<open>\<open>host_auth\<close> reads a file of the harness's directory, empty when it cannot be read.\<close>

definition render_mcp_config :: "mcp_host \<Rightarrow> harness_runtime \<Rightarrow> mcp_server list \<Rightarrow> (str \<Rightarrow> str) \<Rightarrow> mcp_error + rendered_config option" where
  "render_mcp_config M harness servers host_auth =
     (if servers = [] then Inr None
      else case harness of
          Codex \<Rightarrow> bind_result (codex_document M servers (host_auth ''config.toml'')) (\<lambda>d.
            case mx_show_toml M d of None \<Rightarrow> Inl CannotPrint
            | Some c \<Rightarrow> Inr (Some \<lparr> rc_guest_path = ''/home/ubuntu/.codex/config.toml'', rc_contents = c \<rparr>))
        | ClaudeCode \<Rightarrow> bind_result (claude_document M servers (host_auth ''.claude.json'')) (\<lambda>d.
            Inr (Some \<lparr> rc_guest_path = ''/home/ubuntu/.claude.json'', rc_contents = mx_show_json M d \<rparr>))
        | Opencode \<Rightarrow> bind_result (opencode_document M servers) (\<lambda>d.
            Inr (Some \<lparr> rc_guest_path = ''/home/ubuntu/.config/opencode/opencode.json'', rc_contents = mx_show_json M d \<rparr>)))"

section \<open>What the merge keeps\<close>

lemma put_servers_other: "put_servers f ss t = Inr t' \<Longrightarrow> n \<notin> mcp_name ` set ss \<Longrightarrow> map_of t' n = map_of t n"
  by (induction f ss t rule: put_servers.induct) (auto simp: bind_result_def update_conv' split: sum.splits)

lemma put_servers_declared:
  "put_servers f ss t = Inr t' \<Longrightarrow> distinct (map mcp_name ss) \<Longrightarrow> s \<in> set ss \<Longrightarrow> \<exists>e. f s = Inr e \<and> map_of t' (mcp_name s) = Some e"
proof (induction f ss t rule: put_servers.induct)
  case (2 f s0 ss t)
  then obtain e where e: "f s0 = Inr e" "put_servers f ss (AList.update (mcp_name s0) e t) = Inr t'"
    by (auto simp: bind_result_def split: sum.splits)
  show ?case
  proof (cases "s = s0")
    case True
    have "map_of t' (mcp_name s0) = map_of (AList.update (mcp_name s0) e t) (mcp_name s0)"
      by (rule put_servers_other [OF e(2)]) (use 2 in simp)
    then show ?thesis using True e(1) by (simp add: update_conv')
  next
    case False
    then show ?thesis using "2.IH" [OF e(2)] 2 by simp
  qed
qed simp

definition table_of :: "config_value \<Rightarrow> config_table" where
  "table_of v = (case v of CTable t \<Rightarrow> t | _ \<Rightarrow> [])"

abbreviation section_of :: "str \<Rightarrow> config_value \<Rightarrow> str \<Rightarrow> config_value option" where
  "section_of key d n \<equiv> map_of (case map_of (table_of d) key of Some v \<Rightarrow> table_of v | None \<Rightarrow> []) n"

lemma merge_servers_keeps:
  assumes "merge_servers parse bad key f servers base = Inr d'" and "parse base = Some d" and "trim_text base \<noteq> []"
  shows "k \<noteq> key \<Longrightarrow> map_of (table_of d') k = map_of (table_of d) k"
    and "n \<notin> mcp_name ` set servers \<Longrightarrow> section_of key d' n = section_of key d n"
    and "distinct (map mcp_name servers) \<Longrightarrow> s \<in> set servers \<Longrightarrow> \<exists>e. f s = Inr e \<and> section_of key d' (mcp_name s) = Some e"
proof -
  obtain t m m1 where t: "d = CTable t" "(case map_of t key of None \<Rightarrow> CTable [] | Some m \<Rightarrow> m) = CTable m"
    "put_servers f servers m = Inr m1" "d' = CTable (AList.update key (CTable m1) t)"
    using assms by (auto simp: merge_servers_def bind_result_def split: config_value.splits sum.splits option.splits)
  have m: "section_of key d n = map_of m n" for n
    using t(2) by (auto simp: t(1) table_of_def split: option.splits config_value.splits)
  have m1: "section_of key d' n = map_of m1 n" for n by (simp add: t(4) table_of_def update_conv')
  show "k \<noteq> key \<Longrightarrow> map_of (table_of d') k = map_of (table_of d) k" by (simp add: t(1,4) table_of_def update_conv')
  show "n \<notin> mcp_name ` set servers \<Longrightarrow> section_of key d' n = section_of key d n"
    unfolding m m1 by (rule put_servers_other [OF t(3)])
  show "distinct (map mcp_name servers) \<Longrightarrow> s \<in> set servers \<Longrightarrow> \<exists>e. f s = Inr e \<and> section_of key d' (mcp_name s) = Some e"
    unfolding m1 by (rule put_servers_declared [OF t(3)])
qed

text \<open>
  Merging the declared servers into an operator's configuration leaves every other setting and every other server as it
  was, and each declared server has its entry.
\<close>

lemma codex_merge_exact:
  assumes "codex_document M servers base = Inr d'" and "mx_toml M base = Some d" and "trim_text base \<noteq> []"
    and "distinct (map mcp_name servers)"
  shows "(\<forall>k. k \<noteq> ''mcp_servers'' \<longrightarrow> map_of (table_of d') k = map_of (table_of d) k)
    \<and> (\<forall>n. section_of ''mcp_servers'' d' n =
        (case List.find (\<lambda>s. mcp_name s = n) servers of Some s \<Rightarrow> (case codex_entry M s of Inr e \<Rightarrow> Some e | Inl _ \<Rightarrow> None)
         | None \<Rightarrow> section_of ''mcp_servers'' d n))"
proof -
  note keeps = merge_servers_keeps [OF assms(1) [unfolded codex_document_def] assms(2,3)]
  have "section_of ''mcp_servers'' d' n =
        (case List.find (\<lambda>s. mcp_name s = n) servers of Some s \<Rightarrow> (case codex_entry M s of Inr e \<Rightarrow> Some e | Inl _ \<Rightarrow> None)
         | None \<Rightarrow> section_of ''mcp_servers'' d n)" for n
  proof (cases "List.find (\<lambda>s. mcp_name s = n) servers")
    case None
    then have "n \<notin> mcp_name ` set servers" by (auto simp: find_None_iff)
    then show ?thesis using keeps(2) None by simp
  next
    case (Some s)
    then have "s \<in> set servers" "mcp_name s = n" by (auto simp: find_Some_iff)
    then show ?thesis using keeps(3) [OF assms(4), of s] Some by auto
  qed
  then show ?thesis using keeps(1) by blast
qed

definition demo_servers :: "mcp_server list" where
  "demo_servers = [\<lparr> mcp_name = ''notion'', mcp_transport_of = Stdio, mcp_command = Some ''npx'', mcp_args = [''-y'', ''@notionhq/notion-mcp-server@1'', ''x''],
     mcp_url = None, mcp_env = [\<lparr> cr_name = ''T'', cr_source = ''s'' \<rparr>], mcp_egress_hosts = [''h''] \<rparr>]"

definition demo_mcp_host :: mcp_host where
  "demo_mcp_host = \<lparr> mx_secret = (\<lambda>_. Some ''v''), mx_toml = (\<lambda>_. Some (CTable [(''model'', CText ''m''), (''mcp_servers'', CTable [(''own'', CTable [])])])),
     mx_json = (\<lambda>_. None), mx_show_toml = (\<lambda>_. None), mx_show_json = (\<lambda>_. []) \<rparr>"

lemma codex_merge_exact_demo:
  "\<exists>d'. codex_document demo_mcp_host demo_servers ''x'' = Inr d' \<and> map_of (table_of d') ''model'' = Some (CText ''m'') \<and>
     section_of ''mcp_servers'' d' ''own'' = Some (CTable []) \<and>
     section_of ''mcp_servers'' d' ''notion'' = Some (CTable [(''command'', CText ''/usr/local/bin/notion-mcp-server''), (''args'', CItems [CText ''x'']),
       (''env'', CTable [(''T'', CText ''v''), (''NO_PROXY'', CText ''h''), (''no_proxy'', CText ''h'')])])"
proof -
  obtain d' where d: "codex_document demo_mcp_host demo_servers ''x'' = Inr d'"
  proof -
    have "\<not> (case codex_document demo_mcp_host demo_servers ''x'' of Inl _ \<Rightarrow> True | Inr _ \<Rightarrow> False)" by code_simp
    then show thesis using that by (cases "codex_document demo_mcp_host demo_servers ''x''") simp_all
  qed
  have t: "trim_text ''x'' \<noteq> []" by code_simp
  have "mx_toml demo_mcp_host ''x'' = Some (CTable [(''model'', CText ''m''), (''mcp_servers'', CTable [(''own'', CTable [])])])" by (simp add: demo_mcp_host_def)
  moreover have "distinct (map mcp_name demo_servers)" by (simp add: demo_servers_def)
  ultimately have e: "(\<forall>k. k \<noteq> ''mcp_servers'' \<longrightarrow> map_of (table_of d') k = map_of (table_of (CTable [(''model'', CText ''m''), (''mcp_servers'', CTable [(''own'', CTable [])])])) k)
    \<and> (\<forall>n. section_of ''mcp_servers'' d' n =
        (case List.find (\<lambda>s. mcp_name s = n) demo_servers of Some s \<Rightarrow> (case codex_entry demo_mcp_host s of Inr e \<Rightarrow> Some e | Inl _ \<Rightarrow> None)
         | None \<Rightarrow> section_of ''mcp_servers'' (CTable [(''model'', CText ''m''), (''mcp_servers'', CTable [(''own'', CTable [])])]) n))"
    using codex_merge_exact [OF d _ t] by blast
  have f: "List.find (\<lambda>s. mcp_name s = ''own'') demo_servers = None" "List.find (\<lambda>s. mcp_name s = ''notion'') demo_servers = Some (hd demo_servers)"
    by (simp_all add: demo_servers_def)
  have n: "codex_entry demo_mcp_host (hd demo_servers) = Inr (CTable [(''command'', CText ''/usr/local/bin/notion-mcp-server''), (''args'', CItems [CText ''x'']),
       (''env'', CTable [(''T'', CText ''v''), (''NO_PROXY'', CText ''h''), (''no_proxy'', CText ''h'')])])" by code_simp
  have "map_of (table_of d') ''model'' = Some (CText ''m'')" using e by (simp add: table_of_def)
  moreover have "section_of ''mcp_servers'' d' ''own'' = Some (CTable [])" using e f(1) by (simp add: table_of_def)
  moreover have "section_of ''mcp_servers'' d' ''notion'' = Some (CTable [(''command'', CText ''/usr/local/bin/notion-mcp-server''), (''args'', CItems [CText ''x'']),
       (''env'', CTable [(''T'', CText ''v''), (''NO_PROXY'', CText ''h''), (''no_proxy'', CText ''h'')])])"
    using e f(2) n by simp
  ultimately show ?thesis using d by blast
qed

text \<open>A secret that is missing fails the rendering; nothing is written.\<close>

lemma missing_secret_fails:
  "v \<in> set vs \<Longrightarrow> mx_secret M (cr_source v) = None \<Longrightarrow> \<exists>x. resolve_vars M n vs env = Inl (NoSecret n x)"
  by (induction M n vs env rule: resolve_vars.induct) (auto split: option.splits)

end
