(* ===== verification/Guest_Worker.thy ===== *)
theory Guest_Worker
  imports Conversation Mcp_Config
begin

text \<open>
  The guest's worker, seen from the host: the files it is given (\<open>crates/maturana-core/src/worker.rs\<close>, less the shell
  scripts), the session it and the host derive (\<open>crates/maturana-ops/src/agents.rs\<close>), the pinning of its host key
  (\<open>crates/maturana-core/src/ssh_pin.rs\<close>, \<open>crates/maturana-ops/src/ssh.rs\<close>) and its installation over SSH
  (\<open>crates/maturana-ops/src/guest_worker.rs\<close>). What \<open>ssh\<close> and \<open>scp\<close> answer to an argument vector is the environment.
\<close>

section \<open>Files of the guest\<close>

definition quoted_apostrophe :: str where
  "quoted_apostrophe = [apostrophe, double_quote, apostrophe, double_quote, apostrophe]"

definition shell_env_value :: "str \<Rightarrow> str" where
  "shell_env_value v = apostrophe # replace_all [apostrophe] quoted_apostrophe v @ [apostrophe]"

definition harness_name :: "harness_runtime \<Rightarrow> str" where
  "harness_name r = (case r of Codex \<Rightarrow> ''codex'' | ClaudeCode \<Rightarrow> ''claude-code'' | Opencode \<Rightarrow> ''opencode'')"

definition harness_binary :: "harness_runtime \<Rightarrow> str" where
  "harness_binary r = (case r of Codex \<Rightarrow> ''codex'' | ClaudeCode \<Rightarrow> ''claude'' | Opencode \<Rightarrow> ''opencode'')"

record guest_worker_config =
  gw_agent_id :: str
  gw_session_id :: str
  gw_sessiond_url :: str
  gw_sessiond_token :: str
  gw_harness :: harness_runtime
  gw_harness_auth_guest_path :: str
  gw_headless_chrome :: bool
  gw_graph_token :: "str option"
  gw_graph_name :: "str option"

definition env_line :: "str \<Rightarrow> str \<Rightarrow> str" where
  "env_line k v = k @ ''='' @ shell_env_value v @ [newline_byte]"

definition render_session_env :: "guest_worker_config \<Rightarrow> str" where
  "render_session_env c =
     env_line ''MATURANA_AGENT_ID'' (gw_agent_id c) @ env_line ''MATURANA_SESSION_ID'' (gw_session_id c) @
     env_line ''MATURANA_SESSIOND_URL'' (gw_sessiond_url c) @ env_line ''MATURANA_SESSIOND_TOKEN'' (gw_sessiond_token c) @
     env_line ''MATURANA_HARNESS'' (harness_name (gw_harness c)) @ env_line ''CODEX_HOME'' (gw_harness_auth_guest_path c) @
     env_line ''MATURANA_HEADLESS_CHROME'' (if gw_headless_chrome c then ''1'' else ''0'') @
     env_line ''PLAYWRIGHT_BROWSERS_PATH'' ''/opt/maturana/browsers'' @
     (case (gw_graph_token c, gw_graph_name c) of
        (Some t, Some n) \<Rightarrow> env_line ''MATURANA_GRAPH_URL'' ''__MATURANA_DEFAULT_GRAPH_URL__'' @ env_line ''MATURANA_GRAPH_TOKEN'' t @ env_line ''MATURANA_GRAPH_NAME'' n
      | _ \<Rightarrow> [])"

definition opencode_response_is_context_error :: "str \<Rightarrow> bool" where
  "opencode_response_is_context_error r =
     list_ex (\<lambda>m. contains m r) [''ContextOverflowError'', ''ContextLengthExceededError'', ''ContextWindowExceededError'', ''context_length_exceeded'']"

definition render_firecracker_netplan :: "str \<Rightarrow> str \<Rightarrow> str \<Rightarrow> str" where
  "render_firecracker_netplan mac ip host_ip = concat (map (\<lambda>l. l @ [newline_byte])
     [''network:'', ''  version: 2'', ''  ethernets:'', ''    eth0:'', ''      match:'',
      ''        macaddress: '' @ [double_quote] @ mac @ [double_quote], ''      set-name: eth0'', ''      dhcp4: false'', ''      addresses:'',
      ''        - '' @ ip @ ''/30'', ''      routes:'', ''        - to: default'', ''          via: '' @ host_ip, ''      nameservers:'',
      ''        addresses:'', ''          - 1.1.1.1'', ''          - 8.8.8.8''])"

datatype proxy_env_error = NoBind | NoBindPort str | BadBindPort str

definition render_firecracker_proxy_env :: "bool \<Rightarrow> str option \<Rightarrow> str \<Rightarrow> proxy_env_error + str option" where
  "render_firecracker_proxy_env enabled bind host_ip =
     (if \<not> enabled then Inr None
      else case bind of
          None \<Rightarrow> Inl NoBind
        | Some b \<Rightarrow>
            (case rsplit_once CHR '':'' b of
               None \<Rightarrow> Inl (NoBindPort b)
             | Some (_, port) \<Rightarrow>
                 if parse_nat_below (2 ^ 16) port = None then Inl (BadBindPort b)
                 else Inr (Some (concat (map (\<lambda>l. l @ [newline_byte])
                   [''MATURANA_USE_HOST_PROXY=1'', ''MATURANA_PROXY_HOST='' @ host_ip, ''MATURANA_PROXY_PORT='' @ port, ''MATURANA_PROXY_HTTPS=1'',
                    ''NO_PROXY=localhost,127.0.0.1,::1''])))))"

definition systemd_value :: "str \<Rightarrow> str" where
  "systemd_value v = filter (\<lambda>c. c \<noteq> newline_byte \<and> c \<noteq> return_byte) v"

definition systemd_lines :: "str \<Rightarrow> str \<Rightarrow> str list" where
  "systemd_lines description user =
     [''[Unit]'', ''Description='' @ description, ''After=network-online.target maturana-harness-install.service'', ''Wants=network-online.target'', [],
      ''[Service]'', ''User='' @ user, ''WorkingDirectory=/workspace'', ''ExecStart=/opt/maturana/bin/run-agent.sh'', ''Restart=on-failure'', ''RestartSec=10'',
      ''StandardOutput=append:/var/log/maturana/agent.log'', ''StandardError=append:/var/log/maturana/agent.err.log'', [],
      ''[Install]'', ''WantedBy=multi-user.target'']"

definition render_systemd_service :: "str \<Rightarrow> str \<Rightarrow> str" where
  "render_systemd_service description user = concat (map (\<lambda>l. l @ [newline_byte]) (systemd_lines (systemd_value description) (systemd_value user)))"

section \<open>The session of an agent\<close>

definition unquote_shell_env_value :: "str \<Rightarrow> str" where
  "unquote_shell_env_value v =
     (let t = trim_text v
      in if 2 \<le> length t \<and> hd t = apostrophe \<and> last t = apostrophe then replace_all quoted_apostrophe [apostrophe] (butlast (tl t)) else t)"

definition session_env_value :: "str \<Rightarrow> str \<Rightarrow> str option" where
  "session_env_value raw k =
     (case List.find (prefix (k @ ''='')) (text_lines raw) of
        None \<Rightarrow> None
      | Some l \<Rightarrow> let v = unquote_shell_env_value (drop (length k + 1) l) in if trim_text v = [] then None else Some v)"

definition default_session_id :: "str \<Rightarrow> str" where
  "default_session_id agent =
     (if agent \<in> {''codex-demo'', ''codex-firecracker''} then ''codex-main''
      else if agent \<in> {''opencode-demo'', ''opencode-firecracker''} then ''opencode-main''
      else if agent \<in> {''claude-demo'', ''claude-firecracker''} then ''claude-main''
      else agent @ ''-main'')"

definition infer_agent_session_id :: "chat_env \<Rightarrow> str \<Rightarrow> chat_host \<Rightarrow> chat_error + str" where
  "infer_agent_session_id E agent h =
     (let p = path_join (agent_dir (ce_root E) agent) ''state/sessiond.env''
      in if ch_files h p = None then Inr (default_session_id agent)
         else bind_result (read_file p h) (\<lambda>raw.
           Inr (case session_env_value raw ''MATURANA_SESSION_ID'' of Some s \<Rightarrow> s | None \<Rightarrow> default_session_id agent)))"

definition ensure_safe_agent_id :: "str \<Rightarrow> bool" where
  "ensure_safe_agent_id i \<longleftrightarrow> i \<noteq> [] \<and> length i \<le> 128 \<and> list_all (\<lambda>c. is_ascii_alnum c \<or> c = CHR ''-'' \<or> c = CHR ''_'') i"

definition output_tail :: "str \<Rightarrow> nat \<Rightarrow> str list" where
  "output_tail bytes n = take n (rev (text_lines (from_utf8_lossy bytes)))"

definition humanize_age :: "nat \<Rightarrow> str" where
  "humanize_age age =
     (if age < 60 then show_nat age @ ''s ago''
      else if age < 3600 then show_nat (age div 60) @ ''m ago''
      else if age < 86400 then show_nat (age div 3600) @ ''h ago''
      else show_nat (age div 86400) @ ''d ago'')"

section \<open>Commands over SSH\<close>

record host_key =
  hk_known_hosts :: str
  hk_strict :: bool

definition ssh_host_key_options :: "host_key \<Rightarrow> str list" where
  "ssh_host_key_options k =
     [''-o'', ''StrictHostKeyChecking='' @ (if hk_strict k then ''yes'' else ''accept-new''), ''-o'', ''UserKnownHostsFile='' @ hk_known_hosts k]"

text \<open>Whether a command runs, and what it prints: \<open>None\<close> when it cannot start, times out or fails.\<close>

type_synonym guest_answers = "str list \<Rightarrow> str option"

datatype guest_error = FileError chat_error | CommandFailed "str list" | EmptyHostKey | McpFailed mcp_error

text \<open>A step of the installation: the commands issued, the files afterwards, and the result.\<close>

type_synonym 'a guest_op = "chat_host \<Rightarrow> str list list \<times> chat_host \<times> (guest_error + 'a)"

definition give :: "'a \<Rightarrow> 'a guest_op" where
  "give x = (\<lambda>h. ([], h, Inr x))"

definition and_then :: "'a guest_op \<Rightarrow> ('a \<Rightarrow> 'b guest_op) \<Rightarrow> 'b guest_op" where
  "and_then m f = (\<lambda>h. case m h of
     (t, h1, Inl e) \<Rightarrow> (t, h1, Inl e)
   | (t, h1, Inr x) \<Rightarrow> (case f x h1 of (t2, h2, r) \<Rightarrow> (t @ t2, h2, r)))"

definition from_file :: "(chat_host \<Rightarrow> chat_error + 'a) \<Rightarrow> 'a guest_op" where
  "from_file f = (\<lambda>h. ([], h, case f h of Inl e \<Rightarrow> Inl (FileError e) | Inr x \<Rightarrow> Inr x))"

definition put_file :: "chat_env \<Rightarrow> str \<Rightarrow> str \<Rightarrow> unit guest_op" where
  "put_file E p c = (\<lambda>h. case write_file E p c h of Inl e \<Rightarrow> ([], h, Inl (FileError e)) | Inr h1 \<Rightarrow> ([], h1, Inr ()))"

definition issue :: "guest_answers \<Rightarrow> str list \<Rightarrow> str guest_op" where
  "issue A argv = (\<lambda>h. ([argv], h, case A argv of None \<Rightarrow> Inl (CommandFailed argv) | Some out \<Rightarrow> Inr out))"

definition ask_guest :: "guest_answers \<Rightarrow> str list \<Rightarrow> str option guest_op" where
  "ask_guest A argv = (\<lambda>h. ([argv], h, Inr (A argv)))"

record guest_target =
  gt_ip :: str
  gt_user :: str
  gt_key :: str

definition run_ssh :: "guest_target \<Rightarrow> host_key \<Rightarrow> str \<Rightarrow> str list" where
  "run_ssh g k command =
     ''ssh'' # ssh_host_key_options k @ [''-o'', ''ConnectTimeout=10'', ''-o'', ''BatchMode=yes'', ''-o'', ''PreferredAuthentications=publickey'',
       ''-i'', gt_key g, gt_user g @ ''@'' @ gt_ip g, command]"

definition copy_path_to_guest :: "guest_target \<Rightarrow> host_key \<Rightarrow> str \<Rightarrow> str \<Rightarrow> bool \<Rightarrow> str list" where
  "copy_path_to_guest g k from to recursive =
     ''scp'' # ssh_host_key_options k @ [''-o'', ''ConnectTimeout=10'', ''-i'', gt_key g] @ (if recursive then [''-r''] else []) @
       [from, gt_user g @ ''@'' @ gt_ip g @ '':'' @ to]"

definition read_public_line :: "str \<Rightarrow> str guest_op" where
  "read_public_line p = and_then (from_file (read_file p)) (\<lambda>raw.
     if trim_text raw = [] then (\<lambda>h. ([], h, Inl EmptyHostKey)) else give (trim_text raw))"

definition prepare_known_hosts :: "chat_env \<Rightarrow> str \<Rightarrow> str \<Rightarrow> host_key guest_op" where
  "prepare_known_hosts E state ip =
     (let known = path_join state ''known_hosts''; pinned = path_join state ''ssh_host_ed25519.pub''
      in (\<lambda>h.
        if ch_files h pinned \<noteq> None
        then and_then (read_public_line pinned) (\<lambda>line. and_then (put_file E known (ip @ '' '' @ line @ [newline_byte])) (\<lambda>_.
          give \<lparr> hk_known_hosts = known, hk_strict = True \<rparr>)) h
        else and_then (if ch_files h known = None then put_file E known [] else give ()) (\<lambda>_. give \<lparr> hk_known_hosts = known, hk_strict = False \<rparr>) h))"

section \<open>Installing the worker\<close>

record guest_install =
  wi_agent_id :: str
  wi_session_id :: str
  wi_harness :: harness_runtime
  wi_guest_ip :: str
  wi_ssh_user :: str
  wi_ssh_key :: str
  wi_auth_guest_path :: str
  wi_sessiond_url :: str
  wi_sessiond_token_path :: str
  wi_auth_source :: "str option"
  wi_install_harness :: bool
  wi_force_reseed_auth :: bool

text \<open>The scripts, the working directory, which paths exist and the tool-server renderer with its read files.\<close>

record worker_env =
  ie_chat :: chat_env
  ie_cwd :: str
  ie_exists :: "str \<Rightarrow> bool"
  ie_answers :: guest_answers
  ie_runner :: str
  ie_harness_install :: "harness_runtime \<Rightarrow> str"
  ie_mcp :: mcp_host
  ie_auth_file :: "str \<Rightarrow> str \<Rightarrow> str"

definition absolute_or_cwd :: "str \<Rightarrow> str \<Rightarrow> str" where
  "absolute_or_cwd cwd p = (if prefix ''/'' p then p else path_join cwd p)"

definition read_optional_trimmed :: "str \<Rightarrow> chat_host \<Rightarrow> chat_error + str" where
  "read_optional_trimmed p h = (if ch_files h p = None then Inr [] else bind_result (read_file p h) (\<lambda>c. Inr (trim_text c)))"

definition shell_quote :: "str \<Rightarrow> str" where
  "shell_quote v = [apostrophe] @ replace_all [apostrophe] quoted_apostrophe v @ [apostrophe]"

definition posix_parent :: "str \<Rightarrow> str" where
  "posix_parent p =
     (case rsplit_once CHR ''/'' (trim_end_with (\<lambda>c. c = CHR ''/'') p) of
        Some (a, _) \<Rightarrow> if a = [] then ''/'' else a | None \<Rightarrow> ''.'')"

definition live_check :: "str \<Rightarrow> str" where
  "live_check auth_path =
     ''test -s '' @ shell_quote (trim_end_with (\<lambda>c. c = CHR ''/'') auth_path @ ''/.credentials.json'') @ '' && echo LIVE || echo ABSENT''"

definition guest_has_live_harness_creds :: "guest_answers \<Rightarrow> guest_target \<Rightarrow> host_key \<Rightarrow> str \<Rightarrow> bool guest_op" where
  "guest_has_live_harness_creds A g k auth_path =
     and_then (ask_guest A (run_ssh g k (live_check auth_path))) (\<lambda>r. give (case r of Some out \<Rightarrow> trim_text out = ''LIVE'' | None \<Rightarrow> False))"

definition render_auth_install_command :: "harness_runtime \<Rightarrow> str \<Rightarrow> str \<Rightarrow> str" where
  "render_auth_install_command r ssh_user auth_path =
     (let user = shell_quote ssh_user; path = shell_quote auth_path
      in case r of
          Opencode \<Rightarrow> ''sudo mkdir -p '' @ path @ '' && sudo cp -a /tmp/maturana-harness-auth/. '' @ path @ ''/ && sudo rm -rf /tmp/maturana-harness-auth && sudo chown -R ''
            @ user @ '':'' @ user @ '' '' @ path @ '' && chmod -R go-rwx '' @ path @ ''/.config '' @ path @ ''/.local '' @ path @ ''/.maturana-env 2>/dev/null || true''
        | _ \<Rightarrow> ''sudo mkdir -p '' @ shell_quote (posix_parent auth_path) @ '' && sudo rm -rf '' @ path @ '' && sudo mv /tmp/maturana-harness-auth '' @ path @
            '' && sudo chown -R '' @ user @ '':'' @ user @ '' '' @ path @ '' && chmod -R go-rwx '' @ path)"

definition auth_push :: "worker_env \<Rightarrow> guest_install \<Rightarrow> guest_target \<Rightarrow> host_key \<Rightarrow> str option guest_op" where
  "auth_push W i g k =
     (case wi_auth_source i of
        None \<Rightarrow> give None
      | Some src \<Rightarrow>
          let p = absolute_or_cwd (ie_cwd W) src
          in if \<not> ie_exists W p then give None
             else if wi_harness i = ClaudeCode \<and> \<not> wi_force_reseed_auth i
             then and_then (guest_has_live_harness_creds (ie_answers W) g k (wi_auth_guest_path i)) (\<lambda>live. give (if live then None else Some p))
             else give (Some p))"

definition mcp_place_command :: "str \<Rightarrow> str \<Rightarrow> str" where
  "mcp_place_command user path =
     (let parent = shell_quote (posix_parent path); u = shell_quote user; p = shell_quote path
      in ''sudo mkdir -p '' @ parent @ '' && sudo mv /tmp/maturana-mcp-config '' @ p @ '' && sudo chown -R '' @ u @ '':'' @ u @ '' '' @ parent @
         '' && sudo chmod 0600 '' @ p)"

definition install_mcp :: "worker_env \<Rightarrow> guest_install \<Rightarrow> guest_target \<Rightarrow> host_key \<Rightarrow> str \<Rightarrow> mcp_server list \<Rightarrow> unit guest_op" where
  "install_mcp W i g k state servers =
     (if servers = [] then give ()
      else
        let auth_dir = (case wi_auth_source i of Some p \<Rightarrow> absolute_or_cwd (ie_cwd W) p
              | None \<Rightarrow> path_join (path_join (ce_root (ie_chat W)) ''host-auth'') (harness_name (wi_harness i)));
            npm = concat (map (\<lambda>s. case npx_package (mcp_command s) (mcp_args s) of Some p \<Rightarrow> [p] | None \<Rightarrow> []) servers)
        in and_then
            (case render_mcp_config (ie_mcp W) (wi_harness i) servers (ie_auth_file W auth_dir) of
               Inl e \<Rightarrow> (\<lambda>h. ([], h, Inl (McpFailed e)))
             | Inr None \<Rightarrow> give ()
             | Inr (Some r) \<Rightarrow>
                 and_then (put_file (ie_chat W) (path_join state ''mcp-config'') (rc_contents r)) (\<lambda>_.
                 and_then (issue (ie_answers W) (copy_path_to_guest g k (path_join state ''mcp-config'') ''/tmp/maturana-mcp-config'' False)) (\<lambda>_.
                 and_then (issue (ie_answers W) (run_ssh g k (mcp_place_command (wi_ssh_user i) (rc_guest_path r)))) (\<lambda>_. give ()))))
            (\<lambda>_. if npm = [] then give ()
              else and_then (ask_guest (ie_answers W) (run_ssh g k (''sudo npm install -g '' @ join '' '' (map shell_quote npm)))) (\<lambda>_. give ())))"

definition place_command :: "str \<Rightarrow> str" where
  "place_command ssh_user =
     (let u = shell_quote ssh_user
      in ''sudo mkdir -p /agent /opt/maturana/bin /var/log/maturana /workspace /memory /wiki && sudo mv /tmp/sessiond.env /agent/sessiond.env && '' @
         ''sudo mv /tmp/run-agent.sh /opt/maturana/bin/run-agent.sh && sudo chown '' @ u @ '':'' @ u @ '' /agent/sessiond.env /opt/maturana/bin/run-agent.sh && '' @
         ''sudo chmod 0600 /agent/sessiond.env && sudo chmod 0755 /opt/maturana/bin/run-agent.sh && sudo systemctl restart maturana-agent.service'')"

text \<open>Everything after the key is known.\<close>

definition provision :: "worker_env \<Rightarrow> guest_install \<Rightarrow> guest_target \<Rightarrow> str \<Rightarrow> mcp_server list \<Rightarrow> host_key \<Rightarrow> unit guest_op" where
  "provision W i g state servers k =
     (let A = ie_answers W; user = wi_ssh_user i
      in and_then (issue A (copy_path_to_guest g k (path_join state ''sessiond.env'') ''/tmp/sessiond.env'' False)) (\<lambda>_.
         and_then (issue A (copy_path_to_guest g k (path_join state ''run-agent.sh'') ''/tmp/run-agent.sh'' False)) (\<lambda>_.
         and_then (auth_push W i g k) (\<lambda>auth.
         and_then (case auth of Some src \<Rightarrow> and_then (issue A (copy_path_to_guest g k src ''/tmp/maturana-harness-auth'' True)) (\<lambda>_. give ()) | None \<Rightarrow> give ()) (\<lambda>_.
         and_then (if wi_install_harness i then and_then (issue A (run_ssh g k (ie_harness_install W (wi_harness i)))) (\<lambda>_. give ()) else give ()) (\<lambda>_.
         and_then (if auth \<noteq> None then and_then (issue A (run_ssh g k (render_auth_install_command (wi_harness i) user (wi_auth_guest_path i)))) (\<lambda>_. give ()) else give ()) (\<lambda>_.
         and_then (install_mcp W i g k state servers) (\<lambda>_.
         and_then (issue A (run_ssh g k (place_command user))) (\<lambda>_. give ())))))))))"

definition agent_state_dir :: "chat_env \<Rightarrow> str \<Rightarrow> str" where
  "agent_state_dir E agent = path_join (agent_dir (ce_root E) agent) ''state''"

definition worker_config :: "worker_env \<Rightarrow> guest_install \<Rightarrow> str \<Rightarrow> chat_host \<Rightarrow> guest_worker_config" where
  "worker_config W i token h =
     (let kg = (case spec_of (ie_chat W) (wi_agent_id i) h of Some s \<Rightarrow> as_knowledge_graph s | None \<Rightarrow> \<lparr> kg_enabled = True, kg_graph = None \<rparr>)
      in \<lparr> gw_agent_id = wi_agent_id i, gw_session_id = wi_session_id i, gw_sessiond_url = wi_sessiond_url i, gw_sessiond_token = token,
           gw_harness = wi_harness i, gw_harness_auth_guest_path = wi_auth_guest_path i, gw_headless_chrome = False,
           gw_graph_token = read_graph_token (ie_chat W) h, gw_graph_name = (if kg_enabled kg then Some (graph_name kg (wi_agent_id i)) else None) \<rparr>)"

definition install_guest_worker :: "worker_env \<Rightarrow> guest_install \<Rightarrow> unit guest_op" where
  "install_guest_worker W i =
     (let E = ie_chat W; state = agent_state_dir E (wi_agent_id i);
          g = \<lparr> gt_ip = wi_guest_ip i, gt_user = wi_ssh_user i, gt_key = absolute_or_cwd (ie_cwd W) (wi_ssh_key i) \<rparr>
      in and_then (from_file (read_optional_trimmed (absolute_or_cwd (ie_cwd W) (wi_sessiond_token_path i)))) (\<lambda>token h.
         let servers = (case spec_of E (wi_agent_id i) h of Some s \<Rightarrow> as_mcp_servers s | None \<Rightarrow> [])
         in and_then (put_file E (path_join state ''sessiond.env'') (render_session_env (worker_config W i token h))) (\<lambda>_.
            and_then (put_file E (path_join state ''run-agent.sh'') (ie_runner W)) (\<lambda>_.
            and_then (prepare_known_hosts E state (wi_guest_ip i)) (provision W i g state servers))) h))"

section \<open>Quoting and its inverse\<close>

lemma split_pat_ne: "split_pat pat s \<noteq> []"
  by (simp add: split_pat.simps [of pat s] split: option.splits)

lemma join_Cons: "ys \<noteq> [] \<Longrightarrow> join sep (x # ys) = x @ sep @ join sep ys"
  by (cases ys) simp_all

lemma replace_hit: "pat \<noteq> [] \<Longrightarrow> replace_all pat r (pat @ s) = r @ replace_all pat r s"
proof -
  assume p: "pat \<noteq> []"
  then obtain c cs where "pat @ s = c # cs" by (cases pat) simp_all
  then have "find_sub pat (pat @ s) = Some 0" by (metis find_sub.simps(2) prefixI)
  then have "split_pat pat (pat @ s) = [] # split_pat pat s" using p by (simp add: split_pat.simps [of pat "pat @ s"])
  then show ?thesis by (simp add: replace_all_def join_Cons split_pat_ne)
qed

lemma replace_step: "\<not> prefix pat (c # s) \<Longrightarrow> replace_all pat r (c # s) = c # replace_all pat r s"
proof -
  assume p: "\<not> prefix pat (c # s)"
  then have ne: "pat \<noteq> []" by auto
  have f: "find_sub pat (c # s) = map_option Suc (find_sub pat s)" using p by simp
  show ?thesis
  proof (cases "find_sub pat s")
    case None
    then show ?thesis using f ne by (simp add: replace_all_def split_pat.simps [of pat "c # s"] split_pat.simps [of pat s])
  next
    case (Some i)
    then show ?thesis using f ne
      by (simp add: replace_all_def split_pat.simps [of pat "c # s"] split_pat.simps [of pat s] join_Cons split_pat_ne)
  qed
qed

lemma replace_empty: "pat \<noteq> [] \<Longrightarrow> replace_all pat r [] = []"
  by (simp add: replace_all_def split_pat.simps [of pat "[]"])

lemma quote_chars: "replace_all [apostrophe] r v = concat (map (\<lambda>c. if c = apostrophe then r else [c]) v)"
proof (induction v)
  case (Cons c v)
  show ?case
  proof (cases "c = apostrophe")
    case True
    then show ?thesis using replace_hit [of "[apostrophe]" r v] Cons by simp
  next
    case False
    then have "\<not> prefix [apostrophe] (c # v)" by auto
    from replace_step [OF this, of r] show ?thesis using Cons False by simp
  qed
qed (simp add: replace_empty)

lemma unquote_inner: "replace_all quoted_apostrophe [apostrophe] (concat (map (\<lambda>c. if c = apostrophe then quoted_apostrophe else [c]) v)) = v"
proof (induction v)
  case (Cons c v)
  show ?case
  proof (cases "c = apostrophe")
    case True
    then show ?thesis using replace_hit [of quoted_apostrophe "[apostrophe]"] Cons by (simp add: quoted_apostrophe_def)
  next
    case False
    then have "\<not> prefix quoted_apostrophe (c # x)" for x by (auto simp: quoted_apostrophe_def)
    from replace_step [OF this, of "[apostrophe]"] show ?thesis using Cons False by simp
  qed
qed (simp add: replace_empty quoted_apostrophe_def)

lemma chars_of_snoc: "byte_in 0 127 a \<Longrightarrow> chars_of (s @ [a]) = chars_of s @ [[a]]"
proof (induction s rule: chars_of.induct)
  case (2 b s)
  have a: "\<not> byte_in 128 191 a" using "2.prems" by (simp add: byte_in_def)
  show ?case
  proof (cases "byte_in 0 127 b")
    case False
    show ?thesis
    proof (cases "\<forall>x\<in>set s. byte_in 128 191 x")
      case True
      then have d: "dropWhile (byte_in 128 191) s = []" "takeWhile (byte_in 128 191) s = s" by (simp_all add: dropWhile_eq_Nil_conv takeWhile_eq_all_conv)
      have "dropWhile (byte_in 128 191) (s @ [a]) = [a]" "takeWhile (byte_in 128 191) (s @ [a]) = s"
        using True a by (simp_all add: dropWhile_append takeWhile_append)
      then show ?thesis using False a "2.prems" d by (simp del: dropWhile_eq_Nil_conv takeWhile_eq_all_conv)
    next
      case some: False
      then have "dropWhile (byte_in 128 191) (s @ [a]) = dropWhile (byte_in 128 191) s @ [a]" "takeWhile (byte_in 128 191) (s @ [a]) = takeWhile (byte_in 128 191) s"
        by (auto simp: dropWhile_append takeWhile_append)
      then show ?thesis using False 2 by simp
    qed
  qed (use 2 in simp)
qed simp

lemma trim_framed:
  assumes "byte_in 0 127 a" "byte_in 0 127 b" "\<not> blank_char [a]" "\<not> blank_char [b]"
  shows "trim_text (a # m @ [b]) = a # m @ [b]"
proof -
  have c: "chars_of (a # m @ [b]) = [a] # chars_of m @ [[b]]" using assms(1,2) chars_of_snoc by simp
  show ?thesis unfolding trim_text_def c using assms(3,4) by simp
qed

lemma apostrophe_plain: "byte_in 0 127 apostrophe" "\<not> blank_char [apostrophe]" "apostrophe \<noteq> newline_byte" "apostrophe \<noteq> return_byte"
  by code_simp+

lemma unquote_quoted: "unquote_shell_env_value (shell_env_value v) = v"
proof -
  have t: "trim_text (shell_env_value v) = shell_env_value v"
    unfolding shell_env_value_def by (rule trim_framed) (rule apostrophe_plain)+
  show ?thesis unfolding unquote_shell_env_value_def Let_def t using unquote_inner [of v]
    by (simp add: shell_env_value_def quote_chars butlast_append)
qed

lemma quote_no_newline: "newline_byte \<notin> set v \<Longrightarrow> newline_byte \<notin> set (shell_env_value v)"
proof -
  have "newline_byte \<notin> set quoted_apostrophe" by code_simp
  then show "newline_byte \<notin> set v \<Longrightarrow> newline_byte \<notin> set (shell_env_value v)"
    using apostrophe_plain(3) by (auto simp: shell_env_value_def quote_chars)
qed

lemma text_lines_Cons: "newline_byte \<notin> set l \<Longrightarrow> text_lines (l @ newline_byte # t) = strip_return l # text_lines t"
  by (simp add: text_lines_def Let_def split_on_record)

lemma strip_env: "strip_return (k @ ''='' @ shell_env_value v) = k @ ''='' @ shell_env_value v"
  using apostrophe_plain(4) by (simp add: strip_return_def shell_env_value_def)

lemma env_lines: "newline_byte \<notin> set k \<Longrightarrow> newline_byte \<notin> set v \<Longrightarrow> text_lines (env_line k v @ t) = (k @ ''='' @ shell_env_value v) # text_lines t"
proof -
  assume k: "newline_byte \<notin> set k" and v: "newline_byte \<notin> set v"
  have "newline_byte \<noteq> CHR ''=''" by code_simp
  then have n: "newline_byte \<notin> set (k @ ''='' @ shell_env_value v)" using k quote_no_newline [OF v] by simp
  have "env_line k v @ t = (k @ ''='' @ shell_env_value v) @ newline_byte # t" by (simp add: env_line_def)
  then show ?thesis using text_lines_Cons [OF n] strip_env by simp
qed

text \<open>
  The host reads the session back from the file it wrote for the guest, whatever quotes the session's name holds, when
  neither it nor the agent's name has a line feed and it is not blank.
\<close>

lemma session_env_roundtrip:
  assumes "newline_byte \<notin> set (gw_agent_id c)" and "newline_byte \<notin> set (gw_session_id c)" and "trim_text (gw_session_id c) \<noteq> []"
  shows "session_env_value (render_session_env c) ''MATURANA_SESSION_ID'' = Some (gw_session_id c)"
proof -
  have n: "newline_byte \<notin> set ''MATURANA_AGENT_ID''" "newline_byte \<notin> set ''MATURANA_SESSION_ID''" by code_simp+
  obtain rest where l: "text_lines (render_session_env c) =
     (''MATURANA_AGENT_ID'' @ ''='' @ shell_env_value (gw_agent_id c)) # (''MATURANA_SESSION_ID'' @ ''='' @ shell_env_value (gw_session_id c)) # rest"
    unfolding render_session_env_def env_lines [OF n(1) assms(1)] env_lines [OF n(2) assms(2)] by blast
  have "\<not> prefix (''MATURANA_SESSION_ID'' @ ''='') (''MATURANA_AGENT_ID'' @ ''='' @ x)" for x by simp
  then have "List.find (prefix (''MATURANA_SESSION_ID'' @ ''='')) (text_lines (render_session_env c)) =
      Some (''MATURANA_SESSION_ID'' @ ''='' @ shell_env_value (gw_session_id c))"
    unfolding l by simp
  moreover have "drop (length ''MATURANA_SESSION_ID'' + 1) (''MATURANA_SESSION_ID'' @ ''='' @ x) = x" for x by simp
  ultimately show ?thesis using unquote_quoted assms(3)
    unfolding session_env_value_def Let_def by (simp del: append_Cons drop_Suc_Cons)
qed

definition demo_worker :: guest_worker_config where
  "demo_worker = \<lparr> gw_agent_id = ''a'', gw_session_id = ''it'' @ [apostrophe] @ ''s'', gw_sessiond_url = ''u'', gw_sessiond_token = ''t'', gw_harness = Codex,
     gw_harness_auth_guest_path = ''/home/u'', gw_headless_chrome = False, gw_graph_token = None, gw_graph_name = None \<rparr>"

lemma session_env_roundtrip_demo:
  "session_env_value (render_session_env demo_worker) ''MATURANA_SESSION_ID'' = Some (''it'' @ [apostrophe] @ ''s'')"
proof -
  have "newline_byte \<notin> set (gw_agent_id demo_worker)" "newline_byte \<notin> set (gw_session_id demo_worker)" "trim_text (gw_session_id demo_worker) \<noteq> []"
    by code_simp+
  from session_env_roundtrip [OF this] show ?thesis by (simp add: demo_worker_def)
qed

text \<open>A line feed in the agent's name hides a second assignment in the quotes: the shell never sees it, the host takes it.\<close>

lemma injected_session:
  "session_env_value (render_session_env (demo_worker\<lparr>gw_agent_id := ''a'' @ [newline_byte] @ ''MATURANA_SESSION_ID=other'' @ [newline_byte]\<rparr>)) ''MATURANA_SESSION_ID'' = Some ''other''"
  by code_simp

text \<open>A unit file has the lines of the template whatever the description and the user hold.\<close>

lemma text_lines_concat: "\<forall>l\<in>set ls. newline_byte \<notin> set l \<and> strip_return l = l \<Longrightarrow> text_lines (concat (map (\<lambda>l. l @ [newline_byte]) ls)) = ls"
proof (induction ls)
  case Nil
  show ?case by (simp add: text_lines_def)
next
  case (Cons l ls)
  then show ?case using text_lines_Cons [of l "concat (map (\<lambda>l. l @ [newline_byte]) ls)"] by simp
qed

lemma systemd_clean: "newline_byte \<notin> set (systemd_value v)" "return_byte \<notin> set (systemd_value v)"
  by (simp_all add: systemd_value_def)

lemma unit_file_lines: "text_lines (render_systemd_service d u) = systemd_lines (systemd_value d) (systemd_value u)"
proof -
  have s: "strip_return l = l" if "return_byte \<notin> set l" for l using that by (simp add: strip_return_def) (metis last_in_set)
  have "\<forall>l\<in>set (systemd_lines [] []). newline_byte \<notin> set l \<and> return_byte \<notin> set l" by code_simp
  then have "\<forall>l\<in>set (systemd_lines (systemd_value d) (systemd_value u)). newline_byte \<notin> set l \<and> return_byte \<notin> set l"
    using systemd_clean by (simp add: systemd_lines_def)
  then show ?thesis unfolding render_systemd_service_def using s by (intro text_lines_concat) blast
qed

section \<open>Reasoning about installations\<close>

text \<open>
  A step keeps \<open>I\<close> of the files, issues only commands that satisfy \<open>P\<close>, and gives results that satisfy \<open>Q\<close>.
\<close>

definition triple :: "(chat_host \<Rightarrow> bool) \<Rightarrow> (str list \<Rightarrow> bool) \<Rightarrow> 'a guest_op \<Rightarrow> ('a \<Rightarrow> bool) \<Rightarrow> bool" where
  "triple I P m Q \<longleftrightarrow> (\<forall>h t h1 r. I h \<longrightarrow> m h = (t, h1, r) \<longrightarrow> I h1 \<and> list_all P t \<and> (\<forall>x. r = Inr x \<longrightarrow> Q x))"

lemma triple_use: "triple I P m Q \<Longrightarrow> I h \<Longrightarrow> m h = (t, h1, r) \<Longrightarrow> I h1 \<and> list_all P t \<and> (\<forall>x. r = Inr x \<longrightarrow> Q x)"
  unfolding triple_def by blast

lemma triple_give: "Q x \<Longrightarrow> triple I P (give x) Q"
  by (simp add: triple_def give_def)

lemma triple_then:
  assumes "triple I P m Q" and "\<And>x. Q x \<Longrightarrow> triple I P (f x) R"
  shows "triple I P (and_then m f) R"
  unfolding triple_def
proof (intro allI impI)
  fix h t h1 r
  assume I: "I h" and e: "and_then m f h = (t, h1, r)"
  obtain t1 h2 r1 where m: "m h = (t1, h2, r1)" by (metis prod_cases3)
  note q = triple_use [OF assms(1) I m]
  show "I h1 \<and> list_all P t \<and> (\<forall>x. r = Inr x \<longrightarrow> R x)"
  proof (cases r1)
    case (Inl x)
    then show ?thesis using q e m by (auto simp: and_then_def)
  next
    case (Inr x)
    obtain t2 h3 r2 where f: "f x h2 = (t2, h3, r2)" by (metis prod_cases3)
    have "triple I P (f x) R" using assms(2) q Inr by blast
    from triple_use [OF this _ f] q show ?thesis using e m f Inr by (auto simp: and_then_def)
  qed
qed

abbreviation anything :: "'a \<Rightarrow> bool" where "anything \<equiv> (\<lambda>_. True)"

lemma triple_seq: "triple I P m anything \<Longrightarrow> (\<And>x. triple I P (f x) R) \<Longrightarrow> triple I P (and_then m f) R"
  by (rule triple_then)

lemma triple_issue: "P argv \<Longrightarrow> triple I P (issue A argv) anything"
  by (simp add: triple_def issue_def)

lemma triple_ask: "P argv \<Longrightarrow> triple I P (ask_guest A argv) (\<lambda>r. r = A argv)"
  by (simp add: triple_def ask_guest_def)

lemma triple_ask_any: "P argv \<Longrightarrow> triple I P (ask_guest A argv) anything"
  by (simp add: triple_def ask_guest_def)

lemma triple_put: "(\<And>h. I h \<Longrightarrow> I (h\<lparr>ch_files := (ch_files h)(p := Some c)\<rparr>)) \<Longrightarrow> triple I P (put_file E p c) anything"
  by (auto simp: triple_def put_file_def write_file_def split: if_splits sum.splits)

lemma triple_fail: "triple I P (\<lambda>h. ([], h, Inl e)) Q"
  by (simp add: triple_def)

lemma triple_state: "(\<And>h. triple I P (m h) Q) \<Longrightarrow> triple I P (\<lambda>h. m h h) Q"
  unfolding triple_def by blast

lemma triple_if:
  assumes a: "triple I P A Q" and b: "triple I P B Q"
  shows "triple I P (\<lambda>h. if C h then A h else B h) Q"
  unfolding triple_def
proof (intro allI impI)
  fix h t h1 r
  assume I: "I h" and e: "(if C h then A h else B h) = (t, h1, r)"
  show "I h1 \<and> list_all P t \<and> (\<forall>x. r = Inr x \<longrightarrow> Q x)"
  proof (cases "C h")
    case True
    then have "A h = (t, h1, r)" using e by simp
    from triple_use [OF a I this] show ?thesis .
  next
    case False
    then have "B h = (t, h1, r)" using e by simp
    from triple_use [OF b I this] show ?thesis .
  qed
qed

lemma triple_from_file: "triple I P (from_file f) anything"
  by (simp add: triple_def from_file_def)

lemmas triple_steps = triple_give triple_seq triple_issue triple_ask_any triple_fail triple_from_file

lemma path_join_inj: "\<not> prefix ''/'' x \<Longrightarrow> \<not> prefix ''/'' y \<Longrightarrow> path_join s x = path_join s y \<longleftrightarrow> x = y"
  by (simp add: path_join_def)

text \<open>What the commands of an installation have in common, given what its credentials' check and push have.\<close>

lemma install_mcp_triple:
  assumes "\<And>c. P (run_ssh g k c)" and "P (copy_path_to_guest g k (path_join state ''mcp-config'') ''/tmp/maturana-mcp-config'' False)"
    and "\<And>h c. I h \<Longrightarrow> I (h\<lparr>ch_files := (ch_files h)(path_join state ''mcp-config'' := Some c)\<rparr>)"
  shows "triple I P (install_mcp W i g k state servers) anything"
proof -
  have s: "triple I P (put_file (ie_chat W) (path_join state ''mcp-config'') c) anything" for c
    by (rule triple_put) (rule assms(3))
  show ?thesis
    unfolding install_mcp_def Let_def using assms(1,2) s
    by (auto intro!: triple_steps split: sum.split option.split)
qed

lemma provision_triple:
  assumes ssh: "\<And>c. P (run_ssh g k c)" and scp: "\<And>from to. (from, to) \<in> {(''sessiond.env'', ''/tmp/sessiond.env''), (''run-agent.sh'', ''/tmp/run-agent.sh''),
      (''mcp-config'', ''/tmp/maturana-mcp-config'')} \<Longrightarrow> P (copy_path_to_guest g k (path_join state from) to False)"
    and mcp: "\<And>h c. I h \<Longrightarrow> I (h\<lparr>ch_files := (ch_files h)(path_join state ''mcp-config'' := Some c)\<rparr>)"
    and auth: "triple I P (auth_push W i g k) Q"
    and push: "\<And>src. Q (Some src) \<Longrightarrow> P (copy_path_to_guest g k src ''/tmp/maturana-harness-auth'' True)"
  shows "triple I P (provision W i g state servers k) anything"
proof -
  have m: "triple I P (install_mcp W i g k state servers) anything" by (rule install_mcp_triple) (use ssh scp mcp in auto)
  have p: "triple I P (case a of Some src \<Rightarrow> and_then (issue A (copy_path_to_guest g k src ''/tmp/maturana-harness-auth'' True)) (\<lambda>_. give ()) | None \<Rightarrow> give ()) anything"
    if "Q a" for a A using push that by (cases a) (auto intro!: triple_steps)
  show ?thesis unfolding provision_def Let_def
    by (rule triple_seq, rule triple_issue, rule scp, simp, rule triple_seq, rule triple_issue, rule scp, simp, rule triple_then, rule auth,
        rule triple_seq, erule p) (auto intro!: triple_steps m ssh)
qed

definition install_target :: "worker_env \<Rightarrow> guest_install \<Rightarrow> guest_target" where
  "install_target W i = \<lparr> gt_ip = wi_guest_ip i, gt_user = wi_ssh_user i, gt_key = absolute_or_cwd (ie_cwd W) (wi_ssh_key i) \<rparr>"

abbreviation install_state :: "worker_env \<Rightarrow> guest_install \<Rightarrow> str" where
  "install_state W i \<equiv> agent_state_dir (ie_chat W) (wi_agent_id i)"

lemma and_then_from_file: "and_then (from_file f) g h = (case f h of Inl e \<Rightarrow> ([], h, Inl (FileError e)) | Inr x \<Rightarrow> g x h)"
  by (auto simp: and_then_def from_file_def split: sum.split prod.split)

lemma prepare_quiet: "prepare_known_hosts E state ip h = (t, h', r) \<Longrightarrow> t = []"
  by (auto simp: prepare_known_hosts_def read_public_line_def and_then_def from_file_def put_file_def give_def Let_def split: prod.splits sum.splits if_splits)

text \<open>Either nothing was issued and the installation failed, or the files were written and the guest provisioned.\<close>

lemma install_shape:
  assumes "install_guest_worker W i h = (t, h', r)"
  obtains (failed) e where "t = []" "r = Inl e"
    | (ran) token servers h1 k where "prepare_known_hosts (ie_chat W) (install_state W i) (wi_guest_ip i)
         (h\<lparr>ch_files := (ch_files h)(path_join (install_state W i) ''sessiond.env'' := Some (render_session_env (worker_config W i token h)),
            path_join (install_state W i) ''run-agent.sh'' := Some (ie_runner W))\<rparr>) = ([], h1, Inr k)"
       "provision W i (install_target W i) (install_state W i) servers k h1 = (t, h', r)"
proof -
  let ?E = "ie_chat W" and ?s = "install_state W i"
  define servers where "servers = (case spec_of ?E (wi_agent_id i) h of Some s \<Rightarrow> as_mcp_servers s | None \<Rightarrow> [])"
  show thesis
  proof (cases "read_optional_trimmed (absolute_or_cwd (ie_cwd W) (wi_sessiond_token_path i)) h")
    case (Inl e)
    then have "t = []" "r = Inl (FileError e)" using assms by (simp_all add: install_guest_worker_def Let_def and_then_from_file)
    then show thesis by (rule failed)
  next
    case (Inr token)
    define env where "env = render_session_env (worker_config W i token h)"
    have e: "and_then (put_file ?E (path_join ?s ''sessiond.env'') env) (\<lambda>_. and_then (put_file ?E (path_join ?s ''run-agent.sh'') (ie_runner W)) (\<lambda>_.
        and_then (prepare_known_hosts ?E ?s (wi_guest_ip i)) (provision W i (install_target W i) ?s servers))) h = (t, h', r)"
      using assms Inr by (simp add: install_guest_worker_def Let_def and_then_from_file servers_def env_def install_target_def)
    let ?h2 = "h\<lparr>ch_files := (ch_files h)(path_join ?s ''sessiond.env'' := Some env, path_join ?s ''run-agent.sh'' := Some (ie_runner W))\<rparr>"
    show thesis
    proof (cases "ce_writable ?E (path_join ?s ''sessiond.env'') \<and> ce_writable ?E (path_join ?s ''run-agent.sh'')")
      case False
      then have "t = [] \<and> (\<exists>x. r = Inl x)" using e by (auto simp: and_then_def put_file_def write_file_def split: if_splits prod.splits sum.splits)
      then show thesis using failed by blast
    next
      case True
      obtain t3 h3 k0 where p: "prepare_known_hosts ?E ?s (wi_guest_ip i) ?h2 = (t3, h3, k0)" by (metis prod_cases3)
      then have t3: "t3 = []" by (rule prepare_quiet)
      have e2: "and_then (prepare_known_hosts ?E ?s (wi_guest_ip i)) (provision W i (install_target W i) ?s servers) ?h2 = (t, h', r)"
        using e True by (simp add: and_then_def put_file_def write_file_def split: prod.splits)
      show thesis
      proof (cases k0)
        case (Inl x)
        then have "t = []" "r = Inl x" using e2 p t3 by (auto simp: and_then_def)
        then show thesis by (rule failed)
      next
        case (Inr k)
        then have "provision W i (install_target W i) ?s servers k h3 = (t, h', r)" using e2 p t3 by (simp add: and_then_def split: prod.splits)
        then show thesis using ran p t3 Inr by (simp add: env_def)
      qed
    qed
  qed
qed

lemma auth_push_strict: "(\<And>c. P (run_ssh g k c)) \<Longrightarrow> triple I P (auth_push W i g k) anything"
  by (auto simp: auth_push_def guest_has_live_harness_creds_def Let_def intro!: triple_steps split: option.split)

lemma prepared_strict:
  assumes "prepare_known_hosts E state ip h = (t, h', Inr k)" and "ch_files h (path_join state ''ssh_host_ed25519.pub'') = Some key"
  shows "k = \<lparr> hk_known_hosts = path_join state ''known_hosts'', hk_strict = True \<rparr>"
    and "ch_files h' = (ch_files h)(path_join state ''known_hosts'' := Some (ip @ '' '' @ trim_text key @ [newline_byte]))"
  using assms by (auto simp: prepare_known_hosts_def read_public_line_def and_then_def from_file_def put_file_def give_def Let_def read_file_def write_file_def
      split: prod.splits sum.splits if_splits)

text \<open>
  C33. Once a host key is recorded for an agent, every command of an installation, the copies of tokens and credentials
  included, verifies the guest strictly against a file that holds exactly that key for that address.
\<close>

theorem pinned_install_strict:
  assumes "install_guest_worker W i h = (t, h', r)" and "ch_files h (path_join (install_state W i) ''ssh_host_ed25519.pub'') = Some key"
  shows "list_all (sublist [''-o'', ''StrictHostKeyChecking=yes'', ''-o'', ''UserKnownHostsFile='' @ path_join (install_state W i) ''known_hosts'']) t
    \<and> (t = [] \<or> ch_files h' (path_join (install_state W i) ''known_hosts'') = Some (wi_guest_ip i @ '' '' @ trim_text key @ [newline_byte]))"
  using assms(1)
proof (cases rule: install_shape)
  case (ran token servers h1 k)
  let ?s = "install_state W i"
  let ?h2 = "h\<lparr>ch_files := (ch_files h)(path_join ?s ''sessiond.env'' := Some (render_session_env (worker_config W i token h)),
            path_join ?s ''run-agent.sh'' := Some (ie_runner W))\<rparr>"
  have key: "ch_files ?h2 (path_join ?s ''ssh_host_ed25519.pub'') = Some key" using assms(2) by (simp add: path_join_inj)
  note p = prepared_strict [OF ran(1) key]
  define I where "I h \<longleftrightarrow> ch_files h (path_join ?s ''known_hosts'') = Some (wi_guest_ip i @ '' '' @ trim_text key @ [newline_byte])" for h :: chat_host
  define P where "P = sublist [''-o'', ''StrictHostKeyChecking=yes'', ''-o'', ''UserKnownHostsFile='' @ path_join ?s ''known_hosts'']"
  have opts: "P (a # ssh_host_key_options k @ rest)" for a rest
    using sublist_appendI [of "ssh_host_key_options k" "[a]" rest] by (simp add: P_def p(1) ssh_host_key_options_def)
  have T: "triple I P (provision W i (install_target W i) ?s servers k) anything"
  proof (rule provision_triple)
    show "triple I P (auth_push W i (install_target W i) k) anything" by (rule auth_push_strict) (simp add: run_ssh_def opts)
    show "I h \<Longrightarrow> I (h\<lparr>ch_files := (ch_files h)(path_join ?s ''mcp-config'' := Some c)\<rparr>)" for h c by (simp add: I_def path_join_inj)
  qed (simp_all only: run_ssh_def copy_path_to_guest_def opts)
  have "I h1" using p(2) by (simp add: I_def)
  from triple_use [OF T this ran(2)] show ?thesis by (simp add: I_def P_def)
qed simp

text \<open>
  The commands of an installation that leaves the credentials of a Claude guest alone: the probe, the three files, the
  scripts that install the harness, place the tool-server configuration and the worker, and the tool servers' packages.
\<close>

definition worker_command :: "worker_env \<Rightarrow> guest_install \<Rightarrow> host_key \<Rightarrow> str list \<Rightarrow> bool" where
  "worker_command W i k argv \<longleftrightarrow>
     (let g = install_target W i; copy = (\<lambda>from to. copy_path_to_guest g k (path_join (install_state W i) from) to False)
      in argv = run_ssh g k (live_check (wi_auth_guest_path i)) \<or>
         argv = copy ''sessiond.env'' ''/tmp/sessiond.env'' \<or> argv = copy ''run-agent.sh'' ''/tmp/run-agent.sh'' \<or>
         argv = copy ''mcp-config'' ''/tmp/maturana-mcp-config'' \<or>
         argv = run_ssh g k (ie_harness_install W ClaudeCode) \<or>
         argv = run_ssh g k (mcp_place_command (wi_ssh_user i) ''/home/ubuntu/.claude.json'') \<or>
         (\<exists>npm. argv = run_ssh g k (''sudo npm install -g '' @ join '' '' (map shell_quote npm))) \<or>
         argv = run_ssh g k (place_command (wi_ssh_user i)))"

lemma worker_commands:
  "worker_command W i k (run_ssh (install_target W i) k (live_check (wi_auth_guest_path i)))"
  "worker_command W i k (copy_path_to_guest (install_target W i) k (path_join (install_state W i) ''sessiond.env'') ''/tmp/sessiond.env'' False)"
  "worker_command W i k (copy_path_to_guest (install_target W i) k (path_join (install_state W i) ''run-agent.sh'') ''/tmp/run-agent.sh'' False)"
  "worker_command W i k (copy_path_to_guest (install_target W i) k (path_join (install_state W i) ''mcp-config'') ''/tmp/maturana-mcp-config'' False)"
  "worker_command W i k (run_ssh (install_target W i) k (ie_harness_install W ClaudeCode))"
  "worker_command W i k (run_ssh (install_target W i) k (mcp_place_command (wi_ssh_user i) ''/home/ubuntu/.claude.json''))"
  "worker_command W i k (run_ssh (install_target W i) k (''sudo npm install -g '' @ join '' '' (map shell_quote npm)))"
  "worker_command W i k (run_ssh (install_target W i) k (place_command (wi_ssh_user i)))"
  unfolding worker_command_def Let_def by blast+

lemma claude_mcp_path: "render_mcp_config M ClaudeCode servers f = Inr (Some r) \<Longrightarrow> rc_guest_path r = ''/home/ubuntu/.claude.json''"
  by (auto simp: render_mcp_config_def bind_result_def Let_def split: if_splits sum.splits)

lemma claude_mcp_commands:
  assumes "wi_harness i = ClaudeCode"
  shows "triple (\<lambda>_. True) (worker_command W i k) (install_mcp W i (install_target W i) k (install_state W i) servers) anything"
proof -
  have s: "triple (\<lambda>_. True) (worker_command W i k) (put_file (ie_chat W) (path_join (install_state W i) ''mcp-config'') c) anything" for c
    by (rule triple_put) simp
  have n: "triple (\<lambda>_. True) (worker_command W i k) (if npm = [] then give () else and_then (ask_guest (ie_answers W)
      (run_ssh (install_target W i) k (''sudo npm install -g '' @ join '' '' (map shell_quote npm)))) (\<lambda>_. give ())) anything" for npm
    using worker_commands(7) by (auto intro!: triple_steps)
  have p: "triple (\<lambda>_. True) (worker_command W i k) (case render_mcp_config (ie_mcp W) ClaudeCode servers f of
       Inl e \<Rightarrow> (\<lambda>h. ([], h, Inl (McpFailed e)))
     | Inr None \<Rightarrow> give ()
     | Inr (Some r) \<Rightarrow> and_then (put_file (ie_chat W) (path_join (install_state W i) ''mcp-config'') (rc_contents r)) (\<lambda>_.
         and_then (issue (ie_answers W) (copy_path_to_guest (install_target W i) k (path_join (install_state W i) ''mcp-config'') ''/tmp/maturana-mcp-config'' False)) (\<lambda>_.
         and_then (issue (ie_answers W) (run_ssh (install_target W i) k (mcp_place_command (wi_ssh_user i) (rc_guest_path r)))) (\<lambda>_. give ())))) anything" for f
    using worker_commands(4,6) claude_mcp_path [of "ie_mcp W" servers f]
    by (auto intro!: triple_steps s split: sum.split option.split)
  show ?thesis
  proof (cases "servers = []")
    case True
    then show ?thesis by (simp add: install_mcp_def triple_give)
  next
    case False
    show ?thesis unfolding install_mcp_def Let_def assms if_not_P [OF False] by (rule triple_seq [OF p n])
  qed
qed

text \<open>
  C37. A Claude guest that holds live credentials keeps them: when the probe of the guest answers \<open>LIVE\<close>, whatever the host key, an
  installation that is not forced neither copies the host's credentials to the guest nor runs the script that removes
  the credentials there and puts the copied ones in place; the only commands it issues are those of \<open>worker_command\<close>. A probe that fails,
  also because the connection does, counts as no credentials.
\<close>

theorem live_credentials_kept:
  assumes "install_guest_worker W i h = (t, h', r)" and "wi_harness i = ClaudeCode" and "\<not> wi_force_reseed_auth i"
    and "\<And>k. \<exists>out. ie_answers W (run_ssh (install_target W i) k (live_check (wi_auth_guest_path i))) = Some out \<and> trim_text out = ''LIVE''"
  shows "\<exists>k. list_all (worker_command W i k) t"
  using assms(1)
proof (cases rule: install_shape)
  case (ran token servers h1 k)
  let ?g = "install_target W i" and ?P = "worker_command W i k" and ?I = "\<lambda>_. True"
  obtain out where out: "ie_answers W (run_ssh ?g k (live_check (wi_auth_guest_path i))) = Some out" "trim_text out = ''LIVE''"
    using assms(4) by blast
  have "triple ?I ?P (guest_has_live_harness_creds (ie_answers W) ?g k (wi_auth_guest_path i)) (\<lambda>live. live)"
    unfolding guest_has_live_harness_creds_def using out by (auto intro!: triple_then [OF triple_ask] triple_give worker_commands)
  then have a: "triple ?I ?P (auth_push W i ?g k) (\<lambda>a. a = None)"
    unfolding auth_push_def Let_def using assms(2,3) by (auto intro!: triple_give triple_then split: option.split)
  have "triple ?I ?P (provision W i ?g (install_state W i) servers k) anything" unfolding provision_def Let_def
    by (rule triple_seq, rule triple_issue, rule worker_commands, rule triple_seq, rule triple_issue, rule worker_commands, rule triple_then, rule a)
      (use assms(2) in \<open>auto intro!: triple_steps claude_mcp_commands worker_commands\<close>)
  from triple_use [OF this TrueI ran(2)] show ?thesis by blast
qed simp

text \<open>After an installation the host infers the session that it gave the guest.\<close>

lemma installed_worker_session:
  assumes "install_guest_worker W i h = (t, h', r)" and "t \<noteq> []" and "newline_byte \<notin> set (wi_agent_id i) \<union> set (wi_session_id i)"
    and "trim_text (wi_session_id i) \<noteq> []" and "\<And>c. ch_files h' (path_join (install_state W i) ''sessiond.env'') = Some c \<Longrightarrow> utf8 c"
  shows "infer_agent_session_id (ie_chat W) (wi_agent_id i) h' = Inr (wi_session_id i)"
  using assms(1)
proof (cases rule: install_shape)
  case (ran token servers h1 k)
  let ?s = "install_state W i" and ?c = "worker_config W i token h"
  let ?h2 = "h\<lparr>ch_files := (ch_files h)(path_join ?s ''sessiond.env'' := Some (render_session_env ?c), path_join ?s ''run-agent.sh'' := Some (ie_runner W))\<rparr>"
  define I where "I h \<longleftrightarrow> ch_files h (path_join ?s ''sessiond.env'') = Some (render_session_env ?c)" for h :: chat_host
  have I2: "I ?h2" by (simp add: I_def path_join_inj)
  have prep: "triple I P (prepare_known_hosts (ie_chat W) ?s (wi_guest_ip i)) anything" for P
  proof -
    have "triple I P (put_file (ie_chat W) (path_join ?s ''known_hosts'') c) anything" for c
      by (rule triple_put) (simp add: I_def path_join_inj)
    then have a: "triple I P (and_then (read_public_line p) (\<lambda>line. and_then (put_file (ie_chat W) (path_join ?s ''known_hosts'') (f line)) (\<lambda>_. give x))) anything"
      and b: "triple I P (and_then (if b then put_file (ie_chat W) (path_join ?s ''known_hosts'') [] else give ()) (\<lambda>_. give x)) anything" for p f x b
      by (auto simp: read_public_line_def intro!: triple_steps)
    have c: "triple I P (\<lambda>h. and_then (if ch_files h q = None then put_file (ie_chat W) (path_join ?s ''known_hosts'') [] else give ()) (\<lambda>_. give x) h) anything" for q x
      by (rule triple_state [where m = "\<lambda>h. and_then (if ch_files h q = None then put_file (ie_chat W) (path_join ?s ''known_hosts'') [] else give ()) (\<lambda>_. give x)"]) (rule b)
    show ?thesis unfolding prepare_known_hosts_def Let_def by (rule triple_if, rule a, rule c)
  qed
  have I1: "I h1" using triple_use [OF prep [of anything] I2 ran(1)] by blast
  have T: "triple I anything (provision W i (install_target W i) ?s servers k) anything"
    by (rule provision_triple [OF _ _ _ auth_push_strict]) (simp_all add: I_def path_join_inj)
  have f: "ch_files h' (path_join ?s ''sessiond.env'') = Some (render_session_env ?c)"
    using triple_use [OF T I1 ran(2)] by (auto simp: I_def)
  have "path_join (agent_dir (ce_root (ie_chat W)) (wi_agent_id i)) ''state/sessiond.env'' = path_join ?s ''sessiond.env''"
    by (simp add: agent_state_dir_def path_join_def)
  moreover have "gw_agent_id ?c = wi_agent_id i" "gw_session_id ?c = wi_session_id i" by (simp_all add: worker_config_def Let_def)
  ultimately show ?thesis
    using f assms(5) [OF f] session_env_roundtrip [of ?c] assms(3,4)
    by (simp add: infer_agent_session_id_def Let_def read_file_def bind_result_def)
qed (use assms(2) in simp)

section \<open>A concrete installation\<close>

definition demo_worker_env :: worker_env where
  "demo_worker_env = \<lparr> ie_chat = demo_chat_env, ie_cwd = ''/w'', ie_exists = (\<lambda>_. True), ie_answers = (\<lambda>_. Some ''LIVE''), ie_runner = ''r'',
     ie_harness_install = (\<lambda>_. ''i''), ie_mcp = demo_mcp_host, ie_auth_file = (\<lambda>_ _. []) \<rparr>"

definition demo_guest_install :: guest_install where
  "demo_guest_install = \<lparr> wi_agent_id = ''a'', wi_session_id = ''s'', wi_harness = ClaudeCode, wi_guest_ip = ''10.0.0.2'', wi_ssh_user = ''u'', wi_ssh_key = ''k'',
     wi_auth_guest_path = ''/home/u/.claude'', wi_sessiond_url = ''l'', wi_sessiond_token_path = ''t'', wi_auth_source = Some ''c'',
     wi_install_harness = True, wi_force_reseed_auth = False \<rparr>"

definition demo_pinned_host :: chat_host where
  "demo_pinned_host = demo_chat_host\<lparr>ch_files := (ch_files demo_chat_host)(''/h/agents/a/state/ssh_host_ed25519.pub'' := Some ''key '')\<rparr>"

lemma demo_install_paths:
  "path_join (install_state demo_worker_env demo_guest_install) ''ssh_host_ed25519.pub'' = ''/h/agents/a/state/ssh_host_ed25519.pub''"
  "path_join (install_state demo_worker_env demo_guest_install) ''known_hosts'' = ''/h/agents/a/state/known_hosts''"
  "length (fst (install_guest_worker demo_worker_env demo_guest_install demo_pinned_host)) = 5"
  by code_simp+

theorem pinned_install_strict_witness:
  "\<exists>t h' r. install_guest_worker demo_worker_env demo_guest_install demo_pinned_host = (t, h', r) \<and> length t = 5
    \<and> list_all (sublist [''-o'', ''StrictHostKeyChecking=yes'', ''-o'', ''UserKnownHostsFile=/h/agents/a/state/known_hosts'']) t
    \<and> ch_files h' ''/h/agents/a/state/known_hosts'' = Some (''10.0.0.2 key'' @ [newline_byte])"
proof -
  obtain t h' r where e: "install_guest_worker demo_worker_env demo_guest_install demo_pinned_host = (t, h', r)" by (metis prod_cases3)
  then have t: "length t = 5" using demo_install_paths(3) by simp
  have key: "ch_files demo_pinned_host (path_join (install_state demo_worker_env demo_guest_install) ''ssh_host_ed25519.pub'') = Some ''key ''"
    unfolding demo_install_paths by (simp add: demo_pinned_host_def)
  have "trim_text ''key '' = ''key''" "wi_guest_ip demo_guest_install = ''10.0.0.2''" by code_simp+
  with pinned_install_strict [OF e key] t e show ?thesis unfolding demo_install_paths by auto
qed

theorem live_credentials_kept_witness:
  "\<exists>k. list_all (worker_command demo_worker_env demo_guest_install k) (fst (install_guest_worker demo_worker_env demo_guest_install demo_pinned_host))
   \<and> length (fst (install_guest_worker demo_worker_env demo_guest_install demo_pinned_host)) = 5"
proof -
  obtain t h' r where e: "install_guest_worker demo_worker_env demo_guest_install demo_pinned_host = (t, h', r)" by (metis prod_cases3)
  have live: "\<exists>out. ie_answers demo_worker_env (run_ssh (install_target demo_worker_env demo_guest_install) k (live_check (wi_auth_guest_path demo_guest_install))) = Some out
      \<and> trim_text out = ''LIVE''" for k
  proof -
    have "trim_text ''LIVE'' = ''LIVE''" by code_simp
    then show ?thesis by (simp add: demo_worker_env_def)
  qed
  have "wi_harness demo_guest_install = ClaudeCode" "\<not> wi_force_reseed_auth demo_guest_install" by (simp_all add: demo_guest_install_def)
  from live_credentials_kept [OF e this live] show ?thesis using e demo_install_paths(3) by simp
qed

end
