(* ===== verification/Vm_Provider.thy ===== *)
theory Vm_Provider
  imports Guest_Worker Graph_Store
begin

text \<open>
  The Firecracker provider, \<open>crates/maturana-core/src/providers/firecracker.rs\<close>: the configuration and metadata it
  plans, the check of both before a launch, the host's prerequisites, and the life of the virtual machine's process between
  its process-id file, its API socket and the process table. JSON text, the clock and what other programs answer are the
  environment; JSON values are those of \<open>Graph_Store\<close>.
\<close>

section \<open>The host\<close>

datatype proc = Vm str "str option" | OtherProc

text \<open>
  Files, socket files by path, and the living processes: a virtual machine serves one socket, with the text of the configuration
  file it read when it was started.
\<close>

record machine =
  mc_host :: chat_host
  mc_sockets :: "str \<Rightarrow> bool"
  mc_procs :: "u32 \<Rightarrow> proc option"

record ip_link =
  il_ifname :: str
  il_flags :: "str list"

text \<open>What the probe of \<open>/dev/kvm\<close> sees.\<close>

record kvm_view =
  kv_exists :: bool
  kv_modules :: "str option"
  kv_cpuinfo :: "str option"
  kv_char_device :: bool
  kv_readable :: bool
  kv_writable :: bool

datatype signal = TermSignal | KillSignal

text \<open>
  \<open>pe_polls\<close> are the answers of the API socket polled within ten seconds, \<open>pe_alive_polls\<close> whether a process was seen
  alive after a signal until the deadline; \<open>pe_signals\<close> whether this user may signal a process; \<open>pe_on_launch\<close> is the specification's snapshot policy, \<open>pe_binds\<close>
  whether a machine that never answered had made its socket.
\<close>

record provider_env =
  pe_chat :: chat_env
  pe_cwd :: str
  pe_on_launch :: bool
  pe_print :: "json \<Rightarrow> str"
  pe_parse :: "str \<Rightarrow> json option"
  pe_canonical :: "str list \<Rightarrow> str list option"
  pe_answers :: "machine \<Rightarrow> str \<Rightarrow> bool"
  pe_polls :: "machine \<Rightarrow> str \<Rightarrow> bool list"
  pe_pid :: "machine \<Rightarrow> u32 option"
  pe_binds :: bool
  pe_signals :: "machine \<Rightarrow> u32 \<Rightarrow> bool"
  pe_alive_polls :: "signal \<Rightarrow> u32 \<Rightarrow> bool list"
  pe_removable :: "str \<Rightarrow> bool"
  pe_commands :: "str \<Rightarrow> bool"
  pe_kvm :: kvm_view
  pe_link_show :: "str \<Rightarrow> str option"
  pe_links :: "str \<Rightarrow> ip_link list option"

datatype provider_error =
    NoFirecrackerSpec | ProviderFile chat_error | NotJson str | MissingField "str list" | FieldMismatch "str list"
  | MissingStatePath str | WrongStateName str | NoStateParent str | EscapesState str | BadProxyPort str
  | NoConfigFile | PidText | PidZero | SocketGone u32 | UntrackedSocket | ApiTimeout | ApiNeverReady | CannotSpawn
  | CannotSignal u32 | SurvivedKill u32 | CannotRemove str | NoCommand str | SandboxHidesKvm | NoKvm | KvmNotDevice | KvmDenied
  | ImageMissing str | ImageEmpty str | ImageNotElf | NoTap str | TapOutput str | TapDown str

section \<open>Paths by component\<close>

text \<open>\<open>Path::components\<close>: a leading root or current directory is kept, later current directories are not.\<close>

definition components_of :: "str \<Rightarrow> str list" where
  "components_of p =
     (if prefix ''/'' p then [''/''] else if p = ''.'' \<or> prefix ''./'' p then [''.''] else []) @ path_parts p"

definition component_name :: "str list \<Rightarrow> str option" where
  "component_name cs = (if cs = [] \<or> last cs \<in> {''/'', ''.'', ''..''} then None else Some (last cs))"

definition component_parent :: "str list \<Rightarrow> str list option" where
  "component_parent cs = (if cs = [] \<or> cs = [''/''] then None else Some (butlast cs))"

definition absolute_without_filesystem :: "str \<Rightarrow> str list \<Rightarrow> str list" where
  "absolute_without_filesystem cwd cs =
     (if cs \<noteq> [] \<and> hd cs = ''/'' then cs else components_of cwd @ filter (\<lambda>c. c \<noteq> ''.'') cs)"

definition canonical_or_absolute :: "provider_env \<Rightarrow> str list \<Rightarrow> str list" where
  "canonical_or_absolute E cs = (case pe_canonical E cs of Some c \<Rightarrow> c | None \<Rightarrow> absolute_without_filesystem (pe_cwd E) cs)"

section \<open>Reading JSON\<close>

definition json_get :: "str \<Rightarrow> json \<Rightarrow> json option" where
  "json_get k v = (case v of JObject kvs \<Rightarrow> map_of (rev kvs) k | _ \<Rightarrow> None)"

definition json_step :: "str \<Rightarrow> json \<Rightarrow> json option" where
  "json_step seg v =
     (case parse_nat_below (2 ^ 64) seg of
        Some i \<Rightarrow> (case v of JArray vs \<Rightarrow> if i < length vs then Some (vs ! i) else None | _ \<Rightarrow> None)
      | None \<Rightarrow> json_get seg v)"

fun json_path :: "json \<Rightarrow> str list \<Rightarrow> json option" where
  "json_path v [] = Some v"
| "json_path v (seg # path) = Option.bind (json_step seg v) (\<lambda>w. json_path w path)"

definition as_text :: "json \<Rightarrow> str option" where
  "as_text v = (case v of JString s \<Rightarrow> Some s | _ \<Rightarrow> None)"

definition as_u64 :: "json \<Rightarrow> nat option" where
  "as_u64 v = (case v of JNum s \<Rightarrow> parse_nat_below (2 ^ 64) s | _ \<Rightarrow> None)"

definition as_bool :: "json \<Rightarrow> bool option" where
  "as_bool v = (case v of JBool b \<Rightarrow> Some b | _ \<Rightarrow> None)"

definition expect_json_string :: "json \<Rightarrow> str list \<Rightarrow> str \<Rightarrow> provider_error + unit" where
  "expect_json_string v path expected =
     (case Option.bind (json_path v path) as_text of
        None \<Rightarrow> Inl (MissingField path) | Some a \<Rightarrow> if a \<noteq> expected then Inl (FieldMismatch path) else Inr ())"

definition expect_json_u64 :: "json \<Rightarrow> str list \<Rightarrow> nat \<Rightarrow> provider_error + unit" where
  "expect_json_u64 v path expected =
     (case Option.bind (json_path v path) as_u64 of
        None \<Rightarrow> Inl (MissingField path) | Some a \<Rightarrow> if a \<noteq> expected then Inl (FieldMismatch path) else Inr ())"

definition expect_json_bool :: "json \<Rightarrow> str list \<Rightarrow> bool \<Rightarrow> provider_error + unit" where
  "expect_json_bool v path expected =
     (case Option.bind (json_path v path) as_bool of
        None \<Rightarrow> Inl (MissingField path) | Some a \<Rightarrow> if a \<noteq> expected then Inl (FieldMismatch path) else Inr ())"

definition expect_json_null :: "json \<Rightarrow> str list \<Rightarrow> provider_error + unit" where
  "expect_json_null v path =
     (case json_path v path of None \<Rightarrow> Inl (MissingField path) | Some a \<Rightarrow> if a \<noteq> JNull then Inl (FieldMismatch path) else Inr ())"

definition read_json_file :: "provider_env \<Rightarrow> str \<Rightarrow> chat_host \<Rightarrow> provider_error + json" where
  "read_json_file E p h =
     (case read_file p h of
        Inl e \<Rightarrow> Inl (ProviderFile e)
      | Inr raw \<Rightarrow> (case pe_parse E raw of None \<Rightarrow> Inl (NotJson p) | Some v \<Rightarrow> Inr v))"

definition validate_state_path :: "provider_env \<Rightarrow> str \<Rightarrow> json \<Rightarrow> str \<Rightarrow> str \<Rightarrow> provider_error + unit" where
  "validate_state_path E state_dir metadata k expected_name =
     (case Option.bind (json_get k metadata) as_text of
        None \<Rightarrow> Inl (MissingStatePath k)
      | Some raw \<Rightarrow>
          let cs = components_of raw
          in if component_name cs \<noteq> Some expected_name then Inl (WrongStateName k)
             else (case component_parent cs of
                 None \<Rightarrow> Inl (NoStateParent k)
               | Some parent \<Rightarrow>
                   if canonical_or_absolute E parent \<noteq> canonical_or_absolute E (components_of state_dir) then Inl (EscapesState k) else Inr ()))"

section \<open>Planning a launch\<close>

definition parse_bind_port :: "str \<Rightarrow> provider_error + nat" where
  "parse_bind_port b =
     (let p = (case rsplit_once CHR '':'' (trim_text b) of Some (_, port) \<Rightarrow> port | None \<Rightarrow> trim_text b)
      in case parse_nat_below (2 ^ 16) p of None \<Rightarrow> Inl (BadProxyPort b) | Some n \<Rightarrow> Inr n)"

definition proxy_port :: "agent_description \<Rightarrow> provider_error + nat option" where
  "proxy_port s =
     (case nw_proxy (as_network s) of
        None \<Rightarrow> Inr None
      | Some p \<Rightarrow> if \<not> np_enabled p then Inr None else bind_result (parse_bind_port (np_bind p)) (\<lambda>n. Inr (Some n)))"

definition harness_debug_name :: "harness_runtime \<Rightarrow> str" where
  "harness_debug_name r = (case r of Codex \<Rightarrow> ''Codex'' | ClaudeCode \<Rightarrow> ''ClaudeCode'' | Opencode \<Rightarrow> ''Opencode'')"

definition state_file :: "str \<Rightarrow> str \<Rightarrow> str" where
  "state_file dir f = path_join (path_join dir ''state'') f"

definition firecracker_config_json :: "provider_env \<Rightarrow> agent_description \<Rightarrow> firecracker_vm \<Rightarrow> str \<Rightarrow> json" where
  "firecracker_config_json E s fc dir =
     JObject
      [(''boot-source'', JObject [(''kernel_image_path'', JString (absolute_or_cwd (pe_cwd E) (fc_kernel_image fc))), (''boot_args'', JString (fc_kernel_args fc))]),
       (''drives'', JArray [JObject [(''drive_id'', JString ''rootfs''), (''path_on_host'', JString (absolute_or_cwd (pe_cwd E) (fc_rootfs_image fc))),
          (''is_root_device'', JBool True), (''is_read_only'', JBool False)]]),
       (''machine-config'', JObject [(''vcpu_count'', JNum (show_nat (unat (vm_vcpu (as_vm s))))), (''mem_size_mib'', JNum (show_nat (unat (vm_memory_mib (as_vm s))))),
          (''smt'', JBool False), (''track_dirty_pages'', JBool (pe_on_launch E))]),
       (''network-interfaces'', JArray [JObject [(''iface_id'', JString ''net1''), (''guest_mac'', JString (fc_guest_mac fc)), (''host_dev_name'', JString (fc_tap_name fc))]]),
       (''logger'', JObject [(''log_path'', JString (state_file dir ''firecracker.log'')), (''level'', JString ''Info''), (''show_level'', JBool True), (''show_log_origin'', JBool True)]),
       (''metrics'', JObject [(''metrics_path'', JString (state_file dir ''firecracker-metrics.json''))])]"

definition firecracker_metadata_json :: "agent_description \<Rightarrow> firecracker_vm \<Rightarrow> nat option \<Rightarrow> str \<Rightarrow> json" where
  "firecracker_metadata_json s fc port dir =
     JObject
      [(''agent_id'', JString (id_id (as_identity s))), (''runtime'', JString (harness_debug_name (as_harness s))), (''tap_name'', JString (fc_tap_name fc)),
       (''host_ip'', JString (fc_host_ip fc)), (''guest_ip'', JString (fc_guest_ip fc)), (''guest_mac'', JString (fc_guest_mac fc)),
       (''socket'', JString (state_file dir ''firecracker.socket'')), (''config'', JString (state_file dir ''firecracker-config.json'')),
       (''pid'', JString (state_file dir ''firecracker.pid'')), (''log'', JString (state_file dir ''firecracker.log'')),
       (''metrics'', JString (state_file dir ''firecracker-metrics.json'')),
       (''proxy_port'', case port of None \<Rightarrow> JNull | Some n \<Rightarrow> JNum (show_nat n)), (''proxy_https'', JBool (port \<noteq> None))]"

definition ensure_file :: "provider_env \<Rightarrow> str \<Rightarrow> chat_host \<Rightarrow> provider_error + chat_host" where
  "ensure_file E p h =
     (if ch_files h p \<noteq> None then Inr h else (case write_file (pe_chat E) p [] h of Inl e \<Rightarrow> Inl (ProviderFile e) | Inr h1 \<Rightarrow> Inr h1))"

definition ensure_runtime_files :: "provider_env \<Rightarrow> str \<Rightarrow> str \<Rightarrow> chat_host \<Rightarrow> provider_error + chat_host" where
  "ensure_runtime_files E log metrics h = bind_result (ensure_file E log h) (ensure_file E metrics)"

text \<open>The checks one after the other: the first that fails is the error.\<close>

fun all_ok :: "('e + unit) list \<Rightarrow> 'e + unit" where
  "all_ok [] = Inr ()"
| "all_ok (r # rs) = bind_result r (\<lambda>_. all_ok rs)"

definition config_checks :: "provider_env \<Rightarrow> agent_description \<Rightarrow> firecracker_vm \<Rightarrow> json \<Rightarrow> (provider_error + unit) list" where
  "config_checks E s fc c =
     [expect_json_string c [''boot-source'', ''kernel_image_path''] (absolute_or_cwd (pe_cwd E) (fc_kernel_image fc)),
      expect_json_string c [''drives'', ''0'', ''path_on_host''] (absolute_or_cwd (pe_cwd E) (fc_rootfs_image fc)),
      expect_json_u64 c [''machine-config'', ''vcpu_count''] (unat (vm_vcpu (as_vm s))),
      expect_json_u64 c [''machine-config'', ''mem_size_mib''] (unat (vm_memory_mib (as_vm s))),
      expect_json_bool c [''machine-config'', ''track_dirty_pages''] (pe_on_launch E),
      expect_json_string c [''network-interfaces'', ''0'', ''guest_mac''] (fc_guest_mac fc),
      expect_json_string c [''network-interfaces'', ''0'', ''host_dev_name''] (fc_tap_name fc)]"

definition metadata_checks :: "agent_description \<Rightarrow> firecracker_vm \<Rightarrow> json \<Rightarrow> (provider_error + unit) list" where
  "metadata_checks s fc m =
     [expect_json_string m [''agent_id''] (id_id (as_identity s)),
      expect_json_string m [''runtime''] (harness_debug_name (as_harness s)),
      expect_json_string m [''tap_name''] (fc_tap_name fc),
      expect_json_string m [''host_ip''] (fc_host_ip fc),
      expect_json_string m [''guest_ip''] (fc_guest_ip fc),
      expect_json_string m [''guest_mac''] (fc_guest_mac fc),
      expect_json_bool m [''proxy_https''] (case nw_proxy (as_network s) of Some p \<Rightarrow> np_enabled p | None \<Rightarrow> False),
      (case proxy_port s of
         Inl e \<Rightarrow> Inl e
       | Inr (Some n) \<Rightarrow> expect_json_u64 m [''proxy_port''] n
       | Inr None \<Rightarrow> expect_json_null m [''proxy_port''])]"

definition state_checks :: "provider_env \<Rightarrow> str \<Rightarrow> json \<Rightarrow> (provider_error + unit) list" where
  "state_checks E dir m =
     map (\<lambda>(k, f). validate_state_path E (path_join dir ''state'') m k f)
       [(''socket'', ''firecracker.socket''), (''config'', ''firecracker-config.json''), (''pid'', ''firecracker.pid''), (''log'', ''firecracker.log''),
        (''metrics'', ''firecracker-metrics.json'')]"

definition validate_firecracker_plan_files :: "provider_env \<Rightarrow> agent_description \<Rightarrow> str \<Rightarrow> chat_host \<Rightarrow> provider_error + unit" where
  "validate_firecracker_plan_files E s dir h =
     (case vm_firecracker (as_vm s) of
        None \<Rightarrow> Inl NoFirecrackerSpec
      | Some fc \<Rightarrow>
          bind_result (read_json_file E (state_file dir ''firecracker-config.json'') h) (\<lambda>c.
          bind_result (read_json_file E (state_file dir ''firecracker-metadata.json'') h) (\<lambda>m.
          all_ok (config_checks E s fc c @ metadata_checks s fc m @ state_checks E dir m))))"

record provider_command =
  pc_program :: str
  pc_args :: "str list"
  pc_description :: str

definition provider_write :: "provider_env \<Rightarrow> str \<Rightarrow> str \<Rightarrow> chat_host \<Rightarrow> provider_error + chat_host" where
  "provider_write E p c h = (case write_file (pe_chat E) p c h of Inl e \<Rightarrow> Inl (ProviderFile e) | Inr h1 \<Rightarrow> Inr h1)"

definition plan_launch :: "provider_env \<Rightarrow> agent_description \<Rightarrow> str \<Rightarrow> chat_host \<Rightarrow> provider_error + provider_command list \<times> chat_host" where
  "plan_launch E s dir h =
     (case vm_firecracker (as_vm s) of
        None \<Rightarrow> Inl NoFirecrackerSpec
      | Some fc \<Rightarrow>
          bind_result (proxy_port s) (\<lambda>port.
          bind_result (provider_write E (state_file dir ''firecracker-config.json'') (pe_print E (firecracker_config_json E s fc dir)) h) (\<lambda>h1.
          bind_result (ensure_runtime_files E (state_file dir ''firecracker.log'') (state_file dir ''firecracker-metrics.json'') h1) (\<lambda>h2.
          bind_result (provider_write E (state_file dir ''firecracker-metadata.json'') (pe_print E (firecracker_metadata_json s fc port dir)) h2) (\<lambda>h3.
          bind_result (validate_firecracker_plan_files E s dir h3) (\<lambda>_.
            Inr ([\<lparr> pc_program = ''firecracker'', pc_args = [''--api-sock'', state_file dir ''firecracker.socket'', ''--config-file'',
              state_file dir ''firecracker-config.json''],
              pc_description = ''Rust provider validates Firecracker prerequisites and starts this config'' \<rparr>], h3)))))))"

section \<open>Prerequisites\<close>

definition ensure_command_exists :: "provider_env \<Rightarrow> str \<Rightarrow> provider_error + unit" where
  "ensure_command_exists E p = (if pe_commands E p then Inr () else Inl (NoCommand p))"

definition ensure_kvm_ready :: "kvm_view \<Rightarrow> provider_error + unit" where
  "ensure_kvm_ready k =
     (if \<not> kv_exists k then
        let loaded = (case kv_modules k of
              Some m \<Rightarrow> list_ex (\<lambda>l. prefix ''kvm '' l \<or> prefix ''kvm_intel'' l \<or> prefix ''kvm_amd'' l) (text_lines m) | None \<Rightarrow> False);
            capable = (case kv_cpuinfo k of Some c \<Rightarrow> contains ''vmx'' c \<or> contains ''svm'' c | None \<Rightarrow> False)
        in if loaded \<or> capable then Inl SandboxHidesKvm else Inl NoKvm
      else if \<not> kv_char_device k then Inl KvmNotDevice
      else if \<not> kv_readable k \<or> \<not> kv_writable k then Inl KvmDenied
      else Inr ())"

definition ensure_regular_file :: "str \<Rightarrow> str \<Rightarrow> chat_host \<Rightarrow> provider_error + unit" where
  "ensure_regular_file p label h =
     (case ch_files h p of None \<Rightarrow> Inl (ImageMissing label) | Some c \<Rightarrow> if c = [] then Inl (ImageEmpty label) else Inr ())"

definition elf_magic :: str where
  "elf_magic = char_of (127 :: nat) # ''ELF''"

definition ensure_elf_file :: "str \<Rightarrow> chat_host \<Rightarrow> provider_error + unit" where
  "ensure_elf_file p h =
     (case ch_files h p of None \<Rightarrow> Inl (ImageMissing ''kernel image'') | Some c \<Rightarrow> if length c < 4 \<or> take 4 c \<noteq> elf_magic then Inl ImageNotElf else Inr ())"

definition validate_tap_ip_link_json :: "provider_env \<Rightarrow> str \<Rightarrow> str \<Rightarrow> provider_error + unit" where
  "validate_tap_ip_link_json E tap raw =
     (case pe_links E raw of
        None \<Rightarrow> Inl (TapOutput tap)
      | Some links \<Rightarrow>
          (case List.find (\<lambda>l. il_ifname l = tap) links of
             None \<Rightarrow> Inl (NoTap tap)
           | Some l \<Rightarrow> if ''UP'' \<notin> set (il_flags l) then Inl (TapDown tap) else Inr ()))"

definition ensure_tap_exists :: "provider_env \<Rightarrow> str \<Rightarrow> provider_error + unit" where
  "ensure_tap_exists E tap = (case pe_link_show E tap of None \<Rightarrow> Inl (NoTap tap) | Some out \<Rightarrow> validate_tap_ip_link_json E tap out)"

definition validate_firecracker_prerequisites :: "provider_env \<Rightarrow> str \<Rightarrow> str \<Rightarrow> str \<Rightarrow> chat_host \<Rightarrow> provider_error + unit" where
  "validate_firecracker_prerequisites E tap kernel_image rootfs_image h =
     all_ok [ensure_command_exists E ''firecracker'', ensure_command_exists E ''curl'', ensure_command_exists E ''ip'', ensure_kvm_ready (pe_kvm E),
       ensure_regular_file kernel_image ''kernel image'' h, ensure_elf_file kernel_image h, ensure_regular_file rootfs_image ''rootfs image'' h, ensure_tap_exists E tap]"

section \<open>The process\<close>

datatype existing_process = NoProcess | StaleProcess u32 | StaleSocket | UntrackedReadySocket | RunningReady u32 | RunningMissingSocket u32

definition parse_provider_pid :: "str \<Rightarrow> provider_error + u32 option" where
  "parse_provider_pid raw =
     (let t = trim_text raw
      in if t = [] then Inr None
         else case parse_nat_below (2 ^ 32) t of
             None \<Rightarrow> Inl PidText
           | Some n \<Rightarrow> if n = 0 then Inl PidZero else Inr (Some (of_nat n)))"

definition read_pid :: "str \<Rightarrow> chat_host \<Rightarrow> provider_error + u32 option" where
  "read_pid p h =
     (if ch_files h p = None then Inr None
      else case read_file p h of Inl e \<Rightarrow> Inl (ProviderFile e) | Inr raw \<Rightarrow> parse_provider_pid raw)"

text \<open>\<open>kill -0\<close> fails for a process that is gone, and for one the user may not signal.\<close>

definition process_running :: "provider_env \<Rightarrow> u32 \<Rightarrow> machine \<Rightarrow> bool" where
  "process_running E pid m \<longleftrightarrow> mc_procs m pid \<noteq> None \<and> pe_signals E m pid"

fun classify_existing_firecracker_process :: "u32 option \<Rightarrow> bool option \<Rightarrow> bool \<Rightarrow> bool option \<Rightarrow> existing_process" where
  "classify_existing_firecracker_process (Some pid) (Some True) True api = RunningReady pid"
| "classify_existing_firecracker_process (Some pid) (Some True) False api = RunningMissingSocket pid"
| "classify_existing_firecracker_process (Some pid) (Some False) sock api = StaleProcess pid"
| "classify_existing_firecracker_process None running True (Some True) = UntrackedReadySocket"
| "classify_existing_firecracker_process None running True api = StaleSocket"
| "classify_existing_firecracker_process None running False api = NoProcess"
| "classify_existing_firecracker_process (Some pid) None sock api = StaleProcess pid"

definition inspect_existing_firecracker_process :: "provider_env \<Rightarrow> str \<Rightarrow> str \<Rightarrow> machine \<Rightarrow> provider_error + existing_process" where
  "inspect_existing_firecracker_process E pid_path socket m =
     bind_result (read_pid pid_path (mc_host m)) (\<lambda>recorded.
       case recorded of
         Some pid \<Rightarrow> Inr (classify_existing_firecracker_process (Some pid) (Some (process_running E pid m)) (mc_sockets m socket) None)
       | None \<Rightarrow> Inr (classify_existing_firecracker_process None None (mc_sockets m socket)
           (if mc_sockets m socket then Some (pe_answers E m socket) else None)))"

definition live_state_from_existing_process :: "existing_process \<Rightarrow> bool option \<Rightarrow> str \<times> u32 option" where
  "live_state_from_existing_process p api =
     (case p of
        NoProcess \<Rightarrow> (''stopped'', None)
      | StaleProcess pid \<Rightarrow> (''stale-pid'', Some pid)
      | StaleSocket \<Rightarrow> (''stale-socket'', None)
      | UntrackedReadySocket \<Rightarrow> (''untracked-api-socket'', None)
      | RunningReady pid \<Rightarrow> (if api = Some False then ''running-api-unresponsive'' else ''running'', Some pid)
      | RunningMissingSocket pid \<Rightarrow> (''running-missing-socket'', Some pid))"

text \<open>Both loops poll until their deadline: the polls are the environment.\<close>

fun wait_firecracker_api_ready :: "bool list \<Rightarrow> bool" where
  "wait_firecracker_api_ready [] = False"
| "wait_firecracker_api_ready (ok # polls) = (ok \<or> wait_firecracker_api_ready polls)"

fun wait_for_process_exit :: "bool list \<Rightarrow> bool" where
  "wait_for_process_exit [] = False"
| "wait_for_process_exit (alive # polls) = (\<not> alive \<or> wait_for_process_exit polls)"

type_synonym provider_step = "machine \<Rightarrow> provider_error option \<times> machine"

definition drop_file :: "provider_env \<Rightarrow> str \<Rightarrow> machine \<Rightarrow> machine" where
  "drop_file E p m = (if pe_removable E p then m\<lparr>mc_host := (mc_host m)\<lparr>ch_files := (ch_files (mc_host m))(p := None)\<rparr>\<rparr> else m)"

definition remove_socket_if_present :: "provider_env \<Rightarrow> str \<Rightarrow> provider_step" where
  "remove_socket_if_present E socket m =
     (if \<not> mc_sockets m socket then (None, m)
      else if pe_removable E socket then (None, m\<lparr>mc_sockets := (mc_sockets m)(socket := False)\<rparr>)
      else (Some (CannotRemove socket), m))"

definition put_machine_file :: "provider_env \<Rightarrow> str \<Rightarrow> str \<Rightarrow> provider_step" where
  "put_machine_file E p c m =
     (case write_file (pe_chat E) p c (mc_host m) of Inl e \<Rightarrow> (Some (ProviderFile e), m) | Inr h \<Rightarrow> (None, m\<lparr>mc_host := h\<rparr>))"

definition then_step :: "provider_step \<Rightarrow> provider_step \<Rightarrow> provider_step" where
  "then_step f g m = (case f m of (Some e, m1) \<Rightarrow> (Some e, m1) | (None, m1) \<Rightarrow> g m1)"

definition check_step :: "provider_error + unit \<Rightarrow> provider_step" where
  "check_step r m = (case r of Inl e \<Rightarrow> (Some e, m) | Inr _ \<Rightarrow> (None, m))"

text \<open>The child (\<open>--api-sock\<close>, \<open>--config-file\<close>), its process id recorded, then the wait for its API; a child that stays silent is killed and reaped.\<close>

definition spawn_firecracker :: "provider_env \<Rightarrow> str \<Rightarrow> str \<Rightarrow> str \<Rightarrow> provider_step" where
  "spawn_firecracker E socket config pid_path m =
     (case pe_pid E m of
        None \<Rightarrow> (Some CannotSpawn, m)
      | Some pid \<Rightarrow>
          let ready = wait_firecracker_api_ready (pe_polls E m socket);
              m1 = m\<lparr>mc_procs := (mc_procs m)(pid \<mapsto> Vm socket (ch_files (mc_host m) config)), mc_sockets := (mc_sockets m)(socket := ready \<or> pe_binds E)\<rparr>
          in case put_machine_file E pid_path (show_nat (unat pid)) m1 of
              (Some e, m2) \<Rightarrow> (Some e, m2)
            | (None, m2) \<Rightarrow>
                if ready then (None, m2)
                else
                  let m3 = drop_file E pid_path (m2\<lparr>mc_procs := (mc_procs m2)(pid := None)\<rparr>)
                  in (Some ApiNeverReady, snd (remove_socket_if_present E socket m3)))"

definition launch_firecracker :: "provider_env \<Rightarrow> str \<Rightarrow> str \<Rightarrow> str \<Rightarrow> str \<Rightarrow> str \<Rightarrow> str \<Rightarrow> provider_step" where
  "launch_firecracker E tap socket config pid_path out_log err_log =
     then_step (remove_socket_if_present E socket)
    (then_step (check_step (ensure_tap_exists E tap))
    (then_step (put_machine_file E out_log [])
    (then_step (put_machine_file E err_log []) (spawn_firecracker E socket config pid_path))))"

definition start_firecracker_process :: "provider_env \<Rightarrow> str \<Rightarrow> str \<Rightarrow> str \<Rightarrow> str \<Rightarrow> str \<Rightarrow> str \<Rightarrow> provider_step" where
  "start_firecracker_process E tap socket config pid_path out_log err_log m =
     (if ch_files (mc_host m) config = None then (Some NoConfigFile, m)
      else case inspect_existing_firecracker_process E pid_path socket m of
          Inl e \<Rightarrow> (Some e, m)
        | Inr p \<Rightarrow>
            (case p of
               RunningReady pid \<Rightarrow> if wait_firecracker_api_ready (pe_polls E m socket) then (None, m) else (Some ApiTimeout, m)
             | RunningMissingSocket pid \<Rightarrow> (Some (SocketGone pid), m)
             | UntrackedReadySocket \<Rightarrow> (Some UntrackedSocket, m)
             | StaleProcess pid \<Rightarrow> launch_firecracker E tap socket config pid_path out_log err_log (drop_file E pid_path m)
             | StaleSocket \<Rightarrow> launch_firecracker E tap socket config pid_path out_log err_log m
             | NoProcess \<Rightarrow> launch_firecracker E tap socket config pid_path out_log err_log m))"

text \<open>A signal, and the wait for the process to go.\<close>

definition signal_and_wait :: "provider_env \<Rightarrow> signal \<Rightarrow> u32 \<Rightarrow> machine \<Rightarrow> bool option \<times> machine" where
  "signal_and_wait E sg pid m =
     (if \<not> pe_signals E m pid then (None, m)
      else if wait_for_process_exit (pe_alive_polls E sg pid) then (Some True, m\<lparr>mc_procs := (mc_procs m)(pid := None)\<rparr>)
      else (Some False, m))"

definition end_process :: "provider_env \<Rightarrow> u32 \<Rightarrow> provider_step" where
  "end_process E pid m =
     (case signal_and_wait E TermSignal pid m of
        (None, m1) \<Rightarrow> (Some (CannotSignal pid), m1)
      | (Some True, m1) \<Rightarrow> (None, m1)
      | (Some False, m1) \<Rightarrow>
          (case signal_and_wait E KillSignal pid m1 of
             (None, m2) \<Rightarrow> (Some (CannotSignal pid), m2)
           | (Some True, m2) \<Rightarrow> (None, m2)
           | (Some False, m2) \<Rightarrow> (Some (SurvivedKill pid), m2)))"

definition forget_process :: "provider_env \<Rightarrow> str \<Rightarrow> str \<Rightarrow> provider_step" where
  "forget_process E pid_path socket m = remove_socket_if_present E socket (drop_file E pid_path m)"

definition stop_running_firecracker :: "provider_env \<Rightarrow> str \<Rightarrow> str \<Rightarrow> provider_step" where
  "stop_running_firecracker E pid_path socket m =
     (case inspect_existing_firecracker_process E pid_path socket m of
        Inl e \<Rightarrow> (Some e, m)
      | Inr p \<Rightarrow>
          (case p of
             RunningReady pid \<Rightarrow> then_step (end_process E pid) (forget_process E pid_path socket) m
           | RunningMissingSocket pid \<Rightarrow> then_step (end_process E pid) (forget_process E pid_path socket) m
           | StaleProcess pid \<Rightarrow> forget_process E pid_path socket m
           | StaleSocket \<Rightarrow> remove_socket_if_present E socket m
           | UntrackedReadySocket \<Rightarrow> (Some UntrackedSocket, m)
           | NoProcess \<Rightarrow> (None, m)))"

section \<open>The provider\<close>

definition provider_launch :: "provider_env \<Rightarrow> agent_description \<Rightarrow> str \<Rightarrow> provider_step" where
  "provider_launch E s dir m =
     (case vm_firecracker (as_vm s) of
        None \<Rightarrow> (Some NoFirecrackerSpec, m)
      | Some fc \<Rightarrow>
          then_step (\<lambda>m. check_step (validate_firecracker_plan_files E s dir (mc_host m)) m)
         (then_step (\<lambda>m. check_step (validate_firecracker_prerequisites E (fc_tap_name fc) (absolute_or_cwd (pe_cwd E) (fc_kernel_image fc))
              (absolute_or_cwd (pe_cwd E) (fc_rootfs_image fc)) (mc_host m)) m)
         (then_step (\<lambda>m. case ensure_runtime_files E (state_file dir ''firecracker.log'') (state_file dir ''firecracker-metrics.json'') (mc_host m) of
              Inl e \<Rightarrow> (Some e, m) | Inr h \<Rightarrow> (None, m\<lparr>mc_host := h\<rparr>))
         (start_firecracker_process E (fc_tap_name fc) (state_file dir ''firecracker.socket'') (state_file dir ''firecracker-config.json'')
            (state_file dir ''firecracker.pid'') (state_file dir ''firecracker.stdout.log'') (state_file dir ''firecracker.stderr.log'')))) m)"

definition provider_stop :: "provider_env \<Rightarrow> str \<Rightarrow> provider_step" where
  "provider_stop E dir = stop_running_firecracker E (state_file dir ''firecracker.pid'') (state_file dir ''firecracker.socket'')"

definition firecracker_guest_ip :: "provider_env \<Rightarrow> agent_description \<Rightarrow> str \<Rightarrow> chat_host \<Rightarrow> provider_error + str option" where
  "firecracker_guest_ip E s metadata_path h =
     (case Option.bind (vm_firecracker (as_vm s)) (\<lambda>fc. if trim_text (fc_guest_ip fc) = [] then None else Some (trim_text (fc_guest_ip fc))) of
        Some ip \<Rightarrow> Inr (Some ip)
      | None \<Rightarrow>
          if ch_files h metadata_path = None then Inr None
          else bind_result (read_json_file E metadata_path h) (\<lambda>v.
            case Option.bind (json_get ''guest_ip'' v) as_text of
              Some ip \<Rightarrow> Inr (if trim_text ip = [] then None else Some (trim_text ip))
            | None \<Rightarrow> Inr None))"

definition read_tail_lines :: "str \<Rightarrow> nat \<Rightarrow> chat_host \<Rightarrow> provider_error + str list" where
  "read_tail_lines p limit h =
     (if ch_files h p = None then Inr []
      else case read_file p h of
          Inl e \<Rightarrow> Inl (ProviderFile e)
        | Inr raw \<Rightarrow> let ls = text_lines raw in Inr (drop (length ls - limit) ls))"

record live_agent_status =
  ls_state :: str
  ls_pid :: "u32 option"
  ls_ipv4 :: "str option"
  ls_metrics_tail :: "str list"

definition provider_inspect :: "provider_env \<Rightarrow> agent_description \<Rightarrow> str \<Rightarrow> machine \<Rightarrow> provider_error + live_agent_status" where
  "provider_inspect E s dir m =
     bind_result (validate_firecracker_plan_files E s dir (mc_host m)) (\<lambda>_.
     bind_result (inspect_existing_firecracker_process E (state_file dir ''firecracker.pid'') (state_file dir ''firecracker.socket'') m) (\<lambda>p.
     bind_result (firecracker_guest_ip E s (state_file dir ''firecracker-metadata.json'') (mc_host m)) (\<lambda>ip.
     bind_result (read_tail_lines (state_file dir ''firecracker-metrics.json'') 5 (mc_host m)) (\<lambda>tail.
       let api = (case p of RunningReady _ \<Rightarrow> Some (pe_answers E m (state_file dir ''firecracker.socket'')) | _ \<Rightarrow> None);
           (st, pid) = live_state_from_existing_process p api
       in Inr \<lparr> ls_state = st, ls_pid = pid, ls_ipv4 = ip, ls_metrics_tail = tail \<rparr>))))"


section \<open>The plan passes its own check\<close>

lemma not_index: "\<not> is_digit c \<Longrightarrow> c \<noteq> CHR ''+'' \<Longrightarrow> parse_nat_below b (c # cs) = None"
  by (simp add: parse_nat_below_def)

lemma index_zero: "0 < b \<Longrightarrow> parse_nat_below b ''0'' = Some 0"
  by (simp add: parse_nat_below_def digits_val_def digit_val_def is_digit_def)

lemma json_path_object: "\<not> is_digit c \<Longrightarrow> c \<noteq> CHR ''+'' \<Longrightarrow>
    json_path (JObject kvs) ((c # cs) # path) = Option.bind (map_of (rev kvs) (c # cs)) (\<lambda>w. json_path w path)"
  by (simp add: json_step_def json_get_def not_index)

lemma json_path_first: "json_path (JArray (v # vs)) (''0'' # path) = json_path v path"
  by (simp add: json_step_def index_zero)

lemma letters [simp]:
  "\<not> is_digit CHR ''a''" "\<not> is_digit CHR ''b''" "\<not> is_digit CHR ''d''" "\<not> is_digit CHR ''g''" "\<not> is_digit CHR ''h''" "\<not> is_digit CHR ''k''"
  "\<not> is_digit CHR ''m''" "\<not> is_digit CHR ''n''" "\<not> is_digit CHR ''p''" "\<not> is_digit CHR ''r''" "\<not> is_digit CHR ''t''" "\<not> is_digit CHR ''v''"
  by code_simp+

lemmas reads = json_path_object json_path_first json_get_def as_text_def as_u64_def as_bool_def

lemma all_ok_iff: "all_ok rs = Inr () \<longleftrightarrow> (\<forall>r\<in>set rs. r = Inr ())"
  by (induction rs) (auto simp: bind_result_def split: sum.splits)

lemma expect_string_ok: "expect_json_string v path x = Inr () \<longleftrightarrow> json_path v path = Some (JString x)"
  by (cases "json_path v path"; cases "the (json_path v path)") (auto simp: expect_json_string_def as_text_def)

lemma expect_bool_ok: "expect_json_bool v path x = Inr () \<longleftrightarrow> json_path v path = Some (JBool x)"
  by (cases "json_path v path"; cases "the (json_path v path)") (auto simp: expect_json_bool_def as_bool_def)

lemma expect_null_ok: "expect_json_null v path = Inr () \<longleftrightarrow> json_path v path = Some JNull"
  by (auto simp: expect_json_null_def split: option.splits)

lemma expect_u64_ok: "expect_json_u64 v path n = Inr () \<longleftrightarrow> (\<exists>t. json_path v path = Some (JNum t) \<and> parse_nat_below (2 ^ 64) t = Some n)"
  by (cases "json_path v path"; cases "the (json_path v path)") (auto simp: expect_json_u64_def as_u64_def split: option.splits)

lemma word_fits: "unat w < 2 ^ 64" if "LENGTH('a) \<le> 64" for w :: "'a::len word"
  using unsigned_less [of w] power_increasing [OF that, of "2 :: nat"] by (meson less_le_trans one_le_numeral)

lemma config_checks_pass: "all_ok (config_checks E s fc (firecracker_config_json E s fc dir)) = Inr ()"
proof -
  have "unat (vm_vcpu (as_vm s)) < 2 ^ 64" "unat (vm_memory_mib (as_vm s)) < 2 ^ 64" by (rule word_fits; simp)+
  then show ?thesis
    unfolding all_ok_iff config_checks_def
    by (simp add: expect_string_ok expect_bool_ok expect_u64_ok firecracker_config_json_def reads del: json_path.simps(2))
qed

lemma proxy_https_agrees: "proxy_port s = Inr port \<Longrightarrow> (case nw_proxy (as_network s) of Some p \<Rightarrow> np_enabled p | None \<Rightarrow> False) = (port \<noteq> None)"
  by (auto simp: proxy_port_def bind_result_Inr split: option.splits if_splits)

lemma proxy_port_fits: "proxy_port s = Inr (Some n) \<Longrightarrow> n < 2 ^ 64"
  by (auto simp: proxy_port_def bind_result_Inr parse_bind_port_def parse_nat_below_def Let_def split: option.splits if_splits prod.splits list.splits)

lemma metadata_checks_pass: "proxy_port s = Inr port \<Longrightarrow> all_ok (metadata_checks s fc (firecracker_metadata_json s fc port dir)) = Inr ()"
proof -
  assume p: "proxy_port s = Inr port"
  show ?thesis
    unfolding all_ok_iff metadata_checks_def proxy_https_agrees [OF p] p
    using p proxy_port_fits [of s]
    by (cases port) (simp_all add: expect_string_ok expect_bool_ok expect_u64_ok expect_null_ok firecracker_metadata_json_def reads del: json_path.simps(2))
qed

definition simple_name :: "str \<Rightarrow> bool" where
  "simple_name f \<longleftrightarrow> f \<notin> {[], ''.'', ''..''} \<and> CHR ''/'' \<notin> set f"

lemma join_simple: "simple_name f \<Longrightarrow> path_join (path_join dir ''state'') f = path_join dir ''state'' @ CHR ''/'' # f"
  by (auto simp: path_join_def simple_name_def prefix_def)

lemma components_join: "simple_name f \<Longrightarrow> components_of (state_file dir f) = components_of (path_join dir ''state'') @ [f]"
proof -
  assume f: "simple_name f"
  let ?b = "path_join dir ''state''"
  have ne: "?b \<noteq> []" "?b \<noteq> ''.''" "length ?b > 1" by (auto simp: path_join_def)
  have pp: "path_parts (?b @ CHR ''/'' # f) = path_parts ?b @ [f]" using f by (simp add: path_parts_append path_parts_one simple_name_def)
  have "prefix ''/'' (?b @ CHR ''/'' # f) = prefix ''/'' ?b" "prefix ''./'' (?b @ CHR ''/'' # f) = prefix ''./'' ?b" "?b @ CHR ''/'' # f \<noteq> ''.''"
    using ne by (auto simp: prefix_def append_eq_Cons_conv Cons_eq_append_conv)
  then show ?thesis using f ne pp by (simp add: state_file_def join_simple components_of_def)
qed

lemma state_path_passes:
  "simple_name f \<Longrightarrow> json_get k m = Some (JString (state_file dir f)) \<Longrightarrow> validate_state_path E (path_join dir ''state'') m k f = Inr ()"
  by (auto simp: validate_state_path_def as_text_def components_join component_name_def component_parent_def Let_def simple_name_def)

lemma state_checks_pass: "all_ok (state_checks E dir (firecracker_metadata_json s fc port dir)) = Inr ()"
proof -
  have "simple_name ''firecracker.socket''" "simple_name ''firecracker-config.json''" "simple_name ''firecracker.pid''" "simple_name ''firecracker.log''"
    "simple_name ''firecracker-metrics.json''" by code_simp+
  then show ?thesis
    unfolding all_ok_iff state_checks_def
    by (simp add: state_path_passes firecracker_metadata_json_def json_get_def)
qed

text \<open>The serializer and its parser undo each other on a value.\<close>

definition json_round_trips :: "provider_env \<Rightarrow> json \<Rightarrow> bool" where
  "json_round_trips E j \<longleftrightarrow> pe_parse E (pe_print E j) = Some j \<and> utf8 (pe_print E j)"

lemma read_back: "json_round_trips E j \<Longrightarrow> ch_files h p = Some (pe_print E j) \<Longrightarrow> read_json_file E p h = Inr j"
  by (simp add: json_round_trips_def read_json_file_def read_file_def)

lemma all_ok_append: "all_ok (as @ bs) = Inr () \<longleftrightarrow> all_ok as = Inr () \<and> all_ok bs = Inr ()"
  by (auto simp: all_ok_iff)

lemma plan_validates:
  assumes fc: "vm_firecracker (as_vm s) = Some fc" and port: "proxy_port s = Inr port"
    and rt: "json_round_trips E (firecracker_config_json E s fc dir)" "json_round_trips E (firecracker_metadata_json s fc port dir)"
    and c: "ch_files h (state_file dir ''firecracker-config.json'') = Some (pe_print E (firecracker_config_json E s fc dir))"
    and m: "ch_files h (state_file dir ''firecracker-metadata.json'') = Some (pe_print E (firecracker_metadata_json s fc port dir))"
  shows "validate_firecracker_plan_files E s dir h = Inr ()"
  by (simp add: validate_firecracker_plan_files_def fc read_back [OF rt(1) c] read_back [OF rt(2) m] all_ok_append
      config_checks_pass metadata_checks_pass [OF port] state_checks_pass)

lemma state_file_inj: "simple_name f \<Longrightarrow> simple_name g \<Longrightarrow> state_file dir f = state_file dir g \<longleftrightarrow> f = g"
  by (simp add: state_file_def join_simple)

lemma provider_names:
  "simple_name ''firecracker.socket''" "simple_name ''firecracker-config.json''" "simple_name ''firecracker.pid''" "simple_name ''firecracker.log''"
  "simple_name ''firecracker-metrics.json''" "simple_name ''firecracker-metadata.json''" "simple_name ''firecracker.stdout.log''" "simple_name ''firecracker.stderr.log''"
  by code_simp+

lemmas state_files = state_file_inj provider_names

lemma ensure_file_ok: "ce_writable (pe_chat E) p \<Longrightarrow>
    ensure_file E p h = Inr (h\<lparr>ch_files := (ch_files h)(p := (case ch_files h p of None \<Rightarrow> Some [] | Some c \<Rightarrow> Some c))\<rparr>)"
  by (cases "ch_files h p") (auto simp: ensure_file_def write_file_def fun_upd_idem)

lemma plan_files:
  assumes fc: "vm_firecracker (as_vm s) = Some fc" and port: "proxy_port s = Inr port"
    and rt: "json_round_trips E (firecracker_config_json E s fc dir)" "json_round_trips E (firecracker_metadata_json s fc port dir)"
    and w: "\<And>f. ce_writable (pe_chat E) (state_file dir f)"
  shows "\<exists>cmds h'. plan_launch E s dir h = Inr (cmds, h') \<and> validate_firecracker_plan_files E s dir h' = Inr () \<and>
    map pc_args cmds = [[''--api-sock'', state_file dir ''firecracker.socket'', ''--config-file'', state_file dir ''firecracker-config.json'']] \<and>
    ch_files h' (state_file dir ''firecracker-config.json'') = Some (pe_print E (firecracker_config_json E s fc dir)) \<and>
    ch_files h' (state_file dir ''firecracker.log'') = (case ch_files h (state_file dir ''firecracker.log'') of None \<Rightarrow> Some [] | Some c \<Rightarrow> Some c)"
proof -
  let ?c = "state_file dir ''firecracker-config.json''" and ?l = "state_file dir ''firecracker.log''" and ?x = "state_file dir ''firecracker-metrics.json''"
    and ?m = "state_file dir ''firecracker-metadata.json''"
  let ?keep = "\<lambda>h p. case ch_files h p of None \<Rightarrow> Some [] | Some c \<Rightarrow> Some c"
  define h3 where "h3 = h\<lparr>ch_files := (ch_files h)(?c := Some (pe_print E (firecracker_config_json E s fc dir)), ?l := ?keep h ?l, ?x := ?keep h ?x,
    ?m := Some (pe_print E (firecracker_metadata_json s fc port dir)))\<rparr>"
  have "validate_firecracker_plan_files E s dir h3 = Inr ()"
    by (rule plan_validates [OF fc port rt]) (simp_all add: h3_def state_files)
  moreover have "plan_launch E s dir h = bind_result (validate_firecracker_plan_files E s dir h3) (\<lambda>_.
      Inr ([\<lparr> pc_program = ''firecracker'', pc_args = [''--api-sock'', state_file dir ''firecracker.socket'', ''--config-file'', ?c],
        pc_description = ''Rust provider validates Firecracker prerequisites and starts this config'' \<rparr>], h3))"
    by (simp add: plan_launch_def fc port provider_write_def write_file_def w ensure_runtime_files_def ensure_file_ok h3_def state_files)
  ultimately show ?thesis by (simp add: h3_def state_files)
qed

section \<open>What a checked plan says\<close>

text \<open>The configuration of the machine, the metadata and the names it lives under, as the check reads them.\<close>

definition plan_agrees :: "provider_env \<Rightarrow> agent_description \<Rightarrow> firecracker_vm \<Rightarrow> json \<Rightarrow> json \<Rightarrow> bool" where
  "plan_agrees E s fc c m \<longleftrightarrow>
     json_path c [''boot-source'', ''kernel_image_path''] = Some (JString (absolute_or_cwd (pe_cwd E) (fc_kernel_image fc))) \<and>
     json_path c [''drives'', ''0'', ''path_on_host''] = Some (JString (absolute_or_cwd (pe_cwd E) (fc_rootfs_image fc))) \<and>
     Option.bind (json_path c [''machine-config'', ''vcpu_count'']) as_u64 = Some (unat (vm_vcpu (as_vm s))) \<and>
     Option.bind (json_path c [''machine-config'', ''mem_size_mib'']) as_u64 = Some (unat (vm_memory_mib (as_vm s))) \<and>
     json_path c [''network-interfaces'', ''0'', ''guest_mac''] = Some (JString (fc_guest_mac fc)) \<and>
     json_path c [''network-interfaces'', ''0'', ''host_dev_name''] = Some (JString (fc_tap_name fc)) \<and>
     json_path m [''agent_id''] = Some (JString (id_id (as_identity s))) \<and>
     json_path m [''guest_ip''] = Some (JString (fc_guest_ip fc)) \<and>
     (\<forall>n. proxy_port s = Inr (Some n) \<longrightarrow> Option.bind (json_path m [''proxy_port'']) as_u64 = Some n)"

lemma expect_u64_bind: "expect_json_u64 v path n = Inr () \<longleftrightarrow> Option.bind (json_path v path) as_u64 = Some n"
  by (auto simp: expect_json_u64_def split: option.splits)

lemma validated_agrees:
  assumes v: "validate_firecracker_plan_files E s dir h = Inr ()"
  obtains fc c m where "vm_firecracker (as_vm s) = Some fc" "read_json_file E (state_file dir ''firecracker-config.json'') h = Inr c"
    "read_json_file E (state_file dir ''firecracker-metadata.json'') h = Inr m" "plan_agrees E s fc c m"
proof -
  from v obtain fc where fc: "vm_firecracker (as_vm s) = Some fc" by (auto simp: validate_firecracker_plan_files_def split: option.splits)
  from v obtain c m where cm: "read_json_file E (state_file dir ''firecracker-config.json'') h = Inr c"
      "read_json_file E (state_file dir ''firecracker-metadata.json'') h = Inr m" "all_ok (config_checks E s fc c @ metadata_checks s fc m @ state_checks E dir m) = Inr ()"
    by (auto simp: validate_firecracker_plan_files_def fc bind_result_Inr)
  from cm(3) have "plan_agrees E s fc c m"
    unfolding all_ok_iff config_checks_def metadata_checks_def plan_agrees_def
    by (auto simp: expect_string_ok expect_bool_ok expect_u64_bind simp del: json_path.simps)
  then show ?thesis using that fc cm by blast
qed

section \<open>One machine per socket\<close>

definition serving :: "str \<Rightarrow> machine \<Rightarrow> u32 \<Rightarrow> bool" where
  "serving socket m pid \<longleftrightarrow> (\<exists>c. mc_procs m pid = Some (Vm socket c))"

text \<open>Every living machine of the socket is the one the process-id file names.\<close>

definition tracked :: "str \<Rightarrow> str \<Rightarrow> machine \<Rightarrow> bool" where
  "tracked socket pid_path m \<longleftrightarrow> (\<forall>pid. serving socket m pid \<longrightarrow> read_pid pid_path (mc_host m) = Inr (Some pid))"

definition idle :: "str \<Rightarrow> machine \<Rightarrow> bool" where
  "idle socket m \<longleftrightarrow> (\<forall>pid. \<not> serving socket m pid)"

text \<open>The kernel hands out a process id that is free and positive.\<close>

definition fresh_pids :: "provider_env \<Rightarrow> bool" where
  "fresh_pids E \<longleftrightarrow> (\<forall>m pid. pe_pid E m = Some pid \<longrightarrow> pid \<noteq> 0 \<and> mc_procs m pid = None)"

text \<open>Whoever operates on the agent may signal its machines.\<close>

definition owns :: "provider_env \<Rightarrow> str \<Rightarrow> bool" where
  "owns E socket \<longleftrightarrow> (\<forall>m pid. serving socket m pid \<longrightarrow> pe_signals E m pid)"

text \<open>With the process-id file writable.\<close>

definition sound_env :: "provider_env \<Rightarrow> str \<Rightarrow> str \<Rightarrow> bool" where
  "sound_env E socket pid_path \<longleftrightarrow> fresh_pids E \<and> owns E socket \<and> ce_writable (pe_chat E) pid_path"

lemma show_nat_plain: "c \<in> set (show_nat n) \<Longrightarrow> byte_in 48 57 c"
  using show_nat_digits [of n] by (auto simp: list_all_iff is_digit_def byte_in_def Let_def)

lemma utf8_show_nat: "utf8 (show_nat n)"
  by (rule ascii_utf8) (auto dest!: show_nat_plain simp: byte_in_def)

lemma trim_show_nat: "trim_text (show_nat n) = show_nat n"
proof -
  have a: "byte_in 0 127 c" "\<not> blank_char [c]" if "c \<in> set (show_nat n)" for c
    using show_nat_plain [OF that] by (auto simp: byte_in_def blank_char_def)
  have d: "dropWhile blank_char xs = xs" if "\<And>x. x \<in> set xs \<Longrightarrow> \<not> blank_char x" for xs
    using that by (cases xs) auto
  have "dropWhile blank_char (map (\<lambda>c. [c]) (show_nat n)) = map (\<lambda>c. [c]) (show_nat n)"
    "dropWhile blank_char (map (\<lambda>c. [c]) (rev (show_nat n))) = map (\<lambda>c. [c]) (rev (show_nat n))" using a(2) by (auto intro!: d)
  then show ?thesis using a(1) by (simp add: trim_text_def chars_ascii rev_map)
qed

lemma recorded_pid: "pid \<noteq> 0 \<Longrightarrow> ch_files h p = Some (show_nat (unat pid)) \<Longrightarrow> read_pid p h = Inr (Some pid)"
proof -
  assume a: "pid \<noteq> 0" "ch_files h p = Some (show_nat (unat pid))"
  have "unat pid < 2 ^ 32" using unsigned_less [of pid] by simp
  moreover have "unat pid \<noteq> 0" using a(1) by (simp add: unat_eq_0)
  ultimately show ?thesis
    using a show_nat_digits [of "unat pid"] by (simp add: read_pid_def read_file_def utf8_show_nat parse_provider_pid_def trim_show_nat)
qed

lemma idle_tracked: "idle socket m \<Longrightarrow> tracked socket pid_path m"
  by (simp add: idle_def tracked_def)

lemma tracked_idle: "tracked socket pid_path m \<Longrightarrow> read_pid pid_path (mc_host m) = Inr None \<Longrightarrow> idle socket m"
  by (auto simp: idle_def tracked_def)

lemma tracked_dead: "owns E socket \<Longrightarrow> tracked socket pid_path m \<Longrightarrow> read_pid pid_path (mc_host m) = Inr (Some pid) \<Longrightarrow> \<not> process_running E pid m \<Longrightarrow> idle socket m"
  by (auto simp: idle_def tracked_def process_running_def serving_def owns_def)

lemma drop_file_procs [simp]: "mc_procs (drop_file E p m) = mc_procs m" "mc_sockets (drop_file E p m) = mc_sockets m"
  by (simp_all add: drop_file_def)

lemma remove_socket_frame: "remove_socket_if_present E socket m = (e, m') \<Longrightarrow> mc_procs m' = mc_procs m \<and> mc_host m' = mc_host m"
  by (auto simp: remove_socket_if_present_def split: if_splits)

lemma put_file_frame: "put_machine_file E p c m = (e, m') \<Longrightarrow> mc_procs m' = mc_procs m \<and> mc_sockets m' = mc_sockets m"
  by (auto simp: put_machine_file_def split: sum.splits)

lemma check_frame: "check_step r m = (e, m') \<Longrightarrow> m' = m"
  by (auto simp: check_step_def split: sum.splits)

lemma then_step_cases: "then_step f g m = (e, m') \<Longrightarrow> (\<exists>x. f m = (Some x, m') \<and> e = Some x) \<or> (\<exists>m1. f m = (None, m1) \<and> g m1 = (e, m'))"
  by (auto simp: then_step_def split: prod.splits option.splits)

lemma idle_frame: "mc_procs m' = mc_procs m \<Longrightarrow> idle socket m' = idle socket m"
  by (simp add: idle_def serving_def)

text \<open>A new machine: on success it alone serves the socket, recorded and answering; on failure none does.\<close>

lemma spawn_result:
  assumes sound: "sound_env E socket pid_path" and idle: "idle socket m" and run: "spawn_firecracker E socket config pid_path m = (e, m')"
  shows "case e of
      None \<Rightarrow> (\<exists>pid. serving socket m' pid \<and> read_pid pid_path (mc_host m') = Inr (Some pid) \<and> (\<forall>q. serving socket m' q \<longrightarrow> q = pid)) \<and> mc_sockets m' socket
    | Some _ \<Rightarrow> idle socket m'"
proof (cases "pe_pid E m")
  case None
  then show ?thesis using run idle by (auto simp: spawn_firecracker_def)
next
  case (Some pid)
  then have fresh: "pid \<noteq> 0" "mc_procs m pid = None" and w: "ce_writable (pe_chat E) pid_path" using sound by (auto simp: sound_env_def fresh_pids_def)
  have others: "mc_procs m q \<noteq> Some (Vm socket c)" for q c using idle by (auto simp: idle_def serving_def)
  show ?thesis
  proof (cases "wait_firecracker_api_ready (pe_polls E m socket)")
    case True
    with run have "e = None" "m' = m\<lparr>mc_procs := (mc_procs m)(pid \<mapsto> Vm socket (ch_files (mc_host m) config)), mc_sockets := (mc_sockets m)(socket := True),
        mc_host := (mc_host m)\<lparr>ch_files := (ch_files (mc_host m))(pid_path \<mapsto> show_nat (unat pid))\<rparr>\<rparr>"
      by (auto simp: spawn_firecracker_def Some put_machine_file_def write_file_def w)
    then show ?thesis using fresh others recorded_pid [of pid "mc_host m'" pid_path] by (auto simp: serving_def split: if_splits)
  next
    case False
    with run have "e = Some ApiNeverReady" "mc_procs m' = (mc_procs m)(pid := None)"
      by (auto simp: spawn_firecracker_def Some put_machine_file_def write_file_def w remove_socket_if_present_def Let_def split: if_splits)
    then show ?thesis using others by (auto simp: idle_def serving_def)
  qed
qed

lemma then_step_procs:
  assumes "then_step f g m = (e, m')" "\<And>x m1. f m = (x, m1) \<Longrightarrow> mc_procs m1 = mc_procs m"
  obtains x where "e = Some x" "mc_procs m' = mc_procs m" | m1 where "g m1 = (e, m')" "mc_procs m1 = mc_procs m"
  using then_step_cases [OF assms(1)] assms(2) by blast

lemma launch_result:
  assumes sound: "sound_env E socket pid_path" and idle: "idle socket m" and run: "launch_firecracker E tap socket config pid_path out_log err_log m = (e, m')"
  shows "case e of
      None \<Rightarrow> (\<exists>pid. serving socket m' pid \<and> read_pid pid_path (mc_host m') = Inr (Some pid) \<and> (\<forall>q. serving socket m' q \<longrightarrow> q = pid)) \<and> mc_sockets m' socket
    | Some _ \<Rightarrow> idle socket m'"
proof -
  from run consider (fail) x where "e = Some x" "mc_procs m' = mc_procs m"
    | (spawn) m1 where "spawn_firecracker E socket config pid_path m1 = (e, m')" "mc_procs m1 = mc_procs m"
    unfolding launch_firecracker_def
  proof (rule then_step_procs)
    fix m1 assume s: "then_step (check_step (ensure_tap_exists E tap)) (then_step (put_machine_file E out_log []) (then_step (put_machine_file E err_log [])
      (spawn_firecracker E socket config pid_path))) m1 = (e, m')" and p1: "mc_procs m1 = mc_procs m"
    from s show thesis
    proof (rule then_step_procs)
      fix m2 assume s2: "then_step (put_machine_file E out_log []) (then_step (put_machine_file E err_log []) (spawn_firecracker E socket config pid_path)) m2 = (e, m')"
        and p2: "mc_procs m2 = mc_procs m1"
      from s2 show thesis
      proof (rule then_step_procs)
        fix m3 assume s3: "then_step (put_machine_file E err_log []) (spawn_firecracker E socket config pid_path) m3 = (e, m')" and p3: "mc_procs m3 = mc_procs m2"
        from s3 show thesis by (rule then_step_procs) (use p1 p2 p3 fail spawn in \<open>auto dest: put_file_frame\<close>)
      qed (use p1 p2 fail in \<open>auto dest: put_file_frame\<close>)
    qed (use p1 fail in \<open>auto dest: check_frame\<close>)
  qed (use fail run in \<open>auto dest: remove_socket_frame\<close>)
  then show ?thesis
  proof cases
    case fail
    then show ?thesis using idle idle_frame [OF fail(2), of socket] by simp
  next
    case spawn
    then have "idle socket m1" using idle idle_frame [OF spawn(2), of socket] by simp
    then show ?thesis using spawn_result [OF sound _ spawn(1)] by blast
  qed
qed

lemma inspect_cases:
  assumes "inspect_existing_firecracker_process E pid_path socket m = Inr p"
  shows "case p of
      RunningReady pid \<Rightarrow> read_pid pid_path (mc_host m) = Inr (Some pid) \<and> process_running E pid m \<and> mc_sockets m socket
    | RunningMissingSocket pid \<Rightarrow> read_pid pid_path (mc_host m) = Inr (Some pid) \<and> process_running E pid m \<and> \<not> mc_sockets m socket
    | StaleProcess pid \<Rightarrow> read_pid pid_path (mc_host m) = Inr (Some pid) \<and> \<not> process_running E pid m
    | StaleSocket \<Rightarrow> read_pid pid_path (mc_host m) = Inr None \<and> mc_sockets m socket \<and> \<not> pe_answers E m socket
    | UntrackedReadySocket \<Rightarrow> read_pid pid_path (mc_host m) = Inr None \<and> mc_sockets m socket \<and> pe_answers E m socket
    | NoProcess \<Rightarrow> read_pid pid_path (mc_host m) = Inr None \<and> \<not> mc_sockets m socket"
proof -
  from assms obtain r where r: "read_pid pid_path (mc_host m) = Inr r" by (auto simp: inspect_existing_firecracker_process_def bind_result_Inr)
  show ?thesis
  proof (cases r)
    case None
    then have "p = classify_existing_firecracker_process None None (mc_sockets m socket) (if mc_sockets m socket then Some (pe_answers E m socket) else None)"
      using assms by (simp add: inspect_existing_firecracker_process_def r)
    then show ?thesis using r None by (cases "mc_sockets m socket"; cases "pe_answers E m socket") simp_all
  next
    case (Some pid)
    then have "p = classify_existing_firecracker_process (Some pid) (Some (process_running E pid m)) (mc_sockets m socket) None"
      using assms by (simp add: inspect_existing_firecracker_process_def r)
    then show ?thesis using r Some by (cases "mc_sockets m socket"; cases "process_running E pid m") simp_all
  qed
qed

text \<open>A start: it leaves what runs alone, or replaces a dead record with one recorded machine, or fails with none alive.\<close>

lemma start_result:
  assumes sound: "sound_env E socket pid_path" and inv: "tracked socket pid_path m"
    and run: "start_firecracker_process E tap socket config pid_path out_log err_log m = (e, m')"
  shows "tracked socket pid_path m' \<and> (e = None \<longrightarrow> mc_sockets m' socket \<and> (\<exists>pid. read_pid pid_path (mc_host m') = Inr (Some pid) \<and> process_running E pid m'))"
proof (cases "ch_files (mc_host m) config = None \<or> (\<exists>x. inspect_existing_firecracker_process E pid_path socket m = Inl x)")
  case True
  then show ?thesis using run inv by (auto simp: start_firecracker_process_def split: if_splits)
next
  case False
  then obtain p where p: "inspect_existing_firecracker_process E pid_path socket m = Inr p" by (cases "inspect_existing_firecracker_process E pid_path socket m") auto
  note seen = inspect_cases [OF p]
  have owned: "serving socket k q \<Longrightarrow> mc_procs k q \<noteq> None \<and> pe_signals E k q" for k q
    using sound by (auto simp: sound_env_def owns_def serving_def)
  have launch: ?thesis if quiet: "idle socket m0" and ran: "launch_firecracker E tap socket config pid_path out_log err_log m0 = (e, m')" for m0
  proof (cases e)
    case None
    then have "\<exists>pid. serving socket m' pid \<and> read_pid pid_path (mc_host m') = Inr (Some pid) \<and> (\<forall>q. serving socket m' q \<longrightarrow> q = pid)" and socket: "mc_sockets m' socket"
      using launch_result [OF sound quiet ran] by simp_all
    then obtain pid where pid: "serving socket m' pid" "read_pid pid_path (mc_host m') = Inr (Some pid)" "\<And>q. serving socket m' q \<Longrightarrow> q = pid" by blast
    then have "tracked socket pid_path m'" unfolding tracked_def by metis
    moreover have "process_running E pid m'" using owned [OF pid(1)] by (simp add: process_running_def)
    ultimately show ?thesis using pid(2) socket by blast
  next
    case (Some x)
    then show ?thesis using launch_result [OF sound quiet ran] idle_tracked by simp
  qed
  have drop: "idle socket (drop_file E pid_path m) = idle socket m" by (simp add: idle_def serving_def)
  show ?thesis
  proof (cases p)
    case (RunningReady pid)
    then show ?thesis using run False inv seen by (auto simp: start_firecracker_process_def p split: if_splits)
  next
    case (StaleProcess pid)
    then have "idle socket m" using seen inv tracked_dead sound by (auto simp: sound_env_def)
    then show ?thesis using launch drop run False StaleProcess by (auto simp: start_firecracker_process_def p split: if_splits)
  next
    case StaleSocket
    then have "idle socket m" using seen inv tracked_idle by auto
    then show ?thesis using launch run False StaleSocket by (auto simp: start_firecracker_process_def p split: if_splits)
  next
    case NoProcess
    then have "idle socket m" using seen inv tracked_idle by auto
    then show ?thesis using launch run False NoProcess by (auto simp: start_firecracker_process_def p split: if_splits)
  qed (use run False inv in \<open>auto simp: start_firecracker_process_def p split: if_splits\<close>)
qed

lemma end_process_frame:
  assumes "end_process E pid m = (e, m')"
  shows "mc_host m' = mc_host m \<and> mc_sockets m' = mc_sockets m \<and> (e = None \<longrightarrow> mc_procs m' = (mc_procs m)(pid := None)) \<and> (e \<noteq> None \<longrightarrow> mc_procs m' = mc_procs m)"
  using assms by (auto simp: end_process_def signal_and_wait_def split: if_splits)

lemma forget_frame: "forget_process E pid_path socket m = (e, m') \<Longrightarrow> mc_procs m' = mc_procs m"
  by (auto simp: forget_process_def dest!: remove_socket_frame)

lemma forget_clears:
  "forget_process E pid_path socket m = (None, m') \<Longrightarrow> pe_removable E pid_path \<Longrightarrow> ch_files (mc_host m') pid_path = None \<and> \<not> mc_sockets m' socket"
  by (auto simp: forget_process_def remove_socket_if_present_def drop_file_def split: if_splits)

lemma stop_result:
  assumes owns: "owns E socket" and inv: "tracked socket pid_path m" and run: "stop_running_firecracker E pid_path socket m = (e, m')"
  shows "tracked socket pid_path m' \<and> (e = None \<longrightarrow> idle socket m' \<and> (pe_removable E pid_path \<longrightarrow> read_pid pid_path (mc_host m') = Inr None \<and> \<not> mc_sockets m' socket))
    \<and> (\<forall>q. mc_procs m' q = mc_procs m q \<or> read_pid pid_path (mc_host m) = Inr (Some q) \<and> mc_procs m' q = None)"
proof (cases "inspect_existing_firecracker_process E pid_path socket m")
  case (Inl x)
  then show ?thesis using run inv by (auto simp: stop_running_firecracker_def)
next
  case (Inr p)
  note seen = inspect_cases [OF Inr]
  have gone: ?thesis if pid: "read_pid pid_path (mc_host m) = Inr (Some pid)"
    and r: "then_step (end_process E pid) (forget_process E pid_path socket) m = (e, m')" for pid
    using then_step_cases [OF r]
  proof (elim disjE exE conjE)
    fix x assume "end_process E pid m = (Some x, m')" "e = Some x"
    then show ?thesis using end_process_frame [of E pid m "Some x" m'] inv by (auto simp: tracked_def serving_def)
  next
    fix m1 assume a: "end_process E pid m = (None, m1)" "forget_process E pid_path socket m1 = (e, m')"
    then have p1: "mc_procs m' = (mc_procs m)(pid := None)" using end_process_frame forget_frame by metis
    then have "idle socket m'" using inv pid by (auto simp: idle_def tracked_def serving_def)
    then show ?thesis using p1 pid idle_tracked a(2) forget_clears [of E pid_path socket m1 m'] by (auto simp: read_pid_def)
  qed
  have quiet: ?thesis if "idle socket m" "forget_process E pid_path socket m = (e, m')"
    using that forget_frame [OF that(2)] idle_frame [of m' m socket] idle_tracked forget_clears [of E pid_path socket m m'] by (auto simp: read_pid_def)
  show ?thesis
  proof (cases p)
    case (RunningReady pid)
    then show ?thesis using seen run gone by (auto simp: stop_running_firecracker_def Inr)
  next
    case (RunningMissingSocket pid)
    then show ?thesis using seen run gone by (auto simp: stop_running_firecracker_def Inr)
  next
    case (StaleProcess pid)
    then show ?thesis using seen run quiet tracked_dead [OF owns inv] by (auto simp: stop_running_firecracker_def Inr)
  next
    case StaleSocket
    then have i: "idle socket m" and r: "remove_socket_if_present E socket m = (e, m')" using seen inv run tracked_idle by (auto simp: stop_running_firecracker_def Inr)
    then have "idle socket m'" using remove_socket_frame [OF r] idle_frame by blast
    then show ?thesis using remove_socket_frame [OF r] idle_tracked seen StaleSocket r by (auto simp: remove_socket_if_present_def split: if_splits)
  next
    case NoProcess
    then show ?thesis using seen run inv tracked_idle by (auto simp: stop_running_firecracker_def Inr)
  qed (use run inv in \<open>auto simp: stop_running_firecracker_def Inr\<close>)
qed

text \<open>
  What can happen to an agent's machine: the two operations, one at a time, by users that may signal it and can write the
  process-id file, and what the host does by itself.
\<close>

inductive vm_step :: "str \<Rightarrow> str \<Rightarrow> machine \<Rightarrow> machine \<Rightarrow> bool" for socket pid_path where
  Started: "sound_env E socket pid_path \<Longrightarrow> start_firecracker_process E tap socket config pid_path out_log err_log m = (e, m') \<Longrightarrow> vm_step socket pid_path m m'"
| Stopped: "owns E socket \<Longrightarrow> stop_running_firecracker E pid_path socket m = (e, m') \<Longrightarrow> vm_step socket pid_path m m'"
| Exited: "vm_step socket pid_path m (m\<lparr>mc_procs := (mc_procs m)(pid := None)\<rparr>)"
| Rebooted: "vm_step socket pid_path m (m\<lparr>mc_procs := (\<lambda>_. None)\<rparr>)"
| Forked: "mc_procs m pid = None \<Longrightarrow> \<forall>c. x \<noteq> Vm socket c \<Longrightarrow> vm_step socket pid_path m (m\<lparr>mc_procs := (mc_procs m)(pid \<mapsto> x)\<rparr>)"
| SocketLost: "vm_step socket pid_path m (m\<lparr>mc_sockets := (mc_sockets m)(socket := False)\<rparr>)"
| FileChanged: "p \<noteq> pid_path \<Longrightarrow> vm_step socket pid_path m (m\<lparr>mc_host := (mc_host m)\<lparr>ch_files := (ch_files (mc_host m))(p := c)\<rparr>\<rparr>)"

lemma vm_step_tracked: "vm_step socket pid_path m m' \<Longrightarrow> tracked socket pid_path m \<Longrightarrow> tracked socket pid_path m'"
proof (induction rule: vm_step.induct)
  case (Started E tap config out_log err_log m e m')
  then show ?case using start_result by blast
next
  case (Stopped E m e m')
  then show ?case using stop_result by blast
qed (auto simp: tracked_def serving_def read_pid_def read_file_def)

lemma reachable_tracked: "(vm_step socket pid_path)\<^sup>*\<^sup>* m0 m \<Longrightarrow> idle socket m0 \<Longrightarrow> tracked socket pid_path m"
  by (induction rule: rtranclp_induct) (auto intro: idle_tracked vm_step_tracked)

text \<open>
  C28. However an agent is launched, stopped, crashed and relaunched, in any order, at most
  one virtual machine serves its socket, and it is the one its process-id file names. The operations come one at a time (two
  launches at once can both find no machine, \<open>second_spawn_doubles\<close>), each by a user that may signal the agent's machine, and the
  process-id file can be written when one is started (otherwise the machine is left unrecorded, \<open>unwritable_pid_leaks\<close>); nothing
  but the operations writes the process-id file or starts a machine on the socket.
\<close>

theorem one_vm_per_socket:
  assumes "(vm_step socket pid_path)\<^sup>*\<^sup>* m0 m" and "idle socket m0" and "serving socket m p" and "serving socket m q"
  shows "p = q \<and> read_pid pid_path (mc_host m) = Inr (Some p)"
  using reachable_tracked [OF assms(1,2)] assms(3,4) unfolding tracked_def by (metis option.inject sum.inject(2))

text \<open>
  Why the conditions: a start whose process-id file cannot be written fails and leaves its machine running, unrecorded; and
  a start that spawns after another one did leaves two machines on the socket.
\<close>

lemma unwritable_pid_leaks:
  assumes "pe_pid E m = Some pid" and "\<not> ce_writable (pe_chat E) pid_path"
  shows "\<exists>e m'. spawn_firecracker E socket config pid_path m = (Some e, m') \<and> serving socket m' pid \<and>
    read_pid pid_path (mc_host m') = read_pid pid_path (mc_host m)"
  using assms by (simp add: spawn_firecracker_def put_machine_file_def write_file_def serving_def Let_def)

lemma second_spawn_doubles:
  assumes "serving socket m p" and "pe_pid E m = Some pid" and "fresh_pids E" and "ce_writable (pe_chat E) pid_path"
    and "wait_firecracker_api_ready (pe_polls E m socket)"
  shows "\<exists>m'. spawn_firecracker E socket config pid_path m = (None, m') \<and> serving socket m' p \<and> serving socket m' pid \<and> p \<noteq> pid"
  using assms by (auto simp: spawn_firecracker_def put_machine_file_def write_file_def serving_def fresh_pids_def Let_def)

section \<open>A launch\<close>

definition same_elsewhere :: "str set \<Rightarrow> machine \<Rightarrow> machine \<Rightarrow> bool" where
  "same_elsewhere X m m' \<longleftrightarrow> (\<forall>p. p \<notin> X \<longrightarrow> ch_files (mc_host m') p = ch_files (mc_host m) p)"

lemma same_refl: "same_elsewhere X m m"
  by (simp add: same_elsewhere_def)

lemma same_trans: "same_elsewhere X m m1 \<Longrightarrow> same_elsewhere X m1 m' \<Longrightarrow> same_elsewhere X m m'"
  by (simp add: same_elsewhere_def)

lemma same_hosts: "mc_host m1 = mc_host m \<Longrightarrow> same_elsewhere X m m1"
  by (simp add: same_elsewhere_def)

lemma then_step_same:
  assumes "then_step f g m = (e, m')" "\<And>x m1. f m = (x, m1) \<Longrightarrow> same_elsewhere X m m1" "\<And>x m1 m2. g m1 = (x, m2) \<Longrightarrow> same_elsewhere X m1 m2"
  shows "same_elsewhere X m m'"
  using then_step_cases [OF assms(1)] assms(2,3) same_trans by metis

lemma put_file_same: "put_machine_file E p c m = (e, m') \<Longrightarrow> p \<in> X \<Longrightarrow> same_elsewhere X m m'"
  by (auto simp: put_machine_file_def write_file_def same_elsewhere_def split: if_splits)

lemma drop_file_same: "p \<in> X \<Longrightarrow> same_elsewhere X m (drop_file E p m)"
  by (auto simp: drop_file_def same_elsewhere_def)

lemma remove_socket_same: "remove_socket_if_present E socket m = (e, m') \<Longrightarrow> same_elsewhere X m m'"
  using remove_socket_frame same_hosts by blast

lemma spawn_same:
  assumes run: "spawn_firecracker E socket config pid_path m = (e, m')" and X: "pid_path \<in> X"
  shows "same_elsewhere X m m'"
proof (cases "pe_pid E m")
  case None
  then show ?thesis using run same_refl by (auto simp: spawn_firecracker_def)
next
  case (Some pid)
  let ?m1 = "m\<lparr>mc_procs := (mc_procs m)(pid \<mapsto> Vm socket (ch_files (mc_host m) config)), mc_sockets := (mc_sockets m)(socket := wait_firecracker_api_ready (pe_polls E m socket) \<or> pe_binds E)\<rparr>"
  obtain e1 m2 where p: "put_machine_file E pid_path (show_nat (unat pid)) ?m1 = (e1, m2)" by fastforce
  have s2: "same_elsewhere X m m2" using put_file_same [OF p X] by (simp add: same_elsewhere_def)
  let ?m3 = "drop_file E pid_path (m2\<lparr>mc_procs := (mc_procs m2)(pid := None)\<rparr>)"
  have "same_elsewhere X m ?m3" using s2 drop_file_same [OF X, of "m2\<lparr>mc_procs := (mc_procs m2)(pid := None)\<rparr>" E] by (simp add: same_elsewhere_def)
  moreover obtain e4 m4 where r: "remove_socket_if_present E socket ?m3 = (e4, m4)" by fastforce
  ultimately have "same_elsewhere X m (snd (remove_socket_if_present E socket ?m3))" using remove_socket_same [OF r, of X] same_trans by (metis snd_conv)
  then show ?thesis using run s2 p by (auto simp: spawn_firecracker_def Some Let_def split: option.splits if_splits)
qed

lemma launch_same:
  assumes "launch_firecracker E tap socket config pid_path out_log err_log m = (e, m')" "{pid_path, out_log, err_log} \<subseteq> X"
  shows "same_elsewhere X m m'"
  using assms(1) unfolding launch_firecracker_def
proof (rule then_step_same)
  fix x m1 m2 assume "then_step (check_step (ensure_tap_exists E tap)) (then_step (put_machine_file E out_log []) (then_step (put_machine_file E err_log [])
      (spawn_firecracker E socket config pid_path))) m1 = (x, m2)"
  then show "same_elsewhere X m1 m2"
  proof (rule then_step_same)
    fix x m1 m2 assume "then_step (put_machine_file E out_log []) (then_step (put_machine_file E err_log []) (spawn_firecracker E socket config pid_path)) m1 = (x, m2)"
    then show "same_elsewhere X m1 m2"
    proof (rule then_step_same)
      fix x m1 m2 assume "then_step (put_machine_file E err_log []) (spawn_firecracker E socket config pid_path) m1 = (x, m2)"
      then show "same_elsewhere X m1 m2" by (rule then_step_same) (use assms(2) put_file_same spawn_same in auto)
    qed (use assms(2) put_file_same in auto)
  qed (use check_frame same_refl in blast)
qed (use remove_socket_same in blast)

lemma start_same:
  assumes run: "start_firecracker_process E tap socket config pid_path out_log err_log m = (e, m')" and X: "{pid_path, out_log, err_log} \<subseteq> X"
  shows "same_elsewhere X m m'"
proof -
  consider "m' = m" | "launch_firecracker E tap socket config pid_path out_log err_log m = (e, m')"
    | "launch_firecracker E tap socket config pid_path out_log err_log (drop_file E pid_path m) = (e, m')"
  proof (cases "ch_files (mc_host m) config = None")
    case False
    then show thesis
    proof (cases "inspect_existing_firecracker_process E pid_path socket m")
      case (Inr p)
      then show thesis using that run False by (cases p) (auto simp: start_firecracker_process_def split: if_splits)
    qed (use that run False in \<open>auto simp: start_firecracker_process_def\<close>)
  qed (use that run in \<open>auto simp: start_firecracker_process_def\<close>)
  then show ?thesis
  proof cases
    case 1
    then show ?thesis by (simp add: same_refl)
  next
    case 2
    then show ?thesis by (rule launch_same) (rule X)
  next
    case 3
    then show ?thesis using launch_same [OF 3 X] drop_file_same [of pid_path X m E] X same_trans by blast
  qed
qed

lemma read_json_same: "ch_files h' p = ch_files h p \<Longrightarrow> read_json_file E p h' = read_json_file E p h"
  by (simp add: read_json_file_def read_file_def)

lemma ensure_file_same: "ensure_file E p h = Inr h' \<Longrightarrow> q \<noteq> p \<Longrightarrow> ch_files h' q = ch_files h q"
  by (auto simp: ensure_file_def write_file_def split: if_splits)

lemma runtime_files_same: "ensure_runtime_files E a b h = Inr h' \<Longrightarrow> q \<noteq> a \<Longrightarrow> q \<noteq> b \<Longrightarrow> ch_files h' q = ch_files h q"
  by (auto simp: ensure_runtime_files_def bind_result_Inr dest!: ensure_file_same)

lemma read_pid_same: "ch_files h' p = ch_files h p \<Longrightarrow> read_pid p h' = read_pid p h"
  by (simp add: read_pid_def read_file_def)

text \<open>The steps of a successful launch.\<close>

lemma provider_launch_steps:
  assumes "provider_launch E s dir m = (None, m')" and fc: "vm_firecracker (as_vm s) = Some fc"
  obtains h where "validate_firecracker_plan_files E s dir (mc_host m) = Inr ()"
    "validate_firecracker_prerequisites E (fc_tap_name fc) (absolute_or_cwd (pe_cwd E) (fc_kernel_image fc)) (absolute_or_cwd (pe_cwd E) (fc_rootfs_image fc)) (mc_host m) = Inr ()"
    "ensure_runtime_files E (state_file dir ''firecracker.log'') (state_file dir ''firecracker-metrics.json'') (mc_host m) = Inr h"
    "start_firecracker_process E (fc_tap_name fc) (state_file dir ''firecracker.socket'') (state_file dir ''firecracker-config.json'')
       (state_file dir ''firecracker.pid'') (state_file dir ''firecracker.stdout.log'') (state_file dir ''firecracker.stderr.log'') (m\<lparr>mc_host := h\<rparr>) = (None, m')"
  using assms(1) by (auto simp: provider_launch_def fc then_step_def check_step_def split: sum.splits prod.splits option.splits)

lemma prerequisites_hold:
  assumes "validate_firecracker_prerequisites E tap kernel_image rootfs_image h = Inr ()"
  shows "ensure_kvm_ready (pe_kvm E) = Inr () \<and> ensure_elf_file kernel_image h = Inr () \<and> ensure_regular_file rootfs_image ''rootfs image'' h = Inr () \<and> ensure_tap_exists E tap = Inr ()"
  using assms unfolding validate_firecracker_prerequisites_def all_ok_iff by simp

text \<open>A start that succeeds found the recorded process alive and changed no process, or spawned the machine itself.\<close>

lemma spawn_started:
  assumes "spawn_firecracker E socket config pid_path m = (None, m')" and "fresh_pids E"
  shows "\<exists>pid. mc_procs m pid = None \<and> mc_procs m' = (mc_procs m)(pid \<mapsto> Vm socket (ch_files (mc_host m) config)) \<and>
    read_pid pid_path (mc_host m') = Inr (Some pid) \<and> mc_sockets m' socket"
proof -
  obtain pid where pid: "pe_pid E m = Some pid" using assms(1) by (cases "pe_pid E m") (auto simp: spawn_firecracker_def)
  with assms have ok: "pid \<noteq> 0" "mc_procs m pid = None" "wait_firecracker_api_ready (pe_polls E m socket)" "ce_writable (pe_chat E) pid_path"
    by (auto simp: spawn_firecracker_def Let_def put_machine_file_def write_file_def fresh_pids_def split: if_splits)
  then have m': "m' = m\<lparr>mc_procs := (mc_procs m)(pid \<mapsto> Vm socket (ch_files (mc_host m) config)), mc_sockets := (mc_sockets m)(socket := True),
      mc_host := (mc_host m)\<lparr>ch_files := (ch_files (mc_host m))(pid_path \<mapsto> show_nat (unat pid))\<rparr>\<rparr>"
    using assms(1) pid by (simp add: spawn_firecracker_def put_machine_file_def write_file_def)
  then have "read_pid pid_path (mc_host m') = Inr (Some pid)" using recorded_pid [OF ok(1)] by simp
  then show ?thesis using ok(2) m' by auto
qed

lemma launch_started:
  assumes "launch_firecracker E tap socket config pid_path out_log err_log m = (None, m')" and "fresh_pids E"
    and "config \<notin> {pid_path, out_log, err_log}"
  shows "\<exists>pid. mc_procs m pid = None \<and> mc_procs m' = (mc_procs m)(pid \<mapsto> Vm socket (ch_files (mc_host m) config)) \<and>
    read_pid pid_path (mc_host m') = Inr (Some pid) \<and> mc_sockets m' socket"
proof -
  from assms(1) obtain m1 m2 m3 where r: "remove_socket_if_present E socket m = (None, m1)" "put_machine_file E out_log [] m1 = (None, m2)"
      "put_machine_file E err_log [] m2 = (None, m3)" "spawn_firecracker E socket config pid_path m3 = (None, m')"
    by (auto simp: launch_firecracker_def then_step_def check_step_def split: prod.splits option.splits sum.splits)
  have "mc_procs m3 = mc_procs m" "ch_files (mc_host m3) config = ch_files (mc_host m) config"
    using r(1-3) assms(3) by (auto simp: remove_socket_if_present_def put_machine_file_def write_file_def split: if_splits)
  with spawn_started [OF r(4) assms(2)] show ?thesis by simp
qed

lemma start_started:
  assumes "start_firecracker_process E tap socket config pid_path out_log err_log m = (None, m')" and "fresh_pids E"
    and "config \<notin> {pid_path, out_log, err_log}"
  shows "(m' = m \<and> (\<exists>pid. read_pid pid_path (mc_host m) = Inr (Some pid) \<and> process_running E pid m) \<and> mc_sockets m socket) \<or>
    (\<exists>pid. mc_procs m pid = None \<and> mc_procs m' = (mc_procs m)(pid \<mapsto> Vm socket (ch_files (mc_host m) config)) \<and>
      read_pid pid_path (mc_host m') = Inr (Some pid) \<and> mc_sockets m' socket)"
proof -
  obtain p where p: "inspect_existing_firecracker_process E pid_path socket m = Inr p"
    using assms(1) by (cases "inspect_existing_firecracker_process E pid_path socket m") (auto simp: start_firecracker_process_def split: if_splits)
  have d: "mc_procs (drop_file E pid_path m) = mc_procs m" "ch_files (mc_host (drop_file E pid_path m)) config = ch_files (mc_host m) config"
    using assms(3) by (auto simp: drop_file_def)
  consider (ready) pid where "p = RunningReady pid" "m' = m"
    | (fresh) m0 where "m0 \<in> {m, drop_file E pid_path m}" "launch_firecracker E tap socket config pid_path out_log err_log m0 = (None, m')"
    using assms(1) p by (cases p) (auto simp: start_firecracker_process_def split: if_splits)
  then show ?thesis
  proof cases
    case ready
    then show ?thesis using inspect_cases [OF p] by auto
  next
    case fresh
    then show ?thesis using launch_started [OF fresh(2) assms(2,3)] d by auto
  qed
qed

text \<open>
  C29. A launch that succeeds checked that the configuration on disk names the kernel, root image, processors, memory, MAC address
  and tap of the agent's specification, with the tap up and the kernel an ELF file. Then either it found the recorded process alive (and
  signallable) with the agent's socket in place, and started nothing: what runs may have been started from an older
  configuration. Or it started exactly one machine, on the agent's socket and from exactly the text that was checked, recorded
  it in the process-id file, and its API answered. The kernel gives free process ids, and no other process acts during the launch.
\<close>

theorem launch_as_specified:
  assumes run: "provider_launch E s dir m = (None, m')" and fresh: "fresh_pids E"
  shows "\<exists>fc t c md. vm_firecracker (as_vm s) = Some fc \<and> ch_files (mc_host m) (state_file dir ''firecracker-config.json'') = Some t \<and>
    pe_parse E t = Some c \<and> read_json_file E (state_file dir ''firecracker-metadata.json'') (mc_host m) = Inr md \<and> plan_agrees E s fc c md \<and>
    ensure_tap_exists E (fc_tap_name fc) = Inr () \<and> ensure_elf_file (absolute_or_cwd (pe_cwd E) (fc_kernel_image fc)) (mc_host m) = Inr () \<and>
    mc_sockets m' (state_file dir ''firecracker.socket'') \<and>
    (\<exists>pid. read_pid (state_file dir ''firecracker.pid'') (mc_host m') = Inr (Some pid) \<and>
       (mc_procs m' = mc_procs m \<and> mc_procs m pid \<noteq> None \<and> mc_sockets m' = mc_sockets m \<or>
        mc_procs m pid = None \<and> mc_procs m' = (mc_procs m)(pid \<mapsto> Vm (state_file dir ''firecracker.socket'') (Some t))))"
proof -
  let ?S = "state_file dir ''firecracker.socket''" and ?P = "state_file dir ''firecracker.pid''" and ?C = "state_file dir ''firecracker-config.json''"
    and ?M = "state_file dir ''firecracker-metadata.json''"
  from run obtain fc where fc: "vm_firecracker (as_vm s) = Some fc" by (auto simp: provider_launch_def split: option.splits)
  obtain h where v: "validate_firecracker_plan_files E s dir (mc_host m) = Inr ()"
    and pre: "validate_firecracker_prerequisites E (fc_tap_name fc) (absolute_or_cwd (pe_cwd E) (fc_kernel_image fc)) (absolute_or_cwd (pe_cwd E) (fc_rootfs_image fc)) (mc_host m) = Inr ()"
    and rf: "ensure_runtime_files E (state_file dir ''firecracker.log'') (state_file dir ''firecracker-metrics.json'') (mc_host m) = Inr h"
    and st: "start_firecracker_process E (fc_tap_name fc) ?S ?C ?P (state_file dir ''firecracker.stdout.log'') (state_file dir ''firecracker.stderr.log'') (m\<lparr>mc_host := h\<rparr>) = (None, m')"
    by (rule provider_launch_steps [OF run fc])
  obtain c md where c: "read_json_file E ?C (mc_host m) = Inr c" and md: "read_json_file E ?M (mc_host m) = Inr md" and ok: "plan_agrees E s fc c md"
    using validated_agrees [OF v] fc by (metis option.inject)
  obtain t where t: "ch_files (mc_host m) ?C = Some t" "pe_parse E t = Some c"
    using c by (auto simp: read_json_file_def read_file_def split: option.splits sum.splits if_splits)
  have kept: "ch_files h ?C = Some t" using runtime_files_same [OF rf, of ?C] t(1) by (simp add: state_files)
  have "?C \<notin> {?P, state_file dir ''firecracker.stdout.log'', state_file dir ''firecracker.stderr.log''}" by (simp add: state_files)
  from start_started [OF st fresh this] have "mc_sockets m' ?S \<and>
      (\<exists>pid. read_pid ?P (mc_host m') = Inr (Some pid) \<and> (mc_procs m' = mc_procs m \<and> mc_procs m pid \<noteq> None \<and> mc_sockets m' = mc_sockets m \<or>
        mc_procs m pid = None \<and> mc_procs m' = (mc_procs m)(pid \<mapsto> Vm ?S (Some t))))"
    using kept by (auto simp: process_running_def)
  then show ?thesis using fc t md ok prerequisites_hold [OF pre] by (intro exI [of _ fc] exI [of _ t] exI [of _ c] exI [of _ md]) simp
qed

text \<open>
  C31. Planning writes a configuration and metadata that the check before a launch accepts: for a Firecracker agent with a readable
  proxy port and a writable state directory, planning succeeds, names exactly one command, and an existing log is kept.
\<close>

theorem plan_passes_check:
  assumes "vm_firecracker (as_vm s) = Some fc" and "proxy_port s = Inr port"
    and "json_round_trips E (firecracker_config_json E s fc dir)" and "json_round_trips E (firecracker_metadata_json s fc port dir)"
    and "\<And>f. ce_writable (pe_chat E) (state_file dir f)"
  shows "\<exists>cmds h'. plan_launch E s dir h = Inr (cmds, h') \<and> validate_firecracker_plan_files E s dir h' = Inr () \<and>
    map pc_args cmds = [[''--api-sock'', state_file dir ''firecracker.socket'', ''--config-file'', state_file dir ''firecracker-config.json'']] \<and>
    ch_files h' (state_file dir ''firecracker-config.json'') = Some (pe_print E (firecracker_config_json E s fc dir)) \<and>
    ch_files h' (state_file dir ''firecracker.log'') = (case ch_files h (state_file dir ''firecracker.log'') of None \<Rightarrow> Some [] | Some c \<Rightarrow> Some c)"
  by (rule plan_files [OF assms])

text \<open>
  A stop that succeeds leaves no machine on the agent's socket, no process-id file and no socket, and it ends no process but the
  recorded one.
\<close>

theorem stop_ends_machine:
  assumes "provider_stop E dir m = (None, m')" and "tracked (state_file dir ''firecracker.socket'') (state_file dir ''firecracker.pid'') m"
    and "pe_removable E (state_file dir ''firecracker.pid'')" and "owns E (state_file dir ''firecracker.socket'')"
  shows "idle (state_file dir ''firecracker.socket'') m' \<and> read_pid (state_file dir ''firecracker.pid'') (mc_host m') = Inr None \<and>
    \<not> mc_sockets m' (state_file dir ''firecracker.socket'') \<and>
    (\<forall>q. mc_procs m' q = mc_procs m q \<or> read_pid (state_file dir ''firecracker.pid'') (mc_host m) = Inr (Some q) \<and> mc_procs m' q = None)"
  using stop_result [OF assms(4,2) assms(1) [unfolded provider_stop_def]] assms(3) by blast

section \<open>Witnesses\<close>

definition demo_vm_agent :: agent_description where
  "demo_vm_agent = demo_agent\<lparr>as_network := \<lparr> nw_egress_allowlist = [], nw_egress_allow_all = False, nw_proxy = None \<rparr>\<rparr>"

definition demo_firecracker :: firecracker_vm where
  "demo_firecracker = the (vm_firecracker (as_vm demo_vm_agent))"

text \<open>A serializer for the two values the plan writes.\<close>

definition demo_json_parse :: "str \<Rightarrow> json option" where
  "demo_json_parse t =
     (if t = ''m'' then Some (firecracker_metadata_json demo_vm_agent demo_firecracker None ''/d'')
      else Some (JObject
      [(''boot-source'', JObject [(''kernel_image_path'', JString ''/c/k''), (''boot_args'', JString [])]),
       (''drives'', JArray [JObject [(''drive_id'', JString ''rootfs''), (''path_on_host'', JString ''/c/r''), (''is_root_device'', JBool True), (''is_read_only'', JBool False)]]),
       (''machine-config'', JObject [(''vcpu_count'', JNum ''2''), (''mem_size_mib'', JNum ''2048''), (''smt'', JBool False), (''track_dirty_pages'', JBool False)]),
       (''network-interfaces'', JArray [JObject [(''iface_id'', JString ''net1''), (''guest_mac'', JString ''m''), (''host_dev_name'', JString ''t'')]]),
       (''logger'', JObject [(''log_path'', JString ''/d/state/firecracker.log''), (''level'', JString ''Info''), (''show_level'', JBool True), (''show_log_origin'', JBool True)]),
       (''metrics'', JObject [(''metrics_path'', JString ''/d/state/firecracker-metrics.json'')])]))"

definition demo_provider :: provider_env where
  "demo_provider = \<lparr> pe_chat = demo_chat_env, pe_cwd = ''/c'', pe_on_launch = False,
     pe_print = (\<lambda>j. if j = firecracker_metadata_json demo_vm_agent demo_firecracker None ''/d'' then ''m'' else ''c''), pe_parse = demo_json_parse,
     pe_canonical = (\<lambda>_. None), pe_answers = (\<lambda>_ _. True), pe_polls = (\<lambda>_ _. [False, True]), pe_pid = (\<lambda>m. if mc_procs m 7 = None then Some 7 else None),
     pe_binds = False, pe_signals = (\<lambda>_ _. True), pe_alive_polls = (\<lambda>_ _. [True, False]), pe_removable = (\<lambda>_. True), pe_commands = (\<lambda>_. True),
     pe_kvm = \<lparr> kv_exists = True, kv_modules = None, kv_cpuinfo = None, kv_char_device = True, kv_readable = True, kv_writable = True \<rparr>,
     pe_link_show = (\<lambda>_. Some ''l''), pe_links = (\<lambda>_. Some [\<lparr> il_ifname = ''t'', il_flags = [''UP''] \<rparr>]) \<rparr>"

definition demo_machine :: machine where
  "demo_machine = \<lparr> mc_host = \<lparr> ch_files = (\<lambda>p. if p = ''/c/k'' then Some elf_magic else if p = ''/c/r'' then Some ''r''
      else if p = ''/d/state/firecracker-config.json'' then Some ''c'' else if p = ''/d/state/firecracker-metadata.json'' then Some ''m'' else None),
      ch_sessions = (\<lambda>_. None) \<rparr>, mc_sockets = (\<lambda>_. False), mc_procs = (\<lambda>_. None) \<rparr>"

lemma demo_vm_sound: "sound_env demo_provider k p" "fresh_pids demo_provider" "owns demo_provider k"
  by (simp_all add: sound_env_def fresh_pids_def owns_def demo_provider_def demo_chat_env_def split: if_splits)

lemma demo_idle: "idle p demo_machine"
  by (simp add: idle_def serving_def demo_machine_def)

lemma demo_fc: "vm_firecracker (as_vm demo_vm_agent) = Some demo_firecracker"
  by (simp add: demo_firecracker_def demo_vm_agent_def demo_agent_def)

lemma demo_port: "proxy_port demo_vm_agent = Inr None"
  by (simp add: proxy_port_def demo_vm_agent_def)

lemma demo_config: "firecracker_config_json demo_provider demo_vm_agent demo_firecracker ''/d'' = the (demo_json_parse ''c'')"
  by code_simp

lemma demo_config_other: "firecracker_config_json demo_provider demo_vm_agent demo_firecracker ''/d'' \<noteq> firecracker_metadata_json demo_vm_agent demo_firecracker None ''/d''"
  by code_simp

lemma demo_round_trips:
  "json_round_trips demo_provider (firecracker_config_json demo_provider demo_vm_agent demo_firecracker ''/d'')"
  "json_round_trips demo_provider (firecracker_metadata_json demo_vm_agent demo_firecracker None ''/d'')"
  using demo_config demo_config_other by (simp_all add: json_round_trips_def demo_provider_def demo_json_parse_def ascii_utf8 byte_in_def)

lemma demo_plan_ok: "validate_firecracker_plan_files demo_provider demo_vm_agent ''/d'' (mc_host demo_machine) = Inr ()"
  by (rule plan_validates [OF demo_fc demo_port demo_round_trips])
    (use demo_config_other in \<open>simp_all add: demo_provider_def demo_machine_def state_file_def path_join_def\<close>)

lemma demo_prerequisites:
  "validate_firecracker_prerequisites demo_provider ''t'' (absolute_or_cwd (pe_cwd demo_provider) ''k'') (absolute_or_cwd (pe_cwd demo_provider) ''r'') (mc_host demo_machine) = Inr ()"
  by code_simp

definition demo_ready :: machine where
  "demo_ready = demo_machine\<lparr>mc_host := (mc_host demo_machine)\<lparr>ch_files := (ch_files (mc_host demo_machine))(''/d/state/firecracker.log'' := Some [],
     ''/d/state/firecracker-metrics.json'' := Some [])\<rparr>\<rparr>"

lemma demo_runtime:
  "ensure_runtime_files demo_provider ''/d/state/firecracker.log'' ''/d/state/firecracker-metrics.json'' (mc_host demo_machine) = Inr (mc_host demo_ready)"
  by (simp add: ensure_runtime_files_def ensure_file_def write_file_def demo_machine_def demo_ready_def demo_provider_def demo_chat_env_def)

definition demo_started :: machine where
  "demo_started = snd (start_firecracker_process demo_provider ''t'' ''/d/state/firecracker.socket'' ''/d/state/firecracker-config.json'' ''/d/state/firecracker.pid''
     ''/d/state/firecracker.stdout.log'' ''/d/state/firecracker.stderr.log'' demo_ready)"

lemma demo_start:
  "start_firecracker_process demo_provider ''t'' ''/d/state/firecracker.socket'' ''/d/state/firecracker-config.json'' ''/d/state/firecracker.pid''
     ''/d/state/firecracker.stdout.log'' ''/d/state/firecracker.stderr.log'' demo_ready = (None, demo_started)"
proof -
  have "fst (start_firecracker_process demo_provider ''t'' ''/d/state/firecracker.socket'' ''/d/state/firecracker-config.json'' ''/d/state/firecracker.pid''
     ''/d/state/firecracker.stdout.log'' ''/d/state/firecracker.stderr.log'' demo_ready) = None" by code_simp
  then show ?thesis by (simp add: demo_started_def prod_eq_iff)
qed

lemma demo_serving: "serving ''/d/state/firecracker.socket'' demo_started 7"
proof -
  have "mc_procs demo_started 7 = Some (Vm ''/d/state/firecracker.socket'' (Some ''c''))" by code_simp
  then show ?thesis by (simp add: serving_def)
qed

theorem one_vm_per_socket_witness: "(7 :: u32) = 7 \<and> read_pid ''/d/state/firecracker.pid'' (mc_host demo_started) = Inr (Some 7)"
proof (rule one_vm_per_socket)
  show "(vm_step ''/d/state/firecracker.socket'' ''/d/state/firecracker.pid'')\<^sup>*\<^sup>* demo_ready demo_started"
    by (rule r_into_rtranclp, rule Started [OF demo_vm_sound(1) demo_start])
  show "idle ''/d/state/firecracker.socket'' demo_ready" by (simp add: idle_def serving_def demo_ready_def demo_machine_def)
qed (rule demo_serving)+

lemma demo_paths: "state_file ''/d'' f = (if prefix ''/'' f then f else ''/d/state/'' @ f)"
  by (simp add: state_file_def path_join_def)

lemma demo_launch: "provider_launch demo_provider demo_vm_agent ''/d'' demo_machine = (None, demo_started)"
proof -
  have f: "fc_tap_name demo_firecracker = ''t''" "fc_kernel_image demo_firecracker = ''k''" "fc_rootfs_image demo_firecracker = ''r''"
    by (simp_all add: demo_firecracker_def demo_vm_agent_def demo_agent_def)
  have "demo_machine\<lparr>mc_host := mc_host demo_ready\<rparr> = demo_ready" by (simp add: demo_ready_def)
  then show ?thesis
    using demo_runtime demo_start
    by (simp add: provider_launch_def demo_fc f then_step_def check_step_def demo_plan_ok demo_prerequisites demo_paths)
qed

theorem launch_as_specified_witness:
  "\<exists>fc c md pid. vm_firecracker (as_vm demo_vm_agent) = Some fc \<and> pe_parse demo_provider ''c'' = Some c \<and> plan_agrees demo_provider demo_vm_agent fc c md \<and>
    mc_procs demo_started = (mc_procs demo_machine)(pid \<mapsto> Vm (state_file ''/d'' ''firecracker.socket'') (Some ''c''))"
proof -
  have "ch_files (mc_host demo_machine) (state_file ''/d'' ''firecracker-config.json'') = Some ''c''" "mc_procs demo_machine pid = None" for pid
    by (simp_all add: demo_paths demo_machine_def)
  with launch_as_specified [OF demo_launch demo_vm_sound(2)] show ?thesis by auto
qed

theorem plan_passes_check_witness:
  "\<exists>cmds h'. plan_launch demo_provider demo_vm_agent ''/d'' (mc_host demo_machine) = Inr (cmds, h') \<and>
    validate_firecracker_plan_files demo_provider demo_vm_agent ''/d'' h' = Inr () \<and>
    map pc_args cmds = [[''--api-sock'', state_file ''/d'' ''firecracker.socket'', ''--config-file'', state_file ''/d'' ''firecracker-config.json'']] \<and>
    ch_files h' (state_file ''/d'' ''firecracker-config.json'') = Some (pe_print demo_provider (firecracker_config_json demo_provider demo_vm_agent demo_firecracker ''/d'')) \<and>
    ch_files h' (state_file ''/d'' ''firecracker.log'') = (case ch_files (mc_host demo_machine) (state_file ''/d'' ''firecracker.log'') of None \<Rightarrow> Some [] | Some c \<Rightarrow> Some c)"
  by (rule plan_passes_check [OF demo_fc demo_port demo_round_trips]) (simp add: demo_provider_def demo_chat_env_def)

definition demo_stopped :: machine where
  "demo_stopped = snd (provider_stop demo_provider ''/d'' demo_started)"

lemma demo_tracked: "tracked ''/d/state/firecracker.socket'' ''/d/state/firecracker.pid'' demo_started"
  using start_result [OF demo_vm_sound(1) _ demo_start] idle_tracked [of "''/d/state/firecracker.socket''" demo_ready]
  by (simp add: idle_def serving_def demo_ready_def demo_machine_def)

lemma demo_stop_run: "provider_stop demo_provider ''/d'' demo_started = (None, demo_stopped)"
proof -
  have "read_pid ''/d/state/firecracker.pid'' (mc_host demo_started) = Inr (Some 7)" using demo_tracked demo_serving by (simp add: tracked_def)
  moreover have "process_running demo_provider 7 demo_started" using demo_serving by (auto simp: process_running_def serving_def demo_provider_def)
  moreover have "mc_sockets demo_started ''/d/state/firecracker.socket''" by code_simp
  ultimately have "inspect_existing_firecracker_process demo_provider ''/d/state/firecracker.pid'' ''/d/state/firecracker.socket'' demo_started = Inr (RunningReady 7)"
    by (simp add: inspect_existing_firecracker_process_def)
  moreover have "fst (then_step (end_process demo_provider 7) (forget_process demo_provider ''/d/state/firecracker.pid'' ''/d/state/firecracker.socket'') demo_started) = None"
    by code_simp
  ultimately have "fst (provider_stop demo_provider ''/d'' demo_started) = None" by (simp add: provider_stop_def stop_running_firecracker_def demo_paths)
  then show ?thesis by (simp add: demo_stopped_def prod_eq_iff)
qed

theorem stop_ends_machine_witness:
  "idle (state_file ''/d'' ''firecracker.socket'') demo_stopped \<and> read_pid (state_file ''/d'' ''firecracker.pid'') (mc_host demo_stopped) = Inr None \<and>
    \<not> mc_sockets demo_stopped (state_file ''/d'' ''firecracker.socket'') \<and>
    (\<forall>q. mc_procs demo_stopped q = mc_procs demo_started q \<or> read_pid (state_file ''/d'' ''firecracker.pid'') (mc_host demo_started) = Inr (Some q) \<and> mc_procs demo_stopped q = None)"
proof (rule stop_ends_machine [OF demo_stop_run])
  show "tracked (state_file ''/d'' ''firecracker.socket'') (state_file ''/d'' ''firecracker.pid'') demo_started" using demo_tracked by (simp add: demo_paths)
qed (simp_all add: demo_provider_def owns_def)

end
