(* ===== verification/Fleet.thy ===== *)
theory Fleet
  imports Vm_Provider
begin

text \<open>
  The fleet of virtual machines: which network identity belongs to whom, and materializing an agent
  (\<open>crates/maturana-core/src/materialize.rs\<close>); the profiles, the pinned host keys and the verified images of Firecracker
  agents (\<open>crates/maturana-ops/src/firecracker.rs\<close>). The texts of the guest's own files, the Hyper-V daemon and hashing are
  arguments; the Firecracker provider and its host are those of \<open>Vm_Provider\<close>.
\<close>

section \<open>Materializing an agent\<close>

datatype launch_mode = DryRun | Apply

datatype shared_part = SharedTap | SharedHostIp | SharedGuestIp | SharedMac | SharedRootfs

datatype fleet_error =
    InvalidSpec "spec_error list" | Collides "(str \<times> shared_part list) list" | FleetFile chat_error | ProviderFailed provider_error | HypervFailed | CannotAudit
  | NoAgentSpec str | NoSpec str | NotFirecracker str | BadHostIp str | BadManifest | ManifestAgent | ManifestNetwork | ManifestPath | MissingFile str | EmptyFile str
  | WrongSize str | NotElf | BadHash str | WrongHash str | UnknownHarness str | NoPort str | GuestFailed guest_error | StepFailed "str list" | RepairFailed "str list"

definition network_conflicts :: "firecracker_vm \<Rightarrow> firecracker_vm \<Rightarrow> shared_part list" where
  "network_conflicts ofc fc =
     (if eq_ignore_case (fc_tap_name ofc) (fc_tap_name fc) then [SharedTap] else []) @
     (if fc_host_ip ofc = fc_host_ip fc then [SharedHostIp] else []) @
     (if fc_guest_ip ofc = fc_guest_ip fc then [SharedGuestIp] else []) @
     (if eq_ignore_case (fc_guest_mac ofc) (fc_guest_mac fc) then [SharedMac] else []) @
     (if fc_rootfs_image ofc = fc_rootfs_image fc then [SharedRootfs] else [])"

text \<open>\<open>entries\<close> are the names in the agents' directory, none when it cannot be read.\<close>

definition collision_with :: "chat_env \<Rightarrow> chat_host \<Rightarrow> str \<Rightarrow> firecracker_vm \<Rightarrow> str \<Rightarrow> (str \<times> shared_part list) list" where
  "collision_with E h self fc other =
     (if other = self then []
      else case Option.bind (spec_of E other h) (\<lambda>s. vm_firecracker (as_vm s)) of
          None \<Rightarrow> []
        | Some ofc \<Rightarrow> if network_conflicts ofc fc = [] then [] else [(other, network_conflicts ofc fc)])"

definition check_network_collisions :: "chat_env \<Rightarrow> str list \<Rightarrow> chat_host \<Rightarrow> agent_description \<Rightarrow> (str \<times> shared_part list) list" where
  "check_network_collisions E entries h s =
     (case vm_firecracker (as_vm s) of
        None \<Rightarrow> []
      | Some fc \<Rightarrow> concat (map (collision_with E h (id_id (as_identity s)) fc) entries))"

text \<open>The texts, the launch plan printed, what the Hyper-V daemon and its settings answer, and whether the audit log can be written.\<close>

record materialize_env =
  me_provider :: provider_env
  me_entries :: "str list"
  me_agents :: "agent_description \<Rightarrow> str"
  me_identity :: "agent_description \<Rightarrow> str"
  me_soul :: "agent_description \<Rightarrow> str"
  me_commands :: "provider_command list \<Rightarrow> str"
  me_hostd :: "str option"
  me_base_image :: str
  me_hyperv :: bool
  me_audit :: bool

abbreviation me_chat :: "materialize_env \<Rightarrow> chat_env" where
  "me_chat M \<equiv> pe_chat (me_provider M)"

definition hostd_url :: "materialize_env \<Rightarrow> str \<Rightarrow> str" where
  "hostd_url M p = trim_end_with (\<lambda>c. c = CHR ''/'') (case me_hostd M of Some b \<Rightarrow> b | None \<Rightarrow> ''http://127.0.0.1:47832'') @ p"

definition hyperv_plan :: "materialize_env \<Rightarrow> agent_description \<Rightarrow> provider_command list" where
  "hyperv_plan M s =
     [\<lparr> pc_program = ''maturana'', pc_args = [''hostd'', ''status''], pc_description = ''verify the privileged Windows host daemon is reachable'' \<rparr>,
      \<lparr> pc_program = ''POST'', pc_args = [hostd_url M ''/agents/launch/ubuntu'', ''agent_id'', id_id (as_identity s), ''base_vhdx_path'', me_base_image M, ''switch_name'',
          (case vm_switch_name (as_vm s) of Some w \<Rightarrow> w | None \<Rightarrow> ''Default Switch'')],
        pc_description = ''ask hostd to launch the official Ubuntu Hyper-V guest'' \<rparr>]"

definition plan_for :: "materialize_env \<Rightarrow> agent_description \<Rightarrow> str \<Rightarrow> chat_host \<Rightarrow> provider_error + provider_command list \<times> chat_host" where
  "plan_for M s dir h = (case vm_provider (as_vm s) of HyperV \<Rightarrow> Inr (hyperv_plan M s, h) | Firecracker \<Rightarrow> plan_launch (me_provider M) s dir h)"

definition write_if_absent :: "chat_env \<Rightarrow> str \<Rightarrow> str \<Rightarrow> chat_host \<Rightarrow> chat_error + chat_host" where
  "write_if_absent E p c h = (if ch_files h p \<noteq> None then Inr h else write_file E p c h)"

text \<open>The files of one agent in the order they are written; a write that fails leaves those before it.\<close>

datatype write_kind = Always | IfAbsent

fun write_all :: "chat_env \<Rightarrow> (write_kind \<times> str \<times> str) list \<Rightarrow> chat_host \<Rightarrow> chat_error option \<times> chat_host" where
  "write_all E [] h = (None, h)"
| "write_all E ((k, p, c) # ws) h =
     (case (case k of Always \<Rightarrow> write_file E p c h | IfAbsent \<Rightarrow> write_if_absent E p c h) of
        Inl e \<Rightarrow> (Some e, h) | Inr h1 \<Rightarrow> write_all E ws h1)"

definition agent_file :: "chat_env \<Rightarrow> str \<Rightarrow> str \<Rightarrow> str" where
  "agent_file E i f = path_join (agent_dir (ce_root E) i) f"

record materialized_agent =
  ma_agent_id :: str
  ma_collisions :: "(str \<times> shared_part list) list" \<comment> \<open>its further warnings, in a dry run\<close>
  ma_commands :: "provider_command list"

definition agent_files :: "materialize_env \<Rightarrow> agent_description \<Rightarrow> str \<Rightarrow> (write_kind \<times> str \<times> str) list" where
  "agent_files M s source =
     (let f = agent_file (me_chat M) (id_id (as_identity s))
      in [(Always, f ''MATURANA.md'', source), (Always, f ''AGENTS.md'', me_agents M s), (IfAbsent, f ''IDENTITY.md'', me_identity M s), (IfAbsent, f ''SOUL.md'', me_soul M s)])"

text \<open>The provider's launch at the end.\<close>

definition launch_for :: "materialize_env \<Rightarrow> agent_description \<Rightarrow> str \<Rightarrow> machine \<Rightarrow> fleet_error option \<times> machine" where
  "launch_for M s dir m =
     (case vm_provider (as_vm s) of
        HyperV \<Rightarrow> (if me_hyperv M then None else Some HypervFailed, m)
      | Firecracker \<Rightarrow> (case provider_launch (me_provider M) s dir m of (e, m1) \<Rightarrow> (map_option ProviderFailed e, m1)))"

definition materialize_agent :: "materialize_env \<Rightarrow> agent_description \<Rightarrow> str \<Rightarrow> launch_mode \<Rightarrow> machine \<Rightarrow> (fleet_error + materialized_agent) \<times> machine" where
  "materialize_agent M s source mode m =
     (let E = me_chat M; h = mc_host m; i = id_id (as_identity s); v = validate_spec False s; collisions = check_network_collisions E (me_entries M) h s;
          dir = agent_dir (ce_root E) i
      in if \<not> vr_valid v then (Inl (InvalidSpec (vr_errors v)), m)
         else if collisions \<noteq> [] \<and> mode = Apply then (Inl (Collides collisions), m)
         else
           (case write_all E (agent_files M s source) h of
              (Some e, h1) \<Rightarrow> (Inl (FleetFile e), m\<lparr>mc_host := h1\<rparr>)
            | (None, h1) \<Rightarrow>
                (case plan_for M s dir h1 of
                   Inl e \<Rightarrow> (Inl (ProviderFailed e), m\<lparr>mc_host := h1\<rparr>)
                 | Inr (cmds, h2) \<Rightarrow>
                     (case write_file E (agent_file E i ''launch-plan.json'') (me_commands M cmds) h2 of
                        Inl e \<Rightarrow> (Inl (FleetFile e), m\<lparr>mc_host := h2\<rparr>)
                      | Inr h3 \<Rightarrow>
                          let m3 = m\<lparr>mc_host := h3\<rparr>; done_agent = Inr \<lparr> ma_agent_id = i, ma_collisions = collisions, ma_commands = cmds \<rparr>
                          in if \<not> me_audit M then (Inl CannotAudit, m3)
                             else if mode = Apply then
                               (case launch_for M s dir m3 of (Some e, m4) \<Rightarrow> (Inl e, m4) | (None, m4) \<Rightarrow> (done_agent, m4))
                             else (done_agent, m3)))))"

definition stop_agent :: "materialize_env \<Rightarrow> str \<Rightarrow> machine \<Rightarrow> fleet_error option \<times> machine" where
  "stop_agent M i m =
     (if ch_files (mc_host m) (spec_path (me_chat M) i) = None then (Some (NoAgentSpec i), m)
      else case spec_of (me_chat M) i (mc_host m) of
          None \<Rightarrow> (Some (NoSpec i), m)
        | Some s \<Rightarrow>
            (case (case vm_provider (as_vm s) of
                HyperV \<Rightarrow> (if me_hyperv M then None else Some HypervFailed, m)
              | Firecracker \<Rightarrow> (case provider_stop (me_provider M) (agent_dir (ce_root (me_chat M)) i) m of (e, m1) \<Rightarrow> (map_option ProviderFailed e, m1))) of
               (Some e, m1) \<Rightarrow> (Some e, m1)
             | (None, m1) \<Rightarrow> (if me_audit M then None else Some CannotAudit, m1)))"

section \<open>Firecracker profiles\<close>

record harness_profile =
  hp_agent_id :: str
  hp_image_name :: str
  hp_harness_arg :: str
  hp_host_ip :: str
  hp_guest_ip :: str
  hp_cidr :: str
  hp_tap_name :: str
  hp_guest_mac :: str
  hp_session_id :: str
  hp_telegram_token_source :: str
  hp_auth_source :: str
  hp_auth_guest_path :: str
  hp_spec_path :: str

definition builtin_firecracker_profiles :: "harness_profile list" where
  "builtin_firecracker_profiles =
     [\<lparr> hp_agent_id = ''codex-firecracker'', hp_image_name = ''codex'', hp_harness_arg = ''codex'', hp_host_ip = ''172.30.10.1'', hp_guest_ip = ''172.30.10.2'',
        hp_cidr = ''172.30.10.0/30'', hp_tap_name = ''tap-mat-codex'', hp_guest_mac = ''AA:FC:00:00:10:01'', hp_session_id = ''codex-main'',
        hp_telegram_token_source = ''pipelock:telegram/bot-token'', hp_auth_source = ''.maturana/host-auth/codex'', hp_auth_guest_path = ''/home/ubuntu/.codex'',
        hp_spec_path = ''examples/MATURANA.codex-firecracker.md'' \<rparr>,
      \<lparr> hp_agent_id = ''opencode-firecracker'', hp_image_name = ''opencode'', hp_harness_arg = ''opencode'', hp_host_ip = ''172.30.10.5'', hp_guest_ip = ''172.30.10.6'',
        hp_cidr = ''172.30.10.4/30'', hp_tap_name = ''tap-mat-open'', hp_guest_mac = ''AA:FC:00:00:10:02'', hp_session_id = ''opencode-main'',
        hp_telegram_token_source = ''pipelock:telegram/opencode-bot-token'', hp_auth_source = ''.maturana/host-auth/opencode'', hp_auth_guest_path = ''/home/ubuntu'',
        hp_spec_path = ''examples/MATURANA.opencode-firecracker.md'' \<rparr>,
      \<lparr> hp_agent_id = ''claude-firecracker'', hp_image_name = ''claude'', hp_harness_arg = ''claude-code'', hp_host_ip = ''172.30.10.9'', hp_guest_ip = ''172.30.10.10'',
        hp_cidr = ''172.30.10.8/30'', hp_tap_name = ''tap-mat-claude'', hp_guest_mac = ''AA:FC:00:00:10:03'', hp_session_id = ''claude-main'',
        hp_telegram_token_source = ''pipelock:telegram/claude-bot-token'', hp_auth_source = ''.maturana/host-auth/claude-code'', hp_auth_guest_path = ''/home/ubuntu/.claude'',
        hp_spec_path = ''examples/MATURANA.claude-firecracker.md'' \<rparr>]"

definition firecracker_profile_for :: "str \<Rightarrow> harness_profile option" where
  "firecracker_profile_for agent = List.find (\<lambda>p. hp_agent_id p = agent) builtin_firecracker_profiles"

definition harness_runtime_arg :: "harness_runtime \<Rightarrow> str" where
  "harness_runtime_arg r = (case r of Codex \<Rightarrow> ''codex'' | ClaudeCode \<Rightarrow> ''claude-code'' | Opencode \<Rightarrow> ''opencode'')"

definition parse_harness_runtime :: "str \<Rightarrow> fleet_error + harness_runtime" where
  "parse_harness_runtime a =
     (if a = ''codex'' then Inr Codex else if a \<in> {''claude-code'', ''claude''} then Inr ClaudeCode
      else if a = ''opencode'' then Inr Opencode else Inl (UnknownHarness a))"

definition default_host_auth_source :: "harness_runtime \<Rightarrow> str" where
  "default_host_auth_source r = (case r of Codex \<Rightarrow> ''.maturana/host-auth/codex'' | ClaudeCode \<Rightarrow> ''.maturana/host-auth/claude-code''
     | Opencode \<Rightarrow> ''.maturana/host-auth/opencode'')"

definition default_auth_guest_path :: "harness_runtime \<Rightarrow> str" where
  "default_auth_guest_path r = (case r of Codex \<Rightarrow> ''/home/ubuntu/.codex'' | ClaudeCode \<Rightarrow> ''/home/ubuntu/.claude'' | Opencode \<Rightarrow> ''/home/ubuntu'')"

definition firecracker_image_name :: "str \<Rightarrow> str \<Rightarrow> str" where
  "firecracker_image_name agent rootfs =
     (let ps = path_parts rootfs
      in if ps = [] \<or> butlast ps = [] \<or> last (butlast ps) = ''..'' then agent else last (butlast ps))"

text \<open>\<open>Ipv4Addr\<close>: four decimal octets of at most three digits, without leading zeros.\<close>

definition ipv4_octet :: "str \<Rightarrow> nat option" where
  "ipv4_octet s =
     (if s = [] \<or> 3 < length s \<or> \<not> list_all is_digit s \<or> (1 < length s \<and> hd s = CHR ''0'') then None
      else if digits_val s < 256 then Some (digits_val s) else None)"

definition parse_address :: "str \<Rightarrow> u32 option" where
  "parse_address s =
     (case map ipv4_octet (split_on CHR ''.'' s) of
        [Some a, Some b, Some c, Some d] \<Rightarrow> Some (of_nat (((a * 256 + b) * 256 + c) * 256 + d))
      | _ \<Rightarrow> None)"

definition show_address :: "u32 \<Rightarrow> str" where
  "show_address w = (let n = unat w in show_nat (n div 2 ^ 24) @ ''.'' @ show_nat (n div 2 ^ 16 mod 256) @ ''.'' @ show_nat (n div 2 ^ 8 mod 256) @ ''.'' @ show_nat (n mod 256))"

definition cidr_for_host_ip :: "str \<Rightarrow> fleet_error + str" where
  "cidr_for_host_ip ip = (case parse_address ip of None \<Rightarrow> Inl (BadHostIp ip) | Some w \<Rightarrow> Inr (show_address (Bit_Operations.and w 0xFFFFFFFC) @ ''/30''))"

definition firecracker_profile_from_spec :: "chat_env \<Rightarrow> chat_host \<Rightarrow> str \<Rightarrow> fleet_error + harness_profile" where
  "firecracker_profile_from_spec E h agent =
     (case spec_of E agent h of
        None \<Rightarrow> Inl (NoSpec agent)
      | Some s \<Rightarrow>
          (case vm_firecracker (as_vm s) of
             None \<Rightarrow> Inl (NotFirecracker agent)
           | Some fc \<Rightarrow>
               let auth = List.find (\<lambda>a. ha_runtime a = as_harness s) (as_harness_auth s)
               in bind_result (cidr_for_host_ip (fc_host_ip fc)) (\<lambda>cidr.
                  Inr \<lparr> hp_agent_id = agent, hp_image_name = firecracker_image_name agent (fc_rootfs_image fc), hp_harness_arg = harness_runtime_arg (as_harness s),
                        hp_host_ip = fc_host_ip fc, hp_guest_ip = fc_guest_ip fc, hp_cidr = cidr, hp_tap_name = fc_tap_name fc, hp_guest_mac = fc_guest_mac fc,
                        hp_session_id = agent @ ''-main'',
                        hp_telegram_token_source = (case ch_telegram (as_channels s) of Some t \<Rightarrow> tg_token_source t | None \<Rightarrow> []),
                        hp_auth_source = (case auth of Some a \<Rightarrow> ha_source_path a | None \<Rightarrow> default_host_auth_source (as_harness s)),
                        hp_auth_guest_path = (case auth of Some a \<Rightarrow> ha_guest_path a | None \<Rightarrow> default_auth_guest_path (as_harness s)),
                        hp_spec_path = spec_path E agent \<rparr>)))"

definition resolve_firecracker_profile :: "chat_env \<Rightarrow> chat_host \<Rightarrow> str \<Rightarrow> fleet_error + harness_profile" where
  "resolve_firecracker_profile E h agent =
     (case firecracker_profile_for agent of Some p \<Rightarrow> Inr p | None \<Rightarrow> firecracker_profile_from_spec E h agent)"

fun disk_profiles :: "chat_env \<Rightarrow> chat_host \<Rightarrow> str list \<Rightarrow> str list \<Rightarrow> harness_profile list" where
  "disk_profiles E h seen [] = []"
| "disk_profiles E h seen (i # is) =
     (if i \<in> set seen then disk_profiles E h seen is
      else (case firecracker_profile_from_spec E h i of Inr p \<Rightarrow> [p] | Inl _ \<Rightarrow> []) @ disk_profiles E h (i # seen) is)"

fun collect_results :: "('e + 'a) list \<Rightarrow> 'e + 'a list" where
  "collect_results [] = Inr []"
| "collect_results (r # rs) = bind_result r (\<lambda>x. bind_result (collect_results rs) (\<lambda>xs. Inr (x # xs)))"

text \<open>\<open>listed\<close> are the materialized agents.\<close>

definition selected_firecracker_profiles :: "chat_env \<Rightarrow> chat_host \<Rightarrow> str list \<Rightarrow> str list \<Rightarrow> fleet_error + harness_profile list" where
  "selected_firecracker_profiles E h listed ids =
     (if ids = [] then Inr (builtin_firecracker_profiles @ disk_profiles E h (map hp_agent_id builtin_firecracker_profiles) listed)
      else collect_results (map (resolve_firecracker_profile E h) ids))"

definition bind_port :: "str \<Rightarrow> fleet_error + str" where
  "bind_port bind = (case rsplit_once CHR '':'' bind of Some (_, p) \<Rightarrow> if p = [] then Inl (NoPort bind) else Inr p | None \<Rightarrow> Inl (NoPort bind))"

definition tap_setup_args :: "str \<Rightarrow> str \<Rightarrow> str \<Rightarrow> str list" where
  "tap_setup_args tap ip net = [''./scripts/firecracker-setup-tap.sh'', tap, ip @ ''/30'', net]"

section \<open>Images\<close>

record asset_manifest =
  am_agent_id :: str
  am_kernel :: str
  am_rootfs :: str
  am_ssh_key :: str
  am_guest_ip :: str
  am_host_ip :: str
  am_guest_mac :: str
  am_tap_name :: str
  am_kernel_sha256 :: str
  am_rootfs_sha256 :: str
  am_kernel_bytes :: u64
  am_rootfs_bytes :: u64
  am_ssh_host_key :: "str option"

text \<open>The working directory, the parser of manifests and the hexadecimal hash of a content.\<close>

record image_env =
  im_cwd :: str
  im_manifest :: "str \<Rightarrow> asset_manifest option"
  im_sha256 :: "str \<Rightarrow> str"

definition is_hex_digit :: "char \<Rightarrow> bool" where
  "is_hex_digit c \<longleftrightarrow> is_digit c \<or> lower_char c \<in> set ''abcdef''"

definition validate_exact_size_file :: "str \<Rightarrow> str \<Rightarrow> u64 \<Rightarrow> chat_host \<Rightarrow> fleet_error + unit" where
  "validate_exact_size_file name p bytes h =
     (case ch_files h p of
        None \<Rightarrow> Inl (MissingFile name)
      | Some c \<Rightarrow> if c = [] then Inl (EmptyFile name) else if int (length c) \<noteq> uint bytes then Inl (WrongSize name) else Inr ())"

definition validate_nonempty_file :: "str \<Rightarrow> str \<Rightarrow> chat_host \<Rightarrow> fleet_error + unit" where
  "validate_nonempty_file name p h = (case ch_files h p of None \<Rightarrow> Inl (MissingFile name) | Some c \<Rightarrow> if c = [] then Inl (EmptyFile name) else Inr ())"

definition validate_elf_file :: "str \<Rightarrow> chat_host \<Rightarrow> fleet_error + unit" where
  "validate_elf_file p h =
     (case ch_files h p of None \<Rightarrow> Inl (MissingFile ''kernel'') | Some c \<Rightarrow> if length c < 4 \<or> take 4 c \<noteq> elf_magic then Inl NotElf else Inr ())"

definition validate_manifest_sha256 :: "image_env \<Rightarrow> str \<Rightarrow> str \<Rightarrow> str \<Rightarrow> chat_host \<Rightarrow> fleet_error + unit" where
  "validate_manifest_sha256 I name p expected h =
     (if length expected \<noteq> 64 \<or> \<not> list_all is_hex_digit expected then Inl (BadHash name)
      else case ch_files h p of
          None \<Rightarrow> Inl (MissingFile name)
        | Some c \<Rightarrow> if im_sha256 I c \<noteq> to_ascii_lowercase expected then Inl (WrongHash name) else Inr ())"

definition assert_manifest_path :: "image_env \<Rightarrow> str \<Rightarrow> str \<Rightarrow> fleet_error + unit" where
  "assert_manifest_path I actual expected =
     (if path_parts (absolute_or_cwd (im_cwd I) actual) = path_parts (absolute_or_cwd (im_cwd I) expected) then Inr () else Inl ManifestPath)"

definition validate_firecracker_asset_manifest :: "image_env \<Rightarrow> harness_profile \<Rightarrow> str \<Rightarrow> str \<Rightarrow> str \<Rightarrow> chat_host \<Rightarrow> fleet_error + unit" where
  "validate_firecracker_asset_manifest I p manifest_path image_dir key h =
     (let dir = absolute_or_cwd (im_cwd I) image_dir; kernel = path_join dir ''vmlinux.bin''; rootfs = path_join dir ''ubuntu-rootfs.ext4'';
          at = absolute_or_cwd (im_cwd I); ok = (\<lambda>r k. bind_result r (\<lambda>_. k))
      in case read_file (at manifest_path) h of
          Inl e \<Rightarrow> Inl (FleetFile e)
        | Inr raw \<Rightarrow>
            (case im_manifest I raw of
               None \<Rightarrow> Inl BadManifest
             | Some m \<Rightarrow>
                 if am_agent_id m \<noteq> hp_agent_id p then Inl ManifestAgent
                 else if am_guest_ip m \<noteq> hp_guest_ip p \<or> am_host_ip m \<noteq> hp_host_ip p \<or> \<not> eq_ignore_case (am_guest_mac m) (hp_guest_mac p) \<or>
                   am_tap_name m \<noteq> hp_tap_name p then Inl ManifestNetwork
                 else
                   ok (assert_manifest_path I (am_kernel m) kernel)
                   (ok (assert_manifest_path I (am_rootfs m) rootfs)
                   (ok (assert_manifest_path I (am_ssh_key m) key)
                   (ok (validate_exact_size_file ''kernel'' kernel (am_kernel_bytes m) h)
                   (ok (validate_exact_size_file ''rootfs'' rootfs (am_rootfs_bytes m) h)
                   (ok (validate_nonempty_file ''ssh_key'' (at key) h)
                   (ok (validate_nonempty_file ''ssh public key'' (at (key @ ''.pub'')) h)
                   (ok (validate_elf_file kernel h)
                   (ok (validate_manifest_sha256 I ''kernel'' kernel (am_kernel_sha256 m) h)
                       (validate_manifest_sha256 I ''rootfs'' rootfs (am_rootfs_sha256 m) h)))))))))))"

definition image_manifest_path :: "image_env \<Rightarrow> harness_profile \<Rightarrow> str" where
  "image_manifest_path I p = absolute_or_cwd (im_cwd I) (''.maturana/images/firecracker/'' @ hp_image_name p @ ''/asset-manifest.json'')"

definition pin_firecracker_host_key :: "chat_env \<Rightarrow> image_env \<Rightarrow> harness_profile \<Rightarrow> chat_host \<Rightarrow> fleet_error + chat_host" where
  "pin_firecracker_host_key E I p h =
     (if ch_files h (image_manifest_path I p) = None then Inr h
      else case read_file (image_manifest_path I p) h of
          Inl e \<Rightarrow> Inl (FleetFile e)
        | Inr raw \<Rightarrow>
            (case im_manifest I raw of
               None \<Rightarrow> Inl BadManifest
             | Some m \<Rightarrow>
                 (case am_ssh_host_key m of
                    None \<Rightarrow> Inr h
                  | Some line \<Rightarrow>
                      (case write_file E (path_join (agent_state_dir E (hp_agent_id p)) ''ssh_host_ed25519.pub'') (trim_text line @ [newline_byte]) h of
                         Inl e \<Rightarrow> Inl (FleetFile e) | Inr h1 \<Rightarrow> Inr h1))))"

section \<open>Where an agent's files are\<close>

lemma simple_parts: "simple_name i \<Longrightarrow> path_parts i = [i] \<and> \<not> prefix ''/'' i"
  by (auto simp: simple_name_def path_parts_one prefix_def)

lemma agent_dir_simple: "simple_name i \<Longrightarrow> path_parts (agent_dir root i) = path_parts root @ [''agents'', i]"
proof -
  have "path_parts ''agents'' = [''agents'']" by code_simp
  then show "simple_name i \<Longrightarrow> ?thesis" by (simp add: agent_dir_def path_parts_join simple_parts)
qed

lemma agent_file_parts: "simple_name i \<Longrightarrow> simple_name f \<Longrightarrow> path_parts (agent_file E i f) = path_parts (ce_root E) @ [''agents'', i, f]"
  by (simp add: agent_file_def path_parts_join agent_dir_simple simple_parts)

lemma agent_state_parts: "simple_name i \<Longrightarrow> simple_name f \<Longrightarrow> path_parts (state_file (agent_dir root i) f) = path_parts root @ [''agents'', i, ''state'', f]"
proof -
  have "path_parts ''state'' = [''state'']" by code_simp
  then show "simple_name i \<Longrightarrow> simple_name f \<Longrightarrow> ?thesis" by (simp add: state_file_def path_parts_join agent_dir_simple simple_parts)
qed

lemma spec_path_file: "spec_path E i = agent_file E i ''MATURANA.md''"
  by (simp add: spec_path_def agent_file_def)

lemma agent_file_names:
  "simple_name ''MATURANA.md''" "simple_name ''AGENTS.md''" "simple_name ''IDENTITY.md''" "simple_name ''SOUL.md''" "simple_name ''launch-plan.json''"
  by code_simp+

text \<open>No file that belongs to one agent is another's, and none of the provider's is an authored one.\<close>

lemma agent_file_inj: "simple_name i \<Longrightarrow> simple_name j \<Longrightarrow> simple_name f \<Longrightarrow> simple_name g \<Longrightarrow> agent_file E i f = agent_file E j g \<longleftrightarrow> i = j \<and> f = g"
proof
  assume s: "simple_name i" "simple_name j" "simple_name f" "simple_name g" and e: "agent_file E i f = agent_file E j g"
  then have "path_parts (agent_file E i f) = path_parts (agent_file E j g)" by (simp only:)
  then show "i = j \<and> f = g" unfolding agent_file_parts [OF s(1,3)] agent_file_parts [OF s(2,4)] by simp
qed simp

lemma agent_file_state:
  assumes "simple_name i" "simple_name j" "simple_name f" "simple_name g"
  shows "agent_file E i f \<noteq> state_file (agent_dir (ce_root E) j) g"
proof
  assume "agent_file E i f = state_file (agent_dir (ce_root E) j) g"
  then have "path_parts (agent_file E i f) = path_parts (state_file (agent_dir (ce_root E) j) g)" by (simp only:)
  then show False using assms by (simp add: agent_file_parts agent_state_parts)
qed

lemmas agent_paths = agent_file_inj agent_file_state agent_file_state [symmetric] agent_file_names provider_names

section \<open>What a provider writes\<close>

definition provider_files :: "str \<Rightarrow> str set" where
  "provider_files dir = state_file dir ` {''firecracker-config.json'', ''firecracker-metadata.json'', ''firecracker.log'', ''firecracker-metrics.json'', ''firecracker.pid'',
     ''firecracker.stdout.log'', ''firecracker.stderr.log''}"

lemma plan_frame: "plan_launch E s dir h = Inr (c, h') \<Longrightarrow> p \<notin> provider_files dir \<Longrightarrow> ch_files h' p = ch_files h p"
proof -
  assume "plan_launch E s dir h = Inr (c, h')" and p: "p \<notin> provider_files dir"
  then obtain h1 h2 c1 c2 where w: "provider_write E (state_file dir ''firecracker-config.json'') c1 h = Inr h1"
      "ensure_runtime_files E (state_file dir ''firecracker.log'') (state_file dir ''firecracker-metrics.json'') h1 = Inr h2"
      "provider_write E (state_file dir ''firecracker-metadata.json'') c2 h2 = Inr h'"
    by (auto simp: plan_launch_def bind_result_Inr split: option.splits)
  have q: "p \<noteq> state_file dir ''firecracker-config.json''" "p \<noteq> state_file dir ''firecracker-metadata.json''" "p \<noteq> state_file dir ''firecracker.log''"
    "p \<noteq> state_file dir ''firecracker-metrics.json''" using p by (auto simp: provider_files_def)
  show ?thesis using w(1,3) q runtime_files_same [OF w(2), of p] by (auto simp: provider_write_def write_file_def split: if_splits)
qed

lemma provider_launch_frame: "provider_launch E s dir m = (e, m') \<Longrightarrow> same_elsewhere (provider_files dir) m m'"
proof (cases "vm_firecracker (as_vm s)")
  case None
  then show "provider_launch E s dir m = (e, m') \<Longrightarrow> ?thesis" by (auto simp: provider_launch_def same_refl)
next
  case (Some fc)
  assume run: "provider_launch E s dir m = (e, m')"
  let ?rf = "\<lambda>m. case ensure_runtime_files E (state_file dir ''firecracker.log'') (state_file dir ''firecracker-metrics.json'') (mc_host m) of
              Inl e \<Rightarrow> (Some e, m) | Inr h \<Rightarrow> (None, m\<lparr>mc_host := h\<rparr>)"
  have rf: "?rf m1 = (x, m2) \<Longrightarrow> same_elsewhere (provider_files dir) m1 m2" for m1 x m2
    using runtime_files_same [of E "state_file dir ''firecracker.log''" "state_file dir ''firecracker-metrics.json''" "mc_host m1"]
    by (auto simp: same_elsewhere_def provider_files_def split: sum.splits)
  have st: "start_firecracker_process E tap socket config (state_file dir ''firecracker.pid'') (state_file dir ''firecracker.stdout.log'')
      (state_file dir ''firecracker.stderr.log'') m1 = (x, m2) \<Longrightarrow> same_elsewhere (provider_files dir) m1 m2" for tap socket config m1 x m2
    by (erule start_same) (simp add: provider_files_def)
  have ck: "check_step r m1 = (x, m2) \<Longrightarrow> same_elsewhere (provider_files dir) m1 m2" for r m1 x m2 using check_frame same_refl by blast
  have tail: "then_step ?rf (start_firecracker_process E (fc_tap_name fc) (state_file dir ''firecracker.socket'') (state_file dir ''firecracker-config.json'')
            (state_file dir ''firecracker.pid'') (state_file dir ''firecracker.stdout.log'') (state_file dir ''firecracker.stderr.log'')) m1 = (x, m2) \<Longrightarrow>
      same_elsewhere (provider_files dir) m1 m2" for m1 x m2
    by (erule then_step_same) (use rf st in blast)+
  from run show ?thesis unfolding provider_launch_def Some option.case
  proof (rule then_step_same)
    fix x m1 m2 assume "then_step (\<lambda>m. check_step (validate_firecracker_prerequisites E (fc_tap_name fc) (absolute_or_cwd (pe_cwd E) (fc_kernel_image fc))
        (absolute_or_cwd (pe_cwd E) (fc_rootfs_image fc)) (mc_host m)) m) (then_step ?rf (start_firecracker_process E (fc_tap_name fc)
        (state_file dir ''firecracker.socket'') (state_file dir ''firecracker-config.json'') (state_file dir ''firecracker.pid'')
        (state_file dir ''firecracker.stdout.log'') (state_file dir ''firecracker.stderr.log''))) m1 = (x, m2)"
    then show "same_elsewhere (provider_files dir) m1 m2" by (rule then_step_same) (use ck tail in blast)+
  qed (use ck in blast)
qed

section \<open>The fleet\<close>

definition machine_of :: "chat_env \<Rightarrow> str \<Rightarrow> chat_host \<Rightarrow> firecracker_vm option" where
  "machine_of E i h = Option.bind (spec_of E i h) (\<lambda>s. vm_firecracker (as_vm s))"

text \<open>
  Two machines are apart when their tap and MAC address differ by more than the case of ASCII letters and their host address,
  guest address and root image differ; the fleet is disjoint when every two of its agents' machines are.
\<close>

definition apart :: "firecracker_vm \<Rightarrow> firecracker_vm \<Rightarrow> bool" where
  "apart a b \<longleftrightarrow> to_ascii_lowercase (fc_tap_name a) \<noteq> to_ascii_lowercase (fc_tap_name b) \<and>
     to_ascii_lowercase (fc_guest_mac a) \<noteq> to_ascii_lowercase (fc_guest_mac b) \<and>
     fc_host_ip a \<noteq> fc_host_ip b \<and> fc_guest_ip a \<noteq> fc_guest_ip b \<and> fc_rootfs_image a \<noteq> fc_rootfs_image b"

definition fleet_disjoint :: "chat_env \<Rightarrow> str set \<Rightarrow> chat_host \<Rightarrow> bool" where
  "fleet_disjoint E ids h \<longleftrightarrow> (\<forall>i\<in>ids. \<forall>j\<in>ids. i \<noteq> j \<longrightarrow> (\<forall>a b. machine_of E i h = Some a \<longrightarrow> machine_of E j h = Some b \<longrightarrow> apart a b))"

lemma apart_sym: "apart a b \<Longrightarrow> apart b a"
  by (auto simp: apart_def)

lemma no_conflicts_iff: "network_conflicts a b = [] \<longleftrightarrow> apart a b"
  by (simp add: network_conflicts_def eq_ignore_case_def apart_def)

lemma no_collision:
  assumes "check_network_collisions E entries h s = []" "vm_firecracker (as_vm s) = Some fc" "j \<in> set entries" "j \<noteq> id_id (as_identity s)" "machine_of E j h = Some b"
  shows "apart b fc"
  using assms by (auto simp: no_conflicts_iff check_network_collisions_def collision_with_def machine_of_def split: if_splits dest!: bspec)

lemma write_all_frame: "write_all E ws h = (e, h') \<Longrightarrow> p \<notin> set (map (fst \<circ> snd) ws) \<Longrightarrow> ch_files h' p = ch_files h p"
proof (induction ws arbitrary: h)
  case (Cons w ws)
  obtain k q c where w: "w = (k, q, c)" by (cases w)
  show ?case using Cons by (cases k) (auto simp: w write_file_def write_if_absent_def split: if_splits sum.splits)
qed simp

lemma write_all_first: "write_all E ((Always, p, c) # ws) h = (None, h') \<Longrightarrow> p \<notin> set (map (fst \<circ> snd) ws) \<Longrightarrow> ch_files h' p = Some c"
  using write_all_frame [of E ws "h\<lparr>ch_files := (ch_files h)(p := Some c)\<rparr>" None h' p] by (auto simp: write_file_def split: if_splits)

text \<open>Materializing changes only the agent's own files; what it accepted is its specification afterwards.\<close>

lemma valid_simple: "vr_valid (validate_spec w s) \<Longrightarrow> simple_name (id_id (as_identity s))"
proof -
  assume "vr_valid (validate_spec w s)"
  then have "validate_id (id_id (as_identity s)) = []" by (simp add: vr_valid_iff spec_errors_def)
  then have "id_id (as_identity s) \<noteq> []" "\<forall>c\<in>set (id_id (as_identity s)). is_ascii_lower c \<or> is_digit c \<or> c = CHR ''-''"
    by (auto simp: validate_id_def trim_text_def list_all_iff split: if_splits)
  then show ?thesis by (auto simp: simple_name_def is_ascii_lower_def is_digit_def)
qed

definition own_files :: "chat_env \<Rightarrow> str \<Rightarrow> str set" where
  "own_files E i = agent_file E i ` {''MATURANA.md'', ''AGENTS.md'', ''IDENTITY.md'', ''SOUL.md'', ''launch-plan.json''} \<union> provider_files (agent_dir (ce_root E) i)"

lemma plan_for_frame: "plan_for M s dir h = Inr (c, h') \<Longrightarrow> p \<notin> provider_files dir \<Longrightarrow> ch_files h' p = ch_files h p"
  by (auto simp: plan_for_def plan_frame split: host_provider.splits)

lemma launch_for_frame: "launch_for M s dir m = (e, m') \<Longrightarrow> same_elsewhere (provider_files dir) m m'"
  using provider_launch_frame [of "me_provider M" s dir m] by (auto simp: launch_for_def same_refl split: host_provider.splits prod.splits)

text \<open>The stages of a successful call.\<close>

lemma materialize_steps:
  assumes "materialize_agent M s source mode m = (Inr r, m')"
  obtains h1 cmds h2 h3 where "vr_valid (validate_spec False s)" "mode = Apply \<Longrightarrow> check_network_collisions (me_chat M) (me_entries M) (mc_host m) s = []"
    "write_all (me_chat M) (agent_files M s source) (mc_host m) = (None, h1)"
    "plan_for M s (agent_dir (ce_root (me_chat M)) (id_id (as_identity s))) h1 = Inr (cmds, h2)"
    "write_file (me_chat M) (agent_file (me_chat M) (id_id (as_identity s)) ''launch-plan.json'') (me_commands M cmds) h2 = Inr h3"
    "if mode = Apply then launch_for M s (agent_dir (ce_root (me_chat M)) (id_id (as_identity s))) (m\<lparr>mc_host := h3\<rparr>) = (None, m') else m' = m\<lparr>mc_host := h3\<rparr>"
  using assms unfolding materialize_agent_def Let_def
  by (auto split: if_splits prod.splits option.splits sum.splits)

lemma agent_files_own: "set (map (fst \<circ> snd) (agent_files M s source)) \<subseteq> own_files (me_chat M) (id_id (as_identity s))"
  by (auto simp: agent_files_def own_files_def Let_def)

lemma write_all_authored: "write_all E ws h = (e, h') \<Longrightarrow> ch_files h p = Some c \<Longrightarrow> \<forall>w\<in>set ws. fst (snd w) = p \<longrightarrow> fst w = IfAbsent \<Longrightarrow> ch_files h' p = Some c"
proof (induction ws arbitrary: h)
  case (Cons w ws)
  obtain k q d where w: "w = (k, q, d)" by (cases w)
  show ?case using Cons by (cases k; cases "q = p") (auto simp: w write_file_def write_if_absent_def split: if_splits sum.splits)
qed simp

text \<open>Whatever the result: one of a prefix of the stages.\<close>

lemma materialize_outcomes:
  assumes run: "materialize_agent M s source mode m = (r, m')"
  obtains (refused) e where "r = Inl e" "m' = m"
    | (wrote) e1 h1 where "vr_valid (validate_spec False s)" "write_all (me_chat M) (agent_files M s source) (mc_host m) = (e1, h1)" "m' = m\<lparr>mc_host := h1\<rparr>"
    | (planned) e1 h1 cmds h2 where "vr_valid (validate_spec False s)" "write_all (me_chat M) (agent_files M s source) (mc_host m) = (e1, h1)"
        "plan_for M s (agent_dir (ce_root (me_chat M)) (id_id (as_identity s))) h1 = Inr (cmds, h2)" "m' = m\<lparr>mc_host := h2\<rparr>"
    | (listed) e1 h1 cmds h2 h3 e where "vr_valid (validate_spec False s)" "write_all (me_chat M) (agent_files M s source) (mc_host m) = (e1, h1)"
        "plan_for M s (agent_dir (ce_root (me_chat M)) (id_id (as_identity s))) h1 = Inr (cmds, h2)"
        "write_file (me_chat M) (agent_file (me_chat M) (id_id (as_identity s)) ''launch-plan.json'') (me_commands M cmds) h2 = Inr h3"
        "m' = m\<lparr>mc_host := h3\<rparr> \<or> launch_for M s (agent_dir (ce_root (me_chat M)) (id_id (as_identity s))) (m\<lparr>mc_host := h3\<rparr>) = (e, m')"
proof -
  let ?E = "me_chat M" and ?i = "id_id (as_identity s)"
  let ?dir = "agent_dir (ce_root ?E) ?i"
  let ?no = "\<not> vr_valid (validate_spec False s) \<or> check_network_collisions ?E (me_entries M) (mc_host m) s \<noteq> [] \<and> mode = Apply"
  show thesis
  proof (cases ?no)
    case True
    then show thesis using run refused by (auto simp: materialize_agent_def Let_def split: if_splits)
  next
    case ok: False
    obtain e1 h1 where w: "write_all ?E (agent_files M s source) (mc_host m) = (e1, h1)" by fastforce
    show thesis
    proof (cases "e1 \<noteq> None \<or> (\<exists>x. plan_for M s ?dir h1 = Inl x)")
      case True
      then have "m' = m\<lparr>mc_host := h1\<rparr>" using run ok by (cases e1) (auto simp: materialize_agent_def Let_def w split: if_splits)
      then show thesis using wrote w ok by blast
    next
      case False
      then obtain cmds h2 where p: "plan_for M s ?dir h1 = Inr (cmds, h2)" by (cases "plan_for M s ?dir h1") auto
      show thesis
      proof (cases "write_file ?E (agent_file ?E ?i ''launch-plan.json'') (me_commands M cmds) h2")
        case (Inl x)
        then have "m' = m\<lparr>mc_host := h2\<rparr>" using run ok False p by (auto simp: materialize_agent_def Let_def w split: if_splits)
        then show thesis using planned w p ok by blast
      next
        case (Inr h3)
        obtain e m4 where l: "launch_for M s ?dir (m\<lparr>mc_host := h3\<rparr>) = (e, m4)" by fastforce
        have "m' = m\<lparr>mc_host := h3\<rparr> \<or> m' = m4" using run ok False p Inr l by (auto simp: materialize_agent_def Let_def w split: if_splits option.splits)
        then show thesis using listed w p ok Inr l by blast
      qed
    qed
  qed
qed

lemma materialize_own:
  assumes run: "materialize_agent M s source mode m = (r, m')" and p: "p \<notin> own_files (me_chat M) (id_id (as_identity s))"
  shows "ch_files (mc_host m') p = ch_files (mc_host m) p"
proof -
  let ?i = "id_id (as_identity s)"
  have q: "p \<notin> set (map (fst \<circ> snd) (agent_files M s source))" "p \<notin> provider_files (agent_dir (ce_root (me_chat M)) ?i)"
      "p \<noteq> agent_file (me_chat M) ?i ''launch-plan.json''" using p agent_files_own [of M s source] by (auto simp: own_files_def)
  from run show ?thesis
  proof (cases rule: materialize_outcomes)
    case (wrote e1 h1)
    then show ?thesis using write_all_frame [OF wrote(2) q(1)] by simp
  next
    case (planned e1 h1 cmds h2)
    then show ?thesis using write_all_frame [OF planned(2) q(1)] plan_for_frame [OF planned(3) q(2)] by simp
  next
    case (listed e1 h1 cmds h2 h3 e)
    have "ch_files h3 p = ch_files (mc_host m) p"
      using write_all_frame [OF listed(2) q(1)] plan_for_frame [OF listed(3) q(2)] listed(4) q(3) by (auto simp: write_file_def split: if_splits)
    then show ?thesis using listed(5) launch_for_frame q(2) by (fastforce simp: same_elsewhere_def)
  qed simp
qed

lemma materialize_authored:
  assumes run: "materialize_agent M s source mode m = (r, m')" and f: "f \<in> {''IDENTITY.md'', ''SOUL.md''}"
    and c: "ch_files (mc_host m) (agent_file (me_chat M) (id_id (as_identity s)) f) = Some c"
  shows "ch_files (mc_host m') (agent_file (me_chat M) (id_id (as_identity s)) f) = Some c"
proof -
  let ?i = "id_id (as_identity s)" and ?E = "me_chat M"
  let ?p = "agent_file ?E ?i f"
  have simple: "vr_valid (validate_spec False s) \<Longrightarrow> simple_name ?i" by (rule valid_simple)
  have fn: "simple_name f" using f agent_file_names by auto
  have w: "write_all ?E (agent_files M s source) (mc_host m) = (e1, h1) \<Longrightarrow> vr_valid (validate_spec False s) \<Longrightarrow> ch_files h1 ?p = Some c" for e1 h1
    by (erule write_all_authored) (use c f simple fn in \<open>auto simp: agent_files_def Let_def agent_paths\<close>)
  have q: "?p \<notin> provider_files (agent_dir (ce_root ?E) ?i)" "?p \<noteq> agent_file ?E ?i ''launch-plan.json''" if "vr_valid (validate_spec False s)"
    using simple [OF that] fn f by (auto simp: provider_files_def agent_paths)
  from run show ?thesis
  proof (cases rule: materialize_outcomes)
    case (wrote e1 h1)
    then show ?thesis using w by simp
  next
    case (planned e1 h1 cmds h2)
    then show ?thesis using w [OF planned(2,1)] plan_for_frame [OF planned(3) q(1)] by simp
  next
    case (listed e1 h1 cmds h2 h3 e)
    have "ch_files h3 ?p = Some c"
      using w [OF listed(2,1)] plan_for_frame [OF listed(3) q(1)] listed(1,4) q(2) by (auto simp: write_file_def split: if_splits)
    then show ?thesis using listed(1,5) launch_for_frame q(1) by (fastforce simp: same_elsewhere_def)
  qed (use c in simp)
qed

text \<open>
  Whatever comes of materializing an agent: no file outside the agent's own changes, authored identity and soul files are
  kept, and a specification that is invalid or, for a launch, collides with another agent's changes nothing at all.
\<close>

theorem materialize_confined:
  assumes run: "materialize_agent M s source mode m = (r, m')"
  shows "(\<forall>p. p \<notin> own_files (me_chat M) (id_id (as_identity s)) \<longrightarrow> ch_files (mc_host m') p = ch_files (mc_host m) p) \<and>
    (\<forall>f\<in>{''IDENTITY.md'', ''SOUL.md''}. \<forall>c. ch_files (mc_host m) (agent_file (me_chat M) (id_id (as_identity s)) f) = Some c \<longrightarrow>
       ch_files (mc_host m') (agent_file (me_chat M) (id_id (as_identity s)) f) = Some c) \<and>
    (\<not> vr_valid (validate_spec False s) \<or> (mode = Apply \<and> check_network_collisions (me_chat M) (me_entries M) (mc_host m) s \<noteq> []) \<longrightarrow> m' = m)"
  using materialize_own [OF run] materialize_authored [OF run] run by (auto simp: materialize_agent_def Let_def split: if_splits)

lemma spec_of_written: "ch_files h (spec_path E i) = Some source \<Longrightarrow> utf8 source \<Longrightarrow> from_maturana_markdown (ce_yaml E) source = Inr s \<Longrightarrow> spec_of E i h = Some s"
  by (simp add: spec_of_def read_file_def)

lemma spec_of_same: "ch_files h' (spec_path E i) = ch_files h (spec_path E i) \<Longrightarrow> spec_of E i h' = spec_of E i h"
  by (simp add: spec_of_def read_file_def)

lemma materialize_source:
  assumes run: "materialize_agent M s source mode m = (Inr r, m')"
  shows "ch_files (mc_host m') (spec_path (me_chat M) (id_id (as_identity s))) = Some source"
proof -
  let ?i = "id_id (as_identity s)" and ?E = "me_chat M"
  from run show ?thesis
  proof (rule materialize_steps)
    fix h1 cmds h2 h3 assume v: "vr_valid (validate_spec False s)" and w: "write_all ?E (agent_files M s source) (mc_host m) = (None, h1)"
      and pl: "plan_for M s (agent_dir (ce_root ?E) ?i) h1 = Inr (cmds, h2)"
      and l: "write_file ?E (agent_file ?E ?i ''launch-plan.json'') (me_commands M cmds) h2 = Inr h3"
      and e: "if mode = Apply then launch_for M s (agent_dir (ce_root ?E) ?i) (m\<lparr>mc_host := h3\<rparr>) = (None, m') else m' = m\<lparr>mc_host := h3\<rparr>"
    have i: "simple_name ?i" using valid_simple [OF v] .
    have q: "spec_path ?E ?i \<notin> provider_files (agent_dir (ce_root ?E) ?i)" using i by (auto simp: spec_path_file provider_files_def agent_paths)
    have "ch_files h1 (spec_path ?E ?i) = Some source"
      using w unfolding agent_files_def Let_def spec_path_file by (rule write_all_first) (simp add: i agent_paths)
    then have "ch_files h3 (spec_path ?E ?i) = Some source"
      using plan_for_frame [OF pl q] l i by (auto simp: write_file_def spec_path_file agent_paths split: if_splits)
    then show ?thesis using e launch_for_frame q by (fastforce simp: same_elsewhere_def split: if_splits)
  qed
qed

text \<open>
  C30. Launching keeps the fleet's machines apart: if no two of the agents in the directory share a tap, host or guest address, MAC
  address or root image, then no two do with the launched agent among them, whatever specification it had before.
\<close>

theorem launch_keeps_fleet_disjoint:
  assumes run: "materialize_agent M s source mode m = (Inr r, m')" and launch: "mode = Apply \<or> ma_collisions r = []"
    and source: "utf8 source" "from_maturana_markdown (ce_yaml (me_chat M)) source = Inr s"
    and names: "list_all simple_name (me_entries M)"
    and disjoint: "fleet_disjoint (me_chat M) (set (me_entries M)) (mc_host m)"
  shows "fleet_disjoint (me_chat M) (insert (id_id (as_identity s)) (set (me_entries M))) (mc_host m')"
proof -
  let ?i = "id_id (as_identity s)" and ?E = "me_chat M" and ?h = "mc_host m'"
  have v: "vr_valid (validate_spec False s)" using run by (rule materialize_steps)
  have i: "simple_name ?i" using valid_simple [OF v] .
  have c: "check_network_collisions ?E (me_entries M) (mc_host m) s = []"
    using run launch unfolding materialize_agent_def Let_def by (auto split: if_splits prod.splits option.splits sum.splits)
  have own: "machine_of ?E ?i ?h = vm_firecracker (as_vm s)"
    using spec_of_written [OF materialize_source [OF run] source] by (simp add: machine_of_def)
  have other: "machine_of ?E j ?h = machine_of ?E j (mc_host m)" if j: "simple_name j" "j \<noteq> ?i" for j
  proof -
    have "spec_path ?E j \<notin> own_files ?E ?i" using i j by (auto simp: own_files_def provider_files_def spec_path_file agent_paths)
    then show ?thesis using spec_of_same materialize_own [OF run] by (metis machine_of_def)
  qed
  have clash: "apart b fc" if "j \<in> set (me_entries M)" "j \<noteq> ?i" "machine_of ?E j ?h = Some b" "machine_of ?E ?i ?h = Some fc" for j b fc
    using no_collision [OF c, of fc j b] that own other names by (auto simp: list_all_iff)
  show ?thesis
    unfolding fleet_disjoint_def
  proof (intro ballI impI allI)
    fix j k a b assume jk: "j \<in> insert ?i (set (me_entries M))" "k \<in> insert ?i (set (me_entries M))" "j \<noteq> k"
      and ab: "machine_of ?E j ?h = Some a" "machine_of ?E k ?h = Some b"
    consider "j = ?i" "k \<in> set (me_entries M)" "k \<noteq> ?i" | "k = ?i" "j \<in> set (me_entries M)" "j \<noteq> ?i"
      | "j \<in> set (me_entries M)" "k \<in> set (me_entries M)" "j \<noteq> ?i" "k \<noteq> ?i" using jk by auto
    then show "apart a b"
    proof cases
      case 1
      then show ?thesis using clash [of k b a] ab apart_sym by auto
    next
      case 2
      then show ?thesis using clash [of j a b] ab by auto
    next
      case 3
      then show ?thesis using disjoint jk(3) ab other names by (auto simp: fleet_disjoint_def list_all_iff)
    qed
  qed
qed

section \<open>Two agents to evaluate on\<close>

definition demo_fleet_agent :: "str \<Rightarrow> agent_description" where
  "demo_fleet_agent i = demo_agent\<lparr>as_identity := \<lparr> id_id = i, id_name = i, id_purpose = ''x'' \<rparr>,
     as_vm := (as_vm demo_agent)\<lparr>vm_provider := HyperV, vm_firecracker := Some \<lparr> fc_kernel_image = ''k'', fc_rootfs_image = i @ ''r'', fc_tap_name = i @ ''t'',
       fc_host_ip = i @ ''h'', fc_guest_ip = i @ ''g'', fc_guest_mac = i @ ''m'', fc_kernel_args = [] \<rparr>\<rparr>\<rparr>"

definition demo_source :: "str \<Rightarrow> str" where
  "demo_source i = ''---'' @ crlf @ i @ crlf @ ''---''"

definition demo_materialize :: materialize_env where
  "demo_materialize = \<lparr> me_provider = demo_provider\<lparr>pe_chat := demo_chat_env\<lparr>ce_yaml := (\<lambda>t. if t \<in> {''a'', ''b''} then Some (demo_fleet_agent t) else None)\<rparr>\<rparr>,
     me_entries = [''b''], me_agents = (\<lambda>_. ''agents''), me_identity = (\<lambda>_. ''identity''), me_soul = (\<lambda>_. ''soul''), me_commands = (\<lambda>_. ''plan''), me_hostd = None,
     me_base_image = ''v'', me_hyperv = True, me_audit = True \<rparr>"

definition demo_fleet :: machine where
  "demo_fleet = \<lparr> mc_host = \<lparr> ch_files = (\<lambda>p. if p = ''/h/agents/b/MATURANA.md'' then Some (demo_source ''b'')
      else if p = ''/h/agents/a/SOUL.md'' then Some ''my soul'' else None), ch_sessions = (\<lambda>_. None) \<rparr>, mc_sockets = (\<lambda>_. False), mc_procs = (\<lambda>_. None) \<rparr>"

definition demo_materialized :: "(fleet_error + materialized_agent) \<times> machine" where
  "demo_materialized = materialize_agent demo_materialize (demo_fleet_agent ''a'') (demo_source ''a'') Apply demo_fleet"

lemma demo_materialize_ok: "isl (fst demo_materialized) = False"
  by code_simp

lemma demo_materialize_run:
  "\<exists>r. materialize_agent demo_materialize (demo_fleet_agent ''a'') (demo_source ''a'') Apply demo_fleet = (Inr r, snd demo_materialized)"
  using demo_materialize_ok by (cases "fst demo_materialized") (auto simp: demo_materialized_def prod_eq_iff)

theorem materialize_confined_witness:
  "ch_files (mc_host (snd demo_materialized)) ''/h/agents/a/SOUL.md'' = Some ''my soul'' \<and>
   ch_files (mc_host (snd demo_materialized)) ''/h/agents/b/MATURANA.md'' = Some (demo_source ''b'')"
proof -
  obtain r where run: "materialize_agent demo_materialize (demo_fleet_agent ''a'') (demo_source ''a'') Apply demo_fleet = (Inr r, snd demo_materialized)"
    using demo_materialize_run by blast
  have i: "id_id (as_identity (demo_fleet_agent ''a'')) = ''a''" by (simp add: demo_fleet_agent_def)
  have p: "agent_file (me_chat demo_materialize) ''a'' ''SOUL.md'' = ''/h/agents/a/SOUL.md''" by code_simp
  have b: "spec_path (me_chat demo_materialize) ''b'' = ''/h/agents/b/MATURANA.md''" by code_simp
  have simple: "simple_name ''a''" "simple_name ''b''" by code_simp+
  have "''/h/agents/b/MATURANA.md'' \<notin> own_files (me_chat demo_materialize) ''a''"
    unfolding b [symmetric] using simple by (auto simp: own_files_def provider_files_def spec_path_file agent_paths)
  then show ?thesis using materialize_confined [OF run] by (simp add: i p demo_fleet_def)
qed

theorem launch_keeps_fleet_disjoint_witness:
  "fleet_disjoint (me_chat demo_materialize) (insert (id_id (as_identity (demo_fleet_agent ''a''))) (set (me_entries demo_materialize))) (mc_host (snd demo_materialized))"
proof -
  obtain r where run: "materialize_agent demo_materialize (demo_fleet_agent ''a'') (demo_source ''a'') Apply demo_fleet = (Inr r, snd demo_materialized)"
    using demo_materialize_run by blast
  show ?thesis
  proof (rule launch_keeps_fleet_disjoint [OF run])
    show "from_maturana_markdown (ce_yaml (me_chat demo_materialize)) (demo_source ''a'') = Inr (demo_fleet_agent ''a'')" by code_simp
    show "list_all simple_name (me_entries demo_materialize)" "utf8 (demo_source ''a'')" by code_simp+
    show "fleet_disjoint (me_chat demo_materialize) (set (me_entries demo_materialize)) (mc_host demo_fleet)" by (simp add: fleet_disjoint_def demo_materialize_def)
  qed simp
qed

section \<open>Profiles and images\<close>

text \<open>The networks of the bundled agents are those of their host addresses, and the bundled agents are apart.\<close>

lemma builtin_networks: "\<forall>p\<in>set builtin_firecracker_profiles. cidr_for_host_ip (hp_host_ip p) = Inr (hp_cidr p)"
proof -
  have o: "ipv4_octet ''172'' = Some 172" "ipv4_octet ''30'' = Some 30" "ipv4_octet ''10'' = Some 10" "ipv4_octet ''1'' = Some 1" "ipv4_octet ''5'' = Some 5" "ipv4_octet ''9'' = Some 9"
    by (simp_all add: ipv4_octet_def is_digit_def digits_val_def digit_val_def)
  have "char_of (48 :: nat) = CHR ''0''" "char_of (49 :: nat) = CHR ''1''" "char_of (50 :: nat) = CHR ''2''" "char_of (51 :: nat) = CHR ''3''"
    "char_of (52 :: nat) = CHR ''4''" "char_of (55 :: nat) = CHR ''7''" "char_of (56 :: nat) = CHR ''8''" by code_simp+
  then show ?thesis
    by (simp add: builtin_firecracker_profiles_def cidr_for_host_ip_def parse_address_def o show_address_def Let_def show_nat.simps)
qed

lemma split_show_nat: "split_on CHR ''.'' (show_nat n @ CHR ''.'' # rest) = show_nat n # split_on CHR ''.'' rest"
proof -
  have "CHR ''.'' \<notin> set (show_nat n)" using show_nat_plain by (force simp: byte_in_def)
  then show ?thesis by (simp add: split_on_append split_on_plain)
qed

lemma octet_round_trip: "n < 256 \<Longrightarrow> ipv4_octet (show_nat n) = Some n"
proof -
  assume n: "n < 256"
  have l: "length (show_nat n) \<le> 3" using n by (simp add: show_nat.simps [of n] show_nat.simps [of "n div 10"] show_nat.simps [of "n div 10 div 10"])
  have z: "\<not> (1 < length (show_nat n) \<and> hd (show_nat n) = CHR ''0'')"
  proof (cases "n < 10")
    case True
    then show ?thesis by (simp add: show_nat.simps [of n])
  next
    case False
    have d: "char_of (48 + m) \<noteq> CHR ''0''" if "0 < m" "m < 10" for m :: nat
    proof
      assume "char_of (48 + m) = CHR ''0''"
      then have "digit_val (char_of (48 + m)) = digit_val CHR ''0''" by (simp only:)
      then show False using that by (simp add: digit_val_def)
    qed
    show ?thesis
    proof (cases "n div 10 < 10")
      case True
      then show ?thesis using False d [of "n div 10"] by (simp add: show_nat.simps [of n] show_nat.simps [of "n div 10"] div_greater_zero_iff)
    next
      case big: False
      have "0 < n div 10 div 10" "n div 10 div 10 < 10" using n big by (simp_all add: div_greater_zero_iff)
      then show ?thesis using False big d [of "n div 10 div 10"] by (simp add: show_nat.simps [of n] show_nat.simps [of "n div 10"] show_nat.simps [of "n div 10 div 10"])
    qed
  qed
  show ?thesis using n l z show_nat_digits [of n] by (auto simp: ipv4_octet_def)
qed

lemma ipv4_round_trip: "parse_address (show_address w) = Some w"
proof -
  let ?n = "unat w"
  have n: "?n < 256 * 256 * 256 * 256" using unsigned_less [of w] by simp
  have s: "split_on CHR ''.'' (show_nat k) = [show_nat k]" for k
    using split_on_plain [of "CHR ''.''" "show_nat k"] show_nat_plain [of _ k] by (force simp: byte_in_def)
  have p: "(2 :: nat) ^ 24 = 256 * 256 * 256" "(2 :: nat) ^ 16 = 256 * 256" "(2 :: nat) ^ 8 = 256" by simp_all
  have a: "?n div (256 * 256 * 256) < 256" using n by (simp add: less_mult_imp_div_less)
  have "((?n div (256 * 256 * 256) * 256 + ?n div (256 * 256) mod 256) * 256 + ?n div 256 mod 256) * 256 + ?n mod 256 = ?n"
    by (simp only: div_mult2_eq div_mult_mod_eq)
  then show ?thesis
    unfolding parse_address_def show_address_def Let_def p
    by (simp only: append.simps append_assoc split_show_nat s list.map octet_round_trip a mod_less_divisor zero_less_numeral list.case option.case) simp
qed

text \<open>A verified image is the manifest's: size, hash and format of what is on disk.\<close>

lemma image_verified:
  assumes "validate_firecracker_asset_manifest I p manifest_path image_dir key h = Inr ()"
  obtains raw mf k r where "read_file (absolute_or_cwd (im_cwd I) manifest_path) h = Inr raw" "im_manifest I raw = Some mf" "am_agent_id mf = hp_agent_id p"
    "am_guest_ip mf = hp_guest_ip p" "am_host_ip mf = hp_host_ip p" "am_tap_name mf = hp_tap_name p"
    "ch_files h (path_join (absolute_or_cwd (im_cwd I) image_dir) ''vmlinux.bin'') = Some k" "im_sha256 I k = to_ascii_lowercase (am_kernel_sha256 mf)" "take 4 k = elf_magic"
    "ch_files h (path_join (absolute_or_cwd (im_cwd I) image_dir) ''ubuntu-rootfs.ext4'') = Some r" "im_sha256 I r = to_ascii_lowercase (am_rootfs_sha256 mf)"
    "int (length r) = uint (am_rootfs_bytes mf)"
proof -
  let ?d = "absolute_or_cwd (im_cwd I) image_dir"
  obtain raw mf where raw: "read_file (absolute_or_cwd (im_cwd I) manifest_path) h = Inr raw" "im_manifest I raw = Some mf"
    using assms by (auto simp: validate_firecracker_asset_manifest_def Let_def split: sum.splits option.splits)
  have ids: "am_agent_id mf = hp_agent_id p" "am_guest_ip mf = hp_guest_ip p" "am_host_ip mf = hp_host_ip p" "am_tap_name mf = hp_tap_name p"
    using assms by (auto simp: validate_firecracker_asset_manifest_def Let_def raw split: if_splits)
  have checks: "validate_elf_file (path_join ?d ''vmlinux.bin'') h = Inr ()" "validate_exact_size_file ''rootfs'' (path_join ?d ''ubuntu-rootfs.ext4'') (am_rootfs_bytes mf) h = Inr ()"
    "validate_manifest_sha256 I ''kernel'' (path_join ?d ''vmlinux.bin'') (am_kernel_sha256 mf) h = Inr ()"
    "validate_manifest_sha256 I ''rootfs'' (path_join ?d ''ubuntu-rootfs.ext4'') (am_rootfs_sha256 mf) h = Inr ()"
    using assms by (auto simp: validate_firecracker_asset_manifest_def Let_def raw bind_result_Inr split: if_splits)
  show thesis
    using checks raw ids that by (auto simp: validate_elf_file_def validate_exact_size_file_def validate_manifest_sha256_def split: option.splits if_splits)
qed

end
