(* ===== verification/Runtime_Plane.thy ===== *)
theory Runtime_Plane
  imports Fleet
begin

text \<open>
  The runtime plane: the configuration \<open>maturana up\<close> derives from the agents' specifications
  (\<open>crates/maturana-cli/src/commands/up.rs\<close>, \<open>crates/maturana-ops/src/agents.rs\<close>), the processes it plans
  (\<open>crates/maturana-core/src/orchestrator.rs\<close>), their supervision, the tokens of \<open>crates/maturana-ops/src/runtime_plane.rs\<close>, and
  the proactive loop of \<open>crates/maturana-cli/src/proactive.rs\<close>. Processes, clocks and random tokens are the environment.
\<close>

section \<open>The plan\<close>

record slack_runtime =
  sk_bot_token_source :: str
  sk_app_token_source :: str

record agentmail_runtime =
  ml_api_key_source :: str
  ml_inbox :: "str option"

record agent_runtime =
  ar_agent_id :: str
  ar_session_id :: str
  ar_telegram :: bool
  ar_telegram_token_source :: str
  ar_schedules :: bool
  ar_proactive :: bool
  ar_slack :: "slack_runtime option"
  ar_discord :: "str option"
  ar_agentmail :: "agentmail_runtime option"
  ar_proxy :: bool

record orchestrator_config =
  oc_sessiond_bind :: str
  oc_sessiond_token :: "str option"
  oc_channel_poll_seconds :: u64
  oc_schedule_poll_seconds :: u64
  oc_agents :: "agent_runtime list"
  oc_graph_bind :: str
  oc_graph_token :: "str option"
  oc_claude_refresh_agents :: "str list"

record supervised_process =
  sp_name :: str
  sp_args :: "str list"
  sp_critical :: bool

abbreviation runner :: "str \<Rightarrow> str list \<Rightarrow> supervised_process" where
  "runner name args \<equiv> \<lparr> sp_name = name, sp_args = args, sp_critical = False \<rparr>"

definition show_u64 :: "u64 \<Rightarrow> str" where "show_u64 w = show_nat (unat w)"

definition host_processes :: "orchestrator_config \<Rightarrow> supervised_process list" where
  "host_processes c =
     [\<lparr> sp_name = ''sessiond'',
        sp_args = [''session'', ''serve'', ''--bind'', oc_sessiond_bind c] @ (case oc_sessiond_token c of Some t \<Rightarrow> [''--token'', t] | None \<Rightarrow> []),
        sp_critical = True \<rparr>] @
     (case oc_graph_token c of
        Some t \<Rightarrow> [runner ''graph'' [''graph'', ''serve'', ''--bind'', oc_graph_bind c, ''--token'', t]] | None \<Rightarrow> []) @
     (case oc_sessiond_token c of
        Some t \<Rightarrow> [runner ''a2a'' [''a2a'', ''serve'', ''--bind'', ''0.0.0.0:47837'', ''--token'', t]] | None \<Rightarrow> []) @
     (if oc_claude_refresh_agents c = [] then []
      else [runner ''claude-refresh'' ([''claude-refresh'', ''serve''] @ concat (map (\<lambda>a. [''--agent-id'', a]) (oc_claude_refresh_agents c)))])"

definition channel_args :: "str \<Rightarrow> agent_runtime \<Rightarrow> str list" where
  "channel_args kind a = [''channel'', ''serve'', kind, ''--agent-id'', ar_agent_id a, ''--session-id'', ar_session_id a]"

definition agent_processes :: "orchestrator_config \<Rightarrow> agent_runtime \<Rightarrow> supervised_process list" where
  "agent_processes c a =
     (if ar_telegram a then [runner (''channel:telegram:'' @ ar_agent_id a)
        (channel_args ''telegram'' a @ [''--token-source'', ar_telegram_token_source a, ''--poll-seconds'', show_u64 (oc_channel_poll_seconds c)])] else []) @
     (case ar_slack a of Some s \<Rightarrow> [runner (''channel:slack:'' @ ar_agent_id a)
        (channel_args ''slack'' a @ [''--bot-token-source'', sk_bot_token_source s, ''--app-token-source'', sk_app_token_source s])] | None \<Rightarrow> []) @
     (case ar_discord a of Some b \<Rightarrow> [runner (''channel:discord:'' @ ar_agent_id a) (channel_args ''discord'' a @ [''--bot-token-source'', b])] | None \<Rightarrow> []) @
     (case ar_agentmail a of Some m \<Rightarrow> [runner (''channel:agentmail:'' @ ar_agent_id a)
        (channel_args ''agentmail'' a @ [''--api-key-source'', ml_api_key_source m, ''--poll-seconds'', show_u64 (oc_channel_poll_seconds c)] @
         (case ml_inbox m of Some i \<Rightarrow> [''--inbox'', i] | None \<Rightarrow> []))] | None \<Rightarrow> []) @
     (if ar_schedules a then [runner (''schedule:'' @ ar_agent_id a)
        [''schedule'', ''serve'', ar_agent_id a, ''--session-id'', ar_session_id a, ''--poll-seconds'', show_u64 (oc_schedule_poll_seconds c)]] else []) @
     (if ar_proactive a then [runner (''proactive:'' @ ar_agent_id a)
        [''proactive'', ''serve'', ar_agent_id a, ''--session-id'', ar_session_id a]] else []) @
     (if ar_proxy a then [runner (''proxy:'' @ ar_agent_id a) [''pipelock'', ''proxy'', ''--agent-id'', ar_agent_id a]] else [])"

definition plan_processes :: "orchestrator_config \<Rightarrow> supervised_process list" where
  "plan_processes c = host_processes c @ concat (map (agent_processes c) (oc_agents c))"

section \<open>From the specifications\<close>

record up_command =
  up_agent_ids :: "str list"
  up_sessiond_bind :: str
  up_sessiond_token :: "str option"
  up_session_id :: "str option"
  up_telegram_token_source :: str
  up_no_telegram :: bool
  up_no_schedules :: bool
  up_no_proactive :: bool
  up_channel_poll_seconds :: u64
  up_schedule_poll_seconds :: u64

text \<open>The token file; \<open>fresh\<close> is the random token, written when there is no file.\<close>

definition ensure_token_file :: "chat_env \<Rightarrow> str \<Rightarrow> str \<Rightarrow> chat_host \<Rightarrow> chat_error + str \<times> chat_host" where
  "ensure_token_file E fresh p h =
     (if ch_files h p \<noteq> None then bind_result (read_file p h) (\<lambda>c. Inr (trim_text c, h))
      else bind_result (write_file E p (fresh @ [newline_byte]) h) (\<lambda>h1. Inr (fresh, h1)))"

definition agent_runtime_of :: "chat_env \<Rightarrow> up_command \<Rightarrow> chat_host \<Rightarrow> str \<Rightarrow> chat_error + agent_runtime" where
  "agent_runtime_of E cmd h agent =
     (let spec = spec_of E agent h;
          chans = map_option as_channels spec;
          own = or_else (map_option tg_token_source (Option.bind chans ch_telegram)) (map_option hp_telegram_token_source (firecracker_profile_for agent))
      in bind_result (case up_session_id cmd of Some s \<Rightarrow> Inr s | None \<Rightarrow> infer_agent_session_id E agent h) (\<lambda>sid.
         Inr \<lparr> ar_agent_id = agent, ar_session_id = sid, ar_telegram = (\<not> up_no_telegram cmd \<and> own \<noteq> None),
               ar_telegram_token_source = (case own of Some t \<Rightarrow> t | None \<Rightarrow> up_telegram_token_source cmd),
               ar_schedules = (\<not> up_no_schedules cmd), ar_proactive = (\<not> up_no_proactive cmd),
               ar_slack = map_option (\<lambda>s. \<lparr> sk_bot_token_source = sl_bot_token_source s, sk_app_token_source = sl_app_token_source s \<rparr>) (Option.bind chans ch_slack),
               ar_discord = Option.bind chans ch_discord,
               ar_agentmail = map_option (\<lambda>m. \<lparr> ml_api_key_source = am_api_key_source m, ml_inbox = am_inbox m \<rparr>) (Option.bind chans ch_agentmail),
               ar_proxy = (case Option.bind spec (\<lambda>s. nw_proxy (as_network s)) of Some p \<Rightarrow> np_enabled p | None \<Rightarrow> False) \<rparr>))"

text \<open>\<open>listed\<close> are the materialized agents (\<open>list_agent_ids\<close> reads the directory).\<close>

definition build_orchestrator_config :: "chat_env \<Rightarrow> str \<Rightarrow> str \<Rightarrow> str list \<Rightarrow> up_command \<Rightarrow> chat_host \<Rightarrow> chat_error + orchestrator_config \<times> chat_host" where
  "build_orchestrator_config E fresh fresh_graph listed cmd h =
     (let ids = (if up_agent_ids cmd = [] then listed else up_agent_ids cmd);
          holds = (\<lambda>f a. case spec_of E a h of Some s \<Rightarrow> f s | None \<Rightarrow> False);
          refresh = filter (\<lambda>a. holds (\<lambda>s. as_harness s = ClaudeCode) a \<and> \<not> holds (\<lambda>s. vm_provider (as_vm s) = Firecracker) a) ids;
          graph = list_ex (holds (\<lambda>s. kg_enabled (as_knowledge_graph s))) ids;
          graph_path = path_join (path_join (ce_root E) ''graph'') ''token''
      in bind_result (collect_results (map (agent_runtime_of E cmd h) ids)) (\<lambda>agents.
         bind_result (case up_sessiond_token cmd of Some t \<Rightarrow> Inr (t, h) | None \<Rightarrow> ensure_token_file E fresh (path_join (ce_root E) ''sessiond/token'') h) (\<lambda>(token, h1).
         bind_result (if graph then bind_result (ensure_token_file E fresh_graph graph_path h1) (\<lambda>(t, h2). Inr (Some t, h2)) else Inr (read_graph_token E h1, h1)) (\<lambda>(gt, h2).
           Inr (\<lparr> oc_sessiond_bind = up_sessiond_bind cmd, oc_sessiond_token = Some token, oc_channel_poll_seconds = up_channel_poll_seconds cmd,
                  oc_schedule_poll_seconds = up_schedule_poll_seconds cmd, oc_agents = agents, oc_graph_bind = ''0.0.0.0:47835'', oc_graph_token = gt,
                  oc_claude_refresh_agents = refresh \<rparr>, h2)))))"

section \<open>Redaction\<close>

fun redact_args :: "bool \<Rightarrow> str list \<Rightarrow> str list" where
  "redact_args secret [] = []"
| "redact_args secret (a # as) = (if secret then ''<redacted>'' # redact_args False as else a # redact_args (a = ''--token'') as)"

definition redact_plan :: "supervised_process list \<Rightarrow> supervised_process list" where
  "redact_plan plan = map (\<lambda>p. p\<lparr>sp_args := redact_args False (sp_args p)\<rparr>) plan"

section \<open>Supervision\<close>

datatype wait_result = Exited | Running | PollFailed

record child_slot =
  cs_process :: supervised_process
  cs_pid :: nat
  cs_started :: int \<comment> \<open>nanoseconds\<close>
  cs_restarts :: u32

text \<open>What the host answers for one child in one poll: its state, the time, and the process a spawn gives with its time.\<close>

record child_answer =
  ca_wait :: wait_result
  ca_now :: int
  ca_spawn :: "(nat \<times> int) option"

datatype supervise_error = CriticalExited str | SpawnFailed str

definition restart_backoff :: "u32 \<Rightarrow> nat" where
  "restart_backoff r = min (2 ^ min (unat r) 4) 16"

definition poll_child :: "child_answer \<Rightarrow> child_slot \<Rightarrow> supervise_error + nat option \<times> child_slot" where
  "poll_child a s =
     (case ca_wait a of
        Exited \<Rightarrow>
          if sp_critical (cs_process s) then Inl (CriticalExited (sp_name (cs_process s)))
          else
            let r = (if ca_now a - cs_started s > 60 * 10 ^ 9 then 0 else cs_restarts s)
            in (case ca_spawn a of
                  None \<Rightarrow> Inl (SpawnFailed (sp_name (cs_process s)))
                | Some (pid, at) \<Rightarrow> Inr (Some (restart_backoff r), s\<lparr>cs_pid := pid, cs_started := at, cs_restarts := sat_add r 1\<rparr>))
      | _ \<Rightarrow> Inr (None, s))"

fun poll_children :: "child_answer list \<Rightarrow> child_slot list \<Rightarrow> supervise_error + nat list \<times> child_slot list" where
  "poll_children as [] = Inr ([], [])"
| "poll_children [] (s # ss) = Inr ([], s # ss)"
| "poll_children (a # as) (s # ss) =
     bind_result (poll_child a s) (\<lambda>(b, s1). bind_result (poll_children as ss) (\<lambda>(bs, ss1).
       Inr ((case b of Some n \<Rightarrow> [n] | None \<Rightarrow> []) @ bs, s1 # ss1)))"

fun start_plan :: "(nat \<times> int) option list \<Rightarrow> supervised_process list \<Rightarrow> supervise_error + child_slot list" where
  "start_plan sp [] = Inr []"
| "start_plan [] (p # ps) = Inl (SpawnFailed (sp_name p))"
| "start_plan (x # xs) (p # ps) =
     (case x of
        None \<Rightarrow> Inl (SpawnFailed (sp_name p))
      | Some (pid, at) \<Rightarrow> bind_result (start_plan xs ps) (\<lambda>ss. Inr (\<lparr> cs_process = p, cs_pid = pid, cs_started = at, cs_restarts = 0 \<rparr> # ss)))"

text \<open>The loop over the polls of a run; it ends with an error or goes on.\<close>

fun supervise :: "child_answer list list \<Rightarrow> child_slot list \<Rightarrow> supervise_error + child_slot list" where
  "supervise [] ss = Inr ss"
| "supervise (as # polls) ss = bind_result (poll_children as ss) (\<lambda>(_, ss1). supervise polls ss1)"

section \<open>The proactive loop\<close>

record proactive_host =
  pr_last_fired_ms :: int \<comment> \<open>0 when the file is missing or unreadable\<close>
  pr_chat :: chat_host

record proactive_tick =
  pt_chat :: chat_env
  pt_vault :: "str \<Rightarrow> str option"
  pt_idle :: "str \<Rightarrow> bool" \<comment> \<open>\<open>idle\<close> in the JSON text\<close>
  pt_checked :: int
  pt_fired :: int
  pt_saved :: bool

definition is_idle :: "proactive_tick \<Rightarrow> str \<Rightarrow> chat_host \<Rightarrow> bool" where
  "is_idle t agent h =
     (case read_file (path_join (agent_dir (ce_root (pt_chat t)) agent) ''channel-settings.json'') h of Inl _ \<Rightarrow> False | Inr raw \<Rightarrow> pt_idle t raw)"

text \<open>\<open>(min_gap_seconds as i64) * 1000\<close> wraps.\<close>

definition gap_ms :: "u64 \<Rightarrow> int" where
  "gap_ms gap = signed_take_bit 63 (sint gap * 1000)"

definition should_fire :: "proactive_tick \<Rightarrow> str \<Rightarrow> u64 \<Rightarrow> proactive_host \<Rightarrow> bool" where
  "should_fire t agent gap h \<longleftrightarrow> \<not> is_idle t agent (pr_chat h) \<and> pt_checked t - pr_last_fired_ms h \<ge> gap_ms gap"

definition proactive_prompt :: str where
  "proactive_prompt =
     ''[PROACTIVE CHECK - you initiated this; the user did NOT message you.]'' @ [newline_byte, newline_byte] @
     ''Review your memory (MEMORY.md), recent conversation, and any follow-ups or '' @
     ''commitments you'' @ [apostrophe] @ ''ve recorded. Decide whether there is something genuinely '' @
     ''worth telling the user right now - a due reminder, a finished task, a timely '' @
     ''update, or a thoughtful, relevant check-in.'' @ [newline_byte, newline_byte] @
     ''- If yes: write ONLY that message to the user, in your own voice.'' @ [newline_byte] @
     ''- If there is nothing worth interrupting them with: reply with exactly '' @
     silence_sentinel @ '' and nothing else.'' @ [newline_byte, newline_byte] @
     ''Be sparing. Silence is better than nagging.''"

text \<open>The result says whether a turn was queued; an error may come after it.\<close>

definition maybe_fire :: "proactive_tick \<Rightarrow> str \<Rightarrow> str \<Rightarrow> u64 \<Rightarrow> str option \<Rightarrow> proactive_host \<Rightarrow> bool \<times> proactive_host" where
  "maybe_fire t agent sid gap directive h =
     (if \<not> should_fire t agent gap h then (False, h)
      else case paired_chat agent (pt_vault t) of
          None \<Rightarrow> (False, h)
        | Some chat \<Rightarrow>
            (case enqueue_outreach_turn (pt_chat t) agent sid chat (case directive of Some d \<Rightarrow> d | None \<Rightarrow> proactive_prompt) ''proactive'' (pr_chat h) of
               (Inl _, c) \<Rightarrow> (False, h\<lparr>pr_chat := c\<rparr>)
             | (Inr _, c) \<Rightarrow> (True, (if pt_saved t then h\<lparr>pr_chat := c, pr_last_fired_ms := pt_fired t\<rparr> else h\<lparr>pr_chat := c\<rparr>))))"

fun proactive_serve :: "str \<Rightarrow> str \<Rightarrow> u64 \<Rightarrow> str option \<Rightarrow> proactive_tick list \<Rightarrow> proactive_host \<Rightarrow> proactive_tick list \<times> proactive_host" where
  "proactive_serve agent sid gap directive [] h = ([], h)"
| "proactive_serve agent sid gap directive (t # ts) h =
     (case maybe_fire t agent sid gap directive h of
        (fired, h1) \<Rightarrow> (case proactive_serve agent sid gap directive ts h1 of (rest, h2) \<Rightarrow> ((if fired then [t] else []) @ rest, h2)))"

section \<open>The plan is consistent\<close>

abbreviation flag_value :: "str \<Rightarrow> str \<Rightarrow> supervised_process \<Rightarrow> bool" where
  "flag_value f v p \<equiv> sublist [f, v] (sp_args p)"

text \<open>The runners that read or write a session queue, by the kind in front of their agent.\<close>

definition session_kinds :: "str list" where
  "session_kinds = [''channel:telegram:'', ''channel:slack:'', ''channel:discord:'', ''channel:agentmail:'', ''schedule:'', ''proactive:'']"

lemma flag_here: "sublist [f, v] (pre @ f # v # post)"
  using sublist_appendI [of "[f, v]" pre post] by simp

lemma agent_process_session:
  assumes "p \<in> set (agent_processes c a)" and "kind \<in> set session_kinds" and "sp_name p = kind @ i"
  shows "ar_agent_id a = i \<and> flag_value ''--session-id'' (ar_session_id a) p"
  using assms(1,2,3)
  by (auto simp: agent_processes_def channel_args_def session_kinds_def flag_here [of _ _ "[_, _, _, _, _]", simplified]
      flag_here [of _ _ "[_, _, _]", simplified] split: if_splits option.splits)

lemma host_process_names:
  assumes "p \<in> set (host_processes c)" and "kind \<in> set session_kinds"
  shows "sp_name p \<noteq> kind @ i"
  using assms by (auto simp: host_processes_def session_kinds_def split: if_splits option.splits)

lemma collect_Inr: "collect_results rs = Inr xs \<Longrightarrow> x \<in> set xs \<Longrightarrow> Inr x \<in> set rs"
  by (induction rs arbitrary: xs) (auto simp: bind_result_def split: sum.splits)

definition session_for :: "chat_env \<Rightarrow> up_command \<Rightarrow> str \<Rightarrow> chat_host \<Rightarrow> chat_error + str" where
  "session_for E cmd i h = (case up_session_id cmd of Some s \<Rightarrow> Inr s | None \<Rightarrow> infer_agent_session_id E i h)"

lemma agent_runtime_session:
  "agent_runtime_of E cmd h i = Inr a \<Longrightarrow> ar_agent_id a = i \<and> session_for E cmd i h = Inr (ar_session_id a)"
  by (auto simp: agent_runtime_of_def session_for_def Let_def bind_result_def split: sum.splits)

lemma built_agents:
  assumes "build_orchestrator_config E fresh fresh_graph listed cmd h = Inr (c, h')" and "a \<in> set (oc_agents c)"
  shows "\<exists>i. agent_runtime_of E cmd h i = Inr a"
proof -
  obtain ids where "collect_results (map (agent_runtime_of E cmd h) ids) = Inr (oc_agents c)"
    using assms(1) by (auto simp: build_orchestrator_config_def Let_def bind_result_def split: sum.splits prod.splits)
  from collect_Inr [OF this assms(2)] show ?thesis by auto
qed

text \<open>Every channel, schedule runner and proactive loop of an agent is given one session, the agent's.\<close>

lemma plan_sessions_agree:
  assumes "build_orchestrator_config E fresh fresh_graph listed cmd h = Inr (c, h')"
    and "p \<in> set (plan_processes c)" and "kind \<in> set session_kinds" and "sp_name p = kind @ i"
  shows "\<exists>sid. session_for E cmd i h = Inr sid \<and> flag_value ''--session-id'' sid p"
proof -
  obtain a where a: "a \<in> set (oc_agents c)" "p \<in> set (agent_processes c a)"
    using assms(2-4) host_process_names by (auto simp: plan_processes_def)
  obtain j where "agent_runtime_of E cmd h j = Inr a" using built_agents [OF assms(1) a(1)] by blast
  with agent_process_session [OF a(2) assms(3,4)] agent_runtime_session show ?thesis by blast
qed

text \<open>
  C32. Installing a worker and then bringing up the plane, with no override, makes every channel, schedule runner and proactive
  loop of that agent use the very session queue that the installed worker was told to claim from.
\<close>

theorem up_serves_installed_worker:
  assumes "install_guest_worker W i h = (t, h1, r)" and "t \<noteq> []"
    and "newline_byte \<notin> set (wi_agent_id i) \<union> set (wi_session_id i)" and "trim_text (wi_session_id i) \<noteq> []"
    and "\<And>c. ch_files h1 (path_join (install_state W i) ''sessiond.env'') = Some c \<Longrightarrow> utf8 c"
    and "build_orchestrator_config (ie_chat W) fresh fresh_graph listed cmd h1 = Inr (c, h2)" and "up_session_id cmd = None"
    and "p \<in> set (plan_processes c)" and "kind \<in> set session_kinds" and "sp_name p = kind @ wi_agent_id i"
  shows "flag_value ''--session-id'' (wi_session_id i) p"
  using plan_sessions_agree [OF assms(6,8-10)] installed_worker_session [OF assms(1-5)] assms(7) by (auto simp: session_for_def)

definition all_kinds :: "str list" where
  "all_kinds = session_kinds @ [''proxy:'']"

lemma kinds_prefix_free: "\<forall>k\<in>set all_kinds. \<forall>k'\<in>set all_kinds. prefix k k' \<longrightarrow> k = k'"
  by code_simp

lemma kinds_apart: "k \<in> set all_kinds \<Longrightarrow> k' \<in> set all_kinds \<Longrightarrow> k @ i = k' @ j \<longleftrightarrow> k = k' \<and> i = j"
  using kinds_prefix_free prefix_same_cases [of k "k @ i" k'] by (metis prefixI same_append_eq)

definition chosen :: "str \<Rightarrow> bool list \<Rightarrow> str list \<Rightarrow> str list" where
  "chosen i bs ks = concat (map2 (\<lambda>b k. if b then [k @ i] else []) bs ks)"

lemma chosen_Cons [simp]: "chosen i (b # bs) (k # ks) = (if b then [k @ i] else []) @ chosen i bs ks" "chosen i [] ks = []"
  by (simp_all add: chosen_def)

lemma chosen_in: "x \<in> set (chosen i bs ks) \<Longrightarrow> \<exists>k\<in>set ks. x = k @ i"
  by (auto simp: chosen_def dest!: set_zip_rightD split: if_splits)

lemma chosen_distinct: "distinct ks \<Longrightarrow> distinct (chosen i bs ks)"
proof (induction ks arbitrary: bs)
  case (Cons k ks)
  have "k @ i \<notin> set (chosen i bs ks)" for bs using chosen_in [of "k @ i" i bs ks] Cons.prems by auto
  with Cons show ?case by (cases bs) simp_all
qed (simp add: chosen_def)

text \<open>The names of an agent's processes: the kinds it uses, in the order of the plan.\<close>

lemma agent_names_eq:
  "map sp_name (agent_processes c a) = chosen (ar_agent_id a)
     [ar_telegram a, ar_slack a \<noteq> None, ar_discord a \<noteq> None, ar_agentmail a \<noteq> None, ar_schedules a, ar_proactive a, ar_proxy a] all_kinds"
  unfolding agent_processes_def all_kinds_def session_kinds_def append_Cons append_Nil chosen_Cons map_append
  by (intro arg_cong2 [of _ _ _ _ append]) (simp_all split: option.splits)

lemma agent_names: "p \<in> set (agent_processes c a) \<Longrightarrow> \<exists>kind\<in>set all_kinds. sp_name p = kind @ ar_agent_id a"
  using agent_names_eq [of c a] chosen_in by (metis image_eqI list.set_map)

lemma agent_names_distinct: "distinct (map sp_name (agent_processes c a))"
proof -
  have "distinct all_kinds" by code_simp
  then show ?thesis unfolding agent_names_eq by (rule chosen_distinct)
qed

lemma agents_names_distinct:
  "distinct (map ar_agent_id as) \<Longrightarrow> distinct (map sp_name (concat (map (agent_processes c) as)))"
proof (induction as)
  case (Cons a as)
  have "sp_name p \<noteq> sp_name q" if p: "p \<in> set (agent_processes c a)" and q: "b \<in> set as" "q \<in> set (agent_processes c b)" for p q b
  proof -
    have "ar_agent_id a \<noteq> ar_agent_id b" using Cons.prems q(1) by auto
    then show ?thesis using agent_names [OF p] agent_names [OF q(2)] kinds_apart by metis
  qed
  then have "set (map sp_name (agent_processes c a)) \<inter> set (map sp_name (concat (map (agent_processes c) as))) = {}" by fastforce
  then show ?case using Cons agent_names_distinct [of c a] by simp
qed simp

lemma host_names_distinct: "distinct (map sp_name (host_processes c))"
  by (simp add: host_processes_def split: option.splits)

lemma host_names: "p \<in> set (host_processes c) \<Longrightarrow> \<exists>n\<in>{''sessiond'', ''graph'', ''a2a'', ''claude-refresh''}. sp_name p = n"
  by (auto simp: host_processes_def split: if_splits option.splits)

lemma host_kinds_apart:
  assumes "n \<in> {''sessiond'', ''graph'', ''a2a'', ''claude-refresh''}" and "k \<in> set all_kinds"
  shows "n \<noteq> k @ i"
proof -
  have "\<forall>n\<in>set [''sessiond'', ''graph'', ''a2a'', ''claude-refresh'']. \<forall>k\<in>set all_kinds. \<not> prefix k n" by code_simp
  then show ?thesis using assms by (metis prefixI list.set(1,2))
qed

text \<open>
  Distinct agents give distinct process names, so a name in the state file says which process it is.
\<close>

lemma plan_names_distinct:
  assumes "distinct (map ar_agent_id (oc_agents c))"
  shows "distinct (map sp_name (plan_processes c))"
proof -
  have "sp_name p \<noteq> sp_name q" if p: "p \<in> set (host_processes c)" and q: "b \<in> set (oc_agents c)" "q \<in> set (agent_processes c b)" for p q b
    using host_names [OF p] agent_names [OF q(2)] host_kinds_apart by metis
  then have "set (map sp_name (host_processes c)) \<inter> set (map sp_name (concat (map (agent_processes c) (oc_agents c)))) = {}" by fastforce
  then show ?thesis using host_names_distinct agents_names_distinct [OF assms] by (simp add: plan_processes_def)
qed

lemma only_sessiond_critical: "filter sp_critical (plan_processes c) = [hd (plan_processes c)]"
proof -
  have "\<not> sp_critical p" if "p \<in> set (agent_processes c a)" for p a
    using that by (auto simp: agent_processes_def split: if_splits option.splits)
  then have "filter sp_critical (concat (map (agent_processes c) as)) = []" for as by (auto simp: filter_empty_conv)
  then show ?thesis by (simp add: plan_processes_def host_processes_def split: option.splits)
qed

section \<open>Redaction hides the tokens\<close>

lemma redact_no_flag: "''--token'' \<notin> set as \<Longrightarrow> redact_args False as = as"
  by (induction as) auto

lemma redact_append: "''--token'' \<notin> set as \<Longrightarrow> redact_args False (as @ bs) = as @ redact_args False bs"
  by (induction as) auto

definition with_tokens :: "str \<Rightarrow> str \<Rightarrow> orchestrator_config \<Rightarrow> orchestrator_config" where
  "with_tokens t g c = c\<lparr>oc_sessiond_token := Some t, oc_graph_token := Some g\<rparr>"

lemma agent_processes_tokens: "agent_processes (with_tokens t g c) = agent_processes c"
  by (rule ext) (simp add: agent_processes_def with_tokens_def split: option.splits)

text \<open>
  What the dry run prints does not depend on the tokens, as long as no bind address is the text of the flag itself: plans
  that differ in their tokens only are redacted to the same plan.
\<close>

lemma redact_hides_tokens:
  assumes "oc_sessiond_bind c \<noteq> ''--token''" and "oc_graph_bind c \<noteq> ''--token''"
  shows "redact_plan (plan_processes (with_tokens t g c)) = redact_plan (plan_processes (with_tokens t' g' c))"
proof -
  have "redact_plan (host_processes (with_tokens t g c)) = redact_plan (host_processes (with_tokens t' g' c))"
    using assms by (simp add: redact_plan_def host_processes_def with_tokens_def)
  then show ?thesis
    unfolding plan_processes_def redact_plan_def map_append agent_processes_tokens by (simp add: with_tokens_def)
qed

text \<open>The flag as an address shifts the redaction: the token is printed.\<close>

lemma redact_confused: "redact_args False [''--bind'', ''--token'', ''--token'', t] = [''--bind'', ''--token'', ''<redacted>'', t]"
  by simp

section \<open>Supervision keeps the plan\<close>

lemma start_plan_processes:
  "start_plan sp ps = Inr ss \<Longrightarrow> map cs_process ss = ps \<and> (\<forall>s\<in>set ss. cs_restarts s = 0)"
  by (induction sp ps arbitrary: ss rule: start_plan.induct) (auto simp: bind_result_def split: option.splits sum.splits)

lemma poll_child_keeps:
  "poll_child a s = Inr (b, s') \<Longrightarrow> cs_process s' = cs_process s \<and> (sp_critical (cs_process s) \<longrightarrow> s' = s)"
  by (auto simp: poll_child_def Let_def split: wait_result.splits if_splits option.splits prod.splits)

lemma poll_children_keeps:
  "poll_children as ss = Inr (bs, ss') \<Longrightarrow> map cs_process ss' = map cs_process ss \<and>
    filter (\<lambda>s. sp_critical (cs_process s)) ss' = filter (\<lambda>s. sp_critical (cs_process s)) ss"
proof (induction as ss arbitrary: bs ss' rule: poll_children.induct)
  case (3 a as s ss)
  then obtain b s1 where c: "poll_child a s = Inr (b, s1)" by (auto simp: bind_result_def split: sum.splits)
  then obtain bs1 ss1 where r: "poll_children as ss = Inr (bs1, ss1)" "ss' = s1 # ss1"
    using "3.prems" by (auto simp: bind_result_def split: sum.splits)
  show ?case using "3.IH" [OF r(1)] poll_child_keeps [OF c] r(2) by auto
qed auto

lemma supervise_keeps:
  "supervise polls ss = Inr ss' \<Longrightarrow> map cs_process ss' = map cs_process ss \<and>
    filter (\<lambda>s. sp_critical (cs_process s)) ss' = filter (\<lambda>s. sp_critical (cs_process s)) ss"
proof (induction polls ss rule: supervise.induct)
  case (2 as polls ss)
  then obtain bs ss1 where p: "poll_children as ss = Inr (bs, ss1)" "supervise polls ss1 = Inr ss'"
    by (auto simp: bind_result_def split: sum.splits)
  from "2.IH" [OF p(2)] poll_children_keeps [OF p(1)] show ?case by simp
qed simp

text \<open>
  As long as the plane is up, its children are exactly the planned processes in the planned order, and the critical ones
  are those that were started, never restarted.
\<close>

lemma supervise_invariant:
  assumes "start_plan spawns plan = Inr ss" and "supervise polls ss = Inr ss'"
  shows "map cs_process ss' = plan \<and> filter (\<lambda>s. sp_critical (cs_process s)) ss' = filter (\<lambda>s. sp_critical (cs_process s)) ss"
  using start_plan_processes [OF assms(1)] supervise_keeps [OF assms(2)] by simp

section \<open>How supervision ends\<close>

text \<open>The exits that the polls of a run see, in order, each with the process and the answer.\<close>

definition exits_of :: "supervised_process list \<Rightarrow> child_answer list \<Rightarrow> (supervised_process \<times> child_answer) list" where
  "exits_of plan as = filter (\<lambda>(p, a). ca_wait a = Exited) (zip plan as)"

definition exits :: "supervised_process list \<Rightarrow> child_answer list list \<Rightarrow> (supervised_process \<times> child_answer) list" where
  "exits plan polls = concat (map (exits_of plan) polls)"

text \<open>The process of the child at \<open>j\<close> after the polls, when they end nothing.\<close>

definition pid_after :: "child_answer list list \<Rightarrow> nat \<Rightarrow> nat \<Rightarrow> nat" where
  "pid_after polls j pid = fold (\<lambda>as q. case (ca_wait (as ! j), ca_spawn (as ! j)) of (Exited, Some (r, _)) \<Rightarrow> r | _ \<Rightarrow> q) polls pid"

lemma pid_after_simps: "pid_after [] j q = q"
  "pid_after (as # polls) j q = pid_after polls j (case (ca_wait (as ! j), ca_spawn (as ! j)) of (Exited, Some (r, _)) \<Rightarrow> r | _ \<Rightarrow> q)"
  by (simp_all add: pid_after_def)

definition fatal :: "supervised_process \<times> child_answer \<Rightarrow> bool" where
  "fatal pa \<longleftrightarrow> sp_critical (fst pa) \<or> ca_spawn (snd pa) = None"

definition fatal_error :: "supervised_process \<Rightarrow> supervise_error" where
  "fatal_error p = (if sp_critical p then CriticalExited (sp_name p) else SpawnFailed (sp_name p))"

lemma find_append: "List.find P (xs @ ys) = (case List.find P xs of None \<Rightarrow> List.find P ys | Some x \<Rightarrow> Some x)"
  by (induction xs) auto

lemma exits_Cons: "exits_of (p # ps) (a # as) = (if ca_wait a = Exited then [(p, a)] else []) @ exits_of ps as"
  "exits plan (as # polls) = exits_of plan as @ exits plan polls" "exits_of ps [] = []" "exits_of [] as = []" "exits plan [] = []"
  by (simp_all add: exits_of_def exits_def)

lemma poll_child_Inl: "poll_child a s = Inl e \<longleftrightarrow>
    ca_wait a = Exited \<and> fatal (cs_process s, a) \<and> e = fatal_error (cs_process s)"
  by (auto simp: poll_child_def Let_def fatal_def fatal_error_def split: wait_result.splits option.splits)

lemma poll_child_Inr: "poll_child a s = Inr (b, s') \<Longrightarrow> \<not> (ca_wait a = Exited \<and> fatal (cs_process s, a)) \<and>
    cs_pid s' = (case (ca_wait a, ca_spawn a) of (Exited, Some (r, _)) \<Rightarrow> r | _ \<Rightarrow> cs_pid s)"
  by (auto simp: poll_child_def Let_def fatal_def split: wait_result.splits option.splits if_splits)

lemma poll_children_spec:
  "length as = length ss \<Longrightarrow> case poll_children as ss of
     Inl e \<Rightarrow> \<exists>x. List.find fatal (exits_of (map cs_process ss) as) = Some x \<and> e = fatal_error (fst x)
   | Inr (bs, ss') \<Rightarrow> List.find fatal (exits_of (map cs_process ss) as) = None \<and>
       (\<forall>j<length ss. cs_pid (ss' ! j) = (case (ca_wait (as ! j), ca_spawn (as ! j)) of (Exited, Some (r, _)) \<Rightarrow> r | _ \<Rightarrow> cs_pid (ss ! j)))"
proof (induction as ss rule: poll_children.induct)
  case (3 a as s ss)
  show ?case
  proof (cases "poll_child a s")
    case (Inl x)
    then show ?thesis using poll_child_Inl [THEN iffD1, OF Inl] by (simp add: bind_result_def exits_Cons)
  next
    case (Inr r)
    note Inr' = this
    obtain b s1 where r: "r = (b, s1)" by (cases r)
    note c = poll_child_Inr [OF Inr [unfolded r]]
    have f: "List.find fatal (exits_of (map cs_process (s # ss)) (a # as)) = List.find fatal (exits_of (map cs_process ss) as)"
      using c by (simp add: exits_Cons)
    have IH: "case poll_children as ss of
        Inl e \<Rightarrow> \<exists>x. List.find fatal (exits_of (map cs_process ss) as) = Some x \<and> e = fatal_error (fst x)
      | Inr (bs, ss') \<Rightarrow> List.find fatal (exits_of (map cs_process ss) as) = None \<and>
          (\<forall>j<length ss. cs_pid (ss' ! j) = (case (ca_wait (as ! j), ca_spawn (as ! j)) of (Exited, Some (r, _)) \<Rightarrow> r | _ \<Rightarrow> cs_pid (ss ! j)))"
      using "3.IH" "3.prems" by simp
    show ?thesis
    proof (cases "poll_children as ss")
      case (Inl e)
      then show ?thesis using IH Inr' r f by (simp add: bind_result_def)
    next
      case (Inr q)
      obtain bs ss1 where q: "q = (bs, ss1)" by (cases q)
      have "cs_pid ((s1 # ss1) ! j) = (case (ca_wait ((a # as) ! j), ca_spawn ((a # as) ! j)) of (Exited, Some (r, _)) \<Rightarrow> r | _ \<Rightarrow> cs_pid ((s # ss) ! j))"
        if "j < length (s # ss)" for j
      proof (cases j)
        case 0
        show ?thesis unfolding 0 nth_Cons_0 by (rule conjunct2 [OF c])
      next
        case (Suc k)
        show ?thesis unfolding Suc nth_Cons_Suc using that IH Inr q Suc by simp
      qed
      then show ?thesis using IH Inr Inr' r q f by (simp add: bind_result_def)
    qed
  qed
qed (simp_all add: exits_Cons)

lemma supervise_spec:
  "\<forall>as\<in>set polls. length as = length ss \<Longrightarrow> case supervise polls ss of
     Inl e \<Rightarrow> \<exists>x. List.find fatal (exits (map cs_process ss) polls) = Some x \<and> e = fatal_error (fst x)
   | Inr ss' \<Rightarrow> List.find fatal (exits (map cs_process ss) polls) = None \<and>
       (\<forall>j<length ss. cs_pid (ss' ! j) = pid_after polls j (cs_pid (ss ! j)))"
proof (induction polls ss rule: supervise.induct)
  case (1 ss)
  then show ?case by (simp add: exits_Cons pid_after_simps)
next
  case (2 as polls ss)
  then have "length as = length ss" by simp
  note P = poll_children_spec [OF this]
  show ?case
  proof (cases "poll_children as ss")
    case (Inl e)
    with P show ?thesis by (auto simp: bind_result_def exits_Cons find_append)
  next
    case (Inr r)
    obtain bs ss1 where r: "r = (bs, ss1)" by (cases r)
    have k: "map cs_process ss1 = map cs_process ss" using poll_children_keeps [OF Inr [unfolded r]] by simp
    then have l: "length ss1 = length ss" by (metis length_map)
    have "case supervise polls ss1 of
       Inl e \<Rightarrow> \<exists>x. List.find fatal (exits (map cs_process ss1) polls) = Some x \<and> e = fatal_error (fst x)
     | Inr ss' \<Rightarrow> List.find fatal (exits (map cs_process ss1) polls) = None \<and>
         (\<forall>j<length ss1. cs_pid (ss' ! j) = pid_after polls j (cs_pid (ss1 ! j)))"
      using "2.IH" "2.prems" l by simp
    with P Inr r show ?thesis
      by (simp add: bind_result_def exits_Cons find_append k l pid_after_simps split: sum.splits)
  qed
qed

lemma critical_name:
  assumes "p \<in> set (plan_processes c)"
  shows "sp_critical p \<longleftrightarrow> sp_name p = ''sessiond''"
proof
  assume "sp_critical p"
  then have "p \<in> set (filter sp_critical (plan_processes c))" using assms by simp
  then show "sp_name p = ''sessiond''" unfolding only_sessiond_critical by (simp add: plan_processes_def host_processes_def)
next
  assume n: "sp_name p = ''sessiond''"
  have "p \<notin> set (agent_processes c a)" for a
    using agent_names [of p c a] n host_kinds_apart [of "''sessiond''"] by auto
  then have "p \<in> set (host_processes c)" using assms by (auto simp: plan_processes_def)
  then show "sp_critical p" using n by (auto simp: host_processes_def split: option.splits if_splits)
qed

text \<open>
  C38. Exactly when the plane goes down. Take the exits that the polls see, in order: the plane ends at the first one that is the
  session daemon's, with \<open>CriticalExited\<close>, or whose process could not be spawned again, with \<open>SpawnFailed\<close> for that process; if there
  is none it is still up, its children are the planned ones, and each has the process of its last restart. A child
  that runs or whose poll fails never ends it and is left alone. Every poll answers for every child.
\<close>

theorem supervise_ends:
  assumes "start_plan spawns (plan_processes c) = Inr ss" and "\<forall>as\<in>set polls. length as = length (plan_processes c)"
  shows "case (supervise polls ss, List.find (\<lambda>(p, a). sp_name p = ''sessiond'' \<or> ca_spawn a = None) (exits (plan_processes c) polls)) of
      (Inl e, Some (p, a)) \<Rightarrow> e = (if sp_name p = ''sessiond'' then CriticalExited ''sessiond'' else SpawnFailed (sp_name p))
    | (Inr ss', None) \<Rightarrow> map cs_process ss' = plan_processes c \<and> (\<forall>j<length ss. cs_pid (ss' ! j) = pid_after polls j (cs_pid (ss ! j)))
    | _ \<Rightarrow> False"
proof -
  have m: "map cs_process ss = plan_processes c" using start_plan_processes [OF assms(1)] by simp
  then have l: "length ss = length (plan_processes c)" by (metis length_map)
  have from_plan: "fst x \<in> set (plan_processes c)" if "x \<in> set (exits (plan_processes c) polls)" for x
    using that by (auto simp: exits_def exits_of_def dest: set_zip_leftD)
  have f: "List.find (\<lambda>(p, a). sp_name p = ''sessiond'' \<or> ca_spawn a = None) (exits (plan_processes c) polls) =
      List.find fatal (exits (plan_processes c) polls)"
    by (rule find_cong [OF refl]) (auto simp: fatal_def critical_name dest!: from_plan)
  note S = supervise_spec [of polls ss, unfolded m l, OF assms(2)]
  show ?thesis
  proof (cases "supervise polls ss")
    case (Inl e)
    with S obtain p a where x: "List.find fatal (exits (plan_processes c) polls) = Some (p, a)" "e = fatal_error p" by auto
    then have "p \<in> set (plan_processes c)" using find_Some_prop [OF x(1)] from_plan by fastforce
    then show ?thesis using x Inl by (simp add: f fatal_error_def critical_name)
  next
    case (Inr ss')
    then show ?thesis using S supervise_keeps [OF Inr] by (simp add: f m l)
  qed
qed

lemma backoff_bounds: "1 \<le> restart_backoff r \<and> restart_backoff r \<le> 16"
  by (simp add: restart_backoff_def)

section \<open>Proactive turns are apart\<close>

lemma maybe_fire_cases:
  assumes "maybe_fire t agent sid gap directive h = (fired, h')"
  shows "fired \<Longrightarrow> pt_checked t - pr_last_fired_ms h \<ge> gap_ms gap \<and> \<not> is_idle t agent (pr_chat h)"
    and "fired \<Longrightarrow> pt_saved t \<Longrightarrow> pr_last_fired_ms h' = pt_fired t" and "\<not> fired \<Longrightarrow> pr_last_fired_ms h' = pr_last_fired_ms h"
  using assms by (auto simp: maybe_fire_def should_fire_def split: if_splits option.splits prod.splits sum.splits)

fun in_order :: "int \<Rightarrow> proactive_tick list \<Rightarrow> bool" where
  "in_order t [] = True"
| "in_order t (x # xs) = (t \<le> pt_checked x \<and> pt_checked x \<le> pt_fired x \<and> in_order (pt_fired x) xs)"

text \<open>
  With a clock that does not go back and a state file that can be written, two proactive turns are at least the minimal
  gap apart, and the first is that far from the turn recorded before.
\<close>

lemma proactive_spaced:
  assumes "list_all pt_saved ticks" and "0 \<le> gap_ms gap"
    and "in_order start ticks"
  shows "sorted_wrt (\<lambda>a b. pt_fired a + gap_ms gap \<le> pt_checked b) (fst (proactive_serve agent sid gap directive ticks h))
    \<and> list_all (\<lambda>t. pr_last_fired_ms h + gap_ms gap \<le> pt_checked t) (fst (proactive_serve agent sid gap directive ticks h))"
  using assms(1,3)
proof (induction ticks arbitrary: h start)
  case (Cons t ts)
  obtain fired h1 where m: "maybe_fire t agent sid gap directive h = (fired, h1)" by fastforce
  obtain rest h2 where r: "proactive_serve agent sid gap directive ts h1 = (rest, h2)" by fastforce
  have IH: "sorted_wrt (\<lambda>a b. pt_fired a + gap_ms gap \<le> pt_checked b) rest" "list_all (\<lambda>t. pr_last_fired_ms h1 + gap_ms gap \<le> pt_checked t) rest"
    using Cons.IH [of "pt_fired t" h1] Cons.prems r by simp_all
  have out: "fst (proactive_serve agent sid gap directive (t # ts) h) = (if fired then [t] else []) @ rest" using m r by simp
  show ?case
  proof (cases fired)
    case True
    have last: "pr_last_fired_ms h1 = pt_fired t" "pr_last_fired_ms h + gap_ms gap \<le> pt_checked t"
      using maybe_fire_cases [OF m] True Cons.prems by auto
    then have "pr_last_fired_ms h + gap_ms gap \<le> pr_last_fired_ms h1 + gap_ms gap" using assms(2) Cons.prems by simp
    with IH(2) have "list_all (\<lambda>t. pr_last_fired_ms h + gap_ms gap \<le> pt_checked t) rest" by (auto simp: list_all_iff)
    then show ?thesis unfolding out using True last IH by (simp add: list_all_iff)
  next
    case False
    then show ?thesis unfolding out using maybe_fire_cases(3) [OF m] IH by simp
  qed
qed simp

text \<open>Without the state file the gap is not kept: the loop fires at every wake-up.\<close>

lemma unsaved_nags:
  assumes "maybe_fire t agent sid gap directive h = (True, h')" and "\<not> pt_saved t"
  shows "pr_last_fired_ms h' = pr_last_fired_ms h"
  using assms by (auto simp: maybe_fire_def split: if_splits option.splits prod.splits sum.splits)

text \<open>The bundled agents' queue is not the one a hook uses.\<close>

lemma hook_session_differs: "default_session_id ''codex-firecracker'' \<noteq> ''codex-firecracker'' @ ''-main''"
  by (simp add: default_session_id_def)

section \<open>A concrete plane\<close>

definition demo_up :: up_command where
  "demo_up = \<lparr> up_agent_ids = [''a''], up_sessiond_bind = ''b'', up_sessiond_token = Some ''t'', up_session_id = None, up_telegram_token_source = ''s'',
     up_no_telegram = False, up_no_schedules = False, up_no_proactive = False, up_channel_poll_seconds = 5, up_schedule_poll_seconds = 60 \<rparr>"

definition demo_installed_host :: chat_host where
  "demo_installed_host = fst (snd (install_guest_worker demo_worker_env demo_guest_install demo_pinned_host))"

lemma demo_plane:
  "(case build_orchestrator_config demo_chat_env ''f'' ''g'' [] demo_up demo_installed_host of
     Inl _ \<Rightarrow> False | Inr (c, _) \<Rightarrow> map sp_name (plan_processes c) = [''sessiond'', ''a2a'', ''schedule:a'', ''proactive:a''])"
  by code_simp

theorem up_serves_installed_worker_witness:
  "\<exists>c h2 p. build_orchestrator_config demo_chat_env ''f'' ''g'' [] demo_up demo_installed_host = Inr (c, h2) \<and> p \<in> set (plan_processes c) \<and>
     sp_name p = ''schedule:a'' \<and> sublist [''--session-id'', ''s''] (sp_args p)"
proof -
  obtain t r where i: "install_guest_worker demo_worker_env demo_guest_install demo_pinned_host = (t, demo_installed_host, r)"
    unfolding demo_installed_host_def by (metis prod.collapse)
  then have t: "t \<noteq> []" using demo_install_paths(3) by auto
  have plain: "newline_byte \<notin> set (wi_agent_id demo_guest_install) \<union> set (wi_session_id demo_guest_install)" "trim_text (wi_session_id demo_guest_install) \<noteq> []" by code_simp+
  have "(case ch_files demo_installed_host (path_join (install_state demo_worker_env demo_guest_install) ''sessiond.env'') of Some c \<Rightarrow> utf8 c | None \<Rightarrow> True)" by code_simp
  then have utf: "ch_files demo_installed_host (path_join (install_state demo_worker_env demo_guest_install) ''sessiond.env'') = Some c \<Longrightarrow> utf8 c" for c by simp
  have env: "ie_chat demo_worker_env = demo_chat_env" "wi_agent_id demo_guest_install = ''a''" "wi_session_id demo_guest_install = ''s''"
    by (simp_all add: demo_worker_env_def demo_guest_install_def)
  obtain c h2 where b: "build_orchestrator_config demo_chat_env ''f'' ''g'' [] demo_up demo_installed_host = Inr (c, h2)"
    "map sp_name (plan_processes c) = [''sessiond'', ''a2a'', ''schedule:a'', ''proactive:a'']"
    using demo_plane by (auto split: sum.splits prod.splits)
  have "''schedule:a'' \<in> set (map sp_name (plan_processes c))" unfolding b(2) by simp
  then obtain p where p: "p \<in> set (plan_processes c)" "sp_name p = ''schedule:a''" by auto
  have "up_session_id demo_up = None" "''schedule:'' \<in> set session_kinds" "sp_name p = ''schedule:'' @ wi_agent_id demo_guest_install"
    using p(2) by (simp_all add: demo_up_def session_kinds_def env)
  from up_serves_installed_worker [OF i t plain utf b(1) [folded env(1)] this(1) p(1) this(2,3)] show ?thesis using b(1) p unfolding env by blast
qed

definition demo_orchestrator :: orchestrator_config where
  "demo_orchestrator = \<lparr> oc_sessiond_bind = ''b'', oc_sessiond_token = None, oc_channel_poll_seconds = 5, oc_schedule_poll_seconds = 60, oc_agents = [],
     oc_graph_bind = ''g'', oc_graph_token = Some ''t'', oc_claude_refresh_agents = [] \<rparr>"

text \<open>The poll of the session daemon fails while the graph process is restarted; then the session daemon exits.\<close>

theorem supervise_ends_witness:
  "\<exists>ss. start_plan [Some (1, 0), Some (2, 0)] (plan_processes demo_orchestrator) = Inr ss \<and>
     (\<exists>e. supervise [[\<lparr> ca_wait = PollFailed, ca_now = 2, ca_spawn = None \<rparr>, \<lparr> ca_wait = Exited, ca_now = 2, ca_spawn = Some (3, 3) \<rparr>],
       [\<lparr> ca_wait = Exited, ca_now = 9, ca_spawn = None \<rparr>, \<lparr> ca_wait = Running, ca_now = 9, ca_spawn = None \<rparr>]] ss = Inl e \<and> e = CriticalExited ''sessiond'')"
proof -
  let ?polls = "[[\<lparr> ca_wait = PollFailed, ca_now = 2, ca_spawn = None \<rparr>, \<lparr> ca_wait = Exited, ca_now = 2, ca_spawn = Some (3, 3) \<rparr>],
       [\<lparr> ca_wait = Exited, ca_now = 9, ca_spawn = None \<rparr>, \<lparr> ca_wait = Running, ca_now = 9, ca_spawn = None \<rparr>]]"
  have plan: "plan_processes demo_orchestrator = [\<lparr> sp_name = ''sessiond'', sp_args = [''session'', ''serve'', ''--bind'', ''b''], sp_critical = True \<rparr>,
      runner ''graph'' [''graph'', ''serve'', ''--bind'', ''g'', ''--token'', ''t'']]"
    by (simp add: demo_orchestrator_def plan_processes_def host_processes_def)
  obtain ss where s: "start_plan [Some (1, 0), Some (2, 0)] (plan_processes demo_orchestrator) = Inr ss"
    by (simp add: bind_result_def plan)
  have "\<forall>as\<in>set ?polls. length as = length (plan_processes demo_orchestrator)" by (simp add: plan)
  from supervise_ends [OF s this] have "\<exists>e. supervise ?polls ss = Inl e \<and> e = CriticalExited ''sessiond''"
    by (simp add: plan exits_Cons split: sum.splits)
  with s show ?thesis by blast
qed

end
