(* ===== verification/Spec2Isabelle.thy ===== *)
theory Spec2Isabelle
  imports Session_Queue Task_Board Orch_Loop Board_Commands Graph_Wal Delivery Snapshots Web_Auth Plugins Schedules Runtime_Plane
begin

text \<open>
  Maturana runs AI agents, each in a virtual machine of its own, and lets them work together: a coordinator agent
  plans, a loop on the host hands the steps of the plan or the cards of a board to worker agents, users talk to the
  agents over chat channels, and everything an agent sends to the network goes through a proxy of the host. This
  library models the host side of that, the Rust code under \<open>src/crates/\<close>, and proves what each part promises.

  \<^bold>\<open>The parts and their theories\<close>

  Shared. \<open>Maturana_Prelude\<close> has the Rust types' names, the string routines on characters, first-match access to a
  vector of records and saturating arithmetic; \<open>Text_Bytes\<close> the same for text kept as UTF-8 bytes; \<open>Ordered_Map\<close>
  \<open>BTreeMap\<close>; \<open>Dep_Graph\<close> the marks and the invariant of both cycle checkers, with the interface
  \<open>validated_graph\<close> a dispatcher rests on.

  Orchestration. \<open>Run_Budget\<close> (\<open>maturana-core/src/orchestrator_budget.rs\<close>): caps, overrides, turns, ticks, slots.
  \<open>Roles\<close> (\<open>maturana-core/src/roles.rs\<close>): role registry and merge. \<open>Planner\<close> (\<open>maturana-ops/src/planner.rs\<close>): plans,
  validation, extraction of the JSON plan, prompts and verdicts. \<open>Placement\<close> (\<open>maturana-ops/src/placement.rs\<close>,
  \<open>maturana-core/src/orchestrator_spawn.rs\<close>): resolving a role to an agent or a VM, addresses. \<open>Verify\<close>
  (\<open>maturana-ops/src/verification.rs\<close>). \<open>Orch_Loop\<close> (\<open>run_inner\<close> of \<open>maturana-cli/src/orchestrate.rs\<close>): planning,
  stop ladder, steps, review rounds, verification and delivery, over an environment that answers for the agents.

  Boards. \<open>Task_Board\<close> (\<open>maturana-core/src/board.rs\<close>): cards, validation, readiness. \<open>Board_Ops\<close>
  (\<open>maturana-ops/src/boards.rs\<close>). \<open>Dispatcher\<close> and \<open>Board_Run\<close> (\<open>run_board\<close>, \<open>run_board_inner\<close>, \<open>parallel_dispatch\<close>,
  \<open>judge_card\<close>): claiming, sending, settling, retrying, closing. \<open>Board_Guard\<close>: what a run keeps
  of the board and the world around it. \<open>Board_Commands\<close> (\<open>handle_board\<close>): every command, a run on the same directory
  included, and the delivery of a card's result.

  Messages. \<open>Session_Queue\<close> (\<open>maturana-core/src/session_db.rs\<close>): the two SQLite databases of a session as one
  record. \<open>Sessiond\<close> (\<open>maturana-cli/src/session.rs\<close>): the daemon workers talk to, from the bytes of a connection to
  the sessions of every agent; its operations are those of \<open>Session_Queue\<close>. \<open>Telegram\<close>
  (\<open>maturana-cli/src/channels/telegram*.rs\<close>, the loop in \<open>channels.rs\<close>): what an update asks for, pairing, and the order
  of effects on the host. \<open>Delivery\<close> (\<open>channels/delivery.rs\<close>): the outbox loop of every channel, over \<open>Session_Queue\<close> and
  beside other processes that do the same. \<open>Conversation\<close> (\<open>maturana-ops/src/conversation.rs\<close>): transcripts, memory,
  prompts and the turns they become. \<open>Schedules\<close> (\<open>maturana-cli/src/personal.rs\<close>): cron expressions and the schedule runner.

  Agents and their machines. \<open>Mcp_Config\<close> (\<open>maturana-core/src/mcp.rs\<close>): tool servers in the harness's configuration.
  \<open>Guest_Worker\<close> (\<open>maturana-ops/src/guest_worker.rs\<close>, \<open>agents.rs\<close>, \<open>ssh.rs\<close>, \<open>maturana-core/src/worker.rs\<close>, \<open>ssh_pin.rs\<close>): the
  files of a guest and their installation over SSH. \<open>Vm_Provider\<close> (\<open>maturana-core/src/providers/firecracker.rs\<close>): the launch
  plan, its check, and the machine between process-id file, socket and process table. \<open>Fleet\<close>
  (\<open>maturana-core/src/materialize.rs\<close>, \<open>maturana-ops/src/firecracker.rs\<close>): collisions, materializing, profiles, images.
  \<open>Runtime_Plane\<close> (\<open>maturana-core/src/orchestrator.rs\<close>, \<open>maturana-cli/src/commands/up.rs\<close>, \<open>proactive.rs\<close>): the processes of
  the host and their supervision.

  Guards and data. \<open>Agent_Spec\<close> (\<open>maturana-core/src/spec.rs\<close>, \<open>validation.rs\<close>): the specification of an agent.
  \<open>Egress_Proxy\<close> (\<open>maturana-core/src/pipelock_proxy.rs\<close>). \<open>Web_Auth\<close> (\<open>maturana-web/src/auth.rs\<close> and the router).
  \<open>Snapshots\<close> (\<open>maturana-core/src/snapshots.rs\<close>). \<open>Plugins\<close> (\<open>maturana-plugin/src/lib.rs\<close>,
  \<open>maturana-ops/src/plugins.rs\<close>). \<open>Graph_Store\<close> and \<open>Graph_Wal\<close> (\<open>maturana-graph/src/\<close>): the knowledge graph and its log.

  \<^bold>\<open>How the model reads\<close>

  A struct is a record, an enum a datatype, \<open>Result\<close> a sum with the error on the left, \<open>Option\<close> an option. Code that
  changes state takes and returns it; a loop over a collection is a recursive function over the list. What the host
  answers (agents, sockets, child processes, clocks, random ids, file operations that may fail) is an argument: an
  environment record, or a script with one answer per call. JSON, YAML and TOML text is a parameter with the round trip
  as a named hypothesis where it is used. Where the code may stop in the middle, the state at every point is a value of
  the model: a prefix of effects (\<open>Telegram\<close>), of bytes (\<open>Graph_Wal\<close>), or the state beside the error (\<open>Board_Run\<close>,
  \<open>Snapshots\<close>, \<open>Plugins\<close>, \<open>Vm_Provider\<close>), or a trace of the commands issued (\<open>Guest_Worker\<close>). Other processes are
  steps between those of the model: of the other deliverers in \<open>Delivery\<close>, of the host in \<open>Vm_Provider\<close>.

  Machine integers are kept where they can wrap or saturate: the budget's counters are words, and the byte difference of
  the token comparison is one. Identifiers of chats are integers of any size; attempts of a message, counted by SQLite, are
  natural numbers. Text is a list of characters, one per Unicode scalar below 256 in the theories over
  \<open>Maturana_Prelude\<close>; in those over \<open>Text_Bytes\<close> (\<open>Graph_Wal\<close>, \<open>Egress_Proxy\<close>, \<open>Agent_Spec\<close>, \<open>Sessiond\<close>,
  \<open>Telegram\<close>, \<open>Delivery\<close>, \<open>Snapshots\<close>, \<open>Web_Auth\<close>, \<open>Plugins\<close>, and those that deal with agents and their
  machines) it is the UTF-8 bytes, and the routines that depend on whole characters decode them. Emoji and dashes of messages are bytes or parameters. Case is changed for ASCII only where the source's
  \<open>to_lowercase\<close> meets a fixed list of ASCII words. The order of a hash map is a permutation the theorem
  quantifies over. Paths are compared as written; the host is Linux, and \<open>cfg!(windows)\<close> branches are left out.

  \<^bold>\<open>Termination and fuel\<close>

  The depth-first search of boards is the only function with fuel: its depth is at most the number of cards, so one more
  is enough, and \<open>board_validate_terminates\<close> shows that it always answers. Every other loop is a total function with
  its termination proved: the search of plans on its explicit stack by a measure that counts the unfinished steps and the
  edges left, and its index accesses are shown to be in range; breadth-first expansion by the nodes not seen yet and the
  queue; the loops of orchestration and board runs by the ticks left in the budget, whatever the agents answer; review
  rounds by the cycles left; reading a request by the chunks a client sends.

  \<^bold>\<open>What is shown\<close>

  Bounds: turns, tasks and attempts never exceed the caps, over any sequence of calls and with any answers. Order: a
  step or card that is done has its dependencies done; a validated board drains. Exactness: validation of boards and
  plans accepts exactly the graphs without cycles; a claim hands out exactly the first claimable rows; expansion,
  upstream requests, delivery passes, permissions and installation are described completely. Isolation: the proxy
  connects only to allowed hosts and sends a secret only to its host; the daemon touches only sessions with valid
  identifiers; a Telegram chat or a browser acts only with a code, a token or a session that was really issued; a stop
  or a plugin path stays where it belongs. Durability: the graph survives a crash at any byte (a record cut inside a character
  is kept, but has to be cut off by hand), a restore never loses the disk it replaces, a reply is sent at most once, a schedule
  fires at most once a minute. Machines: one per socket, a new one started from exactly the configuration that was checked,
  no two agents on the same addresses or root image, a pinned guest always verified, its live credentials kept. Refinement: the
  indexed store is the graph of two maps, the allowlist test is the one on domain labels.

  The interfaces are locales, each interpreted on the model's definitions: \<open>validated_graph\<close> (what a dispatcher needs of
  a board or a plan to be sure it drains), \<open>countdown\<close> (turns and ticks), \<open>once_gate\<close> (who may deliver a reply),
  \<open>guarded_world\<close> (what a board run leaves alone), \<open>settling\<close> (the last writer of a node or an edge in a log) and \<open>session_route\<close> (what a route of the daemon may do to a
  session).

  \<^bold>\<open>Not modelled\<close>

  The launch of Hyper-V guests, guest images and the shell scripts of the guests (templates as text); HTTP clients of
  Discord, Slack, AgentMail and speech; vector similarity and the retrieval built on floating point; document ingestion,
  encryption and the WebAssembly engine (libraries), with the files it keeps for a forged tool; the console's handlers behind
  the gate and its JavaScript; hooks; web search; the scoring of learned skills (floating point); the wire format of messages
  between agents; repairing a fleet and spawning a worker; argument parsing and printing.
\<close>

end
